(* ===== verification/Era_Prelude.thy ===== *)
theory Era_Prelude
  imports Main "HOL-Library.Word" "HOL-Library.List_Lexorder"
begin

text \<open>
  Shared vocabulary of the development: bytes and Rust strings, \<open>Result\<close> values,
  big-endian integers, UTF-8 validity, slices, and the generic lemmas on them that
  every component uses. A Rust \<open>u8\<close> is an \<^typ>\<open>8 word\<close>, \<open>u32\<close> and \<open>u64\<close> are
  32-bit and 64-bit words, a \<open>usize\<close> is a \<^typ>\<open>nat\<close> with the 64-bit limit written out
  where the code checks it, and a Rust \<open>String\<close> is the list of its UTF-8 bytes.
\<close>

named_theorems era_defs "definitions that component proofs unfold"
named_theorems reads_intros "composition rules for cursor readers against encoders"
named_theorems parses_intros "composition rules for the canonicity of cursor readers"

type_synonym byte = "8 word"
type_synonym bytes = "byte list"
type_synonym rstring = bytes
type_synonym u32 = "32 word"
type_synonym u64 = "64 word"

abbreviation Err :: "'e \<Rightarrow> 'e + 'a" where "Err \<equiv> Inl"
abbreviation Ok :: "'a \<Rightarrow> 'e + 'a" where "Ok \<equiv> Inr"

definition USIZE_LIMIT :: nat where
  "USIZE_LIMIT = 2 ^ 64"

text \<open>The language's limit on every slice and vector: at most \<open>isize::MAX\<close> bytes.\<close>

definition fits_memory :: "bytes \<Rightarrow> bool" where
  "fits_memory bs \<longleftrightarrow> length bs < 2 ^ 63"

definition fits_u32 :: "nat \<Rightarrow> bool" where
  "fits_u32 n \<longleftrightarrow> n < 2 ^ 32"

text \<open>Evaluation of the two bounds in binary.\<close>

lemma fits_memory_code [code]: "fits_memory bs \<longleftrightarrow> int (length bs) < 9223372036854775808"
  by (simp add: fits_memory_def)

lemma fits_u32_code [code]: "fits_u32 n \<longleftrightarrow> int n < 4294967296"
  by (simp add: fits_u32_def)

section \<open>Results\<close>

definition bind_result :: "'e + 'a \<Rightarrow> ('a \<Rightarrow> 'e + 'b) \<Rightarrow> 'e + 'b" where
  "bind_result r f = (case r of Inl e \<Rightarrow> Inl e | Inr x \<Rightarrow> f x)"

definition map_err :: "('e \<Rightarrow> 'f) \<Rightarrow> 'e + 'a \<Rightarrow> 'f + 'a" where
  "map_err f r = (case r of Inl e \<Rightarrow> Inl (f e) | Inr x \<Rightarrow> Inr x)"

definition ok_or :: "'e \<Rightarrow> 'a option \<Rightarrow> 'e + 'a" where
  "ok_or e m = (case m of None \<Rightarrow> Inl e | Some x \<Rightarrow> Inr x)"

lemma bind_result_simps [simp]:
  "bind_result (Inl e) f = Inl e"
  "bind_result (Inr x) f = f x"
  by (simp_all add: bind_result_def)

lemma bind_result_Inr_iff:
  "bind_result r f = Inr y \<longleftrightarrow> (\<exists>x. r = Inr x \<and> f x = Inr y)"
  by (cases r) simp_all

lemma map_err_simps [simp]:
  "map_err f (Inl e) = Inl (f e)"
  "map_err f (Inr x) = Inr x"
  by (simp_all add: map_err_def)

lemma map_err_Inr_iff [simp]: "map_err f r = Inr x \<longleftrightarrow> r = Inr x"
  by (cases r) simp_all

lemma case_map_err:
  "(case map_err f r of Inl _ \<Rightarrow> a | Inr x \<Rightarrow> g x) = (case r of Inl _ \<Rightarrow> a | Inr x \<Rightarrow> g x)"
  by (cases r) simp_all

lemma ok_or_simps [simp]:
  "ok_or e None = Inl e"
  "ok_or e (Some x) = Inr x"
  by (simp_all add: ok_or_def)

lemma ok_or_Inr_iff: "ok_or e m = Inr x \<longleftrightarrow> m = Some x"
  by (cases m) simp_all

section \<open>Byte strings\<close>

definition bstr :: "string \<Rightarrow> bytes" where
  "bstr s = map (\<lambda>c. word_of_nat (of_char c)) s"

lemma bstr_simps [simp]:
  "bstr [] = []"
  "bstr (c # cs) = word_of_nat (of_char c) # bstr cs"
  by (simp_all add: bstr_def)

lemma bstr_code [code]: "bstr s = map (\<lambda>c. word_of_int (of_char c)) s"
  by (simp add: bstr_def of_nat_of_char of_int_of_char)

lemma length_bstr [simp]: "length (bstr s) = length s"
  by (simp add: bstr_def)

definition strip_prefix :: "'a list \<Rightarrow> 'a list \<Rightarrow> 'a list option" where
  "strip_prefix p xs = (if take (length p) xs = p then Some (drop (length p) xs) else None)"

lemma strip_prefix_append [simp]: "strip_prefix p (p @ xs) = Some xs"
  by (simp add: strip_prefix_def)

lemma strip_prefix_Some_iff: "strip_prefix p xs = Some ys \<longleftrightarrow> xs = p @ ys"
  by (auto simp: strip_prefix_def) (metis append_take_drop_id)

definition starts_with :: "'a list \<Rightarrow> 'a list \<Rightarrow> bool" where
  "starts_with p xs \<longleftrightarrow> take (length p) xs = p"

lemma starts_with_append [simp]: "starts_with p (p @ xs)"
  by (simp add: starts_with_def)

lemma starts_with_iff: "starts_with p xs \<longleftrightarrow> (\<exists>ys. xs = p @ ys)"
  by (auto simp: starts_with_def) (metis append_take_drop_id)

text \<open>A slice \<open>xs[i..j]\<close>: \<open>None\<close> where Rust panics.\<close>

definition slice :: "'a list \<Rightarrow> nat \<Rightarrow> nat \<Rightarrow> 'a list option" where
  "slice xs i j = (if i \<le> j \<and> j \<le> length xs then Some (take (j - i) (drop i xs)) else None)"

definition range_of :: "'a list \<Rightarrow> nat \<Rightarrow> nat \<Rightarrow> 'a list" where
  "range_of xs i j = take (j - i) (drop i xs)"

lemma slice_Some: "i \<le> j \<Longrightarrow> j \<le> length xs \<Longrightarrow> slice xs i j = Some (range_of xs i j)"
  by (simp add: slice_def range_of_def)

lemma range_of_append:
  "i \<le> j \<Longrightarrow> j \<le> k \<Longrightarrow> range_of xs i j @ range_of xs j k = range_of xs i k"
proof -
  assume le: "i \<le> j" "j \<le> k"
  have "range_of xs j k = take (k - j) (drop (j - i) (drop i xs))"
    using le by (simp add: range_of_def)
  then have "range_of xs i j @ range_of xs j k = take (j - i + (k - j)) (drop i xs)"
    unfolding range_of_def by (simp add: take_add)
  then show ?thesis
    using le by (simp add: range_of_def)
qed

lemma range_of_same [simp]: "range_of xs i i = []"
  by (simp add: range_of_def)

lemma range_of_full [simp]: "range_of xs 0 (length xs) = xs"
  by (simp add: range_of_def)

lemma range_of_Suc: "i < j \<Longrightarrow> j \<le> length xs \<Longrightarrow> range_of xs i j = xs ! i # range_of xs (Suc i) j"
  by (simp add: range_of_def Cons_nth_drop_Suc [symmetric] Suc_diff_Suc [symmetric])

lemma length_range_of: "j \<le> length xs \<Longrightarrow> length (range_of xs i j) = j - i"
  by (simp add: range_of_def)

text \<open>The decimal form that \<open>format!\<close> gives an unsigned integer.\<close>

fun decimal :: "nat \<Rightarrow> bytes" where
  "decimal n = (if n < 10 then [word_of_nat (48 + n)] else decimal (n div 10) @ [word_of_nat (48 + n mod 10)])"

declare decimal.simps [simp del]

section \<open>Big-endian integers\<close>

fun to_be :: "nat \<Rightarrow> nat \<Rightarrow> bytes" where
  "to_be 0 v = []"
| "to_be (Suc n) v = word_of_nat (v div 256 ^ n) # to_be n v"

definition from_be :: "bytes \<Rightarrow> nat" where
  "from_be bs = foldl (\<lambda>acc b. acc * 256 + unat b) 0 bs"

lemma length_to_be [simp]: "length (to_be n v) = n"
  by (induction n) simp_all

lemma foldl_be: "foldl (\<lambda>acc b. acc * 256 + unat b) a bs = a * 256 ^ length bs + from_be bs"
proof (induction bs arbitrary: a)
  case Nil
  then show ?case by (simp add: from_be_def)
next
  case (Cons b bs)
  have "from_be (b # bs) = unat b * 256 ^ length bs + from_be bs"
    using Cons [of "unat b"] by (simp add: from_be_def)
  then show ?case
    using Cons [of "a * 256 + unat b"] by (simp add: algebra_simps)
qed

lemma from_be_Nil [simp]: "from_be [] = 0"
  by (simp add: from_be_def)

lemma from_be_Cons: "from_be (b # bs) = unat b * 256 ^ length bs + from_be bs"
  using foldl_be [of "unat b" bs] by (simp add: from_be_def)

lemma from_be_bound: "from_be bs < 256 ^ length bs"
proof (induction bs)
  case Nil
  then show ?case by simp
next
  case (Cons b bs)
  have "unat b < 256"
    using unsigned_less [of b] by simp
  then have "unat b + 1 \<le> 256" by simp
  then have "(unat b + 1) * 256 ^ length bs \<le> 256 * 256 ^ length bs"
    by (rule mult_le_mono1)
  then have "unat b * 256 ^ length bs + 256 ^ length bs \<le> 256 ^ length (b # bs)"
    by simp
  with Cons show ?case by (simp only: from_be_Cons)
qed

lemma from_be_to_be: "from_be (to_be n v) = v mod 256 ^ n"
proof (induction n)
  case 0
  then show ?case by simp
next
  case (Suc n)
  have byte: "unat (word_of_nat (v div 256 ^ n) :: byte) = v div 256 ^ n mod 256"
    by (simp add: unsigned_of_nat take_bit_nat_def)
  have "v mod 256 ^ Suc n = v mod (256 ^ n * 256)"
    by (simp add: mult.commute)
  also have "\<dots> = 256 ^ n * (v div 256 ^ n mod 256) + v mod 256 ^ n"
    by (rule mod_mult2_eq)
  finally show ?case
    using Suc byte by (simp add: from_be_Cons mult.commute)
qed

lemma to_be_add_multiple: "to_be n (k * 256 ^ n + v) = to_be n v"
proof (induction n arbitrary: k)
  case 0
  then show ?case by simp
next
  case (Suc n)
  have "(k * 256 ^ Suc n + v) div 256 ^ n = k * 256 + v div 256 ^ n"
    by (simp add: div_mult_self3 mult.assoc [symmetric])
  moreover have "(word_of_nat (k * 256 + v div 256 ^ n) :: byte) = word_of_nat (v div 256 ^ n)"
    by (simp only: word_of_nat_eq_iff take_bit_nat_def) simp
  moreover have "to_be n (k * 256 ^ Suc n + v) = to_be n v"
    using Suc [of "k * 256"] by (simp add: mult.assoc)
  ultimately show ?case by simp
qed

lemma to_be_from_be: "to_be (length bs) (from_be bs) = bs"
proof (induction bs)
  case Nil
  then show ?case by simp
next
  case (Cons b bs)
  have "(unat b * 256 ^ length bs + from_be bs) div 256 ^ length bs = unat b"
    using from_be_bound [of bs] by (simp add: div_mult_self3)
  then show ?case
    using Cons by (simp add: from_be_Cons to_be_add_multiple)
qed

definition u32_to_be_bytes :: "u32 \<Rightarrow> bytes" where
  "u32_to_be_bytes w = to_be 4 (unat w)"

definition u32_from_be_bytes :: "bytes \<Rightarrow> u32" where
  "u32_from_be_bytes bs = word_of_nat (from_be bs)"

definition u64_to_be_bytes :: "u64 \<Rightarrow> bytes" where
  "u64_to_be_bytes w = to_be 8 (unat w)"

definition u64_from_be_bytes :: "bytes \<Rightarrow> u64" where
  "u64_from_be_bytes bs = word_of_nat (from_be bs)"

text \<open>Evaluation of the encodings in binary.\<close>

fun to_be_int :: "nat \<Rightarrow> int \<Rightarrow> bytes" where
  "to_be_int 0 v = []"
| "to_be_int (Suc n) v = word_of_int (v div 256 ^ n) # to_be_int n v"

definition from_be_int :: "bytes \<Rightarrow> int" where
  "from_be_int bs = foldl (\<lambda>acc b. acc * 256 + uint b) 0 bs"

lemma to_be_int: "to_be_int n (int v) = to_be n v"
proof (induction n)
  case (Suc n)
  have "(word_of_int (int v div 256 ^ n) :: byte) = word_of_int (int (v div 256 ^ n))"
    by (simp add: zdiv_int)
  also have "\<dots> = word_of_nat (v div 256 ^ n)"
    by (simp only: of_int_of_nat_eq)
  finally show ?case by (simp add: Suc)
qed simp

lemma foldl_be_int:
  "foldl (\<lambda>acc b. acc * 256 + uint b) (int a) bs = int (foldl (\<lambda>acc b. acc * 256 + unat b) a bs)"
proof (induction bs arbitrary: a)
  case (Cons b bs)
  show ?case using Cons [of "a * 256 + unat b"] by simp
qed simp

lemma from_be_int: "from_be_int bs = int (from_be bs)"
  using foldl_be_int [of 0 bs] by (simp add: from_be_int_def from_be_def)

lemma be_bytes_code [code]:
  "u32_to_be_bytes w = to_be_int 4 (uint w)"
  "u64_to_be_bytes w' = to_be_int 8 (uint w')"
  using to_be_int [of 4 "unat w"] to_be_int [of 8 "unat w'"]
  by (simp_all add: u32_to_be_bytes_def u64_to_be_bytes_def)

lemma from_be_bytes_code [code]:
  "u32_from_be_bytes bs = word_of_int (from_be_int bs)"
  "u64_from_be_bytes bs = word_of_int (from_be_int bs)"
  by (simp_all add: u32_from_be_bytes_def u64_from_be_bytes_def from_be_int)

lemma length_u32_to_be [simp]: "length (u32_to_be_bytes w) = 4"
  by (simp add: u32_to_be_bytes_def)

lemma length_u64_to_be [simp]: "length (u64_to_be_bytes w) = 8"
  by (simp add: u64_to_be_bytes_def)

lemma u32_from_to_be [simp]: "u32_from_be_bytes (u32_to_be_bytes w) = w"
proof -
  have "unat w < 2 ^ 32"
    using unsigned_less [of w] by simp
  then have "unat w mod 256 ^ 4 = unat w" by simp
  then show ?thesis
    by (simp add: u32_from_be_bytes_def u32_to_be_bytes_def from_be_to_be)
qed

lemma u64_from_to_be [simp]: "u64_from_be_bytes (u64_to_be_bytes w) = w"
proof -
  have "unat w < 2 ^ 64"
    using unsigned_less [of w] by simp
  then have "unat w mod 256 ^ 8 = unat w" by simp
  then show ?thesis
    by (simp add: u64_from_be_bytes_def u64_to_be_bytes_def from_be_to_be)
qed

lemma u32_to_from_be: "length bs = 4 \<Longrightarrow> u32_to_be_bytes (u32_from_be_bytes bs) = bs"
  using from_be_bound [of bs] to_be_from_be [of bs]
  by (simp add: u32_from_be_bytes_def u32_to_be_bytes_def unsigned_of_nat take_bit_nat_def)

lemma u64_to_from_be: "length bs = 8 \<Longrightarrow> u64_to_be_bytes (u64_from_be_bytes bs) = bs"
  using from_be_bound [of bs] to_be_from_be [of bs]
  by (simp add: u64_from_be_bytes_def u64_to_be_bytes_def unsigned_of_nat take_bit_nat_def)

lemma unat_word_of_nat32: "fits_u32 n \<Longrightarrow> unat (word_of_nat n :: u32) = n"
  by (simp add: fits_u32_def unsigned_of_nat take_bit_nat_def)

lemma unat_word_of_nat64: "n < 2 ^ 64 \<Longrightarrow> unat (word_of_nat n :: u64) = n"
  by (simp add: unsigned_of_nat take_bit_nat_def)

lemma unat_u32_less [simp]: "unat (w :: u32) < 4294967296"
  using unsigned_less [of w] by simp

lemma fits_u32_unat [simp]: "fits_u32 (unat (w :: u32))"
  by (simp add: fits_u32_def)

lemma unat_u64_less [simp]: "unat (w :: u64) < 18446744073709551616"
  using unsigned_less [of w] by simp

section \<open>UTF-8 validity\<close>

definition utf8_cont :: "byte \<Rightarrow> bool" where
  "utf8_cont b \<longleftrightarrow> 0x80 \<le> b \<and> b \<le> 0xBF"

text \<open>What \<open>String::from_utf8\<close> accepts: the well-formed byte sequences of the Unicode standard.\<close>

fun utf8 :: "bytes \<Rightarrow> bool" where
  "utf8 [] = True"
| "utf8 (b # bs) =
    (if b < 0x80 then utf8 bs
     else case bs of
       [] \<Rightarrow> False
     | c1 # bs1 \<Rightarrow>
        if 0xC2 \<le> b \<and> b \<le> 0xDF then utf8_cont c1 \<and> utf8 bs1
        else (case bs1 of
          [] \<Rightarrow> False
        | c2 # bs2 \<Rightarrow>
           if 0xE0 \<le> b \<and> b \<le> 0xEF then
             (if b = 0xE0 then 0xA0 \<le> c1 \<and> c1 \<le> 0xBF
              else if b = 0xED then 0x80 \<le> c1 \<and> c1 \<le> 0x9F
              else utf8_cont c1) \<and> utf8_cont c2 \<and> utf8 bs2
           else (case bs2 of
             [] \<Rightarrow> False
           | c3 # bs3 \<Rightarrow>
              0xF0 \<le> b \<and> b \<le> 0xF4 \<and>
              (if b = 0xF0 then 0x90 \<le> c1 \<and> c1 \<le> 0xBF
               else if b = 0xF4 then 0x80 \<le> c1 \<and> c1 \<le> 0x8F
               else utf8_cont c1) \<and> utf8_cont c2 \<and> utf8_cont c3 \<and> utf8 bs3)))"

definition from_utf8 :: "bytes \<Rightarrow> rstring option" where
  "from_utf8 bs = (if utf8 bs then Some bs else None)"

lemma utf8_ascii: "(\<And>b. b \<in> set bs \<Longrightarrow> b < 0x80) \<Longrightarrow> utf8 bs"
  by (induction bs) simp_all

section \<open>Sorted lists of distinct keys\<close>

lemma sorted_wrt_less_iff:
  "sorted_wrt (<) (xs :: 'a :: linorder list) \<longleftrightarrow> sorted xs \<and> distinct xs"
  by (rule strict_sorted_iff)

lemma sort_key_strict_sorted:
  "sorted_wrt (<) (map f xs) \<Longrightarrow> sort_key f xs = xs"
  by (simp add: sort_key_id_if_sorted strict_sorted_imp_sorted)

end
