(* ===== verification/File_System.thy ===== *)
theory File_System
  imports Era_Prelude "HOL-Library.Sublist"
begin

text \<open>
  The part of \<open>std::fs\<close> and \<open>tokio::fs\<close> that the program uses, as operations on an explicit file
  system: a path is the list of its components below one root, a node is a regular file with its
  bytes, a directory, a symbolic link (which no call of the model follows), or some other kind of node.
  An \<open>io::Error\<close> is its \<open>ErrorKind\<close>.

  A world is a file system, the process's temporary-file counters and id, its clocks, and a script of
  events. The monotonic clock advances when the process sleeps, by at least the time asked for and by
  as much more as \<open>w_jitter\<close> says; \<open>w_ages\<close> and \<open>w_unix\<close> are the answers of the successive queries for
  the age of a file and for the time of day, \<open>None\<close> where the query fails. \<open>w_stamps\<close> holds the modification
  times, devices and inodes of the files of working directories; writing such a file gives it the next of
  \<open>w_fresh\<close>, or leaves its stamp as it is, as a clock of coarse granularity does.
  Every system call takes one event from the script: nothing, a failure of the call (with part of
  its effect done), or a file that another process publishes just before the call, provided the
  publication respects the world's rely condition. A crash is a script that ends in failures.
  Theorems quantify over the script, so they hold for every failure and every interleaving with
  such publications.
\<close>

type_synonym path = "rstring list"

datatype node = FileNode bytes | DirNode | SymlinkNode | OtherNode

type_synonym fs = "(path \<times> node) list"

datatype io_kind =
  NotFound | AlreadyExists | NotADirectory | IsADirectory | InvalidData | OtherError

section \<open>Files and directories\<close>

definition fs_get :: "fs \<Rightarrow> path \<Rightarrow> node option" where
  "fs_get fs p = (if p = [] then Some DirNode else map_of fs p)"

definition fs_del :: "path \<Rightarrow> fs \<Rightarrow> fs" where
  "fs_del p fs = filter (\<lambda>(q, n). q \<noteq> p) fs"

definition fs_set :: "path \<Rightarrow> node \<Rightarrow> fs \<Rightarrow> fs" where
  "fs_set p n fs = (p, n) # fs_del p fs"

fun walk :: "fs \<Rightarrow> path \<Rightarrow> path \<Rightarrow> io_kind + node" where
  "walk fs pre [] = (case fs_get fs pre of None \<Rightarrow> Err NotFound | Some n \<Rightarrow> Ok n)"
| "walk fs pre (c # cs) =
    (case fs_get fs pre of
       None \<Rightarrow> Err NotFound
     | Some DirNode \<Rightarrow> walk fs (pre @ [c]) cs
     | Some _ \<Rightarrow> Err NotADirectory)"

definition resolve :: "fs \<Rightarrow> path \<Rightarrow> io_kind + node" where
  "resolve fs p = walk fs [] p"

type_synonym 'a fs_op = "fs \<Rightarrow> (io_kind + 'a) \<times> fs"

definition op_try_exists :: "path \<Rightarrow> bool fs_op" where
  "op_try_exists p fs =
    ((case resolve fs p of
        Inr _ \<Rightarrow> Ok True
      | Inl e \<Rightarrow> if e = NotFound then Ok False else Err e), fs)"

text \<open>Reading a whole file fails when its bytes do not fit a vector.\<close>

definition op_read :: "path \<Rightarrow> bytes fs_op" where
  "op_read p fs =
    ((case resolve fs p of
        Inr (FileNode b) \<Rightarrow> if fits_memory b then Ok b else Err OtherError
      | Inr DirNode \<Rightarrow> Err IsADirectory
      | Inr _ \<Rightarrow> Err OtherError
      | Inl e \<Rightarrow> Err e), fs)"

definition parent_dir :: "fs \<Rightarrow> path \<Rightarrow> io_kind + unit" where
  "parent_dir fs p =
    (case resolve fs (butlast p) of
       Inl e \<Rightarrow> Err e
     | Inr n \<Rightarrow> if n = DirNode then Ok () else Err NotADirectory)"

definition op_create_new :: "path \<Rightarrow> unit fs_op" where
  "op_create_new p fs =
    (case parent_dir fs p of
       Inl e \<Rightarrow> (Err e, fs)
     | Inr _ \<Rightarrow> if fs_get fs p \<noteq> None then (Err AlreadyExists, fs)
                else (Ok (), fs_set p (FileNode []) fs))"

definition write_file :: "path \<Rightarrow> bytes \<Rightarrow> fs \<Rightarrow> fs" where
  "write_file p b fs =
    (case fs_get fs p of Some (FileNode _) \<Rightarrow> fs_set p (FileNode b) fs | _ \<Rightarrow> fs)"

definition op_write_all :: "path \<Rightarrow> bytes \<Rightarrow> unit fs_op" where
  "op_write_all p b fs = (Ok (), write_file p b fs)"

definition op_hard_link :: "path \<Rightarrow> path \<Rightarrow> unit fs_op" where
  "op_hard_link src dst fs =
    (case resolve fs src of
       Inl e \<Rightarrow> (Err e, fs)
     | Inr (FileNode b) \<Rightarrow>
        (case parent_dir fs dst of
           Inl e \<Rightarrow> (Err e, fs)
         | Inr _ \<Rightarrow> if fs_get fs dst \<noteq> None then (Err AlreadyExists, fs)
                    else (Ok (), fs_set dst (FileNode b) fs))
     | Inr _ \<Rightarrow> (Err OtherError, fs))"

definition op_rename :: "path \<Rightarrow> path \<Rightarrow> unit fs_op" where
  "op_rename src dst fs =
    (case resolve fs src of
       Inl e \<Rightarrow> (Err e, fs)
     | Inr (FileNode b) \<Rightarrow>
        (case parent_dir fs dst of
           Inl e \<Rightarrow> (Err e, fs)
         | Inr _ \<Rightarrow> if fs_get fs dst = Some DirNode then (Err IsADirectory, fs)
                    else (Ok (), fs_set dst (FileNode b) (fs_del src fs)))
     | Inr _ \<Rightarrow> (Err OtherError, fs))"

definition op_remove_file :: "path \<Rightarrow> unit fs_op" where
  "op_remove_file p fs =
    (case resolve fs p of
       Inl e \<Rightarrow> (Err e, fs)
     | Inr n \<Rightarrow> if n = DirNode then (Err IsADirectory, fs) else (Ok (), fs_del p fs))"

fun mkdirs :: "fs \<Rightarrow> path \<Rightarrow> path \<Rightarrow> (io_kind + unit) \<times> fs" where
  "mkdirs fs pre [] = (Ok (), fs)"
| "mkdirs fs pre (c # cs) =
    (case fs_get fs (pre @ [c]) of
       None \<Rightarrow> mkdirs (fs_set (pre @ [c]) DirNode fs) (pre @ [c]) cs
     | Some DirNode \<Rightarrow> mkdirs fs (pre @ [c]) cs
     | Some _ \<Rightarrow> (Err (if cs = [] then AlreadyExists else NotADirectory), fs))"

definition op_create_dir_all :: "path \<Rightarrow> unit fs_op" where
  "op_create_dir_all p fs = mkdirs fs [] p"

definition op_create_dir :: "path \<Rightarrow> unit fs_op" where
  "op_create_dir p fs =
    (if fs_get fs p \<noteq> None then (Err AlreadyExists, fs)
     else case parent_dir fs p of
       Inl e \<Rightarrow> (Err e, fs)
     | Inr _ \<Rightarrow> (Ok (), fs_set p DirNode fs))"

definition op_metadata :: "path \<Rightarrow> node fs_op" where
  "op_metadata p fs = (resolve fs p, fs)"

definition dir_entries :: "fs \<Rightarrow> path \<Rightarrow> (rstring \<times> node) list" where
  "dir_entries fs p = map (\<lambda>(q, n). (last q, n)) (filter (\<lambda>(q, n). q \<noteq> [] \<and> butlast q = p) fs)"

definition op_read_dir :: "path \<Rightarrow> (rstring \<times> node) list fs_op" where
  "op_read_dir p fs =
    ((case resolve fs p of
        Inl e \<Rightarrow> Err e
      | Inr n \<Rightarrow> if n = DirNode then Ok (dir_entries fs p) else Err NotADirectory), fs)"

text \<open>\<open>fs::write\<close>: the file is created or truncated, then written.\<close>

definition op_write :: "path \<Rightarrow> bytes \<Rightarrow> unit fs_op" where
  "op_write p b fs =
    (case parent_dir fs p of
       Inl e \<Rightarrow> (Err e, fs)
     | Inr _ \<Rightarrow>
        (case fs_get fs p of
           None \<Rightarrow> (Ok (), fs_set p (FileNode b) fs)
         | Some (FileNode _) \<Rightarrow> (Ok (), fs_set p (FileNode b) fs)
         | Some DirNode \<Rightarrow> (Err IsADirectory, fs)
         | Some _ \<Rightarrow> (Err OtherError, fs)))"

definition fs_del_all :: "path \<Rightarrow> fs \<Rightarrow> fs" where
  "fs_del_all p fs = filter (\<lambda>(q, n). \<not> prefix p q) fs"

definition op_remove_dir_all :: "path \<Rightarrow> unit fs_op" where
  "op_remove_dir_all p fs =
    (case resolve fs p of
       Inl e \<Rightarrow> (Err e, fs)
     | Inr n \<Rightarrow> if n = DirNode then (Ok (), fs_del_all p fs) else (Err NotADirectory, fs))"

text \<open>A removal that fails half way has removed the deepest entries first.\<close>

definition remove_some :: "path \<Rightarrow> nat \<Rightarrow> fs \<Rightarrow> fs" where
  "remove_some p n fs =
    (let below = filter (strict_prefix p) (map fst fs);
         gone = take n (rev (sort_key length below))
     in filter (\<lambda>(q, n). q \<notin> set gone) fs)"

section \<open>Worlds, events and system calls\<close>

datatype event = Quiet | Fault nat | Publish path bytes

text \<open>A \<open>SystemTime\<close> is its distance from the Unix epoch in nanoseconds.\<close>

type_synonym system_time = int

record file_stamp =
  stamp_modified :: "system_time option"
  stamp_dev :: u64
  stamp_ino :: u64

record world =
  w_fs :: fs
  w_env :: "event list"
  w_rely :: "fs \<Rightarrow> path \<Rightarrow> bytes \<Rightarrow> bool"
  w_counter :: u64
  w_pid :: u32
  w_ref_counter :: u64
  w_clock :: nat
  w_jitter :: "nat list"
  w_ages :: "nat option list"
  w_unix :: "nat option list"
  w_stamps :: "path \<Rightarrow> file_stamp"
  w_fresh :: "file_stamp list"

text \<open>Computations on a state with a result; the calls of the operating system act on worlds.\<close>

type_synonym ('s, 'e, 'a) sio = "'s \<Rightarrow> ('e + 'a) \<times> 's"

type_synonym ('e, 'a) io = "(world, 'e, 'a) sio"

definition return_io :: "'a \<Rightarrow> ('s, 'e, 'a) sio" where
  "return_io x w = (Ok x, w)"

definition fail_io :: "'e \<Rightarrow> ('s, 'e, 'a) sio" where
  "fail_io e w = (Err e, w)"

definition result_io :: "'e + 'a \<Rightarrow> ('s, 'e, 'a) sio" where
  "result_io r w = (r, w)"

definition bind_io :: "('s, 'e, 'a) sio \<Rightarrow> ('a \<Rightarrow> ('s, 'e, 'b) sio) \<Rightarrow> ('s, 'e, 'b) sio" where
  "bind_io m f w = (case m w of (Inl e, w') \<Rightarrow> (Err e, w') | (Inr x, w') \<Rightarrow> f x w')"

text \<open>\<open>match operation.await { Ok(..) => .., Err(..) => .. }\<close>\<close>

definition match_io :: "('s, 'e, 'a) sio \<Rightarrow> ('e + 'a \<Rightarrow> ('s, 'f, 'b) sio) \<Rightarrow> ('s, 'f, 'b) sio" where
  "match_io m f w = (case m w of (r, w') \<Rightarrow> f r w')"

definition map_err_io :: "('e \<Rightarrow> 'f) \<Rightarrow> ('s, 'e, 'a) sio \<Rightarrow> ('s, 'f, 'a) sio" where
  "map_err_io g m = match_io m (\<lambda>r. result_io (map_err g r))"

definition publish :: "(fs \<Rightarrow> path \<Rightarrow> bytes \<Rightarrow> bool) \<Rightarrow> path \<Rightarrow> bytes \<Rightarrow> fs \<Rightarrow> fs" where
  "publish rely p b fs =
    (if fs_get fs p = None \<and> parent_dir fs p = Ok () \<and> rely fs p b
     then fs_set p (FileNode b) fs else fs)"

definition run_op :: "'a fs_op \<Rightarrow> (io_kind, 'a) io" where
  "run_op f w = (case f (w_fs w) of (r, fs') \<Rightarrow> (r, w\<lparr>w_fs := fs'\<rparr>))"

definition syscall :: "'a fs_op \<Rightarrow> (nat \<Rightarrow> fs \<Rightarrow> fs) \<Rightarrow> (io_kind, 'a) io" where
  "syscall f partial w =
    (case w_env w of
       [] \<Rightarrow> run_op f w
     | Quiet # es \<Rightarrow> run_op f (w\<lparr>w_env := es\<rparr>)
     | Fault n # es \<Rightarrow> (Err OtherError, w\<lparr>w_env := es, w_fs := partial n (w_fs w)\<rparr>)
     | Publish p b # es \<Rightarrow>
         run_op f (w\<lparr>w_env := es, w_fs := publish (w_rely w) p b (w_fs w)\<rparr>))"

definition no_effect :: "nat \<Rightarrow> fs \<Rightarrow> fs" where
  "no_effect n fs = fs"

definition try_exists :: "path \<Rightarrow> (io_kind, bool) io" where
  "try_exists p = syscall (op_try_exists p) no_effect"

definition read_file :: "path \<Rightarrow> (io_kind, bytes) io" where
  "read_file p = syscall (op_read p) no_effect"

definition create_new :: "path \<Rightarrow> (io_kind, unit) io" where
  "create_new p = syscall (op_create_new p) no_effect"

definition write_all :: "path \<Rightarrow> bytes \<Rightarrow> (io_kind, unit) io" where
  "write_all p b = syscall (op_write_all p b) (\<lambda>n. write_file p (take n b))"

definition flush_file :: "path \<Rightarrow> (io_kind, unit) io" where
  "flush_file p = syscall (\<lambda>fs. (Ok (), fs)) no_effect"

definition hard_link :: "path \<Rightarrow> path \<Rightarrow> (io_kind, unit) io" where
  "hard_link src dst = syscall (op_hard_link src dst) no_effect"

definition rename_file :: "path \<Rightarrow> path \<Rightarrow> (io_kind, unit) io" where
  "rename_file src dst = syscall (op_rename src dst) no_effect"

definition remove_file :: "path \<Rightarrow> (io_kind, unit) io" where
  "remove_file p = syscall (op_remove_file p) no_effect"

definition create_dir_all :: "path \<Rightarrow> (io_kind, unit) io" where
  "create_dir_all p = syscall (op_create_dir_all p) (\<lambda>n fs. snd (mkdirs fs [] (take n p)))"

definition read_dir :: "path \<Rightarrow> (io_kind, (rstring \<times> node) list) io" where
  "read_dir p = syscall (op_read_dir p) no_effect"

definition create_dir :: "path \<Rightarrow> (io_kind, unit) io" where
  "create_dir p = syscall (op_create_dir p) no_effect"

text \<open>\<open>metadata\<close> and \<open>symlink_metadata\<close>; the file type is that of the node.\<close>

definition file_metadata :: "path \<Rightarrow> (io_kind, node) io" where
  "file_metadata p = syscall (op_metadata p) no_effect"

definition write_path :: "path \<Rightarrow> bytes \<Rightarrow> (io_kind, unit) io" where
  "write_path p b w =
     syscall (op_write p b) (\<lambda>n fs. snd (op_write p (take n b) fs))
       (case w_fresh w of [] \<Rightarrow> w | t # ts \<Rightarrow> w\<lparr>w_stamps := (w_stamps w)(p := t), w_fresh := ts\<rparr>)"

definition remove_dir_all :: "path \<Rightarrow> (io_kind, unit) io" where
  "remove_dir_all p = syscall (op_remove_dir_all p) (remove_some p)"

text \<open>\<open>metadata\<close> with the length, the modification time, the device and the inode of a file.\<close>

definition file_stat :: "path \<Rightarrow> (io_kind, node \<times> file_stamp) io" where
  "file_stat p = bind_io (file_metadata p) (\<lambda>n w. (Ok (n, w_stamps w p), w))"

text \<open>\<open>read_to_string\<close>: bytes that are not UTF-8 are invalid data.\<close>

definition read_to_string :: "path \<Rightarrow> (io_kind, rstring) io" where
  "read_to_string p = bind_io (read_file p) (\<lambda>bs. if utf8 bs then return_io bs else fail_io InvalidData)"

text \<open>Advancing a directory stream or asking an entry for its type: a call that may fail.\<close>

definition dir_step :: "(io_kind, unit) io" where
  "dir_step = syscall (\<lambda>fs. (Ok (), fs)) no_effect"

text \<open>\<open>COUNTER.fetch_add(1)\<close> on the process-wide atomic counter.\<close>

definition fetch_counter :: "('e, u64) io" where
  "fetch_counter w = (Ok (w_counter w), w\<lparr>w_counter := w_counter w + 1\<rparr>)"

definition fetch_ref_counter :: "('e, u64) io" where
  "fetch_ref_counter w = (Ok (w_ref_counter w), w\<lparr>w_ref_counter := w_ref_counter w + 1\<rparr>)"

definition instant_now :: "('e, nat) io" where
  "instant_now w = (Ok (w_clock w), w)"

definition sleep_millis :: "nat \<Rightarrow> ('e, unit) io" where
  "sleep_millis d w =
    (case w_jitter w of
       [] \<Rightarrow> (Ok (), w\<lparr>w_clock := w_clock w + d\<rparr>)
     | j # js \<Rightarrow> (Ok (), w\<lparr>w_clock := w_clock w + d + j, w_jitter := js\<rparr>))"

text \<open>\<open>metadata.modified()\<close> followed by \<open>elapsed()\<close>.\<close>

definition file_age :: "('e, nat option) io" where
  "file_age w = (case w_ages w of [] \<Rightarrow> (Ok None, w) | a # as \<Rightarrow> (Ok a, w\<lparr>w_ages := as\<rparr>))"

text \<open>\<open>SystemTime::now().duration_since(UNIX_EPOCH)\<close> in milliseconds.\<close>

definition unix_millis :: "('e, nat option) io" where
  "unix_millis w = (case w_unix w of [] \<Rightarrow> (Ok None, w) | t # ts \<Rightarrow> (Ok t, w\<lparr>w_unix := ts\<rparr>))"

definition process_id :: "('e, u32) io" where
  "process_id w = (Ok (w_pid w), w)"

section \<open>Extension of a file system\<close>

definition fs_ext :: "fs \<Rightarrow> fs \<Rightarrow> bool" where
  "fs_ext fs fs' \<longleftrightarrow> (\<forall>p n. fs_get fs p = Some n \<longrightarrow> fs_get fs' p = Some n)"

lemma fs_get_root [simp]: "fs_get fs [] = Some DirNode"
  by (simp add: fs_get_def)

lemma map_of_filter_key: "map_of (filter (\<lambda>(q, n). q \<noteq> p) fs) q = (if q = p then None else map_of fs q)"
  by (induction fs) auto

lemma fs_get_del: "fs_get (fs_del p fs) q = (if q = p \<and> p \<noteq> [] then None else fs_get fs q)"
  by (auto simp: fs_get_def fs_del_def map_of_filter_key)

lemma fs_get_set: "fs_get (fs_set p n fs) q = (if q = p \<and> p \<noteq> [] then Some n else fs_get fs q)"
  by (auto simp: fs_get_def fs_set_def fs_del_def map_of_filter_key)

lemma fs_extD: "fs_ext fs fs' \<Longrightarrow> fs_get fs p = Some n \<Longrightarrow> fs_get fs' p = Some n"
  by (simp add: fs_ext_def)

lemma fs_ext_refl [simp]: "fs_ext fs fs"
  by (simp add: fs_ext_def)

lemma fs_ext_trans: "fs_ext fs fs' \<Longrightarrow> fs_ext fs' fs'' \<Longrightarrow> fs_ext fs fs''"
  by (simp add: fs_ext_def)

lemma fs_ext_set: "fs_get fs p = None \<Longrightarrow> fs_ext fs (fs_set p n fs)"
  by (auto simp: fs_ext_def fs_get_set)

lemma walk_ext: "fs_ext fs fs' \<Longrightarrow> walk fs pre p = Ok n \<Longrightarrow> walk fs' pre p = Ok n"
  by (induction fs pre p rule: walk.induct) (auto simp: fs_extD split: option.splits node.splits)

lemma resolve_ext: "fs_ext fs fs' \<Longrightarrow> resolve fs p = Ok n \<Longrightarrow> resolve fs' p = Ok n"
  unfolding resolve_def by (rule walk_ext)

lemma walk_get: "walk fs pre p = Ok n \<Longrightarrow> fs_get fs (pre @ p) = Some n"
  by (induction fs pre p rule: walk.induct) (auto split: option.splits node.splits)

lemma resolve_get: "resolve fs p = Ok n \<Longrightarrow> fs_get fs p = Some n"
  using walk_get [of fs "[]" p n] by (simp add: resolve_def)

lemma walk_snoc:
  "walk fs pre (p @ [c]) = (case walk fs pre p of
      Inl e \<Rightarrow> Err e
    | Inr n \<Rightarrow> if n = DirNode then (case fs_get fs (pre @ p @ [c]) of None \<Rightarrow> Err NotFound | Some n \<Rightarrow> Ok n)
              else Err NotADirectory)"
  by (induction fs pre p rule: walk.induct) (auto split: option.splits node.splits)

lemma resolve_parent:
  assumes "p \<noteq> []"
  shows "resolve fs p = bind_result (parent_dir fs p) (\<lambda>_. ok_or NotFound (fs_get fs p))"
proof -
  have "resolve fs p = walk fs [] (butlast p @ [last p])"
    using assms by (simp add: resolve_def)
  then show ?thesis
    using assms unfolding walk_snoc
    by (auto simp: parent_dir_def resolve_def ok_or_def bind_result_def split: sum.splits option.splits)
qed

lemma walk_cong:
  "(\<And>n. fs_get fs (pre @ take n p) = fs_get fs' (pre @ take n p)) \<Longrightarrow> walk fs pre p = walk fs' pre p"
proof (induction fs pre p rule: walk.induct)
  case (1 fs pre)
  then show ?case by simp
next
  case (2 fs pre c cs)
  have 0: "fs_get fs pre = fs_get fs' pre"
    using "2.prems" [of 0] by simp
  have "fs_get fs ((pre @ [c]) @ take n cs) = fs_get fs' ((pre @ [c]) @ take n cs)" for n
    using "2.prems" [of "Suc n"] by simp
  then show ?case
    using "2.IH" 0 by (auto split: option.splits node.splits)
qed

lemma resolve_cong:
  "(\<And>n. fs_get fs (take n p) = fs_get fs' (take n p)) \<Longrightarrow> resolve fs p = resolve fs' p"
  unfolding resolve_def by (rule walk_cong) simp

lemma parent_dir_ext: "fs_ext fs fs' \<Longrightarrow> parent_dir fs p = Ok () \<Longrightarrow> parent_dir fs' p = Ok ()"
  by (auto simp: parent_dir_def dest: resolve_ext split: sum.splits if_splits)

definition readable :: "fs \<Rightarrow> path \<Rightarrow> bytes \<Rightarrow> bool" where
  "readable fs p b \<longleftrightarrow> resolve fs p = Ok (FileNode b) \<and> fits_memory b"

lemma op_read_Ok: "fst (op_read p fs) = Ok b \<longleftrightarrow> readable fs p b"
  by (auto simp: op_read_def readable_def split: sum.splits node.splits)

lemma op_read_run: "op_read p fs = (r, fs') \<Longrightarrow> fs' = fs \<and> (\<forall>b. r = Ok b \<longrightarrow> readable fs p b)"
  by (auto simp: op_read_def readable_def split: sum.splits node.splits if_splits)

lemma readable_ext: "fs_ext fs fs' \<Longrightarrow> readable fs p b \<Longrightarrow> readable fs' p b"
  by (simp add: readable_def resolve_ext)

lemma readable_unique: "readable fs p b \<Longrightarrow> readable fs p b' \<Longrightarrow> b = b'"
  by (simp add: readable_def)

lemma op_read_same [simp]: "snd (op_read p fs) = fs"
  by (simp add: op_read_def)

lemma op_read_ext: "fs_ext fs fs' \<Longrightarrow> fst (op_read p fs) = Ok b \<Longrightarrow> fst (op_read p fs') = Ok b"
  by (simp add: op_read_Ok readable_ext)

lemma op_try_exists_same [simp]: "snd (op_try_exists p fs) = fs"
  by (simp add: op_try_exists_def)

lemma op_read_dir_same [simp]: "snd (op_read_dir p fs) = fs"
  by (simp add: op_read_dir_def)

lemma op_hard_link_cases:
  "op_hard_link src dst fs = (r, fs') \<Longrightarrow> fs' = fs \<and> (\<exists>x. r = Err x) \<or>
     (\<exists>b. resolve fs src = Ok (FileNode b) \<and> parent_dir fs dst = Ok () \<and> fs_get fs dst = None \<and>
        r = Ok () \<and> fs' = fs_set dst (FileNode b) fs)"
  by (cases "resolve fs src"; cases "parent_dir fs dst")
    (auto simp: op_hard_link_def eq_commute [of "Inl _" "parent_dir _ _"]
      split: node.splits if_splits option.splits)

lemma mkdirs_ext: "mkdirs fs pre p = (r, fs') \<Longrightarrow> fs_ext fs fs'"
proof (induction fs pre p rule: mkdirs.induct)
  case (2 fs pre c cs)
  show ?case
  proof (cases "fs_get fs (pre @ [c])")
    case None
    then have "fs_ext (fs_set (pre @ [c]) DirNode fs) fs'"
      using 2 by simp
    then show ?thesis
      using fs_ext_set [OF None] fs_ext_trans by blast
  next
    case (Some n)
    then show ?thesis using 2 by (cases n) auto
  qed
qed simp

lemma mkdirs_dirs:
  "mkdirs fs pre p = (r, fs') \<Longrightarrow> fs_get fs' q = Some n \<Longrightarrow> fs_get fs q = Some n \<or> n = DirNode"
proof (induction fs pre p rule: mkdirs.induct)
  case (2 fs pre c cs)
  show ?case
  proof (cases "fs_get fs (pre @ [c])")
    case None
    then show ?thesis
      using 2 by (auto simp: fs_get_set split: if_splits)
  next
    case (Some n)
    then show ?thesis using 2 by (cases n) auto
  qed
qed simp

lemma mkdirs_walk:
  "mkdirs fs pre p = (Ok (), fs') \<Longrightarrow> fs_get fs pre = Some DirNode \<Longrightarrow> walk fs' pre p = Ok DirNode"
proof (induction fs pre p rule: mkdirs.induct)
  case (1 fs pre)
  then show ?case by simp
next
  case (2 fs pre c cs)
  have "fs_get fs' pre = Some DirNode"
    using mkdirs_ext [OF "2.prems"(1)] "2.prems"(2) by (rule fs_extD)
  moreover have "walk fs' (pre @ [c]) cs = Ok DirNode"
  proof (cases "fs_get fs (pre @ [c])")
    case None
    then show ?thesis using 2 by (simp add: fs_get_set)
  next
    case (Some n)
    then show ?thesis using 2 by (cases n) auto
  qed
  ultimately show ?case by simp
qed

lemma op_create_dir_all_resolve:
  "op_create_dir_all p fs = (Ok (), fs') \<Longrightarrow> resolve fs' p = Ok DirNode"
  by (simp add: op_create_dir_all_def resolve_def mkdirs_walk)

section \<open>Assertions over runs\<close>

text \<open>
  \<open>hoare R P m Q\<close>: in every world whose rely condition implies \<open>R\<close>, whatever the script, a run of
  \<open>m\<close> from a file system with \<open>P\<close> gives a result and a file system with \<open>Q\<close>, and leaves the stamps of the files
  of working directories alone.
\<close>

definition hoare ::
  "(fs \<Rightarrow> path \<Rightarrow> bytes \<Rightarrow> bool) \<Rightarrow> (fs \<Rightarrow> bool) \<Rightarrow> ('e, 'a) io \<Rightarrow> ('e + 'a \<Rightarrow> fs \<Rightarrow> bool) \<Rightarrow> bool" where
  "hoare R P m Q \<longleftrightarrow>
     (\<forall>w r w'. m w = (r, w') \<longrightarrow> (\<forall>fs p b. w_rely w fs p b \<longrightarrow> R fs p b) \<longrightarrow> P (w_fs w) \<longrightarrow>
        Q r (w_fs w') \<and> w_rely w' = w_rely w \<and> w_stamps w' = w_stamps w)"

definition stable :: "(fs \<Rightarrow> path \<Rightarrow> bytes \<Rightarrow> bool) \<Rightarrow> (fs \<Rightarrow> bool) \<Rightarrow> bool" where
  "stable R P \<longleftrightarrow>
     (\<forall>fs p b. P fs \<longrightarrow> fs_get fs p = None \<longrightarrow> parent_dir fs p = Ok () \<longrightarrow> R fs p b \<longrightarrow>
        P (fs_set p (FileNode b) fs))"

lemma hoareD:
  "hoare R P m Q \<Longrightarrow> m w = (r, w') \<Longrightarrow> (\<And>fs p b. w_rely w fs p b \<Longrightarrow> R fs p b) \<Longrightarrow> P (w_fs w) \<Longrightarrow>
     Q r (w_fs w') \<and> w_rely w' = w_rely w"
  by (simp add: hoare_def)

lemma hoare_stamps:
  "hoare R P m Q \<Longrightarrow> m w = (r, w') \<Longrightarrow> (\<And>fs p b. w_rely w fs p b \<Longrightarrow> R fs p b) \<Longrightarrow> P (w_fs w) \<Longrightarrow>
     w_stamps w' = w_stamps w"
  by (simp add: hoare_def)

lemma stable_publish:
  "stable R P \<Longrightarrow> (\<And>fs p b. rely fs p b \<Longrightarrow> R fs p b) \<Longrightarrow> P fs \<Longrightarrow> P (publish rely p b fs)"
  by (simp add: stable_def publish_def)

lemma stable_conj: "stable R P \<Longrightarrow> stable R Q \<Longrightarrow> stable R (\<lambda>fs. P fs \<and> Q fs)"
  by (simp add: stable_def)

lemma stable_const: "stable R (\<lambda>fs. c)"
  by (simp add: stable_def)

lemma stable_ext: "stable R (fs_ext fs0)"
  unfolding stable_def by (blast intro: fs_ext_trans fs_ext_set)

lemma stable_mono: "(\<And>fs fs'. fs_ext fs fs' \<Longrightarrow> P fs \<Longrightarrow> P fs') \<Longrightarrow> stable R P"
  unfolding stable_def by (blast intro: fs_ext_set)

lemma hoare_pre: "hoare R P m Q \<Longrightarrow> (\<And>fs. P' fs \<Longrightarrow> P fs) \<Longrightarrow> hoare R P' m Q"
  by (simp add: hoare_def)

lemma hoare_post: "hoare R P m Q \<Longrightarrow> (\<And>r fs. Q r fs \<Longrightarrow> Q' r fs) \<Longrightarrow> hoare R P m Q'"
  unfolding hoare_def by meson

lemma hoare_ghost: "(\<And>fs0. P fs0 \<Longrightarrow> hoare R (\<lambda>fs. fs = fs0) m Q) \<Longrightarrow> hoare R P m Q"
  unfolding hoare_def by blast

lemma hoare_conj: "hoare R P m Q \<Longrightarrow> hoare R P m Q' \<Longrightarrow> hoare R P m (\<lambda>r fs. Q r fs \<and> Q' r fs)"
  unfolding hoare_def by blast

lemma hoare_rely: "hoare R P m Q \<Longrightarrow> (\<And>fs p b. R' fs p b \<Longrightarrow> R fs p b) \<Longrightarrow> hoare R' P m Q"
  unfolding hoare_def by blast

lemma hoare_return: "(\<And>fs. P fs \<Longrightarrow> Q (Ok x) fs) \<Longrightarrow> hoare R P (return_io x) Q"
  by (simp add: hoare_def return_io_def)

lemma hoare_fail: "(\<And>fs. P fs \<Longrightarrow> Q (Err e) fs) \<Longrightarrow> hoare R P (fail_io e) Q"
  by (simp add: hoare_def fail_io_def)

lemma hoare_result: "(\<And>fs. P fs \<Longrightarrow> Q r fs) \<Longrightarrow> hoare R P (result_io r) Q"
  by (simp add: hoare_def result_io_def)

lemma hoare_fetch: "(\<And>fs x. P fs \<Longrightarrow> Q (Ok x) fs) \<Longrightarrow> hoare R P fetch_counter Q"
  by (simp add: hoare_def fetch_counter_def)

lemma hoare_process_id: "(\<And>fs x. P fs \<Longrightarrow> Q (Ok x) fs) \<Longrightarrow> hoare R P process_id Q"
  by (simp add: hoare_def process_id_def)

lemma hoare_clocks:
  "(\<And>fs x. P fs \<Longrightarrow> Q (Ok x) fs) \<Longrightarrow> hoare R P fetch_ref_counter Q"
  "(\<And>fs x. P fs \<Longrightarrow> Q1 (Ok x) fs) \<Longrightarrow> hoare R P instant_now Q1"
  "(\<And>fs x. P fs \<Longrightarrow> Q2 (Ok x) fs) \<Longrightarrow> hoare R P (sleep_millis d) Q2"
  "(\<And>fs x. P fs \<Longrightarrow> Q3 (Ok x) fs) \<Longrightarrow> hoare R P file_age Q3"
  "(\<And>fs x. P fs \<Longrightarrow> Q4 (Ok x) fs) \<Longrightarrow> hoare R P unix_millis Q4"
  by (auto simp: hoare_def fetch_ref_counter_def instant_now_def sleep_millis_def file_age_def unix_millis_def
      split: list.splits)

lemma hoare_match:
  assumes m: "hoare R P m M" and f: "\<And>r. hoare R (M r) (f r) Q"
  shows "hoare R P (match_io m f) Q"
  unfolding hoare_def
proof (intro allI impI)
  fix w r w'
  assume run: "match_io m f w = (r, w')" and rely: "\<forall>fs p b. w_rely w fs p b \<longrightarrow> R fs p b"
    and P: "P (w_fs w)"
  obtain r1 w1 where m1: "m w = (r1, w1)" by fastforce
  have 1: "M r1 (w_fs w1) \<and> w_rely w1 = w_rely w" "w_stamps w1 = w_stamps w"
    using hoareD [OF m m1] hoare_stamps [OF m m1] rely P by blast+
  have "f r1 w1 = (r, w')" using run m1 by (simp add: match_io_def)
  then show "Q r (w_fs w') \<and> w_rely w' = w_rely w \<and> w_stamps w' = w_stamps w"
    using hoareD [OF f] hoare_stamps [OF f] 1 rely by metis
qed

lemma bind_io_match: "bind_io m f = match_io m (\<lambda>r. case r of Inl e \<Rightarrow> fail_io e | Inr x \<Rightarrow> f x)"
  by (auto simp: bind_io_def match_io_def fail_io_def fun_eq_iff split: prod.splits sum.splits)

lemma hoare_bind:
  assumes "hoare R P m (\<lambda>r fs. case r of Inl e \<Rightarrow> Q (Inl e) fs | Inr x \<Rightarrow> M x fs)"
    and "\<And>x. hoare R (M x) (f x) Q"
  shows "hoare R P (bind_io m f) Q"
  unfolding bind_io_match
  by (rule hoare_match [OF assms(1)]) (auto intro: hoare_fail assms(2) split: sum.split)

lemma hoare_map_err:
  assumes "hoare R P m (\<lambda>r. Q (map_err g r))"
  shows "hoare R P (map_err_io g m) Q"
  unfolding map_err_io_def by (rule hoare_match [OF assms]) (rule hoare_result)

lemma hoare_syscall:
  assumes st: "stable R P"
    and op: "\<And>fs r fs'. P fs \<Longrightarrow> f fs = (r, fs') \<Longrightarrow> Q r fs'"
    and fault: "\<And>fs n. P fs \<Longrightarrow> Q (Err OtherError) (partial n fs)"
  shows "hoare R P (syscall f partial) Q"
  unfolding hoare_def
proof (intro allI impI)
  fix w r w'
  assume run: "syscall f partial w = (r, w')" and rely: "\<forall>fs p b. w_rely w fs p b \<longrightarrow> R fs p b"
    and P: "P (w_fs w)"
  have "Q r' (w_fs w2) \<and> w_rely w2 = w_rely w1 \<and> w_stamps w2 = w_stamps w1"
    if "run_op f w1 = (r', w2)" and "P (w_fs w1)" for w1 w2 r'
    using that op by (cases "f (w_fs w1)") (auto simp: run_op_def)
  moreover have "P (publish (w_rely w) p b (w_fs w))" for p b
    using stable_publish [OF st] rely P by blast
  ultimately show "Q r (w_fs w') \<and> w_rely w' = w_rely w \<and> w_stamps w' = w_stamps w"
    using run P fault unfolding syscall_def
    by (auto split: list.splits event.splits)
qed

lemmas io_defs = create_dir_def file_metadata_def try_exists_def read_file_def create_new_def write_all_def flush_file_def
  hard_link_def rename_file_def remove_file_def create_dir_all_def read_dir_def dir_step_def

text \<open>
  \<open>runs P m Q\<close> is an assertion over whole states, clocks included: from a state with \<open>P\<close>, every run of
  \<open>m\<close> gives a result and a state with \<open>Q\<close>.
\<close>

definition runs :: "('s \<Rightarrow> bool) \<Rightarrow> ('s, 'e, 'a) sio \<Rightarrow> ('e + 'a \<Rightarrow> 's \<Rightarrow> bool) \<Rightarrow> bool" where
  "runs P m Q \<longleftrightarrow> (\<forall>w r w'. P w \<longrightarrow> m w = (r, w') \<longrightarrow> Q r w')"

lemma runsD: "runs P m Q \<Longrightarrow> m w = (r, w') \<Longrightarrow> P w \<Longrightarrow> Q r w'"
  by (simp add: runs_def)

lemma runs_simple:
  "(\<And>w. P w \<Longrightarrow> Q (Ok x) w) \<Longrightarrow> runs P (return_io x) Q"
  "(\<And>w. P w \<Longrightarrow> Q (Err e) w) \<Longrightarrow> runs P (fail_io e) Q"
  "(\<And>w. P w \<Longrightarrow> Q r w) \<Longrightarrow> runs P (result_io r) Q"
  by (simp_all add: runs_def return_io_def fail_io_def result_io_def)

lemma runs_match: "runs P m M \<Longrightarrow> (\<And>r. runs (M r) (f r) Q) \<Longrightarrow> runs P (match_io m f) Q"
  by (auto simp: runs_def match_io_def split: prod.splits)

lemma runs_bind:
  "runs P m (\<lambda>r w. case r of Inl e \<Rightarrow> Q (Inl e) w | Inr x \<Rightarrow> M x w) \<Longrightarrow> (\<And>x. runs (M x) (f x) Q) \<Longrightarrow>
     runs P (bind_io m f) Q"
  unfolding bind_io_match by (erule runs_match) (auto intro: runs_simple split: sum.split)

lemma runs_map_err: "runs P m (\<lambda>r. Q (map_err g r)) \<Longrightarrow> runs P (map_err_io g m) Q"
  unfolding map_err_io_def by (erule runs_match) (rule runs_simple)

lemma runs_pre: "runs P m Q \<Longrightarrow> (\<And>w. P' w \<Longrightarrow> P w) \<Longrightarrow> runs P' m Q"
  unfolding runs_def by blast

lemma runs_post: "runs P m Q \<Longrightarrow> (\<And>r w. Q r w \<Longrightarrow> Q' r w) \<Longrightarrow> runs P m Q'"
  unfolding runs_def by blast

text \<open>A system call acts on the file system, perhaps after a publication, or fails.\<close>

lemma runs_syscall:
  assumes op: "\<And>w es fs1 r fs'. P w \<Longrightarrow> fs_ext (w_fs w) fs1 \<Longrightarrow> f fs1 = (r, fs') \<Longrightarrow> Q r (w\<lparr>w_env := es, w_fs := fs'\<rparr>)"
    and fault: "\<And>w es n. P w \<Longrightarrow> Q (Err OtherError) (w\<lparr>w_env := es, w_fs := partial n (w_fs w)\<rparr>)"
  shows "runs P (syscall f partial) Q"
  unfolding runs_def
proof (intro allI impI)
  fix w r w'
  assume P: "P w" and run: "syscall f partial w = (r, w')"
  have pub: "fs_ext fs (publish R p b fs)" for R p b fs by (simp add: publish_def fs_ext_set)
  have "Q r (w\<lparr>w_env := w_env w, w_fs := fs'\<rparr>)" if "f (w_fs w) = (r, fs')" for fs' r
    by (rule op [OF P fs_ext_refl that])
  then show "Q r w'"
    using run op [OF P fs_ext_refl] op [OF P pub] fault [OF P]
    unfolding syscall_def run_op_def by (auto split: list.splits event.splits prod.splits)
qed

section \<open>Quiet runs\<close>

definition quiet :: "world \<Rightarrow> bool" where
  "quiet w \<longleftrightarrow> w_env w = []"

lemma quiet_syscall: "quiet w \<Longrightarrow> syscall f partial w = run_op f w"
  by (simp add: quiet_def syscall_def)

lemma quiet_update [simp]: "quiet (w\<lparr>w_fs := fs\<rparr>) \<longleftrightarrow> quiet w" "quiet (w\<lparr>w_counter := c\<rparr>) \<longleftrightarrow> quiet w"
    "quiet (w\<lparr>w_ref_counter := c\<rparr>) \<longleftrightarrow> quiet w"
  by (simp_all add: quiet_def)

lemma world_same_fs [simp]: "w\<lparr>w_fs := w_fs w\<rparr> = w"
  by simp

lemma quiet_read_file: "quiet w \<Longrightarrow> read_file p w = (fst (op_read p (w_fs w)), w)"
  by (simp add: read_file_def quiet_syscall run_op_def op_read_def)

lemma quiet_dir_step: "quiet w \<Longrightarrow> dir_step w = (Ok (), w)"
  by (simp add: dir_step_def quiet_syscall run_op_def)

lemma quiet_try_exists: "quiet w \<Longrightarrow> try_exists p w = (fst (op_try_exists p (w_fs w)), w)"
  by (simp add: try_exists_def quiet_syscall run_op_def op_try_exists_def)

lemma quiet_read_dir: "quiet w \<Longrightarrow> read_dir p w = (fst (op_read_dir p (w_fs w)), w)"
  by (simp add: read_dir_def quiet_syscall run_op_def op_read_dir_def)

end
