(* ===== verification/Object_Id.thy ===== *)
theory Object_Id
  imports Era_Prelude
begin

text \<open>
  \<open>crates/core/src/object_id.rs\<close> and \<open>object_kind.rs\<close>: the 32-byte content hash that names
  every object, its hexadecimal text form, its parser with every error, and the shard prefix
  used by the on-disk layouts. BLAKE3 itself is a third-party function: it is the parameter
  \<open>blake3\<close> of every definition that hashes.
\<close>

unbundle bit_operations_syntax

definition OBJECT_ID_BYTES :: nat where
  "OBJECT_ID_BYTES = 32"

definition OBJECT_ID_HEX_LENGTH :: nat where
  "OBJECT_ID_HEX_LENGTH = OBJECT_ID_BYTES * 2"

datatype object_id = ObjectId (as_bytes: bytes)

datatype object_kind = BlobObject | TreeObject | SnapshotObject

definition kind_display :: "object_kind \<Rightarrow> rstring" where
  "kind_display k = (case k of
      BlobObject \<Rightarrow> bstr ''blob''
    | TreeObject \<Rightarrow> bstr ''tree''
    | SnapshotObject \<Rightarrow> bstr ''snapshot'')"

text \<open>The Rust type \<open>[u8; 32]\<close> fixes the length; here it is a predicate.\<close>

definition valid_id :: "object_id \<Rightarrow> bool" where
  "valid_id i \<longleftrightarrow> length (as_bytes i) = OBJECT_ID_BYTES"

type_synonym hasher = "bytes \<Rightarrow> bytes"

text \<open>The only documented fact about BLAKE3 that the storage code relies on.\<close>

definition hash_ok :: "hasher \<Rightarrow> bool" where
  "hash_ok blake3 \<longleftrightarrow> (\<forall>content. length (blake3 content) = OBJECT_ID_BYTES)"

definition from_content :: "hasher \<Rightarrow> bytes \<Rightarrow> object_id" where
  "from_content blake3 content = ObjectId (blake3 content)"

definition hex_digit :: "byte \<Rightarrow> byte" where
  "hex_digit value = bstr ''0123456789abcdef'' ! unat value"

definition hex_byte :: "byte \<Rightarrow> bytes" where
  "hex_byte b = [hex_digit (drop_bit 4 b), hex_digit (b AND 0x0F)]"

definition to_hex :: "object_id \<Rightarrow> rstring" where
  "to_hex i = concat (map hex_byte (as_bytes i))"

definition shard_prefix :: "object_id \<Rightarrow> rstring" where
  "shard_prefix i = hex_byte (as_bytes i ! 0)"

datatype parse_object_id_error = InvalidLength nat | InvalidHex nat byte

definition decode_hex_digit :: "byte \<Rightarrow> byte option" where
  "decode_hex_digit value =
    (if 48 \<le> value \<and> value \<le> 57 then Some (value - 48)
     else if 97 \<le> value \<and> value \<le> 102 then Some (value - 97 + 10)
     else if 65 \<le> value \<and> value \<le> 70 then Some (value - 65 + 10)
     else None)"

fun decode_chunks :: "nat \<Rightarrow> bytes \<Rightarrow> parse_object_id_error + bytes" where
  "decode_chunks index (c0 # c1 # rest) =
     bind_result (ok_or (InvalidHex (index * 2) c0) (decode_hex_digit c0)) (\<lambda>high.
     bind_result (ok_or (InvalidHex (index * 2 + 1) c1) (decode_hex_digit c1)) (\<lambda>low.
     bind_result (decode_chunks (Suc index) rest) (\<lambda>bs.
       Ok ((push_bit 4 high OR low) # bs))))"
| "decode_chunks index _ = Ok []"

definition from_hex :: "rstring \<Rightarrow> parse_object_id_error + object_id" where
  "from_hex input =
    (if length input \<noteq> OBJECT_ID_HEX_LENGTH then Err (InvalidLength (length input))
     else bind_result (decode_chunks 0 input) (\<lambda>bs. Ok (ObjectId bs)))"

section \<open>Ordering of identifiers\<close>

text \<open>The derived \<open>Ord\<close> compares the byte arrays lexicographically.\<close>

instantiation object_id :: linorder
begin

definition less_eq_object_id :: "object_id \<Rightarrow> object_id \<Rightarrow> bool" where
  "less_eq_object_id a b \<longleftrightarrow> as_bytes a \<le> as_bytes b"

definition less_object_id :: "object_id \<Rightarrow> object_id \<Rightarrow> bool" where
  "less_object_id a b \<longleftrightarrow> as_bytes a < as_bytes b"

instance
  by standard (auto simp: less_eq_object_id_def less_object_id_def object_id.expand)

end

section \<open>Hexadecimal digits\<close>

lemma byte_less_16E:
  assumes "(v :: byte) < 16"
  obtains n where "n < 16" and "v = word_of_nat n"
proof -
  have "unat v < 16"
    using assms by (simp add: word_less_nat_alt)
  moreover have "v = word_of_nat (unat v)" by simp
  ultimately show thesis by (rule that)
qed

lemma all_nibbles:
  assumes "\<And>n. n \<in> set [0..<16] \<Longrightarrow> P (word_of_nat n :: byte)" and "v < 16"
  shows "P v"
proof -
  from assms(2) obtain n where "n < 16" "v = word_of_nat n" by (rule byte_less_16E)
  then show ?thesis using assms(1) [of n] by simp
qed

lemma decode_hex_digit_hex_digit:
  assumes "v < 16"
  shows "decode_hex_digit (hex_digit v) = Some v"
proof -
  have "\<forall>n \<in> set [0..<16]. decode_hex_digit (hex_digit (word_of_nat n)) = Some (word_of_nat n)"
    by (simp add: upt_rec hex_digit_def decode_hex_digit_def)
  then show ?thesis
    using all_nibbles [of "\<lambda>v. decode_hex_digit (hex_digit v) = Some v"] assms by blast
qed

lemma drop_bit_4_less: "drop_bit 4 (b :: byte) < 16"
proof -
  have "unat b < 256" using unsigned_less [of b] by simp
  then have "unat (drop_bit 4 b) < 16"
    by (simp add: unsigned_drop_bit_eq drop_bit_nat_def take_bit_nat_def)
  then show ?thesis by (simp add: word_less_nat_alt)
qed

lemma and_15_less: "(b :: byte) AND 0x0F < 16"
proof -
  have "b AND 0x0F = take_bit 4 b" by (simp add: take_bit_eq_mask mask_eq_exp_minus_1)
  then show ?thesis using take_bit_nat_less_exp [of 4 "unat b"]
    by (simp add: word_less_nat_alt unsigned_take_bit_eq)
qed

lemma join_nibbles: "push_bit 4 (drop_bit 4 b) OR (b AND 0x0F) = (b :: byte)"
proof -
  have "b AND 0x0F = take_bit 4 b" by (simp add: take_bit_eq_mask mask_eq_exp_minus_1)
  then show ?thesis by (simp add: bit_eq_iff bit_simps) auto
qed

text \<open>Evaluation of the digits by integer arithmetic.\<close>

definition hex_char :: "int \<Rightarrow> byte" where
  "hex_char n = (if n < 10 then word_of_int (48 + n) else word_of_int (87 + n))"

lemma hex_digit_char:
  assumes "v < 16"
  shows "hex_digit v = hex_char (uint v)"
proof -
  have "\<forall>n \<in> set [0..<16]. hex_digit (word_of_nat n) = hex_char (uint (word_of_nat n :: byte))"
    by code_simp
  then show ?thesis
    using all_nibbles [of "\<lambda>v. hex_digit v = hex_char (uint v)"] assms by blast
qed

lemma hex_byte_code [code]: "hex_byte b = [hex_char (uint b div 16), hex_char (uint b mod 16)]"
proof -
  have "b AND 0x0F = take_bit 4 b" by (simp add: take_bit_eq_mask mask_eq_exp_minus_1)
  then have "uint (b AND 0x0F) = uint b mod 16"
    by (simp add: unsigned_take_bit_eq take_bit_int_def)
  moreover have "uint b mod 256 = uint b"
    using uint_lt2p [of b] by simp
  then have "uint (drop_bit 4 b) = uint b div 16"
    by (simp add: unsigned_drop_bit_eq drop_bit_int_def take_bit_int_def)
  ultimately show ?thesis
    by (simp add: hex_byte_def hex_digit_char drop_bit_4_less and_15_less)
qed

definition hex_lower :: "byte \<Rightarrow> byte" where
  "hex_lower b = (if 65 \<le> b \<and> b \<le> 70 then b + 32 else b)"

lemma decode_hex_digit_bounds:
  assumes "decode_hex_digit c = Some v"
  shows "v < 16 \<and> hex_digit v = hex_lower c"
proof -
  have "\<forall>n \<in> set ([48..<58] @ [97..<103] @ [65..<71]).
      case decode_hex_digit (word_of_nat n) of None \<Rightarrow> True
      | Some v \<Rightarrow> v < 16 \<and> hex_digit v = hex_lower (word_of_nat n)"
    by code_simp
  moreover have "48 \<le> unat c \<and> unat c < 58 \<or> 97 \<le> unat c \<and> unat c < 103 \<or> 65 \<le> unat c \<and> unat c < 71"
    using assms by (auto simp: decode_hex_digit_def word_le_nat_alt split: if_splits)
  then have "unat c \<in> set ([48..<58] @ [97..<103] @ [65..<71])"
    by (simp only: set_append set_upt Un_iff atLeastLessThan_iff)
  ultimately have "case decode_hex_digit (word_of_nat (unat c)) of None \<Rightarrow> True
      | Some v \<Rightarrow> v < 16 \<and> hex_digit v = hex_lower (word_of_nat (unat c))"
    by blast
  with assms show ?thesis by simp
qed

lemma nibble_take_bit:
  assumes "(v :: byte) < 16"
  shows "take_bit 4 v = v"
proof -
  have "unat v < 16" using assms by (simp add: word_less_nat_alt)
  then have "unat (take_bit 4 v) = unat v"
    by (simp add: unsigned_take_bit_eq take_bit_nat_def)
  then show ?thesis by (rule unsigned_word_eqI)
qed

lemma split_nibbles:
  assumes "hi < 16" and "lo < (16 :: byte)"
  shows "drop_bit 4 (push_bit 4 hi OR lo) = hi" and "(push_bit 4 hi OR lo) AND 0x0F = lo"
proof -
  have m: "(0x0F :: byte) = mask 4" by (simp add: mask_eq_exp_minus_1)
  define h l where "h = hi" and "l = lo"
  have "drop_bit 4 (push_bit 4 (take_bit 4 h) OR take_bit 4 l) = take_bit 4 h"
    by (rule bit_word_eqI) (auto simp: bit_simps)
  then show "drop_bit 4 (push_bit 4 hi OR lo) = hi"
    using nibble_take_bit assms by (simp add: h_def l_def del: drop_bit_or)
  have "(push_bit 4 (take_bit 4 h) OR take_bit 4 l) AND mask 4 = take_bit 4 l"
    by (rule bit_word_eqI) (auto simp: bit_simps)
  then show "(push_bit 4 hi OR lo) AND 0x0F = lo"
    unfolding m using nibble_take_bit assms by (simp only: h_def l_def)
qed

section \<open>Round trips\<close>

lemma length_hex_byte [simp]: "length (hex_byte b) = 2"
  by (simp add: hex_byte_def)

lemma length_concat_hex [simp]: "length (concat (map hex_byte bs)) = 2 * length bs"
  by (induction bs) simp_all

lemma length_to_hex: "length (to_hex i) = 2 * length (as_bytes i)"
  by (simp add: to_hex_def)

lemma decode_chunks_hex: "decode_chunks k (concat (map hex_byte bs)) = Ok bs"
  by (induction bs arbitrary: k)
    (simp_all add: hex_byte_def decode_hex_digit_hex_digit drop_bit_4_less and_15_less join_nibbles)

lemma decode_chunks_lower:
  "decode_chunks k cs = Ok bs \<Longrightarrow> even (length cs) \<Longrightarrow>
     concat (map hex_byte bs) = map hex_lower cs"
proof (induction k cs arbitrary: bs rule: decode_chunks.induct)
  case (1 index c0 c1 rest)
  from "1.prems" obtain hi lo bs' where
      d: "decode_hex_digit c0 = Some hi" "decode_hex_digit c1 = Some lo"
      and rec: "decode_chunks (Suc index) rest = Ok bs'"
      and bs: "bs = (push_bit 4 hi OR lo) # bs'"
    by (auto simp: bind_result_Inr_iff ok_or_Inr_iff)
  have "concat (map hex_byte bs') = map hex_lower rest"
    using "1.IH" [OF rec] "1.prems" by simp
  moreover have "hex_byte (push_bit 4 hi OR lo) = [hex_lower c0, hex_lower c1]"
    using decode_hex_digit_bounds [OF d(1)] decode_hex_digit_bounds [OF d(2)]
    by (simp only: hex_byte_def split_nibbles)
  ultimately show ?case by (simp add: bs)
qed auto

lemma length_decode_chunks: "decode_chunks k cs = Ok bs \<Longrightarrow> length bs = length cs div 2"
  by (induction k cs arbitrary: bs rule: decode_chunks.induct)
    (auto simp: bind_result_Inr_iff ok_or_Inr_iff)

lemma valid_from_content: "hash_ok blake3 \<Longrightarrow> valid_id (from_content blake3 bs)"
  by (simp add: hash_ok_def valid_id_def from_content_def)

lemma from_hex_to_hex: "valid_id i \<Longrightarrow> from_hex (to_hex i) = Ok i"
  by (cases i) (simp add: from_hex_def valid_id_def OBJECT_ID_HEX_LENGTH_def
      to_hex_def decode_chunks_hex)

lemma from_hex_lower: "from_hex s = Ok i \<Longrightarrow> valid_id i \<and> to_hex i = map hex_lower s"
  by (auto simp: from_hex_def to_hex_def valid_id_def OBJECT_ID_HEX_LENGTH_def OBJECT_ID_BYTES_def
      bind_result_Inr_iff decode_chunks_lower length_decode_chunks split: if_splits)

lemma to_hex_inj: "valid_id a \<Longrightarrow> valid_id b \<Longrightarrow> to_hex a = to_hex b \<Longrightarrow> a = b"
  by (metis from_hex_to_hex Inr_inject)

section \<open>Acceptance and errors of the parser\<close>

lemma decode_hex_digit_lower: "decode_hex_digit (hex_lower c) = decode_hex_digit c"
proof (cases "65 \<le> c \<and> c \<le> 70")
  case True
  then have "unat c \<in> set [65..<71]"
    by (auto simp: word_le_nat_alt simp del: upt_rec_numeral)
  moreover have "\<forall>n \<in> set [65..<71]. decode_hex_digit (hex_lower (word_of_nat n)) =
      decode_hex_digit (word_of_nat n)"
    by code_simp
  ultimately have "decode_hex_digit (hex_lower (word_of_nat (unat c))) =
      decode_hex_digit (word_of_nat (unat c))"
    by blast
  then show ?thesis by simp
next
  case False
  then have "hex_lower c = c" by (simp only: hex_lower_def if_False)
  then show ?thesis by simp
qed

lemma decode_chunks_lower_ok:
  "decode_chunks k (map hex_lower cs) = Ok bs \<longleftrightarrow> decode_chunks k cs = Ok bs"
  by (induction k cs arbitrary: bs rule: decode_chunks.induct)
    (auto simp: decode_hex_digit_lower bind_result_Inr_iff ok_or_Inr_iff)

lemma decode_chunks_error:
  "even (length cs) \<Longrightarrow> i < length cs \<Longrightarrow> decode_hex_digit (cs ! i) = None \<Longrightarrow>
     (\<And>j. j < i \<Longrightarrow> decode_hex_digit (cs ! j) \<noteq> None) \<Longrightarrow>
     decode_chunks k cs = Err (InvalidHex (k * 2 + i) (cs ! i))"
proof (induction k cs arbitrary: i rule: decode_chunks.induct)
  case (1 index c0 c1 rest)
  consider "i = 0" | "i = 1" | i' where "i = Suc (Suc i')"
    by (cases i; cases "i - 1") auto
  then show ?case
  proof cases
    case 3
    have "decode_hex_digit c0 \<noteq> None" "decode_hex_digit c1 \<noteq> None"
      using "1.prems"(4) [of 0] "1.prems"(4) [of 1] 3 by simp_all
    then obtain hi lo where d: "decode_hex_digit c0 = Some hi" "decode_hex_digit c1 = Some lo"
      by auto
    have "decode_hex_digit (rest ! j) \<noteq> None" if "j < i'" for j
      using "1.prems"(4) [of "Suc (Suc j)"] that 3 by simp
    then have "decode_chunks (Suc index) rest = Err (InvalidHex (Suc index * 2 + i') (rest ! i'))"
      using "1.prems"(1-3) 3 by (intro "1.IH") (simp_all add: d)
    then show ?thesis by (simp add: 3 d)
  qed (use "1.prems"(3) "1.prems"(4) [of 0] in auto)
qed auto

text \<open>
  C23. \<open>ObjectId::from_hex\<close> accepts exactly the 64-digit hexadecimal spellings of an identifier,
  in either case of the letters, and \<open>to_hex\<close> gives the lower-case spelling back.
\<close>

theorem from_hex_exact: "from_hex s = Ok i \<longleftrightarrow> valid_id i \<and> to_hex i = map hex_lower s"
proof
  assume "valid_id i \<and> to_hex i = map hex_lower s"
  then have v: "valid_id i" and h: "map hex_lower s = to_hex i" by simp_all
  have "length s = OBJECT_ID_HEX_LENGTH"
    using arg_cong [OF h, of length] v
    by (simp add: length_to_hex valid_id_def OBJECT_ID_HEX_LENGTH_def)
  moreover have "decode_chunks 0 (map hex_lower s) = Ok (as_bytes i)"
    by (simp add: h to_hex_def decode_chunks_hex)
  ultimately show "from_hex s = Ok i"
    by (simp add: from_hex_def decode_chunks_lower_ok)
qed (rule from_hex_lower)

text \<open>
  On a string of the right length, \<open>ObjectId::from_hex\<close> reports the first byte that is not
  a hexadecimal digit, with its offset.
\<close>

lemma from_hex_first_error:
  assumes "length s = OBJECT_ID_HEX_LENGTH" and "i < length s"
    and "decode_hex_digit (s ! i) = None"
    and "list_all (\<lambda>c. decode_hex_digit c \<noteq> None) (take i s)"
  shows "from_hex s = Err (InvalidHex i (s ! i))"
proof -
  have "decode_hex_digit (s ! j) \<noteq> None" if "j < i" for j
    using assms(2,4) that by (auto simp: list_all_length)
  then have "decode_chunks 0 s = Err (InvalidHex (0 * 2 + i) (s ! i))"
    using assms by (intro decode_chunks_error) (auto simp: OBJECT_ID_HEX_LENGTH_def)
  then show ?thesis by (simp add: from_hex_def assms(1))
qed

lemma from_hex_first_error_example:
  "from_hex (replicate 5 65 @ [103] @ replicate 58 48) = Err (InvalidHex 5 103)"
proof -
  let ?s = "replicate 5 65 @ [103] @ replicate 58 48 :: bytes"
  have "length ?s = OBJECT_ID_HEX_LENGTH" "5 < length ?s" "decode_hex_digit (?s ! 5) = None"
      "list_all (\<lambda>c. decode_hex_digit c \<noteq> None) (take 5 ?s)"
    by code_simp+
  then have "from_hex ?s = Err (InvalidHex 5 (?s ! 5))"
    by (rule from_hex_first_error)
  then show ?thesis by (simp add: nth_append)
qed

end
