(* ===== verification/Byte_Cursor.thy ===== *)
theory Byte_Cursor
  imports Era_Prelude
begin

text \<open>
  The byte cursor that the decoders of \<open>tree.rs\<close>, \<open>snapshot.rs\<close> and \<open>capture_cache.rs\<close>
  share: a byte slice and an offset. A reader takes a cursor and returns an error or a value
  with the advanced cursor. Two notions carry the decoder proofs: \<open>reads p e x\<close> (on input
  that starts with the encoding \<open>e\<close> the reader returns \<open>x\<close> and consumes exactly \<open>e\<close>), and
  \<open>parses p R\<close> (whatever the reader accepts is an encoding related to its result by \<open>R\<close>).
  The locale \<open>byte_reader\<close> is the interface of \<open>read_exact\<close>: each decoder's own
  \<open>read_exact\<close>, with its own error values, is shown to be an instance.
\<close>

record cursor =
  cur_bytes :: bytes
  cur_offset :: nat

type_synonym ('e, 'a) reader = "cursor \<Rightarrow> 'e + ('a \<times> cursor)"

definition cursor_new :: "bytes \<Rightarrow> cursor" where
  "cursor_new bs = \<lparr>cur_bytes = bs, cur_offset = 0\<rparr>"

definition cursor_finished :: "cursor \<Rightarrow> bool" where
  "cursor_finished c \<longleftrightarrow> cur_offset c = length (cur_bytes c)"

definition advance :: "nat \<Rightarrow> cursor \<Rightarrow> cursor" where
  "advance n c = c\<lparr>cur_offset := cur_offset c + n\<rparr>"

definition remaining :: "cursor \<Rightarrow> bytes" where
  "remaining c = drop (cur_offset c) (cur_bytes c)"

definition cursor_ok :: "cursor \<Rightarrow> bool" where
  "cursor_ok c \<longleftrightarrow> cur_offset c \<le> length (cur_bytes c) \<and> fits_memory (cur_bytes c)"

definition return_reader :: "'a \<Rightarrow> ('e, 'a) reader" where
  "return_reader x c = Inr (x, c)"

definition fail_reader :: "'e \<Rightarrow> ('e, 'a) reader" where
  "fail_reader e c = Inl e"

definition bind_reader :: "('e, 'a) reader \<Rightarrow> ('a \<Rightarrow> ('e, 'b) reader) \<Rightarrow> ('e, 'b) reader" where
  "bind_reader p q c = bind_result (p c) (\<lambda>(x, c'). q x c')"

definition result_reader :: "'e + 'a \<Rightarrow> ('e, 'a) reader" where
  "result_reader r c = bind_result r (\<lambda>x. Inr (x, c))"

fun repeat_reader :: "nat \<Rightarrow> ('e, 'a) reader \<Rightarrow> ('e, 'a list) reader" where
  "repeat_reader 0 p = return_reader []"
| "repeat_reader (Suc n) p =
     bind_reader p (\<lambda>x. bind_reader (repeat_reader n p) (\<lambda>xs. return_reader (x # xs)))"

lemma remaining_advance [simp]: "remaining (advance n c) = drop n (remaining c)"
  by (simp add: remaining_def advance_def add.commute)

lemma cur_bytes_advance [simp]: "cur_bytes (advance n c) = cur_bytes c"
  by (simp add: advance_def)

lemma advance_advance [simp]: "advance m (advance n c) = advance (n + m) c"
  by (simp add: advance_def add.assoc)

lemma advance_0 [simp]: "advance 0 c = c"
  by (simp add: advance_def)

lemma cursor_ok_advance:
  "cursor_ok c \<Longrightarrow> remaining c = e @ rest \<Longrightarrow> cursor_ok (advance (length e) c)"
proof -
  assume ok: "cursor_ok c" and rem: "remaining c = e @ rest"
  from rem have "length (drop (cur_offset c) (cur_bytes c)) = length e + length rest"
    by (simp add: remaining_def)
  with ok show ?thesis by (auto simp: cursor_ok_def advance_def)
qed

lemma cursor_new_ok: "fits_memory bs \<Longrightarrow> cursor_ok (cursor_new bs)"
  by (simp add: cursor_ok_def cursor_new_def)

lemma remaining_new [simp]: "remaining (cursor_new bs) = bs"
  by (simp add: remaining_def cursor_new_def)

lemma finished_advance_new [simp]: "cursor_finished (advance n (cursor_new bs)) \<longleftrightarrow> n = length bs"
  by (auto simp: cursor_finished_def advance_def cursor_new_def)

section \<open>Readers against encodings\<close>

definition reads :: "('e, 'a) reader \<Rightarrow> bytes \<Rightarrow> 'a \<Rightarrow> bool" where
  "reads p e x \<longleftrightarrow>
     (\<forall>c rest. cursor_ok c \<longrightarrow> remaining c = e @ rest \<longrightarrow> p c = Inr (x, advance (length e) c))"

definition parses :: "('e, 'a) reader \<Rightarrow> (bytes \<Rightarrow> 'a \<Rightarrow> bool) \<Rightarrow> bool" where
  "parses p R \<longleftrightarrow>
     (\<forall>c x c'. p c = Inr (x, c') \<longrightarrow> cursor_ok c \<longrightarrow>
        (\<exists>e rest. remaining c = e @ rest \<and> c' = advance (length e) c \<and> R e x))"

lemma readsD: "reads p e x \<Longrightarrow> cursor_ok c \<Longrightarrow> remaining c = e @ rest \<Longrightarrow>
    p c = Inr (x, advance (length e) c)"
  by (simp add: reads_def)

lemma reads_return [reads_intros]: "reads (return_reader x) [] x"
  by (simp add: reads_def return_reader_def)

lemma reads_result [reads_intros]: "r = Inr x \<Longrightarrow> reads (result_reader r) [] x"
  by (simp add: reads_def result_reader_def)

lemma reads_bind [reads_intros]:
  assumes "reads p e x" and "reads (q x) e' y"
  shows "reads (bind_reader p q) (e @ e') y"
  unfolding reads_def
proof (intro allI impI)
  fix c rest
  assume ok: "cursor_ok c" and rem: "remaining c = (e @ e') @ rest"
  have 1: "p c = Inr (x, advance (length e) c)"
    using readsD [OF assms(1) ok, of "e' @ rest"] rem by simp
  have "cursor_ok (advance (length e) c)"
    using cursor_ok_advance [OF ok, of e "e' @ rest"] rem by simp
  moreover have "remaining (advance (length e) c) = e' @ rest"
    using rem by simp
  ultimately have "q x (advance (length e) c) = Inr (y, advance (length e') (advance (length e) c))"
    by (rule readsD [OF assms(2)])
  with 1 show "bind_reader p q c = Inr (y, advance (length (e @ e')) c)"
    by (simp add: bind_reader_def)
qed

lemma reads_bind_result:
  "r = Inr x \<Longrightarrow> reads (q x) e y \<Longrightarrow> reads (bind_reader (result_reader r) q) e y"
  using reads_bind [OF reads_result, of r x q e y] by simp

lemma reads_bind_return:
  "reads p e x \<Longrightarrow> f x = y \<Longrightarrow> reads (bind_reader p (\<lambda>x. return_reader (f x))) e y"
  using reads_bind [of p e x "\<lambda>x. return_reader (f x)" "[]" "f x"]
  by (simp add: reads_return)

lemma reads_repeat:
  assumes "\<And>x. x \<in> set xs \<Longrightarrow> reads p (enc x) x"
  shows "reads (repeat_reader (length xs) p) (concat (map enc xs)) xs"
  using assms
proof (induction xs)
  case Nil
  then show ?case by (simp add: reads_return)
next
  case (Cons x xs)
  have "reads (repeat_reader (length xs) p) (concat (map enc xs)) xs"
    using Cons by simp
  then have "reads (bind_reader (repeat_reader (length xs) p) (\<lambda>ys. return_reader (x # ys)))
      (concat (map enc xs) @ []) (x # xs)"
    by (rule reads_bind) (rule reads_return)
  moreover have "reads p (enc x) x" using Cons by simp
  ultimately show ?case
    using reads_bind [of p "enc x" x] by fastforce
qed

lemma parses_return [parses_intros]: "parses (return_reader x) (\<lambda>e y. e = [] \<and> y = x)"
  by (simp add: parses_def return_reader_def)

lemma parses_result [parses_intros]: "parses (result_reader r) (\<lambda>e y. e = [] \<and> r = Inr y)"
  by (auto simp: parses_def result_reader_def bind_result_Inr_iff)

lemma parses_fail: "parses (fail_reader e) R"
  by (simp add: parses_def fail_reader_def)

lemma parsesD: "parses p R \<Longrightarrow> p c = Inr (x, c') \<Longrightarrow> cursor_ok c \<Longrightarrow>
    \<exists>e rest. remaining c = e @ rest \<and> c' = advance (length e) c \<and> R e x"
  by (simp add: parses_def)

lemma parses_finished:
  assumes "parses p R" and "p (cursor_new bs) = Inr (x, c)" and "cursor_finished c"
    and "fits_memory bs"
  shows "R bs x"
proof -
  from parsesD [OF assms(1,2) cursor_new_ok [OF assms(4)]] obtain e rest where
      e: "bs = e @ rest" and c: "c = advance (length e) (cursor_new bs)" and R: "R e x"
    by auto
  from assms(3) c have "length e = length bs" by simp
  with e R show ?thesis by simp
qed

lemma reads_finished:
  assumes "reads p bs x" and "fits_memory bs"
  shows "p (cursor_new bs) = Inr (x, advance (length bs) (cursor_new bs))"
  using readsD [OF assms(1) cursor_new_ok [OF assms(2)], of "[]"] by simp

lemma parses_weaken: "parses p R \<Longrightarrow> (\<And>e x. R e x \<Longrightarrow> S e x) \<Longrightarrow> parses p S"
  unfolding parses_def by meson

lemma parses_bind:
  assumes "parses p R" and "\<And>x e. R e x \<Longrightarrow> parses (q x) (S x)"
  shows "parses (bind_reader p q) (\<lambda>e y. \<exists>x e1 e2. e = e1 @ e2 \<and> R e1 x \<and> S x e2 y)"
  unfolding parses_def
proof (intro allI impI)
  fix c y c'
  assume run: "bind_reader p q c = Inr (y, c')" and le: "cursor_ok c"
  from run obtain x c1 where p: "p c = Inr (x, c1)" and q: "q x c1 = Inr (y, c')"
    by (auto simp: bind_reader_def bind_result_Inr_iff)
  from assms(1) p le obtain e1 rest where
      e1: "remaining c = e1 @ rest" "c1 = advance (length e1) c" "R e1 x"
    unfolding parses_def by blast
  have le1: "cursor_ok c1"
    using cursor_ok_advance [OF le e1(1)] e1(2) by simp
  from assms(2) [OF e1(3)] q le1 obtain e2 rest2 where
      e2: "remaining c1 = e2 @ rest2" "c' = advance (length e2) c1" "S x e2 y"
    unfolding parses_def by blast
  have "remaining c = (e1 @ e2) @ rest2"
    using e1 e2 by simp
  moreover have "c' = advance (length (e1 @ e2)) c"
    using e1 e2 by simp
  ultimately show "\<exists>e rest. remaining c = e @ rest \<and> c' = advance (length e) c \<and>
      (\<exists>x e1 e2. e = e1 @ e2 \<and> R e1 x \<and> S x e2 y)"
    using e1(3) e2(3) by blast
qed

lemma parses_bind_result:
  assumes "\<And>x. r = Inr x \<Longrightarrow> parses (q x) (S x)"
  shows "parses (bind_reader (result_reader r) q) (\<lambda>e y. \<exists>x. r = Inr x \<and> S x e y)"
  by (rule parses_weaken [OF parses_bind [OF parses_result assms]]) auto

lemma parses_bind_return:
  assumes "parses p R"
  shows "parses (bind_reader p (\<lambda>x. return_reader (f x))) (\<lambda>e y. \<exists>x. R e x \<and> y = f x)"
  by (rule parses_weaken [OF parses_bind [OF assms parses_return]]) auto

lemma parses_repeat:
  assumes "parses p (\<lambda>e x. e = enc x \<and> P x)"
  shows "parses (repeat_reader n p)
    (\<lambda>e xs. e = concat (map enc xs) \<and> length xs = n \<and> list_all P xs)"
proof (induction n)
  case 0
  then show ?case by (simp add: parses_def return_reader_def)
next
  case (Suc n)
  have "parses (bind_reader (repeat_reader n p) (\<lambda>xs. return_reader (x # xs)))
      (\<lambda>e ys. \<exists>xs. ys = x # xs \<and> e = concat (map enc xs) \<and> length xs = n \<and> list_all P xs)" for x
    by (rule parses_weaken [OF parses_bind [OF Suc parses_return]]) auto
  then show ?case
    by (simp, intro parses_weaken [OF parses_bind [OF assms]]) auto
qed

section \<open>The interface of read\_exact\<close>

definition read_byte_with :: "(nat \<Rightarrow> ('e, bytes) reader) \<Rightarrow> ('e, byte) reader" where
  "read_byte_with rd = bind_reader (rd 1) (\<lambda>bs. return_reader (bs ! 0))"

definition read_u32_with :: "(nat \<Rightarrow> ('e, bytes) reader) \<Rightarrow> ('e, u32) reader" where
  "read_u32_with rd = bind_reader (rd 4) (\<lambda>bs. return_reader (u32_from_be_bytes bs))"

definition read_u64_with :: "(nat \<Rightarrow> ('e, bytes) reader) \<Rightarrow> ('e, u64) reader" where
  "read_u64_with rd = bind_reader (rd 8) (\<lambda>bs. return_reader (u64_from_be_bytes bs))"

text \<open>
  What every \<open>read_exact\<close> promises: on enough input it returns the next \<open>n\<close> bytes, and it
  never returns anything else.
\<close>

locale byte_reader =
  fixes rd :: "nat \<Rightarrow> ('e, bytes) reader"
  assumes rd_reads: "reads (rd (length bs)) bs bs"
    and rd_parses: "parses (rd n) (\<lambda>e bs. e = bs \<and> length bs = n)"
begin

lemma reads_byte: "reads (read_byte_with rd) [b] b"
proof -
  have "reads (rd 1) [b] [b]" using rd_reads [of "[b]"] by simp
  then have "reads (bind_reader (rd 1) (\<lambda>bs. return_reader (bs ! 0))) ([b] @ []) b"
    by (rule reads_bind) (simp add: reads_return [of b, simplified])
  then show ?thesis by (simp add: read_byte_with_def)
qed

lemma reads_u32: "reads (read_u32_with rd) (u32_to_be_bytes w) w"
proof -
  have "reads (rd 4) (u32_to_be_bytes w) (u32_to_be_bytes w)"
    using rd_reads [of "u32_to_be_bytes w"] by simp
  then have "reads (read_u32_with rd) (u32_to_be_bytes w @ []) w"
    unfolding read_u32_with_def by (rule reads_bind) (simp add: reads_return)
  then show ?thesis by simp
qed

lemma reads_u64: "reads (read_u64_with rd) (u64_to_be_bytes w) w"
proof -
  have "reads (rd 8) (u64_to_be_bytes w) (u64_to_be_bytes w)"
    using rd_reads [of "u64_to_be_bytes w"] by simp
  then have "reads (read_u64_with rd) (u64_to_be_bytes w @ []) w"
    unfolding read_u64_with_def by (rule reads_bind) (simp add: reads_return)
  then show ?thesis by simp
qed

lemma parses_byte: "parses (read_byte_with rd) (\<lambda>e b. e = [b])"
  unfolding read_byte_with_def
  by (rule parses_weaken [OF parses_bind [OF rd_parses parses_return]])
    (auto simp: length_Suc_conv)

lemma parses_u32: "parses (read_u32_with rd) (\<lambda>e w. e = u32_to_be_bytes w)"
  unfolding read_u32_with_def
  by (rule parses_weaken [OF parses_bind [OF rd_parses parses_return]])
    (auto simp: u32_to_from_be)

lemma parses_u64: "parses (read_u64_with rd) (\<lambda>e w. e = u64_to_be_bytes w)"
  unfolding read_u64_with_def
  by (rule parses_weaken [OF parses_bind [OF rd_parses parses_return]])
    (auto simp: u64_to_from_be)

end

end
