(* ===== verification/Era_Tree.thy ===== *)
theory Era_Tree
  imports Object_Id Byte_Cursor "HOL-Library.Multiset"
begin

text \<open>
  \<open>crates/core/src/tree.rs\<close>: directory listings, their validation, and their canonical byte
  form. \<open>tree_to_canonical_bytes\<close> is \<open>None\<close> where the source panics (a length above
  \<open>u32::MAX\<close>). The theory shows that decoding inverts encoding and, conversely, that the decoder
  accepts exactly the canonical bytes of well-formed trees.
\<close>

definition TREE_MAGIC :: bytes where
  "TREE_MAGIC = bstr ''ERA_TREE_V1'' @ [0]"

datatype entry_kind = BlobEntry | TreeEntry

definition kind_tag :: "entry_kind \<Rightarrow> byte" where
  "kind_tag k = (case k of BlobEntry \<Rightarrow> 98 | TreeEntry \<Rightarrow> 116)"

definition kind_from_tag :: "byte \<Rightarrow> entry_kind option" where
  "kind_from_tag t = (if t = 98 then Some BlobEntry else if t = 116 then Some TreeEntry else None)"

datatype invalid_tree_entry_name =
  NameEmpty | NameCurrentDirectory | NameParentDirectory | NameContainsSlash | NameContainsNul

datatype tree_error =
    InvalidName rstring invalid_tree_entry_name
  | DuplicateName rstring
  | TreeInvalidMagic
  | TreeUnexpectedEof nat nat nat
  | InvalidEntryKind nat byte
  | NameNotUtf8 nat
  | NonCanonicalOrder rstring rstring
  | TreeTrailingBytes nat nat

record tree_entry =
  entry_name :: rstring
  entry_kind :: entry_kind
  entry_id :: object_id

record tree =
  tree_entries :: "tree_entry list"

definition validate_entry_name :: "rstring \<Rightarrow> tree_error + unit" where
  "validate_entry_name name =
    (let reason =
       (if name = [] then Some NameEmpty
        else if name = bstr ''.'' then Some NameCurrentDirectory
        else if name = bstr ''..'' then Some NameParentDirectory
        else if 47 \<in> set name then Some NameContainsSlash
        else if 0 \<in> set name then Some NameContainsNul
        else None)
     in case reason of Some r \<Rightarrow> Err (InvalidName name r) | None \<Rightarrow> Ok ())"

definition tree_entry_new :: "rstring \<Rightarrow> entry_kind \<Rightarrow> object_id \<Rightarrow> tree_error + tree_entry" where
  "tree_entry_new name kind i =
     bind_result (validate_entry_name name) (\<lambda>_.
       Ok \<lparr>entry_name = name, entry_kind = kind, entry_id = i\<rparr>)"

definition tree_entry_blob :: "rstring \<Rightarrow> object_id \<Rightarrow> tree_error + tree_entry" where
  "tree_entry_blob name i = tree_entry_new name BlobEntry i"

definition tree_entry_tree :: "rstring \<Rightarrow> object_id \<Rightarrow> tree_error + tree_entry" where
  "tree_entry_tree name i = tree_entry_new name TreeEntry i"

fun reject_duplicate_names :: "tree_entry list \<Rightarrow> tree_error + unit" where
  "reject_duplicate_names (a # b # es) =
     (if entry_name a = entry_name b then Err (DuplicateName (entry_name a))
      else reject_duplicate_names (b # es))"
| "reject_duplicate_names _ = Ok ()"

definition tree_new :: "tree_entry list \<Rightarrow> tree_error + tree" where
  "tree_new entries =
    (let es = sort_key entry_name entries
     in bind_result (reject_duplicate_names es) (\<lambda>_. Ok \<lparr>tree_entries = es\<rparr>))"

definition tree_empty :: tree where
  "tree_empty = \<lparr>tree_entries = []\<rparr>"

section \<open>Encoding\<close>

text \<open>\<open>u32::try_from(value).expect(..)\<close>: \<open>None\<close> is the panic.\<close>

definition tree_write_u32 :: "nat \<Rightarrow> bytes option" where
  "tree_write_u32 value =
     (if fits_u32 value then Some (u32_to_be_bytes (word_of_nat value)) else None)"

definition encode_entry :: "tree_entry \<Rightarrow> bytes option" where
  "encode_entry e =
    (case tree_write_u32 (length (entry_name e)) of
       None \<Rightarrow> None
     | Some len \<Rightarrow>
         Some ([kind_tag (entry_kind e)] @ len @ entry_name e @ as_bytes (entry_id e)))"

fun encode_entries :: "tree_entry list \<Rightarrow> bytes option" where
  "encode_entries [] = Some []"
| "encode_entries (e # es) =
    (case encode_entry e of
       None \<Rightarrow> None
     | Some b \<Rightarrow> (case encode_entries es of None \<Rightarrow> None | Some bs \<Rightarrow> Some (b @ bs)))"

definition tree_to_canonical_bytes :: "tree \<Rightarrow> bytes option" where
  "tree_to_canonical_bytes t =
    (case tree_write_u32 (length (tree_entries t)) of
       None \<Rightarrow> None
     | Some n \<Rightarrow>
        (case encode_entries (tree_entries t) of
           None \<Rightarrow> None
         | Some body \<Rightarrow> Some (TREE_MAGIC @ n @ body)))"

definition tree_id :: "hasher \<Rightarrow> tree \<Rightarrow> object_id option" where
  "tree_id blake3 t = map_option (from_content blake3) (tree_to_canonical_bytes t)"

section \<open>Decoding\<close>

definition tree_read_exact :: "nat \<Rightarrow> (tree_error, bytes) reader" where
  "tree_read_exact n c =
    (let eof = TreeUnexpectedEof (cur_offset c) n (length (cur_bytes c));
         end' = cur_offset c + n
     in if end' \<ge> USIZE_LIMIT then Err eof
        else if end' > length (cur_bytes c) then Err eof
        else Ok (take n (drop (cur_offset c) (cur_bytes c)), c\<lparr>cur_offset := end'\<rparr>))"

text \<open>Evaluation of the overflow check in binary.\<close>

lemma tree_read_exact_code [code]:
  "tree_read_exact n c =
    (let eof = TreeUnexpectedEof (cur_offset c) n (length (cur_bytes c));
         end' = cur_offset c + n
     in if int end' \<ge> 18446744073709551616 then Err eof
        else if end' > length (cur_bytes c) then Err eof
        else Ok (take n (drop (cur_offset c) (cur_bytes c)), c\<lparr>cur_offset := end'\<rparr>))"
proof -
  have "int m \<ge> 18446744073709551616 \<longleftrightarrow> m \<ge> USIZE_LIMIT" for m
    by (simp add: USIZE_LIMIT_def)
  then show ?thesis unfolding tree_read_exact_def Let_def by (simp only:)
qed

definition tree_read_magic :: "(tree_error, unit) reader" where
  "tree_read_magic =
     bind_reader (tree_read_exact (length TREE_MAGIC)) (\<lambda>magic.
       if magic \<noteq> TREE_MAGIC then fail_reader TreeInvalidMagic else return_reader ())"

definition tree_read_byte :: "(tree_error, byte) reader" where
  "tree_read_byte = read_byte_with tree_read_exact"

definition tree_read_u32 :: "(tree_error, u32) reader" where
  "tree_read_u32 = read_u32_with tree_read_exact"

definition check_order :: "rstring option \<Rightarrow> rstring \<Rightarrow> tree_error + unit" where
  "check_order previous name =
    (case previous of
       None \<Rightarrow> Ok ()
     | Some prev \<Rightarrow>
        if prev < name then Ok ()
        else if prev = name then Err (DuplicateName name)
        else Err (NonCanonicalOrder prev name))"

text \<open>One iteration of the entry loop, and the loop.\<close>

definition decode_entry :: "nat \<Rightarrow> rstring option \<Rightarrow> (tree_error, tree_entry) reader" where
  "decode_entry index previous =
     bind_reader tree_read_byte (\<lambda>tag.
     bind_reader (result_reader (ok_or (InvalidEntryKind index tag) (kind_from_tag tag))) (\<lambda>kind.
     bind_reader tree_read_u32 (\<lambda>name_length.
     bind_reader (tree_read_exact (unat name_length)) (\<lambda>name_bytes.
     bind_reader (result_reader (ok_or (NameNotUtf8 index) (from_utf8 name_bytes))) (\<lambda>name.
     bind_reader (result_reader (validate_entry_name name)) (\<lambda>_.
     bind_reader (result_reader (check_order previous name)) (\<lambda>_.
     bind_reader (tree_read_exact OBJECT_ID_BYTES) (\<lambda>id_bytes.
       return_reader \<lparr>entry_name = name, entry_kind = kind, entry_id = ObjectId id_bytes\<rparr>))))))))"

fun decode_entries :: "nat \<Rightarrow> nat \<Rightarrow> rstring option \<Rightarrow> (tree_error, tree_entry list) reader" where
  "decode_entries 0 index previous = return_reader []"
| "decode_entries (Suc n) index previous =
     bind_reader (decode_entry index previous) (\<lambda>e.
     bind_reader (decode_entries n (Suc index) (Some (entry_name e))) (\<lambda>es.
       return_reader (e # es)))"

definition tree_decoder :: "(tree_error, tree) reader" where
  "tree_decoder =
     bind_reader tree_read_magic (\<lambda>_.
     bind_reader tree_read_u32 (\<lambda>entry_count.
     bind_reader (decode_entries (unat entry_count) 0 None) (\<lambda>entries.
       return_reader \<lparr>tree_entries = entries\<rparr>)))"

definition tree_from_canonical_bytes :: "bytes \<Rightarrow> tree_error + tree" where
  "tree_from_canonical_bytes bs =
     bind_result (tree_decoder (cursor_new bs)) (\<lambda>(t, c).
       if \<not> cursor_finished c then Err (TreeTrailingBytes (cur_offset c) (length bs))
       else Ok t)"

section \<open>Well-formed trees\<close>

definition wf_entry :: "tree_entry \<Rightarrow> bool" where
  "wf_entry e \<longleftrightarrow> validate_entry_name (entry_name e) = Ok () \<and> utf8 (entry_name e) \<and>
     valid_id (entry_id e)"

definition wf_tree :: "tree \<Rightarrow> bool" where
  "wf_tree t \<longleftrightarrow> list_all wf_entry (tree_entries t) \<and>
     sorted_wrt (<) (map entry_name (tree_entries t))"

lemma tree_entry_eta:
  "\<lparr>entry_name = entry_name e, entry_kind = entry_kind e, entry_id = entry_id e\<rparr> = e"
  by (cases e) simp

lemma tree_eta: "\<lparr>tree_entries = tree_entries t\<rparr> = t"
  by (cases t) simp

lemma kind_from_tag_tag [simp]: "kind_from_tag (kind_tag k) = Some k"
  by (cases k) (simp_all add: kind_tag_def kind_from_tag_def)

lemma kind_tag_from_tag: "kind_from_tag t = Some k \<Longrightarrow> kind_tag k = t"
  by (auto simp: kind_tag_def kind_from_tag_def split: if_splits)

lemma tree_entry_new_ok:
  "tree_entry_new name k i = Ok e \<Longrightarrow>
     e = \<lparr>entry_name = name, entry_kind = k, entry_id = i\<rparr> \<and> validate_entry_name name = Ok ()"
  by (auto simp: tree_entry_new_def bind_result_Inr_iff)

lemma reject_duplicate_ok:
  "sorted (map entry_name es) \<Longrightarrow>
     reject_duplicate_names es = Ok () \<longleftrightarrow> sorted_wrt (<) (map entry_name es)"
  by (induction es rule: reject_duplicate_names.induct) (auto simp: order_le_less)

lemma reject_duplicate_cases:
  "reject_duplicate_names es = Ok () \<or> (\<exists>n. reject_duplicate_names es = Err (DuplicateName n))"
  by (induction es rule: reject_duplicate_names.induct) auto

lemma reject_duplicate_names_cong:
  "map entry_name xs = map entry_name ys \<Longrightarrow>
     reject_duplicate_names xs = reject_duplicate_names ys"
proof (induction xs arbitrary: ys rule: reject_duplicate_names.induct)
  case (1 a b es)
  then obtain a' b' es' where "ys = a' # b' # es'" "entry_name a = entry_name a'"
      "entry_name b = entry_name b'" "map entry_name es = map entry_name es'"
    by (auto simp: map_eq_Cons_conv Cons_eq_map_conv)
  with "1.IH" [of "b' # es'"] show ?case by simp
qed (auto simp: map_eq_Cons_conv Cons_eq_map_conv)

lemma reject_duplicate_distinct:
  assumes "sorted (map entry_name es)"
  shows "reject_duplicate_names es = Ok () \<longleftrightarrow> distinct (map entry_name es)"
  using reject_duplicate_ok [OF assms] assms by (simp add: sorted_wrt_less_iff)

section \<open>The cursor of the tree decoder\<close>

interpretation tree_cursor: byte_reader tree_read_exact
proof
  fix bs
  show "reads (tree_read_exact (length bs)) bs bs"
    unfolding reads_def
  proof (intro allI impI)
    fix c rest
    assume ok: "cursor_ok c" and rem: "remaining c = bs @ rest"
    have "cur_offset c + length bs \<le> length (cur_bytes c)"
      using cursor_ok_advance [OF ok rem] by (simp add: cursor_ok_def advance_def)
    with ok rem show "tree_read_exact (length bs) c = Inr (bs, advance (length bs) c)"
      by (auto simp: tree_read_exact_def cursor_ok_def fits_memory_def USIZE_LIMIT_def
          advance_def remaining_def Let_def)
  qed
next
  fix n
  show "parses (tree_read_exact n) (\<lambda>e bs. e = bs \<and> length bs = n)"
    unfolding parses_def
  proof (intro allI impI)
    fix c bs c'
    assume run: "tree_read_exact n c = Inr (bs, c')"
    then have le: "cur_offset c + n \<le> length (cur_bytes c)"
      and bs: "bs = take n (remaining c)" and c': "c' = advance n c"
      by (auto simp: tree_read_exact_def Let_def remaining_def advance_def split: if_splits)
    have "remaining c = bs @ drop n (remaining c)" using bs by simp
    moreover have "length bs = n" using bs le by (simp add: remaining_def)
    ultimately show "\<exists>e rest. remaining c = e @ rest \<and> c' = advance (length e) c \<and>
        e = bs \<and> length bs = n"
      using c' by auto
  qed
qed

lemmas tree_reads = tree_cursor.reads_byte [folded tree_read_byte_def]
  tree_cursor.reads_u32 [folded tree_read_u32_def] tree_cursor.rd_reads reads_result

lemmas tree_parses = tree_cursor.parses_byte [folded tree_read_byte_def]
  tree_cursor.parses_u32 [folded tree_read_u32_def] tree_cursor.rd_parses parses_result

section \<open>Round trip\<close>

lemma encode_entry_Some:
  "encode_entry e = Some b \<longleftrightarrow> fits_u32 (length (entry_name e)) \<and>
     b = [kind_tag (entry_kind e)] @ u32_to_be_bytes (word_of_nat (length (entry_name e))) @
         entry_name e @ as_bytes (entry_id e)"
  by (auto simp: encode_entry_def tree_write_u32_def)

definition after_name :: "rstring option \<Rightarrow> rstring list \<Rightarrow> bool" where
  "after_name previous names \<longleftrightarrow>
     (case previous of None \<Rightarrow> True | Some p \<Rightarrow> \<forall>n \<in> set names. p < n) \<and> sorted_wrt (<) names"

lemma after_name_Cons:
  "after_name previous (n # ns) \<longleftrightarrow> check_order previous n = Ok () \<and> after_name (Some n) ns"
  by (auto simp: after_name_def check_order_def split: option.splits)

lemma reads_decode_entry:
  assumes wf: "wf_entry e" and ord: "check_order previous (entry_name e) = Ok ()"
    and enc: "encode_entry e = Some b"
  shows "reads (decode_entry index previous) b e"
proof -
  let ?name = "entry_name e" and ?len = "word_of_nat (length (entry_name e)) :: u32"
    and ?id = "as_bytes (entry_id e)"
  have "unat ?len = length ?name"
    using enc by (simp add: encode_entry_Some unat_word_of_nat32)
  then have rd: "reads (tree_read_exact (unat ?len)) ?name ?name"
    using tree_cursor.rd_reads [of ?name] by simp
  have rdid: "reads (tree_read_exact OBJECT_ID_BYTES) ?id ?id"
    using tree_cursor.rd_reads [of ?id] wf by (simp add: wf_entry_def valid_id_def)
  have "b = [kind_tag (entry_kind e)] @ u32_to_be_bytes ?len @ ?name @ ?id"
    using enc by (simp add: encode_entry_Some)
  moreover have "validate_entry_name ?name = Ok ()" "utf8 ?name"
    using wf by (simp_all add: wf_entry_def)
  ultimately show ?thesis
    unfolding decode_entry_def
    by (simp only:, intro reads_bind [OF tree_reads(1)] reads_bind [OF tree_reads(2)]
        reads_bind [OF rd] reads_bind_result reads_bind_return [OF rdid])
      (use ord in \<open>auto simp: from_utf8_def intro: tree_entry.equality\<close>)
qed

lemma reads_decode_entries:
  "list_all wf_entry es \<Longrightarrow> after_name previous (map entry_name es) \<Longrightarrow>
     encode_entries es = Some b \<Longrightarrow> reads (decode_entries (length es) index previous) b es"
proof (induction es arbitrary: index previous b)
  case Nil
  then show ?case by (simp add: reads_return)
next
  case (Cons e es)
  from Cons.prems(3) obtain be bs where
      be: "encode_entry e = Some be" and bs: "encode_entries es = Some bs" and b: "b = be @ bs"
    by (auto split: option.splits)
  have e: "reads (decode_entry index previous) be e"
    using Cons.prems(1,2) by (intro reads_decode_entry be) (simp_all add: after_name_Cons)
  have es: "reads (decode_entries (length es) (Suc index) (Some (entry_name e))) bs es"
    using Cons.IH [OF _ _ bs] Cons.prems(1,2) by (simp add: after_name_Cons)
  show ?case
    unfolding length_Cons decode_entries.simps b
    by (rule reads_bind [OF e], rule reads_bind_return [OF es]) simp
qed

lemma parses_decode_entry:
  "parses (decode_entry index previous)
     (\<lambda>b e. encode_entry e = Some b \<and> wf_entry e \<and> check_order previous (entry_name e) = Ok ())"
  unfolding decode_entry_def
  by (rule parses_weaken)
   ((rule parses_bind [OF tree_parses(1)], rule parses_bind_result,
      rule parses_bind [OF tree_parses(2)], rule parses_bind [OF tree_parses(3)],
      rule parses_bind_result, rule parses_bind_result, rule parses_bind_result,
      rule parses_bind_return [OF tree_parses(3)]),
    auto simp: ok_or_Inr_iff from_utf8_def encode_entry_Some wf_entry_def valid_id_def
      kind_tag_from_tag unat_u32_less split: if_splits)

lemma parses_decode_entries:
  "parses (decode_entries n index previous)
     (\<lambda>b es. encode_entries es = Some b \<and> length es = n \<and> list_all wf_entry es \<and>
        after_name previous (map entry_name es))"
proof (induction n arbitrary: index previous)
  case 0
  show ?case
    by (auto simp: parses_def return_reader_def after_name_def split: option.splits)
next
  case (Suc n)
  show ?case
    unfolding decode_entries.simps
    by (rule parses_weaken [OF parses_bind [OF parses_decode_entry parses_bind_return [OF Suc]]])
      (auto simp: after_name_Cons)
qed

lemma reads_magic: "reads tree_read_magic TREE_MAGIC ()"
proof -
  have "reads (tree_read_exact (length TREE_MAGIC)) TREE_MAGIC TREE_MAGIC"
    by (rule tree_cursor.rd_reads)
  then have "reads tree_read_magic (TREE_MAGIC @ []) ()"
    unfolding tree_read_magic_def by (rule reads_bind) (simp add: reads_return)
  then show ?thesis by simp
qed

lemma parses_magic: "parses tree_read_magic (\<lambda>e u. e = TREE_MAGIC)"
  unfolding tree_read_magic_def
proof (rule parses_weaken [OF parses_bind [OF tree_parses(3)]])
  show "parses (if magic \<noteq> TREE_MAGIC then fail_reader TreeInvalidMagic else return_reader ())
      (\<lambda>e u. e = [] \<and> magic = TREE_MAGIC)" for magic
    by (simp add: parses_fail parses_return [of "()", simplified])
qed auto

lemma tree_to_canonical_Some:
  "tree_to_canonical_bytes t = Some b \<longleftrightarrow> fits_u32 (length (tree_entries t)) \<and>
     (\<exists>body. encode_entries (tree_entries t) = Some body \<and>
        b = TREE_MAGIC @ u32_to_be_bytes (word_of_nat (length (tree_entries t))) @ body)"
  by (auto simp: tree_to_canonical_bytes_def tree_write_u32_def split: option.splits)

lemma reads_tree_decoder:
  assumes wf: "wf_tree t" and enc: "tree_to_canonical_bytes t = Some b"
  shows "reads tree_decoder b t"
proof -
  let ?n = "word_of_nat (length (tree_entries t)) :: u32"
  from enc obtain body where n: "fits_u32 (length (tree_entries t))"
      and body: "encode_entries (tree_entries t) = Some body"
      and b: "b = TREE_MAGIC @ u32_to_be_bytes ?n @ body"
    by (auto simp: tree_to_canonical_Some)
  have "reads (decode_entries (unat ?n) 0 None) body (tree_entries t)"
    using reads_decode_entries [OF _ _ body] wf n
    by (simp add: wf_tree_def after_name_def unat_word_of_nat32)
  then show ?thesis
    unfolding tree_decoder_def b
    by (intro reads_bind [OF reads_magic] reads_bind [OF tree_reads(2)] reads_bind_return)
      (auto intro: tree.equality)
qed

lemma parses_tree_decoder:
  "parses tree_decoder (\<lambda>b t. wf_tree t \<and> tree_to_canonical_bytes t = Some b)"
  unfolding tree_decoder_def
  by (rule parses_weaken)
    ((rule parses_bind [OF parses_magic], rule parses_bind [OF tree_parses(2)],
      rule parses_bind_return [OF parses_decode_entries]),
     auto simp: tree_to_canonical_Some wf_tree_def after_name_def)

lemma tree_decode_encode:
  assumes "wf_tree t" and "tree_to_canonical_bytes t = Some b" and "fits_memory b"
  shows "tree_from_canonical_bytes b = Ok t"
  using reads_finished [OF reads_tree_decoder [OF assms(1,2)] assms(3)]
  by (simp add: tree_from_canonical_bytes_def)

lemma tree_encode_decode:
  assumes "tree_from_canonical_bytes b = Ok t" and "fits_memory b"
  shows "wf_tree t \<and> tree_to_canonical_bytes t = Some b"
proof -
  from assms(1) obtain c where run: "tree_decoder (cursor_new b) = Inr (t, c)"
      and fin: "cursor_finished c"
    by (auto simp: tree_from_canonical_bytes_def bind_result_Inr_iff split: if_splits)
  show ?thesis
    by (rule parses_finished [OF parses_tree_decoder run fin assms(2)])
qed

section \<open>Properties\<close>

lemma distinct_names_perm:
  assumes "mset es = mset es'"
  shows "distinct (map entry_name es) \<longleftrightarrow> distinct (map entry_name es')"
proof -
  have "mset (map entry_name es) = mset (map entry_name es')"
    using assms by simp
  then show ?thesis by (rule mset_eq_imp_distinct_iff)
qed

lemma tree_new_Ok:
  "tree_new es = Ok t \<longleftrightarrow> distinct (map entry_name es) \<and> t = \<lparr>tree_entries = sort_key entry_name es\<rparr>"
proof -
  have "sorted (map entry_name (sort_key entry_name es))" by simp
  then have "reject_duplicate_names (sort_key entry_name es) = Ok () \<longleftrightarrow>
      distinct (map entry_name (sort_key entry_name es))"
    by (rule reject_duplicate_distinct)
  also have "\<dots> \<longleftrightarrow> distinct (map entry_name es)"
    by (rule distinct_names_perm) simp
  finally show ?thesis
    by (auto simp: tree_new_def Let_def bind_result_Inr_iff)
qed

lemma wf_tree_new:
  assumes "list_all wf_entry es" and "distinct (map entry_name es)"
  shows "wf_tree \<lparr>tree_entries = sort_key entry_name es\<rparr>"
proof -
  have "sorted (map entry_name (sort_key entry_name es))" by simp
  moreover have "distinct (map entry_name (sort_key entry_name es))"
    using assms(2) distinct_names_perm [of "sort_key entry_name es" es] by simp
  ultimately show ?thesis
    using assms(1) by (simp add: wf_tree_def sorted_wrt_less_iff list_all_iff)
qed

text \<open>
  C18. The tree decoder accepts exactly the canonical encodings: a byte string decodes to a tree
  if and only if the tree is well formed (valid UTF-8 entry names in strictly ascending byte
  order, full-length identifiers) and the byte string is its canonical form. So decoding inverts
  encoding, no tree has two encodings, and every malformed input is rejected.
\<close>

theorem tree_canonical_iff:
  assumes "fits_memory b"
  shows "tree_from_canonical_bytes b = Ok t \<longleftrightarrow> wf_tree t \<and> tree_to_canonical_bytes t = Some b"
  using tree_encode_decode [OF _ assms] tree_decode_encode [OF _ _ assms] by blast

definition sample_tree :: tree where
  "sample_tree = \<lparr>tree_entries =
     [\<lparr>entry_name = bstr ''a.txt'', entry_kind = BlobEntry, entry_id = ObjectId (replicate 32 1)\<rparr>,
      \<lparr>entry_name = bstr ''src'', entry_kind = TreeEntry, entry_id = ObjectId (replicate 32 2)\<rparr>]\<rparr>"

theorem tree_canonical_iff_witness:
  "tree_from_canonical_bytes (the (tree_to_canonical_bytes sample_tree)) = Ok sample_tree"
proof -
  have "fits_memory (the (tree_to_canonical_bytes sample_tree))" by code_simp
  moreover have "wf_tree sample_tree" by code_simp
  moreover have "\<not> Option.is_none (tree_to_canonical_bytes sample_tree)" by code_simp
  ultimately show ?thesis
    using tree_canonical_iff [of "the (tree_to_canonical_bytes sample_tree)" sample_tree]
    by (auto simp: Option.is_none_def)
qed

text \<open>
  C24. \<open>Tree::new\<close> on valid entries succeeds exactly when the names are distinct, and then
  gives the well-formed tree with exactly those entries; otherwise it reports a duplicate name.
\<close>

theorem tree_new_spec:
  assumes "list_all wf_entry es"
  shows "case tree_new es of
      Inr t \<Rightarrow> distinct (map entry_name es) \<and> wf_tree t \<and> mset (tree_entries t) = mset es
    | Inl e \<Rightarrow> \<not> distinct (map entry_name es) \<and> (\<exists>n. e = DuplicateName n)"
proof (cases "tree_new es")
  case (Inl e)
  then have "\<not> distinct (map entry_name es)"
    using tree_new_Ok [of es] by auto
  moreover have "\<exists>n. e = DuplicateName n"
    using Inl reject_duplicate_cases [of "sort_key entry_name es"]
    by (auto simp: tree_new_def Let_def)
  ultimately show ?thesis using Inl by simp
next
  case (Inr t)
  then have "distinct (map entry_name es)" "t = \<lparr>tree_entries = sort_key entry_name es\<rparr>"
    by (simp_all only: tree_new_Ok)
  then show ?thesis
    using Inr assms by (simp add: wf_tree_new)
qed

theorem tree_new_spec_witness:
  "tree_new (rev (tree_entries sample_tree)) = Ok sample_tree \<and> wf_tree sample_tree"
proof -
  have wf: "list_all wf_entry (rev (tree_entries sample_tree))" by code_simp
  have run: "tree_new (rev (tree_entries sample_tree)) = Ok sample_tree" by code_simp
  show ?thesis using tree_new_spec [OF wf] run by simp
qed

text \<open>
  The order in which the entries are handed to \<open>Tree::new\<close> is irrelevant: permuting them
  changes neither the tree nor the error.
\<close>

lemma tree_new_order_irrelevant:
  assumes "mset es = mset es'"
  shows "tree_new es = tree_new es'"
proof -
  let ?s = "sort_key entry_name es" and ?s' = "sort_key entry_name es'"
  have perm: "mset (map entry_name es) = mset (map entry_name es')"
    using assms by simp
  have names: "map entry_name ?s = map entry_name ?s'"
  proof (rule properties_for_sort [symmetric, THEN trans])
    show "sort (map entry_name es') = map entry_name ?s'"
      by (rule properties_for_sort) simp_all
  qed (use assms in simp_all)
  show ?thesis
  proof (cases "distinct (map entry_name es)")
    case True
    have inj: "inj_on entry_name (set ?s')"
      using True assms by (metis distinct_map mset_eq_setD set_sort)
    have "set ?s = set ?s'"
      using assms by (metis mset_eq_setD set_sort)
    then have "?s = ?s'"
      using map_inj_on [OF names] inj by simp
    then show ?thesis by (simp add: tree_new_def)
  next
    case False
    obtain n where "reject_duplicate_names ?s = Err (DuplicateName n)"
      using False reject_duplicate_cases [of ?s] tree_new_Ok [of es "\<lparr>tree_entries = ?s\<rparr>"]
      by (auto simp: tree_new_def Let_def)
    moreover from this have "reject_duplicate_names ?s' = Err (DuplicateName n)"
      by (simp only: reject_duplicate_names_cong [OF names])
    ultimately show ?thesis by (simp add: tree_new_def Let_def)
  qed
qed

lemma tree_new_order_irrelevant_example:
  "tree_new (tree_entries sample_tree) = tree_new (rev (tree_entries sample_tree))"
  by (rule tree_new_order_irrelevant) simp

end
