(* ===== verification/Era_Snapshot.thy ===== *)
theory Era_Snapshot
  imports Object_Id Byte_Cursor
begin

text \<open>
  \<open>crates/core/src/snapshot.rs\<close>: snapshots, their provenance and their canonical byte form.
  The \<open>BTreeMap\<close> of provenance attributes is its list of entries in key order, changed only by
  \<open>btree_insert\<close>. \<open>snapshot_write_u32\<close> keeps the truncating cast of the source. The theory shows
  that decoding inverts encoding on every snapshot whose counts and strings fit 32 bits, and that
  the decoder accepts only canonical bytes.
\<close>

definition SNAPSHOT_MAGIC :: bytes where
  "SNAPSHOT_MAGIC = bstr ''ERA_SNAPSHOT_V1'' @ [0]"

type_synonym attributes = "(rstring \<times> rstring) list"

fun btree_insert :: "'k :: linorder \<Rightarrow> 'v \<Rightarrow> ('k \<times> 'v) list \<Rightarrow> ('k \<times> 'v) list" where
  "btree_insert k v [] = [(k, v)]"
| "btree_insert k v ((k', v') # m) =
     (if k < k' then (k, v) # (k', v') # m
      else if k = k' then (k, v) # m
      else (k', v') # btree_insert k v m)"

record snapshot_provenance =
  prov_source :: rstring
  prov_attributes :: attributes

definition provenance_new :: "rstring \<Rightarrow> snapshot_provenance" where
  "provenance_new source = \<lparr>prov_source = source, prov_attributes = []\<rparr>"

definition provenance_initial :: snapshot_provenance where
  "provenance_initial = provenance_new (bstr ''repository-init'')"

definition provenance_manual :: snapshot_provenance where
  "provenance_manual = provenance_new (bstr ''manual-snapshot'')"

definition provenance_automatic :: snapshot_provenance where
  "provenance_automatic = provenance_new (bstr ''auto-snapshot'')"

definition with_attribute :: "snapshot_provenance \<Rightarrow> rstring \<Rightarrow> rstring \<Rightarrow> snapshot_provenance" where
  "with_attribute p key val = p\<lparr>prov_attributes := btree_insert key val (prov_attributes p)\<rparr>"

record snapshot =
  snap_root :: object_id
  snap_parents :: "object_id list"
  snap_timestamp :: u64
  snap_author :: "rstring option"
  snap_message :: "rstring option"
  snap_provenance :: snapshot_provenance

definition snapshot_new ::
  "object_id \<Rightarrow> object_id list \<Rightarrow> u64 \<Rightarrow> rstring option \<Rightarrow> rstring option \<Rightarrow>
    snapshot_provenance \<Rightarrow> snapshot" where
  "snapshot_new root_tree_id parents timestamp_millis author message provenance =
     \<lparr>snap_root = root_tree_id, snap_parents = parents, snap_timestamp = timestamp_millis,
      snap_author = author, snap_message = message, snap_provenance = provenance\<rparr>"

datatype snapshot_error =
    SnapshotInvalidMagic
  | SnapshotUnexpectedEof nat nat nat
  | InvalidOptionalStringTag rstring byte
  | StringNotUtf8 rstring
  | DuplicateProvenanceAttribute rstring
  | NonCanonicalProvenanceAttributeOrder rstring rstring
  | SnapshotTrailingBytes nat nat

section \<open>Encoding\<close>

text \<open>\<open>value as u32\<close> keeps the low 32 bits.\<close>

definition snapshot_write_u32 :: "nat \<Rightarrow> bytes" where
  "snapshot_write_u32 n = u32_to_be_bytes (word_of_nat n)"

definition write_string :: "rstring \<Rightarrow> bytes" where
  "write_string s = snapshot_write_u32 (length s) @ s"

definition write_optional_string :: "rstring option \<Rightarrow> bytes" where
  "write_optional_string v = (case v of Some s \<Rightarrow> [1] @ write_string s | None \<Rightarrow> [0])"

definition write_attribute :: "rstring \<times> rstring \<Rightarrow> bytes" where
  "write_attribute kv = write_string (fst kv) @ write_string (snd kv)"

definition snapshot_to_canonical_bytes :: "snapshot \<Rightarrow> bytes" where
  "snapshot_to_canonical_bytes s =
     SNAPSHOT_MAGIC @ as_bytes (snap_root s) @
     snapshot_write_u32 (length (snap_parents s)) @
     concat (map as_bytes (snap_parents s)) @
     u64_to_be_bytes (snap_timestamp s) @
     write_optional_string (snap_author s) @
     write_optional_string (snap_message s) @
     write_string (prov_source (snap_provenance s)) @
     snapshot_write_u32 (length (prov_attributes (snap_provenance s))) @
     concat (map write_attribute (prov_attributes (snap_provenance s)))"

definition snapshot_id :: "hasher \<Rightarrow> snapshot \<Rightarrow> object_id" where
  "snapshot_id blake3 s = from_content blake3 (snapshot_to_canonical_bytes s)"

section \<open>Decoding\<close>

definition snapshot_read_exact :: "nat \<Rightarrow> (snapshot_error, bytes) reader" where
  "snapshot_read_exact n c =
    (let end' = min (cur_offset c + n) (USIZE_LIMIT - 1)
     in if end' > length (cur_bytes c)
        then Err (SnapshotUnexpectedEof (cur_offset c) n (length (cur_bytes c)))
        else Ok (take (end' - cur_offset c) (drop (cur_offset c) (cur_bytes c)),
                 c\<lparr>cur_offset := end'\<rparr>))"

text \<open>Evaluation of the saturation in binary.\<close>

lemma snapshot_read_exact_code [code]:
  "snapshot_read_exact n c =
    (let end' = (if int (cur_offset c + n) < 18446744073709551615 then cur_offset c + n
                 else USIZE_LIMIT - 1)
     in if end' > length (cur_bytes c)
        then Err (SnapshotUnexpectedEof (cur_offset c) n (length (cur_bytes c)))
        else Ok (take (end' - cur_offset c) (drop (cur_offset c) (cur_bytes c)),
                 c\<lparr>cur_offset := end'\<rparr>))"
proof -
  have "(if int m < 18446744073709551615 then m else USIZE_LIMIT - 1) = min m (USIZE_LIMIT - 1)" for m
    by (auto simp: USIZE_LIMIT_def)
  then show ?thesis unfolding snapshot_read_exact_def by (simp only:)
qed

definition snapshot_read_magic :: "(snapshot_error, unit) reader" where
  "snapshot_read_magic c =
    (if length (cur_bytes c) < length SNAPSHOT_MAGIC then Err SnapshotInvalidMagic
     else bind_reader (snapshot_read_exact (length SNAPSHOT_MAGIC)) (\<lambda>magic.
       if magic = SNAPSHOT_MAGIC then return_reader () else fail_reader SnapshotInvalidMagic) c)"

definition snapshot_read_object_id :: "(snapshot_error, object_id) reader" where
  "snapshot_read_object_id =
     bind_reader (snapshot_read_exact OBJECT_ID_BYTES) (\<lambda>bs. return_reader (ObjectId bs))"

definition snapshot_read_u32 :: "(snapshot_error, u32) reader" where
  "snapshot_read_u32 = read_u32_with snapshot_read_exact"

definition snapshot_read_u64 :: "(snapshot_error, u64) reader" where
  "snapshot_read_u64 = read_u64_with snapshot_read_exact"

definition snapshot_read_byte :: "(snapshot_error, byte) reader" where
  "snapshot_read_byte = read_byte_with snapshot_read_exact"

definition read_string :: "rstring \<Rightarrow> (snapshot_error, rstring) reader" where
  "read_string field =
     bind_reader snapshot_read_u32 (\<lambda>len.
     bind_reader (snapshot_read_exact (unat len)) (\<lambda>bs.
       result_reader (ok_or (StringNotUtf8 field) (from_utf8 bs))))"

definition read_optional_string :: "rstring \<Rightarrow> (snapshot_error, rstring option) reader" where
  "read_optional_string field =
     bind_reader snapshot_read_byte (\<lambda>tag.
       if tag = 0 then return_reader None
       else if tag = 1 then bind_reader (read_string field) (\<lambda>s. return_reader (Some s))
       else fail_reader (InvalidOptionalStringTag field tag))"

definition check_attribute_order :: "rstring option \<Rightarrow> rstring \<Rightarrow> snapshot_error + unit" where
  "check_attribute_order previous key =
    (case previous of
       None \<Rightarrow> Ok ()
     | Some prev \<Rightarrow>
        if prev < key then Ok ()
        else if prev = key then Err (DuplicateProvenanceAttribute key)
        else Err (NonCanonicalProvenanceAttributeOrder prev key))"

text \<open>The attribute loop with its accumulated map.\<close>

fun decode_attributes ::
  "nat \<Rightarrow> rstring option \<Rightarrow> attributes \<Rightarrow> (snapshot_error, attributes) reader" where
  "decode_attributes 0 previous attrs = return_reader attrs"
| "decode_attributes (Suc n) previous attrs =
     bind_reader (read_string (bstr ''provenance attribute key'')) (\<lambda>key.
     bind_reader (result_reader (check_attribute_order previous key)) (\<lambda>_.
     bind_reader (read_string (bstr ''provenance attribute value'')) (\<lambda>val.
       decode_attributes n (Some key) (btree_insert key val attrs))))"

definition snapshot_decoder :: "(snapshot_error, snapshot) reader" where
  "snapshot_decoder =
     bind_reader snapshot_read_magic (\<lambda>_.
     bind_reader snapshot_read_object_id (\<lambda>root_tree_id.
     bind_reader snapshot_read_u32 (\<lambda>parent_count.
     bind_reader (repeat_reader (unat parent_count) snapshot_read_object_id) (\<lambda>parents.
     bind_reader snapshot_read_u64 (\<lambda>timestamp_millis.
     bind_reader (read_optional_string (bstr ''author'')) (\<lambda>author.
     bind_reader (read_optional_string (bstr ''message'')) (\<lambda>message.
     bind_reader (read_string (bstr ''provenance source'')) (\<lambda>source.
     bind_reader snapshot_read_u32 (\<lambda>attribute_count.
     bind_reader (decode_attributes (unat attribute_count) None []) (\<lambda>attrs.
       return_reader (snapshot_new root_tree_id parents timestamp_millis author message
         \<lparr>prov_source = source, prov_attributes = attrs\<rparr>)))))))))))"

definition snapshot_from_canonical_bytes :: "bytes \<Rightarrow> snapshot_error + snapshot" where
  "snapshot_from_canonical_bytes bs =
     bind_result (snapshot_decoder (cursor_new bs)) (\<lambda>(s, c).
       if \<not> cursor_finished c then Err (SnapshotTrailingBytes (cur_offset c) (length bs))
       else Ok s)"

section \<open>Well-formed snapshots\<close>

definition wf_string :: "rstring \<Rightarrow> bool" where
  "wf_string s \<longleftrightarrow> utf8 s \<and> fits_u32 (length s)"

definition wf_optional_string :: "rstring option \<Rightarrow> bool" where
  "wf_optional_string v \<longleftrightarrow> (case v of None \<Rightarrow> True | Some s \<Rightarrow> wf_string s)"

definition wf_attributes :: "attributes \<Rightarrow> bool" where
  "wf_attributes m \<longleftrightarrow> sorted_wrt (<) (map fst m) \<and> fits_u32 (length m) \<and>
     list_all (\<lambda>(k, v). wf_string k \<and> wf_string v) m"

definition wf_snapshot :: "snapshot \<Rightarrow> bool" where
  "wf_snapshot s \<longleftrightarrow> valid_id (snap_root s) \<and>
     fits_u32 (length (snap_parents s)) \<and> list_all valid_id (snap_parents s) \<and>
     wf_optional_string (snap_author s) \<and> wf_optional_string (snap_message s) \<and>
     wf_string (prov_source (snap_provenance s)) \<and>
     wf_attributes (prov_attributes (snap_provenance s))"

lemma btree_insert_keys: "fst ` set (btree_insert k v m) = insert k (fst ` set m)"
  by (induction k v m rule: btree_insert.induct) auto

lemma btree_insert_sorted:
  "sorted_wrt (<) (map fst m) \<Longrightarrow> sorted_wrt (<) (map fst (btree_insert k v m))"
proof (induction k v m rule: btree_insert.induct)
  case (2 k v k' v' m)
  have "set (map fst (btree_insert k v m)) = insert k (fst ` set m)"
    using btree_insert_keys [of k v m] by simp
  with 2 show ?case by auto
qed simp

lemma btree_insert_lookup:
  "sorted_wrt (<) (map fst m) \<Longrightarrow> map_of (btree_insert k v m) = (map_of m)(k \<mapsto> v)"
proof (induction k v m rule: btree_insert.induct)
  case (2 k v k' v' m)
  have "k < k' \<Longrightarrow> map_of m k = None"
    using 2 by (auto simp: map_of_eq_None_iff)
  with 2 show ?case by (auto simp: fun_eq_iff)
qed simp

lemma btree_insert_last:
  "\<forall>k' \<in> fst ` set m. k' < k \<Longrightarrow> btree_insert k v m = m @ [(k, v)]"
  by (induction k v m rule: btree_insert.induct) auto

lemma snapshot_eta:
  "snapshot_new (snap_root s) (snap_parents s) (snap_timestamp s) (snap_author s)
     (snap_message s) \<lparr>prov_source = prov_source (snap_provenance s),
       prov_attributes = prov_attributes (snap_provenance s)\<rparr> = s"
  by (auto simp: snapshot_new_def intro!: snapshot.equality snapshot_provenance.equality)

section \<open>The cursor of the snapshot decoder\<close>

lemma snapshot_read_exact_ok:
  assumes "cursor_ok c"
  shows "snapshot_read_exact n c =
    (if cur_offset c + n > length (cur_bytes c)
     then Err (SnapshotUnexpectedEof (cur_offset c) n (length (cur_bytes c)))
     else Ok (take n (remaining c), advance n c))"
  using assms
  by (auto simp: snapshot_read_exact_def cursor_ok_def fits_memory_def USIZE_LIMIT_def Let_def
      advance_def remaining_def)

interpretation snapshot_cursor: byte_reader snapshot_read_exact
proof
  fix bs
  show "reads (snapshot_read_exact (length bs)) bs bs"
    unfolding reads_def
  proof (intro allI impI)
    fix c rest
    assume ok: "cursor_ok c" and rem: "remaining c = bs @ rest"
    have "cur_offset c + length bs \<le> length (cur_bytes c)"
      using cursor_ok_advance [OF ok rem] by (simp add: cursor_ok_def advance_def)
    with rem show "snapshot_read_exact (length bs) c = Inr (bs, advance (length bs) c)"
      by (simp add: snapshot_read_exact_ok [OF ok])
  qed
next
  fix n
  show "parses (snapshot_read_exact n) (\<lambda>e bs. e = bs \<and> length bs = n)"
    unfolding parses_def
  proof (intro allI impI)
    fix c bs c'
    assume run: "snapshot_read_exact n c = Inr (bs, c')" and ok: "cursor_ok c"
    then have "cur_offset c + n \<le> length (cur_bytes c)"
      and bs: "bs = take n (remaining c)" and c': "c' = advance n c"
      by (auto simp: snapshot_read_exact_ok split: if_splits)
    then have "length bs = n" by (simp add: remaining_def)
    moreover have "remaining c = bs @ drop n (remaining c)" using bs by simp
    ultimately show "\<exists>e rest. remaining c = e @ rest \<and> c' = advance (length e) c \<and>
        e = bs \<and> length bs = n"
      using c' by auto
  qed
qed

lemmas snapshot_reads = snapshot_cursor.reads_byte [folded snapshot_read_byte_def]
  snapshot_cursor.reads_u32 [folded snapshot_read_u32_def]
  snapshot_cursor.reads_u64 [folded snapshot_read_u64_def]

lemmas snapshot_parses = snapshot_cursor.parses_byte [folded snapshot_read_byte_def]
  snapshot_cursor.parses_u32 [folded snapshot_read_u32_def]
  snapshot_cursor.parses_u64 [folded snapshot_read_u64_def]

section \<open>Fields\<close>

lemma reads_snapshot_magic: "reads snapshot_read_magic SNAPSHOT_MAGIC ()"
  unfolding reads_def
proof (intro allI impI)
  fix c rest
  assume ok: "cursor_ok c" and rem: "remaining c = SNAPSHOT_MAGIC @ rest"
  have "reads (bind_reader (snapshot_read_exact (length SNAPSHOT_MAGIC)) (\<lambda>magic.
       if magic = SNAPSHOT_MAGIC then return_reader () else fail_reader SnapshotInvalidMagic))
     (SNAPSHOT_MAGIC @ []) ()"
    by (rule reads_bind [OF snapshot_cursor.rd_reads]) (simp add: reads_return)
  moreover have "length SNAPSHOT_MAGIC \<le> length (cur_bytes c)"
    using cursor_ok_advance [OF ok rem] by (simp add: cursor_ok_def advance_def)
  ultimately show "snapshot_read_magic c = Inr ((), advance (length SNAPSHOT_MAGIC) c)"
    using ok rem by (simp add: snapshot_read_magic_def readsD)
qed

lemma parses_snapshot_magic: "parses snapshot_read_magic (\<lambda>e u. e = SNAPSHOT_MAGIC)"
proof -
  have "parses (if magic = SNAPSHOT_MAGIC then return_reader () else fail_reader SnapshotInvalidMagic)
      (\<lambda>e u. e = [] \<and> magic = SNAPSHOT_MAGIC)" for magic
    by (simp add: parses_fail parses_return [of "()", simplified])
  then have "parses (bind_reader (snapshot_read_exact (length SNAPSHOT_MAGIC)) (\<lambda>magic.
       if magic = SNAPSHOT_MAGIC then return_reader () else fail_reader SnapshotInvalidMagic))
     (\<lambda>e u. e = SNAPSHOT_MAGIC)"
    by (rule parses_weaken [OF parses_bind [OF snapshot_cursor.rd_parses]]) auto
  then show ?thesis
    by (auto simp: parses_def snapshot_read_magic_def split: if_splits)
qed

lemma reads_snapshot_object_id:
  assumes "valid_id i"
  shows "reads snapshot_read_object_id (as_bytes i) i"
  unfolding snapshot_read_object_id_def
  using reads_bind_return [of "snapshot_read_exact OBJECT_ID_BYTES" "as_bytes i" "as_bytes i" ObjectId i]
    snapshot_cursor.rd_reads [of "as_bytes i"] assms
  by (simp add: valid_id_def)

lemma parses_snapshot_object_id:
  "parses snapshot_read_object_id (\<lambda>e i. e = as_bytes i \<and> valid_id i)"
  unfolding snapshot_read_object_id_def
  by (rule parses_weaken [OF parses_bind_return [OF snapshot_cursor.rd_parses]])
    (auto simp: valid_id_def)

lemma reads_string:
  assumes "wf_string s"
  shows "reads (read_string field) (write_string s) s"
proof -
  have "unat (word_of_nat (length s) :: u32) = length s"
    using assms by (simp add: wf_string_def unat_word_of_nat32)
  then have "reads (snapshot_read_exact (unat (word_of_nat (length s) :: u32))) s s"
    using snapshot_cursor.rd_reads [of s] by simp
  then have "reads (bind_reader (snapshot_read_exact (unat (word_of_nat (length s) :: u32))) (\<lambda>bs.
      result_reader (ok_or (StringNotUtf8 field) (from_utf8 bs)))) (s @ []) s"
    by (rule reads_bind [OF _ reads_result]) (use assms in \<open>simp add: wf_string_def from_utf8_def\<close>)
  then show ?thesis
    unfolding read_string_def write_string_def snapshot_write_u32_def
    by (intro reads_bind [OF snapshot_reads(2)]) simp
qed

lemma parses_string: "parses (read_string field) (\<lambda>e s. e = write_string s \<and> wf_string s)"
  unfolding read_string_def
  by (rule parses_weaken [OF parses_bind [OF snapshot_parses(2)
          parses_bind [OF snapshot_cursor.rd_parses parses_result]]])
    (auto simp: write_string_def snapshot_write_u32_def wf_string_def from_utf8_def ok_or_Inr_iff
      split: if_splits)

lemma reads_optional_string:
  assumes "wf_optional_string v"
  shows "reads (read_optional_string field) (write_optional_string v) v"
proof (cases v)
  case None
  have "reads (read_optional_string field) ([0] @ []) None"
    unfolding read_optional_string_def
    by (rule reads_bind [OF snapshot_reads(1)]) (simp add: reads_return)
  then show ?thesis by (simp add: None write_optional_string_def)
next
  case (Some s)
  have "reads (read_optional_string field) ([1] @ write_string s) (Some s)"
    unfolding read_optional_string_def
    by (rule reads_bind [OF snapshot_reads(1)])
      (use assms Some in \<open>simp add: wf_optional_string_def reads_bind_return [OF reads_string]\<close>)
  then show ?thesis by (simp add: Some write_optional_string_def)
qed

lemma parses_optional_string:
  "parses (read_optional_string field)
     (\<lambda>e v. e = write_optional_string v \<and> wf_optional_string v)"
  unfolding read_optional_string_def
proof (rule parses_weaken [OF parses_bind [OF snapshot_parses(1)]])
  show "parses (if tag = 0 then return_reader None
       else if tag = 1 then bind_reader (read_string field) (\<lambda>s. return_reader (Some s))
       else fail_reader (InvalidOptionalStringTag field tag))
     (\<lambda>e v. tag # e = write_optional_string v \<and> wf_optional_string v)" for tag
    using parses_return [of None]
    by (auto simp: write_optional_string_def wf_optional_string_def parses_fail
        intro: parses_weaken [OF parses_bind_return [OF parses_string]] elim: parses_weaken)
qed auto

section \<open>The attribute loop\<close>

text \<open>The loop's map so far holds the keys read, the last of them being the previous key.\<close>

definition attrs_upto :: "rstring option \<Rightarrow> attributes \<Rightarrow> bool" where
  "attrs_upto previous attrs \<longleftrightarrow> sorted_wrt (<) (map fst attrs) \<and>
     (case previous of None \<Rightarrow> attrs = [] | Some p \<Rightarrow> \<forall>k \<in> fst ` set attrs. k \<le> p)"

lemma attrs_upto_insert:
  assumes "attrs_upto previous attrs" and "check_attribute_order previous key = Ok ()"
  shows "btree_insert key val attrs = attrs @ [(key, val)] \<and>
    attrs_upto (Some key) (attrs @ [(key, val)])"
proof -
  have "\<forall>k \<in> fst ` set attrs. k < key"
    using assms by (auto simp: attrs_upto_def check_attribute_order_def split: option.splits if_splits)
  then show ?thesis
    using assms(1) by (auto simp: btree_insert_last attrs_upto_def sorted_wrt_append)
qed

fun ascending_from :: "rstring option \<Rightarrow> attributes \<Rightarrow> bool" where
  "ascending_from previous [] = True"
| "ascending_from previous ((k, v) # m) \<longleftrightarrow>
     check_attribute_order previous k = Ok () \<and> ascending_from (Some k) m"

lemma check_attribute_order_simps [simp]:
  "check_attribute_order None k = Ok ()"
  "check_attribute_order (Some p) k = Ok () \<longleftrightarrow> p < k"
  by (simp_all add: check_attribute_order_def)

lemma ascending_from_Some:
  "ascending_from (Some p) m \<longleftrightarrow> (\<forall>kv \<in> set m. p < fst kv) \<and> sorted_wrt (<) (map fst m)"
proof (induction m arbitrary: p)
  case (Cons kv m)
  then show ?case by (cases kv) (auto intro: less_trans)
qed simp

lemma ascending_from_None: "ascending_from None m \<longleftrightarrow> sorted_wrt (<) (map fst m)"
proof (cases m)
  case (Cons kv m')
  then show ?thesis by (cases kv) (simp add: ascending_from_Some)
qed simp

abbreviation wf_pair :: "rstring \<times> rstring \<Rightarrow> bool" where
  "wf_pair kv \<equiv> wf_string (fst kv) \<and> wf_string (snd kv)"

lemma write_attribute_pair: "write_attribute (k, v) = write_string k @ write_string v"
  by (simp add: write_attribute_def)

lemma reads_decode_attributes:
  "ascending_from previous m \<Longrightarrow> list_all wf_pair m \<Longrightarrow> attrs_upto previous attrs \<Longrightarrow>
     reads (decode_attributes (length m) previous attrs) (concat (map write_attribute m)) (attrs @ m)"
proof (induction m arbitrary: previous attrs)
  case Nil
  then show ?case by (simp add: reads_return)
next
  case (Cons kv m)
  obtain k v where kv: "kv = (k, v)" by fastforce
  have ord: "check_attribute_order previous k = Ok ()" and wf: "wf_string k" "wf_string v"
    using Cons.prems by (simp_all add: kv)
  note ins = attrs_upto_insert [OF Cons.prems(3) ord]
  have "reads (decode_attributes (length m) (Some k) (btree_insert k v attrs))
      (concat (map write_attribute m)) (attrs @ kv # m)"
    using Cons.IH [of "Some k" "attrs @ [(k, v)]"] Cons.prems ins by (simp add: kv)
  then show ?case
    unfolding kv length_Cons decode_attributes.simps list.map concat.simps write_attribute_pair
      append_assoc
    by (intro reads_bind [OF reads_string [OF wf(1)]] reads_bind_result [OF ord]
        reads_bind [OF reads_string [OF wf(2)]])
qed

lemma parses_decode_attributes:
  "attrs_upto previous attrs \<Longrightarrow>
   parses (decode_attributes n previous attrs)
     (\<lambda>e m'. \<exists>m. m' = attrs @ m \<and> e = concat (map write_attribute m) \<and> length m = n \<and>
        ascending_from previous m \<and> list_all wf_pair m)"
proof (induction n arbitrary: previous attrs)
  case 0
  show ?case by (simp add: parses_def return_reader_def)
next
  case (Suc n)
  have rest: "parses (decode_attributes n (Some k) (btree_insert k v attrs))
     (\<lambda>e m'. \<exists>m. m' = attrs @ (k, v) # m \<and> e = concat (map write_attribute m) \<and> length m = n \<and>
        ascending_from (Some k) m \<and> list_all wf_pair m)"
    if "check_attribute_order previous k = Ok ()" for k v
    using attrs_upto_insert [OF Suc.prems that] Suc.IH [of "Some k" "attrs @ [(k, v)]"] by simp
  show ?case
    unfolding decode_attributes.simps
  proof (rule parses_weaken)
    show "parses (bind_reader (read_string (bstr ''provenance attribute key'')) (\<lambda>key.
       bind_reader (result_reader (check_attribute_order previous key)) (\<lambda>_.
       bind_reader (read_string (bstr ''provenance attribute value'')) (\<lambda>val.
         decode_attributes n (Some key) (btree_insert key val attrs)))))
      (\<lambda>e m'. \<exists>k e1 e2. e = e1 @ e2 \<and> (e1 = write_string k \<and> wf_string k) \<and>
        (\<exists>u. check_attribute_order previous k = Inr u \<and>
          (\<exists>v e3 e4. e2 = e3 @ e4 \<and> (e3 = write_string v \<and> wf_string v) \<and>
            (\<exists>m. m' = attrs @ (k, v) # m \<and> e4 = concat (map write_attribute m) \<and> length m = n \<and>
              ascending_from (Some k) m \<and> list_all wf_pair m))))"
      by (intro parses_bind parses_bind_result parses_string rest) simp
  qed (elim exE conjE, rule exI [where x = "(k, v) # m" for k v m], auto simp: write_attribute_pair)
qed

section \<open>Round trip\<close>

lemma wf_attributes_iff:
  "wf_attributes m \<longleftrightarrow> ascending_from None m \<and> fits_u32 (length m) \<and> list_all wf_pair m"
  by (simp add: wf_attributes_def ascending_from_None case_prod_unfold)

lemma reads_snapshot_decoder:
  assumes "wf_snapshot s"
  shows "reads snapshot_decoder (snapshot_to_canonical_bytes s) s"
proof -
  let ?attrs = "prov_attributes (snap_provenance s)"
  have parents: "reads (repeat_reader (unat (word_of_nat (length (snap_parents s)) :: u32))
      snapshot_read_object_id) (concat (map as_bytes (snap_parents s))) (snap_parents s)"
    using assms reads_repeat [of "snap_parents s" snapshot_read_object_id as_bytes]
    by (simp add: wf_snapshot_def unat_word_of_nat32 list_all_iff reads_snapshot_object_id)
  have attrs: "reads (decode_attributes (unat (word_of_nat (length ?attrs) :: u32)) None [])
      (concat (map write_attribute ?attrs)) ?attrs"
    using assms reads_decode_attributes [of None ?attrs "[]"]
    by (simp add: wf_snapshot_def wf_attributes_iff unat_word_of_nat32 attrs_upto_def)
  have wf: "valid_id (snap_root s)" "wf_optional_string (snap_author s)"
      "wf_optional_string (snap_message s)" "wf_string (prov_source (snap_provenance s))"
    using assms by (simp_all add: wf_snapshot_def)
  show ?thesis
    unfolding snapshot_decoder_def snapshot_to_canonical_bytes_def snapshot_write_u32_def
    by (intro reads_bind [OF reads_snapshot_magic] reads_bind [OF reads_snapshot_object_id [OF wf(1)]]
        reads_bind [OF snapshot_reads(2)] reads_bind [OF parents] reads_bind [OF snapshot_reads(3)]
        reads_bind [OF reads_optional_string [OF wf(2)]]
        reads_bind [OF reads_optional_string [OF wf(3)]] reads_bind [OF reads_string [OF wf(4)]]
        reads_bind_return [OF attrs] snapshot_eta)
qed

lemma parses_snapshot_decoder:
  "parses snapshot_decoder (\<lambda>b s. b = snapshot_to_canonical_bytes s \<and> wf_snapshot s)"
  unfolding snapshot_decoder_def
  by (rule parses_weaken)
    ((rule parses_bind [OF parses_snapshot_magic],
      rule parses_bind [OF parses_snapshot_object_id], rule parses_bind [OF snapshot_parses(2)],
      rule parses_bind [OF parses_repeat [OF parses_snapshot_object_id]],
      rule parses_bind [OF snapshot_parses(3)], rule parses_bind [OF parses_optional_string],
      rule parses_bind [OF parses_optional_string], rule parses_bind [OF parses_string],
      rule parses_bind [OF snapshot_parses(2)],
      rule parses_bind_return [OF parses_decode_attributes], simp add: attrs_upto_def),
     auto simp: snapshot_to_canonical_bytes_def snapshot_new_def snapshot_write_u32_def
       wf_snapshot_def wf_attributes_iff)

lemma snapshot_decode_encode:
  assumes "wf_snapshot s" and "fits_memory (snapshot_to_canonical_bytes s)"
  shows "snapshot_from_canonical_bytes (snapshot_to_canonical_bytes s) = Ok s"
  using reads_finished [OF reads_snapshot_decoder [OF assms(1)] assms(2)]
  by (simp add: snapshot_from_canonical_bytes_def)

lemma snapshot_encode_decode:
  assumes "snapshot_from_canonical_bytes b = Ok s" and "fits_memory b"
  shows "b = snapshot_to_canonical_bytes s \<and> wf_snapshot s"
proof -
  from assms(1) obtain c where run: "snapshot_decoder (cursor_new b) = Inr (s, c)"
      and fin: "cursor_finished c"
    by (auto simp: snapshot_from_canonical_bytes_def bind_result_Inr_iff split: if_splits)
  show ?thesis
    by (rule parses_finished [OF parses_snapshot_decoder run fin assms(2)])
qed

section \<open>Properties\<close>

text \<open>
  C19. The snapshot decoder accepts exactly the canonical encodings of well-formed snapshots:
  a byte string decodes to a snapshot if and only if it is its canonical form. So a stored
  snapshot is read back with the same root, parents, time, author, message and provenance, and
  two snapshots with the same bytes are equal.
\<close>

theorem snapshot_canonical_iff:
  assumes "fits_memory b"
  shows "snapshot_from_canonical_bytes b = Ok s \<longleftrightarrow>
    wf_snapshot s \<and> snapshot_to_canonical_bytes s = b"
proof
  assume "snapshot_from_canonical_bytes b = Ok s"
  from snapshot_encode_decode [OF this assms]
  show "wf_snapshot s \<and> snapshot_to_canonical_bytes s = b" by simp
next
  assume "wf_snapshot s \<and> snapshot_to_canonical_bytes s = b"
  then show "snapshot_from_canonical_bytes b = Ok s"
    using snapshot_decode_encode [of s] assms by simp
qed

definition sample_snapshot :: snapshot where
  "sample_snapshot = snapshot_new (ObjectId (replicate 32 1)) [ObjectId (replicate 32 2)] 1700
     (Some (bstr ''ada'')) None
     (with_attribute (with_attribute provenance_manual (bstr ''tool'') (bstr ''cli''))
       (bstr ''host'') (bstr ''box''))"

theorem snapshot_canonical_iff_witness:
  "snapshot_from_canonical_bytes (snapshot_to_canonical_bytes sample_snapshot) =
    Ok sample_snapshot"
proof -
  have "fits_memory (snapshot_to_canonical_bytes sample_snapshot)" by code_simp
  moreover have "wf_snapshot sample_snapshot" by code_simp
  ultimately show ?thesis using snapshot_canonical_iff by blast
qed

text \<open>
  \<open>with_attribute\<close> adds or replaces one provenance attribute: the keys stay in strictly
  ascending order, the key is bound to the new value, and every other key keeps its value.
\<close>

lemma with_attribute_spec:
  assumes "sorted_wrt (<) (map fst (prov_attributes p))"
  shows "sorted_wrt (<) (map fst (prov_attributes (with_attribute p key val))) \<and>
    map_of (prov_attributes (with_attribute p key val)) = (map_of (prov_attributes p))(key \<mapsto> val) \<and>
    prov_source (with_attribute p key val) = prov_source p"
  using assms by (simp add: with_attribute_def btree_insert_sorted btree_insert_lookup)

lemma with_attribute_spec_example:
  "map_of (prov_attributes (with_attribute provenance_manual (bstr ''k'') (bstr ''v''))) (bstr ''k'') =
    Some (bstr ''v'')"
  using with_attribute_spec [of provenance_manual "bstr ''k''" "bstr ''v''"]
  by (simp add: provenance_manual_def provenance_new_def)

end
