(* ===== verification/Blob_Delta.thy ===== *)
theory Blob_Delta
  imports Object_Id Byte_Cursor
begin

text \<open>
  \<open>crates/object-store/src/blob_delta.rs\<close>: a blob stored as a common prefix and suffix of a base
  blob and the bytes between. Lengths keep their 64-bit width; on the 64-bit targets modelled here
  \<open>usize::try_from(u64)\<close> cannot fail and \<open>cursor + insert_len\<close> wraps (a release build). Error
  messages are the source's strings.
\<close>

definition MAX_DELTA_CHAIN_DEPTH :: u32 where
  "MAX_DELTA_CHAIN_DEPTH = 16"

definition MIN_DELTA_TARGET_BYTES :: nat where
  "MIN_DELTA_TARGET_BYTES = 16 * 1024"

definition MIN_DELTA_SAVINGS_BYTES :: nat where
  "MIN_DELTA_SAVINGS_BYTES = 1024"

definition DELTA_MAGIC :: bytes where
  "DELTA_MAGIC = bstr ''era-blob-delta-v1'' @ [10]"

definition U32_BYTES :: nat where
  "U32_BYTES = 4"

definition U64_BYTES :: nat where
  "U64_BYTES = 8"

definition HEADER_LEN :: nat where
  "HEADER_LEN = length DELTA_MAGIC + U32_BYTES + OBJECT_ID_BYTES + U64_BYTES * 5"

record blob_delta =
  delta_base_id :: object_id
  delta_depth :: u32
  delta_base_len :: u64
  delta_target_len :: u64
  delta_prefix_len :: u64
  delta_suffix_len :: u64
  delta_insert :: bytes

definition saturating_add :: "nat \<Rightarrow> nat \<Rightarrow> nat" where
  "saturating_add a b = min (a + b) (USIZE_LIMIT - 1)"

definition wrapping_add :: "nat \<Rightarrow> nat \<Rightarrow> nat" where
  "wrapping_add a b = (a + b) mod USIZE_LIMIT"

definition encoded_len :: "blob_delta \<Rightarrow> nat" where
  "encoded_len d = HEADER_LEN + length (delta_insert d)"

definition common_prefix_len :: "bytes \<Rightarrow> bytes \<Rightarrow> nat" where
  "common_prefix_len base target = length (takeWhile (\<lambda>(b, t). b = t) (zip base target))"

definition common_suffix_len :: "bytes \<Rightarrow> bytes \<Rightarrow> nat \<Rightarrow> nat" where
  "common_suffix_len base target prefix_len =
    (let max_suffix = min (length base) (length target) - prefix_len
     in length (takeWhile (\<lambda>(b, t). b = t) (take max_suffix (zip (rev base) (rev target)))))"

definition delta_create :: "object_id \<Rightarrow> bytes \<Rightarrow> u32 \<Rightarrow> bytes \<Rightarrow> blob_delta option" where
  "delta_create base_id base base_depth target =
    (if length target < MIN_DELTA_TARGET_BYTES \<or> base_depth \<ge> MAX_DELTA_CHAIN_DEPTH then None
     else
       let prefix_len = common_prefix_len base target;
           suffix_len = common_suffix_len base target prefix_len;
           insert_start = prefix_len;
           insert_end = length target - suffix_len;
           delta = \<lparr>delta_base_id = base_id, delta_depth = base_depth + 1,
             delta_base_len = word_of_nat (length base),
             delta_target_len = word_of_nat (length target),
             delta_prefix_len = word_of_nat prefix_len,
             delta_suffix_len = word_of_nat suffix_len,
             delta_insert = range_of target insert_start insert_end\<rparr>
       in if saturating_add (encoded_len delta) MIN_DELTA_SAVINGS_BYTES \<ge> length target then None
          else Some delta)"

definition delta_encode :: "blob_delta \<Rightarrow> bytes" where
  "delta_encode d =
     DELTA_MAGIC @ u32_to_be_bytes (delta_depth d) @ as_bytes (delta_base_id d) @
     u64_to_be_bytes (delta_base_len d) @ u64_to_be_bytes (delta_target_len d) @
     u64_to_be_bytes (delta_prefix_len d) @ u64_to_be_bytes (delta_suffix_len d) @
     u64_to_be_bytes (word_of_nat (length (delta_insert d))) @ delta_insert d"

section \<open>Decoding\<close>

text \<open>\<open>bytes.get(cursor..end).ok_or_else(..)\<close>: the three readers differ in the message only.\<close>

definition delta_get :: "string \<Rightarrow> nat \<Rightarrow> (string, bytes) reader" where
  "delta_get message n c =
    (let end' = cur_offset c + n
     in case slice (cur_bytes c) (cur_offset c) end' of
          None \<Rightarrow> Err message
        | Some v \<Rightarrow> Ok (v, c\<lparr>cur_offset := end'\<rparr>))"

definition delta_read_u32 :: "(string, u32) reader" where
  "delta_read_u32 = read_u32_with (delta_get ''truncated blob delta u32'')"

definition delta_read_u64 :: "(string, u64) reader" where
  "delta_read_u64 = read_u64_with (delta_get ''truncated blob delta u64'')"

definition delta_read_object_id :: "(string, object_id) reader" where
  "delta_read_object_id =
     bind_reader (delta_get ''truncated blob delta object id'' OBJECT_ID_BYTES)
       (\<lambda>bs. return_reader (ObjectId bs))"

text \<open>The header fields after the magic; the result still lacks the inserted bytes.\<close>

definition delta_header :: "(string, blob_delta \<times> u64) reader" where
  "delta_header =
     bind_reader delta_read_u32 (\<lambda>depth.
     bind_reader delta_read_object_id (\<lambda>base_id.
     bind_reader delta_read_u64 (\<lambda>base_len.
     bind_reader delta_read_u64 (\<lambda>target_len.
     bind_reader delta_read_u64 (\<lambda>prefix_len.
     bind_reader delta_read_u64 (\<lambda>suffix_len.
     bind_reader delta_read_u64 (\<lambda>insert_len.
       return_reader (\<lparr>delta_base_id = base_id, delta_depth = depth, delta_base_len = base_len,
         delta_target_len = target_len, delta_prefix_len = prefix_len,
         delta_suffix_len = suffix_len, delta_insert = []\<rparr>, insert_len))))))))"

definition delta_decode :: "bytes \<Rightarrow> string + blob_delta option" where
  "delta_decode bytes =
    (if \<not> starts_with DELTA_MAGIC bytes then Ok None
     else if length bytes < HEADER_LEN then Err ''truncated blob delta header''
     else
       bind_result (delta_header \<lparr>cur_bytes = bytes, cur_offset = length DELTA_MAGIC\<rparr>)
         (\<lambda>((delta, insert_len), c).
            if length bytes \<noteq> wrapping_add (cur_offset c) (unat insert_len)
            then Err ''blob delta insert length does not match payload''
            else Ok (Some (delta\<lparr>delta_insert := drop (cur_offset c) bytes\<rparr>))))"

definition delta_reconstruct :: "blob_delta \<Rightarrow> bytes \<Rightarrow> string + bytes" where
  "delta_reconstruct d base =
    (let base_len = unat (delta_base_len d);
         target_len = unat (delta_target_len d);
         prefix_len = unat (delta_prefix_len d);
         suffix_len = unat (delta_suffix_len d)
     in if length base \<noteq> base_len then Err ''blob delta base length does not match stored base''
        else if prefix_len > length base \<or> suffix_len > length base - prefix_len
        then Err ''blob delta base ranges are out of bounds''
        else if prefix_len > target_len \<or> suffix_len > target_len - prefix_len
        then Err ''blob delta target ranges are out of bounds''
        else if length (delta_insert d) \<noteq> target_len - prefix_len - suffix_len
        then Err ''blob delta insert length does not match target length''
        else Ok (take prefix_len base @ delta_insert d @
                 (if suffix_len > 0 then drop (length base - suffix_len) base else [])))"

section \<open>Common prefix and suffix\<close>

lemma takeWhile_zip_eq:
  "map fst (takeWhile (\<lambda>(b, t). b = t) (zip xs ys)) = map snd (takeWhile (\<lambda>(b, t). b = t) (zip xs ys))"
  by (rule map_cong [OF refl]) (auto dest: set_takeWhileD)

lemma takeWhile_zip_take:
  fixes xs ys
  defines "n \<equiv> length (takeWhile (\<lambda>(b, t). b = t) (zip xs ys))"
  shows "take n xs = take n ys" and "n \<le> length xs" and "n \<le> length ys"
proof -
  let ?t = "takeWhile (\<lambda>(b, t). b = t) (zip xs ys)"
  have le: "n \<le> length (zip xs ys)"
    unfolding n_def by (rule length_takeWhile_le)
  then show "n \<le> length xs" "n \<le> length ys" by simp_all
  have "?t = take n (zip xs ys)"
    unfolding n_def by (rule takeWhile_eq_take)
  then have "?t = zip (take n xs) (take n ys)"
    by (simp add: take_zip)
  then have "map fst (zip (take n xs) (take n ys)) = map snd (zip (take n xs) (take n ys))"
    using takeWhile_zip_eq [of xs ys] by (simp only:)
  then show "take n xs = take n ys"
    using le by (simp only: map_fst_zip_take map_snd_zip_take) simp
qed

lemma common_prefix_take:
  "take (common_prefix_len base target) base = take (common_prefix_len base target) target"
  "common_prefix_len base target \<le> length base"
  "common_prefix_len base target \<le> length target"
  unfolding common_prefix_len_def by (rule takeWhile_zip_take)+

lemma common_suffix_drop:
  fixes base target p
  defines "k \<equiv> common_suffix_len base target p"
  shows "drop (length base - k) base = drop (length target - k) target"
    and "k \<le> min (length base) (length target) - p"
proof -
  let ?m = "min (length base) (length target) - p"
  let ?xs = "take ?m (rev base)" and ?ys = "take ?m (rev target)"
  have k: "k = length (takeWhile (\<lambda>(b, t). b = t) (zip ?xs ?ys))"
    by (simp add: k_def common_suffix_len_def Let_def take_zip)
  show le: "k \<le> ?m"
    using takeWhile_zip_take(2) [of ?xs ?ys] by (simp add: k)
  have "take k ?xs = take k ?ys"
    using takeWhile_zip_take(1) [of ?xs ?ys] by (simp add: k)
  then have "take k (rev base) = take k (rev target)"
    using le by (simp add: min_def)
  then show "drop (length base - k) base = drop (length target - k) target"
    by (simp add: take_rev)
qed

lemma common_parts_bound:
  fixes base target
  defines "p \<equiv> common_prefix_len base target"
  shows "p + common_suffix_len base target p \<le> length base"
    and "p + common_suffix_len base target p \<le> length target"
  using common_suffix_drop(2) [of base target p] common_prefix_take(2,3) [of base target]
  by (auto simp: p_def)

section \<open>The cursor of the delta decoder\<close>

interpretation delta_cursor: byte_reader "delta_get message" for message
proof
  fix bs
  show "reads (delta_get message (length bs)) bs bs"
    unfolding reads_def
  proof (intro allI impI)
    fix c rest
    assume ok: "cursor_ok c" and rem: "remaining c = bs @ rest"
    have "cur_offset c + length bs \<le> length (cur_bytes c)"
      using cursor_ok_advance [OF ok rem] by (simp add: cursor_ok_def advance_def)
    with rem show "delta_get message (length bs) c = Inr (bs, advance (length bs) c)"
      by (simp add: delta_get_def slice_def advance_def remaining_def)
  qed
next
  fix n
  show "parses (delta_get message n) (\<lambda>e bs. e = bs \<and> length bs = n)"
    unfolding parses_def
  proof (intro allI impI)
    fix c bs c'
    assume run: "delta_get message n c = Inr (bs, c')"
    then have "cur_offset c + n \<le> length (cur_bytes c)"
      and bs: "bs = take n (remaining c)" and c': "c' = advance n c"
      by (auto simp: delta_get_def slice_def remaining_def advance_def Let_def
          split: option.splits if_splits)
    then have "length bs = n" by (simp add: remaining_def)
    moreover have "remaining c = bs @ drop n (remaining c)" using bs by simp
    ultimately show "\<exists>e rest. remaining c = e @ rest \<and> c' = advance (length e) c \<and>
        e = bs \<and> length bs = n"
      using c' by auto
  qed
qed

lemmas delta_reads = delta_cursor.reads_u32 [where message = "''truncated blob delta u32''",
    folded delta_read_u32_def]
  delta_cursor.reads_u64 [where message = "''truncated blob delta u64''", folded delta_read_u64_def]

lemmas delta_parses = delta_cursor.parses_u32 [where message = "''truncated blob delta u32''",
    folded delta_read_u32_def]
  delta_cursor.parses_u64 [where message = "''truncated blob delta u64''", folded delta_read_u64_def]

lemma reads_delta_object_id:
  "valid_id i \<Longrightarrow> reads delta_read_object_id (as_bytes i) i"
  unfolding delta_read_object_id_def
  using reads_bind_return [OF delta_cursor.rd_reads [where bs = "as_bytes i"], of ObjectId i]
  by (simp add: valid_id_def)

lemma parses_delta_object_id: "parses delta_read_object_id (\<lambda>e i. e = as_bytes i \<and> valid_id i)"
  unfolding delta_read_object_id_def
  by (rule parses_weaken [OF parses_bind_return [OF delta_cursor.rd_parses]])
    (auto simp: valid_id_def)

definition header_bytes :: "blob_delta \<Rightarrow> u64 \<Rightarrow> bytes" where
  "header_bytes d insert_len =
     u32_to_be_bytes (delta_depth d) @ as_bytes (delta_base_id d) @
     u64_to_be_bytes (delta_base_len d) @ u64_to_be_bytes (delta_target_len d) @
     u64_to_be_bytes (delta_prefix_len d) @ u64_to_be_bytes (delta_suffix_len d) @
     u64_to_be_bytes insert_len"

lemma delta_encode_header:
  "delta_encode d = DELTA_MAGIC @ header_bytes d (word_of_nat (length (delta_insert d))) @ delta_insert d"
  by (simp add: delta_encode_def header_bytes_def)

lemma length_header_bytes:
  "valid_id (delta_base_id d) \<Longrightarrow> length DELTA_MAGIC + length (header_bytes d n) = HEADER_LEN"
  by (simp add: header_bytes_def valid_id_def HEADER_LEN_def U32_BYTES_def U64_BYTES_def)

lemma reads_delta_header:
  assumes "valid_id (delta_base_id d)"
  shows "reads delta_header (header_bytes d n) (d\<lparr>delta_insert := []\<rparr>, n)"
  unfolding delta_header_def header_bytes_def
  by (intro reads_bind [OF delta_reads(1)] reads_bind [OF reads_delta_object_id [OF assms]]
      reads_bind [OF delta_reads(2)] reads_bind_return [OF delta_reads(2)])
    (simp add: blob_delta.defs)

lemma parses_delta_header:
  "parses delta_header (\<lambda>e (d, n). e = header_bytes d n \<and> valid_id (delta_base_id d) \<and> delta_insert d = [])"
  unfolding delta_header_def
  by (rule parses_weaken)
    ((rule parses_bind [OF delta_parses(1)], rule parses_bind [OF parses_delta_object_id],
      rule parses_bind [OF delta_parses(2)], rule parses_bind [OF delta_parses(2)],
      rule parses_bind [OF delta_parses(2)], rule parses_bind [OF delta_parses(2)],
      rule parses_bind_return [OF delta_parses(2)]),
     auto simp: header_bytes_def)

section \<open>Round trips\<close>

definition wf_delta :: "blob_delta \<Rightarrow> bool" where
  "wf_delta d \<longleftrightarrow> valid_id (delta_base_id d)"

lemma HEADER_LEN_value: "HEADER_LEN = 94"
  by (simp add: HEADER_LEN_def DELTA_MAGIC_def U32_BYTES_def U64_BYTES_def OBJECT_ID_BYTES_def)

lemma wrapping_add_cases:
  assumes "a < USIZE_LIMIT" and "b < USIZE_LIMIT"
  shows "wrapping_add a b = a + b \<or> wrapping_add a b < a"
proof (cases "a + b < USIZE_LIMIT")
  case False
  then have "(a + b) mod USIZE_LIMIT = (a + b - USIZE_LIMIT) mod USIZE_LIMIT"
    by (simp add: le_mod_geq)
  also have "\<dots> = a + b - USIZE_LIMIT" using assms False by simp
  finally show ?thesis using assms False by (auto simp: wrapping_add_def)
qed (simp add: wrapping_add_def)

lemma delta_header_at:
  assumes "reads delta_header e x" and "fits_memory bytes" and "bytes = DELTA_MAGIC @ e @ rest"
  shows "delta_header \<lparr>cur_bytes = bytes, cur_offset = length DELTA_MAGIC\<rparr> =
    Inr (x, \<lparr>cur_bytes = bytes, cur_offset = length DELTA_MAGIC + length e\<rparr>)"
proof -
  let ?c = "\<lparr>cur_bytes = bytes, cur_offset = length DELTA_MAGIC\<rparr>"
  have "cursor_ok ?c" "remaining ?c = e @ rest"
    using assms(2,3) by (simp_all add: cursor_ok_def remaining_def)
  from readsD [OF assms(1) this] show ?thesis by (simp add: advance_def)
qed

lemma delta_decode_encode:
  assumes "wf_delta d" and "fits_memory (delta_encode d)"
  shows "delta_decode (delta_encode d) = Ok (Some d)"
proof -
  let ?n = "word_of_nat (length (delta_insert d)) :: u64"
  have id: "valid_id (delta_base_id d)" using assms(1) by (simp add: wf_delta_def)
  have len: "length (delta_encode d) = HEADER_LEN + length (delta_insert d)"
    using length_header_bytes [OF id, of ?n] by (simp add: delta_encode_header)
  have "length (delta_insert d) < 2 ^ 64"
    using assms(2) by (simp add: fits_memory_def len)
  then have n: "unat ?n = length (delta_insert d)" by (rule unat_word_of_nat64)
  have hdr: "delta_header \<lparr>cur_bytes = delta_encode d, cur_offset = length DELTA_MAGIC\<rparr> =
      Inr ((d\<lparr>delta_insert := []\<rparr>, ?n), \<lparr>cur_bytes = delta_encode d, cur_offset = HEADER_LEN\<rparr>)"
    using delta_header_at [OF reads_delta_header [OF id] assms(2) delta_encode_header]
    by (simp add: length_header_bytes [OF id])
  have "wrapping_add HEADER_LEN (unat ?n) = length (delta_encode d)"
    using assms(2) by (simp add: wrapping_add_def n len fits_memory_def USIZE_LIMIT_def)
  moreover have "drop HEADER_LEN (delta_encode d) = delta_insert d"
    using length_header_bytes [OF id, of ?n, symmetric] by (simp add: delta_encode_header)
  moreover have "starts_with DELTA_MAGIC (delta_encode d)"
    by (simp add: delta_encode_header)
  ultimately show ?thesis
    by (simp add: delta_decode_def hdr len)
qed

lemma delta_encode_decode:
  assumes "delta_decode bytes = Ok (Some d)" and "fits_memory bytes"
  shows "wf_delta d \<and> delta_encode d = bytes"
proof -
  let ?c = "\<lparr>cur_bytes = bytes, cur_offset = length DELTA_MAGIC\<rparr>"
  from assms(1) obtain d' n c where
      magic: "starts_with DELTA_MAGIC bytes" and long: "HEADER_LEN \<le> length bytes"
      and run: "delta_header ?c = Inr ((d', n), c)"
      and len: "length bytes = wrapping_add (cur_offset c) (unat n)"
      and d: "d = d'\<lparr>delta_insert := drop (cur_offset c) bytes\<rparr>"
    by (auto simp: delta_decode_def bind_result_Inr_iff split: if_splits)
  from magic obtain tl where bytes: "bytes = DELTA_MAGIC @ tl"
    by (auto simp: starts_with_iff)
  have "cursor_ok ?c"
    using assms(2) by (simp add: cursor_ok_def bytes)
  from parsesD [OF parses_delta_header run this] obtain rest where
      tl: "tl = header_bytes d' n @ rest" and id: "valid_id (delta_base_id d')"
      and c: "cur_offset c = HEADER_LEN"
    using length_header_bytes [of d' n] by (auto simp: remaining_def advance_def bytes)
  have drop: "drop HEADER_LEN bytes = rest"
    by (simp add: bytes tl length_header_bytes [OF id, of n, symmetric])
  have "length bytes = HEADER_LEN + length rest"
    by (simp add: bytes tl length_header_bytes [OF id, of n, symmetric])
  moreover have "wrapping_add HEADER_LEN (unat n) = HEADER_LEN + unat n \<or>
      wrapping_add HEADER_LEN (unat n) < HEADER_LEN"
    by (rule wrapping_add_cases) (simp_all add: HEADER_LEN_value USIZE_LIMIT_def)
  ultimately have "unat n = length rest"
    using len by (auto simp: c)
  moreover have "n = word_of_nat (unat n)" by simp
  ultimately have "n = word_of_nat (length rest)" by simp
  moreover have "header_bytes d m = header_bytes d' m" for m
    by (simp add: header_bytes_def d)
  moreover have "delta_insert d = rest"
    unfolding d c drop by simp
  ultimately have "delta_encode d = bytes"
    by (simp only: delta_encode_header bytes tl)
  then show ?thesis using id by (simp add: wf_delta_def d)
qed

lemma delta_create_Some:
  assumes "delta_create base_id base base_depth target = Some d"
  shows "delta_base_id d = base_id" "delta_depth d = base_depth + 1"
    "base_depth < MAX_DELTA_CHAIN_DEPTH" "MIN_DELTA_TARGET_BYTES \<le> length target"
    "saturating_add (encoded_len d) MIN_DELTA_SAVINGS_BYTES < length target"
  using assms by (auto simp: delta_create_def Let_def split: if_splits)

lemma delta_reconstruct_create:
  assumes "delta_create base_id base base_depth target = Some d"
    and "length base < USIZE_LIMIT" and "fits_memory target"
  shows "delta_reconstruct d base = Ok target"
proof -
  define p where "p = common_prefix_len base target"
  define k where "k = common_suffix_len base target p"
  have pk: "p + k \<le> length base" "p + k \<le> length target"
    using common_parts_bound [of base target] by (simp_all add: p_def k_def)
  have unat: "unat (word_of_nat n :: u64) = n" if "n \<le> length base \<or> n \<le> length target" for n
    using that assms(2,3) by (intro unat_word_of_nat64) (auto simp: fits_memory_def USIZE_LIMIT_def)
  have d: "d = \<lparr>delta_base_id = base_id, delta_depth = base_depth + 1,
      delta_base_len = word_of_nat (length base), delta_target_len = word_of_nat (length target),
      delta_prefix_len = word_of_nat p, delta_suffix_len = word_of_nat k,
      delta_insert = range_of target p (length target - k)\<rparr>"
    using assms(1) by (auto simp: delta_create_def Let_def p_def k_def split: if_splits)
  have ins: "length (range_of target p (length target - k)) = length target - p - k"
    by (simp add: length_range_of)
  have suffix: "(if k > 0 then drop (length base - k) base else []) = drop (length target - k) target"
    using common_suffix_drop(1) [of base target p] by (simp add: k_def)
  have prefix: "take p base = range_of target 0 p"
    using common_prefix_take(1) [of base target] by (simp add: p_def range_of_def)
  have "range_of target 0 p @ range_of target p (length target - k) @
      range_of target (length target - k) (length target) = target"
    using pk by (simp add: range_of_append)
  then have "take p base @ range_of target p (length target - k) @
      (if k > 0 then drop (length base - k) base else []) = target"
    by (simp add: prefix suffix range_of_def)
  moreover have "\<not> length target - p < k" "\<not> length base - p < k"
    using pk by simp_all
  ultimately show ?thesis
    using pk ins by (simp add: delta_reconstruct_def Let_def d unat)
qed

lemma delta_reconstruct_length:
  "delta_reconstruct d base = Ok target \<Longrightarrow> length target = unat (delta_target_len d)"
  by (auto simp: delta_reconstruct_def Let_def split: if_splits)

lemma delta_create_depth:
  assumes "delta_create base_id base base_depth target = Some d"
  shows "unat (delta_depth d) = unat base_depth + 1" and "delta_depth d \<le> MAX_DELTA_CHAIN_DEPTH"
proof -
  note c = delta_create_Some [OF assms]
  have lt: "unat base_depth < 16"
    using c(3) by (simp add: MAX_DELTA_CHAIN_DEPTH_def word_less_nat_alt)
  then show depth: "unat (delta_depth d) = unat base_depth + 1"
    by (simp add: c(2) unat_word_ariths)
  then show "delta_depth d \<le> MAX_DELTA_CHAIN_DEPTH"
    using lt by (simp add: MAX_DELTA_CHAIN_DEPTH_def word_le_nat_alt)
qed

lemma delta_create_smaller:
  assumes "delta_create base_id base base_depth target = Some d" and "fits_memory target"
    and "valid_id base_id"
  shows "length (delta_encode d) + MIN_DELTA_SAVINGS_BYTES < length target"
proof -
  have "length (delta_encode d) = encoded_len d"
    using length_header_bytes [of d] delta_create_Some(1) [OF assms(1)] assms(3)
    by (simp add: delta_encode_header encoded_len_def add.assoc [symmetric])
  then show ?thesis
    using delta_create_Some(5) [OF assms(1)] assms(2)
    by (auto simp: saturating_add_def USIZE_LIMIT_def fits_memory_def min_def split: if_splits)
qed

lemma delta_create_decode:
  assumes "delta_create base_id base base_depth target = Some d" and "valid_id base_id"
    and "fits_memory target"
  shows "delta_decode (delta_encode d) = Ok (Some d)" and "fits_memory (delta_encode d)"
proof -
  show "fits_memory (delta_encode d)"
    using delta_create_smaller [OF assms(1,3,2)] assms(3) by (simp add: fits_memory_def)
  then show "delta_decode (delta_encode d) = Ok (Some d)"
    using delta_decode_encode [of d] delta_create_Some(1) [OF assms(1)] assms(2)
    by (simp add: wf_delta_def)
qed

section \<open>Properties\<close>

text \<open>
  C20. A delta that \<open>BlobDelta::create\<close> produces is decoded from its encoding unchanged, applied to
  its base it reconstructs the target exactly, its depth is one more than the base's and within the
  chain limit, and storing it saves more than the required number of bytes.
\<close>

theorem delta_create_correct:
  assumes "delta_create base_id base base_depth target = Some d"
    and "valid_id base_id" and "fits_memory base" and "fits_memory target"
  shows "delta_decode (delta_encode d) = Ok (Some d) \<and>
    delta_reconstruct d base = Ok target \<and>
    delta_base_id d = base_id \<and> unat (delta_depth d) = unat base_depth + 1 \<and>
    delta_depth d \<le> MAX_DELTA_CHAIN_DEPTH \<and>
    length (delta_encode d) + MIN_DELTA_SAVINGS_BYTES < length target"
proof -
  have small: "length (delta_encode d) + MIN_DELTA_SAVINGS_BYTES < length target"
    by (rule delta_create_smaller [OF assms(1,4,2)])
  have "delta_reconstruct d base = Ok target"
    using delta_reconstruct_create [OF assms(1) _ assms(4)] assms(3)
    by (simp add: fits_memory_def USIZE_LIMIT_def)
  then show ?thesis
    using small delta_create_decode [OF assms(1,2,4)] delta_create_Some(1) [OF assms(1)]
      delta_create_depth [OF assms(1)] by simp
qed

lemma delta_create_replicate:
  assumes "MIN_DELTA_TARGET_BYTES \<le> n" and "n < 2 ^ 63"
  shows "delta_create i (replicate n x) 0 (replicate n x) =
    Some \<lparr>delta_base_id = i, delta_depth = 1, delta_base_len = word_of_nat n,
      delta_target_len = word_of_nat n, delta_prefix_len = word_of_nat n, delta_suffix_len = 0,
      delta_insert = []\<rparr>"
proof -
  have "common_prefix_len (replicate n x) (replicate n x) = n"
    by (simp add: common_prefix_len_def)
  moreover have "common_suffix_len (replicate n x) (replicate n x) n = 0"
    by (simp add: common_suffix_len_def)
  ultimately show ?thesis
    using assms by (simp add: delta_create_def Let_def encoded_len_def saturating_add_def
        USIZE_LIMIT_def HEADER_LEN_value MIN_DELTA_SAVINGS_BYTES_def MIN_DELTA_TARGET_BYTES_def
        MAX_DELTA_CHAIN_DEPTH_def)
qed

theorem delta_create_correct_witness:
  "case delta_create (ObjectId (replicate 32 7)) (replicate 20000 65) 0 (replicate 20000 65) of
     None \<Rightarrow> False
   | Some d \<Rightarrow> delta_reconstruct d (replicate 20000 65) = Ok (replicate 20000 65)"
proof -
  have small: "MIN_DELTA_TARGET_BYTES \<le> 20000" "(20000 :: nat) < 2 ^ 63"
    by (simp_all add: MIN_DELTA_TARGET_BYTES_def)
  have "valid_id (ObjectId (replicate 32 7))" "fits_memory (replicate 20000 65)"
    by (simp_all add: valid_id_def OBJECT_ID_BYTES_def fits_memory_def)
  with delta_create_correct [OF delta_create_replicate [OF small], of "ObjectId (replicate 32 7)" 65]
  show ?thesis by (simp only: delta_create_replicate [OF small] option.case)
qed

text \<open>
  C21. The delta decoder accepts exactly the encodings of deltas: whatever the bytes, including a
  hostile length field that makes \<open>cursor + insert_len\<close> wrap, it returns a delta only for the
  canonical encoding of that delta.
\<close>

theorem delta_decode_exact:
  assumes "fits_memory bytes"
  shows "delta_decode bytes = Ok (Some d) \<longleftrightarrow> valid_id (delta_base_id d) \<and> delta_encode d = bytes"
proof
  assume "delta_decode bytes = Ok (Some d)"
  from delta_encode_decode [OF this assms]
  show "valid_id (delta_base_id d) \<and> delta_encode d = bytes" by (simp add: wf_delta_def)
next
  assume "valid_id (delta_base_id d) \<and> delta_encode d = bytes"
  then show "delta_decode bytes = Ok (Some d)"
    using delta_decode_encode [of d] assms by (simp add: wf_delta_def)
qed

definition sample_delta :: blob_delta where
  "sample_delta = \<lparr>delta_base_id = ObjectId (replicate 32 7), delta_depth = 3, delta_base_len = 10,
     delta_target_len = 11, delta_prefix_len = 4, delta_suffix_len = 5, delta_insert = [1, 2]\<rparr>"

theorem delta_decode_exact_witness:
  "delta_decode (delta_encode sample_delta) = Ok (Some sample_delta)"
proof -
  have "fits_memory (delta_encode sample_delta)" by code_simp
  moreover have "valid_id (delta_base_id sample_delta)" by code_simp
  ultimately show ?thesis
    using delta_decode_exact by blast
qed

end
