(* ===== verification/Object_Store.thy ===== *)
theory Object_Store
  imports File_System Era_Tree Era_Snapshot Blob_Delta
begin

text \<open>
  \<open>crates/object-store/src/local.rs\<close>, \<open>lib.rs\<close> and \<open>error.rs\<close>: the content-addressed store on
  the file system. Every asynchronous method is an operation on a world; \<open>read_blob_data_at\<close> recurses
  along a chain of deltas. The theory shows that reads return only content with the requested
  identifier, that no operation damages a stored object whatever fails or is published
  concurrently, that what was put is read back, and that the store's invariant is kept.
\<close>

datatype object_store_error =
    StoreIo path io_kind
  | MissingObject object_kind object_id path
  | HashMismatch object_kind path object_id object_id
  | InvalidBlobDelta object_id path string
  | BlobDeltaChainTooDeep object_id path
  | InvalidTreeObject object_id path tree_error
  | InvalidSnapshotObject object_id path snapshot_error
  | TempFileExhausted object_kind path object_id

record blob_read =
  br_bytes :: bytes
  br_depth :: u32

record local_object_store =
  store_root :: path

type_synonym 'a store_io = "(object_store_error, 'a) io"

definition object_dir :: "path \<Rightarrow> object_kind \<Rightarrow> path" where
  "object_dir root kind = root @ [case kind of
      BlobObject \<Rightarrow> bstr ''blobs''
    | TreeObject \<Rightarrow> bstr ''trees''
    | SnapshotObject \<Rightarrow> bstr ''snapshots'']"

definition object_path :: "local_object_store \<Rightarrow> object_kind \<Rightarrow> object_id \<Rightarrow> path" where
  "object_path s kind i = object_dir (store_root s) kind @ [shard_prefix i, to_hex i]"

definition blob_path :: "local_object_store \<Rightarrow> object_id \<Rightarrow> path" where
  "blob_path s i = object_path s BlobObject i"

definition tree_path :: "local_object_store \<Rightarrow> object_id \<Rightarrow> path" where
  "tree_path s i = object_path s TreeObject i"

definition snapshot_path :: "local_object_store \<Rightarrow> object_id \<Rightarrow> path" where
  "snapshot_path s i = object_path s SnapshotObject i"

fun open_dirs :: "path \<Rightarrow> object_kind list \<Rightarrow> unit store_io" where
  "open_dirs root [] = return_io ()"
| "open_dirs root (kind # kinds) =
     bind_io (map_err_io (StoreIo (object_dir root kind)) (create_dir_all (object_dir root kind)))
       (\<lambda>_. open_dirs root kinds)"

definition store_open :: "path \<Rightarrow> local_object_store store_io" where
  "store_open root =
     bind_io (open_dirs root [BlobObject, TreeObject, SnapshotObject])
       (\<lambda>_. return_io \<lparr>store_root = root\<rparr>)"

definition read_object_file :: "object_kind \<Rightarrow> path \<Rightarrow> object_id \<Rightarrow> bytes store_io" where
  "read_object_file kind p i =
     map_err_io (\<lambda>e. if e = NotFound then MissingObject kind i p else StoreIo p e) (read_file p)"

section \<open>Reading blobs\<close>

text \<open>\<open>recursion_depth\<close> is at most one above the chain limit, so it is a natural number here.\<close>

function read_blob_data_at ::
  "hasher \<Rightarrow> local_object_store \<Rightarrow> path \<Rightarrow> object_id \<Rightarrow> nat \<Rightarrow> blob_read store_io" where
  "read_blob_data_at blake3 s p i recursion_depth =
    (if recursion_depth > unat MAX_DELTA_CHAIN_DEPTH then fail_io (BlobDeltaChainTooDeep i p)
     else
       bind_io (read_object_file BlobObject p i) (\<lambda>stored.
       let raw_hash = from_content blake3 stored in
       if raw_hash = i then return_io \<lparr>br_bytes = stored, br_depth = 0\<rparr>
       else
         bind_io (result_io (map_err (InvalidBlobDelta i p) (delta_decode stored))) (\<lambda>decoded.
         case decoded of
           None \<Rightarrow> fail_io (HashMismatch BlobObject p i raw_hash)
         | Some delta \<Rightarrow>
             if delta_depth delta > MAX_DELTA_CHAIN_DEPTH then fail_io (BlobDeltaChainTooDeep i p)
             else
               bind_io (read_blob_data_at blake3 s (blob_path s (delta_base_id delta))
                   (delta_base_id delta) (recursion_depth + 1)) (\<lambda>base.
               if delta_depth delta \<noteq> br_depth base + 1
               then fail_io (InvalidBlobDelta i p ''blob delta chain depth does not match base'')
               else
                 bind_io (result_io (map_err (InvalidBlobDelta i p)
                     (delta_reconstruct delta (br_bytes base)))) (\<lambda>bytes.
                 let actual = from_content blake3 bytes in
                 if actual \<noteq> i then fail_io (HashMismatch BlobObject p i actual)
                 else return_io \<lparr>br_bytes = bytes, br_depth = delta_depth delta\<rparr>)))))"
  by pat_completeness auto
termination
  by (relation "measure (\<lambda>(_, _, _, _, r). Suc (unat MAX_DELTA_CHAIN_DEPTH) - r)") auto

declare read_blob_data_at.simps [simp del]

definition read_blob_data :: "hasher \<Rightarrow> local_object_store \<Rightarrow> object_id \<Rightarrow> blob_read store_io" where
  "read_blob_data blake3 s i = read_blob_data_at blake3 s (blob_path s i) i 0"

definition get_blob :: "hasher \<Rightarrow> local_object_store \<Rightarrow> object_id \<Rightarrow> bytes store_io" where
  "get_blob blake3 s i = bind_io (read_blob_data blake3 s i) (\<lambda>r. return_io (br_bytes r))"

definition get_object_bytes ::
  "hasher \<Rightarrow> local_object_store \<Rightarrow> object_kind \<Rightarrow> object_id \<Rightarrow> bytes store_io" where
  "get_object_bytes blake3 s kind i =
    (if kind = BlobObject then get_blob blake3 s i
     else
       let p = object_path s kind i in
       bind_io (read_object_file kind p i) (\<lambda>bytes.
       let actual = from_content blake3 bytes in
       if actual \<noteq> i then fail_io (HashMismatch kind p i actual) else return_io bytes))"

definition get_tree :: "hasher \<Rightarrow> local_object_store \<Rightarrow> object_id \<Rightarrow> tree store_io" where
  "get_tree blake3 s i =
     bind_io (get_object_bytes blake3 s TreeObject i) (\<lambda>bytes.
       result_io (map_err (InvalidTreeObject i (object_path s TreeObject i))
         (tree_from_canonical_bytes bytes)))"

definition get_snapshot :: "hasher \<Rightarrow> local_object_store \<Rightarrow> object_id \<Rightarrow> snapshot store_io" where
  "get_snapshot blake3 s i =
     bind_io (get_object_bytes blake3 s SnapshotObject i) (\<lambda>bytes.
       result_io (map_err (InvalidSnapshotObject i (object_path s SnapshotObject i))
         (snapshot_from_canonical_bytes bytes)))"

definition verify_object_file ::
  "hasher \<Rightarrow> local_object_store \<Rightarrow> object_kind \<Rightarrow> path \<Rightarrow> object_id \<Rightarrow> unit store_io" where
  "verify_object_file blake3 s kind p expected =
    (if kind = BlobObject
     then bind_io (read_blob_data_at blake3 s p expected 0) (\<lambda>_. return_io ())
     else
       bind_io (read_object_file kind p expected) (\<lambda>bytes.
       let actual = from_content blake3 bytes in
       if actual \<noteq> expected then fail_io (HashMismatch kind p expected actual)
       else return_io ()))"

definition is_missing :: "object_store_error \<Rightarrow> bool" where
  "is_missing e = (case e of MissingObject _ _ _ \<Rightarrow> True | _ \<Rightarrow> False)"

text \<open>\<open>Ok(_) => Ok(true), Err(MissingObject) => Ok(false), Err(error) => Err(error)\<close>\<close>

definition presence :: "'a store_io \<Rightarrow> bool store_io" where
  "presence m = match_io m (\<lambda>r. case r of
      Inr _ \<Rightarrow> return_io True
    | Inl e \<Rightarrow> if is_missing e then return_io False else fail_io e)"

definition contains_object_hash ::
  "hasher \<Rightarrow> local_object_store \<Rightarrow> object_kind \<Rightarrow> object_id \<Rightarrow> bool store_io" where
  "contains_object_hash blake3 s kind i =
     presence (verify_object_file blake3 s kind (object_path s kind i) i)"

definition contains :: "hasher \<Rightarrow> local_object_store \<Rightarrow> object_kind \<Rightarrow> object_id \<Rightarrow> bool store_io" where
  "contains blake3 s kind i =
    (case kind of
       BlobObject \<Rightarrow> contains_object_hash blake3 s kind i
     | TreeObject \<Rightarrow> presence (get_tree blake3 s i)
     | SnapshotObject \<Rightarrow> presence (get_snapshot blake3 s i))"

section \<open>Writing objects\<close>

definition remove_temp_file :: "path \<Rightarrow> unit store_io" where
  "remove_temp_file p = match_io (remove_file p) (\<lambda>r. case r of
      Inr _ \<Rightarrow> return_io ()
    | Inl e \<Rightarrow> if e = NotFound then return_io () else fail_io (StoreIo p e))"

definition temp_name :: "object_id \<Rightarrow> u32 \<Rightarrow> u64 \<Rightarrow> rstring" where
  "temp_name i pid counter =
     bstr ''.'' @ to_hex i @ bstr ''.'' @ decimal (unat pid) @ bstr ''.'' @ decimal (unat counter) @
     bstr ''.tmp''"

text \<open>A failed write or flush removes the temporary file, ignoring the outcome of the removal.\<close>

definition cleanup_temp :: "path \<Rightarrow> io_kind \<Rightarrow> 'a store_io" where
  "cleanup_temp p e = match_io (remove_file p) (\<lambda>_. fail_io (StoreIo p e))"

definition fill_temp :: "path \<Rightarrow> bytes \<Rightarrow> path store_io" where
  "fill_temp p bytes =
     match_io (write_all p bytes) (\<lambda>r. case r of
       Inl e \<Rightarrow> cleanup_temp p e
     | Inr _ \<Rightarrow> match_io (flush_file p) (\<lambda>r'. case r' of
         Inl e \<Rightarrow> cleanup_temp p e
       | Inr _ \<Rightarrow> return_io p))"

fun write_temp_attempts :: "nat \<Rightarrow> object_kind \<Rightarrow> path \<Rightarrow> object_id \<Rightarrow> bytes \<Rightarrow> path store_io" where
  "write_temp_attempts 0 kind parent i bytes = fail_io (TempFileExhausted kind parent i)"
| "write_temp_attempts (Suc n) kind parent i bytes =
     bind_io fetch_counter (\<lambda>counter.
     bind_io process_id (\<lambda>pid.
     let temp_path = parent @ [temp_name i pid counter] in
     match_io (create_new temp_path) (\<lambda>r. case r of
       Inr _ \<Rightarrow> fill_temp temp_path bytes
     | Inl e \<Rightarrow> if e = AlreadyExists then write_temp_attempts n kind parent i bytes
                else fail_io (StoreIo temp_path e))))"

definition write_temp_object :: "object_kind \<Rightarrow> path \<Rightarrow> object_id \<Rightarrow> bytes \<Rightarrow> path store_io" where
  "write_temp_object kind parent i bytes = write_temp_attempts 16 kind parent i bytes"

text \<open>The part of \<open>put_object\<close> after the presence check: temporary file, then hard link.\<close>

definition link_object ::
  "hasher \<Rightarrow> local_object_store \<Rightarrow> object_kind \<Rightarrow> object_id \<Rightarrow> bytes \<Rightarrow> object_id store_io" where
  "link_object blake3 s kind i bytes =
    (let p = object_path s kind i; parent = butlast p in
     bind_io (map_err_io (StoreIo parent) (create_dir_all parent)) (\<lambda>_.
     bind_io (write_temp_object kind parent i bytes) (\<lambda>temp_path.
     match_io (hard_link temp_path p) (\<lambda>r. case r of
       Inr _ \<Rightarrow> bind_io (remove_temp_file temp_path) (\<lambda>_. return_io i)
     | Inl e \<Rightarrow>
         if e = AlreadyExists
         then bind_io (remove_temp_file temp_path) (\<lambda>_.
              bind_io (verify_object_file blake3 s kind p i) (\<lambda>_. return_io i))
         else match_io (remove_file temp_path) (\<lambda>_. fail_io (StoreIo p e))))))"

definition put_object ::
  "hasher \<Rightarrow> local_object_store \<Rightarrow> object_kind \<Rightarrow> object_id \<Rightarrow> bytes \<Rightarrow> object_id store_io" where
  "put_object blake3 s kind i bytes =
    (let p = object_path s kind i in
     bind_io (map_err_io (StoreIo p) (try_exists p)) (\<lambda>present.
     if present
     then match_io (verify_object_file blake3 s kind p i) (\<lambda>r. case r of
         Inr _ \<Rightarrow> return_io i
       | Inl e \<Rightarrow> if is_missing e then link_object blake3 s kind i bytes else fail_io e)
     else link_object blake3 s kind i bytes))"

definition delta_storage_bytes ::
  "hasher \<Rightarrow> local_object_store \<Rightarrow> bytes \<Rightarrow> object_id \<Rightarrow> bytes option store_io" where
  "delta_storage_bytes blake3 s bytes base_id =
     match_io (read_blob_data blake3 s base_id) (\<lambda>r. case r of
       Inr base \<Rightarrow> return_io (map_option delta_encode
           (delta_create base_id (br_bytes base) (br_depth base) bytes))
     | Inl e \<Rightarrow> return_io None)"

definition put_blob_with_base ::
  "hasher \<Rightarrow> local_object_store \<Rightarrow> bytes \<Rightarrow> object_id option \<Rightarrow> object_id store_io" where
  "put_blob_with_base blake3 s bytes base_id =
    (let i = from_content blake3 bytes;
         usable = (case base_id of None \<Rightarrow> None
           | Some b \<Rightarrow> if b \<noteq> i \<and> length bytes \<ge> MIN_DELTA_TARGET_BYTES then Some b else None) in
     bind_io (case usable of
         Some b \<Rightarrow> delta_storage_bytes blake3 s bytes b
       | None \<Rightarrow> return_io None) (\<lambda>storage.
       put_object blake3 s BlobObject i (case storage of Some d \<Rightarrow> d | None \<Rightarrow> bytes)))"

definition put_blob :: "hasher \<Rightarrow> local_object_store \<Rightarrow> bytes \<Rightarrow> object_id store_io" where
  "put_blob blake3 s bytes = put_blob_with_base blake3 s bytes None"

text \<open>\<open>None\<close> is the panic of \<open>Tree::to_canonical_bytes\<close> on lengths above \<open>u32::MAX\<close>.\<close>

definition put_tree :: "hasher \<Rightarrow> local_object_store \<Rightarrow> tree \<Rightarrow> object_id store_io option" where
  "put_tree blake3 s t =
    (case tree_to_canonical_bytes t of
       None \<Rightarrow> None
     | Some bytes \<Rightarrow> Some (put_object blake3 s TreeObject (from_content blake3 bytes) bytes))"

definition put_snapshot :: "hasher \<Rightarrow> local_object_store \<Rightarrow> snapshot \<Rightarrow> object_id store_io" where
  "put_snapshot blake3 s sn =
    (let bytes = snapshot_to_canonical_bytes sn
     in put_object blake3 s SnapshotObject (from_content blake3 bytes) bytes)"

section \<open>Listing snapshots\<close>

text \<open>One entry of a shard directory: the identifier it contributes, if any.\<close>

definition listed_id :: "rstring \<Rightarrow> rstring \<Rightarrow> object_id option" where
  "listed_id shard_name name =
    (if \<not> utf8 name then None
     else if starts_with (bstr ''.'') name then None
     else case from_hex name of
       Inl _ \<Rightarrow> None
     | Inr i \<Rightarrow> if shard_prefix i = shard_name then Some i else None)"

fun list_shard :: "path \<Rightarrow> rstring \<Rightarrow> (rstring \<times> node) list \<Rightarrow> object_id list store_io" where
  "list_shard shard_path shard_name [] =
     bind_io (map_err_io (StoreIo shard_path) dir_step) (\<lambda>_. return_io [])"
| "list_shard shard_path shard_name ((name, n) # entries) =
     bind_io (map_err_io (StoreIo shard_path) dir_step) (\<lambda>_.
     bind_io (map_err_io (StoreIo (shard_path @ [name])) dir_step) (\<lambda>_.
     bind_io (list_shard shard_path shard_name entries) (\<lambda>ids.
       return_io (case n of
           FileNode _ \<Rightarrow> (case listed_id shard_name name of None \<Rightarrow> ids | Some i \<Rightarrow> i # ids)
         | _ \<Rightarrow> ids))))"

fun list_shards :: "path \<Rightarrow> (rstring \<times> node) list \<Rightarrow> object_id list store_io" where
  "list_shards dir [] = bind_io (map_err_io (StoreIo dir) dir_step) (\<lambda>_. return_io [])"
| "list_shards dir ((shard_name, n) # shards) =
     bind_io (map_err_io (StoreIo dir) dir_step) (\<lambda>_.
     if \<not> utf8 shard_name then list_shards dir shards
     else
       bind_io (map_err_io (StoreIo (dir @ [shard_name])) dir_step) (\<lambda>_.
       if n \<noteq> DirNode then list_shards dir shards
       else
         bind_io (map_err_io (StoreIo (dir @ [shard_name])) (read_dir (dir @ [shard_name]))) (\<lambda>objects.
         bind_io (list_shard (dir @ [shard_name]) shard_name objects) (\<lambda>ids.
         bind_io (list_shards dir shards) (\<lambda>more.
           return_io (ids @ more))))))"

definition list_snapshot_ids :: "local_object_store \<Rightarrow> object_id list store_io" where
  "list_snapshot_ids s =
    (let snapshots_dir = object_dir (store_root s) SnapshotObject in
     bind_io (map_err_io (StoreIo snapshots_dir) (read_dir snapshots_dir)) (\<lambda>shards.
     bind_io (list_shards snapshots_dir shards) (\<lambda>ids.
       return_io (remdups_adj (sort ids)))))"

section \<open>Paths\<close>

lemma length_object_path [simp]: "length (object_path s k i) = length (store_root s) + 3"
  by (simp add: object_path_def object_dir_def)

lemma object_path_not_Nil [simp]: "object_path s k i \<noteq> []"
  by (simp add: object_path_def)

lemma to_hex_no_dot: "to_hex i \<noteq> 46 # cs"
proof -
  have "\<forall>n \<in> set [0..<16]. hex_digit (word_of_nat n) \<noteq> 46" by code_simp
  then have "hex_digit v \<noteq> 46" if "v < 16" for v
    using all_nibbles [of "\<lambda>v. hex_digit v \<noteq> 46" v] that by blast
  then show ?thesis
    using drop_bit_4_less by (cases i; cases "as_bytes i") (auto simp: to_hex_def hex_byte_def)
qed

definition temp_path :: "local_object_store \<Rightarrow> object_kind \<Rightarrow> object_id \<Rightarrow> path \<Rightarrow> bool" where
  "temp_path s k i t \<longleftrightarrow> (\<exists>pid c. t = butlast (object_path s k i) @ [temp_name i pid c])"

lemma temp_path_off: "temp_path s k i t \<Longrightarrow> take n (object_path s k' j) \<noteq> t"
proof
  assume "temp_path s k i t" and eq: "take n (object_path s k' j) = t"
  then obtain pid c where t: "t = butlast (object_path s k i) @ [temp_name i pid c]"
    by (auto simp: temp_path_def)
  have "length t = length (store_root s) + 3" by (simp add: t)
  then have "t = object_path s k' j"
    using eq by (metis length_object_path length_take min.absorb_iff2 nle_le take_all)
  then have "last t = to_hex j" by (simp add: object_path_def)
  moreover have "last t = 46 # drop 1 (temp_name i pid c)" by (simp add: t temp_name_def)
  ultimately show False using to_hex_no_dot by metis
qed

lemma temp_path_not_Nil: "temp_path s k i t \<Longrightarrow> t \<noteq> []"
  by (auto simp: temp_path_def)

lemma resolve_temp:
  assumes "temp_path s k i t"
  shows "resolve (fs_set t n fs) (object_path s k' j) = resolve fs (object_path s k' j)"
    and "resolve (fs_del t fs) (object_path s k' j) = resolve fs (object_path s k' j)"
  using temp_path_off [OF assms]
  by (auto intro!: resolve_cong simp: fs_get_set fs_get_del)

lemma readable_temp:
  assumes "temp_path s k i t"
  shows "readable (fs_set t n fs) (object_path s k' j) b \<longleftrightarrow> readable fs (object_path s k' j) b"
    and "readable (fs_del t fs) (object_path s k' j) b \<longleftrightarrow> readable fs (object_path s k' j) b"
  by (simp_all add: readable_def resolve_temp [OF assms])

lemma get_temp:
  assumes "temp_path s k i t"
  shows "fs_get (fs_set t n fs) (object_path s k' j) = fs_get fs (object_path s k' j)"
    and "fs_get (fs_del t fs) (object_path s k' j) = fs_get fs (object_path s k' j)"
  using temp_path_off [OF assms, of "length (object_path s k' j)"]
  by (auto simp: fs_get_set fs_get_del)

lemma object_path_inj:
  assumes "object_path s k i = object_path s k' j" and "valid_id i" and "valid_id j"
  shows "k = k' \<and> i = j"
proof -
  have "to_hex i = to_hex j"
    using assms(1) by (simp add: object_path_def object_dir_def)
  moreover have "(case k of BlobObject \<Rightarrow> bstr ''blobs'' | TreeObject \<Rightarrow> bstr ''trees''
        | SnapshotObject \<Rightarrow> bstr ''snapshots'') =
      (case k' of BlobObject \<Rightarrow> bstr ''blobs'' | TreeObject \<Rightarrow> bstr ''trees''
        | SnapshotObject \<Rightarrow> bstr ''snapshots'')"
    using assms(1) by (simp add: object_path_def object_dir_def)
  then have "k = k'" by (cases k; cases k') simp_all
  ultimately show ?thesis using to_hex_inj assms(2,3) by blast
qed

section \<open>What a file system stores\<close>

text \<open>
  \<open>stored blake3 s fs i b n\<close>: the blob \<open>i\<close> reads as the bytes \<open>b\<close> through a chain of \<open>n\<close> deltas.
\<close>

inductive stored ::
  "hasher \<Rightarrow> local_object_store \<Rightarrow> fs \<Rightarrow> object_id \<Rightarrow> bytes \<Rightarrow> u32 \<Rightarrow> bool"
  for blake3 s fs where
  stored_raw: "readable fs (blob_path s i) b \<Longrightarrow> from_content blake3 b = i \<Longrightarrow>
    stored blake3 s fs i b 0"
| stored_delta: "readable fs (blob_path s i) e \<Longrightarrow> from_content blake3 e \<noteq> i \<Longrightarrow>
    delta_decode e = Ok (Some d) \<Longrightarrow> delta_depth d \<le> MAX_DELTA_CHAIN_DEPTH \<Longrightarrow>
    stored blake3 s fs (delta_base_id d) bb n \<Longrightarrow> delta_depth d = n + 1 \<Longrightarrow>
    delta_reconstruct d bb = Ok b \<Longrightarrow> from_content blake3 b = i \<Longrightarrow>
    stored blake3 s fs i b (delta_depth d)"

lemma stored_hash: "stored blake3 s fs i b n \<Longrightarrow> from_content blake3 b = i"
  by (cases rule: stored.cases) simp_all

lemma stored_depth: "stored blake3 s fs i b n \<Longrightarrow> n \<le> MAX_DELTA_CHAIN_DEPTH"
  by (induction rule: stored.induct) (auto simp: MAX_DELTA_CHAIN_DEPTH_def)

lemma stored_mono:
  assumes "stored blake3 s fs i b n"
    and "\<And>j x. readable fs (blob_path s j) x \<Longrightarrow> readable fs' (blob_path s j) x"
  shows "stored blake3 s fs' i b n"
  using assms(1)
  by (induction rule: stored.induct) (blast intro: stored_raw stored_delta assms(2))+

lemma stored_ext: "stored blake3 s fs i b n \<Longrightarrow> fs_ext fs fs' \<Longrightarrow> stored blake3 s fs' i b n"
  by (erule stored_mono) (rule readable_ext)

lemma stored_temp:
  assumes "temp_path s k i t"
  shows "stored blake3 s fs j b m \<Longrightarrow> stored blake3 s (fs_set t n fs) j b m"
    and "stored blake3 s fs j b m \<Longrightarrow> stored blake3 s (fs_del t fs) j b m"
  by (erule stored_mono, simp add: blob_path_def readable_temp [OF assms])+

lemma stored_unique:
  "stored blake3 s fs i b n \<Longrightarrow> stored blake3 s fs i b' n' \<Longrightarrow> b = b' \<and> n = n'"
proof (induction arbitrary: b' n' rule: stored.induct)
  case (stored_raw i b)
  from stored_raw(3) show ?case
    by (cases rule: stored.cases) (use stored_raw(1,2) readable_unique in blast)+
next
  case (stored_delta i e d bb n b)
  note path = stored_delta.hyps(1) and ne = stored_delta.hyps(2) and dec = stored_delta.hyps(3)
    and rec = stored_delta.hyps(7) and dep = stored_delta.hyps(6) and IH = stored_delta.IH
  from stored_delta.prems show ?case
  proof (cases rule: stored.cases)
    case stored_raw
    have "b' = e" using stored_raw(2) path by (rule readable_unique)
    with stored_raw(3) ne show ?thesis by metis
  next
    case (stored_delta e' d' bb' m)
    have "e' = e" using stored_delta(2) path by (rule readable_unique)
    then have "d' = d" using stored_delta(4) dec by (metis Inr_inject option.inject)
    then have "bb = bb'" using IH [of bb' m] stored_delta(6) by blast
    then have "b' = b" using stored_delta(8) rec \<open>d' = d\<close> by (metis Inr_inject)
    then show ?thesis using stored_delta(1) \<open>d' = d\<close> by simp
  qed
qed

section \<open>Reads\<close>

lemma hoare_read_object_file:
  assumes "stable R P"
  shows "hoare R P (read_object_file k p i)
    (\<lambda>r fs. P fs \<and> (\<forall>b. r = Ok b \<longrightarrow> readable fs p b))"
  unfolding read_object_file_def read_file_def
  by (rule hoare_map_err, rule hoare_syscall [OF assms])
    (auto simp: no_effect_def dest: op_read_run)

lemma stable_readable: "stable R P \<Longrightarrow> stable R (\<lambda>fs. P fs \<and> readable fs p b)"
  by (rule stable_conj, assumption, rule stable_mono) (rule readable_ext)

lemma hoare_if:
  "(c \<Longrightarrow> hoare R P m Q) \<Longrightarrow> (\<not> c \<Longrightarrow> hoare R P m' Q) \<Longrightarrow> hoare R P (if c then m else m') Q"
  by simp

lemma hoare_option:
  "(x = None \<Longrightarrow> hoare R P m Q) \<Longrightarrow> (\<And>y. x = Some y \<Longrightarrow> hoare R P (f y) Q) \<Longrightarrow>
     hoare R P (case x of None \<Rightarrow> m | Some y \<Rightarrow> f y) Q"
  by (cases x) simp_all

lemma hoare_bind_result:
  assumes "\<And>e. r = Err e \<Longrightarrow> (\<And>fs. P fs \<Longrightarrow> Q (Err (g e)) fs)" and "\<And>x. r = Ok x \<Longrightarrow> hoare R P (f x) Q"
  shows "hoare R P (bind_io (result_io (map_err g r)) f) Q"
proof (cases r)
  case (Inl e)
  then show ?thesis using assms(1) by (simp add: hoare_def bind_io_def result_io_def)
next
  case (Inr x)
  then show ?thesis using assms(2) by (simp add: hoare_def bind_io_def result_io_def)
qed

lemma hoare_read_blob_data_at:
  "stable R P \<Longrightarrow> hoare R P (read_blob_data_at blake3 s p i r)
     (\<lambda>res fs. P fs \<and> (\<forall>x. res = Ok x \<longrightarrow> p = blob_path s i \<longrightarrow>
        stored blake3 s fs i (br_bytes x) (br_depth x)))"
proof (induction blake3 s p i r arbitrary: P rule: read_blob_data_at.induct)
  case (1 blake3 s p i r)
  define M where "M = (\<lambda>e fs. P fs \<and> readable fs p e)"
  have M: "stable R (M e)" for e
    unfolding M_def by (rule stable_readable [OF "1.prems"])
  define Q where "Q = (\<lambda>(res :: object_store_error + blob_read) fs. P fs \<and> (\<forall>x. res = Ok x \<longrightarrow>
      p = blob_path s i \<longrightarrow> stored blake3 s fs i (br_bytes x) (br_depth x)))"
  have QE: "Q (Err x) fs" if "M e fs" for x e fs
    using that by (simp add: M_def Q_def)
  have body: "hoare R (M e) (bind_io (read_blob_data_at blake3 s (blob_path s (delta_base_id d))
        (delta_base_id d) (r + 1)) (\<lambda>base.
      if delta_depth d \<noteq> br_depth base + 1
      then fail_io (InvalidBlobDelta i p ''blob delta chain depth does not match base'')
      else bind_io (result_io (map_err (InvalidBlobDelta i p) (delta_reconstruct d (br_bytes base))))
        (\<lambda>bytes. let actual = from_content blake3 bytes in
          if actual \<noteq> i then fail_io (HashMismatch BlobObject p i actual)
          else return_io \<lparr>br_bytes = bytes, br_depth = delta_depth d\<rparr>))) Q"
    if r: "\<not> unat MAX_DELTA_CHAIN_DEPTH < r" and ne: "from_content blake3 e \<noteq> i"
      and dec: "delta_decode e = Ok (Some d)" and dep: "\<not> MAX_DELTA_CHAIN_DEPTH < delta_depth d" for e d
  proof (rule hoare_bind [where M = "\<lambda>base fs. M e fs \<and>
        stored blake3 s fs (delta_base_id d) (br_bytes base) (br_depth base)"])
    show "hoare R (M e) (read_blob_data_at blake3 s (blob_path s (delta_base_id d))
        (delta_base_id d) (r + 1)) (\<lambda>r fs. case r of Inl e \<Rightarrow> Q (Err e) fs
          | Inr base \<Rightarrow> M e fs \<and> stored blake3 s fs (delta_base_id d) (br_bytes base) (br_depth base))"
      by (rule hoare_post [OF "1.IH" [OF r refl ne dep M]]) (auto split: sum.split intro: QE)
  next
    fix base
    show "hoare R (\<lambda>fs. M e fs \<and> stored blake3 s fs (delta_base_id d) (br_bytes base) (br_depth base))
      (if delta_depth d \<noteq> br_depth base + 1
      then fail_io (InvalidBlobDelta i p ''blob delta chain depth does not match base'')
      else bind_io (result_io (map_err (InvalidBlobDelta i p) (delta_reconstruct d (br_bytes base))))
        (\<lambda>bytes. let actual = from_content blake3 bytes in
          if actual \<noteq> i then fail_io (HashMismatch BlobObject p i actual)
          else return_io \<lparr>br_bytes = bytes, br_depth = delta_depth d\<rparr>)) Q"
      unfolding Let_def
    proof (intro hoare_if hoare_bind_result hoare_return hoare_fail)
      fix bytes fs
      assume *: "\<not> delta_depth d \<noteq> br_depth base + 1" "delta_reconstruct d (br_bytes base) = Ok bytes"
          "\<not> from_content blake3 bytes \<noteq> i"
        "M e fs \<and> stored blake3 s fs (delta_base_id d) (br_bytes base) (br_depth base)"
      have "stored blake3 s fs i bytes (delta_depth d)" if "p = blob_path s i"
        by (rule stored_delta [OF _ ne dec, of _ _ "br_bytes base" "br_depth base"])
          (use * dep that in \<open>auto simp: M_def\<close>)
      with * show "Q (Ok \<lparr>br_bytes = bytes, br_depth = delta_depth d\<rparr>) fs"
        by (simp add: Q_def M_def)
    qed (auto intro: QE)
  qed
  show ?case
  proof (cases "unat MAX_DELTA_CHAIN_DEPTH < r")
    case False
    then have r: "\<not> unat MAX_DELTA_CHAIN_DEPTH < r" by simp
    note tail = body [unfolded Let_def, OF r]
    have found: "hoare R P (read_object_file BlobObject p i)
        (\<lambda>r fs. case r of Inl e \<Rightarrow> Q (Err e) fs | Inr e \<Rightarrow> M e fs)"
      by (rule hoare_post [OF hoare_read_object_file [OF "1.prems"]])
        (auto simp: M_def Q_def split: sum.split)
    show ?thesis
      unfolding read_blob_data_at.simps [of blake3 s p i r] if_not_P [OF r] Let_def Q_def [symmetric]
      by (rule hoare_bind [OF found], intro hoare_if hoare_bind_result hoare_option tail hoare_fail
          hoare_return QE) (auto simp: Q_def M_def intro: stored_raw)
  qed (auto intro: hoare_fail simp: read_blob_data_at.simps [of blake3 s p i r])
qed

lemma quiet_read_object_file:
  "quiet w \<Longrightarrow> readable (w_fs w) p b \<Longrightarrow> read_object_file k p i w = (Ok b, w)"
  by (simp add: read_object_file_def map_err_io_def match_io_def quiet_read_file result_io_def op_read_Ok)

text \<open>In a quiet world a stored blob is read wherever the chain still fits the recursion limit.\<close>

lemma quiet_read_blob_data_at:
  assumes "stored blake3 s fs i b n" and "quiet w" and "w_fs w = fs"
  shows "r + unat n \<le> unat MAX_DELTA_CHAIN_DEPTH \<Longrightarrow>
    read_blob_data_at blake3 s (blob_path s i) i r w = (Ok \<lparr>br_bytes = b, br_depth = n\<rparr>, w)"
  using assms(1)
proof (induction arbitrary: r rule: stored.induct)
  case (stored_raw i b)
  then show ?case
    using quiet_read_object_file [OF assms(2), of "blob_path s i" b] assms(3)
    by (simp add: read_blob_data_at.simps [of blake3 s "blob_path s i" i r] bind_io_def return_io_def)
next
  case (stored_delta i e d bb n b)
  have "unat n < 2 ^ 32 - 1"
    using stored_depth [OF stored_delta.hyps(5)]
    by (simp add: MAX_DELTA_CHAIN_DEPTH_def word_le_nat_alt)
  then have "unat (n + 1) = unat n + 1"
    by (simp add: unat_word_ariths)
  then have "r + 1 + unat n \<le> unat MAX_DELTA_CHAIN_DEPTH"
    using stored_delta.prems stored_delta.hyps(6) by simp
  note base = stored_delta.IH [OF this]
  have "\<not> unat MAX_DELTA_CHAIN_DEPTH < r" "\<not> MAX_DELTA_CHAIN_DEPTH < delta_depth d"
    using stored_delta.prems stored_delta.hyps(4) by simp_all
  moreover have "read_object_file BlobObject (blob_path s i) i w = (Ok e, w)"
    using quiet_read_object_file [OF assms(2), of "blob_path s i" e] stored_delta.hyps(1) assms(3) by simp
  ultimately show ?case
    using base stored_delta.hyps(2,3,6,7,8)
    by (simp add: read_blob_data_at.simps [of blake3 s "blob_path s i" i r] bind_io_def return_io_def
        result_io_def)
qed

lemma quiet_get_blob:
  assumes "stored blake3 s (w_fs w) i b n" and "quiet w"
  shows "get_blob blake3 s i w = (Ok b, w)"
proof -
  have "unat n \<le> unat MAX_DELTA_CHAIN_DEPTH"
    using stored_depth [OF assms(1)] by (simp add: word_le_nat_alt)
  then show ?thesis
    using quiet_read_blob_data_at [OF assms(1,2) refl, of 0]
    by (simp add: get_blob_def read_blob_data_def bind_io_def return_io_def)
qed

lemma hoare_get_blob:
  assumes "stable R P"
  shows "hoare R P (get_blob blake3 s i)
    (\<lambda>r fs. P fs \<and> (\<forall>b. r = Ok b \<longrightarrow> (\<exists>n. stored blake3 s fs i b n)))"
  unfolding get_blob_def read_blob_data_def
  by (rule hoare_bind [OF hoare_post [OF hoare_read_blob_data_at [OF assms]], where
        M = "\<lambda>x fs. P fs \<and> stored blake3 s fs i (br_bytes x) (br_depth x)"])
    (auto intro!: hoare_return split: sum.split)

section \<open>Objects and the invariant of the store\<close>

definition object_ok :: "hasher \<Rightarrow> local_object_store \<Rightarrow> fs \<Rightarrow> object_kind \<Rightarrow> object_id \<Rightarrow> bool" where
  "object_ok blake3 s fs k i \<longleftrightarrow>
    (if k = BlobObject then \<exists>b n. stored blake3 s fs i b n
     else \<exists>b. readable fs (object_path s k i) b \<and> from_content blake3 b = i)"

definition store_ok :: "hasher \<Rightarrow> local_object_store \<Rightarrow> fs \<Rightarrow> bool" where
  "store_ok blake3 s fs \<longleftrightarrow>
    (\<forall>k i b. valid_id i \<longrightarrow> fs_get fs (object_path s k i) = Some (FileNode b) \<longrightarrow>
       object_ok blake3 s fs k i)"

text \<open>
  What other processes may publish: anything at paths that are not object paths, and at an object
  path only a file that makes the object readable.
\<close>

definition store_rely :: "hasher \<Rightarrow> local_object_store \<Rightarrow> fs \<Rightarrow> path \<Rightarrow> bytes \<Rightarrow> bool" where
  "store_rely blake3 s fs p b \<longleftrightarrow>
    (\<forall>k i. valid_id i \<longrightarrow> p = object_path s k i \<longrightarrow>
       object_ok blake3 s (fs_set p (FileNode b) fs) k i)"

text \<open>The bytes that \<open>put_object\<close> is given: the object itself, or a delta that reconstructs it.\<close>

definition storable ::
  "hasher \<Rightarrow> local_object_store \<Rightarrow> fs \<Rightarrow> object_kind \<Rightarrow> object_id \<Rightarrow> bytes \<Rightarrow> bool" where
  "storable blake3 s fs k i e \<longleftrightarrow> fits_memory e \<and> (from_content blake3 e = i \<or>
    (k = BlobObject \<and> (\<exists>d bb n b. delta_decode e = Ok (Some d) \<and>
       delta_depth d \<le> MAX_DELTA_CHAIN_DEPTH \<and> stored blake3 s fs (delta_base_id d) bb n \<and>
       delta_depth d = n + 1 \<and> delta_reconstruct d bb = Ok b \<and> from_content blake3 b = i)))"

lemma object_ok_mono:
  assumes "object_ok blake3 s fs k i"
    and "\<And>k j x. readable fs (object_path s k j) x \<Longrightarrow>
      readable fs' (object_path s k j) x"
  shows "object_ok blake3 s fs' k i"
proof -
  have "stored blake3 s fs' i b n" if "stored blake3 s fs i b n" for b n
    using stored_mono [OF that] assms(2) by (simp add: blob_path_def)
  then show ?thesis
    using assms unfolding object_ok_def by metis
qed

lemma storable_mono:
  assumes "storable blake3 s fs k i e"
    and "\<And>k j x. readable fs (object_path s k j) x \<Longrightarrow>
      readable fs' (object_path s k j) x"
  shows "storable blake3 s fs' k i e"
proof -
  have "stored blake3 s fs' j b n" if "stored blake3 s fs j b n" for j b n
    using stored_mono [OF that] assms(2) by (simp add: blob_path_def)
  then show ?thesis
    using assms(1) unfolding storable_def by blast
qed

lemma object_ok_linked:
  assumes "storable blake3 s fs k i e" and "readable fs (object_path s k i) e"
  shows "object_ok blake3 s fs k i"
proof (cases "from_content blake3 e = i")
  case True
  then show ?thesis
    using assms(2) stored_raw [of fs s i e blake3] by (auto simp: object_ok_def blob_path_def)
next
  case False
  then obtain d bb n b where k: "k = BlobObject" and
    d: "delta_decode e = Ok (Some d)" "delta_depth d \<le> MAX_DELTA_CHAIN_DEPTH"
      "stored blake3 s fs (delta_base_id d) bb n" "delta_depth d = n + 1"
      "delta_reconstruct d bb = Ok b" "from_content blake3 b = i"
    using assms(1) unfolding storable_def by blast
  have "readable fs (blob_path s i) e"
    using assms(2) by (simp add: blob_path_def k)
  then show ?thesis
    unfolding object_ok_def k using stored_delta [OF _ False d] by auto
qed

lemma object_ok_ext: "object_ok blake3 s fs k i \<Longrightarrow> fs_ext fs fs' \<Longrightarrow> object_ok blake3 s fs' k i"
  by (erule object_ok_mono) (rule readable_ext)

lemma storable_ext: "storable blake3 s fs k i e \<Longrightarrow> fs_ext fs fs' \<Longrightarrow> storable blake3 s fs' k i e"
  by (erule storable_mono) (rule readable_ext)

lemma object_ok_temp:
  assumes "temp_path s k' i' t" and "object_ok blake3 s fs k i"
  shows "object_ok blake3 s (fs_set t n fs) k i" and "object_ok blake3 s (fs_del t fs) k i"
  by (rule object_ok_mono [OF assms(2)], simp add: readable_temp [OF assms(1)])+

lemma storable_temp:
  assumes "temp_path s k' i' t" and "storable blake3 s fs k i e"
  shows "storable blake3 s (fs_set t n fs) k i e" and "storable blake3 s (fs_del t fs) k i e"
  by (rule storable_mono [OF assms(2)], simp add: readable_temp [OF assms(1)])+

lemma store_okD:
  "store_ok blake3 s fs \<Longrightarrow> valid_id i \<Longrightarrow> fs_get fs (object_path s k i) = Some (FileNode b) \<Longrightarrow>
     object_ok blake3 s fs k i"
  unfolding store_ok_def by blast

lemma store_ok_temp:
  assumes "temp_path s k i t" and "store_ok blake3 s fs"
  shows "store_ok blake3 s (fs_set t n fs)" and "store_ok blake3 s (fs_del t fs)"
  using assms(2) object_ok_temp [OF assms(1)]
  by (auto simp: store_ok_def get_temp [OF assms(1)])

lemma store_ok_grow:
  assumes "store_ok blake3 s fs" and "fs_ext fs fs'"
    and "\<And>k i b. valid_id i \<Longrightarrow> fs_get fs' (object_path s k i) = Some (FileNode b) \<Longrightarrow>
      fs_get fs (object_path s k i) \<noteq> Some (FileNode b) \<Longrightarrow> object_ok blake3 s fs' k i"
  shows "store_ok blake3 s fs'"
  unfolding store_ok_def
proof (intro allI impI)
  fix k i b
  assume "valid_id i" and "fs_get fs' (object_path s k i) = Some (FileNode b)"
  then show "object_ok blake3 s fs' k i"
    using assms(3) store_okD [OF assms(1)] object_ok_ext [OF _ assms(2)] by blast
qed

lemma store_ok_mkdirs:
  assumes "store_ok blake3 s fs" and "mkdirs fs pre p = (r, fs')"
  shows "store_ok blake3 s fs'"
  by (rule store_ok_grow [OF assms(1) mkdirs_ext [OF assms(2)]])
    (use mkdirs_dirs [OF assms(2)] in blast)

lemma store_ok_publish:
  assumes "store_ok blake3 s fs" and "fs_get fs p = None" and "store_rely blake3 s fs p b"
  shows "store_ok blake3 s (fs_set p (FileNode b) fs)"
  by (rule store_ok_grow [OF assms(1) fs_ext_set [OF assms(2)]])
    (use assms(3) in \<open>auto simp: store_rely_def fs_get_set split: if_splits\<close>)

lemma readable_linked:
  assumes "fs_get fs p = None" and "parent_dir fs p = Ok ()" and "p \<noteq> []" and "fits_memory e"
  shows "readable (fs_set p (FileNode e) fs) p e"
  using parent_dir_ext [OF fs_ext_set [OF assms(1)] assms(2)] assms(3,4)
  by (simp add: readable_def resolve_parent fs_get_set)

lemma storable_linked:
  assumes "storable blake3 s fs k i e" and "fs_get fs (object_path s k i) = None"
    and "parent_dir fs (object_path s k i) = Ok ()"
  shows "object_ok blake3 s (fs_set (object_path s k i) (FileNode e) fs) k i"
  by (rule object_ok_linked [OF storable_ext [OF assms(1) fs_ext_set [OF assms(2)]]
        readable_linked [OF assms(2,3) object_path_not_Nil]])
    (use assms(1) in \<open>simp add: storable_def\<close>)

lemma store_ok_linked:
  assumes "store_ok blake3 s fs" and "storable blake3 s fs k i e" and "valid_id i"
    and "fs_get fs (object_path s k i) = None" and "parent_dir fs (object_path s k i) = Ok ()"
  shows "store_ok blake3 s (fs_set (object_path s k i) (FileNode e) fs)"
  by (rule store_ok_grow [OF assms(1) fs_ext_set [OF assms(4)]])
    (use storable_linked [OF assms(2,4,5)] assms(3) in
      \<open>auto simp: fs_get_set split: if_splits dest!: object_path_inj\<close>)

section \<open>Writes\<close>

text \<open>
  The assertion that holds at every step of \<open>put_object\<close>: nothing that was there at the start has
  changed, the invariant holds, and the bytes to be stored still stand for the object.
\<close>

definition put_inv ::
  "hasher \<Rightarrow> local_object_store \<Rightarrow> fs \<Rightarrow> object_kind \<Rightarrow> object_id \<Rightarrow> bytes \<Rightarrow> fs \<Rightarrow> bool" where
  "put_inv blake3 s fs0 k i e fs \<longleftrightarrow>
     fs_ext fs0 fs \<and> store_ok blake3 s fs \<and> storable blake3 s fs k i e"

definition temp_new :: "fs \<Rightarrow> local_object_store \<Rightarrow> object_kind \<Rightarrow> object_id \<Rightarrow> path \<Rightarrow> bool" where
  "temp_new fs0 s k i t \<longleftrightarrow> temp_path s k i t \<and> fs_get fs0 t = None"

lemma stable_store_ok:
  "(\<And>fs p b. R fs p b \<Longrightarrow> store_rely blake3 s fs p b) \<Longrightarrow> stable R (store_ok blake3 s)"
  unfolding stable_def by (blast intro: store_ok_publish)

lemma stable_put_inv:
  assumes "\<And>fs p b. R fs p b \<Longrightarrow> store_rely blake3 s fs p b"
  shows "stable R (put_inv blake3 s fs0 k i e)"
  unfolding put_inv_def
  by (intro stable_conj stable_ext stable_store_ok) (auto intro: assms stable_mono storable_ext)

lemma stable_object_ok: "stable R (\<lambda>fs. object_ok blake3 s fs k i)"
  by (rule stable_mono) (rule object_ok_ext)

lemma stable_get: "stable R (\<lambda>fs. fs_get fs p = Some n)"
  by (rule stable_mono) (rule fs_extD)

lemma fs_ext_temp:
  assumes "fs_ext fs0 fs" and "fs_get fs0 t = None"
  shows "fs_ext fs0 (fs_set t n fs)" and "fs_ext fs0 (fs_del t fs)"
  using assms by (auto simp: fs_ext_def fs_get_set fs_get_del)

lemma put_inv_temp:
  assumes "temp_new fs0 s k' i' t" and "put_inv blake3 s fs0 k i e fs"
  shows "put_inv blake3 s fs0 k i e (fs_set t n fs)" and "put_inv blake3 s fs0 k i e (fs_del t fs)"
  using assms unfolding put_inv_def temp_new_def
  by (auto intro: fs_ext_temp store_ok_temp storable_temp)

lemma put_inv_write_file:
  "temp_new fs0 s k' i' t \<Longrightarrow> put_inv blake3 s fs0 k i e fs \<Longrightarrow>
     put_inv blake3 s fs0 k i e (write_file t b fs)"
  unfolding write_file_def by (auto intro: put_inv_temp split: option.split node.split)

lemma put_inv_mkdirs:
  "put_inv blake3 s fs0 k i e fs \<Longrightarrow> mkdirs fs pre p = (r, fs') \<Longrightarrow> put_inv blake3 s fs0 k i e fs'"
  unfolding put_inv_def
  by (blast intro: store_ok_mkdirs fs_ext_trans [OF _ mkdirs_ext] storable_ext [OF _ mkdirs_ext])

lemma hoare_verify:
  assumes "stable R P"
  shows "hoare R P (verify_object_file blake3 s k (object_path s k i) i)
    (\<lambda>r fs. P fs \<and> (\<forall>x. r = Ok x \<longrightarrow> object_ok blake3 s fs k i))"
proof (cases "k = BlobObject")
  case True
  have "hoare R P (read_blob_data_at blake3 s (object_path s k i) i 0) (\<lambda>r fs. case r of
      Inl e \<Rightarrow> P fs | Inr x \<Rightarrow> P fs \<and> object_ok blake3 s fs k i)"
    by (rule hoare_post [OF hoare_read_blob_data_at [OF assms]])
      (auto simp: True object_ok_def blob_path_def split: sum.split)
  then show ?thesis
    by (auto simp: verify_object_file_def True intro!: hoare_bind [where M = "\<lambda>x fs. P fs \<and> object_ok blake3 s fs k i"]
        hoare_return elim!: hoare_post split: sum.splits)
next
  case False
  have "hoare R P (read_object_file k (object_path s k i) i) (\<lambda>r fs. case r of
      Inl e \<Rightarrow> P fs | Inr b \<Rightarrow> P fs \<and> readable fs (object_path s k i) b)"
    by (rule hoare_post [OF hoare_read_object_file [OF assms]]) (auto split: sum.split)
  then show ?thesis
    unfolding verify_object_file_def if_not_P [OF False] Let_def
    by (intro hoare_bind [where M = "\<lambda>b fs. P fs \<and> readable fs (object_path s k i) b"])
      (auto simp: object_ok_def False intro!: hoare_if hoare_fail hoare_return elim!: hoare_post
        split: sum.splits)
qed

lemma hoare_remove_temp:
  assumes "\<And>fs p b. R fs p b \<Longrightarrow> store_rely blake3 s fs p b" and "temp_new fs0 s k' i' t"
    and "stable R X" and "\<And>fs. X fs \<Longrightarrow> X (fs_del t fs)"
  shows "hoare R (\<lambda>fs. put_inv blake3 s fs0 k i e fs \<and> X fs) (remove_file t)
    (\<lambda>r fs. put_inv blake3 s fs0 k i e fs \<and> X fs)"
  unfolding remove_file_def
  by (rule hoare_syscall [OF stable_conj [OF stable_put_inv [OF assms(1)] assms(3)]])
    (auto simp: op_remove_file_def no_effect_def assms(4) intro: put_inv_temp [OF assms(2)]
      split: sum.splits if_splits)

lemma hoare_remove_temp_file:
  assumes "\<And>fs p b. R fs p b \<Longrightarrow> store_rely blake3 s fs p b" and "temp_new fs0 s k' i' t"
    and "stable R X" and "\<And>fs. X fs \<Longrightarrow> X (fs_del t fs)"
  shows "hoare R (\<lambda>fs. put_inv blake3 s fs0 k i e fs \<and> X fs) (remove_temp_file t)
    (\<lambda>r fs. put_inv blake3 s fs0 k i e fs \<and> X fs)"
  unfolding remove_temp_file_def
  by (rule hoare_match [OF hoare_remove_temp [OF assms]])
    (auto intro!: hoare_return hoare_fail split: sum.split)

lemma hoare_cleanup_temp:
  assumes "\<And>fs p b. R fs p b \<Longrightarrow> store_rely blake3 s fs p b" and "temp_new fs0 s k' i' t"
  shows "hoare R (put_inv blake3 s fs0 k i e) (cleanup_temp t x)
    (\<lambda>r fs. put_inv blake3 s fs0 k i e fs \<and> (\<exists>y. r = Err y))"
  unfolding cleanup_temp_def
  by (rule hoare_match [OF hoare_pre [OF hoare_remove_temp [OF assms stable_const [of R True]]]])
    (auto intro!: hoare_fail)

lemma hoare_fill_temp:
  assumes R: "\<And>fs p b. R fs p b \<Longrightarrow> store_rely blake3 s fs p b" and t: "temp_new fs0 s k i t"
  shows "hoare R (\<lambda>fs. put_inv blake3 s fs0 k i e fs \<and> (\<exists>x. fs_get fs t = Some (FileNode x))) (fill_temp t e)
    (\<lambda>r fs. put_inv blake3 s fs0 k i e fs \<and>
       (\<forall>p. r = Ok p \<longrightarrow> p = t \<and> fs_get fs t = Some (FileNode e)))" (is "hoare R ?P _ ?Q")
proof -
  let ?I = "put_inv blake3 s fs0 k i e"
  let ?F = "\<lambda>fs. ?I fs \<and> fs_get fs t = Some (FileNode e)"
  have P: "stable R ?P"
    by (intro stable_conj stable_put_inv R) (auto intro: stable_mono fs_extD)
  have F: "stable R ?F"
    by (intro stable_conj stable_put_inv R stable_get) simp
  have clean: "hoare R ?I (cleanup_temp t x) ?Q" for x
    by (rule hoare_post [OF hoare_cleanup_temp [OF R t]]) auto
  have "t \<noteq> []" using t by (auto simp: temp_new_def temp_path_not_Nil)
  then have wr: "hoare R ?P (write_all t e) (\<lambda>r fs. case r of Inl x \<Rightarrow> ?I fs | Inr u \<Rightarrow> ?F fs)"
    unfolding write_all_def
    by (intro hoare_syscall [OF P])
      (auto simp: op_write_all_def write_file_def fs_get_set intro: put_inv_temp [OF t])
  have flush: "hoare R ?F (flush_file t) (\<lambda>r fs. ?F fs)"
    unfolding flush_file_def by (rule hoare_syscall [OF F]) (auto simp: no_effect_def)
  have "hoare R ?F (match_io (flush_file t) (\<lambda>r'. case r' of
      Inl x \<Rightarrow> cleanup_temp t x | Inr _ \<Rightarrow> return_io t)) ?Q"
    by (rule hoare_match [OF flush]) (auto intro!: hoare_return hoare_pre [OF clean] split: sum.split)
  then show ?thesis
    unfolding fill_temp_def
    by (intro hoare_match [OF wr]) (auto intro: clean split: sum.split)
qed

lemma hoare_write_temp_attempts:
  assumes R: "\<And>fs p b. R fs p b \<Longrightarrow> store_rely blake3 s fs p b"
  shows "hoare R (put_inv blake3 s fs0 k i e) (write_temp_attempts n k (butlast (object_path s k i)) i e)
    (\<lambda>r fs. put_inv blake3 s fs0 k i e fs \<and>
       (\<forall>t. r = Ok t \<longrightarrow> temp_new fs0 s k i t \<and> fs_get fs t = Some (FileNode e)))"
    (is "hoare R ?I _ ?Q")
proof (induction n)
  case 0
  show ?case by (auto intro: hoare_fail)
next
  case (Suc n)
  have attempt: "hoare R ?I (match_io (create_new t) (\<lambda>r. case r of
       Inr _ \<Rightarrow> fill_temp t e
     | Inl x \<Rightarrow> if x = AlreadyExists then write_temp_attempts n k (butlast (object_path s k i)) i e
                else fail_io (StoreIo t x))) ?Q"
    if t: "temp_path s k i t" for t
  proof (rule hoare_match)
    show "hoare R ?I (create_new t) (\<lambda>r fs. case r of Inl _ \<Rightarrow> ?I fs
        | Inr _ \<Rightarrow> temp_new fs0 s k i t \<and> ?I fs \<and> (\<exists>x. fs_get fs t = Some (FileNode x)))"
      unfolding create_new_def
    proof (rule hoare_syscall [OF stable_put_inv [OF R]], assumption)
      fix fs r fs'
      assume I: "?I fs" and op: "op_create_new t fs = (r, fs')"
      have "temp_new fs0 s k i t" if "fs_get fs t = None"
        using t I that unfolding temp_new_def put_inv_def fs_ext_def by (cases "fs_get fs0 t") auto
      then show "case r of Inl _ \<Rightarrow> ?I fs'
          | Inr _ \<Rightarrow> temp_new fs0 s k i t \<and> ?I fs' \<and> (\<exists>x. fs_get fs' t = Some (FileNode x))"
        using I op put_inv_temp(1) temp_path_not_Nil [OF t]
        by (auto simp: op_create_new_def fs_get_set split: sum.splits if_splits option.splits)
    qed (simp add: no_effect_def)
  next
    fix r :: "io_kind + unit"
    show "hoare R (\<lambda>fs. case r of Inl _ \<Rightarrow> ?I fs
        | Inr _ \<Rightarrow> temp_new fs0 s k i t \<and> ?I fs \<and> (\<exists>x. fs_get fs t = Some (FileNode x)))
      (case r of Inr _ \<Rightarrow> fill_temp t e
       | Inl x \<Rightarrow> if x = AlreadyExists then write_temp_attempts n k (butlast (object_path s k i)) i e
                else fail_io (StoreIo t x)) ?Q"
    proof (cases r)
      case (Inl x)
      then show ?thesis using Suc by (auto intro: hoare_fail)
    next
      case (Inr u)
      show ?thesis
      proof (cases "temp_new fs0 s k i t")
        case True
        then show ?thesis
          using Inr by (auto intro!: hoare_post [OF hoare_pre [OF hoare_fill_temp [OF R True]]])
      qed (simp add: hoare_def Inr)
    qed
  qed
  show ?case
    unfolding write_temp_attempts.simps Let_def
    by (rule hoare_bind [where M = "\<lambda>c. ?I"], rule hoare_fetch, simp,
        rule hoare_bind [where M = "\<lambda>c. ?I"], rule hoare_process_id, simp, rule attempt)
      (auto simp: temp_path_def)
qed

lemma hoare_hard_link:
  assumes R: "\<And>fs p b. R fs p b \<Longrightarrow> store_rely blake3 s fs p b" and i: "valid_id i"
  shows "hoare R (\<lambda>fs. put_inv blake3 s fs0 k i e fs \<and> fs_get fs t = Some (FileNode e))
    (hard_link t (object_path s k i))
    (\<lambda>r fs. put_inv blake3 s fs0 k i e fs \<and> (\<forall>u. r = Ok u \<longrightarrow> object_ok blake3 s fs k i))"
    (is "hoare R ?P _ ?Q")
  unfolding hard_link_def
proof (rule hoare_syscall)
  show "stable R ?P"
    by (intro stable_conj stable_put_inv R stable_get) simp
  fix fs r fs'
  assume P: "?P fs" and op: "op_hard_link t (object_path s k i) fs = (r, fs')"
  then have "fs' = fs \<and> (\<exists>x. r = Err x) \<or> fs_get fs (object_path s k i) = None \<and>
      parent_dir fs (object_path s k i) = Ok () \<and> fs' = fs_set (object_path s k i) (FileNode e) fs"
    using op_hard_link_cases [OF op] resolve_get [of fs t] by auto
  then show "?Q r fs'"
    using P storable_linked store_ok_linked [OF _ _ i]
    by (auto simp: put_inv_def intro: fs_ext_trans fs_ext_set storable_ext)
qed (simp add: no_effect_def)

lemma hoare_link_object:
  assumes R: "\<And>fs p b. R fs p b \<Longrightarrow> store_rely blake3 s fs p b" and i: "valid_id i"
  shows "hoare R (put_inv blake3 s fs0 k i e) (link_object blake3 s k i e)
    (\<lambda>r fs. put_inv blake3 s fs0 k i e fs \<and> (\<forall>j. r = Ok j \<longrightarrow> j = i \<and> object_ok blake3 s fs k i))"
    (is "hoare R ?I _ ?Q")
proof -
  let ?p = "object_path s k i" and ?O = "\<lambda>fs. object_ok blake3 s fs k i"
  note stableI = stable_put_inv [OF R, where k = k and i = i and e = e and ?fs0.0 = fs0]
  have rm: "hoare R (\<lambda>fs. ?I fs \<and> X fs) (remove_temp_file t) (\<lambda>r fs. ?I fs \<and> X fs)"
    if "temp_new fs0 s k i t" "stable R X" "\<And>fs. X fs \<Longrightarrow> X (fs_del t fs)" for t X
    by (rule hoare_remove_temp_file [OF R that])
  have del: "?O (fs_del t fs)" if "temp_new fs0 s k i t" "?O fs" for t fs
    using that object_ok_temp(2) by (auto simp: temp_new_def)
  have linked: "hoare R (\<lambda>fs. ?I fs \<and> ?O fs) (bind_io (remove_temp_file t) (\<lambda>_. return_io i)) ?Q"
    if t: "temp_new fs0 s k i t" for t
    by (rule hoare_bind [OF hoare_post [OF rm [OF t stable_object_ok del [OF t]]],
          where M = "\<lambda>_ fs. ?I fs \<and> ?O fs"])
      (auto intro!: hoare_return split: sum.split)
  have present: "hoare R ?I (bind_io (remove_temp_file t) (\<lambda>_.
      bind_io (verify_object_file blake3 s k ?p i) (\<lambda>_. return_io i))) ?Q"
    if t: "temp_new fs0 s k i t" for t
  proof (rule hoare_bind [OF hoare_post [OF hoare_pre [OF rm [OF t stable_const [of R True]]]],
        where M = "\<lambda>_. ?I"])
    show "hoare R ?I (bind_io (verify_object_file blake3 s k ?p i) (\<lambda>_. return_io i)) ?Q"
      by (rule hoare_bind [OF hoare_post [OF hoare_verify [OF stableI]], where M = "\<lambda>_ fs. ?I fs \<and> ?O fs"])
        (auto intro!: hoare_return split: sum.split)
  qed (auto split: sum.split)
  have failed: "hoare R ?I (match_io (remove_file t) (\<lambda>_. fail_io (StoreIo ?p x))) ?Q"
    if t: "temp_new fs0 s k i t" for t x
    by (rule hoare_match [OF hoare_pre [OF hoare_remove_temp [OF R t stable_const [of R True]]]])
      (auto intro!: hoare_fail)
  have finish: "hoare R (\<lambda>fs. temp_new fs0 s k i t \<and> ?I fs \<and> fs_get fs t = Some (FileNode e))
      (match_io (hard_link t ?p) (\<lambda>r. case r of
         Inr _ \<Rightarrow> bind_io (remove_temp_file t) (\<lambda>_. return_io i)
       | Inl x \<Rightarrow> if x = AlreadyExists
           then bind_io (remove_temp_file t) (\<lambda>_.
                bind_io (verify_object_file blake3 s k ?p i) (\<lambda>_. return_io i))
           else match_io (remove_file t) (\<lambda>_. fail_io (StoreIo ?p x)))) ?Q" for t
  proof (cases "temp_new fs0 s k i t")
    case True
    show ?thesis
      by (rule hoare_match [OF hoare_pre [OF hoare_hard_link [OF R i]]])
        (auto intro!: hoare_pre [OF linked [OF True]] hoare_pre [OF present [OF True]]
          hoare_pre [OF failed [OF True]] hoare_if split: sum.split)
  qed (simp add: hoare_def)
  show ?thesis
    unfolding link_object_def Let_def
  proof (rule hoare_bind [where M = "\<lambda>_. ?I"])
    show "hoare R ?I (map_err_io (StoreIo (butlast ?p)) (create_dir_all (butlast ?p)))
        (\<lambda>r fs. case r of Inl e \<Rightarrow> ?Q (Err e) fs | Inr _ \<Rightarrow> ?I fs)"
      unfolding create_dir_all_def
      by (rule hoare_map_err, rule hoare_syscall [OF stableI])
        (auto simp: op_create_dir_all_def intro: put_inv_mkdirs prod.collapse [symmetric] split: sum.split)
    show "hoare R ?I (bind_io (write_temp_object k (butlast ?p) i e) (\<lambda>t.
       match_io (hard_link t ?p) (\<lambda>r. case r of
         Inr _ \<Rightarrow> bind_io (remove_temp_file t) (\<lambda>_. return_io i)
       | Inl x \<Rightarrow> if x = AlreadyExists
           then bind_io (remove_temp_file t) (\<lambda>_.
                bind_io (verify_object_file blake3 s k ?p i) (\<lambda>_. return_io i))
           else match_io (remove_file t) (\<lambda>_. fail_io (StoreIo ?p x))))) ?Q"
      unfolding write_temp_object_def
      by (rule hoare_bind [OF hoare_post [OF hoare_write_temp_attempts [OF R]] finish])
        (auto split: sum.split)
  qed
qed

lemma hoare_put_object:
  assumes R: "\<And>fs p b. R fs p b \<Longrightarrow> store_rely blake3 s fs p b" and i: "valid_id i"
  shows "hoare R (put_inv blake3 s fs0 k i e) (put_object blake3 s k i e)
    (\<lambda>r fs. put_inv blake3 s fs0 k i e fs \<and> (\<forall>j. r = Ok j \<longrightarrow> j = i \<and> object_ok blake3 s fs k i))"
    (is "hoare R ?I _ ?Q")
proof -
  note stableI = stable_put_inv [OF R, where k = k and i = i and e = e and ?fs0.0 = fs0]
  note link = hoare_link_object [OF R i]
  have exists: "hoare R ?I (map_err_io (StoreIo (object_path s k i)) (try_exists (object_path s k i)))
      (\<lambda>r fs. case r of Inl e \<Rightarrow> ?Q (Err e) fs | Inr _ \<Rightarrow> ?I fs)"
    unfolding try_exists_def
    by (rule hoare_map_err, rule hoare_syscall [OF stableI])
      (auto simp: op_try_exists_def no_effect_def split: sum.splits if_splits)
  show ?thesis
    unfolding put_object_def Let_def
    by (rule hoare_bind [OF exists], intro hoare_if hoare_match [OF hoare_verify [OF stableI]] link)
      (auto intro!: hoare_return hoare_fail hoare_if hoare_pre [OF link] split: sum.split)
qed

lemma stored_length: "stored blake3 s fs i b n \<Longrightarrow> length b < USIZE_LIMIT"
  by (cases rule: stored.cases)
    (auto simp: readable_def fits_memory_def USIZE_LIMIT_def dest!: delta_reconstruct_length)

lemma storable_delta:
  assumes "stored blake3 s fs base_id bb n" and "delta_create base_id bb n b = Some d"
    and "fits_memory b" and "hash_ok blake3"
  shows "storable blake3 s fs BlobObject (from_content blake3 b) (delta_encode d)"
proof -
  have id: "valid_id base_id"
    using stored_hash [OF assms(1)] valid_from_content [OF assms(4)] by metis
  note dec = delta_create_decode [OF assms(2) id assms(3)]
  have "delta_reconstruct d bb = Ok b"
    by (rule delta_reconstruct_create [OF assms(2) stored_length [OF assms(1)] assms(3)])
  then show ?thesis
    unfolding storable_def
    using dec delta_create_Some(1,2) [OF assms(2)] delta_create_depth(2) [OF assms(2)] assms(1)
    by metis
qed

lemma stable_store_ok_ext:
  "(\<And>fs p b. R fs p b \<Longrightarrow> store_rely blake3 s fs p b) \<Longrightarrow>
     stable R (\<lambda>fs. fs_ext fs0 fs \<and> store_ok blake3 s fs)"
  by (intro stable_conj stable_ext stable_store_ok) simp

lemma hoare_delta_storage:
  assumes "stable R P" and "fits_memory b" and "hash_ok blake3"
  shows "hoare R P (delta_storage_bytes blake3 s b base_id)
    (\<lambda>r fs. P fs \<and> (\<exists>x. r = Ok x \<and>
       (\<forall>e. x = Some e \<longrightarrow> storable blake3 s fs BlobObject (from_content blake3 b) e)))"
  unfolding delta_storage_bytes_def read_blob_data_def
  by (rule hoare_match [OF hoare_read_blob_data_at [OF assms(1)]])
    (auto intro!: hoare_return storable_delta [OF _ _ assms(2,3)] split: sum.split)

text \<open>The contract of every put operation, for every script of failures and publications.\<close>

abbreviation put_post ::
  "hasher \<Rightarrow> local_object_store \<Rightarrow> fs \<Rightarrow> object_kind \<Rightarrow> object_id \<Rightarrow> 'e + object_id \<Rightarrow> fs \<Rightarrow> bool" where
  "put_post blake3 s fs0 k i r fs \<equiv> fs_ext fs0 fs \<and> store_ok blake3 s fs \<and>
     (\<forall>j. r = Ok j \<longrightarrow> j = i \<and> object_ok blake3 s fs k i)"

lemma hoare_put_raw:
  assumes R: "\<And>fs p b. R fs p b \<Longrightarrow> store_rely blake3 s fs p b" and "hash_ok blake3" and "fits_memory b"
  shows "hoare R (\<lambda>fs. fs_ext fs0 fs \<and> store_ok blake3 s fs)
    (put_object blake3 s k (from_content blake3 b) b) (put_post blake3 s fs0 k (from_content blake3 b))"
  by (rule hoare_post [OF hoare_pre [OF hoare_put_object [OF R valid_from_content [OF assms(2)]]]])
    (use assms(3) in \<open>auto simp: put_inv_def storable_def\<close>)

lemma hoare_put_blob_with_base:
  assumes R: "\<And>fs p b. R fs p b \<Longrightarrow> store_rely blake3 s fs p b" and h: "hash_ok blake3" and b: "fits_memory b"
  shows "hoare R (\<lambda>fs. fs_ext fs0 fs \<and> store_ok blake3 s fs) (put_blob_with_base blake3 s b base)
    (put_post blake3 s fs0 BlobObject (from_content blake3 b))" (is "hoare R ?P _ ?Q")
proof -
  let ?i = "from_content blake3 b"
  let ?M = "\<lambda>x fs. ?P fs \<and> (\<forall>e. x = Some e \<longrightarrow> storable blake3 s fs BlobObject ?i e)"
  have put: "hoare R (?M x) (put_object blake3 s BlobObject ?i (case x of Some d \<Rightarrow> d | None \<Rightarrow> b)) ?Q" for x
    by (rule hoare_post [OF hoare_pre [OF hoare_put_object [OF R valid_from_content [OF h]]]])
      (auto simp: put_inv_def storable_def b split: option.splits)
  have storage: "hoare R ?P (case u of Some c \<Rightarrow> delta_storage_bytes blake3 s b c | None \<Rightarrow> return_io None)
      (\<lambda>r fs. case r of Inl e \<Rightarrow> ?Q (Err e) fs | Inr x \<Rightarrow> ?M x fs)" for u
    by (cases u) (auto intro!: hoare_return
        hoare_post [OF hoare_delta_storage [OF stable_store_ok_ext [OF R] b h]] split: sum.splits)
  show ?thesis
    unfolding put_blob_with_base_def Let_def by (rule hoare_bind [OF storage put])
qed

end
