(* ===== verification/Store_Contract.thy ===== *)
theory Store_Contract
  imports Object_Store
begin

text \<open>
  The contract of the \<open>ObjectStore\<close> trait of \<open>crates/object-store/src/lib.rs\<close> as a locale, its
  consequences for sequences of operations, and its interpretation on the local store. The abstract
  state is the relation \<open>content\<close>: which bytes an object of a kind and an identifier has.
\<close>

section \<open>Contents of the local store\<close>

definition has_content ::
  "hasher \<Rightarrow> local_object_store \<Rightarrow> fs \<Rightarrow> object_kind \<Rightarrow> object_id \<Rightarrow> bytes \<Rightarrow> bool" where
  "has_content blake3 s fs k i b \<longleftrightarrow>
    (if k = BlobObject then \<exists>n. stored blake3 s fs i b n
     else readable fs (object_path s k i) b \<and> from_content blake3 b = i)"

lemma object_ok_content: "object_ok blake3 s fs k i \<longleftrightarrow> (\<exists>b. has_content blake3 s fs k i b)"
  by (simp add: object_ok_def has_content_def)

lemma has_content_hash: "has_content blake3 s fs k i b \<Longrightarrow> from_content blake3 b = i"
  by (auto simp: has_content_def stored_hash split: if_splits)

lemma has_content_unique: "has_content blake3 s fs k i b \<Longrightarrow> has_content blake3 s fs k i b' \<Longrightarrow> b = b'"
  using stored_unique readable_unique by (fastforce simp: has_content_def split: if_splits)

lemma has_content_ext: "fs_ext fs fs' \<Longrightarrow> has_content blake3 s fs k i b \<Longrightarrow> has_content blake3 s fs' k i b"
  using stored_ext readable_ext by (fastforce simp: has_content_def split: if_splits)

lemma has_content_fits: "has_content blake3 s fs k i b \<Longrightarrow> k \<noteq> BlobObject \<Longrightarrow> fits_memory b"
  by (simp add: has_content_def readable_def)

lemma hoare_get_object_bytes:
  assumes "stable R P"
  shows "hoare R P (get_object_bytes blake3 s k i)
    (\<lambda>r fs. P fs \<and> (\<forall>b. r = Ok b \<longrightarrow> has_content blake3 s fs k i b))"
proof (cases "k = BlobObject")
  case True
  then show ?thesis
    using hoare_get_blob [OF assms] by (simp add: get_object_bytes_def has_content_def)
next
  case False
  have "hoare R P (read_object_file k (object_path s k i) i) (\<lambda>r fs. case r of
      Inl e \<Rightarrow> P fs | Inr b \<Rightarrow> P fs \<and> readable fs (object_path s k i) b)"
    by (rule hoare_post [OF hoare_read_object_file [OF assms]]) (auto split: sum.split)
  then show ?thesis
    unfolding get_object_bytes_def if_not_P [OF False] Let_def
    by (intro hoare_bind [where M = "\<lambda>b fs. P fs \<and> readable fs (object_path s k i) b"])
      (auto simp: has_content_def False intro!: hoare_if hoare_fail hoare_return elim!: hoare_post
        split: sum.splits)
qed

lemma quiet_get_object_bytes:
  assumes "has_content blake3 s (w_fs w) k i b" and "quiet w"
  shows "get_object_bytes blake3 s k i w = (Ok b, w)"
proof (cases "k = BlobObject")
  case True
  then show ?thesis
    using assms quiet_get_blob by (auto simp: get_object_bytes_def has_content_def)
next
  case False
  then show ?thesis
    using assms quiet_read_object_file [OF assms(2)]
    by (auto simp: get_object_bytes_def has_content_def Let_def bind_io_def return_io_def)
qed

lemma bind_result_io_Ok:
  "bind_io m (\<lambda>b. result_io (map_err g (f b))) w = (Ok x, w') \<longleftrightarrow>
     (\<exists>b. m w = (Ok b, w') \<and> f b = Ok x)"
  by (auto simp: bind_io_def result_io_def split: prod.splits sum.splits)

section \<open>The interface\<close>

datatype 'req store_op = Put 'req | Get object_kind object_id

fun run_ops ::
  "('req \<Rightarrow> 'w \<Rightarrow> ('e + object_id) \<times> 'w) \<Rightarrow> (object_kind \<Rightarrow> object_id \<Rightarrow> 'w \<Rightarrow> ('e + bytes) \<times> 'w) \<Rightarrow>
     'req store_op list \<Rightarrow> 'w \<Rightarrow> ('e + object_id + bytes) list \<times> 'w" where
  "run_ops put get [] w = ([], w)"
| "run_ops put get (Put q # ops) w =
    (case put q w of (r, w') \<Rightarrow>
       (case run_ops put get ops w' of (rs, w'') \<Rightarrow>
          ((case r of Inl e \<Rightarrow> Inl e | Inr i \<Rightarrow> Inr (Inl i)) # rs, w'')))"
| "run_ops put get (Get k i # ops) w =
    (case get k i w of (r, w') \<Rightarrow>
       (case run_ops put get ops w' of (rs, w'') \<Rightarrow>
          ((case r of Inl e \<Rightarrow> Inl e | Inr b \<Rightarrow> Inr (Inr b)) # rs, w'')))"

text \<open>
  What every object store promises: contents have the identifier they are stored under and are
  unique, a put keeps the invariant and every content and makes its own object present, a get
  changes nothing and returns only the object's content.
\<close>

locale object_store =
  fixes hash :: "bytes \<Rightarrow> object_id"
    and inv :: "'w \<Rightarrow> bool"
    and content :: "'w \<Rightarrow> object_kind \<Rightarrow> object_id \<Rightarrow> bytes \<Rightarrow> bool"
    and put :: "'req \<Rightarrow> 'w \<Rightarrow> ('e + object_id) \<times> 'w"
    and get :: "object_kind \<Rightarrow> object_id \<Rightarrow> 'w \<Rightarrow> ('e + bytes) \<times> 'w"
    and req_kind :: "'req \<Rightarrow> object_kind"
    and req_bytes :: "'req \<Rightarrow> bytes"
    and req_ok :: "'req \<Rightarrow> bool"
  assumes content_hash: "content w k i b \<Longrightarrow> hash b = i"
    and content_unique: "content w k i b \<Longrightarrow> content w k i b' \<Longrightarrow> b = b'"
    and put_inv: "inv w \<Longrightarrow> req_ok q \<Longrightarrow> put q w = (r, w') \<Longrightarrow> inv w'"
    and put_keeps: "inv w \<Longrightarrow> req_ok q \<Longrightarrow> put q w = (r, w') \<Longrightarrow> content w k i b \<Longrightarrow> content w' k i b"
    and put_stores: "inv w \<Longrightarrow> req_ok q \<Longrightarrow> put q w = (Inr i, w') \<Longrightarrow>
      i = hash (req_bytes q) \<and> (\<exists>b. content w' (req_kind q) i b)"
    and get_inv: "inv w \<Longrightarrow> get k i w = (g, w') \<Longrightarrow> inv w'"
    and get_keeps: "inv w \<Longrightarrow> get k i w = (g, w') \<Longrightarrow> content w k' i' b \<Longrightarrow> content w' k' i' b"
    and get_content: "inv w \<Longrightarrow> get k i w = (Inr b, w') \<Longrightarrow> content w' k i b"
begin

definition op_ok :: "'req store_op \<Rightarrow> bool" where
  "op_ok x = (case x of Put q \<Rightarrow> req_ok q | Get _ _ \<Rightarrow> True)"

definition step_done :: "'req store_op \<Rightarrow> 'e + object_id + bytes \<Rightarrow> 'w \<Rightarrow> bool" where
  "step_done x r w = (case x of
      Put q \<Rightarrow> (\<forall>i. r = Inr (Inl i) \<longrightarrow> i = hash (req_bytes q) \<and> (\<exists>b. content w (req_kind q) i b))
    | Get k i \<Rightarrow> (\<forall>b. r = Inr (Inr b) \<longrightarrow> content w k i b))"

lemma step_done_keeps:
  "step_done x r w \<Longrightarrow> (\<And>k i b. content w k i b \<Longrightarrow> content w' k i b) \<Longrightarrow> step_done x r w'"
  unfolding step_done_def by (cases x) (simp_all, blast+)

lemma run_ops_keeps:
  "run_ops put get ops w = (rs, w') \<Longrightarrow> inv w \<Longrightarrow> list_all op_ok ops \<Longrightarrow>
     inv w' \<and> (\<forall>k i b. content w k i b \<longrightarrow> content w' k i b) \<and>
     list_all2 (\<lambda>x r. step_done x r w') ops rs"
proof (induction ops arbitrary: w rs)
  case Nil
  then show ?case by simp
next
  case (Cons x ops)
  obtain r w1 rs1 where first: "case x of Put q \<Rightarrow> (\<exists>y. put q w = (y, w1) \<and> r = (case y of Inl e \<Rightarrow> Inl e | Inr i \<Rightarrow> Inr (Inl i)))
        | Get k i \<Rightarrow> (\<exists>y. get k i w = (y, w1) \<and> r = (case y of Inl e \<Rightarrow> Inl e | Inr b \<Rightarrow> Inr (Inr b)))"
      and rest: "run_ops put get ops w1 = (rs1, w')" and rs: "rs = r # rs1"
    using Cons.prems(1) by (cases x) (auto split: prod.splits)
  have 1: "inv w1 \<and> (\<forall>k i b. content w k i b \<longrightarrow> content w1 k i b) \<and> step_done x r w1"
  proof (cases x)
    case (Put q)
    then obtain y where y: "put q w = (y, w1)" "r = (case y of Inl e \<Rightarrow> Inl e | Inr i \<Rightarrow> Inr (Inl i))"
      using first by auto
    have q: "req_ok q" using Cons.prems(3) by (simp add: Put op_ok_def)
    have "step_done x r w1"
      using put_stores [OF Cons.prems(2) q] y by (cases y) (simp_all add: step_done_def Put)
    then show ?thesis
      using put_inv [OF Cons.prems(2) q y(1)] put_keeps [OF Cons.prems(2) q y(1)] by blast
  next
    case (Get k i)
    then obtain y where y: "get k i w = (y, w1)" "r = (case y of Inl e \<Rightarrow> Inl e | Inr b \<Rightarrow> Inr (Inr b))"
      using first by auto
    have "step_done x r w1"
      using get_content [OF Cons.prems(2)] y by (cases y) (simp_all add: step_done_def Get)
    then show ?thesis
      using get_inv [OF Cons.prems(2) y(1)] get_keeps [OF Cons.prems(2) y(1)] by blast
  qed
  then have 2: "inv w' \<and> (\<forall>k i b. content w1 k i b \<longrightarrow> content w' k i b) \<and>
      list_all2 (\<lambda>x r. step_done x r w') ops rs1"
    using Cons.IH [OF rest] Cons.prems(3) by simp
  then have "step_done x r w'"
    using 1 step_done_keeps by blast
  then show ?case using 1 2 rs by auto
qed

lemma get_after_ops:
  assumes "content w k i b" and "inv w" and "list_all op_ok ops"
    and "run_ops put get ops w = (rs, w')" and "get k i w' = (Inr b', w'')"
  shows "b' = b"
proof -
  have "content w' k i b" "inv w'"
    using run_ops_keeps [OF assms(4,2,3)] assms(1) by blast+
  then show ?thesis
    using get_keeps get_content content_unique assms(5) by metis
qed

end

section \<open>The local store implements the interface\<close>

datatype put_request = PutBlob bytes "object_id option" | PutTree tree | PutSnapshot snapshot

definition req_kind :: "put_request \<Rightarrow> object_kind" where
  "req_kind q = (case q of PutBlob _ _ \<Rightarrow> BlobObject | PutTree _ \<Rightarrow> TreeObject
    | PutSnapshot _ \<Rightarrow> SnapshotObject)"

definition req_bytes :: "put_request \<Rightarrow> bytes" where
  "req_bytes q = (case q of PutBlob b _ \<Rightarrow> b | PutTree t \<Rightarrow> the (tree_to_canonical_bytes t)
    | PutSnapshot sn \<Rightarrow> snapshot_to_canonical_bytes sn)"

text \<open>Requests whose bytes exist in memory: no panic while encoding.\<close>

definition req_ok :: "put_request \<Rightarrow> bool" where
  "req_ok q \<longleftrightarrow> fits_memory (req_bytes q) \<and>
    (case q of PutTree t \<Rightarrow> tree_to_canonical_bytes t \<noteq> None | _ \<Rightarrow> True)"

definition store_put :: "hasher \<Rightarrow> local_object_store \<Rightarrow> put_request \<Rightarrow> object_id store_io" where
  "store_put blake3 s q = (case q of
      PutBlob b base \<Rightarrow> put_blob_with_base blake3 s b base
    | PutTree t \<Rightarrow> the (put_tree blake3 s t)
    | PutSnapshot sn \<Rightarrow> put_snapshot blake3 s sn)"

definition store_inv :: "hasher \<Rightarrow> local_object_store \<Rightarrow> world \<Rightarrow> bool" where
  "store_inv blake3 s w \<longleftrightarrow> hash_ok blake3 \<and> store_ok blake3 s (w_fs w) \<and>
     (\<forall>fs p b. w_rely w fs p b \<longrightarrow> store_rely blake3 s fs p b)"

lemma hoare_store_put:
  assumes R: "\<And>fs p b. R fs p b \<Longrightarrow> store_rely blake3 s fs p b" and h: "hash_ok blake3" and q: "req_ok q"
  shows "hoare R (\<lambda>fs. fs_ext fs0 fs \<and> store_ok blake3 s fs) (store_put blake3 s q)
    (put_post blake3 s fs0 (req_kind q) (from_content blake3 (req_bytes q)))"
proof (cases q)
  case (PutBlob b base)
  then show ?thesis
    using hoare_put_blob_with_base [OF R h, where b = b] q
    by (simp add: store_put_def req_kind_def req_bytes_def req_ok_def)
next
  case (PutTree t)
  then obtain b where "tree_to_canonical_bytes t = Some b"
    using q by (auto simp: req_ok_def)
  then show ?thesis
    using hoare_put_raw [OF R h, where b = b and k = TreeObject] q PutTree
    by (simp add: store_put_def req_kind_def req_bytes_def req_ok_def put_tree_def)
next
  case (PutSnapshot sn)
  then show ?thesis
    using hoare_put_raw [OF R h, where b = "snapshot_to_canonical_bytes sn" and k = SnapshotObject] q
    by (simp add: store_put_def req_kind_def req_bytes_def req_ok_def put_snapshot_def Let_def)
qed

lemma store_put_run:
  assumes "store_inv blake3 s w" and "req_ok q" and "store_put blake3 s q w = (r, w')"
  shows "store_inv blake3 s w' \<and> put_post blake3 s (w_fs w) (req_kind q) (from_content blake3 (req_bytes q)) r (w_fs w')"
proof -
  have h: "hash_ok blake3" and ok: "store_ok blake3 s (w_fs w)"
      and rely: "\<And>fs p b. w_rely w fs p b \<Longrightarrow> store_rely blake3 s fs p b"
    using assms(1) unfolding store_inv_def by blast+
  have "put_post blake3 s (w_fs w) (req_kind q) (from_content blake3 (req_bytes q)) r (w_fs w') \<and>
      w_rely w' = w_rely w"
    by (rule hoareD [OF hoare_store_put [where R = "w_rely w", OF _ h assms(2)] assms(3)])
      (use ok rely in auto)
  then show ?thesis
    using h rely unfolding store_inv_def by auto
qed

lemma get_object_run:
  assumes "get_object_bytes blake3 s k i w = (r, w')"
  shows "fs_ext (w_fs w) (w_fs w') \<and> (\<forall>b. r = Ok b \<longrightarrow> has_content blake3 s (w_fs w') k i b) \<and>
    (store_inv blake3 s w \<longrightarrow> store_inv blake3 s w')"
proof -
  have 1: "fs_ext (w_fs w) (w_fs w') \<and> (\<forall>b. r = Ok b \<longrightarrow> has_content blake3 s (w_fs w') k i b)"
    using hoareD [OF hoare_get_object_bytes [OF stable_ext [of "\<lambda>_ _ _. True" "w_fs w"]] assms] by simp
  have "store_inv blake3 s w'" if inv: "store_inv blake3 s w"
  proof -
    have rely: "\<And>fs p b. w_rely w fs p b \<Longrightarrow> store_rely blake3 s fs p b"
      using inv unfolding store_inv_def by blast
    have "(store_ok blake3 s (w_fs w') \<and> (\<forall>b. r = Ok b \<longrightarrow> has_content blake3 s (w_fs w') k i b)) \<and>
        w_rely w' = w_rely w"
      by (rule hoareD [OF hoare_get_object_bytes [OF stable_store_ok [where R = "w_rely w"]] assms])
        (use inv rely in \<open>auto simp: store_inv_def\<close>)
    then show ?thesis using inv rely unfolding store_inv_def by simp
  qed
  with 1 show ?thesis by blast
qed

interpretation local_store: object_store "from_content blake3" "store_inv blake3 s"
  "\<lambda>w. has_content blake3 s (w_fs w)" "store_put blake3 s" "get_object_bytes blake3 s"
  req_kind req_bytes req_ok for blake3 s
proof
  fix w k i b b'
  show "has_content blake3 s (w_fs w) k i b \<Longrightarrow> from_content blake3 b = i"
    by (rule has_content_hash)
  show "has_content blake3 s (w_fs w) k i b \<Longrightarrow> has_content blake3 s (w_fs w) k i b' \<Longrightarrow> b = b'"
    by (rule has_content_unique)
next
  fix w q r w' k i b
  assume inv: "store_inv blake3 s w" and q: "req_ok q" and run: "store_put blake3 s q w = (r, w')"
  show "store_inv blake3 s w'"
    using store_put_run [OF inv q run] by blast
  show "has_content blake3 s (w_fs w) k i b \<Longrightarrow> has_content blake3 s (w_fs w') k i b"
    using store_put_run [OF inv q run] has_content_ext by blast
next
  fix w q i w'
  assume "store_inv blake3 s w" and "req_ok q" and "store_put blake3 s q w = (Inr i, w')"
  from store_put_run [OF this]
  show "i = from_content blake3 (req_bytes q) \<and> (\<exists>b. has_content blake3 s (w_fs w') (req_kind q) i b)"
    by (simp add: object_ok_content)
next
  fix w k i g w' k' i' b
  assume run: "get_object_bytes blake3 s k i w = (g, w')"
  show "store_inv blake3 s w \<Longrightarrow> store_inv blake3 s w'"
    using get_object_run [OF run] by blast
  show "has_content blake3 s (w_fs w) k' i' b \<Longrightarrow> has_content blake3 s (w_fs w') k' i' b"
    using get_object_run [OF run] has_content_ext by blast
next
  fix w k i b w'
  assume "get_object_bytes blake3 s k i w = (Inr b, w')"
  from get_object_run [OF this] show "has_content blake3 s (w_fs w') k i b" by blast
qed

section \<open>Puts succeed in a quiet world\<close>

definition dirs_clear :: "fs \<Rightarrow> path \<Rightarrow> bool" where
  "dirs_clear fs p \<longleftrightarrow> list_all (\<lambda>n. fs_get fs (take n p) \<in> {None, Some DirNode}) [0..<Suc (length p)]"

lemma dirs_clearD:
  assumes "dirs_clear fs p"
  shows "fs_get fs (take n p) \<in> {None, Some DirNode}"
proof -
  have "min n (length p) \<in> set [0..<Suc (length p)]" by (simp del: upt_Suc)
  then have "fs_get fs (take (min n (length p)) p) \<in> {None, Some DirNode}"
    using assms unfolding dirs_clear_def list_all_iff by blast
  moreover have "take (min n (length p)) p = take n p" by (simp add: min_def)
  ultimately show ?thesis by (simp only:)
qed

lemma mkdirs_succeeds:
  "(\<And>n. fs_get fs (pre @ take n p) \<in> {None, Some DirNode}) \<Longrightarrow> \<exists>fs'. mkdirs fs pre p = (Ok (), fs')"
proof (induction fs pre p rule: mkdirs.induct)
  case (1 fs pre)
  then show ?case by simp
next
  case (2 fs pre c cs)
  have clear: "fs_get fs ((pre @ [c]) @ take n cs) \<in> {None, Some DirNode}" for n
    using "2.prems" [of "Suc n"] by simp
  then have "fs_get (fs_set (pre @ [c]) DirNode fs) ((pre @ [c]) @ take n cs) \<in> {None, Some DirNode}" for n
    by (auto simp: fs_get_set)
  then show ?case
    using "2.IH" clear "2.prems" [of 1] by (auto simp del: append_assoc)
qed

lemma mkdirs_none:
  "mkdirs fs pre p = (r, fs') \<Longrightarrow> fs_get fs q = None \<Longrightarrow> length q > length pre + length p \<Longrightarrow>
     fs_get fs' q = None"
proof (induction fs pre p rule: mkdirs.induct)
  case (2 fs pre c cs)
  show ?case
  proof (cases "fs_get fs (pre @ [c])")
    case None
    moreover have "q \<noteq> pre @ [c]" using "2.prems"(3) by auto
    ultimately show ?thesis
      using 2 by (simp add: fs_get_set)
  next
    case (Some n)
    then show ?thesis using 2 by (cases n) auto
  qed
qed simp

lemma walk_clear:
  "(\<And>n. n < length p \<Longrightarrow> fs_get fs (pre @ take n p) \<in> {None, Some DirNode}) \<Longrightarrow>
     walk fs pre p = Err NotFound \<or> (\<exists>n. walk fs pre p = Ok n)"
proof (induction fs pre p rule: walk.induct)
  case (1 fs pre)
  then show ?case by (auto split: option.split)
next
  case (2 fs pre c cs)
  have "fs_get fs ((pre @ [c]) @ take n cs) \<in> {None, Some DirNode}" if "n < length cs" for n
    using "2.prems" [of "Suc n"] that by simp
  then show ?case
    using "2.IH" "2.prems" [of 0] by (auto split: option.splits node.splits simp del: append_assoc)
qed

lemmas quiet_run = quiet_syscall run_op_def io_defs

lemma quiet_fill_temp:
  assumes "quiet w" and "fs_get (w_fs w) t = Some (FileNode x)"
  shows "fill_temp t e w = (Ok t, w\<lparr>w_fs := fs_set t (FileNode e) (w_fs w)\<rparr>)"
  using assms by (simp add: fill_temp_def match_io_def quiet_run op_write_all_def write_file_def return_io_def)

lemma quiet_write_temp:
  assumes q: "quiet w" and free: "fs_get (w_fs w) t = None" and par: "resolve (w_fs w) parent = Ok DirNode"
    and t: "t = parent @ [temp_name i (w_pid w) (w_counter w)]"
  shows "write_temp_object k parent i e w =
    (Ok t, w\<lparr>w_counter := w_counter w + 1, w_fs := fs_set t (FileNode e) (fs_set t (FileNode []) (w_fs w))\<rparr>)"
proof -
  let ?w = "w\<lparr>w_counter := w_counter w + 1\<rparr>"
  have "create_new t ?w = (Ok (), ?w\<lparr>w_fs := fs_set t (FileNode []) (w_fs w)\<rparr>)"
    using q free par by (simp add: quiet_run op_create_new_def parent_dir_def t)
  moreover have "fill_temp t e (?w\<lparr>w_fs := fs_set t (FileNode []) (w_fs w)\<rparr>) =
      (Ok t, ?w\<lparr>w_fs := fs_set t (FileNode e) (fs_set t (FileNode []) (w_fs w))\<rparr>)"
    by (subst quiet_fill_temp) (use q t in \<open>auto simp: fs_get_set\<close>)
  moreover have "write_temp_object k parent i e = write_temp_attempts (Suc 15) k parent i e"
    by (simp add: write_temp_object_def)
  ultimately show ?thesis
    unfolding write_temp_attempts.simps
    by (simp add: bind_io_def fetch_counter_def process_id_def match_io_def Let_def t)
qed

lemma quiet_link_object:
  assumes q: "quiet w" and clear: "dirs_clear (w_fs w) (butlast (object_path s k i))"
    and free: "fs_get (w_fs w) (object_path s k i) = None"
    and temp: "fs_get (w_fs w) (butlast (object_path s k i) @ [temp_name i (w_pid w) (w_counter w)]) = None"
  shows "\<exists>w'. link_object blake3 s k i e w = (Ok i, w') \<and> quiet w'"
proof -
  let ?p = "object_path s k i" and ?parent = "butlast (object_path s k i)"
  let ?t = "?parent @ [temp_name i (w_pid w) (w_counter w)]"
  obtain fs1 where mk: "mkdirs (w_fs w) [] ?parent = (Ok (), fs1)"
    using mkdirs_succeeds [of "w_fs w" "[]" ?parent] dirs_clearD [OF clear] by auto
  have par: "resolve fs1 ?parent = Ok DirNode"
    using op_create_dir_all_resolve [of ?parent "w_fs w" fs1] mk by (simp add: op_create_dir_all_def)
  have tp: "temp_path s k i ?t" by (auto simp: temp_path_def)
  have free1: "fs_get fs1 q = None" if "fs_get (w_fs w) q = None" and "length q > length ?parent" for q
    using mkdirs_none [OF mk that(1)] that(2) by auto
  have t1: "fs_get fs1 ?t = None" by (rule free1 [OF temp]) simp
  have p1: "fs_get fs1 ?p = None" by (rule free1 [OF free]) simp
  let ?fs2 = "fs_set ?t (FileNode e) (fs_set ?t (FileNode []) fs1)"
  let ?w2 = "w\<lparr>w_counter := w_counter w + 1, w_fs := ?fs2\<rparr>"
  have ext: "fs_ext fs1 ?fs2" using t1 by (auto simp: fs_ext_def fs_get_set)
  have par2: "resolve ?fs2 ?parent = Ok DirNode" by (rule resolve_ext [OF ext par])
  then have src: "resolve ?fs2 ?t = Ok (FileNode e)"
    by (simp add: resolve_parent [of ?t] parent_dir_def fs_get_set)
  have "parent_dir ?fs2 ?p = Ok ()" using par2 by (simp add: parent_dir_def)
  moreover have "fs_get ?fs2 ?p = None" using p1 get_temp(1) [OF tp] by simp
  ultimately have link: "hard_link ?t ?p ?w2 = (Ok (), ?w2\<lparr>w_fs := fs_set ?p (FileNode e) ?fs2\<rparr>)"
    using q src by (simp add: quiet_run op_hard_link_def)
  have "resolve (fs_set ?p (FileNode e) ?fs2) ?t = Ok (FileNode e)"
    by (rule resolve_ext [OF fs_ext_set src]) (rule \<open>fs_get ?fs2 ?p = None\<close>)
  then have rm: "remove_temp_file ?t (?w2\<lparr>w_fs := fs_set ?p (FileNode e) ?fs2\<rparr>) =
      (Ok (), ?w2\<lparr>w_fs := fs_del ?t (fs_set ?p (FileNode e) ?fs2)\<rparr>)"
    using q by (simp add: remove_temp_file_def match_io_def quiet_run op_remove_file_def return_io_def)
  have "write_temp_object k ?parent i e (w\<lparr>w_fs := fs1\<rparr>) = (Ok ?t, ?w2)"
    by (subst quiet_write_temp [where t = ?t]) (use q t1 par in simp_all)
  moreover have "create_dir_all ?parent w = (Ok (), w\<lparr>w_fs := fs1\<rparr>)"
    using q mk by (simp add: quiet_run op_create_dir_all_def)
  ultimately show ?thesis
    using link rm q
    by (simp add: link_object_def Let_def bind_io_def map_err_io_def match_io_def result_io_def return_io_def)
qed

text \<open>Operations that leave a quiet world as it is.\<close>

definition reads_only :: "('e, 'a) io \<Rightarrow> bool" where
  "reads_only m \<longleftrightarrow> (\<forall>w. quiet w \<longrightarrow> snd (m w) = w)"

lemma reads_only_simps: "reads_only (return_io x)" "reads_only (fail_io e)" "reads_only (result_io r)"
  by (simp_all add: reads_only_def return_io_def fail_io_def result_io_def)

lemma reads_only_match:
  assumes "reads_only m" and "\<And>r. reads_only (f r)"
  shows "reads_only (match_io m f)"
  unfolding reads_only_def
proof (intro allI impI)
  fix w
  assume q: "quiet w"
  obtain r where "m w = (r, w)"
    using assms(1) q unfolding reads_only_def by (metis prod.collapse)
  then show "snd (match_io m f w) = w"
    using assms(2) q by (simp add: match_io_def reads_only_def)
qed

lemma reads_only_bind: "reads_only m \<Longrightarrow> (\<And>x. reads_only (f x)) \<Longrightarrow> reads_only (bind_io m f)"
  unfolding bind_io_match by (rule reads_only_match) (auto intro: reads_only_simps split: sum.split)

lemma reads_only_file: "reads_only (read_object_file k p i)"
  unfolding read_object_file_def map_err_io_def
  by (rule reads_only_match) (auto simp: reads_only_def quiet_read_file result_io_def)

lemma reads_only_blob: "reads_only (read_blob_data_at blake3 s p i r)"
proof (induction blake3 s p i r rule: read_blob_data_at.induct)
  case (1 blake3 s p i r)
  have base: "reads_only (read_blob_data_at blake3 s (blob_path s (delta_base_id d)) (delta_base_id d) (Suc r))"
    if "\<not> unat MAX_DELTA_CHAIN_DEPTH < r" "from_content blake3 x \<noteq> i"
      "\<not> MAX_DELTA_CHAIN_DEPTH < delta_depth d" for x and d :: blob_delta
    using "1.IH" [of "from_content blake3 x" x d] that by simp
  show ?case
    unfolding read_blob_data_at.simps [of blake3 s p i r] Let_def
    by (auto intro!: reads_only_bind reads_only_file reads_only_simps split: option.split)
      (rule base, assumption+)
qed

lemma quiet_delta_storage:
  assumes "quiet w"
  shows "\<exists>x. delta_storage_bytes blake3 s b base_id w = (Ok x, w)"
proof -
  have "reads_only (delta_storage_bytes blake3 s b base_id)"
    unfolding delta_storage_bytes_def read_blob_data_def
    by (rule reads_only_match [OF reads_only_blob]) (auto intro: reads_only_simps split: sum.split)
  then have "snd (delta_storage_bytes blake3 s b base_id w) = w"
    using assms by (simp add: reads_only_def)
  moreover have "\<exists>x. fst (delta_storage_bytes blake3 s b base_id w) = Ok x"
    unfolding delta_storage_bytes_def match_io_def
    by (auto simp: return_io_def split: prod.split sum.split)
  ultimately show ?thesis by (metis prod.collapse)
qed

lemma quiet_verify:
  assumes "object_ok blake3 s (w_fs w) k i" and "quiet w"
  shows "verify_object_file blake3 s k (object_path s k i) i w = (Ok (), w)"
proof (cases "k = BlobObject")
  case True
  then obtain b n where st: "stored blake3 s (w_fs w) i b n"
    using assms(1) by (auto simp: object_ok_def)
  then have "unat n \<le> unat MAX_DELTA_CHAIN_DEPTH"
    using stored_depth [OF st] by (simp add: word_le_nat_alt)
  then show ?thesis
    using quiet_read_blob_data_at [OF st assms(2) refl, of 0] True
    by (simp add: verify_object_file_def blob_path_def bind_io_def return_io_def)
next
  case False
  then obtain b where "readable (w_fs w) (object_path s k i) b" "from_content blake3 b = i"
    using assms(1) by (auto simp: object_ok_def)
  then show ?thesis
    using quiet_read_object_file [OF assms(2)] False
    by (simp add: verify_object_file_def Let_def bind_io_def return_io_def)
qed

lemma object_ok_resolves: "object_ok blake3 s fs k i \<Longrightarrow> \<exists>b. resolve fs (object_path s k i) = Ok (FileNode b)"
proof -
  have "\<exists>e. readable fs (blob_path s i) e" if "stored blake3 s fs i b n" for b n
    using that by (cases rule: stored.cases) blast+
  then have "object_ok blake3 s fs k i \<Longrightarrow> \<exists>b. readable fs (object_path s k i) b"
    unfolding object_ok_def blob_path_def by metis
  then show "object_ok blake3 s fs k i \<Longrightarrow> \<exists>b. resolve fs (object_path s k i) = Ok (FileNode b)"
    unfolding readable_def by blast
qed

text \<open>
  What a put needs from the file system: nothing but directories on the way to the object, no other
  kind of node at its place, and a free temporary name.
\<close>

definition put_ready :: "local_object_store \<Rightarrow> world \<Rightarrow> object_kind \<Rightarrow> object_id \<Rightarrow> bool" where
  "put_ready s w k i \<longleftrightarrow>
    (let p = object_path s k i in
     dirs_clear (w_fs w) (butlast p) \<and>
     (case fs_get (w_fs w) p of None \<Rightarrow> True | Some (FileNode _) \<Rightarrow> True | _ \<Rightarrow> False) \<and>
     fs_get (w_fs w) (butlast p @ [temp_name i (w_pid w) (w_counter w)]) = None)"

lemma quiet_put_object:
  assumes q: "quiet w" and ok: "store_ok blake3 s (w_fs w)" and i: "valid_id i" and r: "put_ready s w k i"
  shows "\<exists>w'. put_object blake3 s k i e w = (Ok i, w') \<and> quiet w'"
proof (cases "fs_get (w_fs w) (object_path s k i)")
  case None
  have "walk (w_fs w) [] (object_path s k i) = Err NotFound \<or>
      (\<exists>n. walk (w_fs w) [] (object_path s k i) = Ok n)"
  proof (rule walk_clear)
    fix n
    assume "n < length (object_path s k i)"
    then have "take n (object_path s k i) = take n (butlast (object_path s k i))"
      by (simp add: take_butlast)
    moreover have "dirs_clear (w_fs w) (butlast (object_path s k i))"
      using r by (simp add: put_ready_def Let_def)
    ultimately show "fs_get (w_fs w) ([] @ take n (object_path s k i)) \<in> {None, Some DirNode}"
      using dirs_clearD [of "w_fs w" "butlast (object_path s k i)" n] by simp
  qed
  then have "resolve (w_fs w) (object_path s k i) = Err NotFound"
    using None resolve_get [of "w_fs w" "object_path s k i"] by (auto simp: resolve_def)
  then have "put_object blake3 s k i e w = link_object blake3 s k i e w"
    using q by (simp add: put_object_def Let_def bind_io_def map_err_io_def match_io_def result_io_def
        quiet_try_exists op_try_exists_def)
  then show ?thesis
    using quiet_link_object [OF q _ None] r by (simp add: put_ready_def Let_def)
next
  case (Some n)
  then obtain b where "n = FileNode b"
    using r by (auto simp: put_ready_def Let_def split: node.splits)
  then have obj: "object_ok blake3 s (w_fs w) k i"
    using store_okD [OF ok i] Some by simp
  then obtain b' where "resolve (w_fs w) (object_path s k i) = Ok (FileNode b')"
    using object_ok_resolves by blast
  then have "put_object blake3 s k i e w = (Ok i, w)"
    using q quiet_verify [OF obj q]
    by (simp add: put_object_def Let_def bind_io_def map_err_io_def match_io_def result_io_def
        return_io_def quiet_try_exists op_try_exists_def)
  then show ?thesis using q by simp
qed

lemma quiet_put_blob:
  assumes q: "quiet w" and ok: "store_ok blake3 s (w_fs w)" and h: "hash_ok blake3"
    and r: "put_ready s w BlobObject (from_content blake3 b)"
  shows "\<exists>w'. put_blob_with_base blake3 s b base w = (Ok (from_content blake3 b), w') \<and> quiet w'"
proof -
  have "\<exists>x. (case u of Some c \<Rightarrow> delta_storage_bytes blake3 s b c | None \<Rightarrow> return_io None) w = (Ok x, w)" for u
    using quiet_delta_storage [OF q] by (cases u) (simp_all add: return_io_def)
  then obtain x where "put_blob_with_base blake3 s b base w =
      put_object blake3 s BlobObject (from_content blake3 b) (case x of Some d \<Rightarrow> d | None \<Rightarrow> b) w"
    unfolding put_blob_with_base_def Let_def bind_io_def by (metis (lifting) old.sum.simps(6) case_prod_conv)
  then show ?thesis
    using quiet_put_object [OF q ok valid_from_content [OF h] r] by simp
qed

section \<open>Listing snapshots\<close>

definition entry_id_of :: "rstring \<Rightarrow> rstring \<times> node \<Rightarrow> object_id option" where
  "entry_id_of shard_name e = (case snd e of FileNode _ \<Rightarrow> listed_id shard_name (fst e) | _ \<Rightarrow> None)"

lemma quiet_list_shard:
  "quiet w \<Longrightarrow> list_shard sp sn es w = (Ok (List.map_filter (entry_id_of sn) es), w)"
  by (induction sp sn es rule: list_shard.induct)
    (auto simp: bind_io_def map_err_io_def match_io_def result_io_def return_io_def quiet_dir_step
      map_filter_simps entry_id_of_def split: node.splits option.splits)

definition shard_ids :: "fs \<Rightarrow> path \<Rightarrow> rstring \<times> node \<Rightarrow> object_id list" where
  "shard_ids fs dir sh =
    (if utf8 (fst sh) \<and> snd sh = DirNode
     then List.map_filter (entry_id_of (fst sh)) (dir_entries fs (dir @ [fst sh])) else [])"

lemma quiet_list_shards:
  "quiet w \<Longrightarrow> (\<And>sn. (sn, DirNode) \<in> set shards \<Longrightarrow> resolve (w_fs w) (dir @ [sn]) = Ok DirNode) \<Longrightarrow>
     list_shards dir shards w = (Ok (concat (map (shard_ids (w_fs w) dir) shards)), w)"
  by (induction dir shards rule: list_shards.induct)
    (auto simp: bind_io_def map_err_io_def match_io_def result_io_def return_io_def quiet_dir_step
      quiet_read_dir op_read_dir_def quiet_list_shard shard_ids_def)

lemma dir_entries_iff:
  assumes "distinct (map fst fs)"
  shows "(name, n) \<in> set (dir_entries fs dir) \<longleftrightarrow> fs_get fs (dir @ [name]) = Some n"
proof -
  have "(name, n) \<in> set (dir_entries fs dir) \<longleftrightarrow> (dir @ [name], n) \<in> set fs"
    unfolding dir_entries_def by (force simp: image_iff intro: append_butlast_last_id [symmetric])
  then show ?thesis
    using assms by (simp add: fs_get_def)
qed

lemma hex_digit_ascii: "v < 16 \<Longrightarrow> hex_digit v < 0x80"
proof -
  have "\<forall>n \<in> set [0..<16]. hex_digit (word_of_nat n) < 0x80" by code_simp
  then show "v < 16 \<Longrightarrow> hex_digit v < 0x80"
    using all_nibbles [of "\<lambda>v. hex_digit v < 0x80" v] by blast
qed

lemma utf8_shard_prefix: "utf8 (shard_prefix i)"
  by (rule utf8_ascii) (auto simp: shard_prefix_def hex_byte_def drop_bit_4_less and_15_less hex_digit_ascii)

lemma listed_id_shard: "listed_id sn name = Some i \<Longrightarrow> sn = shard_prefix i"
  by (auto simp: listed_id_def split: if_splits sum.splits)

lemma mem_map_filter: "x \<in> set (List.map_filter f xs) \<longleftrightarrow> (\<exists>y \<in> set xs. f y = Some x)"
  by (force simp: map_filter_def)

lemma entry_id_of_Some:
  "entry_id_of sn (name, n) = Some i \<longleftrightarrow> (\<exists>b. n = FileNode b) \<and> listed_id sn name = Some i"
  by (cases n) (simp_all add: entry_id_of_def)

lemma set_shard_ids:
  assumes "distinct (map fst fs)"
  shows "i \<in> set (concat (map (shard_ids fs dir) (dir_entries fs dir))) \<longleftrightarrow>
    fs_get fs (dir @ [shard_prefix i]) = Some DirNode \<and>
    (\<exists>name b. fs_get fs (dir @ [shard_prefix i, name]) = Some (FileNode b) \<and>
       listed_id (shard_prefix i) name = Some i)" (is "?L \<longleftrightarrow> ?R")
proof -
  have sub: "(name, n) \<in> set (dir_entries fs (dir @ [sn])) \<longleftrightarrow> fs_get fs (dir @ [sn, name]) = Some n" for name n sn
    using dir_entries_iff [OF assms, of name n "dir @ [sn]"] by simp
  have shard: "i \<in> set (shard_ids fs dir (sn, n)) \<longleftrightarrow> utf8 sn \<and> n = DirNode \<and>
      (\<exists>name b. fs_get fs (dir @ [sn, name]) = Some (FileNode b) \<and> listed_id sn name = Some i)" for sn n
    by (simp add: shard_ids_def mem_map_filter Bex_def split_paired_Ex sub entry_id_of_Some) blast
  have "?L \<longleftrightarrow> (\<exists>sn n. (sn, n) \<in> set (dir_entries fs dir) \<and> i \<in> set (shard_ids fs dir (sn, n)))"
    by (auto simp: Bex_def)
  also have "\<dots> \<longleftrightarrow> (\<exists>sn. fs_get fs (dir @ [sn]) = Some DirNode \<and> utf8 sn \<and>
      (\<exists>name b. fs_get fs (dir @ [sn, name]) = Some (FileNode b) \<and> listed_id sn name = Some i))"
    unfolding shard dir_entries_iff [OF assms] by blast
  also have "\<dots> \<longleftrightarrow> ?R"
    using listed_id_shard utf8_shard_prefix by metis
  finally show ?thesis .
qed

lemma sorted_remdups_adj_strict: "sorted xs \<Longrightarrow> sorted_wrt (<) (remdups_adj xs)"
  by (induction xs rule: remdups_adj.induct) (auto simp: order_le_less)

lemma quiet_list_snapshot_ids:
  assumes q: "quiet w" and d: "distinct (map fst (w_fs w))"
    and dir: "resolve (w_fs w) (object_dir (store_root s) SnapshotObject) = Ok DirNode"
  shows "list_snapshot_ids s w = (Ok (remdups_adj (sort (concat (map
      (shard_ids (w_fs w) (object_dir (store_root s) SnapshotObject))
      (dir_entries (w_fs w) (object_dir (store_root s) SnapshotObject)))))), w)"
proof -
  let ?dir = "object_dir (store_root s) SnapshotObject"
  have "resolve (w_fs w) (?dir @ [sn]) = Ok DirNode" if "(sn, DirNode) \<in> set (dir_entries (w_fs w) ?dir)" for sn
    using that dir by (simp add: dir_entries_iff [OF d] resolve_parent parent_dir_def)
  note shards = quiet_list_shards [OF q this]
  show ?thesis
    using dir q shards
    by (simp add: list_snapshot_ids_def Let_def bind_io_def map_err_io_def match_io_def result_io_def
        return_io_def quiet_read_dir op_read_dir_def)
qed

end
