(* ===== verification/Store_Properties.thy ===== *)
theory Store_Properties
  imports Store_Contract
begin

text \<open>
  The properties of the local object store, each with its witness: safety of every history of
  operations under failures and concurrent publications, integrity of reads, put followed by get,
  success of puts in a quiet world, and the listing of snapshots.
\<close>

section \<open>A concrete store for the witnesses\<close>

definition sum_hash :: hasher where
  "sum_hash b = replicate 31 0 @ [sum_list b]"

definition sample_store :: local_object_store where
  "sample_store = \<lparr>store_root = [bstr ''s'']\<rparr>"

definition sample_world :: "event list \<Rightarrow> world" where
  "sample_world env =
     \<lparr>w_fs = [([bstr ''s''], DirNode), ([bstr ''s'', bstr ''blobs''], DirNode),
        ([bstr ''s'', bstr ''trees''], DirNode), ([bstr ''s'', bstr ''snapshots''], DirNode)],
      w_env = env, w_rely = (\<lambda>fs p b. False), w_counter = 0, w_pid = 1,
      w_ref_counter = 0, w_clock = 0, w_jitter = [], w_ages = [], w_unix = [],
      w_stamps = (\<lambda>p. \<lparr>stamp_modified = None, stamp_dev = 0, stamp_ino = 0\<rparr>), w_fresh = []\<rparr>"

lemma hash_ok_sum_hash: "hash_ok sum_hash"
  by (simp add: hash_ok_def sum_hash_def OBJECT_ID_BYTES_def)

lemma store_ok_directories: "list_all (\<lambda>e. snd e = DirNode) fs \<Longrightarrow> store_ok blake3 s fs"
  unfolding store_ok_def fs_get_def list_all_iff
  by (fastforce dest: map_of_SomeD split: if_splits)

lemma sample_world_inv: "store_inv sum_hash sample_store (sample_world env)"
  unfolding store_inv_def
  by (auto simp: hash_ok_sum_hash sample_world_def intro: store_ok_directories)

lemma quiet_sample_world: "quiet (sample_world [])"
  by (simp add: quiet_def sample_world_def)

definition sample_ops :: "put_request store_op list" where
  "sample_ops = [Put (PutBlob [1, 2] None), Put (PutBlob [5] None), Put (PutTree sample_tree),
     Get BlobObject (ObjectId (sum_hash [5]))]"

definition sample_events :: "event list" where
  "sample_events = [Quiet, Quiet, Quiet, Fault 1]"

section \<open>Histories\<close>

text \<open>
  C1. Safety of every history: for every sequence of put and get operations and every script of
  failing system calls (partial writes included) and of files published by other processes, the
  store's invariant holds at the end, every object that was readable before still has exactly the
  same content, every put that returned an identifier returned the hash of its bytes and left that
  object readable, and every get that returned bytes returned the content of the object.
\<close>

theorem store_history_safe:
  assumes "store_inv blake3 s w"
    and "list_all (\<lambda>x. case x of Put q \<Rightarrow> req_ok q | Get _ _ \<Rightarrow> True) ops"
    and "run_ops (store_put blake3 s) (get_object_bytes blake3 s) ops w = (rs, w')"
  shows "store_inv blake3 s w' \<and>
    (\<forall>k i b. has_content blake3 s (w_fs w) k i b \<longrightarrow> has_content blake3 s (w_fs w') k i b) \<and>
    list_all2 (\<lambda>x r. case x of
        Put q \<Rightarrow> (\<forall>i. r = Inr (Inl i) \<longrightarrow> i = from_content blake3 (req_bytes q) \<and>
          (\<exists>b. has_content blake3 s (w_fs w') (req_kind q) i b))
      | Get k i \<Rightarrow> (\<forall>b. r = Inr (Inr b) \<longrightarrow> has_content blake3 s (w_fs w') k i b)) ops rs"
  using local_store.run_ops_keeps [unfolded local_store.op_ok_def local_store.step_done_def, OF assms(3,1)]
    assms(2) by simp

lemma sample_run:
  "fst (run_ops (store_put sum_hash sample_store) (get_object_bytes sum_hash sample_store) sample_ops
     (sample_world sample_events)) =
   [Inl (StoreIo [bstr ''s'', bstr ''blobs'', bstr ''00'',
       temp_name (ObjectId (sum_hash [1, 2])) 1 0] OtherError),
    Inr (Inl (ObjectId (sum_hash [5]))),
    Inr (Inl (from_content sum_hash (the (tree_to_canonical_bytes sample_tree)))), Inr (Inr [5])]"
  by code_simp

theorem store_history_safe_witness:
  "case run_ops (store_put sum_hash sample_store) (get_object_bytes sum_hash sample_store) sample_ops
      (sample_world sample_events) of (rs, w') \<Rightarrow>
     rs ! 1 = Inr (Inl (ObjectId (sum_hash [5]))) \<and>
     has_content sum_hash sample_store (w_fs w') BlobObject (ObjectId (sum_hash [5])) [5] \<and>
     store_inv sum_hash sample_store w'"
proof -
  obtain rs w' where run: "run_ops (store_put sum_hash sample_store)
      (get_object_bytes sum_hash sample_store) sample_ops (sample_world sample_events) = (rs, w')"
    by fastforce
  have ok: "list_all (\<lambda>x. case x of Put q \<Rightarrow> req_ok q | Get _ _ \<Rightarrow> True) sample_ops"
    by code_simp
  note safe = store_history_safe [OF sample_world_inv ok run]
  have rs: "rs ! 1 = Inr (Inl (ObjectId (sum_hash [5])))" "rs ! 3 = Inr (Inr [5])"
    using sample_run by (simp_all add: run)
  have "has_content sum_hash sample_store (w_fs w') BlobObject (ObjectId (sum_hash [5])) [5]"
    using list_all2_nthD [OF safe [THEN conjunct2, THEN conjunct2], of 3] rs
    by (simp add: sample_ops_def)
  then show ?thesis using safe rs(1) by (simp only: run prod.case simp_thms)
qed

section \<open>Reads\<close>

lemma get_tree_run:
  assumes "get_tree blake3 s i w = (Ok t, w')"
  shows "\<exists>b. has_content blake3 s (w_fs w') TreeObject i b \<and> wf_tree t \<and> tree_to_canonical_bytes t = Some b"
proof -
  from assms obtain b where b: "get_object_bytes blake3 s TreeObject i w = (Ok b, w')"
      and t: "tree_from_canonical_bytes b = Ok t"
    by (auto simp: get_tree_def bind_result_io_Ok)
  from get_object_run [OF b] have "has_content blake3 s (w_fs w') TreeObject i b" by blast
  then show ?thesis
    using tree_encode_decode [OF t] has_content_fits by fastforce
qed

lemma get_snapshot_run:
  assumes "get_snapshot blake3 s i w = (Ok sn, w')"
  shows "\<exists>b. has_content blake3 s (w_fs w') SnapshotObject i b \<and> wf_snapshot sn \<and>
    b = snapshot_to_canonical_bytes sn"
proof -
  from assms obtain b where b: "get_object_bytes blake3 s SnapshotObject i w = (Ok b, w')"
      and t: "snapshot_from_canonical_bytes b = Ok sn"
    by (auto simp: get_snapshot_def bind_result_io_Ok)
  from get_object_run [OF b] have "has_content blake3 s (w_fs w') SnapshotObject i b" by blast
  then show ?thesis
    using snapshot_encode_decode [OF t] has_content_fits by fastforce
qed

text \<open>
  C2. Integrity of reads: whatever the file system holds and whatever fails meanwhile, the bytes
  that \<open>get_blob\<close> returns hash to the requested identifier, and the tree or snapshot that
  \<open>get_tree\<close> or \<open>get_snapshot\<close> returns is well formed and has that identifier.
\<close>

theorem get_integrity:
  "(get_blob blake3 s i w = (Ok b, w1) \<longrightarrow> from_content blake3 b = i) \<and>
   (get_tree blake3 s i w = (Ok t, w2) \<longrightarrow> wf_tree t \<and> tree_id blake3 t = Some i) \<and>
   (get_snapshot blake3 s i w = (Ok sn, w3) \<longrightarrow> wf_snapshot sn \<and> snapshot_id blake3 sn = i)"
proof (intro conjI impI)
  assume "get_blob blake3 s i w = (Ok b, w1)"
  then have "get_object_bytes blake3 s BlobObject i w = (Ok b, w1)"
    by (simp add: get_object_bytes_def)
  from get_object_run [OF this] show "from_content blake3 b = i"
    using has_content_hash by blast
next
  assume "get_tree blake3 s i w = (Ok t, w2)"
  from get_tree_run [OF this] show "wf_tree t" "tree_id blake3 t = Some i"
    using has_content_hash by (auto simp: tree_id_def)
next
  assume "get_snapshot blake3 s i w = (Ok sn, w3)"
  from get_snapshot_run [OF this] show "wf_snapshot sn" "snapshot_id blake3 sn = i"
    using has_content_hash by (auto simp: snapshot_id_def)
qed

definition sample_blob_world :: world where
  "sample_blob_world = snd (put_blob sum_hash sample_store [5] (sample_world []))"

lemma sample_blob_read: "fst (get_blob sum_hash sample_store (ObjectId (sum_hash [5])) sample_blob_world) = Ok [5]"
  by code_simp

theorem get_integrity_witness:
  "case get_blob sum_hash sample_store (ObjectId (sum_hash [5])) sample_blob_world of
     (Inr b, w') \<Rightarrow> from_content sum_hash b = ObjectId (sum_hash [5]) | _ \<Rightarrow> False"
proof -
  obtain w' where run: "get_blob sum_hash sample_store (ObjectId (sum_hash [5])) sample_blob_world = (Ok [5], w')"
    using sample_blob_read by (metis prod.collapse)
  then have "from_content sum_hash [5] = ObjectId (sum_hash [5])"
    using get_integrity by blast
  then show ?thesis by (simp add: run)
qed

section \<open>Put, then get\<close>

lemma put_blob_content:
  assumes "store_inv blake3 s w" and "fits_memory b" and "put_blob_with_base blake3 s b base w = (Ok i, w1)"
  shows "i = from_content blake3 b \<and> (\<exists>c. has_content blake3 s (w_fs w1) BlobObject i c)"
  using local_store.put_stores [of blake3 s w "PutBlob b base" i w1] assms
  by (auto simp: req_ok_def req_bytes_def req_kind_def store_put_def)

lemma content_hash_eq:
  "has_content blake3 s fs k (from_content blake3 b) c \<Longrightarrow> blake3 c = blake3 b"
  using has_content_hash [of blake3 s fs k "from_content blake3 b" c] by (simp add: from_content_def)

text \<open>
  C3. A blob that was put is read back: after a put that returned an identifier, under any script
  and with any choice of a delta base, reading that identifier in a quiet world, at that time or
  after the file system has grown, succeeds and gives bytes with the hash of the bytes put (so the
  same bytes, unless a collision of the hash function is at hand).
\<close>

theorem put_blob_then_get:
  assumes "store_inv blake3 s w" and "fits_memory b"
    and "put_blob_with_base blake3 s b base w = (Ok i, w1)"
    and "fs_ext (w_fs w1) (w_fs w2)" and "quiet w2"
  shows "i = from_content blake3 b \<and>
    (\<exists>c. get_blob blake3 s i w2 = (Ok c, w2) \<and> blake3 c = blake3 b)"
proof -
  obtain c where i: "i = from_content blake3 b" and c: "has_content blake3 s (w_fs w1) BlobObject i c"
    using put_blob_content [OF assms(1-3)] by blast
  have "has_content blake3 s (w_fs w2) BlobObject i c"
    by (rule has_content_ext [OF assms(4) c])
  then have "get_blob blake3 s i w2 = (Ok c, w2)"
    using quiet_get_object_bytes [OF _ assms(5)] by (fastforce simp: get_object_bytes_def)
  then show ?thesis using i c content_hash_eq by blast
qed

theorem put_blob_then_get_witness:
  "\<exists>c. get_blob sum_hash sample_store (ObjectId (sum_hash [5])) sample_blob_world = (Ok c, sample_blob_world) \<and>
     sum_hash c = sum_hash [5]"
proof -
  have "fst (put_blob_with_base sum_hash sample_store [5] None (sample_world [])) = Ok (ObjectId (sum_hash [5]))"
    "w_env sample_blob_world = []" "fits_memory [5]"
    by code_simp+
  moreover from this have "put_blob_with_base sum_hash sample_store [5] None (sample_world []) =
      (Ok (ObjectId (sum_hash [5])), sample_blob_world)"
    by (simp add: sample_blob_world_def put_blob_def prod_eq_iff)
  ultimately show ?thesis
    using put_blob_then_get [OF sample_world_inv, of "[5]" None "[]" "ObjectId (sum_hash [5])"
        sample_blob_world sample_blob_world]
    by (auto simp: quiet_def)
qed

text \<open>
  C4. In a quiet world a put always succeeds: if only directories are in the way, no foreign node
  sits at the object's place and the temporary name is free, \<open>put_blob_with_base\<close> returns the
  identifier of the bytes, whatever base it is given, and the blob can be read at once.
\<close>

theorem put_blob_total:
  assumes "store_inv blake3 s w" and "quiet w" and "fits_memory b"
    and "put_ready s w BlobObject (from_content blake3 b)"
  shows "\<exists>w' c. put_blob_with_base blake3 s b base w = (Ok (from_content blake3 b), w') \<and>
    get_blob blake3 s (from_content blake3 b) w' = (Ok c, w') \<and> blake3 c = blake3 b"
proof -
  have "store_ok blake3 s (w_fs w)" "hash_ok blake3"
    using assms(1) unfolding store_inv_def by blast+
  then obtain w' where put: "put_blob_with_base blake3 s b base w = (Ok (from_content blake3 b), w')"
      and q: "quiet w'"
    using quiet_put_blob [OF assms(2) _ _ assms(4)] by blast
  obtain c where c: "has_content blake3 s (w_fs w') BlobObject (from_content blake3 b) c"
    using put_blob_content [OF assms(1,3) put] by blast
  have "get_blob blake3 s (from_content blake3 b) w' = (Ok c, w')"
    using quiet_get_object_bytes [OF c q] by (simp add: get_object_bytes_def)
  then show ?thesis using put content_hash_eq [OF c] by blast
qed

theorem put_blob_total_witness:
  "\<exists>w' c. put_blob_with_base sum_hash sample_store [5] (Some (ObjectId [])) (sample_world []) =
     (Ok (from_content sum_hash [5]), w') \<and>
     get_blob sum_hash sample_store (from_content sum_hash [5]) w' = (Ok c, w') \<and> sum_hash c = sum_hash [5]"
proof (rule put_blob_total [OF sample_world_inv quiet_sample_world])
  show "fits_memory [5]" by code_simp
  show "put_ready sample_store (sample_world []) BlobObject (from_content sum_hash [5])" by code_simp
qed

text \<open>
  C25. A well-formed tree that was put is read back: after \<open>put_tree\<close> returned an identifier, it is
  the tree's identifier, and \<open>get_tree\<close> in a quiet world gives the tree, unless the file under
  that identifier holds other bytes with the same hash.
\<close>

theorem put_tree_then_get:
  assumes "store_inv blake3 s w" and "wf_tree t" and "tree_to_canonical_bytes t = Some b"
    and "fits_memory b" and "the (put_tree blake3 s t) w = (Ok i, w1)"
    and "fs_ext (w_fs w1) (w_fs w2)" and "quiet w2"
  shows "tree_id blake3 t = Some i \<and>
    (get_tree blake3 s i w2 = (Ok t, w2) \<or>
     (\<exists>c. c \<noteq> b \<and> has_content blake3 s (w_fs w2) TreeObject i c))"
proof -
  have i: "i = from_content blake3 b" and "\<exists>c. has_content blake3 s (w_fs w1) TreeObject i c"
    using local_store.put_stores [of blake3 s w "PutTree t" i w1] assms(1,3-5)
    by (auto simp: req_ok_def req_bytes_def req_kind_def store_put_def)
  then obtain c where c: "has_content blake3 s (w_fs w2) TreeObject i c"
    using has_content_ext [OF assms(6)] by blast
  have "get_tree blake3 s i w2 = (Ok t, w2)" if "c = b"
    using quiet_get_object_bytes [OF c assms(7)] tree_decode_encode [OF assms(2-4)] that
    by (simp add: get_tree_def bind_io_def result_io_def)
  then show ?thesis
    using c i assms(3) by (auto simp: tree_id_def)
qed

definition sample_tree_world :: world where
  "sample_tree_world = snd (the (put_tree sum_hash sample_store sample_tree) (sample_world []))"

lemma sample_tree_facts:
  "fst (the (put_tree sum_hash sample_store sample_tree) (sample_world [])) =
     Ok (from_content sum_hash (the (tree_to_canonical_bytes sample_tree)))"
  "w_env sample_tree_world = []" "wf_tree sample_tree"
  "tree_to_canonical_bytes sample_tree = Some (the (tree_to_canonical_bytes sample_tree))"
  "fits_memory (the (tree_to_canonical_bytes sample_tree))"
  by code_simp+

theorem put_tree_then_get_witness:
  "tree_id sum_hash sample_tree = Some (from_content sum_hash (the (tree_to_canonical_bytes sample_tree))) \<and>
   fst (get_tree sum_hash sample_store (from_content sum_hash (the (tree_to_canonical_bytes sample_tree)))
     sample_tree_world) = Ok sample_tree"
proof -
  have "the (put_tree sum_hash sample_store sample_tree) (sample_world []) =
      (Ok (from_content sum_hash (the (tree_to_canonical_bytes sample_tree))), sample_tree_world)"
    by (metis sample_tree_facts(1) sample_tree_world_def prod.collapse)
  moreover have "quiet sample_tree_world" using sample_tree_facts(2) by (simp add: quiet_def)
  ultimately have "tree_id sum_hash sample_tree = Some (from_content sum_hash (the (tree_to_canonical_bytes sample_tree)))"
    using put_tree_then_get [OF sample_world_inv sample_tree_facts(3-5) _ fs_ext_refl] by blast
  moreover have "fst (get_tree sum_hash sample_store
      (from_content sum_hash (the (tree_to_canonical_bytes sample_tree))) sample_tree_world) = Ok sample_tree"
    by code_simp
  ultimately show ?thesis by simp
qed

text \<open>
  A well-formed snapshot that was put is read back with all its fields: \<open>put_snapshot\<close> returns
  the snapshot's identifier, and \<open>get_snapshot\<close> in a quiet world gives the snapshot, unless the
  file under that identifier holds other bytes with the same hash.
\<close>

lemma put_snapshot_then_get:
  assumes "store_inv blake3 s w" and "wf_snapshot sn" and "fits_memory (snapshot_to_canonical_bytes sn)"
    and "put_snapshot blake3 s sn w = (Ok i, w1)"
    and "fs_ext (w_fs w1) (w_fs w2)" and "quiet w2"
  shows "snapshot_id blake3 sn = i \<and>
    (get_snapshot blake3 s i w2 = (Ok sn, w2) \<or>
     (\<exists>c. c \<noteq> snapshot_to_canonical_bytes sn \<and> has_content blake3 s (w_fs w2) SnapshotObject i c))"
proof -
  have i: "i = from_content blake3 (snapshot_to_canonical_bytes sn)"
      and "\<exists>c. has_content blake3 s (w_fs w1) SnapshotObject i c"
    using local_store.put_stores [of blake3 s w "PutSnapshot sn" i w1] assms(1,3,4)
    by (auto simp: req_ok_def req_bytes_def req_kind_def store_put_def)
  then obtain c where c: "has_content blake3 s (w_fs w2) SnapshotObject i c"
    using has_content_ext [OF assms(5)] by blast
  have "get_snapshot blake3 s i w2 = (Ok sn, w2)" if "c = snapshot_to_canonical_bytes sn"
    using quiet_get_object_bytes [OF c assms(6)] snapshot_decode_encode [OF assms(2,3)] that
    by (simp add: get_snapshot_def bind_io_def result_io_def)
  then show ?thesis
    using c i by (auto simp: snapshot_id_def)
qed

text \<open>Evaluation of the encoding before the put.\<close>

definition put_raw :: "hasher \<Rightarrow> local_object_store \<Rightarrow> object_kind \<Rightarrow> bytes \<Rightarrow> object_id store_io" where
  "put_raw blake3 s k bytes = put_object blake3 s k (from_content blake3 bytes) bytes"

lemma put_snapshot_code [code]:
  "put_snapshot blake3 s sn = put_raw blake3 s SnapshotObject (snapshot_to_canonical_bytes sn)"
  by (simp add: put_snapshot_def put_raw_def Let_def)

definition sample_snapshot_world :: world where
  "sample_snapshot_world = snd (put_snapshot sum_hash sample_store sample_snapshot (sample_world []))"

lemma sample_snapshot_facts:
  "fst (put_snapshot sum_hash sample_store sample_snapshot (sample_world [])) =
     Ok (snapshot_id sum_hash sample_snapshot)"
  "w_env sample_snapshot_world = []" "wf_snapshot sample_snapshot"
  "fits_memory (snapshot_to_canonical_bytes sample_snapshot)"
  by code_simp+

lemma put_snapshot_then_get_example:
  "snapshot_id sum_hash sample_snapshot = from_content sum_hash (snapshot_to_canonical_bytes sample_snapshot) \<and>
   fst (get_snapshot sum_hash sample_store (snapshot_id sum_hash sample_snapshot) sample_snapshot_world) =
     Ok sample_snapshot"
proof -
  have "put_snapshot sum_hash sample_store sample_snapshot (sample_world []) =
      (Ok (snapshot_id sum_hash sample_snapshot), sample_snapshot_world)"
    by (metis sample_snapshot_facts(1) sample_snapshot_world_def prod.collapse)
  moreover have "quiet sample_snapshot_world" using sample_snapshot_facts(2) by (simp add: quiet_def)
  ultimately have "get_snapshot sum_hash sample_store (snapshot_id sum_hash sample_snapshot) sample_snapshot_world =
     (Ok sample_snapshot, sample_snapshot_world) \<or>
   (\<exists>c. c \<noteq> snapshot_to_canonical_bytes sample_snapshot \<and>
      has_content sum_hash sample_store (w_fs sample_snapshot_world) SnapshotObject
        (snapshot_id sum_hash sample_snapshot) c)"
    using put_snapshot_then_get [OF sample_world_inv sample_snapshot_facts(3,4) _ fs_ext_refl] by blast
  moreover have "fst (get_snapshot sum_hash sample_store (snapshot_id sum_hash sample_snapshot)
      sample_snapshot_world) = Ok sample_snapshot"
    by code_simp
  ultimately show ?thesis by (simp add: snapshot_id_def)
qed

section \<open>Listing and opening\<close>

text \<open>
  C26. \<open>list_snapshot_ids\<close> in a quiet world returns, in strictly ascending order and without
  repetition, exactly the identifiers that a regular file in the matching shard directory spells;
  temporary files, foreign names and other kinds of nodes are skipped.
\<close>

theorem list_snapshot_ids_exact:
  assumes "quiet w" and "distinct (map fst (w_fs w))"
    and "resolve (w_fs w) (object_dir (store_root s) SnapshotObject) = Ok DirNode"
  shows "\<exists>ids. list_snapshot_ids s w = (Ok ids, w) \<and> sorted_wrt (<) ids \<and>
    set ids = {i. fs_get (w_fs w) (object_dir (store_root s) SnapshotObject @ [shard_prefix i]) = Some DirNode \<and>
      (\<exists>name b. fs_get (w_fs w) (object_dir (store_root s) SnapshotObject @ [shard_prefix i, name]) =
          Some (FileNode b) \<and> utf8 name \<and> \<not> starts_with (bstr ''.'') name \<and> from_hex name = Ok i)}"
proof -
  let ?dir = "object_dir (store_root s) SnapshotObject"
  let ?ids = "concat (map (shard_ids (w_fs w) ?dir) (dir_entries (w_fs w) ?dir))"
  have "listed_id (shard_prefix i) name = Some i \<longleftrightarrow>
      utf8 name \<and> \<not> starts_with (bstr ''.'') name \<and> from_hex name = Ok i" for i name
    by (auto simp: listed_id_def split: sum.splits)
  then have "set ?ids = {i. fs_get (w_fs w) (?dir @ [shard_prefix i]) = Some DirNode \<and>
      (\<exists>name b. fs_get (w_fs w) (?dir @ [shard_prefix i, name]) = Some (FileNode b) \<and>
        utf8 name \<and> \<not> starts_with (bstr ''.'') name \<and> from_hex name = Ok i)}"
    using set_shard_ids [OF assms(2)] by blast
  moreover have "set (remdups_adj (sort ?ids)) = set ?ids" by simp
  moreover have "sorted_wrt (<) (remdups_adj (sort ?ids))" by (simp add: sorted_remdups_adj_strict)
  ultimately show ?thesis
    using quiet_list_snapshot_ids [OF assms] by metis
qed

theorem list_snapshot_ids_exact_witness:
  "\<exists>ids. list_snapshot_ids sample_store sample_snapshot_world = (Ok ids, sample_snapshot_world) \<and>
     sorted_wrt (<) ids"
proof -
  have "distinct (map fst (w_fs sample_snapshot_world))"
    "resolve (w_fs sample_snapshot_world) (object_dir (store_root sample_store) SnapshotObject) = Ok DirNode"
    by code_simp+
  moreover have "quiet sample_snapshot_world" using sample_snapshot_facts(2) by (simp add: quiet_def)
  ultimately show ?thesis using list_snapshot_ids_exact by blast
qed

lemma hoare_open_dirs:
  assumes R: "\<And>fs p b. R fs p b \<Longrightarrow> store_rely blake3 s fs p b"
  shows "hoare R (\<lambda>fs. (fs_ext fs0 fs \<and> store_ok blake3 s fs) \<and> (\<forall>k \<in> D. resolve fs (object_dir root k) = Ok DirNode))
    (open_dirs root ks)
    (\<lambda>r fs. (fs_ext fs0 fs \<and> store_ok blake3 s fs) \<and>
       (\<forall>u. r = Ok u \<longrightarrow> (\<forall>k \<in> D \<union> set ks. resolve fs (object_dir root k) = Ok DirNode)))"
proof (induction ks arbitrary: D)
  case Nil
  show ?case by (auto intro!: hoare_return)
next
  case (Cons k ks)
  let ?P = "\<lambda>D fs. (fs_ext fs0 fs \<and> store_ok blake3 s fs) \<and>
    (\<forall>k \<in> D. resolve fs (object_dir root k) = Ok DirNode)"
  have grow: "?P D fs'" if "?P D fs" "mkdirs fs [] p = (r, fs')" for fs fs' p r
    using that fs_ext_trans [OF _ mkdirs_ext [OF that(2)]] store_ok_mkdirs [OF _ that(2)]
      resolve_ext [OF mkdirs_ext [OF that(2)]] by blast
  have st: "stable R (?P D)"
    by (intro stable_conj stable_store_ok_ext R stable_mono) (auto dest: resolve_ext)
  have "hoare R (?P D) (create_dir_all (object_dir root k))
      (\<lambda>r fs. case r of Inl _ \<Rightarrow> ?P D fs | Inr _ \<Rightarrow> ?P (insert k D) fs)"
    unfolding create_dir_all_def
  proof (rule hoare_syscall [OF st])
    fix fs r fs'
    assume "?P D fs" and op: "op_create_dir_all (object_dir root k) fs = (r, fs')"
    then show "case r of Inl _ \<Rightarrow> ?P D fs' | Inr _ \<Rightarrow> ?P (insert k D) fs'"
      using grow [of fs "object_dir root k" r fs'] op_create_dir_all_resolve [of "object_dir root k" fs fs']
      by (auto simp: op_create_dir_all_def split: sum.split)
  next
    fix fs n
    assume "?P D fs"
    from grow [OF this prod.collapse [symmetric]]
    show "case Err OtherError of Inl _ \<Rightarrow> ?P D (snd (mkdirs fs [] (take n (object_dir root k))))
        | Inr _ \<Rightarrow> ?P (insert k D) (snd (mkdirs fs [] (take n (object_dir root k))))" by simp
  qed
  then have "hoare R (?P D) (map_err_io (StoreIo (object_dir root k)) (create_dir_all (object_dir root k)))
      (\<lambda>r fs. case r of Inl _ \<Rightarrow> ?P D fs | Inr _ \<Rightarrow> ?P (insert k D) fs)"
    by (intro hoare_map_err) (simp only: case_map_err)
  then show ?case
    unfolding open_dirs.simps
    by (intro hoare_bind [where M = "\<lambda>_. ?P (insert k D)"] hoare_post [OF Cons [of "insert k D"]])
      (auto elim!: hoare_post split: sum.splits)
qed

text \<open>
  Opening a store is safe and leaves it usable: under any script, \<open>LocalObjectStore::open\<close> keeps
  every existing file and the invariant, and when it succeeds the three object directories exist.
\<close>

lemma store_open_ready:
  assumes "store_inv blake3 \<lparr>store_root = root\<rparr> w" and "store_open root w = (r, w')"
  shows "store_inv blake3 \<lparr>store_root = root\<rparr> w' \<and> fs_ext (w_fs w) (w_fs w') \<and>
    (\<forall>s. r = Ok s \<longrightarrow> store_root s = root \<and>
      resolve (w_fs w') (object_dir root BlobObject) = Ok DirNode \<and>
      resolve (w_fs w') (object_dir root TreeObject) = Ok DirNode \<and>
      resolve (w_fs w') (object_dir root SnapshotObject) = Ok DirNode)"
proof -
  let ?s = "\<lparr>store_root = root\<rparr>"
  have rely: "\<And>fs p b. w_rely w fs p b \<Longrightarrow> store_rely blake3 ?s fs p b"
      and ok: "store_ok blake3 ?s (w_fs w)" and h: "hash_ok blake3"
    using assms(1) unfolding store_inv_def by blast+
  let ?I = "\<lambda>fs. fs_ext (w_fs w) fs \<and> store_ok blake3 ?s fs"
  let ?D = "\<lambda>fs. \<forall>k \<in> set [BlobObject, TreeObject, SnapshotObject]. resolve fs (object_dir root k) = Ok DirNode"
  have "hoare (w_rely w) ?I (store_open root)
      (\<lambda>r fs. ?I fs \<and> (\<forall>s. r = Ok s \<longrightarrow> store_root s = root \<and> ?D fs))"
    unfolding store_open_def
    by (rule hoare_bind [OF hoare_post [OF hoare_pre [OF hoare_open_dirs [where D = "{}" and ks = "[BlobObject, TreeObject, SnapshotObject]"]]],
          where M = "\<lambda>_ fs. ?I fs \<and> ?D fs"])
      (use rely in \<open>auto intro!: hoare_return split: sum.splits\<close>)
  from hoareD [OF this assms(2)]
  have "(?I (w_fs w') \<and> (\<forall>s. r = Ok s \<longrightarrow> store_root s = root \<and> ?D (w_fs w'))) \<and> w_rely w' = w_rely w"
    using ok by simp
  then show ?thesis using rely h by (simp add: store_inv_def)
qed

lemma store_open_ready_example:
  "case store_open [bstr ''s''] (sample_world []) of (r, w') \<Rightarrow>
     r = Ok sample_store \<and> resolve (w_fs w') (object_dir [bstr ''s''] BlobObject) = Ok DirNode"
proof -
  obtain r w' where run: "store_open [bstr ''s''] (sample_world []) = (r, w')" by fastforce
  have inv: "store_inv sum_hash \<lparr>store_root = [bstr ''s'']\<rparr> (sample_world [])"
    using sample_world_inv by (simp only: sample_store_def)
  have "fst (store_open [bstr ''s''] (sample_world [])) = Ok sample_store" by code_simp
  then have "r = Ok sample_store" by (simp only: run fst_conv)
  then show ?thesis
    using store_open_ready [OF inv run] by (simp only: run prod.case simp_thms)
qed

end
