(* ===== verification/Line_Diff.thy ===== *)
theory Line_Diff
  imports Era_Prelude "HOL-Library.Product_Lexorder"
begin

text \<open>
  The diff of \<open>crates/merge/src/lib.rs\<close>: splitting into lines, the patience matching with its
  unique anchors and longest increasing subsequence, the table of longest common subsequences for
  the gaps, and the edit regions. The lemmas here show that the anchors are strictly ascending
  pairs of equal lines within their ranges, which the termination of the recursive matching rests
  on; the theory \<open>Diff_Correctness\<close> shows what the whole diff computes.

  Indices stay within the ranges given, so list access is never out of bounds; the lemmas on
  \<open>matching_in\<close> state it.
\<close>

type_synonym line = bytes

definition MAX_LCS_CELLS :: nat where
  "MAX_LCS_CELLS = 4000000"

record edit_region =
  edit_start :: nat
  edit_end :: nat
  edit_replacement :: "line list"

definition edit_region_new :: "nat \<Rightarrow> nat \<Rightarrow> line list \<Rightarrow> edit_region" where
  "edit_region_new s e r = \<lparr>edit_start = s, edit_end = e, edit_replacement = r\<rparr>"

definition is_insertion :: "edit_region \<Rightarrow> bool" where
  "is_insertion e \<longleftrightarrow> edit_start e = edit_end e"

section \<open>Lines\<close>

text \<open>\<open>current\<close> is the part of the input from \<open>start\<close> to the loop's index.\<close>

fun split_loop :: "bytes \<Rightarrow> bytes \<Rightarrow> line list" where
  "split_loop current [] = (if current \<noteq> [] then [current] else [])"
| "split_loop current (b # bs) =
    (if b = 10 then (current @ [b]) # split_loop [] bs else split_loop (current @ [b]) bs)"

definition split_lines :: "bytes \<Rightarrow> line list" where
  "split_lines bs = (if bs = [] then [] else split_loop [] bs)"

definition lines_to_bytes :: "line list \<Rightarrow> bytes" where
  "lines_to_bytes ls = concat ls"

lemma concat_split_loop: "concat (split_loop current bs) = current @ bs"
  by (induction current bs rule: split_loop.induct) simp_all

lemma split_loop_no_empty: "[] \<notin> set (split_loop current bs)"
  by (induction current bs rule: split_loop.induct) auto

section \<open>Unique anchors\<close>

record occurrence =
  occ_count :: nat
  occ_index :: nat

fun occ_add :: "line \<Rightarrow> nat \<Rightarrow> (line \<times> occurrence) list \<Rightarrow> (line \<times> occurrence) list" where
  "occ_add l i [] = [(l, \<lparr>occ_count = 1, occ_index = i\<rparr>)]"
| "occ_add l i ((k, oc) # m) =
    (if k = l then (k, oc\<lparr>occ_count := occ_count oc + 1\<rparr>) # m else (k, oc) # occ_add l i m)"

text \<open>The \<open>HashMap\<close> is its list of entries; the order of iteration does not matter below.\<close>

definition line_occurrences :: "line list \<Rightarrow> nat \<Rightarrow> (line \<times> occurrence) list" where
  "line_occurrences ls offset =
     fold (\<lambda>(index, l) m. occ_add l (offset + index) m) (enumerate 0 ls) []"

definition unique_pair :: "(line \<times> occurrence) list \<Rightarrow> line \<times> occurrence \<Rightarrow> (nat \<times> nat) option" where
  "unique_pair side_occurrences e =
    (if occ_count (snd e) \<noteq> 1 then None
     else case map_of side_occurrences (fst e) of
       None \<Rightarrow> None
     | Some oc \<Rightarrow> if occ_count oc = 1 then Some (occ_index (snd e), occ_index oc) else None)"

text \<open>\<open>partition_point\<close> on the tails, whose side indices ascend.\<close>

definition partition_point :: "('a \<Rightarrow> bool) \<Rightarrow> 'a list \<Rightarrow> nat" where
  "partition_point P xs = length (takeWhile P xs)"

definition lis_step ::
  "(nat \<times> nat) list \<Rightarrow> nat \<Rightarrow> nat list \<times> nat option list \<Rightarrow> nat list \<times> nat option list" where
  "lis_step anchors index st =
    (let (tails, previous) = st;
         side_index = snd (anchors ! index);
         position = partition_point (\<lambda>t. snd (anchors ! t) < side_index) tails;
         previous' = (if position > 0 then previous[index := Some (tails ! (position - 1))] else previous);
         tails' = (if position = length tails then tails @ [index]
                   else if side_index < snd (anchors ! (tails ! position)) then tails[position := index]
                   else tails)
     in (tails', previous'))"

definition lis_table :: "(nat \<times> nat) list \<Rightarrow> nat list \<times> nat option list" where
  "lis_table anchors =
     fold (lis_step anchors) [0..<length anchors] ([], replicate (length anchors) None)"

text \<open>
  The loop that follows \<open>previous\<close>. Every link points to a smaller index (\<open>lis_table_links\<close>
  below), so the guard, which only makes the recursion visibly end, always holds.
\<close>

function lis_backtrack :: "(nat \<times> nat) list \<Rightarrow> nat option list \<Rightarrow> nat option \<Rightarrow> (nat \<times> nat) list" where
  "lis_backtrack anchors previous None = []"
| "lis_backtrack anchors previous (Some index) =
     anchors ! index #
       (case previous ! index of
          None \<Rightarrow> []
        | Some j \<Rightarrow> if j < index then lis_backtrack anchors previous (Some j) else [])"
  by pat_completeness auto
termination
  by (relation "measure (\<lambda>(_, _, c). case c of None \<Rightarrow> 0 | Some i \<Rightarrow> Suc i)") auto

declare lis_backtrack.simps(2) [simp del]

definition longest_increasing_by_side :: "(nat \<times> nat) list \<Rightarrow> (nat \<times> nat) list" where
  "longest_increasing_by_side anchors =
    (if anchors = [] then []
     else
       let (tails, previous) = lis_table anchors;
           current = (if tails = [] then None else Some (last tails))
       in rev (lis_backtrack anchors previous current))"

definition unique_lis_anchors ::
  "line list \<Rightarrow> nat \<Rightarrow> nat \<Rightarrow> line list \<Rightarrow> nat \<Rightarrow> nat \<Rightarrow> (nat \<times> nat) list" where
  "unique_lis_anchors base base_start base_end side side_start side_end =
    (let base_occurrences = line_occurrences (range_of base base_start base_end) base_start;
         side_occurrences = line_occurrences (range_of side side_start side_end) side_start;
         anchors = List.map_filter (unique_pair side_occurrences) base_occurrences
     in longest_increasing_by_side (sort anchors))"

section \<open>Longest common subsequences\<close>

definition lcs_cell ::
  "line list \<Rightarrow> line list \<Rightarrow> nat \<Rightarrow> nat \<Rightarrow> nat \<Rightarrow> nat \<Rightarrow> nat \<Rightarrow> nat list \<Rightarrow> nat list" where
  "lcs_cell base side base_start side_start width base_offset side_offset lengths =
     lengths[base_offset * width + side_offset :=
       (if base ! (base_start + base_offset) = side ! (side_start + side_offset)
        then 1 + lengths ! ((base_offset + 1) * width + side_offset + 1)
        else max (lengths ! ((base_offset + 1) * width + side_offset))
               (lengths ! (base_offset * width + side_offset + 1)))]"

definition lcs_row ::
  "line list \<Rightarrow> line list \<Rightarrow> nat \<Rightarrow> nat \<Rightarrow> nat \<Rightarrow> nat \<Rightarrow> nat list \<Rightarrow> nat list" where
  "lcs_row base side base_start side_start side_len base_offset lengths =
     fold (lcs_cell base side base_start side_start (side_len + 1) base_offset) (rev [0..<side_len]) lengths"

definition lcs_table :: "line list \<Rightarrow> line list \<Rightarrow> nat \<Rightarrow> nat \<Rightarrow> nat \<Rightarrow> nat \<Rightarrow> nat list" where
  "lcs_table base side base_start side_start base_len side_len =
     fold (lcs_row base side base_start side_start side_len) (rev [0..<base_len])
       (replicate ((base_len + 1) * (side_len + 1)) 0)"

function lcs_walk ::
  "line list \<Rightarrow> line list \<Rightarrow> nat \<Rightarrow> nat \<Rightarrow> nat \<Rightarrow> nat \<Rightarrow> nat list \<Rightarrow> nat \<Rightarrow> nat \<Rightarrow> (nat \<times> nat) list" where
  "lcs_walk base side base_start side_start base_len side_len lengths base_offset side_offset =
    (if base_offset < base_len \<and> side_offset < side_len then
       if base ! (base_start + base_offset) = side ! (side_start + side_offset)
       then (base_start + base_offset, side_start + side_offset) #
         lcs_walk base side base_start side_start base_len side_len lengths (base_offset + 1) (side_offset + 1)
       else if lengths ! ((base_offset + 1) * (side_len + 1) + side_offset)
             \<ge> lengths ! (base_offset * (side_len + 1) + side_offset + 1)
       then lcs_walk base side base_start side_start base_len side_len lengths (base_offset + 1) side_offset
       else lcs_walk base side base_start side_start base_len side_len lengths base_offset (side_offset + 1)
     else [])"
  by pat_completeness auto
termination
  by (relation "measure (\<lambda>(_, _, _, _, bl, sl, _, bo, so). (bl - bo) + (sl - so))") auto

declare lcs_walk.simps [simp del]

definition lcs_too_large :: "nat \<Rightarrow> nat \<Rightarrow> bool" where
  "lcs_too_large base_len side_len \<longleftrightarrow>
     base_len * side_len \<ge> USIZE_LIMIT \<or> base_len * side_len > MAX_LCS_CELLS"

definition collect_lcs_matches ::
  "line list \<Rightarrow> line list \<Rightarrow> nat \<Rightarrow> nat \<Rightarrow> nat \<Rightarrow> nat \<Rightarrow> (nat \<times> nat) list" where
  "collect_lcs_matches base side base_start base_end side_start side_end =
    (let base_len = base_end - base_start; side_len = side_end - side_start
     in if base_len = 0 \<or> side_len = 0 then []
        else if lcs_too_large base_len side_len then []
        else lcs_walk base side base_start side_start base_len side_len
               (lcs_table base side base_start side_start base_len side_len) 0 0)"

lemma lcs_too_large_code [code]:
  "lcs_too_large base_len side_len \<longleftrightarrow> int base_len * int side_len > 4000000"
proof -
  have "int base_len * int side_len > 4000000 \<longleftrightarrow> base_len * side_len > 4000000"
    by (simp flip: of_nat_mult)
  then show ?thesis by (auto simp: lcs_too_large_def MAX_LCS_CELLS_def USIZE_LIMIT_def)
qed

section \<open>Patience matching\<close>

function match_prefix ::
  "line list \<Rightarrow> line list \<Rightarrow> nat \<Rightarrow> nat \<Rightarrow> nat \<Rightarrow> nat \<Rightarrow> (nat \<times> nat) list \<times> nat \<times> nat" where
  "match_prefix base side left_base base_end left_side side_end =
    (if left_base < base_end \<and> left_side < side_end \<and> base ! left_base = side ! left_side
     then (case match_prefix base side (left_base + 1) base_end (left_side + 1) side_end of
             (ms, lb, ls) \<Rightarrow> ((left_base, left_side) # ms, lb, ls))
     else ([], left_base, left_side))"
  by pat_completeness auto
termination
  by (relation "measure (\<lambda>(_, _, lb, be, _, _). be - lb)") auto

function match_suffix ::
  "line list \<Rightarrow> line list \<Rightarrow> nat \<Rightarrow> nat \<Rightarrow> nat \<Rightarrow> nat \<Rightarrow> (nat \<times> nat) list \<times> nat \<times> nat" where
  "match_suffix base side left_base right_base left_side right_side =
    (if left_base < right_base \<and> left_side < right_side \<and>
        base ! (right_base - 1) = side ! (right_side - 1)
     then (case match_suffix base side left_base (right_base - 1) left_side (right_side - 1) of
             (ms, rb, rs) \<Rightarrow> ((right_base - 1, right_side - 1) # ms, rb, rs))
     else ([], right_base, right_side))"
  by pat_completeness auto
termination
  by (relation "measure (\<lambda>(_, _, _, rb, _, _). rb)") auto

declare match_prefix.simps [simp del] match_suffix.simps [simp del]

text \<open>The gaps between anchors: current base, anchor base, current side, anchor side, the anchor.\<close>

fun segments ::
  "nat \<Rightarrow> nat \<Rightarrow> (nat \<times> nat) list \<Rightarrow> nat \<Rightarrow> nat \<Rightarrow> (nat \<times> nat \<times> nat \<times> nat \<times> (nat \<times> nat) list) list" where
  "segments current_base current_side [] right_base right_side =
     [(current_base, right_base, current_side, right_side, [])]"
| "segments current_base current_side ((ab, as) # anchors) right_base right_side =
     (current_base, ab, current_side, as, [(ab, as)]) #
       segments (ab + 1) (as + 1) anchors right_base right_side"

section \<open>Anchors lie in their ranges\<close>

definition occ_ok :: "line list \<Rightarrow> nat \<Rightarrow> (line \<times> occurrence) list \<Rightarrow> bool" where
  "occ_ok ls offset m \<longleftrightarrow> distinct (map fst m) \<and>
     (\<forall>(l, oc) \<in> set m. offset \<le> occ_index oc \<and> occ_index oc < offset + length ls \<and>
        ls ! (occ_index oc - offset) = l)"

lemma occ_add_keys: "fst ` set (occ_add l i m) = insert l (fst ` set m)"
  by (induction l i m rule: occ_add.induct) auto

lemma occ_add_distinct: "distinct (map fst m) \<Longrightarrow> distinct (map fst (occ_add l i m))"
proof (induction l i m rule: occ_add.induct)
  case (2 l i k oc m)
  have "set (map fst (occ_add l i m)) = insert l (fst ` set m)"
    using occ_add_keys [of l i m] by simp
  with 2 show ?case by auto
qed simp

lemma occ_add_entries:
  "(k, oc) \<in> set (occ_add l i m) \<Longrightarrow>
     (\<exists>oc'. (k, oc') \<in> set m \<and> occ_index oc' = occ_index oc) \<or> k = l \<and> occ_index oc = i"
  by (induction l i m rule: occ_add.induct) (auto split: if_splits)

lemma occ_okD:
  "occ_ok ls offset m \<Longrightarrow> (l, oc) \<in> set m \<Longrightarrow> offset \<le> occ_index oc \<and> occ_index oc < offset + length ls \<and>
     ls ! (occ_index oc - offset) = l"
  unfolding occ_ok_def by blast

lemma occ_ok_add:
  assumes "occ_ok ls offset m" and "index < length ls" and "ls ! index = l"
  shows "occ_ok ls offset (occ_add l (offset + index) m)"
proof -
  have "offset \<le> occ_index oc \<and> occ_index oc < offset + length ls \<and> ls ! (occ_index oc - offset) = k"
    if "(k, oc) \<in> set (occ_add l (offset + index) m)" for k oc
    using occ_add_entries [OF that]
  proof (elim disjE exE conjE)
    fix oc'
    assume "(k, oc') \<in> set m" and "occ_index oc' = occ_index oc"
    then show ?thesis using occ_okD [OF assms(1)] by metis
  qed (use assms(2,3) in simp)
  moreover have "distinct (map fst (occ_add l (offset + index) m))"
    using assms(1) by (simp add: occ_ok_def occ_add_distinct)
  ultimately show ?thesis unfolding occ_ok_def by blast
qed

lemma occ_ok_fold:
  "occ_ok ls offset m \<Longrightarrow> n + length xs = length ls \<Longrightarrow> drop n ls = xs \<Longrightarrow>
     occ_ok ls offset (fold (\<lambda>(index, l) m. occ_add l (offset + index) m) (enumerate n xs) m)"
proof (induction xs arbitrary: n m)
  case (Cons x xs)
  have "ls ! n = x" "drop (Suc n) ls = xs"
    using Cons.prems(2,3) by (simp_all add: nth_via_drop) (metis drop_Suc tl_drop list.sel(3))
  then show ?case
    using Cons.IH [of "occ_add x (offset + n) m" "Suc n"] occ_ok_add [OF Cons.prems(1), of n x] Cons.prems(2)
    by (simp add: enumerate_Suc_eq)
qed simp

lemma line_occurrences_ok: "occ_ok ls offset (line_occurrences ls offset)"
  unfolding line_occurrences_def by (rule occ_ok_fold) (simp_all add: occ_ok_def)

text \<open>
  \<open>matching_in base side bs be ss se ms\<close>: the pairs ascend strictly in both components, lie in the
  two ranges and join equal lines.
\<close>

definition both_less :: "nat \<times> nat \<Rightarrow> nat \<times> nat \<Rightarrow> bool" where
  "both_less p q \<longleftrightarrow> fst p < fst q \<and> snd p < snd q"

lemma both_less_trans: "both_less p q \<Longrightarrow> both_less q r \<Longrightarrow> both_less p r"
  by (auto simp: both_less_def)

definition matching_in ::
  "line list \<Rightarrow> line list \<Rightarrow> nat \<Rightarrow> nat \<Rightarrow> nat \<Rightarrow> nat \<Rightarrow> (nat \<times> nat) list \<Rightarrow> bool" where
  "matching_in base side bs be ss se ms \<longleftrightarrow> sorted_wrt both_less ms \<and>
     (\<forall>(b, s) \<in> set ms. bs \<le> b \<and> b < be \<and> ss \<le> s \<and> s < se \<and> base ! b = side ! s)"

definition anchors_ok ::
  "line list \<Rightarrow> line list \<Rightarrow> nat \<Rightarrow> nat \<Rightarrow> nat \<Rightarrow> nat \<Rightarrow> (nat \<times> nat) list \<Rightarrow> bool" where
  "anchors_ok base side bs be ss se as \<longleftrightarrow> sorted_wrt (<) (map fst as) \<and>
     (\<forall>(b, s) \<in> set as. bs \<le> b \<and> b < be \<and> ss \<le> s \<and> s < se \<and> base ! b = side ! s)"

lemma nth_range_of: "i < j - bs \<Longrightarrow> j \<le> length xs \<Longrightarrow> range_of xs bs j ! i = xs ! (bs + i)"
  by (simp add: range_of_def)

lemma unique_pair_in:
  assumes oc: "occ_ok (range_of base bs be) bs bo" "occ_ok (range_of side ss se) ss so"
    and le: "be \<le> length base" "se \<le> length side"
    and e: "e \<in> set bo" and p: "unique_pair so e = Some (b, s)"
  shows "bs \<le> b \<and> b < be \<and> ss \<le> s \<and> s < se \<and> base ! b = fst e \<and> side ! s = fst e"
proof -
  obtain l o1 where e1: "e = (l, o1)" by fastforce
  from p e1 obtain o2 where o2: "map_of so l = Some o2" and b: "b = occ_index o1" and s: "s = occ_index o2"
    by (auto simp: unique_pair_def split: if_splits option.splits)
  have "(l, o2) \<in> set so" using o2 by (rule map_of_SomeD)
  then have side: "ss \<le> s" "s < ss + length (range_of side ss se)" "range_of side ss se ! (s - ss) = l"
    using occ_okD [OF oc(2)] s by blast+
  have base: "bs \<le> b" "b < bs + length (range_of base bs be)" "range_of base bs be ! (b - bs) = l"
    using occ_okD [OF oc(1)] e b e1 by blast+
  show ?thesis
    using side base le nth_range_of [of "s - ss" se ss side] nth_range_of [of "b - bs" be bs base]
    by (auto simp: length_range_of e1)
qed

lemma unique_anchors_ok:
  assumes "be \<le> length base" "se \<le> length side"
  shows "anchors_ok base side bs be ss se (sort (List.map_filter
    (unique_pair (line_occurrences (range_of side ss se) ss)) (line_occurrences (range_of base bs be) bs)))"
proof -
  let ?bo = "line_occurrences (range_of base bs be) bs" and ?so = "line_occurrences (range_of side ss se) ss"
  let ?as = "List.map_filter (unique_pair ?so) ?bo"
  note inr = unique_pair_in [OF line_occurrences_ok [of "range_of base bs be" bs]
      line_occurrences_ok [of "range_of side ss se" ss] assms]
  have range: "bs \<le> b \<and> b < be \<and> ss \<le> s \<and> s < se \<and> base ! b = side ! s" if "(b, s) \<in> set ?as" for b s
    using that inr by (fastforce simp: map_filter_def)
  have "distinct (map fst xs) \<Longrightarrow> set xs \<subseteq> set ?bo \<Longrightarrow>
      distinct (map fst (List.map_filter (unique_pair ?so) xs))" for xs
  proof (induction xs)
    case (Cons x xs)
    show ?case
    proof (cases "unique_pair ?so x")
      case (Some p)
      obtain b s where p: "p = (b, s)" by fastforce
      have b: "base ! b = fst x" using inr [of x b s] Cons.prems(2) Some p by simp
      have ne: "b \<noteq> b'" if "(b', s') \<in> set (List.map_filter (unique_pair ?so) xs)" for b' s'
      proof -
        from that obtain y where y: "y \<in> set xs" "unique_pair ?so y = Some (b', s')"
          by (auto simp: map_filter_def)
        have "base ! b' = fst y" using inr [of y b' s'] Cons.prems(2) y by auto
        moreover have "fst y \<noteq> fst x" using Cons.prems(1) y(1) by (metis distinct.simps(2) image_eqI list.map(2) set_map)
        ultimately show ?thesis using b by auto
      qed
      then have "b \<notin> fst ` set (List.map_filter (unique_pair ?so) xs)"
        using ne by (metis imageE prod.collapse)
      then show ?thesis using Cons Some p by (simp add: map_filter_simps)
    qed (use Cons in \<open>simp add: map_filter_simps\<close>)
  qed (simp add: map_filter_simps)
  then have "distinct (map fst ?as)"
    using line_occurrences_ok by (simp add: occ_ok_def)
  then have d: "distinct (map fst (sort ?as))"
    by (metis distinct_map distinct_sort set_sort)
  have "sorted (map fst (sort ?as))"
    by (rule sorted_map_mono [OF sorted_sort]) (auto simp: mono_on_def less_eq_prod_def)
  then show ?thesis
    using d range by (auto simp: anchors_ok_def sorted_wrt_less_iff)
qed

section \<open>The longest increasing subsequence\<close>

definition lis_inv :: "(nat \<times> nat) list \<Rightarrow> nat \<Rightarrow> nat list \<times> nat option list \<Rightarrow> bool" where
  "lis_inv anchors n st \<longleftrightarrow>
    (let (tails, previous) = st in
     length previous = length anchors \<and> (\<forall>t \<in> set tails. t < n) \<and>
     sorted_wrt (<) (map (\<lambda>t. snd (anchors ! t)) tails) \<and> (0 < n \<longrightarrow> tails \<noteq> []) \<and>
     (\<forall>i j. i < length anchors \<longrightarrow> previous ! i = Some j \<longrightarrow>
        j < i \<and> i < n \<and> snd (anchors ! j) < snd (anchors ! i)))"

lemma sorted_wrt_list_update:
  assumes "sorted_wrt (<) (xs :: nat list)" and "p < length xs"
    and "\<And>q. q < p \<Longrightarrow> xs ! q < x" and "\<And>q. p < q \<Longrightarrow> q < length xs \<Longrightarrow> x < xs ! q"
  shows "sorted_wrt (<) (xs[p := x])"
  unfolding sorted_wrt_iff_nth_less
proof (intro allI impI)
  fix i j
  assume "i < j" "j < length (xs[p := x])"
  then show "xs[p := x] ! i < xs[p := x] ! j"
    using assms by (auto simp: sorted_wrt_iff_nth_less nth_list_update)
qed

lemma partition_point_less: "q < partition_point P xs \<Longrightarrow> P (xs ! q)"
  unfolding partition_point_def by (metis nth_mem set_takeWhileD takeWhile_nth)

lemma partition_point_le: "partition_point P xs \<le> length xs"
  unfolding partition_point_def by (rule length_takeWhile_le)

lemma partition_point_stop: "partition_point P xs < length xs \<Longrightarrow> \<not> P (xs ! partition_point P xs)"
  unfolding partition_point_def by (rule nth_length_takeWhile)

lemma lis_step_inv:
  assumes inv: "lis_inv anchors n st" and n: "n < length anchors"
  shows "lis_inv anchors (Suc n) (lis_step anchors n st)"
proof -
  obtain tails previous where st: "st = (tails, previous)" by fastforce
  let ?key = "\<lambda>t. snd (anchors ! t)"
  define side where "side = snd (anchors ! n)"
  define pos where "pos = partition_point (\<lambda>t. ?key t < side) tails"
  have len: "length previous = length anchors" and lt: "\<forall>t \<in> set tails. t < n"
      and srt: "sorted_wrt (<) (map ?key tails)"
      and links: "\<And>i j. i < length anchors \<Longrightarrow> previous ! i = Some j \<Longrightarrow> j < i \<and> i < n \<and> ?key j < ?key i"
    using inv by (auto simp: lis_inv_def st)
  have le: "pos \<le> length tails" and below: "\<And>q. q < pos \<Longrightarrow> ?key (tails ! q) < side"
    using partition_point_less [of _ "\<lambda>t. ?key t < side" tails]
      partition_point_le [of "\<lambda>t. ?key t < side" tails] by (simp_all add: pos_def)
  let ?prev = "if pos > 0 then previous[n := Some (tails ! (pos - 1))] else previous"
  let ?tails = "if pos = length tails then tails @ [n]
    else if side < ?key (tails ! pos) then tails[pos := n] else tails"
  have prev: "j < i \<and> i < Suc n \<and> ?key j < ?key i" if "i < length anchors" "?prev ! i = Some j" for i j
  proof (cases "i = n \<and> pos > 0")
    case True
    then have "j = tails ! (pos - 1)" using that n len by simp
    moreover have "pos - 1 < pos" "pos - 1 < length tails" using True le by linarith+
    ultimately show ?thesis
      using lt below [of "pos - 1"] True by (simp add: side_def)
  next
    case False
    then have "previous ! i = Some j" using that n len by (auto split: if_splits)
    then show ?thesis using links that(1) by force
  qed
  have tails: "sorted_wrt (<) (map ?key ?tails)"
  proof (cases "pos = length tails")
    case True
    have "?key t < side" if "t \<in> set tails" for t
      using that below True by (auto simp: in_set_conv_nth)
    then show ?thesis using srt True by (auto simp: sorted_wrt_append side_def)
  next
    case False
    then have pos: "pos < length tails" using le by simp
    show ?thesis
    proof (cases "side < ?key (tails ! pos)")
      case True
      have "sorted_wrt (<) ((map ?key tails)[pos := side])"
      proof (rule sorted_wrt_list_update [OF srt])
        fix q
        assume "pos < q" and "q < length (map ?key tails)"
        then have "?key (tails ! pos) < ?key (tails ! q)"
          using srt by (simp add: sorted_wrt_iff_nth_less)
        then show "side < map ?key tails ! q" using True \<open>q < _\<close> by simp
      qed (use pos below in auto)
      then show ?thesis using False True by (simp add: map_update side_def)
    qed (use srt False in simp)
  qed
  have "\<forall>t \<in> set ?tails. t < Suc n" "?tails \<noteq> []"
    using lt le by (auto dest!: set_update_subset_insert [THEN subsetD] split: if_splits)
  moreover have "length ?prev = length anchors" using len by simp
  moreover have "lis_step anchors n st = (?tails, ?prev)"
    by (simp add: lis_step_def st Let_def side_def pos_def)
  ultimately show ?thesis
    using tails prev unfolding lis_inv_def Let_def by (simp only: prod.case) blast
qed

lemma lis_table_inv: "lis_inv anchors (length anchors) (lis_table anchors)"
proof -
  have "n \<le> length anchors \<Longrightarrow>
      lis_inv anchors n (fold (lis_step anchors) [0..<n] ([], replicate (length anchors) None))" for n
    by (induction n) (simp add: lis_inv_def, simp add: lis_step_inv)
  then show ?thesis by (simp add: lis_table_def)
qed

lemma lis_table_links:
  "lis_table anchors = (tails, previous) \<Longrightarrow> i < length anchors \<Longrightarrow> previous ! i = Some j \<Longrightarrow>
     j < i \<and> snd (anchors ! j) < snd (anchors ! i)"
  using lis_table_inv [of anchors] by (auto simp: lis_inv_def)

lemma lis_backtrack_chain:
  assumes links: "\<And>i j. i < length anchors \<Longrightarrow> previous ! i = Some j \<Longrightarrow> j < i \<and> snd (anchors ! j) < snd (anchors ! i)"
    and fsts: "sorted_wrt (<) (map fst anchors)"
  shows "i < length anchors \<Longrightarrow>
    sorted_wrt (\<lambda>p q. both_less q p) (lis_backtrack anchors previous (Some i)) \<and>
    set (lis_backtrack anchors previous (Some i)) \<subseteq> set anchors \<and>
    (\<forall>p \<in> set (lis_backtrack anchors previous (Some i)). p = anchors ! i \<or> both_less p (anchors ! i))"
proof (induction i rule: less_induct)
  case (less i)
  show ?case
  proof (cases "previous ! i")
    case (Some j)
    have j: "j < i" "snd (anchors ! j) < snd (anchors ! i)" "j < length anchors"
      using links [OF less.prems Some] less.prems by auto
    have "fst (anchors ! j) < fst (anchors ! i)"
      using fsts j less.prems by (simp add: sorted_wrt_iff_nth_less)
    then have lessji: "both_less (anchors ! j) (anchors ! i)" using j by (simp add: both_less_def)
    let ?rest = "lis_backtrack anchors previous (Some j)"
    have run: "lis_backtrack anchors previous (Some i) = anchors ! i # ?rest"
      using Some j(1) by (simp add: lis_backtrack.simps(2) [of _ _ i])
    have rest: "both_less p (anchors ! i)" if "p \<in> set ?rest" for p
      using less.IH [OF j(1,3)] that lessji both_less_trans [OF _ lessji] by metis
    show ?thesis
      unfolding run using less.IH [OF j(1,3)] rest less.prems by simp
  qed (use less.prems in \<open>simp add: lis_backtrack.simps(2) [of _ _ i]\<close>)
qed

lemma longest_increasing_ok:
  assumes "sorted_wrt (<) (map fst anchors)"
  shows "sorted_wrt both_less (longest_increasing_by_side anchors)"
    and "set (longest_increasing_by_side anchors) \<subseteq> set anchors"
proof -
  obtain tails previous where tab: "lis_table anchors = (tails, previous)" by fastforce
  have "sorted_wrt both_less (longest_increasing_by_side anchors) \<and>
      set (longest_increasing_by_side anchors) \<subseteq> set anchors"
  proof (cases "anchors = []")
    case False
    then have "tails \<noteq> []" "last tails < length anchors"
      using lis_table_inv [of anchors] tab by (auto simp: lis_inv_def)
    then show ?thesis
      using lis_backtrack_chain [OF lis_table_links [OF tab] assms, where i = "last tails"] False tab
      by (simp add: longest_increasing_by_side_def sorted_wrt_rev)
  qed (simp add: longest_increasing_by_side_def)
  then show "sorted_wrt both_less (longest_increasing_by_side anchors)"
      "set (longest_increasing_by_side anchors) \<subseteq> set anchors" by simp_all
qed

lemma unique_lis_anchors_matching:
  assumes "be \<le> length base" "se \<le> length side"
  shows "matching_in base side bs be ss se (unique_lis_anchors base bs be side ss se)"
proof -
  note ok = unique_anchors_ok [OF assms, of bs ss]
  have "sorted_wrt (<) (map fst (sort (List.map_filter
      (unique_pair (line_occurrences (range_of side ss se) ss)) (line_occurrences (range_of base bs be) bs))))"
    using ok by (simp add: anchors_ok_def)
  from longest_increasing_ok [OF this] ok show ?thesis
    by (auto simp: matching_in_def anchors_ok_def unique_lis_anchors_def Let_def)
qed

section \<open>The recursion of the patience matching\<close>

lemma longest_increasing_subset: "set (longest_increasing_by_side anchors) \<subseteq> set anchors"
proof (cases "anchors = []")
  case False
  obtain tails previous where tab: "lis_table anchors = (tails, previous)" by fastforce
  have "i < length anchors \<Longrightarrow> set (lis_backtrack anchors previous (Some i)) \<subseteq> set anchors" for i
  proof (induction i rule: less_induct)
    case (less i)
    then show ?case
      by (auto simp: lis_backtrack.simps(2) [of _ _ i] split: option.splits if_splits)
  qed
  moreover have "tails \<noteq> []" "last tails < length anchors"
    using lis_table_inv [of anchors] tab False by (auto simp: lis_inv_def)
  ultimately show ?thesis using False tab by (simp add: longest_increasing_by_side_def)
qed (simp add: longest_increasing_by_side_def)

lemma unique_lis_anchors_range:
  assumes "(b, s) \<in> set (unique_lis_anchors base bs be side ss se)"
  shows "bs \<le> b \<and> b < be"
proof -
  let ?bo = "line_occurrences (range_of base bs be) bs"
  have "(b, s) \<in> set (List.map_filter (unique_pair (line_occurrences (range_of side ss se) ss)) ?bo)"
    using assms longest_increasing_subset unfolding unique_lis_anchors_def Let_def
    by (metis (no_types, lifting) set_sort subsetD)
  then obtain l oc where "(l, oc) \<in> set ?bo" "b = occ_index oc"
    by (auto simp: map_filter_def unique_pair_def split: if_splits option.splits)
  then have "bs \<le> b" "b < bs + length (range_of base bs be)"
    using occ_okD [OF line_occurrences_ok] by blast+
  then show ?thesis by (auto simp: range_of_def)
qed

lemma match_prefix_bounds:
  "match_prefix base side lb be ls se = (ms, lb', ls') \<Longrightarrow> lb \<le> lb' \<and> ls \<le> ls' \<and>
     (lb' \<le> be \<or> lb' = lb) \<and> (ls' \<le> se \<or> ls' = ls)"
proof (induction base side lb be ls se arbitrary: ms lb' ls' rule: match_prefix.induct)
  case (1 base side lb be ls se)
  then show ?case
    by (subst (asm) match_prefix.simps) (fastforce split: if_splits prod.splits)
qed

lemma match_suffix_bounds:
  "match_suffix base side lb rb ls rs = (ms, rb', rs') \<Longrightarrow> rb' \<le> rb \<and> rs' \<le> rs \<and>
     (lb \<le> rb' \<or> rb' = rb) \<and> (ls \<le> rs' \<or> rs' = rs)"
proof (induction base side lb rb ls rs arbitrary: ms rb' rs' rule: match_suffix.induct)
  case (1 base side lb rb ls rs)
  then show ?case
    by (subst (asm) match_suffix.simps) (fastforce split: if_splits prod.splits)
qed

lemma segments_shrink:
  "(cb, ab, cs, as, a) \<in> set (segments c d anchors rb rs) \<Longrightarrow>
     (\<And>b s. (b, s) \<in> set anchors \<Longrightarrow> lb \<le> b \<and> b < rb) \<Longrightarrow> lb \<le> c \<Longrightarrow> lb < rb \<Longrightarrow> anchors \<noteq> [] \<or> lb < c \<Longrightarrow>
     ab - cb < rb - lb"
proof (induction c d anchors rb rs rule: segments.induct)
  case (2 c d b s anchors rb rs)
  have b: "lb \<le> b" "b < rb" using "2.prems"(2) [of b s] by simp_all
  show ?case
  proof (cases "(cb, ab, cs, as, a) = (c, b, d, s, [(b, s)])")
    case True
    then show ?thesis using b "2.prems"(3) by auto
  next
    case False
    then have "(cb, ab, cs, as, a) \<in> set (segments (b + 1) (s + 1) anchors rb rs)"
      using "2.prems"(1) by auto
    then show ?thesis
      using "2.IH" "2.prems"(2,4) b by force
  qed
qed auto

lemma patience_gap_shrinks:
  assumes "(pre, lb, ls) = match_prefix base side bs be ss se"
    and "(suf, rb, rs) = match_suffix base side lb be ls se"
    and "unique_lis_anchors base lb rb side ls rs \<noteq> []"
    and "(cb, ab, cs, as, a) \<in> set (segments lb ls (unique_lis_anchors base lb rb side ls rs) rb rs)"
    and "lb < rb"
  shows "ab - cb < be - bs"
proof -
  have "bs \<le> lb" "rb \<le> be"
    using match_prefix_bounds [OF assms(1) [symmetric]] match_suffix_bounds [OF assms(2) [symmetric]] by simp_all
  moreover have "ab - cb < rb - lb"
    using segments_shrink [OF assms(4), of lb] unique_lis_anchors_range assms(3,5) by blast
  ultimately show ?thesis by linarith
qed

function collect_patience_matches ::
  "line list \<Rightarrow> line list \<Rightarrow> nat \<Rightarrow> nat \<Rightarrow> nat \<Rightarrow> nat \<Rightarrow> (nat \<times> nat) list" where
  "collect_patience_matches base side base_start base_end side_start side_end =
    (case match_prefix base side base_start base_end side_start side_end of
       (pre_ms, left_base, left_side) \<Rightarrow>
     case match_suffix base side left_base base_end left_side side_end of
       (suf_ms, right_base, right_side) \<Rightarrow>
         pre_ms @
         (if left_base < right_base \<and> left_side < right_side then
            let anchors = unique_lis_anchors base left_base right_base side left_side right_side
            in if anchors = []
               then collect_lcs_matches base side left_base right_base left_side right_side
               else concat (map (\<lambda>(cb, ab, cs, as, anchor).
                      collect_patience_matches base side cb ab cs as @ anchor)
                    (segments left_base left_side anchors right_base right_side))
          else []) @
         rev suf_ms)"
  by pat_completeness auto
termination
  by (relation "measure (\<lambda>(_, _, bs, be, _, _). be - bs)") (auto intro: patience_gap_shrinks)

declare collect_patience_matches.simps [simp del]

definition matching_pairs :: "line list \<Rightarrow> line list \<Rightarrow> (nat \<times> nat) list" where
  "matching_pairs base side =
     sort (collect_patience_matches base side 0 (length base) 0 (length side))"

text \<open>The loop of \<open>edit_regions\<close> over the matches, and the region after the last match.\<close>

fun edit_loop :: "line list \<Rightarrow> line list \<Rightarrow> nat \<Rightarrow> nat \<Rightarrow> (nat \<times> nat) list \<Rightarrow> edit_region list" where
  "edit_loop base side base_cursor side_cursor [] =
    (if base_cursor \<noteq> length base \<or> side_cursor \<noteq> length side
     then [edit_region_new base_cursor (length base) (range_of side side_cursor (length side))] else [])"
| "edit_loop base side base_cursor side_cursor ((base_index, side_index) # matches) =
    (if base_cursor \<noteq> base_index \<or> side_cursor \<noteq> side_index
     then [edit_region_new base_cursor base_index (range_of side side_cursor side_index)] else []) @
    edit_loop base side (base_index + 1) (side_index + 1) matches"

definition edit_regions :: "line list \<Rightarrow> line list \<Rightarrow> edit_region list" where
  "edit_regions base side = edit_loop base side 0 0 (matching_pairs base side)"

end
