(* ===== verification/Era_Merge.thy ===== *)
theory Era_Merge
  imports Line_Diff "HOL-Library.Monad_Syntax"
begin

text \<open>
  The three-way merge of \<open>crates/merge/src/lib.rs\<close>: the input and result types, the engine with its
  list of strategies, and the line strategy, whose loop walks the edit regions of both sides. A
  computation that Rust would abort because of a slice out of range has the value \<open>None\<close>; the theory
  \<open>Merge_Correctness\<close> shows that this never happens. A path is the list of its bytes.
\<close>

section \<open>Inputs and results\<close>

record file_merge_input =
  mi_path :: "rstring option"
  mi_base :: "bytes option"
  mi_ours :: "bytes option"
  mi_theirs :: "bytes option"

definition file_merge_input_new ::
  "rstring option \<Rightarrow> bytes option \<Rightarrow> bytes option \<Rightarrow> bytes option \<Rightarrow> file_merge_input" where
  "file_merge_input_new path base ours theirs =
     \<lparr>mi_path = path, mi_base = base, mi_ours = ours, mi_theirs = theirs\<rparr>"

datatype conflict_kind = BothAdded | BothInserted | BothModified | ModifyDelete | Binary | TooLarge | Unsupported

record merge_conflict =
  mc_kind :: conflict_kind
  mc_path :: "rstring option"
  mc_base :: "bytes option"
  mc_ours :: "bytes option"
  mc_theirs :: "bytes option"

definition merge_conflict_new ::
  "conflict_kind \<Rightarrow> rstring option \<Rightarrow> bytes option \<Rightarrow> bytes option \<Rightarrow> bytes option \<Rightarrow> merge_conflict" where
  "merge_conflict_new kind path base ours theirs =
     \<lparr>mc_kind = kind, mc_path = path, mc_base = base, mc_ours = ours, mc_theirs = theirs\<rparr>"

definition whole_file :: "conflict_kind \<Rightarrow> file_merge_input \<Rightarrow> merge_conflict" where
  "whole_file kind input =
     \<lparr>mc_kind = kind, mc_path = mi_path input, mc_base = mi_base input, mc_ours = mi_ours input,
      mc_theirs = mi_theirs input\<rparr>"

datatype merge_hunk = HunkResolved bytes | HunkConflict merge_conflict

datatype merged_file = Present bytes | Deleted

datatype merge_outcome = Resolved merged_file | Conflicted "merge_hunk list"

datatype strategy_merge_result = Merged merge_outcome | StrategyUnsupported rstring

record merge_result =
  mr_strategy :: rstring
  mr_outcome :: merge_outcome

definition merge_result_new :: "rstring \<Rightarrow> merge_outcome \<Rightarrow> merge_result" where
  "merge_result_new strategy outcome = \<lparr>mr_strategy = strategy, mr_outcome = outcome\<rparr>"

definition is_resolved :: "merge_result \<Rightarrow> bool" where
  "is_resolved r \<longleftrightarrow> (case mr_outcome r of Resolved _ \<Rightarrow> True | Conflicted _ \<Rightarrow> False)"

definition resolved_file :: "merge_result \<Rightarrow> merged_file option" where
  "resolved_file r = (case mr_outcome r of Resolved f \<Rightarrow> Some f | Conflicted _ \<Rightarrow> None)"

definition resolved_bytes :: "merge_result \<Rightarrow> bytes option" where
  "resolved_bytes r = (case resolved_file r of Some (Present bs) \<Rightarrow> Some bs | Some Deleted \<Rightarrow> None | None \<Rightarrow> None)"

definition conflicts :: "merge_result \<Rightarrow> merge_conflict list" where
  "conflicts r = (case mr_outcome r of
     Resolved _ \<Rightarrow> []
   | Conflicted hunks \<Rightarrow> List.map_filter (\<lambda>h. case h of HunkResolved _ \<Rightarrow> None | HunkConflict c \<Rightarrow> Some c) hunks)"

section \<open>The engine\<close>

text \<open>A trait object \<open>FileMergeStrategy\<close> is the record of its two methods.\<close>

record file_merge_strategy =
  strategy_name :: rstring
  strategy_merge :: "file_merge_input \<Rightarrow> strategy_merge_result option"

record merge_engine =
  strategies :: "file_merge_strategy list"

definition engine_new :: merge_engine where
  "engine_new = \<lparr>strategies = []\<rparr>"

definition with_strategy :: "merge_engine \<Rightarrow> file_merge_strategy \<Rightarrow> merge_engine" where
  "with_strategy engine s = engine\<lparr>strategies := strategies engine @ [s]\<rparr>"

fun try_strategies :: "file_merge_strategy list \<Rightarrow> file_merge_input \<Rightarrow> merge_result option option" where
  "try_strategies [] input = Some None"
| "try_strategies (s # ss) input =
    (case strategy_merge s input of
       None \<Rightarrow> None
     | Some (Merged outcome) \<Rightarrow> Some (Some (merge_result_new (strategy_name s) outcome))
     | Some (StrategyUnsupported _) \<Rightarrow> try_strategies ss input)"

definition engine_merge :: "merge_engine \<Rightarrow> file_merge_input \<Rightarrow> merge_result option" where
  "engine_merge engine input =
    (case try_strategies (strategies engine) input of
       None \<Rightarrow> None
     | Some (Some r) \<Rightarrow> Some r
     | Some None \<Rightarrow> Some (merge_result_new (bstr ''none'') (Conflicted [HunkConflict (whole_file Unsupported input)])))"

section \<open>Hunks\<close>

definition push_resolved_bytes :: "merge_hunk list \<Rightarrow> bytes \<Rightarrow> merge_hunk list" where
  "push_resolved_bytes hunks bs =
    (if bs = [] then hunks
     else if hunks = [] then hunks @ [HunkResolved bs]
     else case last hunks of
       HunkResolved existing \<Rightarrow> butlast hunks @ [HunkResolved (existing @ bs)]
     | HunkConflict _ \<Rightarrow> hunks @ [HunkResolved bs])"

definition push_resolved_lines :: "merge_hunk list \<Rightarrow> line list \<Rightarrow> merge_hunk list" where
  "push_resolved_lines hunks ls =
     (if ls \<noteq> [] then push_resolved_bytes hunks (lines_to_bytes ls) else hunks)"

definition push_conflict ::
  "merge_hunk list \<Rightarrow> conflict_kind \<Rightarrow> rstring option \<Rightarrow> bytes option \<Rightarrow> bytes option \<Rightarrow> bytes option \<Rightarrow>
    merge_hunk list" where
  "push_conflict hunks kind path base ours theirs =
     hunks @ [HunkConflict (merge_conflict_new kind path base ours theirs)]"

fun concat_resolved_hunks :: "merge_hunk list \<Rightarrow> bytes" where
  "concat_resolved_hunks [] = []"
| "concat_resolved_hunks (HunkResolved bs # hunks) = bs @ concat_resolved_hunks hunks"
| "concat_resolved_hunks (HunkConflict _ # hunks) = concat_resolved_hunks hunks"

definition classify_content_conflict :: "bytes \<Rightarrow> bytes \<Rightarrow> bytes \<Rightarrow> conflict_kind" where
  "classify_content_conflict base ours theirs =
    (if base \<noteq> [] \<and> (ours = [] \<or> theirs = []) then ModifyDelete
     else if base = [] then BothInserted
     else BothModified)"

section \<open>Conflict groups\<close>

definition edit_inside_conflict :: "edit_region \<Rightarrow> nat \<Rightarrow> nat \<Rightarrow> bool" where
  "edit_inside_conflict e s t =
    (if s = t then is_insertion e \<and> edit_start e = s
     else if is_insertion e then edit_start e > s \<and> edit_start e < t
     else edit_start e < t \<and> edit_end e > s)"

text \<open>One inner \<open>while\<close> of \<open>conflict_group\<close>: the end, the next index and the \<open>changed\<close> flag.\<close>

function take_inside ::
  "edit_region list \<Rightarrow> nat \<Rightarrow> nat \<Rightarrow> nat \<Rightarrow> bool \<Rightarrow> nat \<times> nat \<times> bool" where
  "take_inside edits conflict_start conflict_end next_edit changed =
    (if next_edit < length edits \<and> edit_inside_conflict (edits ! next_edit) conflict_start conflict_end
     then take_inside edits conflict_start (max conflict_end (edit_end (edits ! next_edit))) (next_edit + 1) True
     else (conflict_end, next_edit, changed))"
  by pat_completeness auto
termination
  by (relation "measure (\<lambda>(es, _, _, k, _). length es - k)") auto

declare take_inside.simps [simp del]

lemma take_inside_advances:
  "take_inside es cs ce k ch = (ce', k', ch') \<Longrightarrow> k \<le> k' \<and> (ch' \<longleftrightarrow> ch \<or> k < k') \<and> (k < k' \<longrightarrow> k' \<le> length es)"
proof (induction es cs ce k ch arbitrary: ce' k' ch' rule: take_inside.induct)
  case (1 es cs ce k ch)
  show ?case
  proof (cases "k < length es \<and> edit_inside_conflict (es ! k) cs ce")
    case True
    then have "take_inside es cs (max ce (edit_end (es ! k))) (k + 1) True = (ce', k', ch')"
      using "1.prems" by (simp add: take_inside.simps [of es cs ce k])
    from "1.IH" [OF True this] True show ?thesis by (cases "k + 1 = k'") auto
  next
    case False
    then show ?thesis using "1.prems" by (auto simp: take_inside.simps [of es cs ce k])
  qed
qed

function group_loop ::
  "edit_region list \<Rightarrow> edit_region list \<Rightarrow> nat \<Rightarrow> nat \<Rightarrow> nat \<Rightarrow> nat \<Rightarrow> nat \<times> nat \<times> nat" where
  "group_loop ours_edits theirs_edits conflict_start conflict_end next_ours next_theirs =
    (case take_inside ours_edits conflict_start conflict_end next_ours False of
       (end1, next_ours', changed1) \<Rightarrow>
     case take_inside theirs_edits conflict_start end1 next_theirs changed1 of
       (end2, next_theirs', changed2) \<Rightarrow>
         if changed2 then group_loop ours_edits theirs_edits conflict_start end2 next_ours' next_theirs'
         else (end2, next_ours', next_theirs'))"
  by pat_completeness auto
termination
proof (relation "measure (\<lambda>(os, ts, _, _, i, j). (length os - i) + (length ts - j))", simp, clarsimp)
  fix os ts cs ce i j end1 i' ch1 end2 j'
  assume "(end1, i', ch1) = take_inside os cs ce i False" "(end2, j', True) = take_inside ts cs end1 j ch1"
  from take_inside_advances [OF this(1) [symmetric]] take_inside_advances [OF this(2) [symmetric]]
  show "length os - i' + (length ts - j') < length os - i + (length ts - j)" by auto
qed

declare group_loop.simps [simp del]

definition conflict_group ::
  "edit_region list \<Rightarrow> nat \<Rightarrow> edit_region list \<Rightarrow> nat \<Rightarrow> nat \<Rightarrow> nat \<Rightarrow> nat \<times> nat \<times> nat" where
  "conflict_group ours_edits ours_start theirs_edits theirs_start conflict_start initial_end =
     group_loop ours_edits theirs_edits conflict_start initial_end ours_start theirs_start"

fun apply_edits_loop ::
  "line list \<Rightarrow> edit_region list \<Rightarrow> nat \<Rightarrow> bytes \<Rightarrow> (nat \<times> bytes) option" where
  "apply_edits_loop base_lines [] cursor output = Some (cursor, output)"
| "apply_edits_loop base_lines (e # es) cursor output = do {
     output' \<leftarrow> (if edit_start e > cursor
       then do { ls \<leftarrow> slice base_lines cursor (edit_start e); Some (output @ lines_to_bytes ls) }
       else Some output);
     apply_edits_loop base_lines es (max cursor (edit_end e)) (output' @ lines_to_bytes (edit_replacement e))
   }"

definition apply_edits_to_range :: "line list \<Rightarrow> edit_region list \<Rightarrow> nat \<Rightarrow> nat \<Rightarrow> bytes option" where
  "apply_edits_to_range base_lines edits s t = do {
     (cursor, output) \<leftarrow> apply_edits_loop base_lines edits s [];
     if cursor < t
     then do { ls \<leftarrow> slice base_lines cursor t; Some (output @ lines_to_bytes ls) }
     else Some output
   }"

section \<open>The line strategy\<close>

definition MAX_TEXT_MERGE_BYTES :: nat where
  "MAX_TEXT_MERGE_BYTES = 8 * 1024 * 1024"

definition exceeds_text_limit :: "bytes \<Rightarrow> bool" where
  "exceeds_text_limit bs \<longleftrightarrow> length bs > MAX_TEXT_MERGE_BYTES"

lemma exceeds_text_limit_code [code]: "exceeds_text_limit bs \<longleftrightarrow> int (length bs) > 8388608"
  by (simp add: exceeds_text_limit_def MAX_TEXT_MERGE_BYTES_def)

definition resolved_present :: "bytes \<Rightarrow> merge_outcome" where
  "resolved_present bs = Resolved (Present bs)"

definition resolved_deleted :: merge_outcome where
  "resolved_deleted = Resolved Deleted"

definition whole_file_conflict :: "conflict_kind \<Rightarrow> file_merge_input \<Rightarrow> merge_outcome" where
  "whole_file_conflict kind input = Conflicted [HunkConflict (whole_file kind input)]"

text \<open>The local variables of the loop in \<open>merge_present_lines\<close>.\<close>

record merge_state =
  ms_hunks :: "merge_hunk list"
  ms_base_pos :: nat
  ms_ours_index :: nat
  ms_theirs_index :: nat
  ms_conflicted :: bool

definition apply_resolved_edit ::
  "line list \<Rightarrow> edit_region \<Rightarrow> merge_hunk list \<Rightarrow> nat \<Rightarrow> (merge_hunk list \<times> nat) option" where
  "apply_resolved_edit base_lines e hunks base_pos = do {
     ls \<leftarrow> slice base_lines base_pos (edit_start e);
     Some (push_resolved_lines (push_resolved_lines hunks ls) (edit_replacement e), edit_end e)
   }"

definition take_ours :: "line list \<Rightarrow> edit_region \<Rightarrow> merge_state \<Rightarrow> merge_state option" where
  "take_ours base_lines e st = do {
     (hunks, base_pos) \<leftarrow> apply_resolved_edit base_lines e (ms_hunks st) (ms_base_pos st);
     Some (st\<lparr>ms_hunks := hunks, ms_base_pos := base_pos, ms_ours_index := ms_ours_index st + 1\<rparr>)
   }"

definition take_theirs :: "line list \<Rightarrow> edit_region \<Rightarrow> merge_state \<Rightarrow> merge_state option" where
  "take_theirs base_lines e st = do {
     (hunks, base_pos) \<leftarrow> apply_resolved_edit base_lines e (ms_hunks st) (ms_base_pos st);
     Some (st\<lparr>ms_hunks := hunks, ms_base_pos := base_pos, ms_theirs_index := ms_theirs_index st + 1\<rparr>)
   }"

definition same_insertion :: "line list \<Rightarrow> rstring option \<Rightarrow> edit_region \<Rightarrow> edit_region \<Rightarrow> merge_state \<Rightarrow> merge_state option" where
  "same_insertion base_lines path ours_edit theirs_edit st = do {
     ls \<leftarrow> slice base_lines (ms_base_pos st) (edit_start ours_edit);
     let hunks = push_resolved_lines (ms_hunks st) ls;
         agree = edit_replacement ours_edit = edit_replacement theirs_edit
     in Some (st\<lparr>
       ms_hunks := (if agree then push_resolved_lines hunks (edit_replacement ours_edit)
          else push_conflict hunks BothInserted path (Some [])
                 (Some (lines_to_bytes (edit_replacement ours_edit)))
                 (Some (lines_to_bytes (edit_replacement theirs_edit)))),
       ms_base_pos := edit_start ours_edit,
       ms_ours_index := ms_ours_index st + 1,
       ms_theirs_index := ms_theirs_index st + 1,
       ms_conflicted := ms_conflicted st \<or> \<not> agree\<rparr>)
   }"

definition overlapping_edits ::
  "line list \<Rightarrow> edit_region list \<Rightarrow> edit_region list \<Rightarrow> rstring option \<Rightarrow> edit_region \<Rightarrow> edit_region \<Rightarrow>
    merge_state \<Rightarrow> merge_state option" where
  "overlapping_edits base_lines ours_edits theirs_edits path ours_edit theirs_edit st =
    (let conflict_start = min (edit_start ours_edit) (edit_start theirs_edit);
         (conflict_end, next_ours, next_theirs) =
           conflict_group ours_edits (ms_ours_index st) theirs_edits (ms_theirs_index st)
             conflict_start (max (edit_end ours_edit) (edit_end theirs_edit))
     in do {
       ls \<leftarrow> slice base_lines (ms_base_pos st) conflict_start;
       ours_group \<leftarrow> slice ours_edits (ms_ours_index st) next_ours;
       ours_bytes \<leftarrow> apply_edits_to_range base_lines ours_group conflict_start conflict_end;
       theirs_group \<leftarrow> slice theirs_edits (ms_theirs_index st) next_theirs;
       theirs_bytes \<leftarrow> apply_edits_to_range base_lines theirs_group conflict_start conflict_end;
       base_range \<leftarrow> slice base_lines conflict_start conflict_end;
       let hunks = push_resolved_lines (ms_hunks st) ls;
           base_bytes = lines_to_bytes base_range;
           agree = ours_bytes = theirs_bytes
       in Some (st\<lparr>
         ms_hunks := (if agree then push_resolved_bytes hunks ours_bytes
            else push_conflict hunks (classify_content_conflict base_bytes ours_bytes theirs_bytes) path
                   (Some base_bytes) (Some ours_bytes) (Some theirs_bytes)),
         ms_base_pos := conflict_end,
         ms_ours_index := next_ours,
         ms_theirs_index := next_theirs,
         ms_conflicted := ms_conflicted st \<or> \<not> agree\<rparr>)
     })"

definition get_edit :: "edit_region list \<Rightarrow> nat \<Rightarrow> edit_region option" where
  "get_edit edits i = (if i < length edits then Some (edits ! i) else None)"

text \<open>The body of the loop, arm by arm.\<close>

definition merge_step ::
  "line list \<Rightarrow> edit_region list \<Rightarrow> edit_region list \<Rightarrow> rstring option \<Rightarrow> merge_state \<Rightarrow> merge_state option" where
  "merge_step base_lines ours_edits theirs_edits path st =
    (case (get_edit ours_edits (ms_ours_index st), get_edit theirs_edits (ms_theirs_index st)) of
       (Some ours_edit, Some theirs_edit) \<Rightarrow>
         if is_insertion ours_edit \<and> is_insertion theirs_edit \<and> edit_start ours_edit = edit_start theirs_edit
         then same_insertion base_lines path ours_edit theirs_edit st
         else if edit_end ours_edit \<le> edit_start theirs_edit then take_ours base_lines ours_edit st
         else if edit_end theirs_edit \<le> edit_start ours_edit then take_theirs base_lines theirs_edit st
         else overlapping_edits base_lines ours_edits theirs_edits path ours_edit theirs_edit st
     | (Some ours_edit, None) \<Rightarrow> take_ours base_lines ours_edit st
     | (None, Some theirs_edit) \<Rightarrow> take_theirs base_lines theirs_edit st
     | (None, None) \<Rightarrow> Some st)"

text \<open>In the overlapping case both edits are inside the group, so the loop advances.\<close>

lemma group_loop_advances:
  assumes "group_loop os ts cs ce i j = (ce', i', j')"
  shows "i \<le> i' \<and> j \<le> j' \<and> (i < length os \<longrightarrow> edit_inside_conflict (os ! i) cs ce \<longrightarrow> i < i')"
  using assms
proof (induction os ts cs ce i j arbitrary: ce' i' j' rule: group_loop.induct)
  case (1 os ts cs ce i j)
  obtain e1 i1 c1 where t1: "take_inside os cs ce i False = (e1, i1, c1)" by (metis prod_cases3)
  obtain e2 j2 c2 where t2: "take_inside ts cs e1 j c1 = (e2, j2, c2)" by (metis prod_cases3)
  note a1 = take_inside_advances [OF t1] and a2 = take_inside_advances [OF t2]
  have first: "i < i1" if "i < length os" "edit_inside_conflict (os ! i) cs ce"
    using t1 that a1 take_inside_advances [of os cs "max ce (edit_end (os ! i))" "i + 1" True]
    by (simp add: take_inside.simps [of os cs ce i])
  have "i1 \<le> i' \<and> j2 \<le> j'"
  proof (cases c2)
    case True
    then have "group_loop os ts cs e2 i1 j2 = (ce', i', j')"
      using "1.prems" t1 t2 by (simp add: group_loop.simps [of os ts cs ce])
    then show ?thesis using "1.IH" [OF t1 [symmetric] refl t2 [symmetric]] True by simp
  next
    case False
    then show ?thesis using "1.prems" t1 t2 by (simp add: group_loop.simps [of os ts cs ce])
  qed
  then show ?case using a1 a2 first by force
qed

lemma overlap_inside:
  assumes "\<not> edit_end oe \<le> edit_start te" "\<not> edit_end te \<le> edit_start oe"
  shows "edit_inside_conflict oe (min (edit_start oe) (edit_start te)) (max (edit_end oe) (edit_end te))"
  using assms by (auto simp: edit_inside_conflict_def is_insertion_def)

lemma merge_step_advances:
  assumes "merge_step base os ts path st = Some st'"
    and "ms_ours_index st < length os \<or> ms_theirs_index st < length ts"
  shows "length os - ms_ours_index st' + (length ts - ms_theirs_index st') <
    length os - ms_ours_index st + (length ts - ms_theirs_index st)"
proof (cases "ms_ours_index st < length os \<and> ms_theirs_index st < length ts \<and>
    \<not> edit_end (os ! ms_ours_index st) \<le> edit_start (ts ! ms_theirs_index st) \<and>
    \<not> edit_end (ts ! ms_theirs_index st) \<le> edit_start (os ! ms_ours_index st)")
  case True
  let ?oe = "os ! ms_ours_index st" and ?te = "ts ! ms_theirs_index st"
  have ni: "\<not> (is_insertion ?oe \<and> is_insertion ?te \<and> edit_start ?oe = edit_start ?te)"
    using True by (auto simp: is_insertion_def)
  obtain ce i' j' where g: "group_loop os ts (min (edit_start ?oe) (edit_start ?te))
      (max (edit_end ?oe) (edit_end ?te)) (ms_ours_index st) (ms_theirs_index st) = (ce, i', j')"
    by (metis prod_cases3)
  have "overlapping_edits base os ts path ?oe ?te st = Some st'"
    using assms(1) True ni by (simp add: merge_step_def get_edit_def)
  then have "ms_ours_index st' = i'" "ms_theirs_index st' = j'"
    by (auto simp: overlapping_edits_def conflict_group_def g Let_def split: bind_splits)
  then show ?thesis
    using group_loop_advances [OF g] overlap_inside [of ?oe ?te] True by auto
qed (use assms in \<open>auto simp: merge_step_def get_edit_def same_insertion_def take_ours_def take_theirs_def
      apply_resolved_edit_def Let_def is_insertion_def split: if_splits bind_splits\<close>)

function merge_loop ::
  "line list \<Rightarrow> edit_region list \<Rightarrow> edit_region list \<Rightarrow> rstring option \<Rightarrow> merge_state \<Rightarrow> merge_state option" where
  "merge_loop base_lines ours_edits theirs_edits path st =
    (if ms_ours_index st < length ours_edits \<or> ms_theirs_index st < length theirs_edits
     then case merge_step base_lines ours_edits theirs_edits path st of
            None \<Rightarrow> None
          | Some st' \<Rightarrow> merge_loop base_lines ours_edits theirs_edits path st'
     else Some st)"
  by pat_completeness auto
termination
  by (relation "measure (\<lambda>(_, os, ts, _, st). length os - ms_ours_index st + (length ts - ms_theirs_index st))")
    (auto dest: merge_step_advances)

declare merge_loop.simps [simp del]

definition merge_present_lines ::
  "file_merge_input \<Rightarrow> bytes \<Rightarrow> bytes \<Rightarrow> bytes \<Rightarrow> merge_outcome option" where
  "merge_present_lines input base ours theirs =
    (if list_ex (\<lambda>bs. 0 \<in> set bs) [base, ours, theirs] then Some (whole_file_conflict Binary input)
     else if list_ex exceeds_text_limit [base, ours, theirs] then Some (whole_file_conflict TooLarge input)
     else do {
       let base_lines = split_lines base;
           ours_edits = edit_regions base_lines (split_lines ours);
           theirs_edits = edit_regions base_lines (split_lines theirs)
       in do {
         st \<leftarrow> merge_loop base_lines ours_edits theirs_edits (mi_path input)
           \<lparr>ms_hunks = [], ms_base_pos = 0, ms_ours_index = 0, ms_theirs_index = 0, ms_conflicted = False\<rparr>;
         ls \<leftarrow> slice base_lines (ms_base_pos st) (length base_lines);
         let hunks = push_resolved_lines (ms_hunks st) ls
         in Some (if ms_conflicted st then Conflicted hunks
                  else Resolved (Present (concat_resolved_hunks hunks)))
       }
     })"

text \<open>The arms of the \<open>match\<close>, ordered by which versions are present.\<close>

definition merge_line_input :: "file_merge_input \<Rightarrow> merge_outcome option" where
  "merge_line_input input =
    (case (mi_base input, mi_ours input, mi_theirs input) of
       (_, None, None) \<Rightarrow> Some resolved_deleted
     | (None, Some ours, Some theirs) \<Rightarrow>
         Some (if ours = theirs then resolved_present ours else whole_file_conflict BothAdded input)
     | (None, Some ours, None) \<Rightarrow> Some (resolved_present ours)
     | (None, None, Some theirs) \<Rightarrow> Some (resolved_present theirs)
     | (Some base, None, Some theirs) \<Rightarrow>
         Some (if base = theirs then resolved_deleted else whole_file_conflict ModifyDelete input)
     | (Some base, Some ours, None) \<Rightarrow>
         Some (if base = ours then resolved_deleted else whole_file_conflict ModifyDelete input)
     | (Some base, Some ours, Some theirs) \<Rightarrow>
         if ours = theirs then Some (resolved_present ours)
         else if base = ours then Some (resolved_present theirs)
         else if base = theirs then Some (resolved_present ours)
         else merge_present_lines input base ours theirs)"

definition line_merge_file :: "file_merge_input \<Rightarrow> merge_outcome option" where
  "line_merge_file input = merge_line_input input"

definition line_merge_strategy :: file_merge_strategy where
  "line_merge_strategy =
     \<lparr>strategy_name = bstr ''line'', strategy_merge = (\<lambda>input. map_option Merged (line_merge_file input))\<rparr>"

definition default_text :: merge_engine where
  "default_text = with_strategy engine_new line_merge_strategy"

definition merge_file :: "file_merge_input \<Rightarrow> merge_result option" where
  "merge_file input = engine_merge default_text input"

end
