(* ===== verification/Diff_Correctness.thy ===== *)
theory Diff_Correctness
  imports Line_Diff "HOL-Library.Sublist"
begin

text \<open>
  What the diff of \<open>crates/merge/src/lib.rs\<close> computes: the matching is a strictly ascending common
  subsequence of the two files, the flat table holds the lengths of longest common subsequences, so
  that a gap within the cell limit is matched optimally, and applying the edit regions to the base
  gives the side.
\<close>

section \<open>Matchings\<close>

lemma matching_in_Nil [simp]: "matching_in base side bs be ss se []"
  by (simp add: matching_in_def)

lemma matching_in_single:
  "matching_in base side bs be ss se [(b, s)] \<longleftrightarrow> bs \<le> b \<and> b < be \<and> ss \<le> s \<and> s < se \<and> base ! b = side ! s"
  by (simp add: matching_in_def)

lemma matching_in_mono:
  "matching_in base side bs be ss se ms \<Longrightarrow> bs' \<le> bs \<Longrightarrow> be \<le> be' \<Longrightarrow> ss' \<le> ss \<Longrightarrow> se \<le> se' \<Longrightarrow>
     matching_in base side bs' be' ss' se' ms"
  unfolding matching_in_def by fastforce

lemma matching_in_append:
  assumes "matching_in base side bs bm ss sm xs" and "matching_in base side bm be sm se ys"
    and "bs \<le> bm" "bm \<le> be" "ss \<le> sm" "sm \<le> se"
  shows "matching_in base side bs be ss se (xs @ ys)"
  using assms unfolding matching_in_def both_less_def by (fastforce simp: sorted_wrt_append)

lemma matching_in_ConsD:
  assumes "matching_in base side bs be ss se ((b, s) # ms)"
  shows "bs \<le> b" "b < be" "ss \<le> s" "s < se" "base ! b = side ! s"
    "matching_in base side (Suc b) be (Suc s) se ms"
  using assms unfolding matching_in_def both_less_def by (fastforce simp: Suc_le_eq)+

lemma matching_in_Cons:
  assumes "bs \<le> b" "b < be" "ss \<le> s" "s < se" "base ! b = side ! s"
    and "matching_in base side (Suc b) be (Suc s) se ms"
  shows "matching_in base side bs be ss se ((b, s) # ms)"
  using matching_in_append [of base side bs "Suc b" ss "Suc s" "[(b, s)]" be se ms] assms
  by (simp add: matching_in_single)

lemma match_prefix_matching:
  "match_prefix base side lb be ls se = (ms, lb', ls') \<Longrightarrow> matching_in base side lb lb' ls ls' ms"
proof (induction base side lb be ls se arbitrary: ms lb' ls' rule: match_prefix.induct)
  case (1 base side lb be ls se)
  show ?case
  proof (cases "lb < be \<and> ls < se \<and> base ! lb = side ! ls")
    case True
    then obtain ms' where rec: "match_prefix base side (lb + 1) be (ls + 1) se = (ms', lb', ls')"
        and ms: "ms = (lb, ls) # ms'"
      using "1.prems" by (subst (asm) match_prefix.simps) (auto split: prod.splits)
    have "Suc lb \<le> lb'" "Suc ls \<le> ls'" using match_prefix_bounds [OF rec] by simp_all
    then show ?thesis
      unfolding ms using "1.IH" [OF True rec] True by (intro matching_in_Cons) simp_all
  next
    case False
    then show ?thesis using "1.prems" by (subst (asm) match_prefix.simps) (auto split: if_splits)
  qed
qed

lemma match_suffix_matching:
  "match_suffix base side lb rb ls rs = (ms, rb', rs') \<Longrightarrow> matching_in base side rb' rb rs' rs (rev ms)"
proof (induction base side lb rb ls rs arbitrary: ms rb' rs' rule: match_suffix.induct)
  case (1 base side lb rb ls rs)
  show ?case
  proof (cases "lb < rb \<and> ls < rs \<and> base ! (rb - 1) = side ! (rs - 1)")
    case True
    then obtain ms' where rec: "match_suffix base side lb (rb - 1) ls (rs - 1) = (ms', rb', rs')"
        and ms: "ms = (rb - 1, rs - 1) # ms'"
      using "1.prems" by (subst (asm) match_suffix.simps) (auto split: prod.splits)
    have "rb' \<le> rb - 1" "rs' \<le> rs - 1" using match_suffix_bounds [OF rec] by simp_all
    then show ?thesis
      unfolding ms rev.simps using "1.IH" [OF True rec] True
      by (intro matching_in_append [where bm = "rb - 1" and sm = "rs - 1"]) (auto simp: matching_in_single)
  next
    case False
    then show ?thesis using "1.prems" by (subst (asm) match_suffix.simps) (auto split: if_splits)
  qed
qed

lemma lcs_walk_matching:
  "matching_in base side (bs + bo) (bs + bl) (ss + so) (ss + sl)
     (lcs_walk base side bs ss bl sl lengths bo so)"
proof (induction base side bs ss bl sl lengths bo so rule: lcs_walk.induct)
  case (1 base side bs ss bl sl lengths bo so)
  show ?case
  proof (cases "bo < bl \<and> so < sl")
    case True
    note IH = "1.IH" [OF True]
    have "matching_in base side (bs + bo) (bs + bl) (ss + so) (ss + sl)
        (lcs_walk base side bs ss bl sl lengths (bo + 1) so)"
      if "base ! (bs + bo) \<noteq> side ! (ss + so)"
        "lengths ! (bo * (sl + 1) + so + 1) \<le> lengths ! ((bo + 1) * (sl + 1) + so)"
      by (rule matching_in_mono [OF IH(2) [OF that]]) simp_all
    moreover have "matching_in base side (bs + bo) (bs + bl) (ss + so) (ss + sl)
        (lcs_walk base side bs ss bl sl lengths bo (so + 1))"
      if "base ! (bs + bo) \<noteq> side ! (ss + so)"
        "\<not> lengths ! (bo * (sl + 1) + so + 1) \<le> lengths ! ((bo + 1) * (sl + 1) + so)"
      by (rule matching_in_mono [OF IH(3) [OF that]]) simp_all
    moreover have "matching_in base side (bs + bo) (bs + bl) (ss + so) (ss + sl)
        ((bs + bo, ss + so) # lcs_walk base side bs ss bl sl lengths (bo + 1) (so + 1))"
      if "base ! (bs + bo) = side ! (ss + so)"
      using IH(1) [OF that] True that by (intro matching_in_Cons) simp_all
    ultimately show ?thesis
      using True by (subst lcs_walk.simps) auto
  qed (subst lcs_walk.simps, auto)
qed

lemma collect_lcs_matching:
  assumes "bs \<le> be" "ss \<le> se"
  shows "matching_in base side bs be ss se (collect_lcs_matches base side bs be ss se)"
  using lcs_walk_matching [of base side bs 0 "be - bs" ss 0 "se - ss"] assms
  by (simp add: collect_lcs_matches_def Let_def)

lemma segments_matching:
  assumes "matching_in base side c rb d rs anchors" "c \<le> rb" "d \<le> rs"
    and "\<And>cb ab cs as a. (cb, ab, cs, as, a) \<in> set (segments c d anchors rb rs) \<Longrightarrow>
      cb \<le> ab \<Longrightarrow> ab \<le> rb \<Longrightarrow> cs \<le> as \<Longrightarrow> as \<le> rs \<Longrightarrow> matching_in base side cb ab cs as (f cb ab cs as)"
  shows "matching_in base side c rb d rs
    (concat (map (\<lambda>(cb, ab, cs, as, a). f cb ab cs as @ a) (segments c d anchors rb rs)))"
  using assms
proof (induction c d anchors rb rs rule: segments.induct)
  case (2 c d b s anchors rb rs)
  note D = matching_in_ConsD [OF "2.prems"(1)]
  have rest: "matching_in base side (Suc b) rb (Suc s) rs
      (concat (map (\<lambda>(cb, ab, cs, as, a). f cb ab cs as @ a) (segments (Suc b) (Suc s) anchors rb rs)))"
    by (rule "2.IH" [unfolded Suc_eq_plus1 [symmetric]]) (use D in \<open>auto intro: "2.prems"(4)\<close>)
  have "matching_in base side c b d s (f c b d s)"
    using "2.prems"(4) [of c b d s "[(b, s)]"] D by simp
  from matching_in_append [OF this matching_in_Cons [OF order.refl D(2) order.refl D(4,5) rest]] D
  show ?case by simp
qed simp

lemma collect_patience_matching:
  "bs \<le> be \<Longrightarrow> be \<le> length base \<Longrightarrow> ss \<le> se \<Longrightarrow> se \<le> length side \<Longrightarrow>
     matching_in base side bs be ss se (collect_patience_matches base side bs be ss se)"
proof (induction base side bs be ss se rule: collect_patience_matches.induct)
  case (1 base side bs be ss se)
  obtain pre lb ls where pre: "match_prefix base side bs be ss se = (pre, lb, ls)" by (cases "match_prefix base side bs be ss se")
  obtain suf rb rs where suf: "match_suffix base side lb be ls se = (suf, rb, rs)" by (cases "match_suffix base side lb be ls se")
  have lb: "bs \<le> lb" "lb \<le> be" "ss \<le> ls" "ls \<le> se"
    using match_prefix_bounds [OF pre] "1.prems" by auto
  have rb: "lb \<le> rb" "rb \<le> be" "ls \<le> rs" "rs \<le> se"
    using match_suffix_bounds [OF suf] lb by auto
  define anchors where "anchors = unique_lis_anchors base lb rb side ls rs"
  define mid where "mid = (if lb < rb \<and> ls < rs then
      if anchors = [] then collect_lcs_matches base side lb rb ls rs
      else concat (map (\<lambda>(cb, ab, cs, as, a). collect_patience_matches base side cb ab cs as @ a)
        (segments lb ls anchors rb rs)) else [])"
  have "matching_in base side lb rb ls rs mid"
  proof (cases "lb < rb \<and> ls < rs \<and> anchors \<noteq> []")
    case True
    have "matching_in base side lb rb ls rs anchors"
      unfolding anchors_def using rb "1.prems" by (intro unique_lis_anchors_matching) simp_all
    moreover have "matching_in base side cb ab cs as (collect_patience_matches base side cb ab cs as)"
      if "(cb, ab, cs, as, a) \<in> set (segments lb ls anchors rb rs)" "cb \<le> ab" "ab \<le> rb" "cs \<le> as" "as \<le> rs"
      for cb ab cs as a
      using that "1.IH" [OF pre [symmetric] refl suf [symmetric] refl _ anchors_def] True rb "1.prems" by simp
    ultimately show ?thesis
      unfolding mid_def using True rb by (simp add: segments_matching)
  qed (use rb in \<open>auto simp: mid_def collect_lcs_matching\<close>)
  from matching_in_append [OF this match_suffix_matching [OF suf] rb]
  have "matching_in base side lb be ls se (mid @ rev suf)" .
  from matching_in_append [OF match_prefix_matching [OF pre] this lb]
  have "matching_in base side bs be ss se (pre @ mid @ rev suf)" .
  then show ?case
    unfolding mid_def anchors_def
    by (subst collect_patience_matches.simps) (simp only: pre suf prod.case Let_def)
qed

lemma both_less_sorted: "sorted_wrt both_less ms \<Longrightarrow> sorted ms"
  by (erule sorted_wrt_mono_rel [rotated]) (auto simp: both_less_def less_eq_prod_def)

lemma matching_pairs_matching: "matching_in base side 0 (length base) 0 (length side) (matching_pairs base side)"
proof -
  have m: "matching_in base side 0 (length base) 0 (length side)
      (collect_patience_matches base side 0 (length base) 0 (length side))"
    by (rule collect_patience_matching) simp_all
  then show ?thesis
    using both_less_sorted by (simp add: matching_pairs_def matching_in_def sorted_sort_id)
qed

section \<open>Longest common subsequences\<close>

fun lcs_len :: "'a list \<Rightarrow> 'a list \<Rightarrow> nat" where
  "lcs_len [] ys = 0"
| "lcs_len (x # xs) [] = 0"
| "lcs_len (x # xs) (y # ys) =
    (if x = y then 1 + lcs_len xs ys else max (lcs_len xs (y # ys)) (lcs_len (x # xs) ys))"

lemma lcs_len_Nil2 [simp]: "lcs_len xs [] = 0"
  by (cases xs) simp_all

lemma lcs_len_upper: "subseq zs xs \<Longrightarrow> subseq zs ys \<Longrightarrow> length zs \<le> lcs_len xs ys"
proof (induction xs ys arbitrary: zs rule: lcs_len.induct)
  case (3 x xs y ys)
  show ?case
  proof (cases "x = y")
    case True
    show ?thesis
    proof (cases "zs \<noteq> [] \<and> hd zs = x")
      case True
      then obtain zs' where "zs = x # zs'" by (metis list.collapse)
      then show ?thesis using 3 \<open>x = y\<close> by (simp add: subseq_Cons2_iff)
    next
      case False
      then have "subseq zs xs" "subseq zs ys"
        using "3.prems" \<open>x = y\<close> by (cases zs; auto simp: subseq_Cons2_iff split: if_splits)+
      then show ?thesis using "3.IH"(1) [OF True] True by fastforce
    qed
  next
    case False
    then have "subseq zs xs \<or> subseq zs ys"
      using "3.prems" by (cases zs) (auto simp: subseq_Cons2_iff split: if_splits)
    then show ?thesis
      using "3.IH"(2,3) [OF False] "3.prems" False by (auto simp: le_max_iff_disj)
  qed
qed simp_all

text \<open>The value that cell \<open>(i, j)\<close> of the table ends with.\<close>

definition lcs_at :: "line list \<Rightarrow> line list \<Rightarrow> nat \<Rightarrow> nat \<Rightarrow> nat \<Rightarrow> nat \<Rightarrow> nat \<Rightarrow> nat \<Rightarrow> nat" where
  "lcs_at base side bs ss bl sl i j = lcs_len (range_of base (bs + i) (bs + bl)) (range_of side (ss + j) (ss + sl))"

lemma lcs_at_edge [simp]:
  "lcs_at base side bs ss bl sl bl j = 0" "lcs_at base side bs ss bl sl i sl = 0"
  by (simp_all add: lcs_at_def)

lemma lcs_at_step:
  assumes "i < bl" "j < sl" "bs + bl \<le> length base" "ss + sl \<le> length side"
  shows "lcs_at base side bs ss bl sl i j =
    (if base ! (bs + i) = side ! (ss + j) then 1 + lcs_at base side bs ss bl sl (i + 1) (j + 1)
     else max (lcs_at base side bs ss bl sl (i + 1) j) (lcs_at base side bs ss bl sl i (j + 1)))"
  using assms range_of_Suc [of "bs + i" "bs + bl" base] range_of_Suc [of "ss + j" "ss + sl" side]
  by (simp add: lcs_at_def)

definition lcs_done ::
  "line list \<Rightarrow> line list \<Rightarrow> nat \<Rightarrow> nat \<Rightarrow> nat \<Rightarrow> nat \<Rightarrow> nat \<Rightarrow> nat \<Rightarrow> nat list \<Rightarrow> bool" where
  "lcs_done base side bs ss bl sl i j lengths \<longleftrightarrow> length lengths = (bl + 1) * (sl + 1) \<and>
     (\<forall>i' \<le> bl. \<forall>j' \<le> sl. i < i' \<or> i = i' \<and> j \<le> j' \<or> j' = sl \<longrightarrow>
        lengths ! (i' * (sl + 1) + j') = lcs_at base side bs ss bl sl i' j')"

lemma flat_index_less: "i \<le> bl \<Longrightarrow> j \<le> sl \<Longrightarrow> i * (sl + 1) + j < (bl + 1) * (sl + 1)" for i j bl sl :: nat
proof -
  assume "i \<le> bl" "j \<le> sl"
  then have "i * (sl + 1) + j < i * (sl + 1) + (sl + 1)" by simp
  also have "\<dots> \<le> bl * (sl + 1) + (sl + 1)" by (intro add_mono mult_mono) (use \<open>i \<le> bl\<close> in simp_all)
  finally show ?thesis by simp
qed

lemma flat_index_inject:
  fixes i i' j j' sl :: nat
  assumes "j \<le> sl" "j' \<le> sl" and eq: "i * (sl + 1) + j = i' * (sl + 1) + j'"
  shows "i = i' \<and> j = j'"
proof -
  have div: "(i * (sl + 1) + j) div (sl + 1) = i" "(i' * (sl + 1) + j') div (sl + 1) = i'"
    using assms(1,2) by (auto intro!: div_nat_eqI)
  then have "i = i'" using eq by metis
  then show ?thesis using eq by simp
qed

lemma lcs_cell_done:
  assumes d: "lcs_done base side bs ss bl sl i (Suc j) lengths" and "i < bl" "j < sl"
    and len: "bs + bl \<le> length base" "ss + sl \<le> length side"
  shows "lcs_done base side bs ss bl sl i j (lcs_cell base side bs ss (sl + 1) i j lengths)"
proof -
  have at: "lengths ! (i' * (sl + 1) + j') = lcs_at base side bs ss bl sl i' j'"
    if "i' \<le> bl" "j' \<le> sl" "i < i' \<or> i = i' \<and> Suc j \<le> j' \<or> j' = sl" for i' j'
    using d that unfolding lcs_done_def by blast
  have ln: "length lengths = (bl + 1) * (sl + 1)" using d by (simp add: lcs_done_def)
  have cell: "lcs_cell base side bs ss (sl + 1) i j lengths =
      lengths[i * (sl + 1) + j := lcs_at base side bs ss bl sl i j]"
    using at [of "i + 1" "j + 1"] at [of "i + 1" j] at [of i "j + 1"] assms(2,3)
    by (simp add: lcs_cell_def lcs_at_step [OF assms(2,3) len])
  have "lengths[i * (sl + 1) + j := lcs_at base side bs ss bl sl i j] ! (i' * (sl + 1) + j') =
      lcs_at base side bs ss bl sl i' j'"
    if "i' \<le> bl" "j' \<le> sl" "i < i' \<or> i = i' \<and> j \<le> j' \<or> j' = sl" for i' j'
  proof (cases "i = i' \<and> j = j'")
    case True
    then show ?thesis using flat_index_less [of i bl j sl] assms(2,3) ln by simp
  next
    case False
    then have "i * (sl + 1) + j \<noteq> i' * (sl + 1) + j'"
      using flat_index_inject [of j sl j' i i'] that assms(3) by auto
    then show ?thesis using at [OF that(1,2)] that(3) False by auto
  qed
  then show ?thesis unfolding cell lcs_done_def using ln by simp
qed

lemma fold_rev_upt:
  "P n st \<Longrightarrow> (\<And>k st. k < n \<Longrightarrow> P (Suc k) st \<Longrightarrow> P k (f k st)) \<Longrightarrow> P 0 (fold f (rev [0..<n]) st)"
  by (induction n arbitrary: st) simp_all

lemma lcs_row_done:
  assumes "lcs_done base side bs ss bl sl (Suc i) 0 lengths" and "i < bl"
    and "bs + bl \<le> length base" "ss + sl \<le> length side"
  shows "lcs_done base side bs ss bl sl i 0 (lcs_row base side bs ss sl i lengths)"
proof -
  have "lcs_done base side bs ss bl sl i sl lengths"
    using assms(1) unfolding lcs_done_def by (metis Suc_lessI le0 le_antisym)
  then show ?thesis
    unfolding lcs_row_def
    by (rule fold_rev_upt [of "lcs_done base side bs ss bl sl i"]) (use assms(2-) lcs_cell_done in blast)
qed

lemma lcs_table_done:
  assumes "bs + bl \<le> length base" "ss + sl \<le> length side"
  shows "lcs_done base side bs ss bl sl 0 0 (lcs_table base side bs ss bl sl)"
proof -
  have "lcs_done base side bs ss bl sl bl 0 (replicate ((bl + 1) * (sl + 1)) 0)"
    using flat_index_less by (auto simp: lcs_done_def simp del: mult_Suc mult_Suc_right)
  then show ?thesis
    unfolding lcs_table_def
    by (rule fold_rev_upt [of "\<lambda>i. lcs_done base side bs ss bl sl i 0"]) (use assms lcs_row_done in blast)
qed

lemma lcs_walk_length:
  assumes "bs + bl \<le> length base" "ss + sl \<le> length side" "lcs_done base side bs ss bl sl 0 0 lengths"
  shows "bo \<le> bl \<Longrightarrow> so \<le> sl \<Longrightarrow>
    length (lcs_walk base side bs ss bl sl lengths bo so) = lcs_at base side bs ss bl sl bo so"
  using assms
proof (induction base side bs ss bl sl lengths bo so rule: lcs_walk.induct)
  case (1 base side bs ss bl sl lengths bo so)
  show ?case
  proof (cases "bo < bl \<and> so < sl")
    case True
    have at: "lengths ! (i * (sl + 1) + j) = lcs_at base side bs ss bl sl i j" if "i \<le> bl" "j \<le> sl" for i j
      using "1.prems"(5) that unfolding lcs_done_def by (cases "i = 0") auto
    have cells: "lengths ! ((bo + 1) * (sl + 1) + so) = lcs_at base side bs ss bl sl (bo + 1) so"
        "lengths ! (bo * (sl + 1) + so + 1) = lcs_at base side bs ss bl sl bo (so + 1)"
      using at [of "bo + 1" so] at [of bo "so + 1"] True by simp_all
    note walk = lcs_walk.simps [of base side bs ss bl sl lengths bo so]
    note step = lcs_at_step [OF conjunct1 [OF True] conjunct2 [OF True] "1.prems"(3,4)]
    show ?thesis
    proof (cases "base ! (bs + bo) = side ! (ss + so)")
      case eq: True
      then show ?thesis
        using "1.IH"(1) [OF True eq] "1.prems" True by (simp add: walk step)
    next
      case ne: False
      show ?thesis
      proof (cases "lengths ! (bo * (sl + 1) + so + 1) \<le> lengths ! ((bo + 1) * (sl + 1) + so)")
        case le: True
        have "length (lcs_walk base side bs ss bl sl lengths (bo + 1) so) = lcs_at base side bs ss bl sl (bo + 1) so"
          by (rule "1.IH"(2) [OF True ne le]) (use "1.prems" True in simp_all)
        moreover have "lcs_at base side bs ss bl sl bo (so + 1) \<le> lcs_at base side bs ss bl sl (bo + 1) so"
          using le unfolding cells .
        ultimately show ?thesis unfolding walk step using True ne le by (simp only: simp_thms if_True if_False max_absorb1)
      next
        case gt: False
        have "length (lcs_walk base side bs ss bl sl lengths bo (so + 1)) = lcs_at base side bs ss bl sl bo (so + 1)"
          by (rule "1.IH"(3) [OF True ne gt]) (use "1.prems" True in simp_all)
        moreover have "lcs_at base side bs ss bl sl (bo + 1) so \<le> lcs_at base side bs ss bl sl bo (so + 1)"
          using gt unfolding cells by linarith
        ultimately show ?thesis unfolding walk step using True ne gt by (simp only: simp_thms if_True if_False max_absorb2)
      qed
    qed
  next
    case False
    then have "bo = bl \<or> so = sl" using "1.prems" by auto
    then show ?thesis by (subst lcs_walk.simps) auto
  qed
qed

text \<open>A matching spells out a common subsequence of the two ranges.\<close>

lemma matching_subseq:
  "matching_in base side bs be ss se ms \<Longrightarrow> be \<le> length base \<Longrightarrow> bs \<le> be \<Longrightarrow>
     subseq (map (\<lambda>p. base ! fst p) ms) (range_of base bs be)"
proof (induction ms arbitrary: bs ss)
  case (Cons p ms)
  obtain b s where p: "p = (b, s)" by fastforce
  note D = matching_in_ConsD [OF Cons.prems(1) [unfolded p]]
  have "range_of base bs be = range_of base bs b @ base ! b # range_of base (Suc b) be"
    using D Cons.prems(2) range_of_append [of bs b be base] range_of_Suc [of b be base] by simp
  then show ?case
    using Cons.IH [OF D(6)] D Cons.prems(2) p by (simp add: list_emb_prefix list_emb_append2 Suc_le_eq)
qed simp

lemma matching_subseq_side:
  "matching_in base side bs be ss se ms \<Longrightarrow> se \<le> length side \<Longrightarrow> ss \<le> se \<Longrightarrow>
     subseq (map (\<lambda>p. side ! snd p) ms) (range_of side ss se)"
proof (induction ms arbitrary: bs ss)
  case (Cons p ms)
  obtain b s where p: "p = (b, s)" by fastforce
  note D = matching_in_ConsD [OF Cons.prems(1) [unfolded p]]
  have "range_of side ss se = range_of side ss s @ side ! s # range_of side (Suc s) se"
    using D Cons.prems(2) range_of_append [of ss s se side] range_of_Suc [of s se side] by simp
  then show ?case
    using Cons.IH [OF D(6)] D Cons.prems(2) p by (simp add: list_emb_append2 Suc_le_eq)
qed simp

lemma matching_lines: "matching_in base side bs be ss se ms \<Longrightarrow> map (\<lambda>p. base ! fst p) ms = map (\<lambda>p. side ! snd p) ms"
  by (auto simp: matching_in_def)

lemma lcs_too_large_iff: "lcs_too_large bl sl \<longleftrightarrow> bl * sl > 4000000"
  by (auto simp: lcs_too_large_def MAX_LCS_CELLS_def USIZE_LIMIT_def)

section \<open>Edit regions\<close>

text \<open>
  \<open>edits_from n c es\<close>: the regions of \<open>es\<close> start at \<open>c\<close> or later, are in order with at least one
  base line between two of them, lie within \<open>n\<close> lines and are not empty edits.
\<close>

fun edits_from :: "nat \<Rightarrow> nat \<Rightarrow> edit_region list \<Rightarrow> bool" where
  "edits_from n c [] \<longleftrightarrow> True"
| "edits_from n c (e # es) \<longleftrightarrow> c \<le> edit_start e \<and> edit_start e \<le> edit_end e \<and> edit_end e \<le> n \<and>
     (edit_start e < edit_end e \<or> edit_replacement e \<noteq> []) \<and> edits_from n (Suc (edit_end e)) es"

text \<open>What the edits make of the base from line \<open>c\<close> on.\<close>

fun apply_from :: "line list \<Rightarrow> nat \<Rightarrow> edit_region list \<Rightarrow> line list" where
  "apply_from base c [] = drop c base"
| "apply_from base c (e # es) =
     range_of base c (edit_start e) @ edit_replacement e @ apply_from base (edit_end e) es"

lemma edits_from_mono: "edits_from n c es \<Longrightarrow> c' \<le> c \<Longrightarrow> edits_from n c' es"
  by (cases es) simp_all

lemma range_of_drop: "c \<le> d \<Longrightarrow> range_of xs c d @ drop d xs = drop c xs"
  unfolding range_of_def by (metis append_take_drop_id drop_drop le_add_diff_inverse2)

lemma apply_from_skip:
  "edits_from n d es \<Longrightarrow> c \<le> d \<Longrightarrow> apply_from base c es = range_of base c d @ apply_from base d es"
proof (cases es)
  case (Cons e es')
  assume "edits_from n d es" "c \<le> d"
  then have "range_of base c (edit_start e) = range_of base c d @ range_of base d (edit_start e)"
    using range_of_append [of c d "edit_start e" base] Cons by simp
  then show ?thesis using Cons by simp
qed (simp add: range_of_drop)

lemma edit_loop_correct:
  assumes "matching_in base side bc (length base) sc (length side) ms" "bc \<le> length base" "sc \<le> length side"
  shows "edits_from (length base) bc (edit_loop base side bc sc ms) \<and>
    apply_from base bc (edit_loop base side bc sc ms) = drop sc side"
  using assms
proof (induction base side bc sc ms rule: edit_loop.induct)
  case (1 base side bc sc)
  then show ?case by (auto simp: edit_region_new_def range_of_def)
next
  case (2 base side bc sc b s ms)
  note D = matching_in_ConsD [OF "2.prems"(1)]
  let ?rest = "edit_loop base side (b + 1) (s + 1) ms"
  have IH: "edits_from (length base) (Suc b) ?rest" "apply_from base (Suc b) ?rest = drop (Suc s) side"
    using "2.IH" D by simp_all
  have at: "apply_from base b ?rest = drop s side"
    using apply_from_skip [OF IH(1), of b base] IH(2) D range_of_Suc [of b "Suc b" base]
    by (simp add: Cons_nth_drop_Suc)
  show ?case
  proof (cases "bc = b \<and> sc = s")
    case True
    then show ?thesis using IH(1) at D edits_from_mono [OF IH(1), of b] by simp
  next
    case False
    have "range_of side sc s \<noteq> []" if "sc < s"
      using that D range_of_Suc [of sc s side] by simp
    then show ?thesis
      using False IH(1) at D range_of_drop [of sc s side] by (auto simp: edit_region_new_def)
  qed
qed

lemma edit_regions_from: "edits_from (length base) 0 (edit_regions base side)"
  and edit_regions_apply: "apply_from base 0 (edit_regions base side) = side"
  using edit_loop_correct [OF matching_pairs_matching [of base side]] by (simp_all add: edit_regions_def)

text \<open>Two equal files have no edits.\<close>

lemma match_prefix_same:
  "n \<le> length xs \<Longrightarrow> match_prefix xs xs i n i n = (map (\<lambda>k. (k, k)) [i..<n], max i n, max i n)"
proof (induction "n - i" arbitrary: i)
  case 0
  then show ?case by (subst match_prefix.simps) (simp add: max_def)
next
  case (Suc d)
  then have "match_prefix xs xs (Suc i) n (Suc i) n = (map (\<lambda>k. (k, k)) [Suc i..<n], max (Suc i) n, max (Suc i) n)"
    by simp
  then show ?case
    using Suc.hyps(2) by (subst match_prefix.simps) (simp add: upt_conv_Cons max_def)
qed

lemma edit_loop_same: "i \<le> length xs \<Longrightarrow> edit_loop xs xs i i (map (\<lambda>k. (k, k)) [i..<length xs]) = []"
  by (induction "length xs - i" arbitrary: i) (simp_all add: upt_conv_Cons)

lemma edit_regions_same: "edit_regions xs xs = []"
proof -
  have "collect_patience_matches xs xs 0 (length xs) 0 (length xs) = map (\<lambda>k. (k, k)) [0..<length xs]"
    by (subst collect_patience_matches.simps)
      (simp add: match_prefix_same match_suffix.simps [of _ _ "length xs" "length xs"])
  moreover have "sorted (map (\<lambda>k. (k, k)) [0..<length xs])"
    by (simp add: sorted_map) (rule sorted_wrt_mono_rel [OF _ sorted_upt], simp add: less_eq_prod_def)
  ultimately show ?thesis
    using edit_loop_same [of 0 xs] by (simp add: edit_regions_def matching_pairs_def sorted_sort_id)
qed

section \<open>Lines and their bytes\<close>

text \<open>
  \<open>line_shaped ls\<close>: no line is empty, a newline only ends a line, and only the last line may lack
  one. Such lists are determined by their bytes.
\<close>

fun line_shaped :: "line list \<Rightarrow> bool" where
  "line_shaped [] \<longleftrightarrow> True"
| "line_shaped (l # ls) \<longleftrightarrow> l \<noteq> [] \<and> 10 \<notin> set (butlast l) \<and> (ls \<noteq> [] \<longrightarrow> last l = 10) \<and> line_shaped ls"

lemma line_shaped_split_loop: "10 \<notin> set current \<Longrightarrow> line_shaped (split_loop current bs)"
  by (induction current bs rule: split_loop.induct) (auto dest: in_set_butlastD)

lemma line_shaped_split_lines: "line_shaped (split_lines bs)"
  by (simp add: split_lines_def line_shaped_split_loop)

lemma split_loop_skip: "10 \<notin> set xs \<Longrightarrow> split_loop current (xs @ bs) = split_loop (current @ xs) bs"
  by (induction xs arbitrary: current) auto

lemma split_loop_concat: "line_shaped ls \<Longrightarrow> split_loop [] (concat ls) = ls"
proof (induction ls)
  case (Cons l ls)
  have l: "l = butlast l @ [last l]" "10 \<notin> set (butlast l)" using Cons.prems by simp_all
  have "split_loop [] (l @ concat ls) = split_loop (butlast l) (last l # concat ls)"
    using l split_loop_skip [of "butlast l" "[]" "[last l] @ concat ls"] by (metis append.assoc append_Cons append_Nil)
  then show ?case
    using Cons l by (cases "last l = 10"; cases "ls = []") auto
qed simp

lemma line_shaped_inject: "line_shaped xs \<Longrightarrow> line_shaped ys \<Longrightarrow> concat xs = concat ys \<longleftrightarrow> xs = ys"
  using split_loop_concat by metis

lemma line_shaped_drop: "line_shaped ls \<Longrightarrow> line_shaped (drop k ls)"
proof (induction ls arbitrary: k)
  case (Cons l ls)
  then show ?case by (cases k) simp_all
qed simp

lemma line_shaped_take: "line_shaped ls \<Longrightarrow> line_shaped (take k ls)"
proof (induction ls arbitrary: k)
  case (Cons l ls)
  then show ?case by (cases k) auto
qed simp

lemma line_shaped_range_of: "line_shaped ls \<Longrightarrow> line_shaped (range_of ls i j)"
  by (simp add: range_of_def line_shaped_drop line_shaped_take)

lemma edit_loop_shaped:
  "line_shaped side \<Longrightarrow> e \<in> set (edit_loop base side bc sc ms) \<Longrightarrow> line_shaped (edit_replacement e)"
  by (induction base side bc sc ms rule: edit_loop.induct)
    (auto simp: edit_region_new_def line_shaped_range_of split: if_splits)

lemma edit_regions_shaped: "line_shaped side \<Longrightarrow> e \<in> set (edit_regions base side) \<Longrightarrow> line_shaped (edit_replacement e)"
  by (simp add: edit_regions_def edit_loop_shaped)

section \<open>The properties of the diff\<close>

text \<open>
  C31. The diff is exact. For every base and side, the edit regions are in order, at least one kept
  line apart and inside the base; no region is an empty edit; and replacing in the base each region
  by its replacement gives the side. Together with the split into lines, the bytes of the side are
  recovered.
\<close>

theorem edit_regions_exact:
  "edits_from (length (split_lines base)) 0 (edit_regions (split_lines base) (split_lines side)) \<and>
   lines_to_bytes (apply_from (split_lines base) 0 (edit_regions (split_lines base) (split_lines side))) = side"
  by (simp add: edit_regions_from edit_regions_apply lines_to_bytes_def split_lines_def concat_split_loop)

text \<open>
  C32. Optimal gaps. Where a gap has no anchor and the product of its sizes is within the cell limit, the
  matching that the table yields pairs equal lines in strictly ascending order within the two ranges,
  and no common subsequence of the two ranges is longer.
\<close>

theorem collect_lcs_optimal:
  assumes "base_start \<le> base_end" "base_end \<le> length base" "side_start \<le> side_end" "side_end \<le> length side"
    and "(base_end - base_start) * (side_end - side_start) \<le> MAX_LCS_CELLS"
    and "subseq zs (range_of base base_start base_end)" "subseq zs (range_of side side_start side_end)"
  shows "matching_in base side base_start base_end side_start side_end
      (collect_lcs_matches base side base_start base_end side_start side_end) \<and>
    length zs \<le> length (collect_lcs_matches base side base_start base_end side_start side_end)"
proof -
  let ?bl = "base_end - base_start" and ?sl = "side_end - side_start"
  have "length (lcs_walk base side base_start side_start ?bl ?sl
      (lcs_table base side base_start side_start ?bl ?sl) 0 0) =
      lcs_at base side base_start side_start ?bl ?sl 0 0"
    using assms by (intro lcs_walk_length lcs_table_done) simp_all
  moreover have "length zs \<le> lcs_at base side base_start side_start ?bl ?sl 0 0"
    using lcs_len_upper [OF assms(6,7)] assms(1,3) by (simp add: lcs_at_def)
  moreover have "length zs = 0" if "?bl = 0 \<or> ?sl = 0"
    using that assms by (auto simp: range_of_def)
  ultimately have "length zs \<le> length (collect_lcs_matches base side base_start base_end side_start side_end)"
    using assms(5) by (auto simp: collect_lcs_matches_def Let_def lcs_too_large_iff MAX_LCS_CELLS_def)
  then show ?thesis using collect_lcs_matching assms by blast
qed

theorem collect_lcs_optimal_witness:
  "length (collect_lcs_matches [[97], [98], [97]] [[98], [97], [98]] 0 3 0 3) = 2 \<and> (2::nat) \<le> 2"
proof -
  have run: "collect_lcs_matches [[97], [98], [97]] [[98], [97], [98]] 0 3 0 3 = [(1, 0), (2, 1)]"
    by code_simp
  have "length [[98::byte], [97]] \<le> length (collect_lcs_matches [[97], [98], [97]] [[98], [97], [98]] 0 3 0 3)"
    by (rule conjunct2 [OF collect_lcs_optimal]) (simp_all add: MAX_LCS_CELLS_def range_of_def)
  then show ?thesis using run by simp
qed

end
