(* ===== verification/Merge_Correctness.thy ===== *)
theory Merge_Correctness
  imports Era_Merge Diff_Correctness
begin

text \<open>
  What the line merge computes. A merge is explained by a list of pieces: lines kept from the base,
  an edit of one side, a change both sides made, or a clash. Read as the base, as ours and as
  theirs, the pieces spell out the three inputs; read as the merge they spell out the outcome. The
  theory shows that the loop of \<open>merge_present_lines\<close> produces such pieces on every input and never
  indexes out of range, that edits that keep apart never conflict, and what the engine answers.
\<close>

section \<open>Pieces\<close>

datatype piece =
    Kept "line list"
  | OursEdit "line list" "line list"
  | TheirsEdit "line list" "line list"
  | Agreed "line list" "line list" "line list"
  | Clash "line list" "line list" "line list"

fun base_part :: "piece \<Rightarrow> line list" where
  "base_part (Kept ls) = ls"
| "base_part (OursEdit b r) = b"
| "base_part (TheirsEdit b r) = b"
| "base_part (Agreed b ours theirs) = b"
| "base_part (Clash b ours theirs) = b"

fun ours_part :: "piece \<Rightarrow> line list" where
  "ours_part (Kept ls) = ls"
| "ours_part (OursEdit b r) = r"
| "ours_part (TheirsEdit b r) = b"
| "ours_part (Agreed b ours theirs) = ours"
| "ours_part (Clash b ours theirs) = ours"

fun theirs_part :: "piece \<Rightarrow> line list" where
  "theirs_part (Kept ls) = ls"
| "theirs_part (OursEdit b r) = b"
| "theirs_part (TheirsEdit b r) = r"
| "theirs_part (Agreed b ours theirs) = theirs"
| "theirs_part (Clash b ours theirs) = theirs"

fun piece_ok :: "piece \<Rightarrow> bool" where
  "piece_ok (Agreed b ours theirs) \<longleftrightarrow> concat ours = concat theirs"
| "piece_ok (Clash b ours theirs) \<longleftrightarrow> concat ours \<noteq> concat theirs"
| "piece_ok p \<longleftrightarrow> True"

fun is_clash :: "piece \<Rightarrow> bool" where
  "is_clash (Clash b ours theirs) = True"
| "is_clash p = False"

fun piece_hunk :: "rstring option \<Rightarrow> piece \<Rightarrow> merge_hunk" where
  "piece_hunk path (Kept ls) = HunkResolved (concat ls)"
| "piece_hunk path (OursEdit b r) = HunkResolved (concat r)"
| "piece_hunk path (TheirsEdit b r) = HunkResolved (concat r)"
| "piece_hunk path (Agreed b ours theirs) = HunkResolved (concat ours)"
| "piece_hunk path (Clash b ours theirs) = HunkConflict
     \<lparr>mc_kind = classify_content_conflict (concat b) (concat ours) (concat theirs), mc_path = path,
      mc_base = Some (concat b), mc_ours = Some (concat ours), mc_theirs = Some (concat theirs)\<rparr>"

text \<open>Neighbouring resolved hunks joined, empty ones left out.\<close>

fun coalesce :: "merge_hunk list \<Rightarrow> merge_hunk list" where
  "coalesce [] = []"
| "coalesce (HunkConflict c # hs) = HunkConflict c # coalesce hs"
| "coalesce (HunkResolved bs # hs) =
    (if bs = [] then coalesce hs
     else case coalesce hs of
       HunkResolved bs' # hs' \<Rightarrow> HunkResolved (bs @ bs') # hs'
     | hs' \<Rightarrow> HunkResolved bs # hs')"

definition piece_hunks :: "rstring option \<Rightarrow> piece list \<Rightarrow> merge_hunk list" where
  "piece_hunks path pieces = coalesce (map (piece_hunk path) pieces)"

definition outcome_of :: "rstring option \<Rightarrow> piece list \<Rightarrow> merge_outcome" where
  "outcome_of path pieces =
    (if list_ex is_clash pieces then Conflicted (piece_hunks path pieces)
     else Resolved (Present (concat_resolved_hunks (map (piece_hunk path) pieces))))"

definition explains :: "piece list \<Rightarrow> bytes \<Rightarrow> bytes \<Rightarrow> bytes \<Rightarrow> bool" where
  "explains pieces base ours theirs \<longleftrightarrow>
     concat (concat (map base_part pieces)) = base \<and>
     concat (concat (map ours_part pieces)) = ours \<and>
     concat (concat (map theirs_part pieces)) = theirs \<and>
     list_all piece_ok pieces"

section \<open>Hunks\<close>

lemma push_bytes_Cons:
  "hs \<noteq> [] \<Longrightarrow> push_resolved_bytes (h # hs) bs = h # push_resolved_bytes hs bs"
  by (auto simp: push_resolved_bytes_def split: merge_hunk.splits)

lemma push_bytes_coalesce: "push_resolved_bytes (coalesce hs) bs = coalesce (hs @ [HunkResolved bs])"
proof (induction hs rule: coalesce.induct)
  case (2 c hs)
  then show ?case
    by (cases "coalesce hs = []") (auto simp: push_bytes_Cons, auto simp: push_resolved_bytes_def)
next
  case (3 b hs)
  show ?case
  proof (cases "coalesce hs")
    case Nil
    then have "coalesce (hs @ [HunkResolved bs]) = push_resolved_bytes [] bs" using 3 by (cases "b = []") simp_all
    then show ?thesis using Nil by (auto simp: push_resolved_bytes_def)
  next
    case (Cons h hs')
    have "coalesce (hs @ [HunkResolved bs]) = push_resolved_bytes (h # hs') bs" using 3 Cons by (cases "b = []") auto
    then show ?thesis
      using Cons by (cases "hs' = []"; cases h) (auto simp: push_bytes_Cons, auto simp: push_resolved_bytes_def)
  qed
qed (simp add: push_resolved_bytes_def)

lemma push_lines_coalesce: "push_resolved_lines (coalesce hs) ls = coalesce (hs @ [HunkResolved (concat ls)])"
proof (cases "ls = []")
  case True
  then show ?thesis using push_bytes_coalesce [of hs "[]"]
    by (simp add: push_resolved_lines_def push_resolved_bytes_def)
qed (simp add: push_resolved_lines_def push_bytes_coalesce lines_to_bytes_def)

lemma push_conflict_coalesce:
  "push_conflict (coalesce hs) kind path b ours theirs =
     coalesce (hs @ [HunkConflict (merge_conflict_new kind path b ours theirs)])"
proof (induction hs rule: coalesce.induct)
  case (3 bs hs)
  show ?case
  proof (cases "bs = []")
    case True
    then show ?thesis using "3.IH"(1) by simp
  next
    case False
    then show ?thesis
      using "3.IH"(2) [OF False, symmetric]
      by (cases "coalesce hs" rule: concat_resolved_hunks.cases) (simp_all add: push_conflict_def)
  qed
qed (simp_all add: push_conflict_def)

lemma concat_resolved_coalesce: "concat_resolved_hunks (coalesce hs) = concat_resolved_hunks hs"
proof (induction hs rule: coalesce.induct)
  case (3 b hs)
  then show ?case by (cases "coalesce hs" rule: concat_resolved_hunks.cases) (auto split: list.splits merge_hunk.splits)
qed simp_all

section \<open>Groups of edits\<close>

text \<open>What a group of edits makes of the base lines from \<open>c\<close> to \<open>t\<close>.\<close>

fun apply_range :: "line list \<Rightarrow> edit_region list \<Rightarrow> nat \<Rightarrow> nat \<Rightarrow> line list" where
  "apply_range base [] c t = range_of base c t"
| "apply_range base (e # es) c t =
     range_of base c (edit_start e) @ edit_replacement e @ apply_range base es (edit_end e) t"

lemma apply_edits_loop_range:
  assumes "edits_from (length base) c es" "c \<le> t" "t \<le> length base" "\<forall>e \<in> set es. edit_end e \<le> t"
  shows "do { (cursor, out) \<leftarrow> apply_edits_loop base es c acc;
      if cursor < t then do { ls \<leftarrow> slice base cursor t; Some (out @ lines_to_bytes ls) } else Some out } =
    Some (acc @ concat (apply_range base es c t))"
  using assms
proof (induction es arbitrary: c acc)
  case Nil
  then show ?case by (auto simp: slice_Some lines_to_bytes_def)
next
  case (Cons e es)
  have out: "(if c < edit_start e
      then do { ls \<leftarrow> slice base c (edit_start e); Some (acc @ lines_to_bytes ls) } else Some acc) =
      Some (acc @ concat (range_of base c (edit_start e)))"
    using Cons.prems by (auto simp: slice_Some lines_to_bytes_def)
  have "edits_from (length base) (edit_end e) es"
    using Cons.prems(1) edits_from_mono [of "length base" "Suc (edit_end e)" es "edit_end e"] by simp
  moreover have "max c (edit_end e) = edit_end e" using Cons.prems(1) by simp
  ultimately show ?case
    using Cons.IH [of "edit_end e"] Cons.prems
    by (simp add: out lines_to_bytes_def del: apply_edits_loop.simps(1))
qed

lemma apply_edits_to_range_eq:
  "edits_from (length base) c es \<Longrightarrow> c \<le> t \<Longrightarrow> t \<le> length base \<Longrightarrow> \<forall>e \<in> set es. edit_end e \<le> t \<Longrightarrow>
     apply_edits_to_range base es c t = Some (concat (apply_range base es c t))"
  using apply_edits_loop_range [of base c es t "[]"] by (simp add: apply_edits_to_range_def)

lemma apply_range_split:
  "edits_from n c (gs @ rest) \<Longrightarrow> c \<le> t \<Longrightarrow> \<forall>e \<in> set gs. edit_end e \<le> t \<Longrightarrow> edits_from n t rest \<Longrightarrow>
     apply_from base c (gs @ rest) = apply_range base gs c t @ apply_from base t rest"
proof (induction gs arbitrary: c)
  case (Cons e gs)
  have "edits_from n (edit_end e) (gs @ rest)"
    using Cons.prems(1) edits_from_mono [of n "Suc (edit_end e)" "gs @ rest" "edit_end e"] by simp
  then show ?case using Cons by simp
next
  case Nil
  then show ?case using apply_from_skip [of n t rest c base] by simp
qed

lemma edits_from_append1: "edits_from n c (gs @ rest) \<Longrightarrow> edits_from n c gs"
  by (induction gs arbitrary: c) simp_all

text \<open>The part of a side that the loop has still to read, and the part it has read.\<close>

definition side_inv :: "line list \<Rightarrow> nat \<Rightarrow> edit_region list \<Rightarrow> line list \<Rightarrow> line list \<Rightarrow> bool" where
  "side_inv base pos es view side \<longleftrightarrow>
     pos \<le> length base \<and> edits_from (length base) pos es \<and> view @ apply_from base pos es = side"

lemma side_take:
  assumes "side_inv base pos (e # es) view side"
  shows "side_inv base (edit_end e) es (view @ range_of base pos (edit_start e) @ edit_replacement e) side"
  using assms edits_from_mono [of "length base" "Suc (edit_end e)" es "edit_end e"] by (simp add: side_inv_def)

lemma side_skip:
  assumes "side_inv base pos es view side" "pos \<le> c" "c \<le> length base" "edits_from (length base) c es"
  shows "side_inv base c es (view @ range_of base pos c) side"
  using assms apply_from_skip [OF assms(4,2), of base] by (simp add: side_inv_def)

lemma side_group:
  assumes "side_inv base pos (gs @ rest) view side" "pos \<le> c" "c \<le> t" "t \<le> length base"
    and "edits_from (length base) c (gs @ rest)" "\<forall>e \<in> set gs. edit_end e \<le> t" "edits_from (length base) t rest"
  shows "side_inv base t rest (view @ range_of base pos c @ apply_range base gs c t) side"
  using assms apply_from_skip [OF assms(5,2), of base] apply_range_split [OF assms(5,3,6,7), of base]
  by (simp add: side_inv_def)

lemma take_range: "pos \<le> c \<Longrightarrow> take pos xs @ range_of xs pos c = take c xs"
  using range_of_append [of 0 pos c xs] by (simp add: range_of_def)

lemma take_inside_facts:
  "take_inside es cs ce k ch = (ce', k', ch') \<Longrightarrow> ce \<le> ce' \<and>
     (k' < length es \<longrightarrow> \<not> edit_inside_conflict (es ! k') cs ce') \<and>
     (\<forall>j. k \<le> j \<and> j < k' \<longrightarrow> edit_end (es ! j) \<le> ce') \<and> (k' = k \<longrightarrow> ce' = ce) \<and>
     ((\<forall>e \<in> set es. edit_end e \<le> n) \<longrightarrow> ce \<le> n \<longrightarrow> ce' \<le> n)"
proof (induction es cs ce k ch arbitrary: ce' k' ch' rule: take_inside.induct)
  case (1 es cs ce k ch)
  show ?case
  proof (cases "k < length es \<and> edit_inside_conflict (es ! k) cs ce")
    case True
    then have rec: "take_inside es cs (max ce (edit_end (es ! k))) (k + 1) True = (ce', k', ch')"
      using "1.prems" by (simp add: take_inside.simps [of es cs ce k])
    note IH = "1.IH" [OF True rec]
    have "edit_end (es ! j) \<le> ce'" if "k \<le> j" "j < k'" for j
      using IH that by (cases "j = k") auto
    moreover have "k' \<noteq> k" using take_inside_advances [OF rec] by simp
    ultimately show ?thesis using IH True by auto
  next
    case False
    then show ?thesis using "1.prems" by (auto simp: take_inside.simps [of es cs ce k])
  qed
qed

text \<open>At the end of a group neither side has a further edit inside it.\<close>

lemma group_loop_facts:
  "group_loop os ts cs ce i j = (ce', i', j') \<Longrightarrow> ce \<le> ce' \<and>
     (i' < length os \<longrightarrow> \<not> edit_inside_conflict (os ! i') cs ce') \<and>
     (j' < length ts \<longrightarrow> \<not> edit_inside_conflict (ts ! j') cs ce') \<and>
     (\<forall>k. i \<le> k \<and> k < i' \<longrightarrow> edit_end (os ! k) \<le> ce') \<and>
     (\<forall>k. j \<le> k \<and> k < j' \<longrightarrow> edit_end (ts ! k) \<le> ce') \<and>
     (i \<le> length os \<longrightarrow> i' \<le> length os) \<and> (j \<le> length ts \<longrightarrow> j' \<le> length ts) \<and>
     ((\<forall>e \<in> set os \<union> set ts. edit_end e \<le> n) \<longrightarrow> ce \<le> n \<longrightarrow> ce' \<le> n)"
proof (induction os ts cs ce i j arbitrary: ce' i' j' rule: group_loop.induct)
  case (1 os ts cs ce i j)
  obtain e1 i1 c1 where t1: "take_inside os cs ce i False = (e1, i1, c1)" by (metis prod_cases3)
  obtain e2 j2 c2 where t2: "take_inside ts cs e1 j c1 = (e2, j2, c2)" by (metis prod_cases3)
  note a1 = take_inside_advances [OF t1] and a2 = take_inside_advances [OF t2]
  note f1 = take_inside_facts [OF t1, of n] and f2 = take_inside_facts [OF t2, of n]
  show ?case
  proof (cases c2)
    case False
    then have eq: "ce' = e2" "i' = i1" "j' = j2" and "i1 = i" "j2 = j"
      using "1.prems" t1 t2 a1 a2 by (auto simp: group_loop.simps [of os ts cs ce])
    then show ?thesis using f1 f2 by auto
  next
    case True
    then have rec: "group_loop os ts cs e2 i1 j2 = (ce', i', j')"
      using "1.prems" t1 t2 by (simp add: group_loop.simps [of os ts cs ce])
    note IH = "1.IH" [OF t1 [symmetric] refl t2 [symmetric] refl True rec]
    have "e1 \<le> e2" "e2 \<le> ce'" using f2 IH by blast+
    then have "e1 \<le> ce'" by (rule order_trans)
    have early: "\<And>k. i \<le> k \<Longrightarrow> k < i1 \<Longrightarrow> edit_end (os ! k) \<le> e1" "\<And>k. j \<le> k \<Longrightarrow> k < j2 \<Longrightarrow> edit_end (ts ! k) \<le> e2"
      using f1 f2 by blast+
    have late: "\<And>k. i1 \<le> k \<Longrightarrow> k < i' \<Longrightarrow> edit_end (os ! k) \<le> ce'" "\<And>k. j2 \<le> k \<Longrightarrow> k < j' \<Longrightarrow> edit_end (ts ! k) \<le> ce'"
      using IH by blast+
    have os: "edit_end (os ! k) \<le> ce'" if "i \<le> k" "k < i'" for k
      using early(1) [OF that(1)] late(1) [OF _ that(2)] \<open>e1 \<le> ce'\<close> by (cases "k < i1") simp_all
    have ts: "edit_end (ts ! k) \<le> ce'" if "j \<le> k" "k < j'" for k
      using early(2) [OF that(1)] late(2) [OF _ that(2)] \<open>e2 \<le> ce'\<close> by (cases "k < j2") simp_all
    have le: "i \<le> length os \<longrightarrow> i1 \<le> length os" "j \<le> length ts \<longrightarrow> j2 \<le> length ts"
      using a1 a2 by (auto simp: le_less)
    have ge: "ce \<le> ce'"
      using order_trans [OF conjunct1 [OF f1] order_trans [OF conjunct1 [OF f2] conjunct1 [OF IH]]] .
    have bound: "ce' \<le> n" if "\<forall>e \<in> set os \<union> set ts. edit_end e \<le> n" "ce \<le> n"
      using IH f1 f2 that by blast
    show ?thesis using ge os ts le bound IH by blast
  qed
qed

lemma edit_inside_grow:
  "edit_inside_conflict e cs ce \<Longrightarrow> cs < ce \<Longrightarrow> ce \<le> ce' \<Longrightarrow> edit_inside_conflict e cs ce'"
  by (auto simp: edit_inside_conflict_def split: if_splits)

lemma edits_from_drop: "edits_from n c es \<Longrightarrow> edits_from n c (drop k es)"
proof (induction es arbitrary: c k)
  case (Cons e es)
  show ?case
  proof (cases k)
    case (Suc k')
    have "edits_from n (Suc (edit_end e)) (drop k' es)" using Cons by simp
    then show ?thesis
      using edits_from_mono [of n "Suc (edit_end e)" "drop k' es" c] Cons.prems Suc by simp
  qed (use Cons in simp)
qed simp

lemma edits_from_later:
  assumes "edits_from n c (drop i es)" "i < i'" "i < length es"
  shows "edits_from n (Suc c) (drop i' es)"
proof -
  have d: "drop i es = es ! i # drop (Suc i) es" using assms(3) by (simp add: Cons_nth_drop_Suc)
  have "edits_from n (Suc (edit_end (es ! i))) (drop (i' - Suc i) (drop (Suc i) es))"
    using assms(1) edits_from_drop [of n "Suc (edit_end (es ! i))" "drop (Suc i) es"] unfolding d by simp
  then show ?thesis
    using edits_from_mono assms(1,2) unfolding d by fastforce
qed

lemma group_side:
  assumes "edits_from n cs (drop i es)" "i < i'" "i' \<le> length es" "cs < ce"
    and "i' < length es \<Longrightarrow> \<not> edit_inside_conflict (es ! i') cs ce"
    and "\<forall>k. i \<le> k \<and> k < i' \<longrightarrow> edit_end (es ! k) \<le> ce"
  obtains gs where "slice es i i' = Some gs" "drop i es = gs @ drop i' es"
    "edits_from n ce (drop i' es)" "\<forall>e \<in> set gs. edit_end e \<le> ce"
proof
  show "slice es i i' = Some (range_of es i i')" using assms(2,3) by (simp add: slice_Some)
  show "drop i es = range_of es i i' @ drop i' es" using assms(2) by (simp add: range_of_drop)
  show "\<forall>e \<in> set (range_of es i i'). edit_end e \<le> ce"
    using assms(2,3,6) by (auto simp: in_set_conv_nth length_range_of nth_range_of)
  have later: "edits_from n (Suc cs) (drop i' es)" using assms(1-3) by (intro edits_from_later) auto
  show "edits_from n ce (drop i' es)"
  proof (cases "i' < length es")
    case True
    then have d: "drop i' es = es ! i' # drop (Suc i') es" by (simp add: Cons_nth_drop_Suc)
    have "ce \<le> edit_start (es ! i')"
      using assms(4) assms(5) [OF True] later
      unfolding d by (auto simp: edit_inside_conflict_def is_insertion_def split: if_splits)
    then show ?thesis using later unfolding d by simp
  qed simp
qed

section \<open>The loop\<close>

definition merge_inv ::
  "line list \<Rightarrow> edit_region list \<Rightarrow> edit_region list \<Rightarrow> line list \<Rightarrow> line list \<Rightarrow> rstring option \<Rightarrow>
    merge_state \<Rightarrow> piece list \<Rightarrow> bool" where
  "merge_inv base os ts ours theirs path st pieces \<longleftrightarrow>
     side_inv base (ms_base_pos st) (drop (ms_ours_index st) os) (concat (map ours_part pieces)) ours \<and>
     side_inv base (ms_base_pos st) (drop (ms_theirs_index st) ts) (concat (map theirs_part pieces)) theirs \<and>
     concat (map base_part pieces) = take (ms_base_pos st) base \<and>
     ms_hunks st = piece_hunks path pieces \<and>
     ms_conflicted st = list_ex is_clash pieces \<and> list_all piece_ok pieces"

lemmas hunk_push = push_lines_coalesce push_bytes_coalesce push_conflict_coalesce

lemma side_inv_start: "side_inv base pos (e # es) view side \<Longrightarrow> pos \<le> edit_start e \<and> edit_start e \<le> edit_end e \<and> edit_end e \<le> length base"
  by (simp add: side_inv_def)

lemma take_ours_inv:
  assumes inv: "merge_inv base os ts ours theirs path st pieces"
    and d: "drop (ms_ours_index st) os = e # es"
    and other: "edits_from (length base) (edit_end e) (drop (ms_theirs_index st) ts)"
  shows "\<exists>pieces' st'. take_ours base e st = Some st' \<and> merge_inv base os ts ours theirs path st' pieces'"
proof -
  let ?pos = "ms_base_pos st"
  let ?ps = "pieces @ [Kept (range_of base ?pos (edit_start e)),
      OursEdit (range_of base (edit_start e) (edit_end e)) (edit_replacement e)]"
  have so: "side_inv base ?pos (e # es) (concat (map ours_part pieces)) ours"
    using inv d by (simp add: merge_inv_def)
  note b = side_inv_start [OF so]
  have st: "side_inv base ?pos (drop (ms_theirs_index st) ts) (concat (map theirs_part pieces)) theirs"
    using inv by (simp add: merge_inv_def)
  have tl: "drop (Suc (ms_ours_index st)) os = es" using d by (metis drop_Suc tl_drop list.sel(3))
  have mid: "range_of base ?pos (edit_start e) @ range_of base (edit_start e) (edit_end e) = range_of base ?pos (edit_end e)"
    using b by (simp add: range_of_append)
  then have "side_inv base (edit_end e) (drop (ms_theirs_index st) ts) (concat (map theirs_part ?ps)) theirs"
    using side_skip [OF st _ _ other] b by simp
  moreover have "concat (map base_part ?ps) = take (edit_end e) base"
    using inv b take_range [of ?pos "edit_end e" base] by (simp add: merge_inv_def mid)
  moreover have "slice base ?pos (edit_start e) = Some (range_of base ?pos (edit_start e))"
    using b by (simp add: slice_Some)
  ultimately show ?thesis
    using inv side_take [OF so] tl
    by (intro exI [of _ ?ps]) (simp add: take_ours_def apply_resolved_edit_def merge_inv_def piece_hunks_def hunk_push)
qed

lemma take_theirs_inv:
  assumes inv: "merge_inv base os ts ours theirs path st pieces"
    and d: "drop (ms_theirs_index st) ts = e # es"
    and other: "edits_from (length base) (edit_end e) (drop (ms_ours_index st) os)"
  shows "\<exists>pieces' st'. take_theirs base e st = Some st' \<and> merge_inv base os ts ours theirs path st' pieces'"
proof -
  let ?pos = "ms_base_pos st"
  let ?ps = "pieces @ [Kept (range_of base ?pos (edit_start e)),
      TheirsEdit (range_of base (edit_start e) (edit_end e)) (edit_replacement e)]"
  have so: "side_inv base ?pos (e # es) (concat (map theirs_part pieces)) theirs"
    using inv d by (simp add: merge_inv_def)
  note b = side_inv_start [OF so]
  have st: "side_inv base ?pos (drop (ms_ours_index st) os) (concat (map ours_part pieces)) ours"
    using inv by (simp add: merge_inv_def)
  have tl: "drop (Suc (ms_theirs_index st)) ts = es" using d by (metis drop_Suc tl_drop list.sel(3))
  have mid: "range_of base ?pos (edit_start e) @ range_of base (edit_start e) (edit_end e) = range_of base ?pos (edit_end e)"
    using b by (simp add: range_of_append)
  then have "side_inv base (edit_end e) (drop (ms_ours_index st) os) (concat (map ours_part ?ps)) ours"
    using side_skip [OF st _ _ other] b by simp
  moreover have "concat (map base_part ?ps) = take (edit_end e) base"
    using inv b take_range [of ?pos "edit_end e" base] by (simp add: merge_inv_def mid)
  moreover have "slice base ?pos (edit_start e) = Some (range_of base ?pos (edit_start e))"
    using b by (simp add: slice_Some)
  ultimately show ?thesis
    using inv side_take [OF so] tl
    by (intro exI [of _ ?ps]) (simp add: take_theirs_def apply_resolved_edit_def merge_inv_def piece_hunks_def hunk_push)
qed

lemma same_insertion_inv:
  assumes inv: "merge_inv base os ts ours theirs path st pieces"
    and d: "drop (ms_ours_index st) os = oe # es" "drop (ms_theirs_index st) ts = te # fs"
    and ins: "is_insertion oe" "is_insertion te" "edit_start oe = edit_start te"
    and shaped: "line_shaped (edit_replacement oe)" "line_shaped (edit_replacement te)"
  shows "\<exists>pieces' st'. same_insertion base path oe te st = Some st' \<and> merge_inv base os ts ours theirs path st' pieces'"
proof -
  let ?pos = "ms_base_pos st"
  let ?kept = "Kept (range_of base ?pos (edit_start oe))"
  have so: "side_inv base ?pos (oe # es) (concat (map ours_part pieces)) ours"
    and st: "side_inv base ?pos (te # fs) (concat (map theirs_part pieces)) theirs"
    using inv d by (simp_all add: merge_inv_def)
  note b = side_inv_start [OF so]
  have ends: "edit_end oe = edit_start oe" "edit_end te = edit_start oe" "edit_start te = edit_start oe"
    using ins by (simp_all add: is_insertion_def)
  have tl: "drop (Suc (ms_ours_index st)) os = es" "drop (Suc (ms_theirs_index st)) ts = fs"
    using d by (metis drop_Suc tl_drop list.sel(3))+
  have st': "side_inv base (edit_start oe) es
        (concat (map ours_part pieces) @ range_of base ?pos (edit_start oe) @ edit_replacement oe) ours"
      "side_inv base (edit_start oe) fs
        (concat (map theirs_part pieces) @ range_of base ?pos (edit_start oe) @ edit_replacement te) theirs"
    using side_take [OF so] side_take [OF st] by (simp_all add: ends)
  have base: "concat (map base_part pieces) @ range_of base ?pos (edit_start oe) = take (edit_start oe) base"
    using inv b take_range [of ?pos "edit_start oe" base] by (simp add: merge_inv_def)
  have sl: "slice base ?pos (edit_start oe) = Some (range_of base ?pos (edit_start oe))"
    using b by (simp add: slice_Some)
  note facts = same_insertion_def merge_inv_def piece_hunks_def hunk_push Let_def sl ends tl lines_to_bytes_def
  show ?thesis
  proof (cases "edit_replacement oe = edit_replacement te")
    case True
    then show ?thesis
      using inv base st'
      by (intro exI [of _ "pieces @ [?kept, Agreed [] (edit_replacement oe) (edit_replacement te)]"]) (simp add: facts)
  next
    case False
    then have "concat (edit_replacement oe) \<noteq> concat (edit_replacement te)" by (simp add: line_shaped_inject [OF shaped])
    with False show ?thesis
      using inv base st'
      by (intro exI [of _ "pieces @ [?kept, Clash [] (edit_replacement oe) (edit_replacement te)]"])
        (simp add: facts merge_conflict_new_def classify_content_conflict_def)
  qed
qed

lemma overlapping_inv:
  assumes inv: "merge_inv base os ts ours theirs path st pieces"
    and i: "ms_ours_index st < length os" "ms_theirs_index st < length ts"
    and ends: "\<forall>e \<in> set os \<union> set ts. edit_end e \<le> length base"
    and ov: "\<not> edit_end (os ! ms_ours_index st) \<le> edit_start (ts ! ms_theirs_index st)"
      "\<not> edit_end (ts ! ms_theirs_index st) \<le> edit_start (os ! ms_ours_index st)"
  shows "\<exists>pieces' st'. overlapping_edits base os ts path (os ! ms_ours_index st) (ts ! ms_theirs_index st) st = Some st' \<and>
    merge_inv base os ts ours theirs path st' pieces'"
proof -
  let ?pos = "ms_base_pos st" and ?i = "ms_ours_index st" and ?j = "ms_theirs_index st"
  let ?oe = "os ! ?i" and ?te = "ts ! ?j"
  define cs where "cs = min (edit_start ?oe) (edit_start ?te)"
  define ce0 where "ce0 = max (edit_end ?oe) (edit_end ?te)"
  obtain ce i' j' where g: "group_loop os ts cs ce0 ?i ?j = (ce, i', j')" by (metis prod_cases3)
  note facts = group_loop_facts [OF g, of "length base"]
  have so: "side_inv base ?pos (drop ?i os) (concat (map ours_part pieces)) ours"
    and st: "side_inv base ?pos (drop ?j ts) (concat (map theirs_part pieces)) theirs"
    and bp: "concat (map base_part pieces) = take ?pos base"
    using inv by (simp_all add: merge_inv_def)
  have d: "drop ?i os = ?oe # drop (Suc ?i) os" "drop ?j ts = ?te # drop (Suc ?j) ts"
    using i by (simp_all add: Cons_nth_drop_Suc)
  note bo = side_inv_start [OF so [unfolded d]] and bt = side_inv_start [OF st [unfolded d]]
  have pos: "?pos \<le> cs" and lt: "cs < ce0" and ce0: "ce0 \<le> length base"
    using bo bt ov by (auto simp: cs_def ce0_def)
  have ce: "ce0 \<le> ce" "ce \<le> length base" using facts ends ce0 by blast+
  have closed: "i' < length os \<Longrightarrow> \<not> edit_inside_conflict (os ! i') cs ce" "j' < length ts \<Longrightarrow> \<not> edit_inside_conflict (ts ! j') cs ce"
    and within: "\<forall>k. ?i \<le> k \<and> k < i' \<longrightarrow> edit_end (os ! k) \<le> ce" "\<forall>k. ?j \<le> k \<and> k < j' \<longrightarrow> edit_end (ts ! k) \<le> ce"
    and len: "i' \<le> length os" "j' \<le> length ts" and cslt: "cs < ce"
    using facts i lt by (blast, blast, blast, blast, simp, simp, simp)
  have inside: "edit_inside_conflict ?oe cs ce" "edit_inside_conflict ?te cs ce"
    using overlap_inside [OF ov] overlap_inside [OF ov(2,1)] edit_inside_grow [OF _ lt ce(1)]
    by (simp_all add: cs_def ce0_def min.commute max.commute)
  have adv: "?i < i'" "?j < j'"
    using closed i inside group_loop_advances [OF g] le_neq_implies_less by blast+
  have eo: "edits_from (length base) cs (drop ?i os)" and et: "edits_from (length base) cs (drop ?j ts)"
    using so st unfolding d side_inv_def cs_def by auto
  obtain go where go: "slice os ?i i' = Some go" "drop ?i os = go @ drop i' os"
      "edits_from (length base) ce (drop i' os)" "\<forall>e \<in> set go. edit_end e \<le> ce"
    by (rule group_side [OF eo adv(1) len(1) cslt closed(1) within(1)])
  obtain gt where gt: "slice ts ?j j' = Some gt" "drop ?j ts = gt @ drop j' ts"
      "edits_from (length base) ce (drop j' ts)" "\<forall>e \<in> set gt. edit_end e \<le> ce"
    by (rule group_side [OF et adv(2) len(2) cslt closed(2) within(2)])
  let ?b = "range_of base cs ce" and ?o = "apply_range base go cs ce" and ?t = "apply_range base gt cs ce"
  have cse: "cs \<le> ce" "cs \<le> length base" using lt ce by simp_all
  have eqs: "apply_edits_to_range base go cs ce = Some (concat ?o)" "apply_edits_to_range base gt cs ce = Some (concat ?t)"
    using apply_edits_to_range_eq edits_from_append1 eo et go(2,4) gt(2,4) cse ce(2) by metis+
  have sides: "side_inv base ce (drop i' os) (concat (map ours_part pieces) @ range_of base ?pos cs @ ?o) ours"
      "side_inv base ce (drop j' ts) (concat (map theirs_part pieces) @ range_of base ?pos cs @ ?t) theirs"
    using side_group [OF so [unfolded go(2)] pos cse(1) ce(2) eo [unfolded go(2)] go(4,3)]
      side_group [OF st [unfolded gt(2)] pos cse(1) ce(2) et [unfolded gt(2)] gt(4,3)] by simp_all
  have bases: "concat (map base_part pieces) @ range_of base ?pos cs @ ?b = take ce base"
    using bp pos cse range_of_append [of ?pos cs ce base] take_range [of ?pos ce base] by simp
  have sl: "slice base ?pos cs = Some (range_of base ?pos cs)" "slice base cs ce = Some ?b"
    using pos cse ce by (simp_all add: slice_Some)
  note run = overlapping_edits_def conflict_group_def Let_def sl eqs go(1) gt(1) g
    cs_def [symmetric] ce0_def [symmetric] merge_inv_def piece_hunks_def hunk_push lines_to_bytes_def
  show ?thesis
  proof (cases "concat ?o = concat ?t")
    case True
    then show ?thesis
      using inv bases sides
      by (intro exI [of _ "pieces @ [Kept (range_of base ?pos cs), Agreed ?b ?o ?t]"]) (simp add: run)
  next
    case False
    then show ?thesis
      using inv bases sides
      by (intro exI [of _ "pieces @ [Kept (range_of base ?pos cs), Clash ?b ?o ?t]"])
        (simp add: run merge_conflict_new_def)
  qed
qed

definition edits_good :: "line list \<Rightarrow> edit_region list \<Rightarrow> bool" where
  "edits_good base es \<longleftrightarrow> (\<forall>e \<in> set es. edit_end e \<le> length base \<and> line_shaped (edit_replacement e))"

lemma edits_from_next:
  "edits_from n pos (e # es) \<Longrightarrow> c \<le> edit_start e \<Longrightarrow> edits_from n c (e # es)"
  by simp

lemma merge_step_inv:
  assumes inv: "merge_inv base os ts ours theirs path st pieces"
    and more: "ms_ours_index st < length os \<or> ms_theirs_index st < length ts"
    and good: "edits_good base os" "edits_good base ts"
  shows "\<exists>pieces' st'. merge_step base os ts path st = Some st' \<and> merge_inv base os ts ours theirs path st' pieces'"
proof -
  let ?i = "ms_ours_index st" and ?j = "ms_theirs_index st"
  have eo: "edits_from (length base) (ms_base_pos st) (drop ?i os)" and et: "edits_from (length base) (ms_base_pos st) (drop ?j ts)"
    using inv by (simp_all add: merge_inv_def side_inv_def)
  have dos: "drop ?i os = os ! ?i # drop (Suc ?i) os" if "?i < length os" using that by (simp add: Cons_nth_drop_Suc)
  have dts: "drop ?j ts = ts ! ?j # drop (Suc ?j) ts" if "?j < length ts" using that by (simp add: Cons_nth_drop_Suc)
  show ?thesis
  proof (cases "?i < length os \<and> ?j < length ts")
    case False
    then consider "?i < length os" "\<not> ?j < length ts" | "\<not> ?i < length os" "?j < length ts" using more by blast
    then show ?thesis
    proof cases
      case 1
      then show ?thesis using take_ours_inv [OF inv dos] by (simp add: merge_step_def get_edit_def)
    next
      case 2
      then show ?thesis using take_theirs_inv [OF inv dts] by (simp add: merge_step_def get_edit_def)
    qed
  next
    case True
    let ?oe = "os ! ?i" and ?te = "ts ! ?j"
    have ends: "\<forall>e \<in> set os \<union> set ts. edit_end e \<le> length base" using good by (auto simp: edits_good_def)
    have shaped: "line_shaped (edit_replacement ?oe)" "line_shaped (edit_replacement ?te)"
      using good True by (simp_all add: edits_good_def)
    note fo = edits_from_next [OF eo [unfolded dos [OF conjunct1 [OF True]]], folded dos [OF conjunct1 [OF True]]]
    note ft = edits_from_next [OF et [unfolded dts [OF conjunct2 [OF True]]], folded dts [OF conjunct2 [OF True]]]
    show ?thesis
      using True same_insertion_inv [OF inv dos dts _ _ _ shaped] take_ours_inv [OF inv dos ft]
        take_theirs_inv [OF inv dts fo] overlapping_inv [OF inv _ _ ends]
      by (simp add: merge_step_def get_edit_def)
  qed
qed

lemma merge_loop_inv:
  assumes "merge_inv base os ts ours theirs path st pieces" "edits_good base os" "edits_good base ts"
  shows "\<exists>pieces' st'. merge_loop base os ts path st = Some st' \<and> merge_inv base os ts ours theirs path st' pieces' \<and>
    length os \<le> ms_ours_index st' \<and> length ts \<le> ms_theirs_index st'"
  using assms
proof (induction base os ts path st arbitrary: pieces rule: merge_loop.induct)
  case (1 base os ts path st)
  show ?case
  proof (cases "ms_ours_index st < length os \<or> ms_theirs_index st < length ts")
    case True
    obtain pieces' st' where step: "merge_step base os ts path st = Some st'"
        "merge_inv base os ts ours theirs path st' pieces'"
      using merge_step_inv [OF "1.prems"(1) True "1.prems"(2,3)] by blast
    show ?thesis
      using "1.IH" [OF True step "1.prems"(2,3)] True step(1) by (simp add: merge_loop.simps [of base os ts path st])
  next
    case False
    then show ?thesis using "1.prems"(1) by (auto simp: merge_loop.simps [of base os ts path st] not_less)
  qed
qed

lemma edit_regions_good: "edits_good (split_lines base) (edit_regions (split_lines base) (split_lines side))"
proof -
  have ends: "edits_from n c es \<Longrightarrow> e \<in> set es \<Longrightarrow> edit_end e \<le> n" for n c es and e :: edit_region
    by (induction es arbitrary: c) auto
  show ?thesis
    using ends [OF edit_regions_from] edit_regions_shaped [OF line_shaped_split_lines] by (simp add: edits_good_def)
qed

lemma split_lines_bytes: "concat (split_lines bs) = bs"
  by (simp add: split_lines_def concat_split_loop)

definition start_state :: merge_state where
  "start_state = \<lparr>ms_hunks = [], ms_base_pos = 0, ms_ours_index = 0, ms_theirs_index = 0, ms_conflicted = False\<rparr>"

text \<open>The whole loop on three texts, with the lines after the last edit.\<close>

lemma merge_loop_explained:
  fixes base ours theirs :: bytes
  defines "bl \<equiv> split_lines base"
  obtains st pieces where
    "merge_loop bl (edit_regions bl (split_lines ours)) (edit_regions bl (split_lines theirs)) path start_state = Some st"
    "ms_base_pos st \<le> length bl" "explains pieces base ours theirs"
    "push_resolved_lines (ms_hunks st) (range_of bl (ms_base_pos st) (length bl)) = piece_hunks path pieces"
    "ms_conflicted st = list_ex is_clash pieces"
proof -
  let ?os = "edit_regions bl (split_lines ours)" and ?ts = "edit_regions bl (split_lines theirs)"
  have "merge_inv bl ?os ?ts (split_lines ours) (split_lines theirs) path start_state []"
    by (simp add: merge_inv_def side_inv_def start_state_def edit_regions_from edit_regions_apply piece_hunks_def)
  from merge_loop_inv [OF this] obtain pieces st where
      loop: "merge_loop bl ?os ?ts path start_state = Some st"
      and inv: "merge_inv bl ?os ?ts (split_lines ours) (split_lines theirs) path st pieces"
      and fin: "length ?os \<le> ms_ours_index st" "length ?ts \<le> ms_theirs_index st"
    using edit_regions_good unfolding bl_def by blast
  let ?rest = "range_of bl (ms_base_pos st) (length bl)"
  have rest: "drop (ms_base_pos st) bl = ?rest" by (simp add: range_of_def)
  have views: "concat (map ours_part pieces) @ ?rest = split_lines ours"
      "concat (map theirs_part pieces) @ ?rest = split_lines theirs" and pos: "ms_base_pos st \<le> length bl"
    using inv fin by (simp_all add: merge_inv_def side_inv_def rest)
  have "concat (map base_part pieces) @ ?rest = bl"
    using inv take_range [OF pos, of bl] by (simp add: merge_inv_def)
  with views have "concat (map base_part (pieces @ [Kept ?rest])) = bl"
      "concat (map ours_part (pieces @ [Kept ?rest])) = split_lines ours"
      "concat (map theirs_part (pieces @ [Kept ?rest])) = split_lines theirs" by simp_all
  moreover have "list_all piece_ok (pieces @ [Kept ?rest])" using inv by (simp add: merge_inv_def)
  ultimately have "explains (pieces @ [Kept ?rest]) base ours theirs"
    unfolding explains_def by (simp only: bl_def split_lines_bytes)
  moreover have "push_resolved_lines (ms_hunks st) ?rest = piece_hunks path (pieces @ [Kept ?rest])"
      "ms_conflicted st = list_ex is_clash (pieces @ [Kept ?rest])"
    using inv by (simp_all add: merge_inv_def piece_hunks_def push_lines_coalesce)
  ultimately show ?thesis using that loop pos by blast
qed

definition mergeable_text :: "bytes \<Rightarrow> bool" where
  "mergeable_text bs \<longleftrightarrow> 0 \<notin> set bs \<and> length bs \<le> MAX_TEXT_MERGE_BYTES"

lemma merge_present_explained:
  assumes "mergeable_text base" "mergeable_text ours" "mergeable_text theirs"
  obtains pieces where "explains pieces base ours theirs"
    "merge_present_lines input base ours theirs = Some (outcome_of (mi_path input) pieces)"
    "\<exists>st. merge_loop (split_lines base) (edit_regions (split_lines base) (split_lines ours))
       (edit_regions (split_lines base) (split_lines theirs)) (mi_path input) start_state = Some st \<and>
       ms_conflicted st = list_ex is_clash pieces"
proof -
  obtain st pieces where
    loop: "merge_loop (split_lines base) (edit_regions (split_lines base) (split_lines ours))
      (edit_regions (split_lines base) (split_lines theirs)) (mi_path input) start_state = Some st"
    and r: "ms_base_pos st \<le> length (split_lines base)" "explains pieces base ours theirs"
      "push_resolved_lines (ms_hunks st) (range_of (split_lines base) (ms_base_pos st) (length (split_lines base))) =
        piece_hunks (mi_path input) pieces"
      "ms_conflicted st = list_ex is_clash pieces"
    using merge_loop_explained [of base ours theirs "mi_path input"] by metis
  have "merge_present_lines input base ours theirs = Some (outcome_of (mi_path input) pieces)"
    using assms loop r unfolding start_state_def
    by (simp add: merge_present_lines_def mergeable_text_def exceeds_text_limit_def Let_def slice_Some outcome_of_def
        piece_hunks_def concat_resolved_coalesce)
  then show ?thesis using that r(2,4) loop by blast
qed

end
