(* ===== verification/Merge_Properties.thy ===== *)
theory Merge_Properties
  imports Merge_Correctness
begin

text \<open>
  The properties of the merge engine: what a merge of three texts is made of, when it cannot
  conflict, what it answers when a version is missing or one side did not change, and which
  strategy answers.
\<close>

section \<open>The default engine\<close>

lemma merge_file_line:
  "merge_line_input input = Some outcome \<Longrightarrow>
     merge_file input = Some \<lparr>mr_strategy = bstr ''line'', mr_outcome = outcome\<rparr>"
  by (simp add: merge_file_def engine_merge_def default_text_def with_strategy_def engine_new_def
      line_merge_strategy_def line_merge_file_def merge_result_new_def del: bstr_simps)

abbreviation three_way :: "rstring option \<Rightarrow> bytes \<Rightarrow> bytes \<Rightarrow> bytes \<Rightarrow> file_merge_input" where
  "three_way path base ours theirs \<equiv> file_merge_input_new path (Some base) (Some ours) (Some theirs)"

text \<open>Two edits that keep apart: one ends where the other starts or earlier, and they are not two
  insertions at one place.\<close>

definition separate :: "edit_region \<Rightarrow> edit_region \<Rightarrow> bool" where
  "separate e f \<longleftrightarrow> (edit_end e \<le> edit_start f \<or> edit_end f \<le> edit_start e) \<and>
     \<not> (is_insertion e \<and> is_insertion f \<and> edit_start e = edit_start f)"

lemma separate_step:
  assumes "\<forall>e \<in> set os. \<forall>f \<in> set ts. separate e f"
    and "merge_step base os ts path st = Some st'" "\<not> ms_conflicted st"
  shows "\<not> ms_conflicted st'"
proof (cases "ms_ours_index st < length os \<and> ms_theirs_index st < length ts")
  case True
  then have "separate (os ! ms_ours_index st) (ts ! ms_theirs_index st)" using assms(1) by simp
  with True show ?thesis
    using assms(2,3)
    by (auto simp: merge_step_def get_edit_def separate_def take_ours_def take_theirs_def split: if_splits bind_splits)
next
  case False
  then show ?thesis
    using assms(2,3)
    by (auto simp: merge_step_def get_edit_def take_ours_def take_theirs_def split: if_splits bind_splits)
qed

lemma separate_loop:
  "\<forall>e \<in> set os. \<forall>f \<in> set ts. separate e f \<Longrightarrow> merge_loop base os ts path st = Some st' \<Longrightarrow>
     \<not> ms_conflicted st \<Longrightarrow> \<not> ms_conflicted st'"
proof (induction base os ts path st rule: merge_loop.induct)
  case (1 base os ts path st)
  then show ?case
    using merge_loop.simps [of base os ts path st] separate_step [of os ts base path st]
    by (auto split: if_splits option.splits)
qed

definition all_separate :: "bytes \<Rightarrow> bytes \<Rightarrow> bytes \<Rightarrow> bool" where
  "all_separate base ours theirs \<longleftrightarrow>
     (\<forall>e \<in> set (edit_regions (split_lines base) (split_lines ours)).
      \<forall>f \<in> set (edit_regions (split_lines base) (split_lines theirs)). separate e f)"

lemma merge_line_explained:
  assumes "mergeable_text base" "mergeable_text ours" "mergeable_text theirs"
  obtains pieces where "explains pieces base ours theirs"
    "merge_line_input (three_way path base ours theirs) = Some (outcome_of path pieces)"
    "all_separate base ours theirs \<Longrightarrow> \<not> list_ex is_clash pieces"
proof -
  let ?in = "three_way path base ours theirs"
  have path: "mi_path ?in = path" by (simp add: file_merge_input_new_def)
  obtain pieces st where p: "explains pieces base ours theirs"
      "merge_present_lines ?in base ours theirs = Some (outcome_of path pieces)"
      "merge_loop (split_lines base) (edit_regions (split_lines base) (split_lines ours))
         (edit_regions (split_lines base) (split_lines theirs)) path start_state = Some st"
      "ms_conflicted st = list_ex is_clash pieces"
    using merge_present_explained [OF assms, of ?in, unfolded path] by blast
  have nc: "\<not> list_ex is_clash pieces" if "all_separate base ours theirs"
    using separate_loop [OF that [unfolded all_separate_def] p(3)] p(4) by (simp add: start_state_def)
  note facts = explains_def outcome_of_def merge_line_input_def file_merge_input_new_def resolved_present_def
  consider "ours = theirs" | "ours \<noteq> theirs" "base = ours" | "ours \<noteq> theirs" "base \<noteq> ours" "base = theirs"
    | "ours \<noteq> theirs" "base \<noteq> ours" "base \<noteq> theirs" by blast
  then show ?thesis
  proof cases
    case 1
    then show ?thesis by (intro that [of "[Agreed [base] [ours] [theirs]]"]) (simp_all add: facts)
  next
    case 2
    then show ?thesis by (intro that [of "[TheirsEdit [base] [theirs]]"]) (simp_all add: facts)
  next
    case 3
    then show ?thesis by (intro that [of "[OursEdit [base] [ours]]"]) (simp_all add: facts)
  next
    case 4
    then have "merge_line_input ?in = merge_present_lines ?in base ours theirs"
      by (simp add: merge_line_input_def file_merge_input_new_def)
    then show ?thesis using that p nc by simp
  qed
qed

section \<open>Exchanging the sides\<close>

definition swap_conflict :: "merge_conflict \<Rightarrow> merge_conflict" where
  "swap_conflict c = c\<lparr>mc_ours := mc_theirs c, mc_theirs := mc_ours c\<rparr>"

definition swap_hunk :: "merge_hunk \<Rightarrow> merge_hunk" where
  "swap_hunk h = (case h of HunkResolved bs \<Rightarrow> HunkResolved bs | HunkConflict c \<Rightarrow> HunkConflict (swap_conflict c))"

definition swap_outcome :: "merge_outcome \<Rightarrow> merge_outcome" where
  "swap_outcome oc = (case oc of Resolved f \<Rightarrow> Resolved f | Conflicted hs \<Rightarrow> Conflicted (map swap_hunk hs))"

definition swap_input :: "file_merge_input \<Rightarrow> file_merge_input" where
  "swap_input i = i\<lparr>mi_ours := mi_theirs i, mi_theirs := mi_ours i\<rparr>"

definition swap_state :: "merge_state \<Rightarrow> merge_state" where
  "swap_state st = st\<lparr>ms_hunks := map swap_hunk (ms_hunks st), ms_ours_index := ms_theirs_index st,
     ms_theirs_index := ms_ours_index st\<rparr>"

lemma swap_hunk_simps [simp]:
  "swap_hunk (HunkResolved bs) = HunkResolved bs"
  "swap_hunk (HunkConflict c) = HunkConflict (swap_conflict c)"
  by (simp_all add: swap_hunk_def)

lemma swap_push_bytes: "push_resolved_bytes (map swap_hunk hs) bs = map swap_hunk (push_resolved_bytes hs bs)"
  by (cases hs rule: rev_cases) (auto simp: push_resolved_bytes_def split: merge_hunk.splits)

lemma swap_push_lines: "push_resolved_lines (map swap_hunk hs) ls = map swap_hunk (push_resolved_lines hs ls)"
  by (simp add: push_resolved_lines_def swap_push_bytes)

lemma swap_push_conflict:
  "push_conflict (map swap_hunk hs) kind path b theirs ours = map swap_hunk (push_conflict hs kind path b ours theirs)"
  by (simp add: push_conflict_def swap_conflict_def merge_conflict_new_def)

lemma swap_concat_resolved: "concat_resolved_hunks (map swap_hunk hs) = concat_resolved_hunks hs"
  by (induction hs rule: concat_resolved_hunks.induct) simp_all

lemmas swap_push = swap_push_bytes swap_push_lines swap_push_conflict

text \<open>A group is the least one that is closed, so the order in which the sides are read is irrelevant.\<close>

definition group_closed ::
  "edit_region list \<Rightarrow> nat \<Rightarrow> nat \<Rightarrow> nat \<Rightarrow> nat \<Rightarrow> bool" where
  "group_closed es cs k C K \<longleftrightarrow> (K < length es \<longrightarrow> \<not> edit_inside_conflict (es ! K) cs C) \<and>
     (\<forall>m. k \<le> m \<and> m < K \<longrightarrow> edit_end (es ! m) \<le> C)"

lemma take_inside_least:
  "take_inside es cs ce k ch = (ce', k', ch') \<Longrightarrow> group_closed es cs k0 C K \<Longrightarrow> cs < ce \<Longrightarrow> ce \<le> C \<Longrightarrow> k0 \<le> k \<Longrightarrow>
     k \<le> K \<Longrightarrow> ce' \<le> C \<and> k' \<le> K"
proof (induction es cs ce k ch arbitrary: ce' k' ch' rule: take_inside.induct)
  case (1 es cs ce k ch)
  show ?case
  proof (cases "k < length es \<and> edit_inside_conflict (es ! k) cs ce")
    case True
    then have rec: "take_inside es cs (max ce (edit_end (es ! k))) (k + 1) True = (ce', k', ch')"
      using "1.prems"(1) by (simp add: take_inside.simps [of es cs ce k])
    have "edit_inside_conflict (es ! k) cs C" using True edit_inside_grow "1.prems"(3,4) by blast
    then have "k < K" using True "1.prems"(2,6) by (auto simp: group_closed_def le_less)
    moreover have "edit_end (es ! k) \<le> C" using "1.prems"(2,5) \<open>k < K\<close> by (simp add: group_closed_def)
    ultimately show ?thesis using "1.IH" [OF True rec "1.prems"(2)] "1.prems" by simp
  next
    case False
    then have "take_inside es cs ce k ch = (ce, k, ch)" by (subst take_inside.simps) (simp only: if_False)
    then show ?thesis using "1.prems" by simp
  qed
qed

lemma group_loop_least:
  "group_loop os ts cs ce i j = (ce', i', j') \<Longrightarrow> group_closed os cs i0 C I \<Longrightarrow> group_closed ts cs j0 C J \<Longrightarrow>
     cs < ce \<Longrightarrow> ce \<le> C \<Longrightarrow> i0 \<le> i \<Longrightarrow> i \<le> I \<Longrightarrow> j0 \<le> j \<Longrightarrow> j \<le> J \<Longrightarrow> ce' \<le> C \<and> i' \<le> I \<and> j' \<le> J"
proof (induction os ts cs ce i j arbitrary: ce' i' j' rule: group_loop.induct)
  case (1 os ts cs ce i j)
  obtain e1 i1 c1 where t1: "take_inside os cs ce i False = (e1, i1, c1)" by (metis prod_cases3)
  obtain e2 j2 c2 where t2: "take_inside ts cs e1 j c1 = (e2, j2, c2)" by (metis prod_cases3)
  have f1: "ce \<le> e1" "i \<le> i1" using take_inside_facts [OF t1] take_inside_advances [OF t1] by blast+
  have f2: "e1 \<le> e2" "j \<le> j2" using take_inside_facts [OF t2] take_inside_advances [OF t2] by blast+
  have l1: "e1 \<le> C" "i1 \<le> I" using take_inside_least [OF t1 "1.prems"(2,4-7)] by simp_all
  have l2: "e2 \<le> C" "j2 \<le> J" using take_inside_least [OF t2 "1.prems"(3) _ l1(1) "1.prems"(8,9)] f1 "1.prems"(4) by simp_all
  show ?case
  proof (cases c2)
    case True
    then have rec: "group_loop os ts cs e2 i1 j2 = (ce', i', j')"
      using "1.prems"(1) t1 t2 by (simp add: group_loop.simps [of os ts cs ce])
    show ?thesis
      by (rule "1.IH" [OF t1 [symmetric] refl t2 [symmetric] refl True rec "1.prems"(2,3)])
        (use f1 f2 l1 l2 "1.prems"(4-) in simp_all)
  next
    case False
    then show ?thesis using "1.prems"(1) t1 t2 l1 l2 by (simp add: group_loop.simps [of os ts cs ce])
  qed
qed

lemma group_loop_closed:
  "group_loop os ts cs ce i j = (ce', i', j') \<Longrightarrow>
     group_closed os cs i ce' i' \<and> group_closed ts cs j ce' j' \<and> ce \<le> ce' \<and> i \<le> i' \<and> j \<le> j'"
  using group_loop_facts [of os ts cs ce i j ce' i' j'] group_loop_advances [of os ts cs ce i j ce' i' j']
  unfolding group_closed_def by blast

lemma group_loop_swap:
  assumes "cs < ce" "group_loop os ts cs ce i j = (ce', i', j')"
  shows "group_loop ts os cs ce j i = (ce', j', i')"
proof -
  obtain ce2 i2 j2 where g2: "group_loop ts os cs ce j i = (ce2, j2, i2)" by (metis prod_cases3)
  note c1 = group_loop_closed [OF assms(2)] and c2 = group_loop_closed [OF g2]
  have "ce' \<le> ce2 \<and> i' \<le> i2 \<and> j' \<le> j2"
    using group_loop_least [OF assms(2), of i ce2 i2 j j2] c2 assms(1) by simp
  moreover have "ce2 \<le> ce' \<and> j2 \<le> j' \<and> i2 \<le> i'"
    using group_loop_least [OF g2, of j ce' j' i i'] c1 assms(1) by simp
  ultimately show ?thesis using g2 by simp
qed

lemma swap_state_simps [simp]:
  "ms_ours_index (swap_state st) = ms_theirs_index st" "ms_theirs_index (swap_state st) = ms_ours_index st"
  "ms_base_pos (swap_state st) = ms_base_pos st" "ms_conflicted (swap_state st) = ms_conflicted st"
  "ms_hunks (swap_state st) = map swap_hunk (ms_hunks st)"
  by (simp_all add: swap_state_def)

lemma take_ours_swap: "take_ours base e (swap_state st) = map_option swap_state (take_theirs base e st)"
  by (cases "slice base (ms_base_pos st) (edit_start e)")
    (auto simp: take_ours_def take_theirs_def apply_resolved_edit_def swap_push intro!: merge_state.equality)

lemma take_theirs_swap: "take_theirs base e (swap_state st) = map_option swap_state (take_ours base e st)"
  by (cases "slice base (ms_base_pos st) (edit_start e)")
    (auto simp: take_ours_def take_theirs_def apply_resolved_edit_def swap_push intro!: merge_state.equality)

lemma same_insertion_swap:
  "edit_start oe = edit_start te \<Longrightarrow>
     same_insertion base path te oe (swap_state st) = map_option swap_state (same_insertion base path oe te st)"
  by (cases "slice base (ms_base_pos st) (edit_start te)")
    (auto simp: same_insertion_def Let_def swap_push intro!: merge_state.equality)

lemma classify_swap: "classify_content_conflict b t u = classify_content_conflict b u t"
  by (auto simp: classify_content_conflict_def)

lemma overlapping_swap:
  assumes "\<not> edit_end oe \<le> edit_start te" "\<not> edit_end te \<le> edit_start oe"
  shows "overlapping_edits base ts os path te oe (swap_state st) =
    map_option swap_state (overlapping_edits base os ts path oe te st)"
proof -
  define cs ce where "cs = min (edit_start oe) (edit_start te)" and "ce = max (edit_end oe) (edit_end te)"
  have cs: "min (edit_start te) (edit_start oe) = cs" "max (edit_end te) (edit_end oe) = ce"
    by (simp_all add: cs_def ce_def min.commute max.commute)
  obtain ce' i' j' where g: "group_loop os ts cs ce (ms_ours_index st) (ms_theirs_index st) = (ce', i', j')"
    by (metis prod_cases3)
  have "cs < ce" using assms by (auto simp: cs_def ce_def)
  note g' = group_loop_swap [OF this g]
  show ?thesis
    unfolding overlapping_edits_def conflict_group_def cs cs_def [symmetric] ce_def [symmetric] swap_state_simps g g'
      Let_def prod.case swap_push
    by (cases "slice base (ms_base_pos st) cs"; cases "slice os (ms_ours_index st) i'"; cases "slice ts (ms_theirs_index st) j'";
        cases "slice base cs ce'"; auto simp: classify_swap swap_push split: bind_splits intro!: merge_state.equality)
qed

lemma merge_step_swap:
  assumes "\<forall>e \<in> set os \<union> set ts. edit_start e \<le> edit_end e"
  shows "merge_step base ts os path (swap_state st) = map_option swap_state (merge_step base os ts path st)"
proof (cases "ms_ours_index st < length os \<and> ms_theirs_index st < length ts")
  case False
  then show ?thesis
    by (auto simp: merge_step_def get_edit_def take_ours_swap take_theirs_swap)
next
  case True
  let ?oe = "os ! ms_ours_index st" and ?te = "ts ! ms_theirs_index st"
  have le: "edit_start ?oe \<le> edit_end ?oe" "edit_start ?te \<le> edit_end ?te" using assms True by simp_all
  have both: "is_insertion ?oe \<and> is_insertion ?te \<and> edit_start ?oe = edit_start ?te"
    if "edit_end ?oe \<le> edit_start ?te" "edit_end ?te \<le> edit_start ?oe"
    using le that by (auto simp: is_insertion_def)
  show ?thesis
    using True both
    by (auto simp: merge_step_def get_edit_def take_ours_swap take_theirs_swap same_insertion_swap overlapping_swap)
qed

lemma merge_loop_swap:
  assumes "\<forall>e \<in> set os \<union> set ts. edit_start e \<le> edit_end e"
  shows "merge_loop base ts os path (swap_state st) = map_option swap_state (merge_loop base os ts path st)"
  using assms
proof (induction base os ts path st rule: merge_loop.induct)
  case (1 base os ts path st)
  show ?case
  proof (cases "ms_ours_index st < length os \<or> ms_theirs_index st < length ts")
    case True
    show ?thesis
    proof (cases "merge_step base os ts path st")
      case None
      then show ?thesis
        using merge_step_swap [OF "1.prems", of base path st] True
        by (auto simp: merge_loop.simps [of base os ts path st] merge_loop.simps [of base ts os path "swap_state st"])
    next
      case (Some st')
      then show ?thesis
        using merge_step_swap [OF "1.prems", of base path st] True "1.IH" [OF True Some "1.prems"]
        by (auto simp: merge_loop.simps [of base os ts path st] merge_loop.simps [of base ts os path "swap_state st"])
    qed
  next
    case False
    then show ?thesis
      by (simp add: merge_loop.simps [of base os ts path st] merge_loop.simps [of base ts os path "swap_state st"])
  qed
qed

lemma edit_regions_ordered: "e \<in> set (edit_regions base side) \<Longrightarrow> edit_start e \<le> edit_end e"
proof -
  have "edits_from n c es \<Longrightarrow> e \<in> set es \<Longrightarrow> edit_start e \<le> edit_end e" for n c es
    by (induction es arbitrary: c) auto
  then show "e \<in> set (edit_regions base side) \<Longrightarrow> edit_start e \<le> edit_end e"
    using edit_regions_from by blast
qed

lemma merge_present_swap:
  "merge_present_lines (swap_input i) base theirs ours = map_option swap_outcome (merge_present_lines i base ours theirs)"
proof -
  let ?os = "edit_regions (split_lines base) (split_lines ours)" and ?ts = "edit_regions (split_lines base) (split_lines theirs)"
  have st: "swap_state start_state = start_state" by (simp add: start_state_def swap_state_def)
  have loop: "merge_loop (split_lines base) ?ts ?os (mi_path i) start_state =
      map_option swap_state (merge_loop (split_lines base) ?os ?ts (mi_path i) start_state)"
    using merge_loop_swap [of ?os ?ts "split_lines base" "mi_path i" start_state] edit_regions_ordered
    unfolding st by blast
  show ?thesis
    unfolding merge_present_lines_def start_state_def [symmetric] Let_def
    by (cases "merge_loop (split_lines base) ?os ?ts (mi_path i) start_state")
      (auto simp: loop swap_input_def whole_file_conflict_def whole_file_def swap_outcome_def swap_conflict_def
        swap_push_lines swap_concat_resolved split: bind_splits)
qed

lemma merge_line_swap: "merge_line_input (swap_input i) = map_option swap_outcome (merge_line_input i)"
proof (cases "(mi_base i, mi_ours i, mi_theirs i)")
  case (fields b ours theirs)
  then show ?thesis
    using merge_present_swap [of i]
    by (cases b; cases ours; cases theirs)
      (auto simp: merge_line_input_def swap_input_def swap_outcome_def swap_conflict_def resolved_present_def
        resolved_deleted_def whole_file_conflict_def whole_file_def)
qed

section \<open>The properties\<close>

text \<open>
  C27. The line merge is a three-way merge. For three texts without a NUL byte and of at most eight
  mebibytes, the merge never fails, and its outcome comes from a list of pieces that spells out the
  base, ours and theirs when read as each of them: lines both kept, an edit of ours that theirs left
  alone, an edit of theirs that ours left alone, a change both made with the same bytes, or a clash of
  different bytes. With no clash the file is the pieces with every edit applied; otherwise the hunks
  are the pieces in order, each clash a conflict that carries the three versions of exactly its part.
\<close>

theorem merge_file_explained:
  assumes "mergeable_text base" "mergeable_text ours" "mergeable_text theirs"
  shows "\<exists>pieces. explains pieces base ours theirs \<and>
    merge_file (three_way path base ours theirs) =
      Some \<lparr>mr_strategy = bstr ''line'', mr_outcome = outcome_of path pieces\<rparr>"
  using merge_line_explained [OF assms, of path] merge_file_line by metis

theorem merge_file_explained_witness:
  "mergeable_text [97, 10] \<and> mergeable_text [98, 10] \<and> mergeable_text [99, 10] \<and>
   (\<exists>pieces. explains pieces [97, 10] [98, 10] [99, 10] \<and>
     merge_file (three_way None [97, 10] [98, 10] [99, 10]) =
       Some \<lparr>mr_strategy = bstr ''line'', mr_outcome = outcome_of None pieces\<rparr>)"
proof -
  have "mergeable_text [97, 10]" "mergeable_text [98, 10]" "mergeable_text [99, 10]"
    by (simp_all add: mergeable_text_def MAX_TEXT_MERGE_BYTES_def)
  then show ?thesis using merge_file_explained [of "[97, 10]" "[98, 10]" "[99, 10]" None] by blast
qed

text \<open>
  C28. Edits that keep apart never conflict. When no edit of ours touches an edit of theirs, the merge of
  three texts resolves to a present file whose pieces have no clash, so every edit of both sides is in it.
\<close>

theorem merge_file_separate:
  assumes "mergeable_text base" "mergeable_text ours" "mergeable_text theirs"
    and "all_separate base ours theirs"
  shows "\<exists>pieces r. explains pieces base ours theirs \<and> \<not> list_ex is_clash pieces \<and>
    merge_file (three_way path base ours theirs) = Some r \<and>
    resolved_bytes r = Some (concat_resolved_hunks (map (piece_hunk path) pieces))"
proof -
  obtain pieces where p: "explains pieces base ours theirs"
      "merge_line_input (three_way path base ours theirs) = Some (outcome_of path pieces)"
      "\<not> list_ex is_clash pieces"
    using merge_line_explained [OF assms(1-3), of path] assms(4) by metis
  then show ?thesis
    using merge_file_line [OF p(2)]
    by (intro exI [of _ pieces]) (simp add: resolved_bytes_def resolved_file_def outcome_of_def)
qed

theorem merge_file_separate_witness:
  "all_separate [97, 10, 98, 10, 99, 10] [120, 10, 98, 10, 99, 10] [97, 10, 98, 10, 121, 10] \<and>
   (\<exists>r. merge_file (three_way None [97, 10, 98, 10, 99, 10] [120, 10, 98, 10, 99, 10] [97, 10, 98, 10, 121, 10]) =
      Some r \<and> is_resolved r)"
proof -
  let ?b = "[97, 10, 98, 10, 99, 10] :: bytes" and ?o = "[120, 10, 98, 10, 99, 10] :: bytes" and ?t = "[97, 10, 98, 10, 121, 10] :: bytes"
  have "mergeable_text ?b" "mergeable_text ?o" "mergeable_text ?t"
    by (simp_all add: mergeable_text_def MAX_TEXT_MERGE_BYTES_def)
  moreover have "all_separate ?b ?o ?t" by code_simp
  ultimately show ?thesis
    using merge_file_separate [of ?b ?o ?t None]
    by (auto simp: is_resolved_def resolved_bytes_def resolved_file_def split: option.splits merge_outcome.splits)
qed

text \<open>
  C29. Exchanging the sides exchanges the result. On every input, present, absent, binary or too large,
  merging with ours and theirs exchanged gives the same resolved file, or the same hunks with ours and
  theirs exchanged in every conflict.
\<close>

theorem merge_file_symmetric:
  "merge_file (swap_input input) =
     map_option (\<lambda>r. r\<lparr>mr_outcome := swap_outcome (mr_outcome r)\<rparr>) (merge_file input)"
  using merge_line_swap [of input]
  by (cases "merge_line_input input") (auto simp: merge_file_line, simp add: merge_file_def engine_merge_def
      default_text_def with_strategy_def engine_new_def line_merge_strategy_def line_merge_file_def)

definition file_state :: "bytes option \<Rightarrow> merged_file" where
  "file_state v = (case v of None \<Rightarrow> Deleted | Some bs \<Rightarrow> Present bs)"

lemma merge_present_total: "\<exists>oc. merge_present_lines input base ours theirs = Some oc"
proof (cases "mergeable_text base \<and> mergeable_text ours \<and> mergeable_text theirs")
  case True
  then show ?thesis using merge_present_explained [of base ours theirs input] by metis
next
  case False
  then show ?thesis
    by (auto simp: merge_present_lines_def mergeable_text_def exceeds_text_limit_def)
qed

lemma merge_line_total: "\<exists>oc. merge_line_input input = Some oc"
  using merge_present_total by (auto simp: merge_line_input_def split: option.splits)

lemma merge_line_one_sided:
  "mi_ours input = mi_theirs input \<or> mi_base input = mi_theirs input \<Longrightarrow>
     merge_line_input input = Some (Resolved (file_state (mi_ours input)))"
  "mi_base input = mi_ours input \<Longrightarrow> merge_line_input input = Some (Resolved (file_state (mi_theirs input)))"
  by (auto simp: merge_line_input_def file_state_def resolved_present_def resolved_deleted_def split: option.splits)

text \<open>
  C30. The merge never panics, and a side that did not change yields to the other. On every input the engine
  returns a result of the line strategy; where ours and theirs agree, or theirs is the base, the file is
  left as ours has it, deletion included; where ours is the base it is left as theirs has it.
\<close>

theorem merge_file_one_sided:
  "\<exists>r. merge_file input = Some r \<and> mr_strategy r = bstr ''line'' \<and>
     (mi_ours input = mi_theirs input \<or> mi_base input = mi_theirs input \<longrightarrow>
        resolved_file r = Some (file_state (mi_ours input))) \<and>
     (mi_base input = mi_ours input \<longrightarrow> resolved_file r = Some (file_state (mi_theirs input)))"
proof -
  obtain oc where oc: "merge_line_input input = Some oc" using merge_line_total by blast
  then show ?thesis
    using merge_file_line [OF oc] merge_line_one_sided [of input]
    by (intro exI [of _ "\<lparr>mr_strategy = bstr ''line'', mr_outcome = oc\<rparr>"])
      (auto simp: resolved_file_def simp del: bstr_simps)
qed

theorem merge_file_one_sided_witness:
  "\<exists>r. merge_file (file_merge_input_new None (Some [97]) (Some [97]) None) = Some r \<and> resolved_file r = Some Deleted"
  using merge_file_one_sided [of "file_merge_input_new None (Some [97]) (Some [97]) None"]
  by (auto simp: file_merge_input_new_def file_state_def)

text \<open>
  Whole-file conflicts. When both sides changed the file differently, the cases that lines cannot
  settle end in one conflict hunk that carries the path and all three versions unchanged: two different
  additions, a deletion against a modification, a NUL byte in any version, and otherwise a version above
  eight mebibytes.
\<close>

lemma merge_file_whole_conflicts:
  assumes "mi_ours input \<noteq> mi_theirs input" "mi_base input \<noteq> mi_ours input" "mi_base input \<noteq> mi_theirs input"
    and "kind = (if mi_base input = None then BothAdded
       else if mi_ours input = None \<or> mi_theirs input = None then ModifyDelete
       else if list_ex (\<lambda>v. 0 \<in> set (the v)) [mi_base input, mi_ours input, mi_theirs input] then Binary
       else TooLarge)"
    and "kind = TooLarge \<Longrightarrow> list_ex (\<lambda>v. length (the v) > MAX_TEXT_MERGE_BYTES) [mi_base input, mi_ours input, mi_theirs input]"
  shows "\<exists>r. merge_file input = Some r \<and> conflicts r = [\<lparr>mc_kind = kind, mc_path = mi_path input,
    mc_base = mi_base input, mc_ours = mi_ours input, mc_theirs = mi_theirs input\<rparr>] \<and>
    mr_outcome r = Conflicted (map HunkConflict (conflicts r))"
proof -
  have "merge_line_input input = Some (whole_file_conflict kind input)"
    using assms
    by (cases "mi_base input"; cases "mi_ours input"; cases "mi_theirs input")
      (auto simp: merge_line_input_def merge_present_lines_def exceeds_text_limit_def split: if_splits)
  from merge_file_line [OF this] show ?thesis
    by (simp add: conflicts_def whole_file_conflict_def whole_file_def map_filter_simps)
qed

lemma merge_file_whole_conflicts_example:
  "\<exists>r. merge_file (file_merge_input_new None (Some [97]) (Some [0]) (Some [98])) = Some r \<and>
     map mc_kind (conflicts r) = [Binary]"
  using merge_file_whole_conflicts [of "file_merge_input_new None (Some [97]) (Some [0]) (Some [98])" Binary]
  by (auto simp: file_merge_input_new_def)

lemma try_declined:
  "list_all (\<lambda>s. \<exists>reason. strategy_merge s input = Some (StrategyUnsupported reason)) ss \<Longrightarrow>
     try_strategies (ss @ later) input = try_strategies later input"
  by (induction ss) auto

text \<open>
  Strategies are tried in the order they were added. If every strategy before one declines the input and
  that one merges it, the engine returns its outcome under its name, whatever strategies follow; if all
  decline, the result is a conflict of the whole file that names no strategy.
\<close>

lemma engine_first_supported:
  assumes "list_all (\<lambda>s. \<exists>reason. strategy_merge s input = Some (StrategyUnsupported reason)) (strategies engine)"
  shows "engine_merge engine input =
      Some \<lparr>mr_strategy = bstr ''none'', mr_outcome = whole_file_conflict Unsupported input\<rparr> \<and>
    (strategy_merge s input = Some (Merged outcome) \<longrightarrow>
      engine_merge (fold (\<lambda>s e. with_strategy e s) (s # later) engine) input =
        Some \<lparr>mr_strategy = strategy_name s, mr_outcome = outcome\<rparr>)"
proof -
  have added: "strategies (fold (\<lambda>s e. with_strategy e s) ss e) = strategies e @ ss" for ss e
    by (induction ss arbitrary: e) (simp_all add: with_strategy_def)
  show ?thesis
    using try_declined [OF assms, of "[]"] try_declined [OF assms, of "s # later"] added [of "s # later" engine]
    by (auto simp: engine_merge_def merge_result_new_def whole_file_conflict_def simp del: fold_simps bstr_simps)
qed

lemma engine_first_supported_example:
  "engine_merge engine_new (file_merge_input_new None None None None) =
     Some \<lparr>mr_strategy = bstr ''none'',
       mr_outcome = whole_file_conflict Unsupported (file_merge_input_new None None None None)\<rparr>"
  using engine_first_supported [of "file_merge_input_new None None None None" engine_new] by (simp add: engine_new_def)

end
