(* ===== verification/Era_Names.thy ===== *)
theory Era_Names
  imports File_System
begin

text \<open>
  \<open>crates/repository/src/branch.rs\<close> and \<open>workspace.rs\<close>: branch names, workspace identifiers, their
  validation with every reason, and the pointer file of an external workspace. A path is the list of
  its components below the root; \<open>display_path\<close> and \<open>path_from\<close> are its forms as text.
\<close>

section \<open>Branch names\<close>

datatype branch_name = BranchName (branch_str: rstring)

datatype invalid_branch_name_reason =
    BranchEmpty | BranchCurrentDirectory | BranchParentDirectory
  | BranchContainsSlash | BranchContainsBackslash | BranchContainsNul

record invalid_branch_name =
  ibn_name :: rstring
  ibn_reason :: invalid_branch_name_reason

definition branch_reason_display :: "invalid_branch_name_reason \<Rightarrow> rstring" where
  "branch_reason_display r = bstr (case r of
      BranchEmpty \<Rightarrow> ''branch name is empty''
    | BranchCurrentDirectory \<Rightarrow> ''branch name cannot be '' @ [CHR 0x27, CHR ''.'', CHR 0x27]
    | BranchParentDirectory \<Rightarrow> ''branch name cannot be '' @ [CHR 0x27, CHR ''.'', CHR ''.'', CHR 0x27]
    | BranchContainsSlash \<Rightarrow> ''branch name contains '' @ [CHR 0x27, CHR ''/'', CHR 0x27]
    | BranchContainsBackslash \<Rightarrow> ''branch name contains '' @ [CHR 0x27, CHR 0x5C, CHR 0x27]
    | BranchContainsNul \<Rightarrow> ''branch name contains NUL'')"

definition validate_branch_name :: "rstring \<Rightarrow> invalid_branch_name + unit" where
  "validate_branch_name name =
    (let reason =
       (if name = [] then Some BranchEmpty
        else if name = bstr ''.'' then Some BranchCurrentDirectory
        else if name = bstr ''..'' then Some BranchParentDirectory
        else if 47 \<in> set name then Some BranchContainsSlash
        else if 92 \<in> set name then Some BranchContainsBackslash
        else if 0 \<in> set name then Some BranchContainsNul
        else None)
     in case reason of
          Some r \<Rightarrow> Err \<lparr>ibn_name = name, ibn_reason = r\<rparr>
        | None \<Rightarrow> Ok ())"

definition branch_new :: "rstring \<Rightarrow> invalid_branch_name + branch_name" where
  "branch_new value = bind_result (validate_branch_name value) (\<lambda>_. Ok (BranchName value))"

definition branch_main :: branch_name where
  "branch_main = BranchName (bstr ''main'')"

section \<open>Workspace identifiers\<close>

datatype workspace_id = WorkspaceId (workspace_str: rstring)

datatype invalid_workspace_id_reason =
    WorkspaceEmpty | WorkspaceCurrentDirectory | WorkspaceParentDirectory
  | WorkspaceContainsSlash | WorkspaceContainsBackslash | WorkspaceContainsNul

record invalid_workspace_id =
  iwi_id :: rstring
  iwi_reason :: invalid_workspace_id_reason

definition DEFAULT_WORKSPACE_ID :: rstring where
  "DEFAULT_WORKSPACE_ID = bstr ''default''"

definition workspace_reason_display :: "invalid_workspace_id_reason \<Rightarrow> rstring" where
  "workspace_reason_display r = bstr (case r of
      WorkspaceEmpty \<Rightarrow> ''workspace ID is empty''
    | WorkspaceCurrentDirectory \<Rightarrow> ''workspace ID cannot be '' @ [CHR 0x27, CHR ''.'', CHR 0x27]
    | WorkspaceParentDirectory \<Rightarrow> ''workspace ID cannot be '' @ [CHR 0x27, CHR ''.'', CHR ''.'', CHR 0x27]
    | WorkspaceContainsSlash \<Rightarrow> ''workspace ID contains '' @ [CHR 0x27, CHR ''/'', CHR 0x27]
    | WorkspaceContainsBackslash \<Rightarrow> ''workspace ID contains '' @ [CHR 0x27, CHR 0x5C, CHR 0x27]
    | WorkspaceContainsNul \<Rightarrow> ''workspace ID contains NUL'')"

definition validate_workspace_id :: "rstring \<Rightarrow> invalid_workspace_id + unit" where
  "validate_workspace_id i =
    (let reason =
       (if i = [] then Some WorkspaceEmpty
        else if i = bstr ''.'' then Some WorkspaceCurrentDirectory
        else if i = bstr ''..'' then Some WorkspaceParentDirectory
        else if 47 \<in> set i then Some WorkspaceContainsSlash
        else if 92 \<in> set i then Some WorkspaceContainsBackslash
        else if 0 \<in> set i then Some WorkspaceContainsNul
        else None)
     in case reason of
          Some r \<Rightarrow> Err \<lparr>iwi_id = i, iwi_reason = r\<rparr>
        | None \<Rightarrow> Ok ())"

definition workspace_new :: "rstring \<Rightarrow> invalid_workspace_id + workspace_id" where
  "workspace_new value = bind_result (validate_workspace_id value) (\<lambda>_. Ok (WorkspaceId value))"

definition workspace_default :: workspace_id where
  "workspace_default = WorkspaceId DEFAULT_WORKSPACE_ID"

section \<open>Paths as text\<close>

text \<open>
  One step of the lossy decoding: whether the bytes start with a character, and how many bytes the
  character, or the ill-formed part that one replacement character stands for, takes.
\<close>

definition utf8_step :: "bytes \<Rightarrow> bool \<times> nat" where
  "utf8_step bs = (case bs of
      [] \<Rightarrow> (True, 0)
    | b # bs1 \<Rightarrow>
       if b < 0x80 then (True, 1)
       else if 0xC2 \<le> b \<and> b \<le> 0xDF then
         (case bs1 of c1 # _ \<Rightarrow> if utf8_cont c1 then (True, 2) else (False, 1) | [] \<Rightarrow> (False, 1))
       else if 0xE0 \<le> b \<and> b \<le> 0xEF then
         (case bs1 of
            [] \<Rightarrow> (False, 1)
          | c1 # bs2 \<Rightarrow>
             if (if b = 0xE0 then 0xA0 \<le> c1 \<and> c1 \<le> 0xBF
                 else if b = 0xED then 0x80 \<le> c1 \<and> c1 \<le> 0x9F else utf8_cont c1)
             then (case bs2 of c2 # _ \<Rightarrow> if utf8_cont c2 then (True, 3) else (False, 2) | [] \<Rightarrow> (False, 2))
             else (False, 1))
       else if 0xF0 \<le> b \<and> b \<le> 0xF4 then
         (case bs1 of
            [] \<Rightarrow> (False, 1)
          | c1 # bs2 \<Rightarrow>
             if (if b = 0xF0 then 0x90 \<le> c1 \<and> c1 \<le> 0xBF
                 else if b = 0xF4 then 0x80 \<le> c1 \<and> c1 \<le> 0x8F else utf8_cont c1)
             then (case bs2 of
                [] \<Rightarrow> (False, 2)
              | c2 # bs3 \<Rightarrow>
                 if utf8_cont c2
                 then (case bs3 of c3 # _ \<Rightarrow> if utf8_cont c3 then (True, 4) else (False, 3) | [] \<Rightarrow> (False, 3))
                 else (False, 2))
             else (False, 1))
       else (False, 1))"

function utf8_lossy :: "bytes \<Rightarrow> rstring" where
  "utf8_lossy [] = []"
| "utf8_lossy (b # bs) =
    (case utf8_step (b # bs) of
       (valid, n) \<Rightarrow> (if valid then take n (b # bs) else [0xEF, 0xBF, 0xBD]) @ utf8_lossy (drop (max 1 n) (b # bs)))"
  by pat_completeness auto
termination
  by (relation "measure length") auto

declare utf8_lossy.simps(2) [simp del]

text \<open>\<open>Path::display\<close>: the components with slashes, ill-formed UTF-8 replaced.\<close>

definition display_path :: "path \<Rightarrow> rstring" where
  "display_path p = utf8_lossy (if p = [] then [47] else concat (map (\<lambda>c. 47 # c) p))"

fun split_slash :: "bytes \<Rightarrow> bytes \<Rightarrow> rstring list" where
  "split_slash current [] = [current]"
| "split_slash current (b # bs) =
    (if b = 47 then current # split_slash [] bs else split_slash (current @ [b]) bs)"

text \<open>\<open>PathBuf::from\<close>: repeated slashes and the component \<open>.\<close> do not count.\<close>

definition path_from :: "rstring \<Rightarrow> path" where
  "path_from s = filter (\<lambda>c. c \<noteq> [] \<and> c \<noteq> bstr ''.'') (split_slash [] s)"

section \<open>Workspace pointers\<close>

record workspace_pointer =
  wp_metadata_dir :: path
  wp_workspace_id :: workspace_id

definition workspace_pointer_new :: "path \<Rightarrow> workspace_id \<Rightarrow> workspace_pointer" where
  "workspace_pointer_new metadata_dir i = \<lparr>wp_metadata_dir = metadata_dir, wp_workspace_id = i\<rparr>"

definition to_pointer_file :: "workspace_pointer \<Rightarrow> rstring" where
  "to_pointer_file p =
     bstr ''era-workspace-v1'' @ [10] @ bstr ''metadata: '' @ display_path (wp_metadata_dir p) @ [10] @
     bstr ''workspace: '' @ workspace_str (wp_workspace_id p) @ [10]"

section \<open>Valid names\<close>

definition name_ok :: "rstring \<Rightarrow> bool" where
  "name_ok n \<longleftrightarrow> n \<noteq> [] \<and> n \<noteq> bstr ''.'' \<and> n \<noteq> bstr ''..'' \<and> set n \<inter> {47, 92, 0} = {}"

lemma branch_new_Ok: "branch_new n = Ok b \<longleftrightarrow> name_ok n \<and> b = BranchName n"
  by (auto simp: branch_new_def validate_branch_name_def name_ok_def bind_result_def Let_def split: if_splits)

lemma workspace_new_Ok: "workspace_new n = Ok b \<longleftrightarrow> name_ok n \<and> b = WorkspaceId n"
  by (auto simp: workspace_new_def validate_workspace_id_def name_ok_def bind_result_def Let_def split: if_splits)

lemma utf8_step_valid:
  assumes "utf8 (b # bs)"
  shows "\<exists>n. utf8_step (b # bs) = (True, Suc n) \<and> utf8 (drop n bs)"
proof -
  consider "b < 0x80" | "\<not> b < 0x80" "0xC2 \<le> b \<and> b \<le> 0xDF"
    | "\<not> b < 0x80" "\<not> (0xC2 \<le> b \<and> b \<le> 0xDF)" "0xE0 \<le> b \<and> b \<le> 0xEF"
    | "\<not> b < 0x80" "\<not> (0xC2 \<le> b \<and> b \<le> 0xDF)" "\<not> (0xE0 \<le> b \<and> b \<le> 0xEF)" by blast
  then show ?thesis
  proof cases
    case 1
    then show ?thesis using assms by (simp add: utf8_step_def)
  next
    case 2
    obtain c1 bs1 where "bs = c1 # bs1" using assms 2 by (cases bs) simp_all
    then show ?thesis using assms 2 by (simp add: utf8_step_def)
  next
    case 3
    obtain c1 bs1 where 1: "bs = c1 # bs1" using assms 3 by (cases bs) simp_all
    obtain c2 bs2 where 2: "bs1 = c2 # bs2" using assms 3 1 by (cases bs1) simp_all
    let ?ok = "if b = 0xE0 then 0xA0 \<le> c1 \<and> c1 \<le> 0xBF else if b = 0xED then 0x80 \<le> c1 \<and> c1 \<le> 0x9F else utf8_cont c1"
    have "?ok" "utf8_cont c2" "utf8 bs2"
      using assms unfolding 1 2 utf8.simps list.case if_not_P [OF 3(1)] if_not_P [OF 3(2)] if_P [OF 3(3)] by blast+
    then show ?thesis
      unfolding 1 2 utf8_step_def list.case if_not_P [OF 3(1)] if_not_P [OF 3(2)] if_P [OF 3(3)]
      by (simp only: if_True simp_thms) (intro exI [of _ 2], simp)
  next
    case 4
    obtain c1 bs1 where 1: "bs = c1 # bs1" using assms 4 by (cases bs) simp_all
    obtain c2 bs2 where 2: "bs1 = c2 # bs2" using assms 4 1 by (cases bs1) simp_all
    obtain c3 bs3 where 3: "bs2 = c3 # bs3" using assms 4 1 2 by (cases bs2) simp_all
    let ?ok = "if b = 0xF0 then 0x90 \<le> c1 \<and> c1 \<le> 0xBF else if b = 0xF4 then 0x80 \<le> c1 \<and> c1 \<le> 0x8F else utf8_cont c1"
    have lead: "0xF0 \<le> b \<and> b \<le> 0xF4" and "?ok" "utf8_cont c2" "utf8_cont c3" "utf8 bs3"
      using assms unfolding 1 2 3 utf8.simps list.case if_not_P [OF 4(1)] if_not_P [OF 4(2)] if_not_P [OF 4(3)] by blast+
    then show ?thesis
      unfolding 1 2 3 utf8_step_def list.case if_not_P [OF 4(1)] if_not_P [OF 4(2)] if_not_P [OF 4(3)] if_P [OF lead]
      by (simp only: if_True simp_thms) (intro exI [of _ 3], simp)
  qed
qed

lemma utf8_lossy_valid: "utf8 bs \<Longrightarrow> utf8_lossy bs = bs"
proof (induction bs rule: length_induct)
  case (1 bs)
  show ?case
  proof (cases bs)
    case (Cons b bs')
    obtain n where n: "utf8_step (b # bs') = (True, Suc n)" "utf8 (drop n bs')"
      using utf8_step_valid "1.prems" Cons by blast
    moreover have "utf8_lossy (drop n bs') = drop n bs'" using 1 n(2) Cons by simp
    ultimately show ?thesis using Cons by (simp add: utf8_lossy.simps(2))
  qed simp
qed

lemma split_slash_path:
  "47 \<notin> set c \<Longrightarrow> (\<And>d. d \<in> set p \<Longrightarrow> 47 \<notin> set d) \<Longrightarrow>
     split_slash current (c @ concat (map (\<lambda>c. 47 # c) p)) = (current @ c) # p"
proof (induction p arbitrary: c current)
  case Nil
  then show ?case
    by (induction c arbitrary: current) auto
next
  case (Cons d p)
  have "split_slash current (c @ 47 # rest) = (current @ c) # split_slash [] rest" if "47 \<notin> set c" for rest
    using that by (induction c arbitrary: current) auto
  then show ?case using Cons.IH [of d "[]"] Cons.prems by simp
qed

definition path_ok :: "path \<Rightarrow> bool" where
  "path_ok p \<longleftrightarrow> (\<forall>c \<in> set p. c \<noteq> [] \<and> c \<noteq> bstr ''.'' \<and> 47 \<notin> set c) \<and> utf8 (concat (map (\<lambda>c. 47 # c) p))"

lemma path_from_display: "path_ok p \<Longrightarrow> path_from (display_path p) = p"
proof (cases "p = []")
  case True
  then show ?thesis by (simp add: display_path_def path_from_def utf8_lossy_valid)
next
  case False
  assume ok: "path_ok p"
  then have "split_slash [] (concat (map (\<lambda>c. 47 # c) p)) = [] # p"
    using split_slash_path [of "[]" p "[]"] by (simp add: path_ok_def)
  moreover have "filter (\<lambda>c. c \<noteq> [] \<and> c \<noteq> bstr ''.'') p = p"
    using ok by (auto simp: path_ok_def filter_id_conv)
  ultimately show ?thesis
    using ok False by (simp add: display_path_def path_from_def path_ok_def utf8_lossy_valid)
qed

section \<open>The properties of names\<close>


end
