(* ===== verification/Materializer.thy ===== *)
theory Materializer
  imports Object_Store
begin

text \<open>
  \<open>crates/materialization/src/capture.rs\<close>, \<open>error.rs\<close> and \<open>working_directory.rs\<close>: the results, options
  and errors of capturing and materializing a working directory, and the trait \<open>Materializer\<close>. A trait
  object is the record of the methods that the repository calls; its clients are proved for every
  such record that keeps the laws they name.
\<close>

section \<open>Results\<close>

datatype capture_issue_kind = SkippedSymlink

record capture_issue =
  ci_path :: path
  ci_kind :: capture_issue_kind

record capture_stats =
  cs_files_seen :: nat
  cs_directories_seen :: nat
  cs_bytes_read :: u64
  cs_blobs_stored :: nat
  cs_trees_stored :: nat
  cs_ignored_entries :: nat
  cs_symlinks_skipped :: nat
  cs_hash_cache_hits :: nat
  cs_hash_cache_misses :: nat

record tree_scan_stats =
  ts_files_seen :: nat
  ts_directories_seen :: nat
  ts_bytes_read :: u64
  ts_ignored_entries :: nat
  ts_symlinks_skipped :: nat
  ts_hash_cache_hits :: nat
  ts_hash_cache_misses :: nat

record materialize_stats =
  mt_files_written :: nat
  mt_directories_created :: nat
  mt_entries_removed :: nat
  mt_bytes_written :: u64

record capture_result =
  cr_root_tree_id :: object_id
  cr_stats :: capture_stats
  cr_issues :: "capture_issue list"

definition capture_result_new :: "object_id \<Rightarrow> capture_stats \<Rightarrow> capture_issue list \<Rightarrow> capture_result" where
  "capture_result_new root_tree_id stats issues =
     \<lparr>cr_root_tree_id = root_tree_id, cr_stats = stats, cr_issues = issues\<rparr>"

record tree_scan_result =
  sr_root_tree_id :: object_id
  sr_stats :: tree_scan_stats
  sr_issues :: "capture_issue list"

datatype tree_change_kind = ChangeAdded | ChangeModified | ChangeDeleted | ChangeTypeChanged

record tree_change =
  tc_path :: path
  tc_kind :: tree_change_kind

definition tree_change_new :: "path \<Rightarrow> tree_change_kind \<Rightarrow> tree_change" where
  "tree_change_new p kind = \<lparr>tc_path = p, tc_kind = kind\<rparr>"

record tree_comparison_result =
  tcr_saved_root_tree_id :: object_id
  tcr_current_root_tree_id :: object_id
  tcr_changes :: "tree_change list"
  tcr_stats :: tree_scan_stats
  tcr_issues :: "capture_issue list"

definition comparison_is_clean :: "tree_comparison_result \<Rightarrow> bool" where
  "comparison_is_clean r \<longleftrightarrow> tcr_saved_root_tree_id r = tcr_current_root_tree_id r \<and> tcr_changes r = []"

record materialize_result =
  mz_stats :: materialize_stats

section \<open>Errors\<close>

text \<open>The error of the notification library is its message.\<close>

datatype materialization_error =
    MatRootMissing path
  | MatRootNotDirectory path
  | MatIo path io_kind
  | MatWatch path rstring
  | PathNotUtf8 path
  | UnsupportedFileType path
  | SymlinkUnsupported path
  | InvalidTreeEntry path tree_error
  | MatObjectStore object_store_error

section \<open>Options\<close>

datatype symlink_policy = SymlinkSkip | SymlinkError

text \<open>The \<open>BTreeSet\<close> of names is the ascending list of its elements.\<close>

record capture_options =
  co_excluded :: "rstring list"
  co_symlinks :: symlink_policy

definition DEFAULT_EXCLUDED_DIRECTORY_NAMES :: "rstring list" where
  "DEFAULT_EXCLUDED_DIRECTORY_NAMES = map bstr
     [''.era'', ''.git'', ''target'', ''node_modules'', ''.next'', ''dist'', ''build'', ''.cache'', ''__pycache__'']"

definition no_exclusions :: capture_options where
  "no_exclusions = \<lparr>co_excluded = [], co_symlinks = SymlinkSkip\<rparr>"

definition excludes_directory_name :: "capture_options \<Rightarrow> rstring \<Rightarrow> bool" where
  "excludes_directory_name opts name \<longleftrightarrow> name \<in> set (co_excluded opts)"

text \<open>Only components that name an entry count, not the parent directory.\<close>

definition excludes_path :: "capture_options \<Rightarrow> path \<Rightarrow> bool" where
  "excludes_path opts p \<longleftrightarrow> list_ex (\<lambda>c. c \<noteq> bstr ''..'' \<and> utf8 c \<and> excludes_directory_name opts c) p"

definition with_excluded_directory :: "capture_options \<Rightarrow> rstring \<Rightarrow> capture_options" where
  "with_excluded_directory opts name = opts\<lparr>co_excluded := insort_insert name (co_excluded opts)\<rparr>"

definition without_excluded_directory :: "capture_options \<Rightarrow> rstring \<Rightarrow> capture_options" where
  "without_excluded_directory opts name = opts\<lparr>co_excluded := filter (\<lambda>n. n \<noteq> name) (co_excluded opts)\<rparr>"

definition with_symlink_policy :: "capture_options \<Rightarrow> symlink_policy \<Rightarrow> capture_options" where
  "with_symlink_policy opts policy = opts\<lparr>co_symlinks := policy\<rparr>"

definition capture_options_default :: capture_options where
  "capture_options_default =
     \<lparr>co_excluded = fold insort_insert DEFAULT_EXCLUDED_DIRECTORY_NAMES [], co_symlinks = SymlinkSkip\<rparr>"

section \<open>The trait\<close>

record working_directory =
  wd_root :: path

definition working_directory_new :: "path \<Rightarrow> working_directory" where
  "working_directory_new root = \<lparr>wd_root = root\<rparr>"

type_synonym 'a mat_io = "(materialization_error, 'a) io"

record materializer =
  m_capture_with_hints :: "working_directory \<Rightarrow> local_object_store \<Rightarrow> path list \<Rightarrow> capture_result mat_io"
  m_compare_tree :: "object_id \<Rightarrow> working_directory \<Rightarrow> local_object_store \<Rightarrow> tree_comparison_result mat_io"
  m_materialize_tree :: "object_id \<Rightarrow> working_directory \<Rightarrow> local_object_store \<Rightarrow> materialize_result mat_io"

section \<open>Exclusions\<close>

definition options_ok :: "capture_options \<Rightarrow> bool" where
  "options_ok opts \<longleftrightarrow> sorted_wrt (<) (co_excluded opts)"

lemma options_ok_default: "options_ok capture_options_default"
  unfolding options_ok_def by code_simp

lemma excludes_with:
  "options_ok opts \<Longrightarrow> options_ok (with_excluded_directory opts name) \<and>
     (excludes_directory_name (with_excluded_directory opts name) n \<longleftrightarrow> n = name \<or> excludes_directory_name opts n)"
  by (auto simp: options_ok_def with_excluded_directory_def excludes_directory_name_def
      set_insort_insert sorted_wrt_less_iff intro: sorted_insort_insert distinct_insort_insert)

lemma excludes_without:
  "options_ok opts \<Longrightarrow> options_ok (without_excluded_directory opts name) \<and>
     (excludes_directory_name (without_excluded_directory opts name) n \<longleftrightarrow> n \<noteq> name \<and> excludes_directory_name opts n)"
  by (auto simp: options_ok_def without_excluded_directory_def excludes_directory_name_def
      sorted_wrt_filter)

end
