(* ===== verification/Era_Refs.thy ===== *)
theory Era_Refs
  imports Era_Names Materializer
begin

text \<open>
  \<open>crates/repository/src/refs.rs\<close> and \<open>error.rs\<close>: the layout of the metadata directory, HEAD, branch and
  workspace refs, the snapshot index, workspace records and pointers, the metadata lock, and the two ways
  a text file is written: replaced atomically by a rename, or created once by a hard link.
\<close>

datatype repository_error =
    RootMissing path
  | RootNotDirectory path
  | AlreadyInitialized path
  | NotRepository path
  | MetadataNotDirectory path
  | HeadMissing path
  | InvalidHead path rstring
  | RefMissing path
  | InvalidRef path rstring
  | InvalidBranchName invalid_branch_name
  | InvalidWorkspaceId invalid_workspace_id
  | InvalidBranchRefName path
  | BranchAlreadyExists branch_name
  | BranchNotFound branch_name
  | WorkspaceAlreadyExists workspace_id path path
  | WorkspaceNotFound workspace_id
  | InvalidWorkspaceRefName path
  | InvalidWorkspacePointer path rstring
  | WorkspaceInsideWorkspace path path
  | WorkspacePathIsRepository path
  | LockTimeout path
  | SnapshotTargetNotFound rstring
  | SnapshotTargetAmbiguous rstring "object_id list"
  | SnapshotCycle object_id
  | ClockBeforeUnixEpoch
  | TimestampOverflow nat
  | RepoIo path io_kind
  | RepoObjectStore object_store_error
  | RepoMaterialization materialization_error

type_synonym 'a repo_io = "(repository_error, 'a) io"

section \<open>The layout\<close>

definition ERA_DIR_NAME :: rstring where "ERA_DIR_NAME = bstr ''.era''"
definition OBJECTS_DIR_NAME :: rstring where "OBJECTS_DIR_NAME = bstr ''objects''"
definition HEAD_FILE_NAME :: rstring where "HEAD_FILE_NAME = bstr ''HEAD''"
definition REFS_DIR_NAME :: rstring where "REFS_DIR_NAME = bstr ''refs''"
definition HEADS_DIR_NAME :: rstring where "HEADS_DIR_NAME = bstr ''heads''"
definition WORKSPACE_REFS_DIR_NAME :: rstring where "WORKSPACE_REFS_DIR_NAME = bstr ''workspaces''"
definition WORKSPACES_DIR_NAME :: rstring where "WORKSPACES_DIR_NAME = bstr ''workspaces''"
definition WORKSPACE_PATH_FILE_NAME :: rstring where "WORKSPACE_PATH_FILE_NAME = bstr ''path''"
definition INDEX_DIR_NAME :: rstring where "INDEX_DIR_NAME = bstr ''index''"
definition SNAPSHOT_INDEX_DIR_NAME :: rstring where "SNAPSHOT_INDEX_DIR_NAME = bstr ''snapshots''"
definition SNAPSHOT_INDEX_COMPLETE_FILE_NAME :: rstring where
  "SNAPSHOT_INDEX_COMPLETE_FILE_NAME = bstr ''.complete-v1''"
definition LOCKS_DIR_NAME :: rstring where "LOCKS_DIR_NAME = bstr ''locks''"
definition HEAD_PREFIX :: rstring where "HEAD_PREFIX = bstr ''ref: ''"
definition REFS_HEADS_PREFIX :: rstring where "REFS_HEADS_PREFIX = bstr ''refs/heads/''"
definition WORKSPACE_POINTER_MAGIC :: rstring where "WORKSPACE_POINTER_MAGIC = bstr ''era-workspace-v1''"
definition POINTER_METADATA_PREFIX :: rstring where "POINTER_METADATA_PREFIX = bstr ''metadata: ''"
definition POINTER_WORKSPACE_PREFIX :: rstring where "POINTER_WORKSPACE_PREFIX = bstr ''workspace: ''"

text \<open>Durations are in milliseconds.\<close>

definition LOCK_WAIT_TIMEOUT :: nat where "LOCK_WAIT_TIMEOUT = 10000"
definition LOCK_POLL_INTERVAL :: nat where "LOCK_POLL_INTERVAL = 10"
definition STALE_LOCK_AGE :: nat where "STALE_LOCK_AGE = 60000"

lemmas layout_names = ERA_DIR_NAME_def OBJECTS_DIR_NAME_def HEAD_FILE_NAME_def REFS_DIR_NAME_def HEADS_DIR_NAME_def
  WORKSPACE_REFS_DIR_NAME_def WORKSPACES_DIR_NAME_def WORKSPACE_PATH_FILE_NAME_def INDEX_DIR_NAME_def
  SNAPSHOT_INDEX_DIR_NAME_def SNAPSHOT_INDEX_COMPLETE_FILE_NAME_def LOCKS_DIR_NAME_def

definition metadata_dir :: "path \<Rightarrow> path" where
  "metadata_dir root = root @ [ERA_DIR_NAME]"

definition objects_dir :: "path \<Rightarrow> path" where
  "objects_dir md = md @ [OBJECTS_DIR_NAME]"

definition index_dir :: "path \<Rightarrow> path" where
  "index_dir md = md @ [INDEX_DIR_NAME]"

definition snapshot_index_dir :: "path \<Rightarrow> path" where
  "snapshot_index_dir md = index_dir md @ [SNAPSHOT_INDEX_DIR_NAME]"

definition snapshot_index_entry_path :: "path \<Rightarrow> object_id \<Rightarrow> path" where
  "snapshot_index_entry_path md i = snapshot_index_dir md @ [shard_prefix i] @ [to_hex i]"

definition snapshot_index_complete_path :: "path \<Rightarrow> path" where
  "snapshot_index_complete_path md = snapshot_index_dir md @ [SNAPSHOT_INDEX_COMPLETE_FILE_NAME]"

definition head_path :: "path \<Rightarrow> path" where
  "head_path md = md @ [HEAD_FILE_NAME]"

definition branch_refs_dir :: "path \<Rightarrow> path" where
  "branch_refs_dir md = md @ [REFS_DIR_NAME] @ [HEADS_DIR_NAME]"

definition branch_ref_path :: "path \<Rightarrow> branch_name \<Rightarrow> path" where
  "branch_ref_path md b = branch_refs_dir md @ [branch_str b]"

definition workspace_refs_dir :: "path \<Rightarrow> path" where
  "workspace_refs_dir md = md @ [REFS_DIR_NAME] @ [WORKSPACE_REFS_DIR_NAME]"

definition workspace_ref_path :: "path \<Rightarrow> workspace_id \<Rightarrow> path" where
  "workspace_ref_path md i = workspace_refs_dir md @ [workspace_str i]"

definition workspaces_dir :: "path \<Rightarrow> path" where
  "workspaces_dir md = md @ [WORKSPACES_DIR_NAME]"

definition workspace_record_dir :: "path \<Rightarrow> workspace_id \<Rightarrow> path" where
  "workspace_record_dir md i = workspaces_dir md @ [workspace_str i]"

definition workspace_path_file :: "path \<Rightarrow> workspace_id \<Rightarrow> path" where
  "workspace_path_file md i = workspace_record_dir md i @ [WORKSPACE_PATH_FILE_NAME]"

definition workspace_pointer_path :: "path \<Rightarrow> path" where
  "workspace_pointer_path root = root @ [ERA_DIR_NAME]"

definition branch_lock_path :: "path \<Rightarrow> branch_name \<Rightarrow> path" where
  "branch_lock_path md b = md @ [LOCKS_DIR_NAME] @ [REFS_DIR_NAME] @ [HEADS_DIR_NAME] @ [branch_str b @ bstr ''.lock'']"

definition workspace_ref_lock_path :: "path \<Rightarrow> workspace_id \<Rightarrow> path" where
  "workspace_ref_lock_path md i =
     md @ [LOCKS_DIR_NAME] @ [REFS_DIR_NAME] @ [WORKSPACE_REFS_DIR_NAME] @ [workspace_str i @ bstr ''.lock'']"

definition workspace_record_lock_path :: "path \<Rightarrow> workspace_id \<Rightarrow> path" where
  "workspace_record_lock_path md i = md @ [LOCKS_DIR_NAME] @ [WORKSPACES_DIR_NAME] @ [workspace_str i @ bstr ''.lock'']"

definition snapshot_index_lock_path :: "path \<Rightarrow> path" where
  "snapshot_index_lock_path md =
     md @ [LOCKS_DIR_NAME] @ [INDEX_DIR_NAME] @ [SNAPSHOT_INDEX_DIR_NAME @ bstr ''.lock'']"

section \<open>Parsing\<close>

text \<open>\<open>contents.strip_suffix('\n').unwrap_or(contents)\<close>\<close>

definition trim_newline :: "rstring \<Rightarrow> rstring" where
  "trim_newline s = (if s \<noteq> [] \<and> last s = 10 then butlast s else s)"

definition single_line :: "rstring \<Rightarrow> rstring option" where
  "single_line contents =
    (let l = trim_newline contents in if 10 \<in> set l \<or> l = [] then None else Some l)"

definition parse_head :: "path \<Rightarrow> rstring \<Rightarrow> repository_error + branch_name" where
  "parse_head p contents =
     bind_result (ok_or (InvalidHead p contents) (single_line contents)) (\<lambda>l.
     bind_result (ok_or (InvalidHead p contents) (strip_prefix HEAD_PREFIX l)) (\<lambda>reference.
     bind_result (ok_or (InvalidHead p contents) (strip_prefix REFS_HEADS_PREFIX reference)) (\<lambda>branch.
     map_err InvalidBranchName (branch_new branch))))"

definition parse_ref :: "path \<Rightarrow> rstring \<Rightarrow> repository_error + object_id" where
  "parse_ref p contents =
     bind_result (ok_or (InvalidRef p contents) (single_line contents)) (\<lambda>l.
     map_err (\<lambda>_. InvalidRef p contents) (from_hex l))"

text \<open>\<open>str::lines\<close>: lines end at a newline, and a carriage return before it is dropped.\<close>

definition drop_cr :: "rstring \<Rightarrow> rstring" where
  "drop_cr l = (if l \<noteq> [] \<and> last l = 13 then butlast l else l)"

fun lines_loop :: "bytes \<Rightarrow> bytes \<Rightarrow> rstring list" where
  "lines_loop current [] = (if current \<noteq> [] then [current] else [])"
| "lines_loop current (b # bs) =
    (if b = 10 then drop_cr current # lines_loop [] bs else lines_loop (current @ [b]) bs)"

definition str_lines :: "rstring \<Rightarrow> rstring list" where
  "str_lines s = lines_loop [] s"

definition nonempty_suffix :: "rstring \<Rightarrow> rstring \<Rightarrow> rstring option" where
  "nonempty_suffix pre l = (case strip_prefix pre l of None \<Rightarrow> None | Some v \<Rightarrow> if v \<noteq> [] then Some v else None)"

definition parse_workspace_pointer :: "path \<Rightarrow> rstring \<Rightarrow> repository_error + workspace_pointer" where
  "parse_workspace_pointer p contents =
    (case str_lines (trim_newline contents) of
       [magic, metadata, workspace] \<Rightarrow>
         if magic \<noteq> WORKSPACE_POINTER_MAGIC then Err (InvalidWorkspacePointer p contents)
         else
           bind_result (ok_or (InvalidWorkspacePointer p contents) (nonempty_suffix POINTER_METADATA_PREFIX metadata)) (\<lambda>dir.
           bind_result (ok_or (InvalidWorkspacePointer p contents) (nonempty_suffix POINTER_WORKSPACE_PREFIX workspace)) (\<lambda>w.
           bind_result (map_err InvalidWorkspaceId (workspace_new w)) (\<lambda>i.
           Ok (workspace_pointer_new (path_from dir) i))))
     | _ \<Rightarrow> Err (InvalidWorkspacePointer p contents))"

section \<open>Writing text files\<close>

definition ref_temp_name :: "rstring \<Rightarrow> u32 \<Rightarrow> u64 \<Rightarrow> rstring" where
  "ref_temp_name name pid counter =
     bstr ''.'' @ name @ bstr ''.'' @ decimal (unat pid) @ bstr ''.'' @ decimal (unat counter) @ bstr ''.tmp''"

definition ref_file_name :: "path \<Rightarrow> rstring" where
  "ref_file_name p = (if p \<noteq> [] \<and> utf8 (last p) then last p else bstr ''ref'')"

text \<open>A failed write, flush or sync removes the temporary file and ignores the outcome of the removal.\<close>

definition ref_cleanup :: "path \<Rightarrow> io_kind \<Rightarrow> 'a repo_io" where
  "ref_cleanup t e = match_io (remove_file t) (\<lambda>_. fail_io (RepoIo t e))"

definition fill_text_temp :: "path \<Rightarrow> rstring \<Rightarrow> path repo_io" where
  "fill_text_temp t contents =
     match_io (write_all t contents) (\<lambda>r. case r of
       Inl e \<Rightarrow> ref_cleanup t e
     | Inr _ \<Rightarrow> match_io (flush_file t) (\<lambda>r. case r of
         Inl e \<Rightarrow> ref_cleanup t e
       | Inr _ \<Rightarrow> match_io (flush_file t) (\<lambda>r. case r of
           Inl e \<Rightarrow> ref_cleanup t e
         | Inr _ \<Rightarrow> return_io t)))"

fun write_text_attempts :: "nat \<Rightarrow> path \<Rightarrow> rstring \<Rightarrow> path repo_io" where
  "write_text_attempts 0 p contents = fail_io (RepoIo (butlast p) AlreadyExists)"
| "write_text_attempts (Suc n) p contents =
     bind_io fetch_ref_counter (\<lambda>counter.
     bind_io process_id (\<lambda>pid.
     let t = butlast p @ [ref_temp_name (ref_file_name p) pid counter] in
     match_io (create_new t) (\<lambda>r. case r of
       Inr _ \<Rightarrow> fill_text_temp t contents
     | Inl e \<Rightarrow> if e = AlreadyExists then write_text_attempts n p contents else fail_io (RepoIo t e))))"

definition write_temp_text_file :: "path \<Rightarrow> rstring \<Rightarrow> path repo_io" where
  "write_temp_text_file p contents = write_text_attempts 16 p contents"

definition remove_ref_temp :: "path \<Rightarrow> unit repo_io" where
  "remove_ref_temp t = map_err_io (RepoIo t) (remove_file t)"

definition create_text_file_new :: "path \<Rightarrow> rstring \<Rightarrow> repository_error \<Rightarrow> unit repo_io" where
  "create_text_file_new p contents already_exists =
     bind_io (map_err_io (RepoIo (butlast p)) (create_dir_all (butlast p))) (\<lambda>_.
     bind_io (write_temp_text_file p contents) (\<lambda>t.
     match_io (hard_link t p) (\<lambda>r. case r of
       Inr _ \<Rightarrow> bind_io (remove_ref_temp t) (\<lambda>_. return_io ())
     | Inl e \<Rightarrow>
         if e = AlreadyExists then bind_io (remove_ref_temp t) (\<lambda>_. fail_io already_exists)
         else match_io (remove_file t) (\<lambda>_. fail_io (RepoIo p e)))))"

definition write_text_file_atomic :: "path \<Rightarrow> rstring \<Rightarrow> unit repo_io" where
  "write_text_file_atomic p contents =
     bind_io (map_err_io (RepoIo (butlast p)) (create_dir_all (butlast p))) (\<lambda>_.
     bind_io (write_temp_text_file p contents) (\<lambda>t.
     match_io (rename_file t p) (\<lambda>r. case r of
       Inr _ \<Rightarrow> return_io ()
     | Inl e \<Rightarrow> match_io (remove_file t) (\<lambda>_. fail_io (RepoIo p e)))))"

definition read_text_file :: "path \<Rightarrow> repository_error \<Rightarrow> rstring repo_io" where
  "read_text_file p missing =
     map_err_io (\<lambda>e. if e = NotFound then missing else RepoIo p e) (read_to_string p)"

definition ref_exists :: "path \<Rightarrow> bool repo_io" where
  "ref_exists p = map_err_io (RepoIo p) (try_exists p)"

section \<open>Refs\<close>

fun create_layout_dirs :: "path list \<Rightarrow> unit repo_io" where
  "create_layout_dirs [] = return_io ()"
| "create_layout_dirs (d # ds) =
     bind_io (map_err_io (RepoIo d) (create_dir_all d)) (\<lambda>_. create_layout_dirs ds)"

definition create_ref_layout :: "path \<Rightarrow> unit repo_io" where
  "create_ref_layout md = create_layout_dirs
     [branch_refs_dir md, workspace_refs_dir md, workspaces_dir md, snapshot_index_dir md, md @ [LOCKS_DIR_NAME]]"

definition head_contents :: "branch_name \<Rightarrow> rstring" where
  "head_contents b = HEAD_PREFIX @ REFS_HEADS_PREFIX @ branch_str b @ [10]"

definition write_head :: "path \<Rightarrow> branch_name \<Rightarrow> unit repo_io" where
  "write_head md b = write_text_file_atomic (head_path md) (head_contents b)"

definition read_head_branch :: "path \<Rightarrow> branch_name repo_io" where
  "read_head_branch md =
     bind_io (read_text_file (head_path md) (HeadMissing (head_path md))) (\<lambda>contents.
     result_io (parse_head (head_path md) contents))"

definition ref_contents :: "object_id \<Rightarrow> rstring" where
  "ref_contents i = to_hex i @ [10]"

definition create_branch_ref :: "path \<Rightarrow> branch_name \<Rightarrow> object_id \<Rightarrow> unit repo_io" where
  "create_branch_ref md b i =
     create_text_file_new (branch_ref_path md b) (ref_contents i) (BranchAlreadyExists b)"

definition write_branch_ref :: "path \<Rightarrow> branch_name \<Rightarrow> object_id \<Rightarrow> unit repo_io" where
  "write_branch_ref md b i = write_text_file_atomic (branch_ref_path md b) (ref_contents i)"

definition branch_ref_exists :: "path \<Rightarrow> branch_name \<Rightarrow> bool repo_io" where
  "branch_ref_exists md b = ref_exists (branch_ref_path md b)"

definition read_branch_ref :: "path \<Rightarrow> branch_name \<Rightarrow> object_id repo_io" where
  "read_branch_ref md b =
     bind_io (read_text_file (branch_ref_path md b) (RefMissing (branch_ref_path md b))) (\<lambda>contents.
     result_io (parse_ref (branch_ref_path md b) contents))"

fun list_branch_entries :: "path \<Rightarrow> (rstring \<times> node) list \<Rightarrow> (branch_name \<times> object_id) list repo_io" where
  "list_branch_entries md [] = bind_io (map_err_io (RepoIo (branch_refs_dir md)) dir_step) (\<lambda>_. return_io [])"
| "list_branch_entries md ((name, n) # entries) =
     bind_io (map_err_io (RepoIo (branch_refs_dir md)) dir_step) (\<lambda>_.
     if \<not> utf8 name then fail_io (InvalidBranchRefName (branch_refs_dir md @ [name]))
     else
       bind_io (result_io (map_err InvalidBranchName (branch_new name))) (\<lambda>b.
       bind_io (read_branch_ref md b) (\<lambda>i.
       bind_io (list_branch_entries md entries) (\<lambda>more.
         return_io ((b, i) # more)))))"

definition list_branch_refs :: "path \<Rightarrow> (branch_name \<times> object_id) list repo_io" where
  "list_branch_refs md =
     bind_io (map_err_io (RepoIo (branch_refs_dir md)) (read_dir (branch_refs_dir md))) (\<lambda>entries.
     bind_io (list_branch_entries md entries) (\<lambda>branches.
       return_io (sort_key (\<lambda>(b, i). branch_str b) branches)))"

section \<open>The snapshot index\<close>

definition write_snapshot_index_entry :: "path \<Rightarrow> object_id \<Rightarrow> unit repo_io" where
  "write_snapshot_index_entry md i = write_text_file_atomic (snapshot_index_entry_path md i) (ref_contents i)"

definition mark_snapshot_index_complete :: "path \<Rightarrow> unit repo_io" where
  "mark_snapshot_index_complete md =
     write_text_file_atomic (snapshot_index_complete_path md) (bstr ''era-snapshot-index-v1'' @ [10])"

definition snapshot_index_complete_exists :: "path \<Rightarrow> bool repo_io" where
  "snapshot_index_complete_exists md = ref_exists (snapshot_index_complete_path md)"

definition index_entry_id :: "rstring \<Rightarrow> object_id option" where
  "index_entry_id name =
    (if \<not> utf8 name then None
     else if starts_with (bstr ''.'') name then None
     else case from_hex name of Inl _ \<Rightarrow> None | Inr i \<Rightarrow> Some i)"

fun list_index_shard :: "path \<Rightarrow> (rstring \<times> node) list \<Rightarrow> object_id list repo_io" where
  "list_index_shard shard_path [] = bind_io (map_err_io (RepoIo shard_path) dir_step) (\<lambda>_. return_io [])"
| "list_index_shard shard_path ((name, n) # entries) =
     bind_io (map_err_io (RepoIo shard_path) dir_step) (\<lambda>_.
     bind_io (map_err_io (RepoIo (shard_path @ [name])) dir_step) (\<lambda>_.
     bind_io (list_index_shard shard_path entries) (\<lambda>ids.
       return_io (case n of
           FileNode _ \<Rightarrow> (case index_entry_id name of None \<Rightarrow> ids | Some i \<Rightarrow> i # ids)
         | _ \<Rightarrow> ids))))"

fun list_index_shards :: "path \<Rightarrow> (rstring \<times> node) list \<Rightarrow> object_id list repo_io" where
  "list_index_shards root [] = bind_io (map_err_io (RepoIo root) dir_step) (\<lambda>_. return_io [])"
| "list_index_shards root ((shard, n) # shards) =
     bind_io (map_err_io (RepoIo root) dir_step) (\<lambda>_.
     bind_io (map_err_io (RepoIo (root @ [shard])) dir_step) (\<lambda>_.
     if n \<noteq> DirNode then list_index_shards root shards
     else
       bind_io (map_err_io (RepoIo (root @ [shard])) (read_dir (root @ [shard]))) (\<lambda>entries.
       bind_io (list_index_shard (root @ [shard]) entries) (\<lambda>ids.
       bind_io (list_index_shards root shards) (\<lambda>more.
         return_io (ids @ more))))))"

definition list_snapshot_index_ids :: "path \<Rightarrow> object_id list repo_io" where
  "list_snapshot_index_ids md =
    (let root = snapshot_index_dir md in
     bind_io (ref_exists root) (\<lambda>present.
     if \<not> present then return_io []
     else
       bind_io (map_err_io (RepoIo root) (read_dir root)) (\<lambda>shards.
       bind_io (list_index_shards root shards) (\<lambda>ids.
         return_io (remdups_adj (sort ids))))))"

section \<open>Workspaces\<close>

definition create_workspace_ref :: "path \<Rightarrow> workspace_id \<Rightarrow> object_id \<Rightarrow> unit repo_io" where
  "create_workspace_ref md w i =
    (let p = workspace_ref_path md w in create_text_file_new p (ref_contents i) (WorkspaceAlreadyExists w p p))"

definition write_workspace_ref :: "path \<Rightarrow> workspace_id \<Rightarrow> object_id \<Rightarrow> unit repo_io" where
  "write_workspace_ref md w i = write_text_file_atomic (workspace_ref_path md w) (ref_contents i)"

definition workspace_ref_exists :: "path \<Rightarrow> workspace_id \<Rightarrow> bool repo_io" where
  "workspace_ref_exists md w = ref_exists (workspace_ref_path md w)"

definition read_workspace_ref :: "path \<Rightarrow> workspace_id \<Rightarrow> object_id repo_io" where
  "read_workspace_ref md w =
     bind_io (read_text_file (workspace_ref_path md w) (RefMissing (workspace_ref_path md w))) (\<lambda>contents.
     result_io (parse_ref (workspace_ref_path md w) contents))"

fun list_workspace_entries :: "path \<Rightarrow> (rstring \<times> node) list \<Rightarrow> (workspace_id \<times> object_id) list repo_io" where
  "list_workspace_entries md [] = bind_io (map_err_io (RepoIo (workspace_refs_dir md)) dir_step) (\<lambda>_. return_io [])"
| "list_workspace_entries md ((name, n) # entries) =
     bind_io (map_err_io (RepoIo (workspace_refs_dir md)) dir_step) (\<lambda>_.
     if \<not> utf8 name then fail_io (InvalidWorkspaceRefName (workspace_refs_dir md @ [name]))
     else
       bind_io (result_io (map_err InvalidWorkspaceId (workspace_new name))) (\<lambda>w.
       bind_io (read_workspace_ref md w) (\<lambda>i.
       bind_io (list_workspace_entries md entries) (\<lambda>more.
         return_io ((w, i) # more)))))"

definition list_workspace_refs :: "path \<Rightarrow> (workspace_id \<times> object_id) list repo_io" where
  "list_workspace_refs md =
     bind_io (map_err_io (RepoIo (workspace_refs_dir md)) (read_dir (workspace_refs_dir md))) (\<lambda>entries.
     bind_io (list_workspace_entries md entries) (\<lambda>workspaces.
       return_io (sort_key (\<lambda>(w, i). workspace_str w) workspaces)))"

definition write_workspace_path :: "path \<Rightarrow> workspace_id \<Rightarrow> path \<Rightarrow> unit repo_io" where
  "write_workspace_path md w p = write_text_file_atomic (workspace_path_file md w) (display_path p @ [10])"

definition read_workspace_path :: "path \<Rightarrow> workspace_id \<Rightarrow> path repo_io" where
  "read_workspace_path md w =
    (let p = workspace_path_file md w in
     bind_io (read_text_file p (WorkspaceNotFound w)) (\<lambda>contents.
     bind_io (result_io (ok_or (InvalidRef p contents) (single_line contents))) (\<lambda>l.
     return_io (path_from l))))"

definition workspace_record_exists :: "path \<Rightarrow> workspace_id \<Rightarrow> bool repo_io" where
  "workspace_record_exists md w = ref_exists (workspace_path_file md w)"

fun list_workspace_dirs :: "path \<Rightarrow> (rstring \<times> node) list \<Rightarrow> (workspace_id \<times> path option) list repo_io" where
  "list_workspace_dirs md [] = bind_io (map_err_io (RepoIo (workspaces_dir md)) dir_step) (\<lambda>_. return_io [])"
| "list_workspace_dirs md ((name, n) # entries) =
     bind_io (map_err_io (RepoIo (workspaces_dir md)) dir_step) (\<lambda>_.
     bind_io (map_err_io (RepoIo (workspaces_dir md @ [name])) dir_step) (\<lambda>_.
     if n \<noteq> DirNode then list_workspace_dirs md entries
     else if \<not> utf8 name then fail_io (InvalidWorkspaceRefName (workspaces_dir md @ [name]))
     else
       bind_io (result_io (map_err InvalidWorkspaceId (workspace_new name))) (\<lambda>w.
       bind_io (workspace_record_exists md w) (\<lambda>present.
       bind_io (if present then bind_io (read_workspace_path md w) (\<lambda>p. return_io (Some p)) else return_io None) (\<lambda>p.
       bind_io (list_workspace_dirs md entries) (\<lambda>more.
         return_io ((w, p) # more)))))))"

definition list_workspace_paths :: "path \<Rightarrow> (workspace_id \<times> path option) list repo_io" where
  "list_workspace_paths md =
     bind_io (map_err_io (RepoIo (workspaces_dir md)) (read_dir (workspaces_dir md))) (\<lambda>entries.
     bind_io (list_workspace_dirs md entries) (\<lambda>workspaces.
       return_io (sort_key (\<lambda>(w, p). workspace_str w) workspaces)))"

definition write_workspace_pointer :: "path \<Rightarrow> workspace_pointer \<Rightarrow> unit repo_io" where
  "write_workspace_pointer root pointer =
     write_text_file_atomic (workspace_pointer_path root) (to_pointer_file pointer)"

definition read_workspace_pointer :: "path \<Rightarrow> workspace_pointer repo_io" where
  "read_workspace_pointer root =
    (let p = workspace_pointer_path root in
     bind_io (read_text_file p (NotRepository p)) (\<lambda>contents. result_io (parse_workspace_pointer p contents)))"

section \<open>Locks\<close>

record metadata_lock =
  lock_path :: path

definition maybe_remove_stale_lock :: "path \<Rightarrow> unit repo_io" where
  "maybe_remove_stale_lock p =
     match_io (file_metadata p) (\<lambda>r. case r of
       Inl _ \<Rightarrow> return_io ()
     | Inr _ \<Rightarrow> bind_io file_age (\<lambda>age. case age of
         None \<Rightarrow> return_io ()
       | Some a \<Rightarrow>
           if a \<ge> STALE_LOCK_AGE
           then match_io (remove_file p) (\<lambda>r. case r of
               Inr _ \<Rightarrow> return_io ()
             | Inl e \<Rightarrow> if e = NotFound then return_io () else fail_io (RepoIo p e))
           else return_io ()))"

definition lock_contents :: "u32 \<Rightarrow> nat option \<Rightarrow> rstring" where
  "lock_contents pid millis =
     bstr ''pid: '' @ decimal (unat pid) @ [10] @
     bstr ''created_millis: '' @ decimal (case millis of None \<Rightarrow> 0 | Some t \<Rightarrow> t) @ [10]"

text \<open>One round of the loop; \<open>None\<close> where it sleeps and tries again.\<close>

definition acquire_step :: "nat \<Rightarrow> path \<Rightarrow> metadata_lock option repo_io" where
  "acquire_step start p =
     bind_io (map_err_io (RepoIo (butlast p)) (create_dir_all (butlast p))) (\<lambda>_.
     match_io (create_new p) (\<lambda>r. case r of
       Inr _ \<Rightarrow>
         bind_io process_id (\<lambda>pid.
         bind_io unix_millis (\<lambda>millis.
         bind_io (map_err_io (RepoIo p) (write_all p (lock_contents pid millis))) (\<lambda>_.
         bind_io (map_err_io (RepoIo p) (flush_file p)) (\<lambda>_.
         return_io (Some \<lparr>lock_path = p\<rparr>)))))
     | Inl e \<Rightarrow>
         if e = AlreadyExists
         then
           bind_io (maybe_remove_stale_lock p) (\<lambda>_.
           bind_io instant_now (\<lambda>now.
           if now - start \<ge> LOCK_WAIT_TIMEOUT then fail_io (LockTimeout p)
           else bind_io (sleep_millis LOCK_POLL_INTERVAL) (\<lambda>_. return_io None)))
         else fail_io (RepoIo p e)))"

definition keeps_clock :: "('e, 'a) io \<Rightarrow> bool" where
  "keeps_clock m \<longleftrightarrow> (\<forall>w r w'. m w = (r, w') \<longrightarrow> w_clock w' = w_clock w)"

lemma keeps_clock_syscall [simp]: "keeps_clock (syscall f partial)"
  by (auto simp: keeps_clock_def syscall_def run_op_def split: list.splits event.splits prod.splits)

lemma keeps_clock_simple [simp]:
  "keeps_clock (return_io x)" "keeps_clock (fail_io e)" "keeps_clock (result_io r)" "keeps_clock file_age"
  by (auto simp: keeps_clock_def return_io_def fail_io_def result_io_def file_age_def split: list.splits)

lemma keeps_clock_match: "keeps_clock m \<Longrightarrow> (\<And>r. keeps_clock (f r)) \<Longrightarrow> keeps_clock (match_io m f)"
  unfolding keeps_clock_def match_io_def by (metis case_prod_conv surj_pair)

lemma keeps_clock_bind: "keeps_clock m \<Longrightarrow> (\<And>x. keeps_clock (f x)) \<Longrightarrow> keeps_clock (bind_io m f)"
  unfolding bind_io_match by (rule keeps_clock_match) (auto split: sum.split)

lemma keeps_clock_stale: "keeps_clock (maybe_remove_stale_lock p)"
  unfolding maybe_remove_stale_lock_def file_metadata_def remove_file_def
  by (auto intro!: keeps_clock_match keeps_clock_bind split: sum.split option.split)

lemma keeps_clockD: "keeps_clock m \<Longrightarrow> m w = (r, w') \<Longrightarrow> w_clock w' = w_clock w"
  by (simp add: keeps_clock_def)

lemma bind_io_Inr: "bind_io m f w = (Inr y, w') \<longleftrightarrow> (\<exists>x w1. m w = (Inr x, w1) \<and> f x w1 = (Inr y, w'))"
  by (auto simp: bind_io_def split: prod.splits sum.splits)

text \<open>A round that tries again slept, and started before the timeout.\<close>

lemma acquire_step_retry:
  assumes "acquire_step start p w = (Inr None, w')"
  shows "w_clock w + 10 \<le> w_clock w' \<and> w_clock w < start + 10000"
proof -
  let ?mk = "map_err_io (RepoIo (butlast p)) (create_dir_all (butlast p))"
  obtain u w1 where m1: "?mk w = (Inr u, w1)"
      and rest: "match_io (create_new p) (\<lambda>r. case r of
       Inr _ \<Rightarrow>
         bind_io process_id (\<lambda>pid.
         bind_io unix_millis (\<lambda>millis.
         bind_io (map_err_io (RepoIo p) (write_all p (lock_contents pid millis))) (\<lambda>_.
         bind_io (map_err_io (RepoIo p) (flush_file p)) (\<lambda>_.
         return_io (Some \<lparr>lock_path = p\<rparr>)))))
     | Inl e \<Rightarrow>
         if e = AlreadyExists
         then
           bind_io (maybe_remove_stale_lock p) (\<lambda>_.
           bind_io instant_now (\<lambda>now.
           if now - start \<ge> LOCK_WAIT_TIMEOUT then fail_io (LockTimeout p)
           else bind_io (sleep_millis LOCK_POLL_INTERVAL) (\<lambda>_. return_io None)))
         else fail_io (RepoIo p e)) w1 = (Inr None, w')"
    using assms unfolding acquire_step_def bind_io_Inr by blast
  obtain r w2 where m2: "create_new p w1 = (r, w2)" by fastforce
  have k: "w_clock w1 = w_clock w" "w_clock w2 = w_clock w1"
    using keeps_clockD [of ?mk, OF _ m1] keeps_clockD [of "create_new p", OF _ m2]
    by (simp_all add: map_err_io_def keeps_clock_match create_dir_all_def create_new_def)
  show ?thesis
  proof (cases r)
    case (Inr x)
    then show ?thesis using rest m2 by (auto simp: match_io_def bind_io_Inr return_io_def)
  next
    case (Inl e)
    then obtain v w3 where m3: "maybe_remove_stale_lock p w2 = (Inr v, w3)" and lt: "w_clock w3 - start < 10000"
        and sl: "(sleep_millis LOCK_POLL_INTERVAL :: unit repo_io) w3 = (Inr (), w')"
      using rest m2
      by (auto simp: match_io_def bind_io_Inr return_io_def fail_io_def instant_now_def LOCK_WAIT_TIMEOUT_def split: if_splits)
    have "w_clock w3 = w_clock w2" using keeps_clockD [OF keeps_clock_stale m3] .
    then show ?thesis
      using k lt sl by (auto simp: sleep_millis_def LOCK_POLL_INTERVAL_def split: list.splits)
  qed
qed

function acquire_loop :: "nat \<Rightarrow> path \<Rightarrow> metadata_lock repo_io" where
  "acquire_loop start p w =
    (case acquire_step start p w of
       (Inl e, w') \<Rightarrow> (Err e, w')
     | (Inr (Some l), w') \<Rightarrow> (Ok l, w')
     | (Inr None, w') \<Rightarrow> acquire_loop start p w')"
  by pat_completeness auto
termination
proof (relation "measure (\<lambda>(start, p, w). start + 10000 - w_clock w)", goal_cases)
  case (2 start p w r w' x)
  then have "acquire_step start p w = (Inr None, w')" by simp
  from acquire_step_retry [OF this] show ?case by auto
qed simp

declare acquire_loop.simps [simp del]

definition acquire_metadata_lock :: "path \<Rightarrow> metadata_lock repo_io" where
  "acquire_metadata_lock p = bind_io instant_now (\<lambda>start. acquire_loop start p)"

definition drop_lock :: "metadata_lock \<Rightarrow> ('e, unit) io" where
  "drop_lock l = match_io (remove_file (lock_path l)) (\<lambda>_. return_io ())"

text \<open>A guard bound for the rest of a function: it is dropped on every way out.\<close>

definition with_lock :: "path \<Rightarrow> 'a repo_io \<Rightarrow> 'a repo_io" where
  "with_lock p body =
     bind_io (acquire_metadata_lock p) (\<lambda>l.
     match_io body (\<lambda>r. bind_io (drop_lock l) (\<lambda>_. result_io r)))"

end
