(* ===== verification/Ref_Writes.thy ===== *)
theory Ref_Writes
  imports Era_Refs
begin

text \<open>
  What the two ways of writing a text file of \<open>refs.rs\<close> do under every script of failures and
  publications: a replaced file holds its old or its new contents and nothing between, a created file
  never overwrites one, and every other file is left alone. The paths written are those whose last
  component is a Rust string, that is, valid UTF-8.
\<close>

section \<open>Temporary files\<close>

definition ref_temp :: "path \<Rightarrow> path \<Rightarrow> bool" where
  "ref_temp p t \<longleftrightarrow> (\<exists>pid c. t = butlast p @ [ref_temp_name (ref_file_name p) pid c])"

definition text_path :: "path \<Rightarrow> bool" where
  "text_path p \<longleftrightarrow> p \<noteq> [] \<and> utf8 (last p)"

lemma ref_temp_not_Nil: "ref_temp p t \<Longrightarrow> t \<noteq> []"
  by (auto simp: ref_temp_def)

lemma ref_temp_ne: "ref_temp p t \<Longrightarrow> text_path p \<Longrightarrow> t \<noteq> p"
proof
  assume "ref_temp p t" "text_path p" "t = p"
  then obtain pid c where "last p = ref_temp_name (last p) pid c"
    by (metis last_snoc ref_temp_def ref_file_name_def text_path_def)
  then have "length (last p) = length (ref_temp_name (last p) pid c)" by simp
  then show False by (simp add: ref_temp_name_def)
qed

lemma ref_temp_not_prefix: "ref_temp p t \<Longrightarrow> take n (butlast p) \<noteq> t"
proof
  assume "ref_temp p t" and eq: "take n (butlast p) = t"
  then have "length t = Suc (length (butlast p))" by (auto simp: ref_temp_def)
  moreover have "length t \<le> length (butlast p)" using eq by (metis length_take min.cobounded1)
  ultimately show False by simp
qed

lemma path_not_parent_prefix: "p \<noteq> [] \<Longrightarrow> take n (butlast p) \<noteq> p"
proof
  assume "p \<noteq> []" "take n (butlast p) = p"
  then have "length p \<le> length p - 1" by (metis length_butlast length_take min.cobounded1)
  then show False using \<open>p \<noteq> []\<close> by (cases p) simp_all
qed

text \<open>Only prefixes of the path asked for become directories.\<close>

lemma mkdirs_other:
  "mkdirs fs pre p = (r, fs') \<Longrightarrow> (\<And>n. pre @ take (Suc n) p \<noteq> q \<or> p = []) \<Longrightarrow> fs_get fs' q = fs_get fs q"
proof (induction fs pre p rule: mkdirs.induct)
  case (2 fs pre c cs)
  have ne: "pre @ [c] \<noteq> q" using "2.prems"(2) [of 0] by simp
  have rest: "(pre @ [c]) @ take (Suc n) cs \<noteq> q \<or> cs = []" for n using "2.prems"(2) [of "Suc n"] by simp
  show ?case
  proof (cases "fs_get fs (pre @ [c])")
    case None
    then show ?thesis using "2.IH"(1) [OF None _ rest] "2.prems"(1) ne by (simp add: fs_get_set)
  next
    case (Some n)
    then show ?thesis using "2.IH"(2) [OF Some _ _ rest] "2.prems"(1) by (cases n) auto
  qed
qed simp

lemma mkdirs_keeps:
  assumes "mkdirs fs [] (take k (butlast p)) = (r, fs')" "p \<noteq> []"
  shows "fs_get fs' p = fs_get fs p"
  by (rule mkdirs_other [OF assms(1)]) (use path_not_parent_prefix [OF assms(2)] in \<open>simp add: min_def take_take\<close>)

section \<open>A temporary file is written beside the path\<close>

text \<open>
  \<open>temp_safe R I fs0 p\<close>: the assertion \<open>I\<close> survives publications and everything done to a temporary file
  of \<open>p\<close> that the file system \<open>fs0\<close> does not have.
\<close>

definition temp_safe :: "(fs \<Rightarrow> path \<Rightarrow> bytes \<Rightarrow> bool) \<Rightarrow> (fs \<Rightarrow> bool) \<Rightarrow> fs \<Rightarrow> path \<Rightarrow> bool" where
  "temp_safe R I fs0 p \<longleftrightarrow> stable R I \<and>
     (\<forall>t n fs. ref_temp p t \<longrightarrow> fs_get fs0 t = None \<longrightarrow> I fs \<longrightarrow> I (fs_set t n fs) \<and> I (fs_del t fs)) \<and>
     (\<forall>t fs. ref_temp p t \<longrightarrow> I fs \<longrightarrow> fs_get fs t = None \<longrightarrow> fs_get fs0 t = None)"

lemma temp_safeD:
  assumes "temp_safe R I fs0 p"
  shows "stable R I"
    and "ref_temp p t \<Longrightarrow> fs_get fs0 t = None \<Longrightarrow> I fs \<Longrightarrow> I (fs_set t n fs)"
    and "ref_temp p t \<Longrightarrow> fs_get fs0 t = None \<Longrightarrow> I fs \<Longrightarrow> I (fs_del t fs)"
    and "ref_temp p t \<Longrightarrow> I fs \<Longrightarrow> fs_get fs t = None \<Longrightarrow> fs_get fs0 t = None"
  using assms unfolding temp_safe_def by blast+

lemma hoare_remove_ref:
  assumes "temp_safe R I fs0 p" "ref_temp p t" "fs_get fs0 t = None"
  shows "hoare R I (remove_file t) (\<lambda>r fs. I fs)"
  unfolding remove_file_def
  by (rule hoare_syscall [OF temp_safeD(1) [OF assms(1)]])
    (auto simp: op_remove_file_def no_effect_def intro: temp_safeD(3) [OF assms] split: sum.splits if_splits)

lemma hoare_ref_cleanup:
  assumes "temp_safe R I fs0 p" "ref_temp p t" "fs_get fs0 t = None"
  shows "hoare R I (ref_cleanup t e) (\<lambda>r fs. I fs \<and> (\<exists>x. r = Err x))"
  unfolding ref_cleanup_def by (rule hoare_match [OF hoare_remove_ref [OF assms]]) (auto intro!: hoare_fail)

lemma hoare_fill_text_temp:
  assumes safe: "temp_safe R I fs0 p" "ref_temp p t" "fs_get fs0 t = None"
  shows "hoare R (\<lambda>fs. I fs \<and> (\<exists>x. fs_get fs t = Some (FileNode x))) (fill_text_temp t c)
    (\<lambda>r fs. I fs \<and> (\<forall>u. r = Ok u \<longrightarrow> u = t \<and> fs_get fs t = Some (FileNode c)))" (is "hoare R ?P _ ?Q")
proof -
  let ?F = "\<lambda>fs. I fs \<and> fs_get fs t = Some (FileNode c)"
  note stI = temp_safeD(1) [OF safe(1)]
  have P: "stable R ?P" by (intro stable_conj stI) (auto intro: stable_mono fs_extD)
  have F: "stable R ?F" by (intro stable_conj stI stable_get)
  have clean: "hoare R I (ref_cleanup t x) ?Q" for x
    by (rule hoare_post [OF hoare_ref_cleanup [OF safe]]) auto
  have wr: "hoare R ?P (write_all t c) (\<lambda>r fs. case r of Inl x \<Rightarrow> I fs | Inr u \<Rightarrow> ?F fs)"
    unfolding write_all_def using ref_temp_not_Nil [OF safe(2)]
    by (intro hoare_syscall [OF P])
      (auto simp: op_write_all_def write_file_def fs_get_set intro: temp_safeD(2) [OF safe])
  have flush: "hoare R ?F (flush_file t) (\<lambda>r fs. ?F fs)"
    unfolding flush_file_def by (rule hoare_syscall [OF F]) (auto simp: no_effect_def)
  have sync: "hoare R ?F (match_io (flush_file t) (\<lambda>r. case r of
      Inl e \<Rightarrow> ref_cleanup t e | Inr _ \<Rightarrow> return_io t)) ?Q"
    by (rule hoare_match [OF flush]) (auto intro!: hoare_return hoare_pre [OF clean] split: sum.split)
  have "hoare R ?F (match_io (flush_file t) (\<lambda>r. case r of
      Inl e \<Rightarrow> ref_cleanup t e
    | Inr _ \<Rightarrow> match_io (flush_file t) (\<lambda>r. case r of Inl e \<Rightarrow> ref_cleanup t e | Inr _ \<Rightarrow> return_io t))) ?Q"
    by (rule hoare_match [OF flush]) (auto intro!: sync hoare_pre [OF clean] split: sum.split)
  then show ?thesis
    unfolding fill_text_temp_def by (intro hoare_match [OF wr]) (auto intro: clean split: sum.split)
qed

lemma hoare_create_ref_temp:
  assumes safe: "temp_safe R I fs0 p" and t: "ref_temp p t"
  shows "hoare R I (create_new t) (\<lambda>r fs. case r of Inl _ \<Rightarrow> I fs
    | Inr _ \<Rightarrow> fs_get fs0 t = None \<and> I fs \<and> (\<exists>x. fs_get fs t = Some (FileNode x)))"
  unfolding create_new_def
  by (rule hoare_syscall [OF temp_safeD(1) [OF safe]])
    (auto simp: op_create_new_def no_effect_def fs_get_set ref_temp_not_Nil [OF t]
      dest: temp_safeD(4) [OF safe t] intro: temp_safeD(2) [OF safe t]
      split: sum.splits if_splits option.splits)

lemma hoare_write_text_attempts:
  assumes safe: "temp_safe R I fs0 p"
  shows "hoare R I (write_text_attempts n p c)
    (\<lambda>r fs. I fs \<and> (\<forall>t. r = Ok t \<longrightarrow> ref_temp p t \<and> fs_get fs0 t = None \<and> fs_get fs t = Some (FileNode c)))"
    (is "hoare R I _ ?Q")
proof (induction n)
  case 0
  show ?case by (auto intro: hoare_fail)
next
  case (Suc n)
  have attempt: "hoare R I (match_io (create_new t) (\<lambda>r. case r of
       Inr _ \<Rightarrow> fill_text_temp t c
     | Inl x \<Rightarrow> if x = AlreadyExists then write_text_attempts n p c else fail_io (RepoIo t x))) ?Q"
    if t: "ref_temp p t" for t
  proof (rule hoare_match [OF hoare_create_ref_temp [OF safe t]])
    fix r :: "io_kind + unit"
    show "hoare R (\<lambda>fs. case r of Inl _ \<Rightarrow> I fs
        | Inr _ \<Rightarrow> fs_get fs0 t = None \<and> I fs \<and> (\<exists>x. fs_get fs t = Some (FileNode x)))
      (case r of Inr _ \<Rightarrow> fill_text_temp t c
       | Inl x \<Rightarrow> if x = AlreadyExists then write_text_attempts n p c else fail_io (RepoIo t x)) ?Q"
    proof (cases r)
      case (Inl x)
      then show ?thesis using Suc by (auto intro: hoare_fail)
    next
      case (Inr u)
      show ?thesis
      proof (cases "fs_get fs0 t = None")
        case True
        then show ?thesis
          using Inr t by (auto intro!: hoare_post [OF hoare_pre [OF hoare_fill_text_temp [OF safe t True]]])
      qed (auto simp: hoare_def Inr)
    qed
  qed
  show ?case
    unfolding write_text_attempts.simps Let_def
    by (rule hoare_bind [where M = "\<lambda>c. I"], rule hoare_clocks, simp,
        rule hoare_bind [where M = "\<lambda>c. I"], rule hoare_process_id, simp, rule attempt)
      (auto simp: ref_temp_def)
qed

section \<open>Replacing a file\<close>

text \<open>The file system keeps every node of \<open>fs0\<close> other than the one at \<open>p\<close>.\<close>

definition kept :: "fs \<Rightarrow> path \<Rightarrow> fs \<Rightarrow> bool" where
  "kept fs0 p fs \<longleftrightarrow> (\<forall>q n. q \<noteq> p \<longrightarrow> fs_get fs0 q = Some n \<longrightarrow> fs_get fs q = Some n)"

definition untouched :: "fs \<Rightarrow> path \<Rightarrow> fs \<Rightarrow> bool" where
  "untouched fs0 p fs \<longleftrightarrow> kept fs0 p fs \<and> fs_get fs p = fs_get fs0 p"

lemma untouched_refl [simp]: "untouched fs p fs"
  by (simp add: untouched_def kept_def)

definition avoids :: "path \<Rightarrow> fs \<Rightarrow> path \<Rightarrow> bytes \<Rightarrow> bool" where
  "avoids p fs q b \<longleftrightarrow> q \<noteq> p"

lemma stable_untouched: "stable (avoids p) (untouched fs0 p)"
  by (auto simp: stable_def untouched_def kept_def avoids_def fs_get_set)

lemma untouched_temp_safe: "text_path p \<Longrightarrow> temp_safe (avoids p) (untouched fs0 p) fs0 p"
  using stable_untouched [of p fs0] ref_temp_ne [of p]
  by (auto simp: temp_safe_def untouched_def kept_def fs_get_set fs_get_del) (metis not_None_eq)

lemma hoare_parents:
  assumes "p \<noteq> []"
  shows "hoare (avoids p) (untouched fs0 p) (map_err_io f (create_dir_all (butlast p)))
    (\<lambda>r fs. untouched fs0 p fs)"
proof (rule hoare_map_err)
  have "untouched fs0 p fs'" if "untouched fs0 p fs" "mkdirs fs [] (take k (butlast p)) = (r, fs')" for fs fs' r k
    using that mkdirs_ext [OF that(2)] mkdirs_keeps [OF that(2) assms]
    by (auto simp: untouched_def kept_def fs_ext_def)
  note step = this and all = this [where k = "length p", simplified]
  show "hoare (avoids p) (untouched fs0 p) (create_dir_all (butlast p)) (\<lambda>r. untouched fs0 p)"
    unfolding create_dir_all_def
    by (rule hoare_syscall [OF stable_untouched])
      (auto simp: op_create_dir_all_def all intro: step [OF _ surjective_pairing])
qed

text \<open>The file at \<open>p\<close> is reached from the root and holds \<open>c\<close>.\<close>

definition holds_text :: "fs \<Rightarrow> path \<Rightarrow> rstring \<Rightarrow> bool" where
  "holds_text fs p c \<longleftrightarrow> resolve fs p = Ok (FileNode c)"

lemma rename_holds:
  assumes p: "text_path p" and t: "ref_temp p t" and par: "parent_dir fs p = Ok ()"
  shows "holds_text (fs_set p (FileNode c) (fs_del t fs)) p c"
proof -
  let ?fs = "fs_set p (FileNode c) (fs_del t fs)"
  have ne: "p \<noteq> []" using p by (simp add: text_path_def)
  have "resolve ?fs (butlast p) = resolve fs (butlast p)"
    using ref_temp_not_prefix [OF t] path_not_parent_prefix [OF ne]
    by (intro resolve_cong) (auto simp: fs_get_set fs_get_del)
  then have "parent_dir ?fs p = Ok ()" using par by (simp add: parent_dir_def)
  then show ?thesis using ne by (simp add: holds_text_def resolve_parent fs_get_set)
qed

lemma op_rename_Ok:
  "op_rename src dst fs = (r, fs') \<Longrightarrow> fs' = fs \<and> (\<exists>x. r = Err x) \<or>
     (\<exists>b. fs_get fs src = Some (FileNode b) \<and> parent_dir fs dst = Ok () \<and> r = Ok () \<and>
        fs' = fs_set dst (FileNode b) (fs_del src fs))"
  using resolve_get [of fs src]
  by (cases "resolve fs src"; cases "parent_dir fs dst")
    (auto simp: op_rename_def eq_commute [of "Inl _" "parent_dir _ _"] split: node.splits if_splits)

lemma hoare_write_text_atomic:
  assumes p: "text_path p"
  shows "hoare (avoids p) (untouched fs0 p) (write_text_file_atomic p c)
    (\<lambda>r fs. case r of Inl _ \<Rightarrow> untouched fs0 p fs | Inr _ \<Rightarrow> kept fs0 p fs \<and> holds_text fs p c)"
    (is "hoare _ ?I _ ?Q")
proof -
  note safe = untouched_temp_safe [OF p, of fs0]
  have ne: "p \<noteq> []" using p by (simp add: text_path_def)
  let ?T = "\<lambda>t fs. ?I fs \<and> ref_temp p t \<and> fs_get fs0 t = None \<and> fs_get fs t = Some (FileNode c)"
  have rn: "hoare (avoids p) (?T t) (rename_file t p) (\<lambda>r fs. case r of
      Inl _ \<Rightarrow> ?I fs \<and> ref_temp p t \<and> fs_get fs0 t = None | Inr _ \<Rightarrow> kept fs0 p fs \<and> holds_text fs p c)" for t
    unfolding rename_file_def
  proof (rule hoare_syscall)
    show "stable (avoids p) (?T t)"
      by (intro stable_conj stable_untouched stable_const stable_get)
    fix fs r fs'
    assume T: "?T t fs" and op: "op_rename t p fs = (r, fs')"
    then have tp: "ref_temp p t" "t \<noteq> p" using ref_temp_ne [OF _ p] by blast+
    from op_rename_Ok [OF op] show "case r of Inl _ \<Rightarrow> ?I fs' \<and> ref_temp p t \<and> fs_get fs0 t = None
        | Inr _ \<Rightarrow> kept fs0 p fs' \<and> holds_text fs' p c"
    proof (elim disjE exE conjE)
      fix b
      assume "fs_get fs t = Some (FileNode b)" "parent_dir fs p = Ok ()" "r = Ok ()"
        and fs': "fs' = fs_set p (FileNode b) (fs_del t fs)"
      moreover from this T have "b = c" by simp
      moreover have "kept fs0 p fs'" using T fs' by (auto simp: untouched_def kept_def fs_get_set fs_get_del)
      ultimately show ?thesis using rename_holds [OF p tp(1)] by simp
    qed (use T in auto)
  qed (auto simp: no_effect_def)
  have fin: "hoare (avoids p) (?T t) (match_io (rename_file t p) (\<lambda>r. case r of
      Inr _ \<Rightarrow> return_io () | Inl e \<Rightarrow> match_io (remove_file t) (\<lambda>_. fail_io (RepoIo p e)))) ?Q" for t
  proof (rule hoare_match [OF rn])
    fix r :: "io_kind + unit"
    show "hoare (avoids p) (\<lambda>fs. case r of Inl _ \<Rightarrow> ?I fs \<and> ref_temp p t \<and> fs_get fs0 t = None
        | Inr _ \<Rightarrow> kept fs0 p fs \<and> holds_text fs p c)
      (case r of Inr _ \<Rightarrow> return_io () | Inl e \<Rightarrow> match_io (remove_file t) (\<lambda>_. fail_io (RepoIo p e))) ?Q"
    proof (cases r)
      case (Inl e)
      show ?thesis
      proof (cases "ref_temp p t \<and> fs_get fs0 t = None")
        case True
        then show ?thesis
          unfolding Inl using hoare_remove_ref [OF safe, of t]
          by (auto intro!: hoare_match [where M = "\<lambda>r. ?I"] hoare_fail)
      qed (auto simp: hoare_def Inl)
    qed (auto intro!: hoare_return)
  qed
  show ?thesis
    unfolding write_text_file_atomic_def
    by (rule hoare_bind [where M = "\<lambda>_. ?I"], rule hoare_post [OF hoare_parents [OF ne]], simp split: sum.split,
        rule hoare_bind [where M = ?T], unfold write_temp_text_file_def,
        rule hoare_post [OF hoare_write_text_attempts [OF safe]], simp split: sum.split, rule fin)
qed

section \<open>Creating a file\<close>

definition created :: "fs \<Rightarrow> path \<Rightarrow> rstring \<Rightarrow> fs \<Rightarrow> bool" where
  "created fs0 p c fs \<longleftrightarrow> fs_get fs0 p = None \<and> kept fs0 p fs \<and> holds_text fs p c"

lemma holds_text_mono:
  assumes "holds_text fs p c" "\<And>n. fs_get fs (take n p) = fs_get fs' (take n p)"
  shows "holds_text fs' p c"
  using assms resolve_cong [of fs p fs'] by (simp add: holds_text_def)

lemma ref_temp_off: "ref_temp p t \<Longrightarrow> text_path p \<Longrightarrow> take n p \<noteq> t"
  using ref_temp_ne [of p t] ref_temp_not_prefix [of p t n]
  by (cases "n < length p") (auto simp: take_butlast)

lemma holds_text_temp:
  assumes "ref_temp p t" "text_path p"
  shows "holds_text fs p c \<Longrightarrow> holds_text (fs_set t n fs) p c" and "holds_text fs p c \<Longrightarrow> holds_text (fs_del t fs) p c"
  using ref_temp_off [OF assms] by (auto elim!: holds_text_mono simp: fs_get_set fs_get_del)

lemma stable_created: "stable R (created fs0 p c)"
proof (rule stable_mono)
  fix fs fs'
  assume "fs_ext fs fs'" "created fs0 p c fs"
  then show "created fs0 p c fs'"
    using resolve_ext by (auto simp: created_def kept_def holds_text_def fs_ext_def)
qed

lemma created_temp_safe: "text_path p \<Longrightarrow> temp_safe R (created fs0 p c) fs0 p"
  using stable_created [of R fs0 p c] ref_temp_ne [of p]
  by (auto simp: temp_safe_def created_def kept_def fs_get_set fs_get_del holds_text_temp) (metis not_None_eq)

lemma link_created:
  assumes p: "text_path p" and "untouched fs0 p fs" "fs_get fs p = None" "parent_dir fs p = Ok ()"
  shows "created fs0 p c (fs_set p (FileNode c) fs)"
proof -
  have ne: "p \<noteq> []" using p by (simp add: text_path_def)
  have "resolve (fs_set p (FileNode c) fs) (butlast p) = resolve fs (butlast p)"
    using path_not_parent_prefix [OF ne] by (intro resolve_cong) (auto simp: fs_get_set)
  then have "parent_dir (fs_set p (FileNode c) fs) p = Ok ()" using assms(4) by (simp add: parent_dir_def)
  then have "holds_text (fs_set p (FileNode c) fs) p c" using ne by (simp add: holds_text_def resolve_parent fs_get_set)
  then show ?thesis using assms(2,3) by (auto simp: created_def untouched_def kept_def fs_get_set)
qed

lemma hoare_create_text_new:
  assumes p: "text_path p"
  shows "hoare (avoids p) (untouched fs0 p) (create_text_file_new p c already)
    (\<lambda>r fs. case r of Inl e \<Rightarrow> (untouched fs0 p fs \<or> created fs0 p c fs)
      | Inr _ \<Rightarrow> created fs0 p c fs)" (is "hoare _ ?I _ ?Q")
proof -
  note safe = untouched_temp_safe [OF p, of fs0] and safe2 = created_temp_safe [OF p, of "avoids p" fs0 c]
  have ne: "p \<noteq> []" using p by (simp add: text_path_def)
  let ?N = "\<lambda>t. ref_temp p t \<and> fs_get fs0 t = None"
  let ?T = "\<lambda>t fs. ?I fs \<and> ?N t \<and> fs_get fs t = Some (FileNode c)"
  have ln: "hoare (avoids p) (?T t) (hard_link t p) (\<lambda>r fs. case r of
      Inl _ \<Rightarrow> ?I fs \<and> ?N t | Inr _ \<Rightarrow> created fs0 p c fs \<and> ?N t)" for t
    unfolding hard_link_def
  proof (rule hoare_syscall)
    show "stable (avoids p) (?T t)" by (intro stable_conj stable_untouched stable_const stable_get)
    fix fs r fs'
    assume "?T t fs" and op: "op_hard_link t p fs = (r, fs')"
    then show "case r of Inl _ \<Rightarrow> ?I fs' \<and> ?N t | Inr _ \<Rightarrow> created fs0 p c fs' \<and> ?N t"
      using op_hard_link_cases [OF op] resolve_get [of fs t] link_created [OF p] by auto
  qed (auto simp: no_effect_def)
  have rmI: "hoare (avoids p) ?I (remove_file t) (\<lambda>r fs. ?I fs)" if "?N t" for t
    using hoare_remove_ref [OF safe] that by blast
  have rmC: "hoare (avoids p) (created fs0 p c) (remove_file t) (\<lambda>r fs. created fs0 p c fs)" if "?N t" for t
    using hoare_remove_ref [OF safe2] that by blast
  let ?fin = "\<lambda>t r. case r of
      Inr _ \<Rightarrow> bind_io (remove_ref_temp t) (\<lambda>_. return_io ())
    | Inl e \<Rightarrow> if e = AlreadyExists then bind_io (remove_ref_temp t) (\<lambda>_. fail_io already)
        else match_io (remove_file t) (\<lambda>_. fail_io (RepoIo p e))"
  have "hoare (avoids p) (?T t) (match_io (hard_link t p) (?fin t)) ?Q" for t
  proof (rule hoare_match [OF ln])
    fix r :: "io_kind + unit"
    show "hoare (avoids p) (\<lambda>fs. case r of Inl _ \<Rightarrow> ?I fs \<and> ?N t | Inr _ \<Rightarrow> created fs0 p c fs \<and> ?N t) (?fin t r) ?Q"
    proof (cases "?N t")
      case True
      show ?thesis
      proof (cases r)
        case (Inr u)
        have "hoare (avoids p) (created fs0 p c) (remove_ref_temp t) (\<lambda>r fs. created fs0 p c fs)"
          unfolding remove_ref_temp_def by (rule hoare_map_err) (rule rmC [OF True])
        then show ?thesis
          unfolding Inr using True
          by (auto intro!: hoare_bind [where M = "\<lambda>_. created fs0 p c"] hoare_return elim!: hoare_post split: sum.splits)
      next
        case (Inl e)
        have "hoare (avoids p) ?I (remove_ref_temp t) (\<lambda>r fs. ?I fs)"
          unfolding remove_ref_temp_def by (rule hoare_map_err) (rule rmI [OF True])
        then show ?thesis
          unfolding Inl using True rmI [OF True]
          by (auto intro!: hoare_bind [where M = "\<lambda>_. ?I"] hoare_match [where M = "\<lambda>_. ?I"] hoare_fail
              elim!: hoare_post split: sum.splits)
      qed
    qed (auto simp: hoare_def split: sum.splits)
  qed
  note fin = this
  show ?thesis
    unfolding create_text_file_new_def
    by (rule hoare_bind [where M = "\<lambda>_. ?I"], rule hoare_post [OF hoare_parents [OF ne]], simp split: sum.split,
        rule hoare_bind [where M = ?T], unfold write_temp_text_file_def,
        rule hoare_post [OF hoare_write_text_attempts [OF safe]], simp split: sum.split, rule fin)
qed

section \<open>Reading\<close>

lemma hoare_read_text_file:
  assumes "stable R P" "\<And>fs. P fs \<Longrightarrow> holds_text fs p c"
  shows "hoare R P (read_text_file p missing) (\<lambda>r fs. P fs \<and> (\<forall>x. r = Ok x \<longrightarrow> x = c))"
proof -
  have rd: "hoare R P (read_file p) (\<lambda>r fs. P fs \<and> (\<forall>x. r = Ok x \<longrightarrow> x = c))"
    unfolding read_file_def
    by (rule hoare_syscall [OF assms(1)])
      (use assms(2) in \<open>auto simp: no_effect_def holds_text_def readable_def dest: op_read_run\<close>)
  have "hoare R P (read_to_string p) (\<lambda>r fs. P fs \<and> (\<forall>x. r = Ok x \<longrightarrow> x = c))"
    unfolding read_to_string_def
    by (rule hoare_bind [where M = "\<lambda>x fs. P fs \<and> x = c"])
      (auto intro!: hoare_post [OF rd] hoare_return hoare_fail split: sum.splits)
  then show ?thesis
    unfolding read_text_file_def by (intro hoare_map_err) (auto elim!: hoare_post simp: map_err_Inr_iff)
qed

lemma quiet_read_text_file:
  assumes "quiet w" "holds_text (w_fs w) p c" "utf8 c" "fits_memory c"
  shows "read_text_file p missing w = (Ok c, w)"
proof -
  have "fst (op_read p (w_fs w)) = Ok c"
    using assms(2,4) by (simp add: op_read_Ok readable_def holds_text_def)
  then show ?thesis
    using assms(1,3)
    by (simp add: read_text_file_def map_err_io_def match_io_def read_to_string_def bind_io_def quiet_read_file
        return_io_def result_io_def)
qed

end
