(* ===== verification/Ref_Contract.thy ===== *)
theory Ref_Contract
  imports Ref_Writes
begin

text \<open>
  Refs as a map. The locale \<open>ref_family\<close> states what a family of refs promises: one file for each key, and
  operations that replace, create and read it. Its clients show that the family behaves as a map from keys
  to snapshot identifiers, whatever fails on the way. Branch refs and workspace refs are the two instances.
\<close>

section \<open>Contents of a ref\<close>

definition points_to :: "fs \<Rightarrow> path \<Rightarrow> object_id \<Rightarrow> bool" where
  "points_to fs p i \<longleftrightarrow> holds_text fs p (ref_contents i)"

lemma single_line_line: "10 \<notin> set l \<Longrightarrow> l \<noteq> [] \<Longrightarrow> single_line (l @ [10]) = Some l"
  by (simp add: single_line_def trim_newline_def)

lemma single_line_Some:
  "single_line s = Some l \<longleftrightarrow> 10 \<notin> set l \<and> l \<noteq> [] \<and> (s = l \<or> s = l @ [10])"
proof (cases "s \<noteq> [] \<and> last s = 10")
  case True
  then have s: "s = butlast s @ [10]" by (metis append_butlast_last_id)
  then have "single_line s = (if 10 \<in> set (butlast s) \<or> butlast s = [] then None else Some (butlast s))"
    using True by (simp add: single_line_def trim_newline_def)
  then show ?thesis using s True by (metis butlast_snoc last_in_set option.distinct(1) option.inject)
next
  case False
  then show ?thesis by (auto simp: single_line_def trim_newline_def)
qed

lemma to_hex_range: "b \<in> set (to_hex i) \<Longrightarrow> 48 \<le> b \<and> b < 0x80"
proof -
  have "\<forall>n \<in> set [0..<16]. 48 \<le> hex_digit (word_of_nat n) \<and> hex_digit (word_of_nat n) < 0x80" by code_simp
  then have "48 \<le> hex_digit v \<and> hex_digit v < 0x80" if "v < 16" for v
    using all_nibbles [of "\<lambda>v. 48 \<le> hex_digit v \<and> hex_digit v < 0x80" v] that by blast
  then show "b \<in> set (to_hex i) \<Longrightarrow> 48 \<le> b \<and> b < 0x80"
    using drop_bit_4_less and_15_less by (auto simp: to_hex_def hex_byte_def)
qed

lemma to_hex_line: "10 \<notin> set (to_hex i)"
  using to_hex_range [of 10 i] by auto

lemma to_hex_nonempty: "valid_id i \<Longrightarrow> to_hex i \<noteq> []"
  using length_to_hex [of i] by (auto simp: valid_id_def OBJECT_ID_BYTES_def)

lemma ref_contents_text: "valid_id i \<Longrightarrow> utf8 (ref_contents i) \<and> fits_memory (ref_contents i)"
  using to_hex_range [of _ i] length_to_hex [of i]
  by (auto simp: ref_contents_def valid_id_def OBJECT_ID_BYTES_def fits_memory_def intro!: utf8_ascii)

lemma parse_ref_contents: "valid_id i \<Longrightarrow> parse_ref p (ref_contents i) = Ok i"
  by (simp add: parse_ref_def ref_contents_def single_line_line to_hex_line to_hex_nonempty from_hex_to_hex)

section \<open>The contract\<close>

datatype 'k ref_op = WriteRef 'k object_id | CreateRef 'k object_id | ReadRef 'k

datatype ref_result = Updated "repository_error + unit" | Got "repository_error + object_id"

fun op_key :: "'k ref_op \<Rightarrow> 'k" where
  "op_key (WriteRef k i) = k"
| "op_key (CreateRef k i) = k"
| "op_key (ReadRef k) = k"

fun op_valid :: "'k ref_op \<Rightarrow> bool" where
  "op_valid (WriteRef k i) \<longleftrightarrow> valid_id i"
| "op_valid (CreateRef k i) \<longleftrightarrow> valid_id i"
| "op_valid (ReadRef k) \<longleftrightarrow> True"

text \<open>A sequence of operations, with the result of each; a failed operation does not end the sequence.\<close>

fun run_refs ::
  "('k \<Rightarrow> object_id \<Rightarrow> unit repo_io) \<Rightarrow> ('k \<Rightarrow> object_id \<Rightarrow> unit repo_io) \<Rightarrow> ('k \<Rightarrow> object_id repo_io) \<Rightarrow>
     'k ref_op list \<Rightarrow> world \<Rightarrow> ref_result list \<times> world" where
  "run_refs wr cr rd [] w = ([], w)"
| "run_refs wr cr rd (op # ops) w =
    (case (case op of
        WriteRef k i \<Rightarrow> apfst Updated (wr k i w)
      | CreateRef k i \<Rightarrow> apfst Updated (cr k i w)
      | ReadRef k \<Rightarrow> apfst Got (rd k w)) of
     (r, w1) \<Rightarrow> (case run_refs wr cr rd ops w1 of (rs, w') \<Rightarrow> (r # rs, w')))"

text \<open>
  The specification: the results a map gives. A write that succeeds binds the key, a create that
  succeeds binds a key that had no binding, an operation that fails changes nothing, and a read of a bound key
  gives its binding or fails.
\<close>

fun map_steps :: "('k \<rightharpoonup> object_id) \<Rightarrow> 'k ref_op list \<Rightarrow> ref_result list \<Rightarrow> ('k \<rightharpoonup> object_id) \<Rightarrow> bool" where
  "map_steps m [] [] m' \<longleftrightarrow> m' = m"
| "map_steps m (WriteRef k i # ops) (Updated r # rs) m' \<longleftrightarrow>
     map_steps (case r of Inl _ \<Rightarrow> m | Inr _ \<Rightarrow> m(k \<mapsto> i)) ops rs m'"
| "map_steps m (CreateRef k i # ops) (Updated r # rs) m' \<longleftrightarrow>
     (r = Ok () \<longrightarrow> m k = None) \<and> map_steps (case r of Inl _ \<Rightarrow> m | Inr _ \<Rightarrow> m(k \<mapsto> i)) ops rs m'"
| "map_steps m (ReadRef k # ops) (Got r # rs) m' \<longleftrightarrow>
     (\<forall>i j. m k = Some i \<and> r = Ok j \<longrightarrow> j = i) \<and> map_steps m ops rs m'"
| "map_steps m _ _ m' \<longleftrightarrow> False"

locale ref_family =
  fixes rpath :: "'k \<Rightarrow> path"
    and write_ref :: "'k \<Rightarrow> object_id \<Rightarrow> unit repo_io"
    and create_ref :: "'k \<Rightarrow> object_id \<Rightarrow> unit repo_io"
    and read_ref :: "'k \<Rightarrow> object_id repo_io"
    and key_ok :: "'k \<Rightarrow> bool"
  assumes rpath_apart: "key_ok k \<Longrightarrow> key_ok k' \<Longrightarrow> k \<noteq> k' \<Longrightarrow> take n (rpath k') \<noteq> rpath k"
    and write_law: "key_ok k \<Longrightarrow>
      hoare (avoids (rpath k)) (untouched fs0 (rpath k)) (write_ref k i) (\<lambda>r fs. case r of
        Inl _ \<Rightarrow> untouched fs0 (rpath k) fs | Inr _ \<Rightarrow> kept fs0 (rpath k) fs \<and> points_to fs (rpath k) i)"
    and create_law: "key_ok k \<Longrightarrow>
      hoare (avoids (rpath k)) (untouched fs0 (rpath k)) (create_ref k i) (\<lambda>r fs. case r of
        Inl _ \<Rightarrow> untouched fs0 (rpath k) fs \<or> fs_get fs0 (rpath k) = None \<and> kept fs0 (rpath k) fs
      | Inr _ \<Rightarrow> fs_get fs0 (rpath k) = None \<and> kept fs0 (rpath k) fs \<and> points_to fs (rpath k) i)"
    and read_law: "valid_id i \<Longrightarrow> stable R P \<Longrightarrow> (\<And>fs. P fs \<Longrightarrow> points_to fs (rpath k) i) \<Longrightarrow>
      hoare R P (read_ref k) (\<lambda>r fs. P fs \<and> (\<forall>j. r = Ok j \<longrightarrow> j = i))"
    and read_keeps: "stable R P \<Longrightarrow> hoare R P (read_ref k) (\<lambda>r fs. P fs)"
begin

text \<open>The family represents a map: every key it binds is a ref that points where the map says.\<close>

definition represents :: "fs \<Rightarrow> ('k \<rightharpoonup> object_id) \<Rightarrow> bool" where
  "represents fs m \<longleftrightarrow> (\<forall>k i. m k = Some i \<longrightarrow> key_ok k \<and> valid_id i \<and> points_to fs (rpath k) i)"

lemma represents_kept:
  assumes "represents fs0 m" "kept fs0 (rpath k) fs" "key_ok k" "m k' = Some i" "k' \<noteq> k"
  shows "points_to fs (rpath k') i"
proof -
  have k': "key_ok k'" "points_to fs0 (rpath k') i" using assms(1,4) by (auto simp: represents_def)
  have get: "fs_get fs (take n (rpath k')) = fs_get fs0 (take n (rpath k'))" if "fs_get fs0 (take n (rpath k')) \<noteq> None" for n
    using assms(2) that rpath_apart [OF assms(3) k'(1), of n] assms(5) by (auto simp: kept_def)
  have "walk fs0 pre q = Ok x \<Longrightarrow> (\<And>n. fs_get fs0 (pre @ take n q) \<noteq> None \<Longrightarrow>
      fs_get fs (pre @ take n q) = fs_get fs0 (pre @ take n q)) \<Longrightarrow> walk fs pre q = Ok x" for pre q x
  proof (induction fs0 pre q rule: walk.induct)
    case (1 fs0 pre)
    then show ?case using "1.prems"(2) [of 0] by (auto split: option.splits)
  next
    case (2 fs0 pre c cs)
    have "fs_get fs pre = Some DirNode" and rec: "fs_get fs0 pre = Some DirNode" "walk fs0 (pre @ [c]) cs = Ok x"
      using 2 "2.prems"(2) [of 0] by (auto split: option.splits node.splits)
    moreover have "walk fs (pre @ [c]) cs = Ok x"
      using "2.IH" [OF rec(1) refl rec(2)] "2.prems"(2) [of "Suc _"] by simp
    ultimately show ?case by simp
  qed
  from this [of "[]" "rpath k'"] show ?thesis
    using k'(2) get by (simp add: points_to_def holds_text_def resolve_def)
qed

lemma represents_write:
  assumes "represents (w_fs w) m" "key_ok k" "valid_id i" "write_ref k i w = (r, w')"
    and rely: "\<And>fs p b. w_rely w fs p b \<Longrightarrow> avoids (rpath k) fs p b"
  shows "represents (w_fs w') (case r of Inl _ \<Rightarrow> m | Inr _ \<Rightarrow> m(k \<mapsto> i)) \<and> w_rely w' = w_rely w"
proof -
  have post: "case r of Inl _ \<Rightarrow> untouched (w_fs w) (rpath k) (w_fs w')
      | Inr _ \<Rightarrow> kept (w_fs w) (rpath k) (w_fs w') \<and> points_to (w_fs w') (rpath k) i" and wr: "w_rely w' = w_rely w"
    using hoareD [OF write_law [OF assms(2), of "w_fs w"] assms(4)] rely by auto
  have same: "points_to (w_fs w') (rpath k') j" if "m k' = Some j" "kept (w_fs w) (rpath k) (w_fs w')" "k' \<noteq> k" for k' j
    using represents_kept [OF assms(1) that(2) assms(2) that(1,3)] .
  show ?thesis
  proof (cases r)
    case (Inl e)
    then have u: "untouched (w_fs w) (rpath k) (w_fs w')" using post by simp
    then have "fs_ext (w_fs w) (w_fs w')" by (auto simp: untouched_def kept_def fs_ext_def) metis
    then have "points_to (w_fs w') p j" if "points_to (w_fs w) p j" for p j
      using that resolve_ext by (auto simp: points_to_def holds_text_def)
    then show ?thesis using Inl wr assms(1) by (auto simp: represents_def)
  next
    case (Inr u)
    then show ?thesis using post wr assms(1-3) same by (auto simp: represents_def)
  qed
qed

lemma represents_create:
  assumes "represents (w_fs w) m" "key_ok k" "valid_id i" "create_ref k i w = (r, w')"
    and rely: "\<And>fs p b. w_rely w fs p b \<Longrightarrow> avoids (rpath k) fs p b"
  shows "represents (w_fs w') (case r of Inl _ \<Rightarrow> m | Inr _ \<Rightarrow> m(k \<mapsto> i)) \<and> w_rely w' = w_rely w \<and>
    (r = Ok () \<longrightarrow> m k = None)"
proof -
  have post: "case r of Inl _ \<Rightarrow> untouched (w_fs w) (rpath k) (w_fs w') \<or>
        fs_get (w_fs w) (rpath k) = None \<and> kept (w_fs w) (rpath k) (w_fs w')
      | Inr _ \<Rightarrow> fs_get (w_fs w) (rpath k) = None \<and> kept (w_fs w) (rpath k) (w_fs w') \<and> points_to (w_fs w') (rpath k) i"
    and wr: "w_rely w' = w_rely w"
    using hoareD [OF create_law [OF assms(2), of "w_fs w"] assms(4)] rely by auto
  have none: "m k = None" if "fs_get (w_fs w) (rpath k) = None"
    using that assms(1) resolve_get [of "w_fs w" "rpath k"]
    by (cases "m k") (auto simp: represents_def points_to_def holds_text_def)
  have kept: "kept (w_fs w) (rpath k) (w_fs w')" using post by (auto simp: untouched_def split: sum.splits)
  have ext: "fs_ext (w_fs w) (w_fs w')"
    using post kept by (auto simp: untouched_def kept_def fs_ext_def split: sum.splits) (metis option.distinct(1))+
  have "points_to (w_fs w') p j" if "points_to (w_fs w) p j" for p j
    using that resolve_ext [OF ext] by (auto simp: points_to_def holds_text_def)
  then show ?thesis using post none wr assms(1-3) by (auto simp: represents_def split: sum.splits)
qed

lemma stable_represents: "stable R (\<lambda>fs. represents fs m)"
  by (rule stable_mono) (auto simp: represents_def points_to_def holds_text_def dest: resolve_ext)

lemma represents_read:
  assumes "represents (w_fs w) m" "read_ref k w = (r, w')"
  shows "represents (w_fs w') m \<and> w_rely w' = w_rely w \<and> (\<forall>i j. m k = Some i \<and> r = Ok j \<longrightarrow> j = i)"
proof (cases "m k")
  case None
  then show ?thesis
    using hoareD [OF read_keeps [where R = "w_rely w", OF stable_represents] assms(2)] assms(1) by auto
next
  case (Some i)
  then have bound: "represents fs m \<Longrightarrow> valid_id i \<and> points_to fs (rpath k) i" for fs by (simp add: represents_def)
  then have "valid_id i" using assms(1) by blast
  then show ?thesis
    using hoareD [OF read_law [where R = "w_rely w", OF _ stable_represents [where m = m]] assms(2)] assms(1) Some bound
    by (metis option.inject)
qed

text \<open>Every run of the operations, under every script of failures and publications, is a run of the map.\<close>

lemma history:
  assumes "represents (w_fs w) m" "run_refs write_ref create_ref read_ref ops w = (rs, w')"
    and "\<forall>op \<in> set ops. key_ok (op_key op) \<and> op_valid op"
    and "\<And>fs p b k. w_rely w fs p b \<Longrightarrow> key_ok k \<Longrightarrow> p \<noteq> rpath k"
  shows "\<exists>m'. map_steps m ops rs m' \<and> represents (w_fs w') m'"
  using assms
proof (induction ops arbitrary: m w rs)
  case Nil
  then show ?case by auto
next
  case (Cons op ops)
  have apart: "avoids (rpath k) fs p b" if "w_rely w fs p b" "key_ok k" for fs p b k
    using Cons.prems(4) [OF that] by (simp add: avoids_def)
  have IH: "\<exists>m'. map_steps m1 ops rs1 m' \<and> represents (w_fs w') m'" if "represents (w_fs w1) m1"
      "run_refs write_ref create_ref read_ref ops w1 = (rs1, w')" "w_rely w1 = w_rely w" for m1 w1 rs1
    by (rule Cons.IH [OF that(1,2)]) (use Cons.prems(3,4) that(3) in auto)
  show ?case
  proof (cases op)
    case (WriteRef k i)
    obtain r w1 rs1 where run: "write_ref k i w = (r, w1)" "run_refs write_ref create_ref read_ref ops w1 = (rs1, w')"
        "rs = Updated r # rs1"
      using Cons.prems(2) WriteRef by (auto simp: apfst_def map_prod_def split: prod.splits)
    have "key_ok k" "valid_id i" using Cons.prems(3) WriteRef by auto
    then show ?thesis
      using represents_write [OF Cons.prems(1) _ _ run(1) apart] IH [OF _ run(2)] run(3) WriteRef by auto
  next
    case (CreateRef k i)
    obtain r w1 rs1 where run: "create_ref k i w = (r, w1)" "run_refs write_ref create_ref read_ref ops w1 = (rs1, w')"
        "rs = Updated r # rs1"
      using Cons.prems(2) CreateRef by (auto simp: apfst_def map_prod_def split: prod.splits)
    have "key_ok k" "valid_id i" using Cons.prems(3) CreateRef by auto
    then show ?thesis
      using represents_create [OF Cons.prems(1) _ _ run(1) apart] IH [OF _ run(2)] run(3) CreateRef by auto
  next
    case (ReadRef k)
    obtain r w1 rs1 where run: "read_ref k w = (r, w1)" "run_refs write_ref create_ref read_ref ops w1 = (rs1, w')"
        "rs = Got r # rs1"
      using Cons.prems(2) ReadRef by (auto simp: apfst_def map_prod_def split: prod.splits)
    show ?thesis
      using represents_read [OF Cons.prems(1) run(1)] IH [OF _ run(2)] run(3) ReadRef by auto
  qed
qed

end

section \<open>Branch refs and workspace refs\<close>

lemma path_apart:
  assumes "c \<noteq> c'"
  shows "take n (d @ [c']) \<noteq> d @ [c]"
proof
  assume eq: "take n (d @ [c']) = d @ [c]"
  then have "length (take n (d @ [c'])) = Suc (length d)" by simp
  then have "take n (d @ [c']) = d @ [c']" by simp
  then show False using eq assms by simp
qed

lemma hoare_read_points:
  assumes "valid_id i" "stable R P" "\<And>fs. P fs \<Longrightarrow> points_to fs p i"
  shows "hoare R P (bind_io (read_text_file p missing) (\<lambda>contents. result_io (parse_ref p contents)))
    (\<lambda>r fs. P fs \<and> (\<forall>j. r = Ok j \<longrightarrow> j = i))"
proof (rule hoare_bind [where M = "\<lambda>x fs. P fs \<and> x = ref_contents i"])
  show "hoare R P (read_text_file p missing) (\<lambda>r fs. case r of
      Inl e \<Rightarrow> P fs \<and> (\<forall>j. Inl e = Ok j \<longrightarrow> j = i) | Inr x \<Rightarrow> P fs \<and> x = ref_contents i)"
    by (rule hoare_post [OF hoare_read_text_file [OF assms(2), of p "ref_contents i"]])
      (use assms(3) in \<open>auto simp: points_to_def split: sum.splits\<close>)
qed (auto intro!: hoare_result simp: parse_ref_contents [OF assms(1)])

lemma hoare_read_text_keeps: "stable R P \<Longrightarrow> hoare R P (read_text_file p missing) (\<lambda>r fs. P fs)"
  unfolding read_text_file_def read_to_string_def read_file_def
  by (rule hoare_map_err, rule hoare_bind [where M = "\<lambda>x. P"], rule hoare_syscall)
    (auto simp: no_effect_def op_read_def intro!: hoare_return hoare_fail split: sum.splits)

lemma hoare_read_ref_keeps:
  "stable R P \<Longrightarrow> hoare R P (bind_io (read_text_file p missing) (\<lambda>c. result_io (parse_ref p c))) (\<lambda>r fs. P fs)"
  by (rule hoare_bind [where M = "\<lambda>x. P"], rule hoare_post [OF hoare_read_text_keeps])
    (auto intro!: hoare_result split: sum.splits)

lemma write_points:
  "text_path p \<Longrightarrow> hoare (avoids p) (untouched fs0 p) (write_text_file_atomic p (ref_contents i)) (\<lambda>r fs. case r of
     Inl _ \<Rightarrow> untouched fs0 p fs | Inr _ \<Rightarrow> kept fs0 p fs \<and> points_to fs p i)"
  unfolding points_to_def by (rule hoare_write_text_atomic)

lemma create_points:
  "text_path p \<Longrightarrow> hoare (avoids p) (untouched fs0 p) (create_text_file_new p (ref_contents i) e) (\<lambda>r fs. case r of
     Inl _ \<Rightarrow> untouched fs0 p fs \<or> fs_get fs0 p = None \<and> kept fs0 p fs
   | Inr _ \<Rightarrow> fs_get fs0 p = None \<and> kept fs0 p fs \<and> points_to fs p i)"
  unfolding points_to_def
  by (rule hoare_post [OF hoare_create_text_new]) (auto simp: created_def split: sum.splits)

definition branch_ok :: "branch_name \<Rightarrow> bool" where
  "branch_ok b \<longleftrightarrow> name_ok (branch_str b) \<and> utf8 (branch_str b)"

definition workspace_ok :: "workspace_id \<Rightarrow> bool" where
  "workspace_ok w \<longleftrightarrow> name_ok (workspace_str w) \<and> utf8 (workspace_str w)"

lemma branch_text_path: "branch_ok b \<Longrightarrow> text_path (branch_ref_path md b)"
  by (simp add: branch_ok_def branch_ref_path_def text_path_def)

lemma workspace_text_path: "workspace_ok w \<Longrightarrow> text_path (workspace_ref_path md w)"
  by (simp add: workspace_ok_def workspace_ref_path_def text_path_def)

interpretation branch_refs: ref_family "branch_ref_path md" "write_branch_ref md" "create_branch_ref md"
    "read_branch_ref md" branch_ok for md
proof unfold_locales
  show "take n (branch_ref_path md b') \<noteq> branch_ref_path md b" if "b \<noteq> b'" for b b' n
    unfolding branch_ref_path_def using that by (intro path_apart) (cases b; cases b'; simp)
qed (unfold write_branch_ref_def create_branch_ref_def read_branch_ref_def,
    auto intro: write_points create_points branch_text_path hoare_read_points hoare_read_ref_keeps)

interpretation workspace_refs: ref_family "workspace_ref_path md" "write_workspace_ref md" "create_workspace_ref md"
    "read_workspace_ref md" workspace_ok for md
proof unfold_locales
  show "take n (workspace_ref_path md w') \<noteq> workspace_ref_path md w" if "w \<noteq> w'" for w w' n
    unfolding workspace_ref_path_def using that by (intro path_apart) (cases w; cases w'; simp)
qed (unfold write_workspace_ref_def create_workspace_ref_def read_workspace_ref_def Let_def,
    auto intro: write_points create_points workspace_text_path hoare_read_points hoare_read_ref_keeps)

end
