(* ===== verification/Ref_Properties.thy ===== *)
theory Ref_Properties
  imports Ref_Contract
begin

text \<open>
  The properties of \<open>refs.rs\<close>: refs as a map under every script, all-or-nothing writes, exact round trips of
  HEAD, refs and pointer files, and the listings.
\<close>

section \<open>A concrete world for the witnesses\<close>

definition ref_world :: "event list \<Rightarrow> fs \<Rightarrow> world" where
  "ref_world es fs = \<lparr>w_fs = fs, w_env = es, w_rely = (\<lambda>fs p b. False), w_counter = 0, w_pid = 7, w_ref_counter = 0,
     w_clock = 0, w_jitter = [], w_ages = [], w_unix = [],
      w_stamps = (\<lambda>p. \<lparr>stamp_modified = None, stamp_dev = 0, stamp_ino = 0\<rparr>), w_fresh = []\<rparr>"

lemma ref_world_simps [simp]:
  "w_fs (ref_world es fs) = fs" "w_rely (ref_world es fs) = (\<lambda>fs p b. False)" "quiet (ref_world [] fs)"
  "w_clock (ref_world es fs) = 0" "w_jitter (ref_world es fs) = []"
  by (simp_all add: ref_world_def quiet_def)

definition sample_id :: "byte \<Rightarrow> object_id" where
  "sample_id b = ObjectId (replicate 32 b)"

lemma sample_id_valid: "valid_id (sample_id b)"
  by (simp add: sample_id_def valid_id_def OBJECT_ID_BYTES_def)

definition sample_ops :: "branch_name ref_op list" where
  "sample_ops = [CreateRef branch_main (sample_id 1), CreateRef branch_main (sample_id 2), WriteRef branch_main (sample_id 3),
     ReadRef branch_main]"

lemma main_ok: "branch_ok branch_main"
  by code_simp

section \<open>Refs\<close>

text \<open>
  C12. Branch refs are a map. Whatever fails and whatever other files are published between the calls, a sequence
  of \<open>write_branch_ref\<close>, \<open>create_branch_ref\<close> and \<open>read_branch_ref\<close> gives results that a map from branches to
  snapshots gives: a successful write or create binds the branch, a create succeeds only on a branch that had
  no ref, a failed operation loses no ref, and a read of a bound branch gives its snapshot or fails.
\<close>

theorem branch_ref_history:
  assumes "\<forall>op \<in> set ops. branch_ok (op_key op) \<and> op_valid op"
    and "\<And>fs p b k. w_rely w fs p b \<Longrightarrow> branch_ok k \<Longrightarrow> p \<noteq> branch_ref_path md k"
    and "\<forall>k i. m k = Some i \<longrightarrow> branch_ok k \<and> valid_id i \<and> points_to (w_fs w) (branch_ref_path md k) i"
    and "run_refs (write_branch_ref md) (create_branch_ref md) (read_branch_ref md) ops w = (rs, w')"
  shows "\<exists>m'. map_steps m ops rs m' \<and>
    (\<forall>k i. m' k = Some i \<longrightarrow> branch_ok k \<and> valid_id i \<and> points_to (w_fs w') (branch_ref_path md k) i)"
proof -
  have "\<exists>m'. map_steps m ops rs m' \<and> branch_refs.represents md (w_fs w') m'"
    by (rule branch_refs.history [OF _ assms(4,1)]) (use assms(2,3) in \<open>auto simp: branch_refs.represents_def\<close>)
  then show ?thesis unfolding branch_refs.represents_def .
qed

theorem branch_ref_history_witness:
  "\<exists>m'. map_steps Map.empty sample_ops
      (fst (run_refs (write_branch_ref []) (create_branch_ref []) (read_branch_ref []) sample_ops
        (ref_world [Quiet, Quiet, Quiet, Quiet, Quiet, Quiet, Fault 0] []))) m' \<and>
    (\<forall>k i. m' k = Some i \<longrightarrow> branch_ok k \<and> valid_id i \<and>
      points_to (w_fs (snd (run_refs (write_branch_ref []) (create_branch_ref []) (read_branch_ref []) sample_ops
        (ref_world [Quiet, Quiet, Quiet, Quiet, Quiet, Quiet, Fault 0] [])))) (branch_ref_path [] k) i) \<and>
    fst (run_refs (write_branch_ref []) (create_branch_ref []) (read_branch_ref []) sample_ops (ref_world [] [])) =
      [Updated (Ok ()), Updated (Err (BranchAlreadyExists branch_main)), Updated (Ok ()), Got (Ok (sample_id 3))]"
    (is "\<exists>m'. map_steps _ _ (fst ?run) m' \<and> ?P m' \<and> ?E")
proof -
  have ops: "\<forall>op \<in> set sample_ops. branch_ok (op_key op) \<and> op_valid op"
    by (simp add: sample_ops_def main_ok sample_id_valid)
  have "\<exists>m'. map_steps Map.empty sample_ops (fst ?run) m' \<and> ?P m'"
    by (rule branch_ref_history [OF ops, where w' = "snd ?run"]) simp_all
  moreover have ?E by code_simp
  ultimately show ?thesis by blast
qed

text \<open>
  Workspace refs are a map, in the same sense, over \<open>write_workspace_ref\<close>, \<open>create_workspace_ref\<close> and
  \<open>read_workspace_ref\<close>.
\<close>

lemma workspace_ref_history:
  assumes "\<forall>op \<in> set ops. workspace_ok (op_key op) \<and> op_valid op"
    and "\<And>fs p b k. w_rely w fs p b \<Longrightarrow> workspace_ok k \<Longrightarrow> p \<noteq> workspace_ref_path md k"
    and "\<forall>k i. m k = Some i \<longrightarrow> workspace_ok k \<and> valid_id i \<and> points_to (w_fs w) (workspace_ref_path md k) i"
    and "run_refs (write_workspace_ref md) (create_workspace_ref md) (read_workspace_ref md) ops w = (rs, w')"
  shows "\<exists>m'. map_steps m ops rs m' \<and>
    (\<forall>k i. m' k = Some i \<longrightarrow> workspace_ok k \<and> valid_id i \<and> points_to (w_fs w') (workspace_ref_path md k) i)"
proof -
  have "\<exists>m'. map_steps m ops rs m' \<and> workspace_refs.represents md (w_fs w') m'"
    by (rule workspace_refs.history [OF _ assms(4,1)]) (use assms(2,3) in \<open>auto simp: workspace_refs.represents_def\<close>)
  then show ?thesis unfolding workspace_refs.represents_def .
qed

definition workspace_ops :: "workspace_id ref_op list" where
  "workspace_ops = [WriteRef workspace_default (sample_id 5), ReadRef workspace_default]"

lemma workspace_ref_history_example:
  "\<exists>m'. map_steps Map.empty workspace_ops [Updated (Ok ()), Got (Ok (sample_id 5))] m' \<and>
    (\<forall>k i. m' k = Some i \<longrightarrow> workspace_ok k \<and> valid_id i \<and>
      points_to (w_fs (snd (run_refs (write_workspace_ref []) (create_workspace_ref []) (read_workspace_ref [])
        workspace_ops (ref_world [] [])))) (workspace_ref_path [] k) i)" (is "\<exists>m'. _ m' \<and> ?P m'")
proof -
  have "workspace_ok workspace_default" by code_simp
  then have ops: "\<forall>op \<in> set workspace_ops. workspace_ok (op_key op) \<and> op_valid op"
    by (simp add: workspace_ops_def sample_id_valid)
  have "fst (run_refs (write_workspace_ref []) (create_workspace_ref []) (read_workspace_ref [])
      workspace_ops (ref_world [] [])) = [Updated (Ok ()), Got (Ok (sample_id 5))]" by code_simp
  then show ?thesis
    by (intro workspace_ref_history [OF ops]) (auto simp: prod_eq_iff)
qed

text \<open>
  C13. \<open>write_text_file_atomic\<close> is all or nothing. Under every script, on success the path holds the new contents
  and can be reached; on failure it has exactly what it had; and in both cases every other file and directory
  stays as it was. A crash is a script that fails from some call on, so a crash leaves the old contents or
  the new ones and nothing between.
\<close>

theorem write_text_file_atomic_all_or_nothing:
  assumes "text_path p" and "\<And>fs q b. w_rely w fs q b \<Longrightarrow> q \<noteq> p"
    and "write_text_file_atomic p c w = (r, w')"
  shows "(if r = Ok () then resolve (w_fs w') p = Ok (FileNode c) else fs_get (w_fs w') p = fs_get (w_fs w) p) \<and>
    (\<forall>q n. q \<noteq> p \<and> fs_get (w_fs w) q = Some n \<longrightarrow> fs_get (w_fs w') q = Some n)"
proof -
  have "avoids p fs q b" if "w_rely w fs q b" for fs q b
    using assms(2) [OF that] by (simp add: avoids_def)
  then have "case r of Inl _ \<Rightarrow> untouched (w_fs w) p (w_fs w') | Inr _ \<Rightarrow> kept (w_fs w) p (w_fs w') \<and> holds_text (w_fs w') p c"
    using hoareD [OF hoare_write_text_atomic [OF assms(1)] assms(3)] by simp
  then show ?thesis
    by (cases r) (auto simp: untouched_def kept_def holds_text_def)
qed

theorem write_text_file_atomic_all_or_nothing_witness:
  "resolve (w_fs (snd (write_text_file_atomic [[65]] [66] (ref_world [] [([[65]], FileNode [67])])))) [[65]] = Ok (FileNode [66]) \<and>
   fs_get (w_fs (snd (write_text_file_atomic [[65]] [66]
     (ref_world [Quiet, Quiet, Fault 0, Fault 0] [([[65]], FileNode [67])])))) [[65]] = Some (FileNode [67])"
proof -
  have p: "text_path [[65]]" by code_simp
  have "fst (write_text_file_atomic [[65]] [66] (ref_world [] [([[65]], FileNode [67])])) = Ok ()" by code_simp
  moreover have "fst (write_text_file_atomic [[65]] [66]
      (ref_world [Quiet, Quiet, Fault 0, Fault 0] [([[65]], FileNode [67])])) \<noteq> Ok ()" by code_simp
  moreover have "fs_get [([[65]], FileNode [67])] [[65]] = Some (FileNode [67])" by code_simp
  moreover note write_text_file_atomic_all_or_nothing [OF p _ surjective_pairing, of "ref_world [] _" "[66]"]
    write_text_file_atomic_all_or_nothing [OF p _ surjective_pairing, of "ref_world [Quiet, Quiet, Fault 0, Fault 0] _" "[66]"]
  ultimately show ?thesis by simp
qed

text \<open>
  \<open>create_text_file_new\<close> never overwrites. Under every script it succeeds only where nothing was, and then the
  path holds the contents; a path that already had a node keeps it; a failed create leaves the path empty
  or, when only the removal of the temporary file failed, with the complete contents; and every other file
  and directory stays as it was.
\<close>

lemma create_text_file_new_never_overwrites:
  assumes "text_path p" and "\<And>fs q b. w_rely w fs q b \<Longrightarrow> q \<noteq> p"
    and "create_text_file_new p c already w = (r, w')"
  shows "(case fs_get (w_fs w) p of
      Some n \<Rightarrow> r \<noteq> Ok () \<and> fs_get (w_fs w') p = Some n
    | None \<Rightarrow> resolve (w_fs w') p = Ok (FileNode c) \<or> r \<noteq> Ok () \<and> fs_get (w_fs w') p = None) \<and>
    (\<forall>q n. q \<noteq> p \<and> fs_get (w_fs w) q = Some n \<longrightarrow> fs_get (w_fs w') q = Some n)"
proof -
  have "avoids p fs q b" if "w_rely w fs q b" for fs q b
    using assms(2) [OF that] by (simp add: avoids_def)
  then have "case r of Inl e \<Rightarrow> untouched (w_fs w) p (w_fs w') \<or> created (w_fs w) p c (w_fs w')
      | Inr _ \<Rightarrow> created (w_fs w) p c (w_fs w')"
    using hoareD [OF hoare_create_text_new [OF assms(1)] assms(3)] by simp
  then show ?thesis
    by (cases r) (auto simp: untouched_def created_def kept_def holds_text_def split: option.splits)
qed

lemma create_text_file_new_never_overwrites_example:
  "fs_get (w_fs (snd (create_text_file_new [[65]] [66] ClockBeforeUnixEpoch (ref_world [] [([[65]], FileNode [67])])))) [[65]] =
     Some (FileNode [67]) \<and>
   resolve (w_fs (snd (create_text_file_new [[65]] [66] ClockBeforeUnixEpoch (ref_world [] [])))) [[65]] = Ok (FileNode [66])"
proof -
  have p: "text_path [[65]]" by code_simp
  have "fst (create_text_file_new [[65]] [66] ClockBeforeUnixEpoch (ref_world [] [])) = Ok ()" by code_simp
  moreover have "fs_get [([[65]], FileNode [67])] [[65]] = Some (FileNode [67])" "fs_get [] [[65]] = None" by code_simp+
  moreover note
    create_text_file_new_never_overwrites [OF p _ surjective_pairing, of "ref_world [] []" "[66]" ClockBeforeUnixEpoch]
    create_text_file_new_never_overwrites [OF p _ surjective_pairing, of "ref_world [] [([[65]], FileNode [67])]" "[66]"
      ClockBeforeUnixEpoch]
  ultimately show ?thesis by simp
qed

section \<open>Round trips\<close>

text \<open>
  C35. HEAD and refs parse exactly. \<open>parse_head\<close> accepts a text exactly when it is what \<open>write_head\<close> writes for a
  valid branch name without a newline, the final newline being optional, and returns that branch; the HEAD of
  a branch whose name has a newline, which the validation of names accepts, is rejected as invalid.
  \<open>parse_ref\<close> accepts exactly the spellings of an identifier on one line, those that \<open>write_branch_ref\<close>
  writes among them.
\<close>

theorem head_and_ref_parse_exact:
  "(parse_head p c = Ok b \<longleftrightarrow> name_ok (branch_str b) \<and> 10 \<notin> set (branch_str b) \<and>
      (c = head_contents b \<or> c @ [10] = head_contents b)) \<and>
   (10 \<in> set (branch_str b) \<longrightarrow> parse_head p (head_contents b) = Err (InvalidHead p (head_contents b))) \<and>
   (parse_ref p c = Ok i \<longleftrightarrow> (\<exists>l. from_hex l = Ok i \<and> (c = l \<or> c = l @ [10]))) \<and>
   (valid_id i \<longrightarrow> parse_ref p (ref_contents i) = Ok i)"
proof (intro conjI impI)
  have pre: "10 \<notin> set HEAD_PREFIX" "10 \<notin> set REFS_HEADS_PREFIX"
    by (simp_all add: HEAD_PREFIX_def REFS_HEADS_PREFIX_def)
  show "parse_head p c = Ok b \<longleftrightarrow> name_ok (branch_str b) \<and> 10 \<notin> set (branch_str b) \<and>
      (c = head_contents b \<or> c @ [10] = head_contents b)"
    using pre by (cases b) (auto simp: parse_head_def bind_result_Inr_iff ok_or_Inr_iff strip_prefix_Some_iff single_line_Some
        branch_new_Ok head_contents_def name_ok_def)
  show "parse_head p (head_contents b) = Err (InvalidHead p (head_contents b))" if "10 \<in> set (branch_str b)"
    using that by (simp add: parse_head_def head_contents_def single_line_def trim_newline_def butlast_append)
  have "10 \<notin> set l \<and> l \<noteq> []" if "from_hex l = Ok i" for l
  proof -
    have "to_hex i = map hex_lower l" "valid_id i" using from_hex_lower [OF that] by simp_all
    moreover have "hex_lower 10 = 10" by code_simp
    ultimately show ?thesis using to_hex_line [of i] to_hex_nonempty [of i] by force
  qed
  then show "parse_ref p c = Ok i \<longleftrightarrow> (\<exists>l. from_hex l = Ok i \<and> (c = l \<or> c = l @ [10]))"
    by (auto simp: parse_ref_def bind_result_Inr_iff ok_or_Inr_iff single_line_Some)
  show "parse_ref p (ref_contents i) = Ok i" if "valid_id i" using parse_ref_contents [OF that] .
qed

theorem head_and_ref_parse_exact_witness:
  "parse_head [] (bstr ''ref: refs/heads/main'') = Ok branch_main \<and>
   parse_head [] (head_contents (BranchName [65, 10])) = Err (InvalidHead [] (head_contents (BranchName [65, 10]))) \<and>
   parse_ref [] (ref_contents (sample_id 3)) = Ok (sample_id 3)"
proof -
  have "name_ok (branch_str branch_main) \<and> 10 \<notin> set (branch_str branch_main) \<and>
      bstr ''ref: refs/heads/main'' @ [10] = head_contents branch_main" by code_simp
  then show ?thesis
    using head_and_ref_parse_exact [of "[]" "bstr ''ref: refs/heads/main''" branch_main]
      head_and_ref_parse_exact [of "[]" _ "BranchName [65, 10]"] head_and_ref_parse_exact [of "[]" _ _ "sample_id 3"]
    by (simp add: sample_id_valid)
qed

lemma lines_loop_line: "10 \<notin> set l \<Longrightarrow> lines_loop current (l @ 10 # rest) = drop_cr (current @ l) # lines_loop [] rest"
  by (induction l arbitrary: current) auto

lemma lines_loop_last: "10 \<notin> set l \<Longrightarrow> current @ l \<noteq> [] \<Longrightarrow> lines_loop current l = [current @ l]"
  by (induction l arbitrary: current) auto

lemma str_lines_three:
  "10 \<notin> set a \<Longrightarrow> 10 \<notin> set b \<Longrightarrow> 10 \<notin> set c \<Longrightarrow> c \<noteq> [] \<Longrightarrow>
     str_lines (a @ 10 # b @ 10 # c) = [drop_cr a, drop_cr b, c]"
  by (simp add: str_lines_def lines_loop_line lines_loop_last)

lemma nonempty_suffix_append [simp]: "nonempty_suffix p (p @ x) = (if x \<noteq> [] then Some x else None)"
  by (simp add: nonempty_suffix_def)

text \<open>
  A pointer file leads back. What \<open>to_pointer_file\<close> writes for an external workspace,
  \<open>parse_workspace_pointer\<close> reads as the same metadata directory and workspace, for every directory whose path
  is UTF-8 without newlines and does not end in a carriage return and every valid identifier without newlines.
\<close>

lemma workspace_pointer_roundtrip:
  assumes "path_ok (wp_metadata_dir ptr)" and "10 \<notin> set (display_path (wp_metadata_dir ptr))"
    and "last (display_path (wp_metadata_dir ptr)) \<noteq> 13"
    and "name_ok (workspace_str (wp_workspace_id ptr))" and "10 \<notin> set (workspace_str (wp_workspace_id ptr))"
  shows "parse_workspace_pointer p (to_pointer_file ptr) = Ok ptr"
proof -
  let ?dir = "display_path (wp_metadata_dir ptr)" and ?w = "workspace_str (wp_workspace_id ptr)"
  have dir: "?dir \<noteq> []"
    using assms(1) by (auto simp: display_path_def path_ok_def utf8_lossy_valid)
  have w: "?w \<noteq> []" using assms(4) by (simp add: name_ok_def)
  have ptr: "ptr = workspace_pointer_new (wp_metadata_dir ptr) (wp_workspace_id ptr)"
    by (simp add: workspace_pointer_new_def)
  have "str_lines (trim_newline (to_pointer_file ptr)) =
      [WORKSPACE_POINTER_MAGIC, POINTER_METADATA_PREFIX @ ?dir, POINTER_WORKSPACE_PREFIX @ ?w]"
    (is "_ = [?a, ?b, ?c]")
  proof -
    have n: "10 \<notin> set ?a" "10 \<notin> set ?b" "10 \<notin> set ?c"
      using assms(2,5) by (simp_all add: WORKSPACE_POINTER_MAGIC_def POINTER_METADATA_PREFIX_def POINTER_WORKSPACE_PREFIX_def)
    have cr: "drop_cr ?a = ?a" "drop_cr ?b = ?b" using dir assms(3)
      by (simp_all add: drop_cr_def WORKSPACE_POINTER_MAGIC_def)
    have "to_pointer_file ptr = (?a @ 10 # ?b @ 10 # ?c) @ [10]"
      by (simp add: to_pointer_file_def WORKSPACE_POINTER_MAGIC_def POINTER_METADATA_PREFIX_def POINTER_WORKSPACE_PREFIX_def)
    then have "trim_newline (to_pointer_file ptr) = ?a @ 10 # ?b @ 10 # ?c"
      by (simp add: trim_newline_def butlast_append)
    then show ?thesis
      using str_lines_three [OF n] cr w by simp
  qed
  then show ?thesis
    using assms(1,4) dir w ptr
    by (cases "wp_workspace_id ptr")
      (simp add: parse_workspace_pointer_def path_from_display workspace_new_Ok [THEN iffD2])
qed

definition sample_pointer :: workspace_pointer where
  "sample_pointer = workspace_pointer_new [bstr ''repo'', bstr ''.era''] (WorkspaceId (bstr ''review''))"

lemma workspace_pointer_roundtrip_example:
  "parse_workspace_pointer [] (bstr ''era-workspace-v1'' @ [10] @ bstr ''metadata: /repo/.era'' @ [10] @
     bstr ''workspace: review'' @ [10]) = Ok sample_pointer"
proof -
  have "to_pointer_file sample_pointer = bstr ''era-workspace-v1'' @ [10] @ bstr ''metadata: /repo/.era'' @ [10] @
      bstr ''workspace: review'' @ [10]" by code_simp
  moreover have "path_ok (wp_metadata_dir sample_pointer)"
    "10 \<notin> set (display_path (wp_metadata_dir sample_pointer))" "last (display_path (wp_metadata_dir sample_pointer)) \<noteq> 13"
    "name_ok (workspace_str (wp_workspace_id sample_pointer))" "10 \<notin> set (workspace_str (wp_workspace_id sample_pointer))"
    by code_simp+
  ultimately show ?thesis using workspace_pointer_roundtrip [of sample_pointer "[]"] by simp
qed

section \<open>Listing\<close>

text \<open>The file at \<open>p\<close> reads as a ref to \<open>i\<close>.\<close>

definition ref_reads :: "fs \<Rightarrow> path \<Rightarrow> object_id \<Rightarrow> bool" where
  "ref_reads fs p i \<longleftrightarrow> (\<exists>c. readable fs p c \<and> utf8 c \<and> parse_ref p c = Ok i)"

lemma quiet_read_ref:
  assumes "quiet w"
  shows "bind_io (read_text_file p missing) (\<lambda>c. result_io (parse_ref p c)) w = (Ok i, w') \<longleftrightarrow>
    w' = w \<and> ref_reads (w_fs w) p i"
  using assms
  by (auto simp: bind_io_def read_text_file_def map_err_io_def match_io_def result_io_def read_to_string_def return_io_def
      fail_io_def quiet_read_file ref_reads_def op_read_Ok [symmetric] map_err_def split: sum.splits if_splits)

definition listed_ref :: "path \<Rightarrow> fs \<Rightarrow> rstring \<times> node \<Rightarrow> branch_name \<times> object_id \<Rightarrow> bool" where
  "listed_ref md fs e bi \<longleftrightarrow> utf8 (fst e) \<and> name_ok (fst e) \<and> fst bi = BranchName (fst e) \<and>
     ref_reads fs (branch_ref_path md (fst bi)) (snd bi)"

lemma quiet_list_branch_entries:
  "quiet w \<Longrightarrow> list_branch_entries md es w = (Ok bs, w') \<longleftrightarrow> w' = w \<and> list_all2 (listed_ref md (w_fs w)) es bs"
proof (induction es arbitrary: bs)
  case Nil
  then show ?case
    by (auto simp: bind_io_def map_err_io_def match_io_def quiet_dir_step result_io_def return_io_def)
next
  case (Cons e es)
  obtain n nd where e: "e = (n, nd)" by fastforce
  have step: "map_err_io (RepoIo q) dir_step w = (Ok (), w)" for q
    using Cons.prems by (simp add: map_err_io_def match_io_def quiet_dir_step result_io_def)
  have rd: "read_branch_ref md b w = (Ok i, w1) \<longleftrightarrow> w1 = w \<and> ref_reads (w_fs w) (branch_ref_path md b) i" for b i w1
    unfolding read_branch_ref_def by (rule quiet_read_ref [OF Cons.prems])
  have "list_branch_entries md (e # es) w = (Ok bs, w') \<longleftrightarrow> utf8 n \<and> name_ok n \<and>
      (\<exists>i rest. ref_reads (w_fs w) (branch_ref_path md (BranchName n)) i \<and>
        list_branch_entries md es w = (Ok rest, w') \<and> bs = (BranchName n, i) # rest)"
    by (auto simp: e bind_io_Inr step rd result_io_def return_io_def fail_io_def branch_new_Ok)
  then show ?case
    using Cons.IH [OF Cons.prems] by (auto simp: e list_all2_Cons1 listed_ref_def)
qed

text \<open>
  C36. In a quiet world \<open>list_branch_refs\<close> succeeds exactly when every name in the directory of branch refs is a
  valid branch name whose file reads as a ref, and then returns all of them, each with the snapshot it points
  to, in the order of their names. Nothing is skipped: a temporary file that a crash left in that directory is
  listed as a branch when it is complete, and makes the listing fail when it is not.
\<close>

theorem list_branch_refs_exact:
  assumes "quiet w"
  shows "list_branch_refs md w = (Ok bs, w') \<longleftrightarrow> w' = w \<and> resolve (w_fs w) (branch_refs_dir md) = Ok DirNode \<and>
    (\<exists>bs'. list_all2 (\<lambda>(n, _) (b, i). utf8 n \<and> name_ok n \<and> b = BranchName n \<and>
        ref_reads (w_fs w) (branch_ref_path md b) i) (dir_entries (w_fs w) (branch_refs_dir md)) bs' \<and>
      bs = sort_key (\<lambda>(b, i). branch_str b) bs')"
proof -
  have "list_branch_refs md w = (Ok bs, w') \<longleftrightarrow> resolve (w_fs w) (branch_refs_dir md) = Ok DirNode \<and>
      (\<exists>bs'. list_branch_entries md (dir_entries (w_fs w) (branch_refs_dir md)) w = (Ok bs', w') \<and>
        bs = sort_key (\<lambda>(b, i). branch_str b) bs')"
    using assms
    by (auto simp: list_branch_refs_def bind_io_Inr map_err_io_def match_io_def result_io_def return_io_def quiet_read_dir
        op_read_dir_def map_err_def split: sum.splits if_splits)
  moreover have "listed_ref md (w_fs w) = (\<lambda>(n, _) (b, i). utf8 n \<and> name_ok n \<and> b = BranchName n \<and>
      ref_reads (w_fs w) (branch_ref_path md b) i)"
    by (auto simp: listed_ref_def fun_eq_iff)
  ultimately show ?thesis using quiet_list_branch_entries [OF assms] by auto
qed

text \<open>The world after a crash just before the rename of the first write to the branch \<open>main\<close>.\<close>

definition crashed_world :: world where
  "crashed_world = snd (write_branch_ref [] branch_main (sample_id 4)
     (ref_world [Quiet, Quiet, Quiet, Quiet, Quiet, Fault 0, Fault 0]
       (w_fs (snd (create_ref_layout [] (ref_world [] []))))))"

theorem list_branch_refs_exact_witness:
  "list_branch_refs [] crashed_world = (Ok [(BranchName (bstr ''.main.7.0.tmp''), sample_id 4)], crashed_world)"
proof -
  have env: "w_env crashed_world = []" by code_simp
  then have q1: "quiet crashed_world" by (simp add: quiet_def)
  have q: "resolve (w_fs crashed_world) (branch_refs_dir []) = Ok DirNode"
    "map fst (dir_entries (w_fs crashed_world) (branch_refs_dir [])) = [bstr ''.main.7.0.tmp'']"
    "resolve (w_fs crashed_world) (branch_ref_path [] (BranchName (bstr ''.main.7.0.tmp''))) =
       Ok (FileNode (ref_contents (sample_id 4)))"
    "utf8 (bstr ''.main.7.0.tmp'')" "name_ok (bstr ''.main.7.0.tmp'')"
    by code_simp+
  have "ref_reads (w_fs crashed_world) (branch_ref_path [] (BranchName (bstr ''.main.7.0.tmp''))) (sample_id 4)"
    using q(3) ref_contents_text [OF sample_id_valid, of 4] parse_ref_contents [OF sample_id_valid, of _ 4]
    by (auto simp: ref_reads_def readable_def)
  moreover obtain nd where "dir_entries (w_fs crashed_world) (branch_refs_dir []) = [(bstr ''.main.7.0.tmp'', nd)]"
    using q(2) by auto
  ultimately show ?thesis
    using q(1,4,5) by (intro list_branch_refs_exact [OF q1, THEN iffD2] conjI refl exI
        [of _ "[(BranchName (bstr ''.main.7.0.tmp''), sample_id 4)]"]) simp_all
qed

end
