(* ===== verification/Lock_Properties.thy ===== *)
theory Lock_Properties
  imports Ref_Properties
begin

text \<open>
  The metadata lock of \<open>refs.rs\<close>: how long an acquisition waits, and that a held lock is not handed out again.
\<close>

section \<open>How long an acquisition waits\<close>

text \<open>\<open>on_clock T\<close>: an assertion that only the clock and its jitter decide.\<close>

definition on_clock :: "(nat \<Rightarrow> nat list \<Rightarrow> bool) \<Rightarrow> world \<Rightarrow> bool" where
  "on_clock T w \<longleftrightarrow> T (w_clock w) (w_jitter w)"

lemma runs_clock_syscall: "runs (on_clock T) (syscall f partial) (\<lambda>r. on_clock T)"
  by (rule runs_syscall) (simp_all add: on_clock_def)

lemma runs_clock_simple:
  "runs (on_clock T) process_id (\<lambda>r w. case r of Inl e \<Rightarrow> Q (Inl e) w | Inr x \<Rightarrow> on_clock T w)"
  "runs (on_clock T) unix_millis (\<lambda>r w. case r of Inl e \<Rightarrow> Q (Inl e) w | Inr x \<Rightarrow> on_clock T w)"
  "runs (on_clock T) file_age (\<lambda>r w. case r of Inl e \<Rightarrow> Q (Inl e) w | Inr x \<Rightarrow> on_clock T w)"
  by (auto simp: runs_def on_clock_def process_id_def unix_millis_def file_age_def split: list.splits)

lemma runs_clock_stale:
  "runs (on_clock T) (maybe_remove_stale_lock p) (\<lambda>r w. on_clock T w \<and> (\<forall>e. r = Err e \<longrightarrow> (\<exists>k. e = RepoIo p k)))"
  unfolding maybe_remove_stale_lock_def file_metadata_def remove_file_def
proof (rule runs_match [OF runs_clock_syscall])
  let ?Q = "\<lambda>r w. on_clock T w \<and> (\<forall>e. r = Err e \<longrightarrow> (\<exists>k. e = RepoIo p k))"
  have rm: "runs (on_clock T) (match_io (syscall (op_remove_file p) no_effect) (\<lambda>r. case r of
      Inr _ \<Rightarrow> return_io () | Inl e \<Rightarrow> if e = NotFound then return_io () else fail_io (RepoIo p e))) ?Q"
    by (rule runs_match [OF runs_clock_syscall]) (auto intro!: runs_simple split: sum.split)
  show "runs (on_clock T) (case r of Inl _ \<Rightarrow> return_io () | Inr _ \<Rightarrow> bind_io file_age (\<lambda>age. case age of
      None \<Rightarrow> return_io () | Some a \<Rightarrow> if a \<ge> STALE_LOCK_AGE
        then match_io (syscall (op_remove_file p) no_effect) (\<lambda>r. case r of
          Inr _ \<Rightarrow> return_io () | Inl e \<Rightarrow> if e = NotFound then return_io () else fail_io (RepoIo p e))
        else return_io ())) ?Q" for r :: "io_kind + node"
  proof (cases r)
    case (Inr n)
    show ?thesis unfolding Inr sum.case
      by (rule runs_bind [OF runs_clock_simple(3)]) (use rm in \<open>auto intro!: runs_simple split: option.split\<close>)
  qed (auto intro: runs_simple)
qed

definition step_post :: "nat \<Rightarrow> path \<Rightarrow> nat \<Rightarrow> nat list \<Rightarrow> repository_error + metadata_lock option \<Rightarrow> world \<Rightarrow> bool" where
  "step_post start p t js r w \<longleftrightarrow> (case r of
      Inl e \<Rightarrow> w_clock w = t \<and> (\<forall>q. e = LockTimeout q \<longrightarrow> q = p \<and> start + 10000 \<le> t)
    | Inr (Some l) \<Rightarrow> w_clock w = t \<and> lock_path l = p
    | Inr None \<Rightarrow> t < start + 10000 \<and> t + 10 \<le> w_clock w \<and> (js = [] \<longrightarrow> w_clock w = t + 10 \<and> w_jitter w = []))"

lemma runs_acquire_step: "runs (on_clock (\<lambda>c j. c = t \<and> j = js)) (acquire_step start p) (step_post start p t js)"
    (is "runs ?T _ ?Q")
proof -
  have io: "runs ?T (map_err_io (RepoIo q) (syscall f partial)) (\<lambda>r w. case r of Inl e \<Rightarrow> ?Q (Inl e) w | Inr x \<Rightarrow> ?T w)"
    for q f partial
    by (rule runs_map_err, rule runs_post [OF runs_clock_syscall]) (auto simp: step_post_def on_clock_def map_err_def split: sum.splits)
  have taken: "runs ?T (bind_io process_id (\<lambda>pid. bind_io unix_millis (\<lambda>millis.
      bind_io (map_err_io (RepoIo p) (write_all p (lock_contents pid millis))) (\<lambda>_.
      bind_io (map_err_io (RepoIo p) (flush_file p)) (\<lambda>_. return_io (Some \<lparr>lock_path = p\<rparr>)))))) ?Q"
    unfolding write_all_def flush_file_def
    by (rule runs_bind [OF runs_clock_simple(1)], rule runs_bind [OF runs_clock_simple(2)],
        rule runs_bind [OF io], rule runs_bind [OF io], rule runs_simple, simp add: step_post_def on_clock_def)
  have "runs ?T (bind_io instant_now (\<lambda>now. if now - start \<ge> LOCK_WAIT_TIMEOUT then fail_io (LockTimeout p)
      else bind_io (sleep_millis LOCK_POLL_INTERVAL) (\<lambda>_. return_io None))) ?Q"
    by (auto simp: runs_def on_clock_def bind_io_def instant_now_def fail_io_def return_io_def sleep_millis_def step_post_def
        LOCK_WAIT_TIMEOUT_def LOCK_POLL_INTERVAL_def split: if_splits list.splits)
  note wait = this
  have "runs ?T (bind_io (maybe_remove_stale_lock p) (\<lambda>_. bind_io instant_now (\<lambda>now.
      if now - start \<ge> LOCK_WAIT_TIMEOUT then fail_io (LockTimeout p)
      else bind_io (sleep_millis LOCK_POLL_INTERVAL) (\<lambda>_. return_io None)))) ?Q"
    by (rule runs_bind [OF runs_post [OF runs_clock_stale] wait]) (auto simp: step_post_def on_clock_def split: sum.split)
  note held = this
  have other: "runs ?T (fail_io (RepoIo p e)) ?Q" for e
    by (rule runs_simple) (simp add: step_post_def on_clock_def)
  show ?thesis
    unfolding acquire_step_def create_dir_all_def create_new_def
    by (rule runs_bind [OF io], rule runs_match [OF runs_clock_syscall])
      (auto intro!: other taken held split: sum.split)
qed

lemma acquire_step_post:
  "acquire_step start p w = (r, w') \<Longrightarrow> step_post start p (w_clock w) (w_jitter w) r w'"
  by (rule runsD [OF runs_acquire_step]) (auto simp: on_clock_def)

lemma acquire_loop_retry:
  assumes "acquire_step start p w = (r1, w1)" "acquire_loop start p w = (r, w')"
  shows "r1 = Ok None \<and> acquire_loop start p w1 = (r, w') \<or>
    w' = w1 \<and> (\<exists>e. r1 = Err e \<and> r = Err e) \<or> w' = w1 \<and> (\<exists>l. r1 = Ok (Some l) \<and> r = Ok l)"
  using assms by (auto simp: acquire_loop.simps [of start p w] split: sum.splits option.splits)

lemma acquire_loop_bounds:
  "acquire_loop start p w = (r, w') \<Longrightarrow>
    w_clock w \<le> w_clock w' \<and> (\<forall>q. r = Err (LockTimeout q) \<longrightarrow> q = p \<and> start + 10000 \<le> w_clock w') \<and>
    (\<forall>l. r = Ok l \<longrightarrow> lock_path l = p)"
proof (induction start p w rule: acquire_loop.induct)
  case (1 start p w)
  obtain r1 w1 where st: "acquire_step start p w = (r1, w1)" by fastforce
  from acquire_loop_retry [OF st "1.prems"] show ?case
    using acquire_step_post [OF st] "1.IH" [OF st [symmetric]] by (auto simp: step_post_def)
qed

lemma acquire_loop_steady:
  "acquire_loop start p w = (r, w') \<Longrightarrow> w_clock w = start + 10 * k \<Longrightarrow> k \<le> 1000 \<Longrightarrow> w_jitter w = [] \<Longrightarrow>
    w_clock w' \<le> start + 10000"
proof (induction start p w arbitrary: k rule: acquire_loop.induct)
  case (1 start p w)
  obtain r1 w1 where st: "acquire_step start p w = (r1, w1)" by fastforce
  note post = acquire_step_post [OF st]
  from acquire_loop_retry [OF st "1.prems"(1)] show ?case
  proof (elim disjE conjE exE)
    assume none: "r1 = Ok None" and run: "acquire_loop start p w1 = (r, w')"
    then have "w_clock w1 = start + 10 * Suc k" "Suc k \<le> 1000" "w_jitter w1 = []"
      using post "1.prems" by (auto simp: step_post_def)
    then show ?thesis using "1.IH" [OF st [symmetric] none refl run] by blast
  qed (use post "1.prems" in \<open>auto simp: step_post_def\<close>)
qed

text \<open>
  C34. An acquisition of the metadata lock always ends, and its wait is bounded. It reports a timeout only for
  its own lock and only after ten seconds; when every sleep takes exactly the poll interval it ends within
  ten seconds whatever happens; and a lock it returns is the one asked for.
\<close>

theorem lock_wait_bounds:
  assumes "acquire_metadata_lock p w = (r, w')"
  shows "w_clock w \<le> w_clock w' \<and>
    (\<forall>q. r = Err (LockTimeout q) \<longrightarrow> q = p \<and> w_clock w + LOCK_WAIT_TIMEOUT \<le> w_clock w') \<and>
    (\<forall>l. r = Ok l \<longrightarrow> lock_path l = p) \<and>
    (w_jitter w = [] \<longrightarrow> w_clock w' \<le> w_clock w + LOCK_WAIT_TIMEOUT)"
proof -
  have run: "acquire_loop (w_clock w) p w = (r, w')"
    using assms by (simp add: acquire_metadata_lock_def bind_io_def instant_now_def)
  show ?thesis
    using acquire_loop_bounds [OF run] acquire_loop_steady [OF run, of 0] by (simp add: LOCK_WAIT_TIMEOUT_def)
qed

definition held_world :: world where
  "held_world = (ref_world [] [([[65]], FileNode [])])\<lparr>w_jitter := [6000, 3970]\<rparr>"

lemma held_world_times_out:
  "fst (acquire_metadata_lock [[65]] held_world) = Err (LockTimeout [[65]]) \<and>
   w_clock (snd (acquire_metadata_lock [[65]] held_world)) = 10000"
  by (simp add: held_world_def ref_world_def acquire_metadata_lock_def acquire_loop.simps acquire_step_def bind_io_def
      match_io_def map_err_io_def result_io_def return_io_def fail_io_def syscall_def run_op_def io_defs instant_now_def
      sleep_millis_def file_age_def maybe_remove_stale_lock_def op_create_dir_all_def op_create_new_def op_metadata_def
      parent_dir_def resolve_def fs_get_def LOCK_WAIT_TIMEOUT_def LOCK_POLL_INTERVAL_def map_err_def)

theorem lock_wait_bounds_witness:
  "w_clock held_world + LOCK_WAIT_TIMEOUT \<le> w_clock (snd (acquire_metadata_lock [[65]] held_world))"
  using lock_wait_bounds [of "[[65]]" held_world, OF surjective_pairing] held_world_times_out by blast

section \<open>A held lock is not handed out\<close>

text \<open>The lock file is there, and no query for its age will answer a minute or more.\<close>

definition held :: "path \<Rightarrow> node \<Rightarrow> world \<Rightarrow> bool" where
  "held p n w \<longleftrightarrow> fs_get (w_fs w) p = Some n \<and> (\<forall>a. Some a \<in> set (w_ages w) \<longrightarrow> a < STALE_LOCK_AGE)"

lemma runs_held_syscall:
  assumes "\<And>fs r fs'. f fs = (r, fs') \<Longrightarrow> fs_get fs p = Some n \<Longrightarrow> fs_get fs' p = Some n \<and> Q r"
    and "\<And>k fs. fs_get fs p = Some n \<Longrightarrow> fs_get (partial k fs) p = Some n \<and> Q (Err OtherError)"
  shows "runs (held p n) (syscall f partial) (\<lambda>r w. held p n w \<and> Q r)"
  by (rule runs_syscall) (use assms in \<open>auto simp: held_def dest: fs_extD\<close>)

lemma runs_held_stale: "runs (held p n) (maybe_remove_stale_lock p) (\<lambda>r. held p n)"
proof -
  have md: "runs (held p n) (file_metadata p) (\<lambda>r. held p n)"
    unfolding file_metadata_def
    by (rule runs_post [OF runs_held_syscall [where Q = "\<lambda>_. True"]]) (auto simp: op_metadata_def no_effect_def)
  have "runs (held p n) file_age (\<lambda>r w. held p n w \<and> (\<forall>a. r = Ok (Some a) \<longrightarrow> a < STALE_LOCK_AGE))"
    by (auto simp: runs_def held_def file_age_def split: list.splits)
  then have age: "runs (held p n) file_age (\<lambda>r w. case r of Inl e \<Rightarrow> held p n w
      | Inr x \<Rightarrow> held p n w \<and> (\<forall>a. x = Some a \<longrightarrow> a < STALE_LOCK_AGE))"
    by (rule runs_post) (auto split: sum.split)
  have fresh: "runs (\<lambda>w. held p n w \<and> (\<forall>a. x = Some a \<longrightarrow> a < STALE_LOCK_AGE)) (case x of None \<Rightarrow> return_io ()
      | Some a \<Rightarrow> if a \<ge> STALE_LOCK_AGE then m a else return_io ()) (\<lambda>r. held p n)" for x and m :: "nat \<Rightarrow> unit repo_io"
    by (cases x) (auto simp: runs_def return_io_def)
  show ?thesis
    unfolding maybe_remove_stale_lock_def
    by (rule runs_match [OF md]) (auto intro!: runs_simple(1) runs_bind [OF age] fresh split: sum.split)
qed

lemma runs_held_step: "runs (held p n) (acquire_step start p) (\<lambda>r w. held p n w \<and> (\<forall>l. r \<noteq> Ok (Some l)))"
    (is "runs _ _ ?Q")
proof -
  have mk: "runs (held p n) (create_dir_all (butlast p)) (\<lambda>r w. held p n w \<and> True)"
    unfolding create_dir_all_def
  proof (rule runs_held_syscall)
    show "fs_get (snd (mkdirs fs [] (take k (butlast p)))) p = Some n \<and> True" if "fs_get fs p = Some n" for k fs
      using mkdirs_ext [of fs "[]" "take k (butlast p)", OF surjective_pairing] that by (simp add: fs_extD)
  qed (auto simp: op_create_dir_all_def dest: mkdirs_ext fs_extD)
  have mk2: "runs (held p n) (map_err_io (RepoIo (butlast p)) (create_dir_all (butlast p))) (\<lambda>r w. case r of
      Inl e \<Rightarrow> ?Q (Inl e) w | Inr _ \<Rightarrow> held p n w)"
    by (rule runs_map_err, rule runs_post [OF mk]) (auto simp: map_err_def split: sum.splits)
  have new: "runs (held p n) (create_new p) (\<lambda>r w. held p n w \<and> r \<noteq> Ok ())"
    unfolding create_new_def
    by (rule runs_held_syscall) (auto simp: op_create_new_def no_effect_def split: sum.splits)
  have wait: "runs (held p n) (bind_io instant_now (\<lambda>now. if now - start \<ge> LOCK_WAIT_TIMEOUT then fail_io (LockTimeout p)
      else bind_io (sleep_millis LOCK_POLL_INTERVAL) (\<lambda>_. return_io None))) ?Q"
    by (auto simp: runs_def held_def bind_io_def instant_now_def fail_io_def return_io_def sleep_millis_def
        split: if_splits list.splits)
  have "runs (held p n) (bind_io (maybe_remove_stale_lock p) (\<lambda>_. bind_io instant_now (\<lambda>now.
      if now - start \<ge> LOCK_WAIT_TIMEOUT then fail_io (LockTimeout p)
      else bind_io (sleep_millis LOCK_POLL_INTERVAL) (\<lambda>_. return_io None)))) ?Q"
    by (rule runs_bind [OF runs_post [OF runs_held_stale] wait]) (auto split: sum.split)
  note again = this
  have other: "runs (\<lambda>w. held p n w \<and> r \<noteq> Ok ()) (case r of Inr _ \<Rightarrow> m
      | Inl e \<Rightarrow> if e = AlreadyExists then bind_io (maybe_remove_stale_lock p) (\<lambda>_. bind_io instant_now (\<lambda>now.
          if now - start \<ge> LOCK_WAIT_TIMEOUT then fail_io (LockTimeout p)
          else bind_io (sleep_millis LOCK_POLL_INTERVAL) (\<lambda>_. return_io None))) else fail_io (RepoIo p e)) ?Q"
    for r :: "io_kind + unit" and m
    by (cases r) (auto intro: runs_pre [OF again] intro!: runs_simple(2) simp: runs_def [of "\<lambda>w. False"])
  show ?thesis
    unfolding acquire_step_def
    by (rule runs_bind [OF mk2], rule runs_match [OF new], rule other)
qed

lemma acquire_loop_held: "acquire_loop start p w = (r, w') \<Longrightarrow> held p n w \<Longrightarrow> (\<exists>e. r = Err e) \<and> held p n w'"
proof (induction start p w rule: acquire_loop.induct)
  case (1 start p w)
  obtain r1 w1 where st: "acquire_step start p w = (r1, w1)" by fastforce
  from acquire_loop_retry [OF st "1.prems"(1)] show ?case
    using runsD [OF runs_held_step st "1.prems"(2)] "1.IH" [OF st [symmetric]] by auto
qed

text \<open>An acquisition that succeeds leaves its lock file.\<close>

definition is_locked :: "path \<Rightarrow> fs \<Rightarrow> bool" where
  "is_locked p fs \<longleftrightarrow> (\<exists>pid t. fs_get fs p = Some (FileNode (lock_contents pid t)))"

lemma runs_acquire_taken:
  "runs (\<lambda>w. True) (acquire_step start p) (\<lambda>r w. \<forall>l. r = Ok (Some l) \<longrightarrow> is_locked p (w_fs w))" (is "runs _ _ ?Q")
proof -
  let ?F = "\<lambda>w. p \<noteq> [] \<and> (\<exists>x. fs_get (w_fs w) p = Some (FileNode x))"
  have new: "runs (\<lambda>w. True) (create_new p) (\<lambda>r w. case r of Inl e \<Rightarrow> True | Inr _ \<Rightarrow> ?F w)"
    unfolding create_new_def
    by (rule runs_syscall) (auto simp: op_create_new_def fs_get_set split: sum.splits if_splits)
  have wr: "runs ?F (map_err_io (RepoIo p) (write_all p c)) (\<lambda>r w. case r of
      Inl e \<Rightarrow> ?Q (Inl e) w | Inr _ \<Rightarrow> fs_get (w_fs w) p = Some (FileNode c))" for c
    unfolding write_all_def
    by (rule runs_map_err, rule runs_syscall)
      (auto simp: op_write_all_def write_file_def fs_get_set map_err_def dest!: fs_extD split: sum.splits)
  have sync: "runs (\<lambda>w. is_locked p (w_fs w)) (map_err_io (RepoIo p) (flush_file p)) (\<lambda>r w. case r of
      Inl e \<Rightarrow> ?Q (Inl e) w | Inr _ \<Rightarrow> is_locked p (w_fs w))"
    unfolding flush_file_def
    by (rule runs_map_err, rule runs_syscall) (auto simp: is_locked_def map_err_def dest: fs_extD split: sum.splits)
  have fill: "runs ?F (bind_io (map_err_io (RepoIo p) (write_all p (lock_contents pid millis))) (\<lambda>_.
      bind_io (map_err_io (RepoIo p) (flush_file p)) (\<lambda>_. return_io (Some \<lparr>lock_path = p\<rparr>)))) ?Q" for pid millis
    by (rule runs_bind [OF wr], rule runs_bind [OF runs_pre [OF sync]])
      (auto simp: is_locked_def intro!: runs_simple(1))
  have "runs ?F (bind_io process_id (\<lambda>pid. bind_io unix_millis (\<lambda>millis.
      bind_io (map_err_io (RepoIo p) (write_all p (lock_contents pid millis))) (\<lambda>_.
      bind_io (map_err_io (RepoIo p) (flush_file p)) (\<lambda>_. return_io (Some \<lparr>lock_path = p\<rparr>)))))) ?Q"
    by (rule runs_bind [where M = "\<lambda>_. ?F"], simp add: runs_def process_id_def,
        rule runs_bind [where M = "\<lambda>_. ?F"], simp add: runs_def unix_millis_def split: list.split, rule fill)
  note taken = this
  have wait: "runs P (bind_io m (\<lambda>_. bind_io instant_now (\<lambda>now. if now - start \<ge> LOCK_WAIT_TIMEOUT
      then fail_io (LockTimeout p) else bind_io (sleep_millis LOCK_POLL_INTERVAL) (\<lambda>_. return_io None)))) ?Q"
    for P and m :: "unit repo_io"
    by (auto simp: runs_def bind_io_def instant_now_def fail_io_def return_io_def split: prod.splits sum.splits if_splits)
  have mk: "runs (\<lambda>w. True) (map_err_io (RepoIo (butlast p)) (create_dir_all (butlast p))) (\<lambda>r w. case r of
      Inl e \<Rightarrow> ?Q (Inl e) w | Inr _ \<Rightarrow> True)"
    by (auto simp: runs_def split: sum.split)
  have split: "runs (\<lambda>w. case r of Inl e \<Rightarrow> True | Inr _ \<Rightarrow> ?F w) (case r of
       Inr _ \<Rightarrow> bind_io process_id (\<lambda>pid. bind_io unix_millis (\<lambda>millis.
         bind_io (map_err_io (RepoIo p) (write_all p (lock_contents pid millis))) (\<lambda>_.
         bind_io (map_err_io (RepoIo p) (flush_file p)) (\<lambda>_. return_io (Some \<lparr>lock_path = p\<rparr>)))))
     | Inl e \<Rightarrow> if e = AlreadyExists
         then bind_io (maybe_remove_stale_lock p) (\<lambda>_. bind_io instant_now (\<lambda>now. if now - start \<ge> LOCK_WAIT_TIMEOUT
           then fail_io (LockTimeout p) else bind_io (sleep_millis LOCK_POLL_INTERVAL) (\<lambda>_. return_io None)))
         else fail_io (RepoIo p e)) ?Q" for r :: "io_kind + unit"
  proof (cases r)
    case (Inr u)
    show ?thesis unfolding Inr sum.case by (rule taken)
  next
    case (Inl e)
    show ?thesis
    proof (cases "e = AlreadyExists")
      case True
      show ?thesis unfolding Inl sum.case if_P [OF True] by (rule wait)
    next
      case False
      show ?thesis unfolding Inl sum.case if_not_P [OF False] by (rule runs_simple) simp
    qed
  qed
  show ?thesis
    unfolding acquire_step_def by (rule runs_bind [OF mk], rule runs_match [OF new], rule split)
qed

lemma acquire_loop_taken: "acquire_loop start p w = (Ok l, w') \<Longrightarrow> is_locked p (w_fs w')"
proof (induction start p w rule: acquire_loop.induct)
  case (1 start p w)
  obtain r1 w1 where st: "acquire_step start p w = (r1, w1)" by fastforce
  from acquire_loop_retry [OF st "1.prems"(1)] show ?case
    using runsD [OF runs_acquire_taken st] "1.IH" [OF st [symmetric]] by auto
qed

text \<open>
  C33. The metadata lock excludes. After an acquisition succeeded, and for as long as its file is in place and
  younger than a minute, every other acquisition of the same lock fails, whatever else fails or is published,
  and leaves the lock file as it is.
\<close>

theorem lock_exclusive:
  assumes "acquire_metadata_lock p w = (Ok l, w1)"
    and "fs_get (w_fs w2) p = fs_get (w_fs w1) p"
    and "\<forall>a. Some a \<in> set (w_ages w2) \<longrightarrow> a < STALE_LOCK_AGE"
    and "acquire_metadata_lock p w2 = (r, w3)"
  shows "(\<exists>e. r = Err e) \<and> fs_get (w_fs w3) p = fs_get (w_fs w1) p \<and> fs_get (w_fs w1) p \<noteq> None"
proof -
  have runs1: "acquire_loop (w_clock w) p w = (Ok l, w1)" and runs2: "acquire_loop (w_clock w2) p w2 = (r, w3)"
    using assms(1,4) by (simp_all add: acquire_metadata_lock_def bind_io_def instant_now_def)
  obtain n where n: "fs_get (w_fs w1) p = Some n"
    using acquire_loop_taken [OF runs1] by (auto simp: is_locked_def)
  then have "held p n w2" using assms(2,3) by (simp add: held_def)
  from acquire_loop_held [OF runs2 this] show ?thesis using n by (simp add: held_def)
qed

definition locked_world :: world where
  "locked_world = (snd (acquire_metadata_lock [[65]] (ref_world [] [])))\<lparr>w_ages := [Some 59999], w_jitter := [6000, 3970]\<rparr>"

theorem lock_exclusive_witness:
  "\<exists>e. fst (acquire_metadata_lock [[65]] locked_world) = Err e"
proof -
  have "fst (acquire_metadata_lock [[65]] (ref_world [] [])) = Ok \<lparr>lock_path = [[65]]\<rparr>" by code_simp
  then have run: "acquire_metadata_lock [[65]] (ref_world [] []) =
      (Ok \<lparr>lock_path = [[65]]\<rparr>, snd (acquire_metadata_lock [[65]] (ref_world [] [])))" by (simp add: prod_eq_iff)
  show ?thesis
    using lock_exclusive [OF run _ _ surjective_pairing, of locked_world]
    by (simp add: locked_world_def STALE_LOCK_AGE_def)
qed

end
