(* ===== verification/Era_Repository.thy ===== *)
theory Era_Repository
  imports Era_Refs "HOL-Library.Product_Lexorder"
begin

text \<open>
  \<open>crates/repository/src/repository.rs\<close>: a repository handle and its operations over the object store, the refs
  and a materializer. Paths are absolute and free of symbolic links, so \<open>canonicalize\<close> of a path that exists is
  the path. The materializer is an argument of every operation that uses one; log messages are left out.
\<close>

section \<open>Handles, requests and results\<close>

datatype repository_cursor = CurrentBranch | CursorWorkspace workspace_id

datatype cursor_reference = BranchCursor branch_name | WorkspaceCursor workspace_id

record repository =
  repo_root :: path
  repo_metadata_dir :: path
  repo_store :: local_object_store
  repo_cursor :: repository_cursor

datatype cursor_info = InfoBranch branch_name | InfoWorkspace workspace_id

definition to_info :: "cursor_reference \<Rightarrow> cursor_info" where
  "to_info c = (case c of BranchCursor b \<Rightarrow> InfoBranch b | WorkspaceCursor w \<Rightarrow> InfoWorkspace w)"

definition cursor_kind :: "cursor_info \<Rightarrow> rstring" where
  "cursor_kind c = bstr (case c of InfoBranch _ \<Rightarrow> ''Branch'' | InfoWorkspace _ \<Rightarrow> ''Workspace'')"

definition cursor_name :: "cursor_info \<Rightarrow> rstring" where
  "cursor_name c = (case c of InfoBranch b \<Rightarrow> branch_str b | InfoWorkspace w \<Rightarrow> workspace_str w)"

datatype auto_snapshot_trigger = TriggerSafety | TriggerWatch | TriggerReconcile

definition trigger_str :: "auto_snapshot_trigger \<Rightarrow> rstring" where
  "trigger_str t = bstr (case t of TriggerSafety \<Rightarrow> ''safety'' | TriggerWatch \<Rightarrow> ''watch'' | TriggerReconcile \<Rightarrow> ''reconcile'')"

record snapshot_request =
  req_timestamp :: "u64 option"
  req_author :: "rstring option"
  req_message :: "rstring option"
  req_provenance :: snapshot_provenance

definition request_initial :: snapshot_request where
  "request_initial =
     \<lparr>req_timestamp = None, req_author = None, req_message = None, req_provenance = provenance_initial\<rparr>"

definition request_manual :: "rstring \<Rightarrow> snapshot_request" where
  "request_manual message =
     \<lparr>req_timestamp = None, req_author = None, req_message = Some message, req_provenance = provenance_manual\<rparr>"

definition request_manual_unlabeled :: snapshot_request where
  "request_manual_unlabeled =
     \<lparr>req_timestamp = None, req_author = None, req_message = None, req_provenance = provenance_manual\<rparr>"

definition request_automatic_for_trigger :: "auto_snapshot_trigger \<Rightarrow> snapshot_request" where
  "request_automatic_for_trigger trigger =
     \<lparr>req_timestamp = None, req_author = None, req_message = None,
      req_provenance = with_attribute
        (with_attribute provenance_automatic (bstr ''trigger'') (trigger_str trigger))
        (bstr ''workspace'') DEFAULT_WORKSPACE_ID\<rparr>"

definition request_automatic :: snapshot_request where
  "request_automatic = request_automatic_for_trigger TriggerSafety"

definition with_timestamp_millis :: "snapshot_request \<Rightarrow> u64 \<Rightarrow> snapshot_request" where
  "with_timestamp_millis r t = r\<lparr>req_timestamp := Some t\<rparr>"

definition with_author :: "snapshot_request \<Rightarrow> rstring \<Rightarrow> snapshot_request" where
  "with_author r author = r\<lparr>req_author := Some author\<rparr>"

definition with_provenance :: "snapshot_request \<Rightarrow> snapshot_provenance \<Rightarrow> snapshot_request" where
  "with_provenance r provenance = r\<lparr>req_provenance := provenance\<rparr>"

definition with_provenance_attribute :: "snapshot_request \<Rightarrow> rstring \<Rightarrow> rstring \<Rightarrow> snapshot_request" where
  "with_provenance_attribute r key val = r\<lparr>req_provenance := with_attribute (req_provenance r) key val\<rparr>"

definition resolve_timestamp :: "snapshot_request \<Rightarrow> u64 repo_io" where
  "resolve_timestamp r =
    (case req_timestamp r of
       Some t \<Rightarrow> return_io t
     | None \<Rightarrow> bind_io unix_millis (\<lambda>millis. case millis of
         None \<Rightarrow> fail_io ClockBeforeUnixEpoch
       | Some t \<Rightarrow> if t < USIZE_LIMIT then return_io (word_of_nat t) else fail_io (TimestampOverflow t)))"

record add_workspace_options =
  aw_path :: path
  aw_workspace_id :: workspace_id
  aw_from :: "rstring option"

record snapshot_result =
  res_snapshot_id :: object_id
  res_snapshot :: snapshot
  res_capture :: capture_result

record init_result =
  init_repository :: repository
  init_snapshot :: snapshot_result

record working_tree_status =
  wts_snapshot_id :: object_id
  wts_snapshot :: snapshot
  wts_current_root_tree_id :: object_id
  wts_clean :: bool
  wts_comparison :: tree_comparison_result

record branch_head =
  bh_name :: branch_name
  bh_snapshot_id :: object_id
  bh_is_current :: bool

record workspace_head =
  wh_id :: workspace_id
  wh_snapshot_id :: object_id
  wh_path :: "path option"
  wh_is_current :: bool

record workspace_add_result =
  war_workspace_id :: workspace_id
  war_path :: path
  war_snapshot_id :: object_id
  war_created :: bool
  war_materialized :: bool
  war_materialization :: "materialize_result option"

record branch_operation_result =
  bor_branch :: branch_name
  bor_snapshot_id :: object_id
  bor_saved_snapshot :: "snapshot_result option"

record switch_result =
  sw_branch :: branch_name
  sw_snapshot_id :: object_id
  sw_snapshot :: snapshot
  sw_saved_snapshot :: "snapshot_result option"
  sw_materialization :: materialize_result

record restore_result =
  rst_cursor :: cursor_info
  rst_snapshot_id :: object_id
  rst_snapshot :: snapshot
  rst_saved_snapshot :: "snapshot_result option"
  rst_materialization :: materialize_result

record resolved_snapshot =
  rs_snapshot_id :: object_id
  rs_snapshot :: snapshot

record timeline_entry =
  te_snapshot_id :: object_id
  te_snapshot :: snapshot

record snapshot_graph =
  sg_branches :: "branch_head list"
  sg_workspaces :: "workspace_head list"
  sg_entries :: "timeline_entry list"

section \<open>Paths and directories\<close>

definition ensure_working_root :: "path \<Rightarrow> unit repo_io" where
  "ensure_working_root root =
     bind_io (map_err_io (\<lambda>e. if e = NotFound then RootMissing root else RepoIo root e) (file_metadata root)) (\<lambda>n.
     if n \<noteq> DirNode then fail_io (RootNotDirectory root) else return_io ())"

definition ensure_metadata_dir :: "path \<Rightarrow> unit repo_io" where
  "ensure_metadata_dir md =
     bind_io (map_err_io (\<lambda>e. if e = NotFound then NotRepository md else RepoIo md e) (file_metadata md)) (\<lambda>n.
     if n \<noteq> DirNode then fail_io (MetadataNotDirectory md) else return_io ())"

definition path_exists :: "path \<Rightarrow> bool repo_io" where
  "path_exists p = map_err_io (RepoIo p) (try_exists p)"

definition directory_is_empty :: "path \<Rightarrow> bool repo_io" where
  "directory_is_empty p =
     bind_io (map_err_io (RepoIo p) (read_dir p)) (\<lambda>entries.
     bind_io (map_err_io (RepoIo p) dir_step) (\<lambda>_. return_io (entries = [])))"

definition absolute_existing_path :: "path \<Rightarrow> path repo_io" where
  "absolute_existing_path p = bind_io (map_err_io (RepoIo p) (file_metadata p)) (\<lambda>_. return_io p)"

definition absolute_path_for_create :: "path \<Rightarrow> path repo_io" where
  "absolute_path_for_create p =
     bind_io (path_exists p) (\<lambda>present.
     if present then absolute_existing_path p
     else
       bind_io (absolute_existing_path (butlast p)) (\<lambda>parent.
       if p = [] then fail_io (RootMissing p) else return_io (parent @ [last p])))"

definition file_name_is :: "path \<Rightarrow> rstring \<Rightarrow> bool" where
  "file_name_is p name \<longleftrightarrow> p \<noteq> [] \<and> utf8 (last p) \<and> last p = name"

definition metadata_argument :: "path \<Rightarrow> path option repo_io" where
  "metadata_argument p =
     match_io (file_metadata p) (\<lambda>r. case r of
       Inl e \<Rightarrow> if e = NotFound then return_io None else fail_io (RepoIo p e)
     | Inr n \<Rightarrow>
         if n \<noteq> DirNode then return_io None
         else if file_name_is p (bstr ''objects'') \<and> file_name_is (butlast p) (bstr ''.era'')
           then return_io (Some (butlast p))
         else if file_name_is p (bstr ''.era'') then return_io (Some p)
         else return_io None)"

section \<open>The cursor\<close>

definition repo_workspace_id :: "repository \<Rightarrow> workspace_id option" where
  "repo_workspace_id repo = (case repo_cursor repo of CurrentBranch \<Rightarrow> None | CursorWorkspace w \<Rightarrow> Some w)"

definition workspace_capture_cache_path :: "repository \<Rightarrow> workspace_id \<Rightarrow> path" where
  "workspace_capture_cache_path repo w =
     repo_metadata_dir repo @ [bstr ''workspaces'', workspace_str w, bstr ''cache'', bstr ''capture-v2.redb'']"

definition capture_cache_path :: "repository \<Rightarrow> path" where
  "capture_cache_path repo =
    (case repo_cursor repo of
       CurrentBranch \<Rightarrow> workspace_capture_cache_path repo workspace_default
     | CursorWorkspace w \<Rightarrow> workspace_capture_cache_path repo w)"

definition current_branch :: "repository \<Rightarrow> branch_name repo_io" where
  "current_branch repo = read_head_branch (repo_metadata_dir repo)"

definition current_cursor_reference :: "repository \<Rightarrow> cursor_reference repo_io" where
  "current_cursor_reference repo =
    (case repo_cursor repo of
       CurrentBranch \<Rightarrow> bind_io (current_branch repo) (\<lambda>b. return_io (BranchCursor b))
     | CursorWorkspace w \<Rightarrow> return_io (WorkspaceCursor w))"

definition cursor_lock_path :: "repository \<Rightarrow> cursor_reference \<Rightarrow> path" where
  "cursor_lock_path repo c =
    (case c of
       BranchCursor b \<Rightarrow> branch_lock_path (repo_metadata_dir repo) b
     | WorkspaceCursor w \<Rightarrow> workspace_ref_lock_path (repo_metadata_dir repo) w)"

text \<open>\<open>let _lock = self.acquire_cursor_lock(&cursor).await?\<close> and the rest of its function.\<close>

definition with_cursor_lock :: "repository \<Rightarrow> cursor_reference \<Rightarrow> 'a repo_io \<Rightarrow> 'a repo_io" where
  "with_cursor_lock repo c body = with_lock (cursor_lock_path repo c) body"

definition read_cursor_ref :: "repository \<Rightarrow> cursor_reference \<Rightarrow> object_id repo_io" where
  "read_cursor_ref repo c =
    (case c of
       BranchCursor b \<Rightarrow> read_branch_ref (repo_metadata_dir repo) b
     | WorkspaceCursor w \<Rightarrow> read_workspace_ref (repo_metadata_dir repo) w)"

definition write_cursor_ref :: "repository \<Rightarrow> cursor_reference \<Rightarrow> object_id \<Rightarrow> unit repo_io" where
  "write_cursor_ref repo c i =
    (case c of
       BranchCursor b \<Rightarrow> write_branch_ref (repo_metadata_dir repo) b i
     | WorkspaceCursor w \<Rightarrow> write_workspace_ref (repo_metadata_dir repo) w i)"

definition cursor_info_of :: "repository \<Rightarrow> cursor_info repo_io" where
  "cursor_info_of repo =
     bind_io (current_cursor_reference repo) (\<lambda>c. case c of
       BranchCursor b \<Rightarrow> return_io (InfoBranch b) | WorkspaceCursor w \<Rightarrow> return_io (InfoWorkspace w))"

definition current_snapshot_id :: "repository \<Rightarrow> object_id repo_io" where
  "current_snapshot_id repo = bind_io (current_cursor_reference repo) (read_cursor_ref repo)"

definition current_branch_ref_path :: "repository \<Rightarrow> path repo_io" where
  "current_branch_ref_path repo =
     bind_io (current_branch repo) (\<lambda>b. return_io (branch_ref_path (repo_metadata_dir repo) b))"

definition current_cursor_ref_path :: "repository \<Rightarrow> path repo_io" where
  "current_cursor_ref_path repo =
     bind_io (current_cursor_reference repo) (\<lambda>c. return_io (case c of
       BranchCursor b \<Rightarrow> branch_ref_path (repo_metadata_dir repo) b
     | WorkspaceCursor w \<Rightarrow> workspace_ref_path (repo_metadata_dir repo) w))"

section \<open>Snapshots\<close>

definition store_get_snapshot :: "hasher \<Rightarrow> repository \<Rightarrow> object_id \<Rightarrow> snapshot repo_io" where
  "store_get_snapshot blake3 repo i = map_err_io RepoObjectStore (get_snapshot blake3 (repo_store repo) i)"

definition store_snapshot ::
  "hasher \<Rightarrow> repository \<Rightarrow> capture_result \<Rightarrow> snapshot_request \<Rightarrow> object_id list \<Rightarrow> snapshot_result repo_io" where
  "store_snapshot blake3 repo capture request parents =
     bind_io (resolve_timestamp request) (\<lambda>timestamp.
     let sn = snapshot_new (cr_root_tree_id capture) parents timestamp (req_author request) (req_message request)
       (req_provenance request) in
     bind_io (map_err_io RepoObjectStore (put_snapshot blake3 (repo_store repo) sn)) (\<lambda>i.
     bind_io (write_snapshot_index_entry (repo_metadata_dir repo) i) (\<lambda>_.
     return_io \<lparr>res_snapshot_id = i, res_snapshot = sn, res_capture = capture\<rparr>)))"

definition capture_working_tree_with_hints :: "repository \<Rightarrow> materializer \<Rightarrow> path list \<Rightarrow> capture_result repo_io" where
  "capture_working_tree_with_hints repo mat hints =
     map_err_io RepoMaterialization
       (m_capture_with_hints mat (working_directory_new (repo_root repo)) (repo_store repo) hints)"

definition capture_working_tree :: "repository \<Rightarrow> materializer \<Rightarrow> capture_result repo_io" where
  "capture_working_tree repo mat = capture_working_tree_with_hints repo mat []"

definition capture_snapshot ::
  "hasher \<Rightarrow> repository \<Rightarrow> materializer \<Rightarrow> snapshot_request \<Rightarrow> object_id list \<Rightarrow> snapshot_result repo_io" where
  "capture_snapshot blake3 repo mat request parents =
     bind_io (capture_working_tree repo mat) (\<lambda>capture. store_snapshot blake3 repo capture request parents)"

definition repo_snapshot :: "hasher \<Rightarrow> repository \<Rightarrow> materializer \<Rightarrow> snapshot_request \<Rightarrow> snapshot_result repo_io" where
  "repo_snapshot blake3 repo mat request =
     bind_io (capture_working_tree repo mat) (\<lambda>capture.
     bind_io (current_cursor_reference repo) (\<lambda>cursor.
     with_cursor_lock repo cursor (
       bind_io (read_cursor_ref repo cursor) (\<lambda>parent.
       bind_io (store_snapshot blake3 repo capture request [parent]) (\<lambda>snapshot.
       bind_io (write_cursor_ref repo cursor (res_snapshot_id snapshot)) (\<lambda>_.
       return_io snapshot))))))"

definition snapshot_if_changed_with_hints ::
  "hasher \<Rightarrow> repository \<Rightarrow> materializer \<Rightarrow> snapshot_request \<Rightarrow> path list \<Rightarrow> snapshot_result option repo_io" where
  "snapshot_if_changed_with_hints blake3 repo mat request hints =
     bind_io (capture_working_tree_with_hints repo mat hints) (\<lambda>capture.
     bind_io (current_cursor_reference repo) (\<lambda>cursor.
     with_cursor_lock repo cursor (
       bind_io (read_cursor_ref repo cursor) (\<lambda>parent.
       bind_io (store_get_snapshot blake3 repo parent) (\<lambda>parent_snapshot.
       if cr_root_tree_id capture = snap_root parent_snapshot then return_io None
       else
         bind_io (store_snapshot blake3 repo capture request [parent]) (\<lambda>snapshot.
         bind_io (write_cursor_ref repo cursor (res_snapshot_id snapshot)) (\<lambda>_.
         return_io (Some snapshot))))))))"

definition snapshot_if_changed ::
  "hasher \<Rightarrow> repository \<Rightarrow> materializer \<Rightarrow> snapshot_request \<Rightarrow> snapshot_result option repo_io" where
  "snapshot_if_changed blake3 repo mat request = snapshot_if_changed_with_hints blake3 repo mat request []"

definition automatic_snapshot_request :: "repository \<Rightarrow> snapshot_request" where
  "automatic_snapshot_request repo =
    (case repo_workspace_id repo of
       Some w \<Rightarrow> with_provenance_attribute request_automatic (bstr ''workspace'') (workspace_str w)
     | None \<Rightarrow> request_automatic)"

definition save_current_state_if_changed :: "hasher \<Rightarrow> repository \<Rightarrow> materializer \<Rightarrow> snapshot_result option repo_io" where
  "save_current_state_if_changed blake3 repo mat = snapshot_if_changed blake3 repo mat (automatic_snapshot_request repo)"

definition working_tree_status_of :: "hasher \<Rightarrow> repository \<Rightarrow> materializer \<Rightarrow> working_tree_status repo_io" where
  "working_tree_status_of blake3 repo mat =
     bind_io (current_snapshot_id repo) (\<lambda>i.
     bind_io (store_get_snapshot blake3 repo i) (\<lambda>sn.
     bind_io (map_err_io RepoMaterialization
       (m_compare_tree mat (snap_root sn) (working_directory_new (repo_root repo)) (repo_store repo))) (\<lambda>comparison.
     return_io \<lparr>wts_snapshot_id = i, wts_snapshot = sn, wts_current_root_tree_id = tcr_current_root_tree_id comparison,
       wts_clean = comparison_is_clean comparison, wts_comparison = comparison\<rparr>)))"

section \<open>Opening\<close>

definition repo_init ::
  "hasher \<Rightarrow> path \<Rightarrow> materializer \<Rightarrow> snapshot_request \<Rightarrow> init_result repo_io" where
  "repo_init blake3 root mat request =
     bind_io (ensure_working_root root) (\<lambda>_.
     let md = metadata_dir root in
     bind_io (path_exists md) (\<lambda>present.
     if present then fail_io (AlreadyInitialized md)
     else
       bind_io (map_err_io (RepoIo md) (create_dir md)) (\<lambda>_.
       bind_io (create_ref_layout md) (\<lambda>_.
       bind_io (map_err_io RepoObjectStore (store_open (objects_dir md))) (\<lambda>store.
       let repo = \<lparr>repo_root = root, repo_metadata_dir = md, repo_store = store, repo_cursor = CurrentBranch\<rparr> in
       bind_io (capture_snapshot blake3 repo mat request []) (\<lambda>snapshot.
       bind_io (mark_snapshot_index_complete md) (\<lambda>_.
       bind_io (write_head md branch_main) (\<lambda>_.
       bind_io (write_branch_ref md branch_main (res_snapshot_id snapshot)) (\<lambda>_.
       return_io \<lparr>init_repository = repo, init_snapshot = snapshot\<rparr>)))))))))"

definition open_metadata_dir :: "path \<Rightarrow> path \<Rightarrow> repository_cursor \<Rightarrow> repository repo_io" where
  "open_metadata_dir root md cursor =
     bind_io (ensure_metadata_dir md) (\<lambda>_.
     bind_io (read_head_branch md) (\<lambda>_.
     bind_io (map_err_io RepoObjectStore (store_open (objects_dir md))) (\<lambda>store.
     return_io \<lparr>repo_root = root, repo_metadata_dir = md, repo_store = store, repo_cursor = cursor\<rparr>)))"

definition repo_open :: "path \<Rightarrow> repository repo_io" where
  "repo_open root =
     bind_io (ensure_working_root root) (\<lambda>_.
     let era_marker = metadata_dir root in
     bind_io (map_err_io (\<lambda>e. if e = NotFound then NotRepository era_marker else RepoIo era_marker e)
       (file_metadata era_marker)) (\<lambda>n. case n of
         DirNode \<Rightarrow> open_metadata_dir root era_marker CurrentBranch
       | FileNode _ \<Rightarrow>
           bind_io (read_workspace_pointer root) (\<lambda>pointer.
           bind_io (ensure_metadata_dir (wp_metadata_dir pointer)) (\<lambda>_.
           bind_io (read_head_branch (wp_metadata_dir pointer)) (\<lambda>_.
           bind_io (workspace_ref_exists (wp_metadata_dir pointer) (wp_workspace_id pointer)) (\<lambda>present.
           if \<not> present then fail_io (WorkspaceNotFound (wp_workspace_id pointer))
           else open_metadata_dir root (wp_metadata_dir pointer) (CursorWorkspace (wp_workspace_id pointer))))))
       | _ \<Rightarrow> fail_io (NotRepository era_marker)))"

definition open_repository_path :: "path \<Rightarrow> repository repo_io" where
  "open_repository_path p =
     bind_io (metadata_argument p) (\<lambda>metadata. case metadata of
       Some md \<Rightarrow> open_metadata_dir (butlast md) md CurrentBranch
     | None \<Rightarrow> repo_open p)"

section \<open>Listing and history\<close>

definition repo_branches :: "repository \<Rightarrow> branch_head list repo_io" where
  "repo_branches repo =
     bind_io (current_branch repo) (\<lambda>current.
     bind_io (list_branch_refs (repo_metadata_dir repo)) (\<lambda>refs.
     return_io (map (\<lambda>(name, i). \<lparr>bh_name = name, bh_snapshot_id = i, bh_is_current = (name = current)\<rparr>) refs)))"

text \<open>Collecting into a \<open>HashMap\<close> keeps the last value of a key.\<close>

definition repo_workspaces :: "repository \<Rightarrow> workspace_head list repo_io" where
  "repo_workspaces repo =
     bind_io (list_workspace_paths (repo_metadata_dir repo)) (\<lambda>paths.
     bind_io (list_workspace_refs (repo_metadata_dir repo)) (\<lambda>refs.
     return_io (map (\<lambda>(w, i). \<lparr>wh_id = w, wh_snapshot_id = i,
       wh_path = (case map_of (rev paths) w of None \<Rightarrow> None | Some p \<Rightarrow> p),
       wh_is_current = (repo_workspace_id repo = Some w)\<rparr>) refs)))"

fun write_index_entries :: "path \<Rightarrow> object_id list \<Rightarrow> unit repo_io" where
  "write_index_entries md [] = return_io ()"
| "write_index_entries md (i # ids) =
     bind_io (write_snapshot_index_entry md i) (\<lambda>_. write_index_entries md ids)"

definition ensure_snapshot_index_complete :: "repository \<Rightarrow> unit repo_io" where
  "ensure_snapshot_index_complete repo =
    (let md = repo_metadata_dir repo in
     bind_io (snapshot_index_complete_exists md) (\<lambda>present.
     if present then return_io ()
     else with_lock (snapshot_index_lock_path md) (
       bind_io (snapshot_index_complete_exists md) (\<lambda>present.
       if present then return_io ()
       else
         bind_io (map_err_io RepoObjectStore (list_snapshot_ids (repo_store repo))) (\<lambda>ids.
         bind_io (write_index_entries md ids) (\<lambda>_.
         mark_snapshot_index_complete md))))))"

fun load_entries :: "hasher \<Rightarrow> repository \<Rightarrow> object_id list \<Rightarrow> timeline_entry list repo_io" where
  "load_entries blake3 repo [] = return_io []"
| "load_entries blake3 repo (i # ids) =
     bind_io (store_get_snapshot blake3 repo i) (\<lambda>sn.
     bind_io (load_entries blake3 repo ids) (\<lambda>entries.
     return_io (\<lparr>te_snapshot_id = i, te_snapshot = sn\<rparr> # entries)))"

definition entry_key :: "timeline_entry \<Rightarrow> u64 \<times> object_id" where
  "entry_key e = (snap_timestamp (te_snapshot e), te_snapshot_id e)"

definition all_snapshot_entries :: "hasher \<Rightarrow> repository \<Rightarrow> timeline_entry list repo_io" where
  "all_snapshot_entries blake3 repo =
     bind_io (ensure_snapshot_index_complete repo) (\<lambda>_.
     bind_io (list_snapshot_index_ids (repo_metadata_dir repo)) (\<lambda>ids.
     bind_io (load_entries blake3 repo ids) (\<lambda>entries.
     return_io (sort_key entry_key entries))))"

definition snapshot_graph_of :: "hasher \<Rightarrow> repository \<Rightarrow> snapshot_graph repo_io" where
  "snapshot_graph_of blake3 repo =
     bind_io (repo_branches repo) (\<lambda>branches.
     bind_io (repo_workspaces repo) (\<lambda>workspaces.
     bind_io (all_snapshot_entries blake3 repo) (\<lambda>entries.
     return_io \<lparr>sg_branches = branches, sg_workspaces = workspaces, sg_entries = entries\<rparr>)))"

section \<open>Targets\<close>

definition is_ascii_hexdigit :: "byte \<Rightarrow> bool" where
  "is_ascii_hexdigit b \<longleftrightarrow> (48 \<le> b \<and> b \<le> 57) \<or> (97 \<le> b \<and> b \<le> 102) \<or> (65 \<le> b \<and> b \<le> 70)"

definition hex_prefix_target :: "rstring \<Rightarrow> bool" where
  "hex_prefix_target target \<longleftrightarrow> target \<noteq> [] \<and> list_all is_ascii_hexdigit target"

definition entry_matches :: "rstring \<Rightarrow> timeline_entry \<Rightarrow> bool" where
  "entry_matches target e \<longleftrightarrow>
     hex_prefix_target target \<and> starts_with target (to_hex (te_snapshot_id e)) \<or> snap_message (te_snapshot e) = Some target"

definition collect_matches :: "rstring \<Rightarrow> timeline_entry list \<Rightarrow> (object_id \<times> snapshot) list" where
  "collect_matches target entries =
     fold (\<lambda>e matches. if entry_matches target e then btree_insert (te_snapshot_id e) (te_snapshot e) matches else matches)
       entries []"

definition choose_match :: "rstring \<Rightarrow> (object_id \<times> snapshot) list \<Rightarrow> repository_error + resolved_snapshot" where
  "choose_match target matches =
    (case matches of
       [] \<Rightarrow> Err (SnapshotTargetNotFound target)
     | [(i, sn)] \<Rightarrow> Ok \<lparr>rs_snapshot_id = i, rs_snapshot = sn\<rparr>
     | _ \<Rightarrow> Err (SnapshotTargetAmbiguous target (map fst matches)))"

definition resolved_at :: "hasher \<Rightarrow> repository \<Rightarrow> object_id \<Rightarrow> resolved_snapshot repo_io" where
  "resolved_at blake3 repo i =
     bind_io (store_get_snapshot blake3 repo i) (\<lambda>sn. return_io \<lparr>rs_snapshot_id = i, rs_snapshot = sn\<rparr>)"

definition resolve_full_id :: "hasher \<Rightarrow> repository \<Rightarrow> rstring \<Rightarrow> resolved_snapshot option repo_io" where
  "resolve_full_id blake3 repo target =
    (case from_hex target of
       Inl _ \<Rightarrow> return_io None
     | Inr i \<Rightarrow>
         bind_io (map_err_io RepoObjectStore (contains blake3 (repo_store repo) SnapshotObject i)) (\<lambda>present.
         if present then bind_io (resolved_at blake3 repo i) (\<lambda>r. return_io (Some r)) else return_io None))"

definition resolve_branch :: "hasher \<Rightarrow> repository \<Rightarrow> rstring \<Rightarrow> resolved_snapshot option repo_io" where
  "resolve_branch blake3 repo target =
    (case branch_new target of
       Inl _ \<Rightarrow> return_io None
     | Inr b \<Rightarrow>
         bind_io (branch_ref_exists (repo_metadata_dir repo) b) (\<lambda>present.
         if present
         then bind_io (read_branch_ref (repo_metadata_dir repo) b) (\<lambda>i.
           bind_io (resolved_at blake3 repo i) (\<lambda>r. return_io (Some r)))
         else return_io None))"

definition resolve_workspace :: "hasher \<Rightarrow> repository \<Rightarrow> rstring \<Rightarrow> resolved_snapshot option repo_io" where
  "resolve_workspace blake3 repo target =
    (case workspace_new target of
       Inl _ \<Rightarrow> return_io None
     | Inr w \<Rightarrow>
         bind_io (workspace_ref_exists (repo_metadata_dir repo) w) (\<lambda>present.
         if present
         then bind_io (read_workspace_ref (repo_metadata_dir repo) w) (\<lambda>i.
           bind_io (resolved_at blake3 repo i) (\<lambda>r. return_io (Some r)))
         else return_io None))"

definition resolve_snapshot_target :: "hasher \<Rightarrow> repository \<Rightarrow> rstring \<Rightarrow> resolved_snapshot repo_io" where
  "resolve_snapshot_target blake3 repo target =
     bind_io (resolve_full_id blake3 repo target) (\<lambda>full. case full of
       Some r \<Rightarrow> return_io r
     | None \<Rightarrow> bind_io (resolve_branch blake3 repo target) (\<lambda>branch. case branch of
         Some r \<Rightarrow> return_io r
       | None \<Rightarrow> bind_io (resolve_workspace blake3 repo target) (\<lambda>workspace. case workspace of
           Some r \<Rightarrow> return_io r
         | None \<Rightarrow> bind_io (all_snapshot_entries blake3 repo) (\<lambda>entries.
             result_io (choose_match target (collect_matches target entries))))))"

section \<open>Branches and restoring\<close>

definition materialize_into :: "repository \<Rightarrow> materializer \<Rightarrow> path \<Rightarrow> object_id \<Rightarrow> materialize_result repo_io" where
  "materialize_into repo mat root tree =
     map_err_io RepoMaterialization (m_materialize_tree mat tree (working_directory_new root) (repo_store repo))"

definition repo_create_branch ::
  "hasher \<Rightarrow> repository \<Rightarrow> materializer \<Rightarrow> branch_name \<Rightarrow> branch_operation_result repo_io" where
  "repo_create_branch blake3 repo mat name =
     bind_io (branch_ref_exists (repo_metadata_dir repo) name) (\<lambda>present.
     if present then fail_io (BranchAlreadyExists name)
     else
       bind_io (save_current_state_if_changed blake3 repo mat) (\<lambda>saved.
       bind_io (current_snapshot_id repo) (\<lambda>i.
       bind_io (create_branch_ref (repo_metadata_dir repo) name i) (\<lambda>_.
       return_io \<lparr>bor_branch = name, bor_snapshot_id = i, bor_saved_snapshot = saved\<rparr>))))"

definition switch_cursor :: "repository \<Rightarrow> branch_name \<Rightarrow> object_id \<Rightarrow> unit repo_io" where
  "switch_cursor repo name i =
    (case repo_cursor repo of
       CurrentBranch \<Rightarrow> write_head (repo_metadata_dir repo) name
     | CursorWorkspace w \<Rightarrow> with_cursor_lock repo (WorkspaceCursor w) (write_cursor_ref repo (WorkspaceCursor w) i))"

definition switch_branch ::
  "hasher \<Rightarrow> repository \<Rightarrow> materializer \<Rightarrow> branch_name \<Rightarrow> switch_result repo_io" where
  "switch_branch blake3 repo mat name =
     bind_io (branch_ref_exists (repo_metadata_dir repo) name) (\<lambda>present.
     if \<not> present then fail_io (BranchNotFound name)
     else
       bind_io (save_current_state_if_changed blake3 repo mat) (\<lambda>saved.
       bind_io (read_branch_ref (repo_metadata_dir repo) name) (\<lambda>i.
       bind_io (store_get_snapshot blake3 repo i) (\<lambda>sn.
       bind_io (materialize_into repo mat (repo_root repo) (snap_root sn)) (\<lambda>materialization.
       bind_io (switch_cursor repo name i) (\<lambda>_.
       return_io \<lparr>sw_branch = name, sw_snapshot_id = i, sw_snapshot = sn, sw_saved_snapshot = saved,
         sw_materialization = materialization\<rparr>))))))"

definition save_before_restore ::
  "hasher \<Rightarrow> repository \<Rightarrow> cursor_reference \<Rightarrow> capture_result \<Rightarrow> snapshot_result option repo_io" where
  "save_before_restore blake3 repo cursor capture =
     bind_io (read_cursor_ref repo cursor) (\<lambda>parent.
     bind_io (store_get_snapshot blake3 repo parent) (\<lambda>parent_snapshot.
     if cr_root_tree_id capture = snap_root parent_snapshot then return_io None
     else
       bind_io (store_snapshot blake3 repo capture (automatic_snapshot_request repo) [parent]) (\<lambda>snapshot.
       bind_io (write_cursor_ref repo cursor (res_snapshot_id snapshot)) (\<lambda>_.
       return_io (Some snapshot)))))"

definition repo_restore :: "hasher \<Rightarrow> repository \<Rightarrow> materializer \<Rightarrow> rstring \<Rightarrow> restore_result repo_io" where
  "repo_restore blake3 repo mat target =
     bind_io (resolve_snapshot_target blake3 repo target) (\<lambda>resolved.
     bind_io (capture_working_tree repo mat) (\<lambda>capture.
     bind_io (current_cursor_reference repo) (\<lambda>cursor.
     with_cursor_lock repo cursor (
       bind_io (save_before_restore blake3 repo cursor capture) (\<lambda>saved.
       bind_io (materialize_into repo mat (repo_root repo) (snap_root (rs_snapshot resolved))) (\<lambda>materialization.
       bind_io (write_cursor_ref repo cursor (rs_snapshot_id resolved)) (\<lambda>_.
       return_io \<lparr>rst_cursor = to_info cursor, rst_snapshot_id = rs_snapshot_id resolved,
         rst_snapshot = rs_snapshot resolved, rst_saved_snapshot = saved,
         rst_materialization = materialization\<rparr>)))))))"

section \<open>Workspaces\<close>

definition is_dir_path :: "path \<Rightarrow> bool repo_io" where
  "is_dir_path p = match_io (file_metadata p) (\<lambda>r. return_io (r = Ok DirNode))"

fun check_existing_workspaces :: "path \<Rightarrow> workspace_id \<Rightarrow> (workspace_id \<times> path option) list \<Rightarrow> unit repo_io" where
  "check_existing_workspaces target w [] = return_io ()"
| "check_existing_workspaces target w ((existing_id, None) # rest) = check_existing_workspaces target w rest"
| "check_existing_workspaces target w ((existing_id, Some existing_path) # rest) =
     bind_io (path_exists existing_path) (\<lambda>present.
     bind_io (if present then absolute_existing_path existing_path else return_io existing_path) (\<lambda>existing_root.
     if target = existing_root \<and> existing_id \<noteq> w then fail_io (WorkspaceAlreadyExists existing_id existing_root target)
     else if target \<noteq> existing_root \<and> starts_with existing_root target
       then fail_io (WorkspaceInsideWorkspace target existing_root)
     else check_existing_workspaces target w rest))"

definition workspace_target :: "repository \<Rightarrow> add_workspace_options \<Rightarrow> path repo_io" where
  "workspace_target repo opts =
     bind_io (absolute_path_for_create (aw_path opts)) (\<lambda>target.
     bind_io (absolute_existing_path (repo_root repo)) (\<lambda>source_root.
     bind_io (if target = source_root then return_io True else is_dir_path (workspace_pointer_path target)) (\<lambda>taken.
     if taken then fail_io (WorkspacePathIsRepository target)
     else if starts_with source_root target then fail_io (WorkspaceInsideWorkspace target source_root)
     else
       bind_io (list_workspace_paths (repo_metadata_dir repo)) (\<lambda>paths.
       bind_io (check_existing_workspaces target (aw_workspace_id opts) paths) (\<lambda>_. return_io target)))))"

definition prepare_workspace_dir :: "path \<Rightarrow> (bool \<times> bool) repo_io" where
  "prepare_workspace_dir target =
     bind_io (path_exists target) (\<lambda>existed.
     bind_io (if existed then ensure_working_root target
              else map_err_io (RepoIo target) (create_dir_all target)) (\<lambda>_.
     bind_io (directory_is_empty target) (\<lambda>was_empty.
     return_io (existed, was_empty))))"

definition workspace_base :: "hasher \<Rightarrow> repository \<Rightarrow> materializer \<Rightarrow> rstring option \<Rightarrow> object_id repo_io" where
  "workspace_base blake3 repo mat from =
    (case from of
       Some target \<Rightarrow> bind_io (resolve_snapshot_target blake3 repo target) (\<lambda>r. return_io (rs_snapshot_id r))
     | None \<Rightarrow> bind_io (save_current_state_if_changed blake3 repo mat) (\<lambda>_. current_snapshot_id repo))"

definition register_workspace ::
  "hasher \<Rightarrow> repository \<Rightarrow> materializer \<Rightarrow> workspace_id \<Rightarrow> path \<Rightarrow> bool \<times> bool \<Rightarrow> object_id \<Rightarrow>
    workspace_add_result repo_io" where
  "register_workspace blake3 repo mat w target dir base =
    (let md = repo_metadata_dir repo in
     bind_io (workspace_record_exists md w) (\<lambda>already_registered.
     bind_io (workspace_ref_exists md w) (\<lambda>has_ref.
     bind_io (if already_registered
              then bind_io (read_workspace_path md w) (\<lambda>existing_path.
                if existing_path \<noteq> target then fail_io (WorkspaceAlreadyExists w existing_path target) else return_io ())
              else return_io ()) (\<lambda>_.
     bind_io (if \<not> has_ref then create_workspace_ref md w base else return_io ()) (\<lambda>_.
     bind_io (if \<not> already_registered then write_workspace_path md w target else return_io ()) (\<lambda>_.
     bind_io (write_workspace_pointer target (workspace_pointer_new md w)) (\<lambda>_.
     let materialized = (\<not> fst dir \<or> snd dir) \<and> \<not> already_registered in
     bind_io (if materialized
              then bind_io (read_workspace_ref md w) (\<lambda>i.
                bind_io (store_get_snapshot blake3 repo i) (\<lambda>sn.
                bind_io (materialize_into repo mat target (snap_root sn)) (\<lambda>r. return_io (Some r))))
              else return_io None) (\<lambda>materialization.
     bind_io (read_workspace_ref md w) (\<lambda>i.
     return_io \<lparr>war_workspace_id = w, war_path = target, war_snapshot_id = i, war_created = (\<not> already_registered),
       war_materialized = materialized, war_materialization = materialization\<rparr>)))))))))"

definition add_workspace ::
  "hasher \<Rightarrow> repository \<Rightarrow> materializer \<Rightarrow> add_workspace_options \<Rightarrow> workspace_add_result repo_io" where
  "add_workspace blake3 repo mat opts =
     bind_io (workspace_target repo opts) (\<lambda>target.
     bind_io (prepare_workspace_dir target) (\<lambda>dir.
     bind_io (workspace_base blake3 repo mat (aw_from opts)) (\<lambda>base.
     with_lock (workspace_record_lock_path (repo_metadata_dir repo) (aw_workspace_id opts))
       (register_workspace blake3 repo mat (aw_workspace_id opts) target dir base))))"

definition open_or_add_workspace ::
  "hasher \<Rightarrow> path \<Rightarrow> path \<Rightarrow> workspace_id \<Rightarrow> materializer \<Rightarrow> repository repo_io" where
  "open_or_add_workspace blake3 repo_path workspace_path w mat =
     bind_io (open_repository_path repo_path) (\<lambda>repo.
     bind_io (add_workspace blake3 repo mat \<lparr>aw_path = workspace_path, aw_workspace_id = w, aw_from = None\<rparr>) (\<lambda>_.
     repo_open workspace_path))"

section \<open>The timeline\<close>

text \<open>
  Every round of the timeline reads the file of one more snapshot. The paths that a world can ever show are
  those of its file system and those its script publishes, so the loop ends.
\<close>

definition world_paths :: "world \<Rightarrow> path set" where
  "world_paths w = set (map fst (w_fs w)) \<union> {p. \<exists>b. Publish p b \<in> set (w_env w)}"

lemma finite_world_paths: "finite (world_paths w)"
proof -
  have "{p. \<exists>b. Publish p b \<in> set (w_env w)} \<subseteq> (\<lambda>e. case e of Publish p b \<Rightarrow> p | _ \<Rightarrow> []) ` set (w_env w)"
    by (force split: event.split)
  then have "finite {p. \<exists>b. Publish p b \<in> set (w_env w)}" by (rule finite_subset) simp
  then show ?thesis unfolding world_paths_def by simp
qed

lemma fs_set_paths: "set (map fst (fs_set p n fs)) \<subseteq> insert p (set (map fst fs))"
  by (auto simp: fs_set_def fs_del_def)

lemma publish_paths: "(q, n) \<in> set (publish R p b fs) \<Longrightarrow> q = p \<or> q \<in> fst ` set fs"
  using fs_set_paths [of p "FileNode b" fs] by (force simp: publish_def split: if_splits)

lemma read_file_world:
  assumes "read_file p w = (r, w')"
  shows "world_paths w' \<subseteq> world_paths w \<and> ((\<exists>b. r = Ok b) \<and> p \<noteq> [] \<longrightarrow> p \<in> world_paths w')"
proof -
  have get: "p \<in> set (map fst fs)" if "fst (op_read p fs) = Ok b" "p \<noteq> []" for fs b
    using that resolve_get [of fs p "FileNode b"]
    by (auto simp: op_read_Ok readable_def fs_get_def dest!: map_of_SomeD) (metis fst_conv image_eqI)
  show ?thesis
    using assms get unfolding read_file_def syscall_def run_op_def world_paths_def no_effect_def
    by (auto simp: op_read_def dest!: publish_paths split: list.splits event.splits prod.splits)
qed

lemma store_get_snapshot_world:
  assumes "store_get_snapshot blake3 repo i w = (Ok sn, w')"
  shows "world_paths w' \<subseteq> world_paths w \<and> object_path (repo_store repo) SnapshotObject i \<in> world_paths w'"
proof -
  let ?p = "object_path (repo_store repo) SnapshotObject i"
  obtain r w1 where rd: "read_file ?p w = (r, w1)" by fastforce
  have "w1 = w' \<and> (\<exists>b. r = Ok b)"
    using assms rd unfolding store_get_snapshot_def get_snapshot_def get_object_bytes_def read_object_file_def
    by (auto simp: map_err_io_def match_io_def bind_io_def result_io_def return_io_def fail_io_def map_err_def Let_def
        split: sum.splits if_splits prod.splits)
  then show ?thesis using read_file_world [OF rd] by simp
qed

lemma to_hex_inject: "to_hex i = to_hex j \<longleftrightarrow> i = j"
proof
  assume "to_hex i = to_hex j"
  then have "decode_chunks 0 (concat (map hex_byte (as_bytes i))) = decode_chunks 0 (concat (map hex_byte (as_bytes j)))"
    by (simp add: to_hex_def)
  then show "i = j" unfolding decode_chunks_hex by (cases i; cases j) simp
qed simp

lemma snapshot_path_inject: "object_path s SnapshotObject i = object_path s SnapshotObject j \<longleftrightarrow> i = j"
  by (auto simp: object_path_def to_hex_inject)

definition unseen :: "repository \<Rightarrow> object_id list \<Rightarrow> world \<Rightarrow> nat" where
  "unseen repo seen w = card (world_paths w - object_path (repo_store repo) SnapshotObject ` set seen)"

lemma unseen_decreases:
  assumes "store_get_snapshot blake3 repo i w = (Ok sn, w')" "i \<notin> set seen"
  shows "unseen repo (i # seen) w' < unseen repo seen w"
proof -
  let ?f = "object_path (repo_store repo) SnapshotObject"
  have w: "world_paths w' \<subseteq> world_paths w" "?f i \<in> world_paths w'"
    using store_get_snapshot_world [OF assms(1)] by auto
  have "?f i \<notin> ?f ` set seen" using assms(2) by (auto simp: snapshot_path_inject)
  then have "world_paths w' - ?f ` set (i # seen) \<subset> world_paths w - ?f ` set seen" using w by auto
  then show ?thesis unfolding unseen_def by (intro psubset_card_mono) (simp_all add: finite_world_paths)
qed

function timeline_loop :: "hasher \<Rightarrow> repository \<Rightarrow> object_id \<Rightarrow> object_id list \<Rightarrow> timeline_entry list repo_io" where
  "timeline_loop blake3 repo current seen w =
    (if current \<in> set seen then (Err (SnapshotCycle current), w)
     else case store_get_snapshot blake3 repo current w of
       (Inl e, w') \<Rightarrow> (Err e, w')
     | (Inr sn, w') \<Rightarrow>
         (case snap_parents sn of
            [] \<Rightarrow> (Ok [\<lparr>te_snapshot_id = current, te_snapshot = sn\<rparr>], w')
          | parent # _ \<Rightarrow>
              (case timeline_loop blake3 repo parent (current # seen) w' of
                 (Inl e, w'') \<Rightarrow> (Err e, w'')
               | (Inr entries, w'') \<Rightarrow> (Ok (\<lparr>te_snapshot_id = current, te_snapshot = sn\<rparr> # entries), w''))))"
  by pat_completeness auto
termination
proof (relation "measure (\<lambda>(blake3, repo, current, seen, w). unseen repo seen w)", goal_cases)
  case (2 blake3 repo current seen w r w' sn parent rest)
  then show ?case using unseen_decreases [of blake3 repo current w sn w' seen] by simp
qed simp

declare timeline_loop.simps [simp del]

definition repo_timeline :: "hasher \<Rightarrow> repository \<Rightarrow> timeline_entry list repo_io" where
  "repo_timeline blake3 repo = bind_io (current_snapshot_id repo) (\<lambda>i. timeline_loop blake3 repo i [])"

end
