(* ===== verification/Repo_Frames.thy ===== *)
theory Repo_Frames
  imports Store_Contract Lock_Properties Era_Repository
begin

text \<open>
  What the steps of a repository operation leave alone. A text file is replaced, or a lock is held, without
  disturbing any assertion that does not depend on the path and its temporary files; objects, refs and HEAD are
  such assertions for each other's paths.
\<close>

section \<open>Frames\<close>

text \<open>The assertion survives changes at the paths of \<open>T\<close>, and new directories at the paths of \<open>D\<close>.\<close>

definition spares :: "(path \<Rightarrow> bool) \<Rightarrow> (path \<Rightarrow> bool) \<Rightarrow> (fs \<Rightarrow> bool) \<Rightarrow> bool" where
  "spares D T I \<longleftrightarrow>
     (\<forall>t n fs. T t \<longrightarrow> I fs \<longrightarrow> I (fs_set t n fs) \<and> I (fs_del t fs)) \<and>
     (\<forall>d fs. D d \<longrightarrow> I fs \<longrightarrow> fs_get fs d = None \<longrightarrow> I (fs_set d DirNode fs))"

abbreviation ignores :: "(path \<Rightarrow> bool) \<Rightarrow> (fs \<Rightarrow> bool) \<Rightarrow> bool" where
  "ignores \<equiv> spares (\<lambda>d. True)"

lemma sparesD:
  "spares D T I \<Longrightarrow> T t \<Longrightarrow> I fs \<Longrightarrow> I (fs_set t n fs)" "spares D T I \<Longrightarrow> T t \<Longrightarrow> I fs \<Longrightarrow> I (fs_del t fs)"
  "spares D T I \<Longrightarrow> D d \<Longrightarrow> I fs \<Longrightarrow> fs_get fs d = None \<Longrightarrow> I (fs_set d DirNode fs)"
  by (simp_all add: spares_def)

lemma spares_sub: "spares D T I \<Longrightarrow> (\<And>d. D' d \<Longrightarrow> D d) \<Longrightarrow> (\<And>t. T' t \<Longrightarrow> T t) \<Longrightarrow> spares D' T' I"
  by (simp add: spares_def)

lemma spares_conj: "spares D T I \<Longrightarrow> spares D T J \<Longrightarrow> spares D T (\<lambda>fs. I fs \<and> J fs)"
  by (simp add: spares_def)

lemma spares_const: "spares D T (\<lambda>fs. c)"
  by (simp add: spares_def)

lemma spares_mkdirs:
  "spares D T I \<Longrightarrow> mkdirs fs pre p = (r, fs') \<Longrightarrow> (\<And>n. D (pre @ take n p)) \<Longrightarrow> I fs \<Longrightarrow> I fs'"
proof (induction fs pre p rule: mkdirs.induct)
  case (2 fs pre c cs)
  have "D (pre @ [c])" "\<And>n. D ((pre @ [c]) @ take n cs)" using "2.prems"(3) [of 1] "2.prems"(3) [of "Suc n" for n] by simp_all
  then show ?case using 2 by (auto dest: sparesD(3) split: option.splits node.splits)
qed simp

lemma hoare_frame_mkdir:
  assumes "stable R I" "spares D T I" "\<And>n. D (take n d)"
  shows "hoare R I (map_err_io f (create_dir_all d)) (\<lambda>r. I)"
  unfolding create_dir_all_def
proof (rule hoare_map_err, rule hoare_syscall [OF assms(1)])
  have D: "\<And>k. D ([] @ take k (take n d))" "\<And>k. D ([] @ take k d)" for n using assms(3) by simp_all
  show "I fs'" if "I fs" "op_create_dir_all d fs = (r, fs')" for fs r fs'
    using that spares_mkdirs [OF assms(2) _ D(2)] by (auto simp: op_create_dir_all_def)
  show "I (snd (mkdirs fs [] (take n d)))" if "I fs" for fs n
    using that by (rule spares_mkdirs [OF assms(2) surjective_pairing D(1)])
qed

lemma hoare_frame_ops:
  assumes "stable R I" "spares D T I" "T t"
  shows "hoare R I (create_new t) (\<lambda>r. I)" "hoare R I (write_all t c) (\<lambda>r. I)" "hoare R I (flush_file u) (\<lambda>r. I)"
    "hoare R I (remove_file t) (\<lambda>r. I)"
  unfolding create_new_def write_all_def flush_file_def remove_file_def
  by (rule hoare_syscall [OF assms(1)];
      auto simp: op_create_new_def op_write_all_def write_file_def op_remove_file_def no_effect_def
        intro: sparesD(1) [OF assms(2,3)] sparesD(2) [OF assms(2,3)]
        split: sum.splits if_splits option.splits node.splits)+

lemma hoare_frame_rename:
  assumes "stable R I" "spares D T I" "T t" "T p"
  shows "hoare R I (rename_file t p) (\<lambda>r. I)"
  unfolding rename_file_def
  by (rule hoare_syscall [OF assms(1)])
    (auto simp: no_effect_def dest!: op_rename_Ok intro: sparesD(1) [OF assms(2,4)] sparesD(2) [OF assms(2,3)])

lemma hoare_frame_read: "stable R I \<Longrightarrow> hoare R I (file_metadata t) (\<lambda>r. I)"
  unfolding file_metadata_def by (rule hoare_syscall) (auto simp: op_metadata_def no_effect_def)

definition near :: "path \<Rightarrow> path \<Rightarrow> bool" where
  "near p t \<longleftrightarrow> t = p \<or> ref_temp p t"

lemma hoare_frame_cleanup:
  assumes "stable R I" "spares D T I" "T t"
  shows "hoare R I (ref_cleanup t e) (\<lambda>r fs. I fs \<and> (\<forall>u. r \<noteq> Ok u))"
  unfolding ref_cleanup_def by (rule hoare_match [OF hoare_frame_ops(4) [OF assms]]) (auto intro: hoare_fail)

lemma hoare_frame_fill:
  assumes "stable R I" "spares D T I" "T t"
  shows "hoare R I (fill_text_temp t c) (\<lambda>r fs. I fs \<and> (\<forall>u. r = Ok u \<longrightarrow> u = t))"
proof -
  note ops = hoare_frame_ops [OF assms]
  have clean: "hoare R I (ref_cleanup t e) (\<lambda>r fs. I fs \<and> (\<forall>u. r = Ok u \<longrightarrow> u = t))" for e
    by (rule hoare_post [OF hoare_frame_cleanup [OF assms]]) simp
  let ?Q = "\<lambda>r fs. I fs \<and> (\<forall>u. r = Ok u \<longrightarrow> u = t)"
  have after: "hoare R I (match_io m (\<lambda>r. case r of Inl e \<Rightarrow> ref_cleanup t e | Inr _ \<Rightarrow> k)) ?Q"
    if "hoare R I m (\<lambda>r. I)" "hoare R I k ?Q" for m :: "(io_kind, unit) io" and k
    by (rule hoare_match [OF that(1)]) (use clean that(2) in \<open>simp split: sum.split\<close>)
  show ?thesis
    unfolding fill_text_temp_def
    by (intro after ops(2,3)) (rule hoare_return, simp)
qed

lemma hoare_frame_attempts:
  assumes "stable R I" "spares D (near p) I"
  shows "hoare R I (write_text_attempts n p c) (\<lambda>r fs. I fs \<and> (\<forall>t. r = Ok t \<longrightarrow> near p t))"
proof (induction n)
  case 0
  show ?case by (auto intro: hoare_fail)
next
  case (Suc n)
  have step: "hoare R I (match_io (create_new t) (\<lambda>r. case r of
      Inr _ \<Rightarrow> fill_text_temp t c
    | Inl e \<Rightarrow> if e = AlreadyExists then write_text_attempts n p c else fail_io (RepoIo t e)))
      (\<lambda>r fs. I fs \<and> (\<forall>u. r = Ok u \<longrightarrow> near p u))" if t: "near p t" for t
  proof (rule hoare_match [OF hoare_frame_ops(1) [OF assms t]])
    have "hoare R I (fill_text_temp t c) (\<lambda>r fs. I fs \<and> (\<forall>u. r = Ok u \<longrightarrow> near p u))"
      by (rule hoare_post [OF hoare_frame_fill [OF assms t]]) (use t in auto)
    then show "hoare R I (case r of Inr _ \<Rightarrow> fill_text_temp t c
        | Inl e \<Rightarrow> if e = AlreadyExists then write_text_attempts n p c else fail_io (RepoIo t e))
        (\<lambda>r fs. I fs \<and> (\<forall>u. r = Ok u \<longrightarrow> near p u))" for r :: "io_kind + unit"
      using Suc by (auto intro: hoare_fail split: sum.split)
  qed
  show ?case
    unfolding write_text_attempts.simps Let_def
    by (rule hoare_bind [where M = "\<lambda>c. I"], rule hoare_clocks, simp,
        rule hoare_bind [where M = "\<lambda>c. I"], rule hoare_process_id, simp, rule step)
      (auto simp: near_def ref_temp_def)
qed

lemma hoare_frame_write_text:
  assumes "stable R I" "spares D (near p) I" "\<And>n. D (take n (butlast p))"
  shows "hoare R I (write_text_file_atomic p c) (\<lambda>r. I)"
proof -
  have tmp: "hoare R I (write_temp_text_file p c) (\<lambda>r fs. case r of Inl _ \<Rightarrow> I fs | Inr t \<Rightarrow> I fs \<and> near p t)"
    unfolding write_temp_text_file_def
    by (rule hoare_post [OF hoare_frame_attempts [OF assms(1,2)]]) (auto split: sum.split)
  have "hoare R I (match_io (rename_file t p) (\<lambda>r. case r of
      Inr _ \<Rightarrow> return_io () | Inl e \<Rightarrow> match_io (remove_file t) (\<lambda>_. fail_io (RepoIo p e)))) (\<lambda>r. I)" if t: "near p t" for t
  proof (rule hoare_match [OF hoare_frame_rename [OF assms(1,2) t]])
    show "near p p" by (simp add: near_def)
    show "hoare R I (case r of Inr _ \<Rightarrow> return_io ()
        | Inl e \<Rightarrow> match_io (remove_file t) (\<lambda>_. fail_io (RepoIo p e))) (\<lambda>r. I)" for r :: "io_kind + unit"
      by (auto split: sum.split intro!: hoare_return hoare_match [OF hoare_frame_ops(4) [OF assms(1,2) t]] hoare_fail)
  qed
  then have rest: "hoare R (\<lambda>fs. I fs \<and> near p t) (match_io (rename_file t p) (\<lambda>r. case r of
      Inr _ \<Rightarrow> return_io () | Inl e \<Rightarrow> match_io (remove_file t) (\<lambda>_. fail_io (RepoIo p e)))) (\<lambda>r. I)" for t
    by (cases "near p t") (auto elim: hoare_pre simp: hoare_def)
  show ?thesis
    unfolding write_text_file_atomic_def
    by (rule hoare_bind [where M = "\<lambda>_. I"], rule hoare_post [OF hoare_frame_mkdir [OF assms]], simp split: sum.split,
        rule hoare_bind [OF tmp], rule rest)
qed

section \<open>Locks\<close>

lemma hoare_frame_stale:
  assumes "stable R I" "spares D (\<lambda>t. t = p) I"
  shows "hoare R I (maybe_remove_stale_lock p) (\<lambda>r. I)"
proof -
  have rm: "hoare R I (match_io (remove_file p) (\<lambda>r. case r of
      Inr _ \<Rightarrow> return_io () | Inl e \<Rightarrow> if e = NotFound then return_io () else fail_io (RepoIo p e))) (\<lambda>r. I)"
    by (rule hoare_match [OF hoare_frame_ops(4) [OF assms refl]]) (auto intro!: hoare_return hoare_fail split: sum.split)
  have age: "hoare R I (bind_io file_age (\<lambda>age. case age of None \<Rightarrow> return_io () | Some a \<Rightarrow>
      if a \<ge> STALE_LOCK_AGE then match_io (remove_file p) (\<lambda>r. case r of
        Inr _ \<Rightarrow> return_io () | Inl e \<Rightarrow> if e = NotFound then return_io () else fail_io (RepoIo p e))
      else return_io ())) (\<lambda>r. I)"
    by (rule hoare_bind [where M = "\<lambda>_. I"], rule hoare_clocks(4), simp)
      (use rm in \<open>auto intro!: hoare_return split: option.split\<close>)
  show ?thesis
    unfolding maybe_remove_stale_lock_def
    by (rule hoare_match [OF hoare_frame_read [OF assms(1)]]) (use age in \<open>auto intro!: hoare_return split: sum.split\<close>)
qed

lemma hoare_frame_acquire_step:
  assumes "stable R I" "spares D (\<lambda>t. t = p) I" "\<And>n. D (take n (butlast p))"
  shows "hoare R I (acquire_step start p) (\<lambda>r. I)"
proof -
  note ops = hoare_frame_ops [OF assms(1,2) refl]
  have io: "hoare R I (map_err_io f m) (\<lambda>r fs. case r of Inl e \<Rightarrow> I fs | Inr x \<Rightarrow> I fs)"
    if "hoare R I m (\<lambda>r. I)" for f :: "io_kind \<Rightarrow> repository_error" and m :: "(io_kind, unit) io"
    by (rule hoare_map_err, rule hoare_post [OF that]) (simp split: sum.split)
  have taken: "hoare R I (bind_io process_id (\<lambda>pid. bind_io unix_millis (\<lambda>millis.
      bind_io (map_err_io (RepoIo p) (write_all p (lock_contents pid millis))) (\<lambda>_.
      bind_io (map_err_io (RepoIo p) (flush_file p)) (\<lambda>_. return_io (Some \<lparr>lock_path = p\<rparr>)))))) (\<lambda>r. I)"
    by (rule hoare_bind [where M = "\<lambda>_. I"], rule hoare_process_id, simp,
        rule hoare_bind [where M = "\<lambda>_. I"], rule hoare_clocks(5), simp,
        rule hoare_bind [OF io [OF ops(2)]], rule hoare_bind [OF io [OF ops(3)]], rule hoare_return)
  have wait: "hoare R I (bind_io (maybe_remove_stale_lock p) (\<lambda>_. bind_io instant_now (\<lambda>now.
      if now - start \<ge> LOCK_WAIT_TIMEOUT then fail_io (LockTimeout p)
      else bind_io (sleep_millis LOCK_POLL_INTERVAL) (\<lambda>_. return_io None)))) (\<lambda>r. I)"
  proof (rule hoare_bind [where M = "\<lambda>_. I"])
    show "hoare R I (maybe_remove_stale_lock p) (\<lambda>r fs. case r of Inl e \<Rightarrow> I fs | Inr x \<Rightarrow> I fs)"
      by (rule hoare_post [OF hoare_frame_stale [OF assms(1,2)]]) (simp split: sum.split)
    have sleep: "hoare R I (bind_io (sleep_millis LOCK_POLL_INTERVAL) (\<lambda>_. return_io None)) (\<lambda>r. I)"
      by (rule hoare_bind [where M = "\<lambda>_. I"], rule hoare_clocks(3), simp, rule hoare_return)
    show "hoare R I (bind_io instant_now (\<lambda>now. if now - start \<ge> LOCK_WAIT_TIMEOUT then fail_io (LockTimeout p)
        else bind_io (sleep_millis LOCK_POLL_INTERVAL) (\<lambda>_. return_io None))) (\<lambda>r. I)"
      by (rule hoare_bind [where M = "\<lambda>_. I"], rule hoare_clocks(2), simp)
        (use sleep in \<open>auto intro!: hoare_fail\<close>)
  qed
  show ?thesis
    unfolding acquire_step_def
  proof (rule hoare_bind [where M = "\<lambda>_. I"])
    show "hoare R I (map_err_io (RepoIo (butlast p)) (create_dir_all (butlast p)))
        (\<lambda>r fs. case r of Inl e \<Rightarrow> I fs | Inr x \<Rightarrow> I fs)"
      by (rule hoare_post [OF hoare_frame_mkdir [OF assms]]) (simp split: sum.split)
  qed (rule hoare_match [OF ops(1)], use taken wait in \<open>auto intro!: hoare_fail split: sum.split\<close>)
qed

lemma hoare_frame_acquire:
  assumes "stable R I" "spares D (\<lambda>t. t = p) I" "\<And>n. D (take n (butlast p))"
  shows "hoare R I (acquire_metadata_lock p) (\<lambda>r. I)"
proof -
  have loop: "acquire_loop start p w = (r, w') \<Longrightarrow> \<forall>fs q b. w_rely w fs q b \<longrightarrow> R fs q b \<Longrightarrow> I (w_fs w) \<Longrightarrow>
      I (w_fs w') \<and> w_rely w' = w_rely w \<and> w_stamps w' = w_stamps w" for start w r w'
    using assms(2,3)
  proof (induction start p w rule: acquire_loop.induct)
    case (1 start p w)
    obtain r1 w1 where st: "acquire_step start p w = (r1, w1)" by fastforce
    note step = hoare_frame_acquire_step [OF assms(1) "1.prems"(4,5)]
    have I1: "I (w_fs w1) \<and> w_rely w1 = w_rely w" "w_stamps w1 = w_stamps w"
      using hoareD [OF step st] hoare_stamps [OF step st] "1.prems"(2,3) by blast+
    show ?case
    proof (cases "r1 = Ok None")
      case True
      then have "acquire_loop start p w1 = (r, w')"
        using "1.prems"(1) st by (simp add: acquire_loop.simps [of start p w])
      then show ?thesis using "1.IH" [OF st [symmetric] True refl] I1 "1.prems"(2,4,5) by simp
    next
      case False
      then show ?thesis
        using "1.prems"(1) st I1 by (auto simp: acquire_loop.simps [of start p w] split: sum.splits option.splits)
    qed
  qed
  show ?thesis
    unfolding acquire_metadata_lock_def
    by (rule hoare_bind [where M = "\<lambda>_. I"], rule hoare_clocks(2), simp) (use loop in \<open>auto simp: hoare_def\<close>)
qed

lemma hoare_with_lock:
  assumes I: "stable R I" "spares D (\<lambda>t. t = p) I" "\<And>n. D (take n (butlast p))" and body: "hoare R I body Q"
    and Q: "\<And>r. stable R (Q r)" "\<And>r. spares D (\<lambda>t. t = p) (Q r)" "\<And>e fs. I fs \<Longrightarrow> Q (Err e) fs"
  shows "hoare R I (with_lock p body) Q"
proof -
  have drop: "hoare R (Q r) (bind_io (drop_lock l) (\<lambda>_. result_io r)) Q" if "lock_path l = p" for r l
  proof (rule hoare_bind [where M = "\<lambda>_. Q r"])
    have "hoare R (Q r) (remove_file (lock_path l)) (\<lambda>x. Q r)"
      using hoare_frame_ops(4) [OF Q(1,2)] that by blast
    then show "hoare R (Q r) (drop_lock l) (\<lambda>x fs. case x of Inl e \<Rightarrow> Q (Inl e) fs | Inr u \<Rightarrow> Q r fs)"
      unfolding drop_lock_def by (rule hoare_match) (simp add: hoare_return)
  qed (simp add: hoare_result)
  have path: "lock_path l = p" if "acquire_metadata_lock p w = (Ok l, w')" for l w w'
    using that acquire_loop_bounds [of "w_clock w" p w] by (simp add: acquire_metadata_lock_def bind_io_def instant_now_def)
  have "hoare R I (acquire_metadata_lock p) (\<lambda>r fs. case r of Inl e \<Rightarrow> Q (Inl e) fs | Inr l \<Rightarrow> I fs \<and> lock_path l = p)"
    unfolding hoare_def
  proof (intro allI impI)
    fix w r w'
    assume run: "acquire_metadata_lock p w = (r, w')" and "\<forall>fs q b. w_rely w fs q b \<longrightarrow> R fs q b" "I (w_fs w)"
    then show "(case r of Inl e \<Rightarrow> Q (Inl e) (w_fs w') | Inr l \<Rightarrow> I (w_fs w') \<and> lock_path l = p) \<and>
        w_rely w' = w_rely w \<and> w_stamps w' = w_stamps w"
      using hoareD [OF hoare_frame_acquire [OF I] run] hoare_stamps [OF hoare_frame_acquire [OF I] run] Q(3) path
      by (cases r) auto
  qed
  moreover have "hoare R (\<lambda>fs. I fs \<and> lock_path l = p) (match_io body (\<lambda>r. bind_io (drop_lock l) (\<lambda>_. result_io r))) Q" for l
  proof (cases "lock_path l = p")
    case True
    show ?thesis by (rule hoare_match [OF hoare_pre [OF body] drop [OF True]]) simp
  qed (simp add: hoare_def)
  ultimately show ?thesis
    unfolding with_lock_def by (rule hoare_bind)
qed

section \<open>Assertions on files and objects\<close>

definition off :: "path \<Rightarrow> path \<Rightarrow> bool" where
  "off p t \<longleftrightarrow> (\<forall>n. take n p \<noteq> t)"

lemma resolve_off: "off p t \<Longrightarrow> resolve (fs_set t n fs) p = resolve fs p" "off p t \<Longrightarrow> resolve (fs_del t fs) p = resolve fs p"
  by (rule resolve_cong; auto simp: off_def fs_get_set fs_get_del)+

lemma get_off: "off p t \<Longrightarrow> fs_get (fs_set t n fs) p = fs_get fs p" "off p t \<Longrightarrow> fs_get (fs_del t fs) p = fs_get fs p"
  unfolding off_def by (metis fs_get_set take_all_iff order_refl) (metis fs_get_del take_all_iff order_refl)

lemma ignores_holds: "(\<And>t. T t \<Longrightarrow> off p t) \<Longrightarrow> ignores T (\<lambda>fs. holds_text fs p c)"
  unfolding spares_def holds_text_def by (auto simp: resolve_off dest: resolve_ext [OF fs_ext_set])

lemma ignores_points: "(\<And>t. T t \<Longrightarrow> off p t) \<Longrightarrow> ignores T (\<lambda>fs. points_to fs p i)"
  unfolding points_to_def by (rule ignores_holds)

lemma stable_holds: "stable R (\<lambda>fs. holds_text fs p c)"
  unfolding holds_text_def by (rule stable_mono) (rule resolve_ext)

lemma stable_points: "stable R (\<lambda>fs. points_to fs p i)"
  unfolding points_to_def by (rule stable_holds)

text \<open>The contents of the store depend on the files at the paths of objects.\<close>

lemma has_content_mono:
  assumes "has_content blake3 s fs k i b" "\<And>k i b. readable fs (object_path s k i) b \<Longrightarrow> readable fs' (object_path s k i) b"
  shows "has_content blake3 s fs' k i b"
proof -
  have "stored blake3 s fs i b n \<Longrightarrow> stored blake3 s fs' i b n" for n
    by (erule stored_mono) (simp add: blob_path_def assms(2))
  then show ?thesis using assms unfolding has_content_def by meson
qed

lemma ignores_content:
  assumes "\<And>t k j. T t \<Longrightarrow> off (object_path s k j) t"
  shows "ignores T (\<lambda>fs. has_content blake3 s fs k i b)"
  unfolding spares_def
proof (intro conjI allI impI)
  fix t n fs
  assume "T t" and ok: "has_content blake3 s fs k i b"
  then have o: "off (object_path s k j) t" for k j using assms by blast
  show "has_content blake3 s (fs_set t n fs) k i b" "has_content blake3 s (fs_del t fs) k i b"
    by (rule has_content_mono [OF ok], simp add: readable_def resolve_off [OF o])+
qed (blast intro: has_content_ext fs_ext_set)

lemma spares_Ex: "(\<And>x. spares D T (\<lambda>fs. I x fs)) \<Longrightarrow> spares D T (\<lambda>fs. \<exists>x. I x fs)"
  by (fastforce simp: spares_def)

lemma ignores_object_ok:
  assumes "\<And>t k j. T t \<Longrightarrow> off (object_path s k j) t"
  shows "ignores T (\<lambda>fs. object_ok blake3 s fs k i)"
  unfolding object_ok_content by (intro spares_Ex ignores_content assms)

lemma ignores_store_ok:
  assumes "\<And>t k j. T t \<Longrightarrow> off (object_path s k j) t"
  shows "ignores T (store_ok blake3 s)"
  unfolding spares_def
proof (intro conjI allI impI)
  fix t n fs
  assume t: "T t" and ok: "store_ok blake3 s fs"
  then have o: "off (object_path s k j) t" for k j using assms by blast
  have "object_ok blake3 s (fs_set t n fs) k i" "object_ok blake3 s (fs_del t fs) k i" if "object_ok blake3 s fs k i" for k i
    by (rule object_ok_mono [OF that], simp add: readable_def resolve_off [OF o])+
  then show "store_ok blake3 s (fs_set t n fs)" "store_ok blake3 s (fs_del t fs)"
    using ok unfolding store_ok_def by (auto simp: get_off [OF o])
next
  fix d fs
  assume "store_ok blake3 s fs" "fs_get fs d = None"
  then show "store_ok blake3 s (fs_set d DirNode fs)"
    by (intro store_ok_grow [OF _ fs_ext_set]) (auto simp: fs_get_set split: if_splits)
qed

end
