(* ===== verification/Repo_Steps.thy ===== *)
theory Repo_Steps
  imports Repo_Frames
begin

text \<open>
  The steps of \<open>repository.rs\<close> that record a snapshot: reading the cursor, storing the snapshot with its index
  entry, and moving the ref, with what each leaves of the others.
\<close>

section \<open>Paths of the metadata directory\<close>

definition cursor_path :: "repository \<Rightarrow> cursor_reference \<Rightarrow> path" where
  "cursor_path repo c = (case c of
      BranchCursor b \<Rightarrow> branch_ref_path (repo_metadata_dir repo) b
    | WorkspaceCursor w \<Rightarrow> workspace_ref_path (repo_metadata_dir repo) w)"

definition cursor_ok :: "cursor_reference \<Rightarrow> bool" where
  "cursor_ok c = (case c of BranchCursor b \<Rightarrow> branch_ok b \<and> 10 \<notin> set (branch_str b) | WorkspaceCursor w \<Rightarrow> workspace_ok w)"

text \<open>The store of a handle is below its metadata directory.\<close>

definition repo_wf :: "repository \<Rightarrow> bool" where
  "repo_wf repo \<longleftrightarrow> store_root (repo_store repo) = objects_dir (repo_metadata_dir repo)"

lemma off_append: "x \<noteq> y \<Longrightarrow> off (md @ y # q) (md @ x # r)"
  unfolding off_def
proof (intro allI notI)
  fix n
  assume ne: "x \<noteq> y" and eq: "take n (md @ y # q) = md @ x # r"
  then have "length (md @ x # r) \<le> n" by (metis length_take min.cobounded2)
  then have "take n (md @ y # q) ! length md = (md @ y # q) ! length md" by (intro nth_take) simp
  then show False using eq ne by simp
qed

lemma near_below: "near (md @ x # r) t \<Longrightarrow> r \<noteq> [] \<Longrightarrow> \<exists>r'. t = md @ x # r'"
  by (auto simp: near_def ref_temp_def butlast_append)

lemma near_leaf: "near (md @ [x]) t \<Longrightarrow> \<exists>x'. t = md @ [x'] \<and> (x' = x \<or> (\<exists>y. x' = 46 # y))"
  by (auto simp: near_def ref_temp_def ref_temp_name_def)

lemma dirs_apart:
  "OBJECTS_DIR_NAME \<noteq> REFS_DIR_NAME" "OBJECTS_DIR_NAME \<noteq> INDEX_DIR_NAME" "OBJECTS_DIR_NAME \<noteq> LOCKS_DIR_NAME"
  "OBJECTS_DIR_NAME \<noteq> HEAD_FILE_NAME" "REFS_DIR_NAME \<noteq> INDEX_DIR_NAME" "REFS_DIR_NAME \<noteq> LOCKS_DIR_NAME"
  "REFS_DIR_NAME \<noteq> HEAD_FILE_NAME" "INDEX_DIR_NAME \<noteq> HEAD_FILE_NAME" "LOCKS_DIR_NAME \<noteq> HEAD_FILE_NAME"
  by (simp_all add: layout_names)

lemma object_path_below:
  "repo_wf repo \<Longrightarrow> \<exists>q. object_path (repo_store repo) k i = repo_metadata_dir repo @ OBJECTS_DIR_NAME # q"
  by (simp add: repo_wf_def object_path_def object_dir_def objects_dir_def)

lemma cursor_path_below: "\<exists>x y. cursor_path repo c = repo_metadata_dir repo @ REFS_DIR_NAME # [x, y]"
  by (cases c) (auto simp: cursor_path_def branch_ref_path_def branch_refs_dir_def workspace_ref_path_def workspace_refs_dir_def)

lemma lock_path_below: "\<exists>q. cursor_lock_path repo c = repo_metadata_dir repo @ LOCKS_DIR_NAME # q"
  by (cases c) (auto simp: cursor_lock_path_def branch_lock_path_def workspace_ref_lock_path_def)

lemma index_path_below:
  "\<exists>x y z. snapshot_index_entry_path md i = md @ INDEX_DIR_NAME # [x, y, z]"
  by (simp add: snapshot_index_entry_path_def snapshot_index_dir_def index_dir_def)

lemma off_objects:
  assumes "repo_wf repo" "x \<noteq> OBJECTS_DIR_NAME"
  shows "off (object_path (repo_store repo) k i) (repo_metadata_dir repo @ x # q)"
  using object_path_below [OF assms(1)] off_append [OF assms(2)] by metis

lemma off_cursor: "x \<noteq> REFS_DIR_NAME \<Longrightarrow> off (cursor_path repo c) (repo_metadata_dir repo @ x # q)"
  using cursor_path_below [of repo c] off_append [of x REFS_DIR_NAME] by metis

lemma off_head: "x \<noteq> HEAD_FILE_NAME \<Longrightarrow> off (head_path (repo_metadata_dir repo)) (repo_metadata_dir repo @ x # q)"
  unfolding head_path_def using off_append [of x HEAD_FILE_NAME _ "[]"] by simp

lemma cursor_text_path: "cursor_ok c \<Longrightarrow> text_path (cursor_path repo c)"
  by (cases c) (auto simp: cursor_ok_def cursor_path_def branch_text_path workspace_text_path)

section \<open>The state between the steps\<close>

text \<open>The cursor of a handle: the branch that HEAD names, or the workspace of the handle.\<close>

definition cursor_is :: "repository \<Rightarrow> cursor_reference \<Rightarrow> fs \<Rightarrow> bool" where
  "cursor_is repo c fs = (case repo_cursor repo of
      CurrentBranch \<Rightarrow> \<exists>b. c = BranchCursor b \<and> holds_text fs (head_path (repo_metadata_dir repo)) (head_contents b)
    | CursorWorkspace w \<Rightarrow> c = WorkspaceCursor w)"

text \<open>The objects of a set are in the store, with their contents.\<close>

definition holds_objects :: "hasher \<Rightarrow> repository \<Rightarrow> (object_kind \<times> object_id \<times> bytes) set \<Rightarrow> fs \<Rightarrow> bool" where
  "holds_objects blake3 repo S fs \<longleftrightarrow> (\<forall>k j b. (k, j, b) \<in> S \<longrightarrow> has_content blake3 (repo_store repo) fs k j b)"

text \<open>The store is sound and has the objects of \<open>S\<close>, the cursor is \<open>c\<close>, and its ref points to \<open>i\<close>.\<close>

definition at_snapshot :: "hasher \<Rightarrow> repository \<Rightarrow> (object_kind \<times> object_id \<times> bytes) set \<Rightarrow> cursor_reference \<Rightarrow> object_id \<Rightarrow> fs \<Rightarrow> bool" where
  "at_snapshot blake3 repo S c i fs \<longleftrightarrow>
     store_ok blake3 (repo_store repo) fs \<and> holds_objects blake3 repo S fs \<and> cursor_is repo c fs \<and>
     points_to fs (cursor_path repo c) i"

text \<open>All that a file system holds.\<close>

definition contents_of :: "hasher \<Rightarrow> repository \<Rightarrow> fs \<Rightarrow> (object_kind \<times> object_id \<times> bytes) set" where
  "contents_of blake3 repo fs = {(k, j, b). has_content blake3 (repo_store repo) fs k j b}"

lemma holds_contentsD:
  "holds_objects blake3 repo (contents_of blake3 repo fs) fs' \<Longrightarrow> object_ok blake3 (repo_store repo) fs k j \<Longrightarrow>
     object_ok blake3 (repo_store repo) fs' k j"
  by (auto simp: holds_objects_def contents_of_def object_ok_content)

lemma at_snapshot_contents:
  "at_snapshot blake3 repo S c i fs \<Longrightarrow> at_snapshot blake3 repo (contents_of blake3 repo fs) c i fs"
  by (simp add: at_snapshot_def holds_objects_def contents_of_def)

lemma at_snapshot_holds: "at_snapshot blake3 repo S c i fs \<Longrightarrow> holds_objects blake3 repo S fs"
  by (simp add: at_snapshot_def)

definition repo_rely :: "hasher \<Rightarrow> repository \<Rightarrow> cursor_reference \<Rightarrow> fs \<Rightarrow> path \<Rightarrow> bytes \<Rightarrow> bool" where
  "repo_rely blake3 repo c fs p b \<longleftrightarrow> store_rely blake3 (repo_store repo) fs p b \<and> p \<noteq> cursor_path repo c"

lemma cursor_is_ext: "fs_ext fs fs' \<Longrightarrow> cursor_is repo c fs \<Longrightarrow> cursor_is repo c fs'"
  by (auto simp: cursor_is_def holds_text_def dest: resolve_ext split: repository_cursor.splits)

lemma points_to_ext: "fs_ext fs fs' \<Longrightarrow> points_to fs p i \<Longrightarrow> points_to fs' p i"
  by (auto simp: points_to_def holds_text_def dest: resolve_ext)

lemma stable_cursor_is: "stable R (cursor_is repo c)"
  by (rule stable_mono) (rule cursor_is_ext)

lemma holds_objects_ext: "fs_ext fs fs' \<Longrightarrow> holds_objects blake3 repo S fs \<Longrightarrow> holds_objects blake3 repo S fs'"
  by (auto simp: holds_objects_def intro: has_content_ext)

lemma stable_holds_objects: "stable R (holds_objects blake3 repo S)"
  by (rule stable_mono) (rule holds_objects_ext)

lemma ignores_holds_objects:
  assumes "\<And>t k j. T t \<Longrightarrow> off (object_path (repo_store repo) k j) t"
  shows "ignores T (holds_objects blake3 repo S)"
  using ignores_content [of T "repo_store repo", OF assms] unfolding spares_def holds_objects_def by blast

lemma stable_at_snapshot: "stable (repo_rely blake3 repo c) (at_snapshot blake3 repo S c i)"
  unfolding at_snapshot_def
  by (intro stable_conj stable_store_ok stable_holds_objects stable_cursor_is stable_points) (simp add: repo_rely_def)

lemma ignores_cursor_is:
  assumes "\<And>t. T t \<Longrightarrow> off (head_path (repo_metadata_dir repo)) t"
  shows "ignores T (cursor_is repo c)"
  using ignores_holds [of T "head_path (repo_metadata_dir repo)", OF assms]
  by (auto simp: spares_def cursor_is_def split: repository_cursor.splits)

lemma ignores_at_snapshot:
  assumes "repo_wf repo" "\<And>t. T t \<Longrightarrow> \<exists>x q. t = repo_metadata_dir repo @ x # q \<and> x \<in> {INDEX_DIR_NAME, LOCKS_DIR_NAME}"
  shows "ignores T (at_snapshot blake3 repo S c i)" "ignores T (\<lambda>fs. object_ok blake3 (repo_store repo) fs k j)"
proof -
  have o: "off (object_path (repo_store repo) k j) t" "off (cursor_path repo c) t"
      "off (head_path (repo_metadata_dir repo)) t" if "T t" for t k j
    using assms(2) [OF that] off_objects [OF assms(1)] off_cursor off_head dirs_apart by auto
  show "ignores T (at_snapshot blake3 repo S c i)"
    unfolding at_snapshot_def by (intro spares_conj ignores_store_ok ignores_holds_objects ignores_cursor_is ignores_points o)
  show "ignores T (\<lambda>fs. object_ok blake3 (repo_store repo) fs k j)" by (rule ignores_object_ok [OF o(1)])
qed

section \<open>The steps\<close>

lemma parse_head_contents:
  "branch_ok b \<Longrightarrow> 10 \<notin> set (branch_str b) \<Longrightarrow> parse_head p (head_contents b) = Ok b"
proof -
  assume b: "branch_ok b" "10 \<notin> set (branch_str b)"
  have "single_line (head_contents b) = Some (HEAD_PREFIX @ REFS_HEADS_PREFIX @ branch_str b)"
    using b(2) single_line_line [of "HEAD_PREFIX @ REFS_HEADS_PREFIX @ branch_str b"]
    by (simp add: head_contents_def HEAD_PREFIX_def REFS_HEADS_PREFIX_def)
  moreover have "branch_new (branch_str b) = Ok b" using b(1) by (simp add: branch_new_Ok branch_ok_def)
  ultimately show ?thesis by (simp add: parse_head_def)
qed

lemma hoare_current_cursor:
  assumes "stable R P" "\<And>fs. P fs \<Longrightarrow> cursor_is repo c fs" "cursor_ok c"
  shows "hoare R P (current_cursor_reference repo) (\<lambda>r fs. P fs \<and> (\<forall>c'. r = Ok c' \<longrightarrow> c' = c))"
proof (cases "repo_cursor repo")
  case (CursorWorkspace w)
  then show ?thesis
    using assms(2) unfolding current_cursor_reference_def by (auto intro!: hoare_return simp: cursor_is_def)
next
  case CurrentBranch
  show ?thesis
  proof (cases "\<exists>fs. P fs")
    case True
    then obtain b where c: "c = BranchCursor b" using assms(2) CurrentBranch by (auto simp: cursor_is_def)
    let ?p = "head_path (repo_metadata_dir repo)"
    have head: "P fs \<Longrightarrow> holds_text fs ?p (head_contents b)" for fs
      using assms(2) CurrentBranch c by (auto simp: cursor_is_def)
    have parse: "parse_head ?p (head_contents b) = Ok b"
      using assms(3) c by (intro parse_head_contents) (auto simp: cursor_ok_def)
    have rd: "hoare R P (read_text_file ?p e) (\<lambda>r fs. case r of
        Inl x \<Rightarrow> P fs \<and> (\<forall>c'. Inl x = Ok c' \<longrightarrow> c' = y) | Inr x \<Rightarrow> P fs \<and> x = head_contents b)" for e and y :: branch_name
      by (rule hoare_post [OF hoare_read_text_file [OF assms(1) head]]) (auto split: sum.split)
    have "hoare R P (read_head_branch (repo_metadata_dir repo)) (\<lambda>r fs. P fs \<and> (\<forall>b'. r = Ok b' \<longrightarrow> b' = b))"
      unfolding read_head_branch_def by (rule hoare_bind [OF rd]) (auto intro!: hoare_result simp: parse)
    then have "hoare R P (current_branch repo) (\<lambda>r fs. case r of
        Inl x \<Rightarrow> P fs \<and> (\<forall>c'. Inl x = Ok c' \<longrightarrow> c' = c) | Inr b' \<Rightarrow> P fs \<and> b' = b)"
      unfolding current_branch_def by (rule hoare_post) (auto split: sum.split)
    then show ?thesis
      unfolding current_cursor_reference_def CurrentBranch repository_cursor.case
      by (rule hoare_bind) (auto intro!: hoare_return simp: c)
  qed (simp add: hoare_def)
qed

lemma hoare_read_cursor_ref:
  assumes "stable R P" "\<And>fs. P fs \<Longrightarrow> points_to fs (cursor_path repo c) i" "valid_id i"
  shows "hoare R P (read_cursor_ref repo c) (\<lambda>r fs. P fs \<and> (\<forall>j. r = Ok j \<longrightarrow> j = i))"
  using hoare_read_points [OF assms(3,1,2)] unfolding read_cursor_ref_def read_branch_ref_def read_workspace_ref_def
  by (cases c) (simp_all add: cursor_path_def)

text \<open>What is recorded: the snapshot is stored under its hash, with the parents and the tree asked for.\<close>

definition recorded :: "hasher \<Rightarrow> repository \<Rightarrow> capture_result \<Rightarrow> object_id list \<Rightarrow> snapshot_result \<Rightarrow> fs \<Rightarrow> bool" where
  "recorded blake3 repo capture parents res fs \<longleftrightarrow>
     res_snapshot_id res = snapshot_id blake3 (res_snapshot res) \<and> snap_parents (res_snapshot res) = parents \<and>
     snap_root (res_snapshot res) = cr_root_tree_id capture \<and> res_capture res = capture \<and>
     object_ok blake3 (repo_store repo) fs SnapshotObject (res_snapshot_id res)"

text \<open>The snapshot of a request fits memory; its size does not depend on the time and the identifiers.\<close>

definition request_fits :: "snapshot_request \<Rightarrow> bool" where
  "request_fits request \<longleftrightarrow>
     fits_memory (snapshot_to_canonical_bytes (snapshot_new (ObjectId (replicate 32 0)) [ObjectId (replicate 32 0)] 0
       (req_author request) (req_message request) (req_provenance request)))"

lemma request_fitsD:
  assumes "request_fits request" "valid_id tree" "valid_id parent"
  shows "fits_memory (snapshot_to_canonical_bytes (snapshot_new tree [parent] timestamp (req_author request)
    (req_message request) (req_provenance request)))"
  using assms by (simp add: request_fits_def fits_memory_def snapshot_to_canonical_bytes_def snapshot_new_def valid_id_def
      OBJECT_ID_BYTES_def)

lemma hoare_resolve_timestamp: "hoare R P (resolve_timestamp request) (\<lambda>r. P)"
  unfolding resolve_timestamp_def
  by (auto split: option.split intro!: hoare_return hoare_fail hoare_bind [where M = "\<lambda>_. P"] hoare_clocks(5))

lemma hoare_put_snapshot:
  assumes "\<And>fs p b. R fs p b \<Longrightarrow> store_rely blake3 s fs p b" "hash_ok blake3" "fits_memory (snapshot_to_canonical_bytes sn)"
    and K: "\<And>fs fs'. fs_ext fs fs' \<Longrightarrow> K fs \<Longrightarrow> K fs'"
  shows "hoare R (\<lambda>fs. store_ok blake3 s fs \<and> K fs) (put_snapshot blake3 s sn) (\<lambda>r fs. store_ok blake3 s fs \<and> K fs \<and>
    (\<forall>i. r = Ok i \<longrightarrow> i = snapshot_id blake3 sn \<and> object_ok blake3 s fs SnapshotObject i))"
proof (rule hoare_ghost)
  fix fs0
  assume pre: "store_ok blake3 s fs0 \<and> K fs0"
  have "hoare R (\<lambda>fs. fs_ext fs0 fs \<and> store_ok blake3 s fs)
      (put_object blake3 s SnapshotObject (from_content blake3 (snapshot_to_canonical_bytes sn)) (snapshot_to_canonical_bytes sn))
      (put_post blake3 s fs0 SnapshotObject (from_content blake3 (snapshot_to_canonical_bytes sn)))"
    by (rule hoare_put_raw [OF assms(1,2,3)])
  then show "hoare R (\<lambda>fs. fs = fs0) (put_snapshot blake3 s sn) (\<lambda>r fs. store_ok blake3 s fs \<and> K fs \<and>
      (\<forall>i. r = Ok i \<longrightarrow> i = snapshot_id blake3 sn \<and> object_ok blake3 s fs SnapshotObject i))"
    unfolding put_snapshot_def Let_def snapshot_id_def
    by (rule hoare_post [OF hoare_pre]) (use pre K in auto)
qed

lemma hoare_store_snapshot:
  assumes wf: "repo_wf repo" "hash_ok blake3" "request_fits request" "valid_id (cr_root_tree_id capture)" "valid_id i"
  shows "hoare (repo_rely blake3 repo c) (at_snapshot blake3 repo S c i) (store_snapshot blake3 repo capture request [i])
    (\<lambda>r fs. at_snapshot blake3 repo S c i fs \<and> (\<forall>res. r = Ok res \<longrightarrow> recorded blake3 repo capture [i] res fs))"
proof -
  let ?R = "repo_rely blake3 repo c" and ?A = "at_snapshot blake3 repo S c i" and ?s = "repo_store repo"
  let ?sn = "\<lambda>t. snapshot_new (cr_root_tree_id capture) [i] t (req_author request) (req_message request) (req_provenance request)"
  let ?B = "\<lambda>t fs. ?A fs \<and> object_ok blake3 ?s fs SnapshotObject (snapshot_id blake3 (?sn t))"
  have put: "hoare ?R ?A (map_err_io RepoObjectStore (put_snapshot blake3 ?s (?sn t))) (\<lambda>r fs. case r of
      Inl e \<Rightarrow> ?A fs \<and> (\<forall>res. Inl e = Ok res \<longrightarrow> recorded blake3 repo capture [i] res fs)
    | Inr j \<Rightarrow> ?B t fs \<and> j = snapshot_id blake3 (?sn t))" for t
  proof (rule hoare_map_err, rule hoare_post [OF hoare_pre [OF hoare_put_snapshot
        [where K = "\<lambda>fs. holds_objects blake3 repo S fs \<and> cursor_is repo c fs \<and> points_to fs (cursor_path repo c) i"]]])
    show "store_rely blake3 ?s fs p b" if "?R fs p b" for fs p b using that by (simp add: repo_rely_def)
    show "fits_memory (snapshot_to_canonical_bytes (?sn t))" by (rule request_fitsD [OF wf(3-5)])
    show "hash_ok blake3" by (rule wf(2))
  qed (auto simp: at_snapshot_def map_err_def cursor_is_ext points_to_ext holds_objects_ext split: sum.splits)
  have below: "\<exists>x q. t = repo_metadata_dir repo @ x # q \<and> x \<in> {INDEX_DIR_NAME, LOCKS_DIR_NAME}"
    if "near (snapshot_index_entry_path (repo_metadata_dir repo) j) t" for j t
    using index_path_below [of "repo_metadata_dir repo" j] near_below that by fastforce
  have index: "hoare ?R (?B t) (write_snapshot_index_entry (repo_metadata_dir repo) j) (\<lambda>r fs. case r of
      Inl e \<Rightarrow> ?A fs \<and> (\<forall>res. Inl e = Ok res \<longrightarrow> recorded blake3 repo capture [i] res fs) | Inr u \<Rightarrow> ?B t fs)" for t j
  proof -
    have "hoare ?R (?B t) (write_snapshot_index_entry (repo_metadata_dir repo) j) (\<lambda>r. ?B t)"
      unfolding write_snapshot_index_entry_def
      by (rule hoare_frame_write_text, intro stable_conj stable_at_snapshot stable_mono)
        (auto intro: object_ok_ext intro!: spares_conj ignores_at_snapshot [OF wf(1) below] TrueI)
    then show ?thesis by (rule hoare_post) (auto split: sum.split)
  qed
  show ?thesis
    unfolding store_snapshot_def Let_def
  proof (rule hoare_bind [where M = "\<lambda>_. ?A"])
    show "hoare ?R ?A (resolve_timestamp request) (\<lambda>r fs. case r of
        Inl e \<Rightarrow> ?A fs \<and> (\<forall>res. Inl e = Ok res \<longrightarrow> recorded blake3 repo capture [i] res fs) | Inr x \<Rightarrow> ?A fs)"
      by (rule hoare_post [OF hoare_resolve_timestamp]) (auto split: sum.split)
    fix t
    show "hoare ?R ?A (bind_io (map_err_io RepoObjectStore (put_snapshot blake3 ?s (?sn t))) (\<lambda>j.
        bind_io (write_snapshot_index_entry (repo_metadata_dir repo) j) (\<lambda>_.
        return_io \<lparr>res_snapshot_id = j, res_snapshot = ?sn t, res_capture = capture\<rparr>)))
        (\<lambda>r fs. ?A fs \<and> (\<forall>res. r = Ok res \<longrightarrow> recorded blake3 repo capture [i] res fs))"
    proof (rule hoare_bind [OF put])
      fix j
      show "hoare ?R (\<lambda>fs. ?B t fs \<and> j = snapshot_id blake3 (?sn t))
          (bind_io (write_snapshot_index_entry (repo_metadata_dir repo) j) (\<lambda>_.
          return_io \<lparr>res_snapshot_id = j, res_snapshot = ?sn t, res_capture = capture\<rparr>))
          (\<lambda>r fs. ?A fs \<and> (\<forall>res. r = Ok res \<longrightarrow> recorded blake3 repo capture [i] res fs))"
      proof (cases "j = snapshot_id blake3 (?sn t)")
        case True
        show ?thesis
          by (rule hoare_pre [OF hoare_bind [OF index]])
            (auto intro!: hoare_return simp: True recorded_def snapshot_new_def)
      qed (simp add: hoare_def)
    qed
  qed
qed

lemma hoare_write_cursor_ref:
  assumes "repo_wf repo" "cursor_ok c"
  shows "hoare (repo_rely blake3 repo c) (at_snapshot blake3 repo S c i) (write_cursor_ref repo c j)
    (\<lambda>r. at_snapshot blake3 repo S c (if r = Ok () then j else i))"
proof -
  let ?p = "cursor_path repo c"
  have tp: "text_path ?p" by (rule cursor_text_path [OF assms(2)])
  have wr: "write_cursor_ref repo c j = write_text_file_atomic ?p (ref_contents j)"
    by (cases c) (simp_all add: write_cursor_ref_def cursor_path_def write_branch_ref_def write_workspace_ref_def)
  have below: "\<exists>q. t = repo_metadata_dir repo @ REFS_DIR_NAME # q" if "near ?p t" for t
    using cursor_path_below [of repo c] near_below that by fastforce
  have o: "off (object_path (repo_store repo) k l) t" "off (head_path (repo_metadata_dir repo)) t" if "near ?p t" for t k l
    using below [OF that] off_objects [OF assms(1)] off_head dirs_apart by auto
  have rest: "hoare (repo_rely blake3 repo c) (at_snapshot blake3 repo S c i) (write_text_file_atomic ?p (ref_contents j))
      (\<lambda>r fs. store_ok blake3 (repo_store repo) fs \<and> holds_objects blake3 repo S fs \<and> cursor_is repo c fs)"
  proof (rule hoare_pre [OF hoare_frame_write_text])
    show "stable (repo_rely blake3 repo c) (\<lambda>fs. store_ok blake3 (repo_store repo) fs \<and> holds_objects blake3 repo S fs \<and> cursor_is repo c fs)"
      by (intro stable_conj stable_store_ok stable_holds_objects stable_cursor_is) (simp add: repo_rely_def)
    show "ignores (near ?p) (\<lambda>fs. store_ok blake3 (repo_store repo) fs \<and> holds_objects blake3 repo S fs \<and> cursor_is repo c fs)"
      by (intro spares_conj ignores_store_ok ignores_holds_objects ignores_cursor_is o)
  qed (simp_all add: at_snapshot_def)
  have "hoare (repo_rely blake3 repo c) (at_snapshot blake3 repo S c i) (write_text_file_atomic ?p (ref_contents j))
      (\<lambda>r fs. points_to fs ?p (if r = Ok () then j else i))"
  proof (rule hoare_ghost)
    fix fs0
    assume "at_snapshot blake3 repo S c i fs0"
    then have at: "points_to fs0 ?p i" by (simp add: at_snapshot_def)
    have same: "points_to fs ?p i" if "untouched fs0 ?p fs" for fs
    proof (rule points_to_ext [OF _ at])
      show "fs_ext fs0 fs" using that by (auto simp: untouched_def kept_def fs_ext_def) metis
    qed
    show "hoare (repo_rely blake3 repo c) (\<lambda>fs. fs = fs0) (write_text_file_atomic ?p (ref_contents j))
        (\<lambda>r fs. points_to fs ?p (if r = Ok () then j else i))"
      by (rule hoare_post [OF hoare_pre [OF hoare_rely [OF write_points [OF tp, where ?fs0.0 = fs0]]]])
        (auto simp: repo_rely_def avoids_def same split: sum.splits)
  qed
  from hoare_conj [OF rest this] show ?thesis
    unfolding wr at_snapshot_def by (rule hoare_post) auto
qed

section \<open>Recording under the lock of the cursor\<close>

text \<open>
  What the capture of a materializer promises where others publish only what keeps the store sound: it adds to the
  file system, keeps the store sound and the stamps of files as they are, and a tree it returns has an identifier.
\<close>

definition capture_law :: "hasher \<Rightarrow> repository \<Rightarrow> materializer \<Rightarrow> bool" where
  "capture_law blake3 repo mat \<longleftrightarrow> (\<forall>hints w r w'.
     m_capture_with_hints mat (working_directory_new (repo_root repo)) (repo_store repo) hints w = (r, w') \<longrightarrow>
     store_ok blake3 (repo_store repo) (w_fs w) \<longrightarrow>
     (\<forall>fs p b. w_rely w fs p b \<longrightarrow> store_rely blake3 (repo_store repo) fs p b) \<longrightarrow>
     w_rely w' = w_rely w \<and> w_stamps w' = w_stamps w \<and> fs_ext (w_fs w) (w_fs w') \<and>
     store_ok blake3 (repo_store repo) (w_fs w') \<and> (\<forall>x. r = Ok x \<longrightarrow> valid_id (cr_root_tree_id x)))"

lemma hoare_capture:
  assumes "capture_law blake3 repo mat"
  shows "hoare (repo_rely blake3 repo c) (at_snapshot blake3 repo S c i) (capture_working_tree_with_hints repo mat hints)
    (\<lambda>r fs. at_snapshot blake3 repo S c i fs \<and> (\<forall>x. r = Ok x \<longrightarrow> valid_id (cr_root_tree_id x)))"
  unfolding capture_working_tree_with_hints_def
  by (rule hoare_map_err)
    (use assms in \<open>fastforce simp: hoare_def capture_law_def at_snapshot_def repo_rely_def cursor_is_ext points_to_ext holds_objects_ext\<close>)

text \<open>The outcome of an operation that records at most one snapshot on the cursor.\<close>

definition advanced :: "hasher \<Rightarrow> repository \<Rightarrow> (object_kind \<times> object_id \<times> bytes) set \<Rightarrow> cursor_reference \<Rightarrow> object_id \<Rightarrow> 'e + snapshot_result option \<Rightarrow> fs \<Rightarrow> bool" where
  "advanced blake3 repo S c i r fs = (case r of
      Inr (Some res) \<Rightarrow> at_snapshot blake3 repo S c (res_snapshot_id res) fs \<and>
        recorded blake3 repo (res_capture res) [i] res fs
    | _ \<Rightarrow> at_snapshot blake3 repo S c i fs)"

lemma advanced_cases:
  obtains res where "r = Inr (Some res)" "advanced blake3 repo S c i r = (\<lambda>fs. at_snapshot blake3 repo S c (res_snapshot_id res) fs \<and>
      recorded blake3 repo (res_capture res) [i] res fs)"
  | "\<forall>res. r \<noteq> Inr (Some res)" "advanced blake3 repo S c i r = at_snapshot blake3 repo S c i"
  by (cases r; cases "projr r") (auto simp: advanced_def fun_eq_iff)

lemma stable_advanced: "stable (repo_rely blake3 repo c) (advanced blake3 repo S c i r)"
proof -
  have "stable (repo_rely blake3 repo c) (recorded blake3 repo capture [i] res)" for capture res
    unfolding recorded_def by (rule stable_mono) (auto intro: object_ok_ext)
  then show ?thesis
    by (cases rule: advanced_cases [of r blake3 repo S c i]) (auto intro!: stable_conj stable_at_snapshot)
qed

lemma lock_below:
  "\<exists>x q. cursor_lock_path repo c = repo_metadata_dir repo @ x # q \<and> x \<in> {INDEX_DIR_NAME, LOCKS_DIR_NAME}"
  using lock_path_below [of repo c] by blast

lemma ignores_advanced:
  assumes "repo_wf repo"
  shows "ignores (\<lambda>t. t = cursor_lock_path repo c) (advanced blake3 repo S c i r)"
proof -
  note ig = ignores_at_snapshot [where T = "\<lambda>t. t = cursor_lock_path repo c" and repo = repo, OF assms]
  have "ignores (\<lambda>t. t = cursor_lock_path repo c) (recorded blake3 repo capture [i] res)" for capture res
    unfolding recorded_def by (intro spares_conj spares_const ig(2)) (use lock_below in blast)
  moreover have "ignores (\<lambda>t. t = cursor_lock_path repo c) (at_snapshot blake3 repo S c j)" for j
    by (intro ig(1)) (use lock_below in blast)
  ultimately show ?thesis
    by (cases rule: advanced_cases [of r blake3 repo S c i]) (simp_all add: spares_conj)
qed

lemma hoare_advance:
  assumes "repo_wf repo" "hash_ok blake3" "cursor_ok c" "valid_id i" "request_fits request" "valid_id (cr_root_tree_id capture)"
  shows "hoare (repo_rely blake3 repo c) (at_snapshot blake3 repo S c i)
    (bind_io (store_snapshot blake3 repo capture request [i]) (\<lambda>res.
     bind_io (write_cursor_ref repo c (res_snapshot_id res)) (\<lambda>_. return_io res)))
    (\<lambda>r fs. case r of Inl _ \<Rightarrow> at_snapshot blake3 repo S c i fs
      | Inr res \<Rightarrow> at_snapshot blake3 repo S c (res_snapshot_id res) fs \<and> recorded blake3 repo capture [i] res fs)" (is "hoare ?R ?A _ ?Q")
proof -
  have st: "hoare ?R ?A (store_snapshot blake3 repo capture request [i]) (\<lambda>r fs. case r of
      Inl e \<Rightarrow> ?Q (Inl e) fs | Inr res \<Rightarrow> ?A fs \<and> recorded blake3 repo capture [i] res fs)"
    by (rule hoare_post [OF hoare_store_snapshot [OF assms(1,2,5,6,4)]]) (auto split: sum.split)
  show ?thesis
  proof (rule hoare_bind [OF st])
    fix res
    have o: "off (object_path (repo_store repo) k l) t" if "near (cursor_path repo c) t" for t k l
      using cursor_path_below [of repo c] near_below [of "repo_metadata_dir repo" REFS_DIR_NAME _ t] that
        off_objects [OF assms(1)] dirs_apart by fastforce
    have keep: "hoare ?R (recorded blake3 repo capture [i] res) (write_cursor_ref repo c j) (\<lambda>r. recorded blake3 repo capture [i] res)" for j
    proof -
      have "stable ?R (recorded blake3 repo capture [i] res)"
        unfolding recorded_def by (rule stable_mono) (auto intro: object_ok_ext)
      moreover have "ignores (near (cursor_path repo c)) (recorded blake3 repo capture [i] res)"
        unfolding recorded_def by (intro spares_conj spares_const ignores_object_ok o)
      ultimately show ?thesis
        using hoare_frame_write_text [where R = ?R and I = "recorded blake3 repo capture [i] res" and p = "cursor_path repo c" and D = "\<lambda>d. True"]
        by (cases c) (simp_all add: write_cursor_ref_def cursor_path_def write_branch_ref_def write_workspace_ref_def)
    qed
    let ?P = "\<lambda>fs. ?A fs \<and> recorded blake3 repo capture [i] res fs"
    have "hoare ?R ?P (write_cursor_ref repo c (res_snapshot_id res)) (\<lambda>r fs. case r of Inl e \<Rightarrow> ?Q (Inl e) fs
        | Inr u \<Rightarrow> at_snapshot blake3 repo S c (res_snapshot_id res) fs \<and> recorded blake3 repo capture [i] res fs)"
      by (rule hoare_post [OF hoare_conj [OF hoare_pre [OF hoare_write_cursor_ref [OF assms(1,3), of blake3 S i]]
              hoare_pre [OF keep]]])
        (auto split: sum.split)
    then show "hoare ?R ?P (bind_io (write_cursor_ref repo c (res_snapshot_id res)) (\<lambda>_. return_io res)) ?Q"
      by (rule hoare_bind) (auto intro!: hoare_return)
  qed
qed

end
