(* ===== verification/Repo_Properties.thy ===== *)
theory Repo_Properties
  imports Repo_Steps Store_Properties
begin

text \<open>
  The properties of \<open>repository.rs\<close>: recording a snapshot moves the cursor all at once or not at all,
  and the automatic recording stores a snapshot only when the tree changed.
\<close>

section \<open>Recording a snapshot\<close>

text \<open>\<open>C\<close> is what an operation says of its result alone.\<close>

definition outcome ::
  "hasher \<Rightarrow> repository \<Rightarrow> (object_kind \<times> object_id \<times> bytes) set \<Rightarrow> cursor_reference \<Rightarrow> object_id \<Rightarrow> ('a \<Rightarrow> snapshot_result option) \<Rightarrow> ('a \<Rightarrow> bool) \<Rightarrow>
    repository_error + 'a \<Rightarrow> fs \<Rightarrow> bool" where
  "outcome blake3 repo S c i f C r fs \<longleftrightarrow> advanced blake3 repo S c i (map_sum id f r) fs \<and> (\<forall>x. r = Ok x \<longrightarrow> C x)"

lemma outcome_Err [simp]: "outcome blake3 repo S c i f C (Inl e) = at_snapshot blake3 repo S c i"
  by (simp add: outcome_def advanced_def fun_eq_iff)

lemma hoare_locked:
  assumes "repo_wf repo" "hoare (repo_rely blake3 repo c) (at_snapshot blake3 repo S c i) body (outcome blake3 repo S c i f C)"
  shows "hoare (repo_rely blake3 repo c) (at_snapshot blake3 repo S c i) (with_cursor_lock repo c body) (outcome blake3 repo S c i f C)"
  unfolding with_cursor_lock_def
proof (rule hoare_with_lock [OF stable_at_snapshot _ _ assms(2)])
  show "ignores (\<lambda>t. t = cursor_lock_path repo c) (at_snapshot blake3 repo S c i)"
    by (rule ignores_at_snapshot(1) [OF assms(1)]) (use lock_below in blast)
  show "stable (repo_rely blake3 repo c) (outcome blake3 repo S c i f C r)" for r
    unfolding outcome_def by (intro stable_conj stable_const stable_advanced)
  show "ignores (\<lambda>t. t = cursor_lock_path repo c) (outcome blake3 repo S c i f C r)" for r
    unfolding outcome_def by (intro spares_conj spares_const ignores_advanced [OF assms(1)])
qed simp_all

lemma hoare_at_cursor:
  assumes "cursor_ok c"
    and body: "hoare (repo_rely blake3 repo c) (at_snapshot blake3 repo S c i) (body c) (outcome blake3 repo S c i f C)"
  shows "hoare (repo_rely blake3 repo c) (at_snapshot blake3 repo S c i) (bind_io (current_cursor_reference repo) body)
    (outcome blake3 repo S c i f C)" (is "hoare ?R ?A _ ?Q")
proof -
  have cur: "hoare ?R ?A (current_cursor_reference repo) (\<lambda>r fs. case r of
      Inl e \<Rightarrow> ?Q (Inl e) fs | Inr c' \<Rightarrow> ?A fs \<and> c' = c)"
    by (rule hoare_post [OF hoare_current_cursor [OF stable_at_snapshot _ assms(1)]])
      (auto simp: at_snapshot_def split: sum.split)
  have "hoare ?R (\<lambda>fs. ?A fs \<and> c' = c) (body c') ?Q" for c'
    by (cases "c' = c") (auto simp: hoare_def [of ?R "\<lambda>fs. False"] body)
  note step = this
  show ?thesis by (rule hoare_bind [OF cur step])
qed

lemma hoare_on_cursor:
  assumes "cursor_ok c" "capture_law blake3 repo mat"
    and body: "\<And>capture :: capture_result. valid_id (cr_root_tree_id capture) \<Longrightarrow>
      hoare (repo_rely blake3 repo c) (at_snapshot blake3 repo S c i) (body capture c) (outcome blake3 repo S c i f C)"
  shows "hoare (repo_rely blake3 repo c) (at_snapshot blake3 repo S c i)
    (bind_io (capture_working_tree_with_hints repo mat hints) (\<lambda>capture.
     bind_io (current_cursor_reference repo) (\<lambda>cursor. body capture cursor)))
    (outcome blake3 repo S c i f C)" (is "hoare ?R ?A _ ?Q")
proof -
  have cap: "hoare ?R ?A (capture_working_tree_with_hints repo mat hints) (\<lambda>r fs. case r of
      Inl e \<Rightarrow> ?Q (Inl e) fs | Inr x \<Rightarrow> ?A fs \<and> valid_id (cr_root_tree_id x))"
    by (rule hoare_post [OF hoare_capture [OF assms(2)]]) (auto split: sum.split)
  have step: "hoare ?R (\<lambda>fs. ?A fs \<and> valid_id (cr_root_tree_id x))
      (bind_io (current_cursor_reference repo) (\<lambda>cursor. body x cursor)) ?Q" for x
    by (cases "valid_id (cr_root_tree_id x)") (simp_all add: hoare_def [of ?R "\<lambda>fs. False"] hoare_at_cursor [OF assms(1)] body)
  show ?thesis by (rule hoare_bind [OF cap step])
qed

text \<open>Reading the ref of the cursor under its lock, for the rest of the operation.\<close>

lemma hoare_with_parent:
  assumes "repo_wf repo" "valid_id i"
    and rest: "hoare (repo_rely blake3 repo c) (at_snapshot blake3 repo S c i) (rest i) (outcome blake3 repo S c i f C)"
  shows "hoare (repo_rely blake3 repo c) (at_snapshot blake3 repo S c i)
    (with_cursor_lock repo c (bind_io (read_cursor_ref repo c) rest)) (outcome blake3 repo S c i f C)" (is "hoare ?R ?A _ ?Q")
proof -
  have rd: "hoare ?R ?A (read_cursor_ref repo c) (\<lambda>r fs. case r of Inl e \<Rightarrow> ?Q (Inl e) fs | Inr p \<Rightarrow> ?A fs \<and> p = i)"
    by (rule hoare_post [OF hoare_read_cursor_ref [OF stable_at_snapshot _ assms(2)]])
      (auto simp: at_snapshot_def split: sum.split)
  have "hoare ?R (\<lambda>fs. ?A fs \<and> p = i) (rest p) ?Q" for p
    by (cases "p = i") (use rest in \<open>auto simp: hoare_def [of ?R "\<lambda>fs. False"]\<close>)
  note step = this
  show ?thesis by (rule hoare_locked [OF assms(1) hoare_bind [OF rd step]])
qed

text \<open>What \<open>snapshot\<close> does after the capture.\<close>

definition record_capture :: "hasher \<Rightarrow> repository \<Rightarrow> snapshot_request \<Rightarrow> capture_result \<Rightarrow> snapshot_result repo_io" where
  "record_capture blake3 repo request capture =
     bind_io (current_cursor_reference repo) (\<lambda>cursor.
     with_cursor_lock repo cursor (
       bind_io (read_cursor_ref repo cursor) (\<lambda>parent.
       bind_io (store_snapshot blake3 repo capture request [parent]) (\<lambda>snapshot.
       bind_io (write_cursor_ref repo cursor (res_snapshot_id snapshot)) (\<lambda>_.
       return_io snapshot)))))"

lemma repo_snapshot_record:
  "repo_snapshot blake3 repo mat request = bind_io (capture_working_tree repo mat) (record_capture blake3 repo request)"
  by (simp add: repo_snapshot_def record_capture_def [abs_def])

lemma hoare_record_body:
  assumes "repo_wf repo" "hash_ok blake3" "cursor_ok c" "valid_id i" "request_fits request" "valid_id (cr_root_tree_id capture)"
  shows "hoare (repo_rely blake3 repo c) (at_snapshot blake3 repo S c i)
    (with_cursor_lock repo c (
       bind_io (read_cursor_ref repo c) (\<lambda>parent.
       bind_io (store_snapshot blake3 repo capture request [parent]) (\<lambda>snapshot.
       bind_io (write_cursor_ref repo c (res_snapshot_id snapshot)) (\<lambda>_.
       return_io snapshot)))))
    (outcome blake3 repo S c i Some (\<lambda>res. res_capture res = capture))"
proof (rule hoare_with_parent [OF assms(1,4)])
  from hoare_advance [OF assms]
  show "hoare (repo_rely blake3 repo c) (at_snapshot blake3 repo S c i)
      (bind_io (store_snapshot blake3 repo capture request [i]) (\<lambda>snapshot.
       bind_io (write_cursor_ref repo c (res_snapshot_id snapshot)) (\<lambda>_. return_io snapshot)))
      (outcome blake3 repo S c i Some (\<lambda>res. res_capture res = capture))"
    by (rule hoare_post) (auto simp: outcome_def advanced_def recorded_def split: sum.splits)
qed

lemma hoare_record_capture:
  assumes "repo_wf repo" "hash_ok blake3" "cursor_ok c" "valid_id i" "request_fits request" "valid_id (cr_root_tree_id capture)"
  shows "hoare (repo_rely blake3 repo c) (at_snapshot blake3 repo S c i) (record_capture blake3 repo request capture)
    (outcome blake3 repo S c i Some (\<lambda>res. res_capture res = capture))"
  unfolding record_capture_def by (rule hoare_at_cursor [OF assms(3)]) (rule hoare_record_body [OF assms])

lemma hoare_repo_snapshot:
  assumes "repo_wf repo" "hash_ok blake3" "cursor_ok c" "valid_id i" "request_fits request" "capture_law blake3 repo mat"
  shows "hoare (repo_rely blake3 repo c) (at_snapshot blake3 repo S c i) (repo_snapshot blake3 repo mat request)
    (outcome blake3 repo S c i Some (\<lambda>_. True))"
  unfolding repo_snapshot_def capture_working_tree_def
proof (rule hoare_on_cursor [OF assms(3,6)])
  fix capture :: capture_result
  assume "valid_id (cr_root_tree_id capture)"
  from hoare_record_body [OF assms(1-5) this]
  show "hoare (repo_rely blake3 repo c) (at_snapshot blake3 repo S c i)
      (with_cursor_lock repo c (
         bind_io (read_cursor_ref repo c) (\<lambda>parent.
         bind_io (store_snapshot blake3 repo capture request [parent]) (\<lambda>snapshot.
         bind_io (write_cursor_ref repo c (res_snapshot_id snapshot)) (\<lambda>_. return_io snapshot)))))
      (outcome blake3 repo S c i Some (\<lambda>_. True))"
    by (rule hoare_post) (simp add: outcome_def)
qed

text \<open>
  C5. \<open>Repository::snapshot\<close> moves the cursor all at once or not at all. Whatever fails and whatever other files
  are published, when it returns a snapshot then the ref of the cursor points to it, it is stored and readable
  under its hash, it has the previous target of the ref as its only parent and the captured tree as its root;
  when it fails the ref points where it pointed. The store stays sound and HEAD keeps its branch in both cases.
\<close>

theorem snapshot_moves_cursor:
  assumes "repo_wf repo" "hash_ok blake3" "cursor_ok c" "valid_id i" "request_fits request" "capture_law blake3 repo mat"
    and "\<And>fs p b. w_rely w fs p b \<Longrightarrow> store_rely blake3 (repo_store repo) fs p b \<and> p \<noteq> cursor_path repo c"
    and "store_ok blake3 (repo_store repo) (w_fs w)" "cursor_is repo c (w_fs w)" "points_to (w_fs w) (cursor_path repo c) i"
    and "repo_snapshot blake3 repo mat request w = (r, w')"
  shows "store_ok blake3 (repo_store repo) (w_fs w') \<and> cursor_is repo c (w_fs w') \<and> (case r of
      Inl _ \<Rightarrow> points_to (w_fs w') (cursor_path repo c) i
    | Inr res \<Rightarrow> points_to (w_fs w') (cursor_path repo c) (res_snapshot_id res) \<and>
        res_snapshot_id res = snapshot_id blake3 (res_snapshot res) \<and> snap_parents (res_snapshot res) = [i] \<and>
        snap_root (res_snapshot res) = cr_root_tree_id (res_capture res) \<and>
        (\<exists>b. has_content blake3 (repo_store repo) (w_fs w') SnapshotObject (res_snapshot_id res) b))"
proof -
  have "advanced blake3 repo {} c i (map_sum id Some r) (w_fs w')"
    using hoareD [OF hoare_repo_snapshot [OF assms(1-6)] assms(11)] assms(7-10)
    by (auto simp: repo_rely_def at_snapshot_def outcome_def holds_objects_def)
  then show ?thesis
    by (cases r) (auto simp: advanced_def at_snapshot_def recorded_def object_ok_content)
qed

definition sample_repo :: repository where
  "sample_repo = \<lparr>repo_root = [], repo_metadata_dir = [bstr ''.era''],
     repo_store = \<lparr>store_root = [bstr ''.era'', bstr ''objects'']\<rparr>, repo_cursor = CurrentBranch\<rparr>"

definition sample_capture :: capture_result where
  "sample_capture = capture_result_new (sample_id 9)
     \<lparr>cs_files_seen = 0, cs_directories_seen = 1, cs_bytes_read = 0, cs_blobs_stored = 0, cs_trees_stored = 1,
      cs_ignored_entries = 0, cs_symlinks_skipped = 0, cs_hash_cache_hits = 0, cs_hash_cache_misses = 0\<rparr> []"

definition sample_materializer :: materializer where
  "sample_materializer = \<lparr>m_capture_with_hints = (\<lambda>wd s hints. return_io sample_capture),
     m_compare_tree = (\<lambda>i wd s. fail_io (MatRootMissing (wd_root wd))),
     m_materialize_tree = (\<lambda>i wd s. fail_io (MatRootMissing (wd_root wd)))\<rparr>"

definition sample_repo_world :: world where
  "sample_repo_world = ref_world []
     [([bstr ''.era''], DirNode), ([bstr ''.era'', bstr ''objects''], DirNode),
      ([bstr ''.era'', bstr ''HEAD''], FileNode (head_contents branch_main)),
      ([bstr ''.era'', bstr ''refs''], DirNode), ([bstr ''.era'', bstr ''refs'', bstr ''heads''], DirNode),
      ([bstr ''.era'', bstr ''refs'', bstr ''heads'', bstr ''main''], FileNode (ref_contents (sample_id 1)))]"

definition sample_request :: snapshot_request where
  "sample_request = with_timestamp_millis (request_manual (bstr ''hello'')) 42"

lemma sample_repo_facts:
  "repo_wf sample_repo" "cursor_ok (BranchCursor branch_main)" "request_fits sample_request"
  "capture_law sum_hash sample_repo sample_materializer"
  "cursor_is sample_repo (BranchCursor branch_main) (w_fs sample_repo_world)"
  "points_to (w_fs sample_repo_world) (cursor_path sample_repo (BranchCursor branch_main)) (sample_id 1)"
proof -
  show "repo_wf sample_repo" by code_simp
  show "cursor_ok (BranchCursor branch_main)" by code_simp
  show "request_fits sample_request" by code_simp
  show "capture_law sum_hash sample_repo sample_materializer"
    by (simp add: capture_law_def sample_materializer_def return_io_def sample_capture_def capture_result_new_def sample_id_valid)
  have "resolve (w_fs sample_repo_world) (head_path (repo_metadata_dir sample_repo)) = Ok (FileNode (head_contents branch_main))"
    by code_simp
  then show "cursor_is sample_repo (BranchCursor branch_main) (w_fs sample_repo_world)"
    by (simp add: cursor_is_def sample_repo_def holds_text_def)
  have "resolve (w_fs sample_repo_world) (cursor_path sample_repo (BranchCursor branch_main)) =
      Ok (FileNode (ref_contents (sample_id 1)))" by code_simp
  then show "points_to (w_fs sample_repo_world) (cursor_path sample_repo (BranchCursor branch_main)) (sample_id 1)"
    by (simp add: points_to_def holds_text_def)
qed

lemma sample_repo_store_ok: "store_ok blake3 (repo_store sample_repo) (w_fs sample_repo_world)"
  unfolding store_ok_def
proof (intro allI impI)
  fix k i b
  assume "fs_get (w_fs sample_repo_world) (object_path (repo_store sample_repo) k i) = Some (FileNode b)"
  then have "object_path (repo_store sample_repo) k i \<in> set (map fst (w_fs sample_repo_world))"
    by (auto simp: fs_get_def dest!: map_of_SomeD split: if_splits) (metis fst_conv image_eqI)
  moreover have "\<forall>p \<in> set (map fst (w_fs sample_repo_world)). length p < 5"
    by (simp add: sample_repo_world_def ref_world_def)
  ultimately show "object_ok blake3 (repo_store sample_repo) (w_fs sample_repo_world) k i"
    by (force simp: sample_repo_def)
qed

lemma sample_repo_run:
  "isl (fst (repo_snapshot sum_hash sample_repo sample_materializer sample_request sample_repo_world)) = False"
  by code_simp

theorem snapshot_moves_cursor_witness:
  "\<exists>res w'. repo_snapshot sum_hash sample_repo sample_materializer sample_request sample_repo_world = (Ok res, w') \<and>
     points_to (w_fs w') (cursor_path sample_repo (BranchCursor branch_main)) (res_snapshot_id res) \<and>
     snap_parents (res_snapshot res) = [sample_id 1]"
proof -
  obtain r w' where run: "repo_snapshot sum_hash sample_repo sample_materializer sample_request sample_repo_world = (r, w')"
    by fastforce
  obtain res where "r = Ok res" using sample_repo_run run by (cases r) auto
  moreover note snapshot_moves_cursor [OF sample_repo_facts(1) hash_ok_sum_hash sample_repo_facts(2) sample_id_valid
      sample_repo_facts(3,4) _ sample_repo_store_ok sample_repo_facts(5,6) run]
  moreover have "w_rely sample_repo_world = (\<lambda>fs p b. False)" by (simp add: sample_repo_world_def)
  ultimately show ?thesis using run by auto
qed

section \<open>Recording only changes\<close>

text \<open>The snapshot that an identifier stands for: some bytes hash to it and decode.\<close>

definition denotes :: "hasher \<Rightarrow> object_id \<Rightarrow> snapshot \<Rightarrow> bool" where
  "denotes blake3 i sn \<longleftrightarrow> (\<exists>b. from_content blake3 b = i \<and> snapshot_from_canonical_bytes b = Ok sn)"

lemma hoare_store_get:
  assumes "stable R P"
  shows "hoare R P (store_get_snapshot blake3 repo i) (\<lambda>r fs. P fs \<and> (\<forall>sn. r = Ok sn \<longrightarrow> denotes blake3 i sn))"
proof -
  have "hoare R P (get_object_bytes blake3 (repo_store repo) SnapshotObject i)
      (\<lambda>r fs. case r of Inl e \<Rightarrow> P fs | Inr b \<Rightarrow> P fs \<and> from_content blake3 b = i)"
    by (rule hoare_post [OF hoare_get_object_bytes [OF assms]]) (auto dest: has_content_hash split: sum.split)
  then have "hoare R P (get_snapshot blake3 (repo_store repo) i)
      (\<lambda>r fs. P fs \<and> (\<forall>sn. r = Ok sn \<longrightarrow> denotes blake3 i sn))"
    unfolding get_snapshot_def
    by (intro hoare_bind) (auto intro!: hoare_result simp: denotes_def elim!: hoare_post split: sum.splits)
  then show ?thesis
    unfolding store_get_snapshot_def by (intro hoare_map_err) (auto elim!: hoare_post)
qed

text \<open>What is recorded of a capture: nothing when the previous target has its tree, and a snapshot of it otherwise.\<close>

definition changed_result :: "hasher \<Rightarrow> object_id \<Rightarrow> capture_result \<Rightarrow> snapshot_result option \<Rightarrow> bool" where
  "changed_result blake3 i capture x = (case x of
      None \<Rightarrow> \<exists>sn. denotes blake3 i sn \<and> snap_root sn = cr_root_tree_id capture
    | Some res \<Rightarrow> res_capture res = capture \<and> (\<exists>sn. denotes blake3 i sn \<and> snap_root sn \<noteq> snap_root (res_snapshot res)))"

lemma hoare_save_changed:
  assumes "repo_wf repo" "hash_ok blake3" "cursor_ok c" "valid_id i" "request_fits request" "valid_id (cr_root_tree_id capture)"
  shows "hoare (repo_rely blake3 repo c) (at_snapshot blake3 repo S c i)
    (bind_io (store_get_snapshot blake3 repo i) (\<lambda>parent_snapshot.
      if cr_root_tree_id capture = snap_root parent_snapshot then return_io None
      else bind_io (store_snapshot blake3 repo capture request [i]) (\<lambda>snapshot.
        bind_io (write_cursor_ref repo c (res_snapshot_id snapshot)) (\<lambda>_. return_io (Some snapshot)))))
    (outcome blake3 repo S c i (\<lambda>x. x) (changed_result blake3 i capture))" (is "hoare ?R ?A _ ?Q")
proof -
  have get: "hoare ?R ?A (store_get_snapshot blake3 repo i) (\<lambda>r fs. case r of
      Inl e \<Rightarrow> ?Q (Inl e) fs | Inr sn \<Rightarrow> ?A fs \<and> denotes blake3 i sn)"
    by (rule hoare_post [OF hoare_store_get [OF stable_at_snapshot]]) (auto split: sum.split)
  have adv: "hoare ?R ?A (bind_io (store_snapshot blake3 repo capture request [i]) (\<lambda>snapshot.
      bind_io (write_cursor_ref repo c (res_snapshot_id snapshot)) (\<lambda>_. return_io (Some snapshot)))) ?Q"
    if "denotes blake3 i sn" "cr_root_tree_id capture \<noteq> snap_root sn" for sn
  proof -
    have eq: "bind_io m (\<lambda>x. bind_io (k x) (\<lambda>_. return_io (Some x))) = bind_io (bind_io m (\<lambda>x. bind_io (k x) (\<lambda>_. return_io x)))
        (\<lambda>x. return_io (Some x))" for m :: "snapshot_result repo_io" and k :: "snapshot_result \<Rightarrow> unit repo_io"
      by (auto simp: bind_io_def return_io_def fun_eq_iff split: prod.splits sum.splits)
    have "hoare ?R ?A (bind_io (store_snapshot blake3 repo capture request [i]) (\<lambda>snapshot.
        bind_io (write_cursor_ref repo c (res_snapshot_id snapshot)) (\<lambda>_. return_io snapshot)))
        (\<lambda>r fs. case r of Inl e \<Rightarrow> ?Q (Inl e) fs | Inr res \<Rightarrow> at_snapshot blake3 repo S c (res_snapshot_id res) fs \<and>
           recorded blake3 repo capture [i] res fs)"
      by (rule hoare_post [OF hoare_advance [OF assms]]) (auto split: sum.split)
    then show ?thesis
      unfolding eq
      by (rule hoare_bind) (use that in \<open>auto intro!: hoare_return exI [of _ sn] simp: outcome_def advanced_def recorded_def changed_result_def\<close>)
  qed
  show ?thesis
  proof (rule hoare_bind [OF get])
    fix sn
    show "hoare ?R (\<lambda>fs. ?A fs \<and> denotes blake3 i sn) (if cr_root_tree_id capture = snap_root sn then return_io None
        else bind_io (store_snapshot blake3 repo capture request [i]) (\<lambda>snapshot.
          bind_io (write_cursor_ref repo c (res_snapshot_id snapshot)) (\<lambda>_. return_io (Some snapshot)))) ?Q"
    proof (cases "denotes blake3 i sn")
      case True
      then show ?thesis using adv [OF True] by (auto intro!: hoare_return simp: outcome_def advanced_def changed_result_def)
    qed (simp add: hoare_def)
  qed
qed

text \<open>What \<open>snapshot_if_changed\<close> does after the capture.\<close>

definition record_if_changed :: "hasher \<Rightarrow> repository \<Rightarrow> snapshot_request \<Rightarrow> capture_result \<Rightarrow> snapshot_result option repo_io" where
  "record_if_changed blake3 repo request capture =
     bind_io (current_cursor_reference repo) (\<lambda>cursor.
     with_cursor_lock repo cursor (
       bind_io (read_cursor_ref repo cursor) (\<lambda>parent.
       bind_io (store_get_snapshot blake3 repo parent) (\<lambda>parent_snapshot.
       if cr_root_tree_id capture = snap_root parent_snapshot then return_io None
       else
         bind_io (store_snapshot blake3 repo capture request [parent]) (\<lambda>snapshot.
         bind_io (write_cursor_ref repo cursor (res_snapshot_id snapshot)) (\<lambda>_.
         return_io (Some snapshot)))))))"

lemma snapshot_if_changed_record:
  "snapshot_if_changed_with_hints blake3 repo mat request hints =
     bind_io (capture_working_tree_with_hints repo mat hints) (record_if_changed blake3 repo request)"
  by (simp add: snapshot_if_changed_with_hints_def record_if_changed_def [abs_def])

lemma hoare_record_if_changed:
  assumes "repo_wf repo" "hash_ok blake3" "cursor_ok c" "valid_id i" "request_fits request" "valid_id (cr_root_tree_id capture)"
  shows "hoare (repo_rely blake3 repo c) (at_snapshot blake3 repo S c i) (record_if_changed blake3 repo request capture)
    (outcome blake3 repo S c i (\<lambda>x. x) (changed_result blake3 i capture))"
  unfolding record_if_changed_def
  by (rule hoare_at_cursor [OF assms(3)], rule hoare_with_parent [OF assms(1,4)], rule hoare_save_changed [OF assms])

lemma hoare_snapshot_if_changed:
  assumes "repo_wf repo" "hash_ok blake3" "cursor_ok c" "valid_id i" "request_fits request" "capture_law blake3 repo mat"
  shows "hoare (repo_rely blake3 repo c) (at_snapshot blake3 repo S c i)
    (snapshot_if_changed_with_hints blake3 repo mat request hints)
    (outcome blake3 repo S c i (\<lambda>x. x) (\<lambda>x. \<forall>res. x = Some res \<longrightarrow>
       (\<exists>sn. denotes blake3 i sn \<and> snap_root sn \<noteq> snap_root (res_snapshot res))))"
  unfolding snapshot_if_changed_with_hints_def
proof (rule hoare_on_cursor [OF assms(3,6)], rule hoare_with_parent [OF assms(1,4)])
  fix capture :: capture_result
  assume "valid_id (cr_root_tree_id capture)"
  note save = hoare_save_changed [OF assms(1-5) this, of S]
  show "hoare (repo_rely blake3 repo c) (at_snapshot blake3 repo S c i) (bind_io (store_get_snapshot blake3 repo i) (\<lambda>parent_snapshot.
      if cr_root_tree_id capture = snap_root parent_snapshot then return_io None
      else bind_io (store_snapshot blake3 repo capture request [i]) (\<lambda>snapshot.
        bind_io (write_cursor_ref repo c (res_snapshot_id snapshot)) (\<lambda>_. return_io (Some snapshot)))))
    (outcome blake3 repo S c i (\<lambda>x. x) (\<lambda>x. \<forall>res. x = Some res \<longrightarrow>
       (\<exists>sn. denotes blake3 i sn \<and> snap_root sn \<noteq> snap_root (res_snapshot res))))"
    by (rule hoare_post [OF save]) (auto simp: outcome_def changed_result_def)
qed

text \<open>
  C38. \<open>Repository::snapshot_if_changed\<close> records a change or nothing. Whatever fails, when it returns a snapshot then the
  ref points to it, it is stored, its parent is the previous target, and its tree differs from the tree of that
  target; when it returns nothing or fails, the ref points where it pointed.
\<close>

theorem snapshot_if_changed_records_changes:
  assumes "repo_wf repo" "hash_ok blake3" "cursor_ok c" "valid_id i" "request_fits request" "capture_law blake3 repo mat"
    and "\<And>fs p b. w_rely w fs p b \<Longrightarrow> store_rely blake3 (repo_store repo) fs p b \<and> p \<noteq> cursor_path repo c"
    and "store_ok blake3 (repo_store repo) (w_fs w)" "cursor_is repo c (w_fs w)" "points_to (w_fs w) (cursor_path repo c) i"
    and "snapshot_if_changed_with_hints blake3 repo mat request hints w = (r, w')"
  shows "store_ok blake3 (repo_store repo) (w_fs w') \<and> cursor_is repo c (w_fs w') \<and> (case r of
      Inr (Some res) \<Rightarrow> points_to (w_fs w') (cursor_path repo c) (res_snapshot_id res) \<and>
        res_snapshot_id res = snapshot_id blake3 (res_snapshot res) \<and> snap_parents (res_snapshot res) = [i] \<and>
        (\<exists>b. has_content blake3 (repo_store repo) (w_fs w') SnapshotObject (res_snapshot_id res) b) \<and>
        (\<exists>sn. denotes blake3 i sn \<and> snap_root sn \<noteq> snap_root (res_snapshot res))
    | _ \<Rightarrow> points_to (w_fs w') (cursor_path repo c) i)"
proof -
  have "outcome blake3 repo {} c i (\<lambda>x. x) (\<lambda>x. \<forall>res. x = Some res \<longrightarrow>
       (\<exists>sn. denotes blake3 i sn \<and> snap_root sn \<noteq> snap_root (res_snapshot res))) r (w_fs w')"
    using hoareD [OF hoare_snapshot_if_changed [OF assms(1-6)] assms(11)] assms(7-10)
    by (auto simp: repo_rely_def at_snapshot_def holds_objects_def)
  then show ?thesis
    by (cases r) (auto simp: outcome_def advanced_def at_snapshot_def recorded_def object_ok_content split: option.splits)
qed

text \<open>In the sample world the parent is not stored, so the operation fails and the ref stays.\<close>

theorem snapshot_if_changed_records_changes_witness:
  "\<exists>e w'. snapshot_if_changed_with_hints sum_hash sample_repo sample_materializer sample_request [] sample_repo_world =
      (Err e, w') \<and> points_to (w_fs w') (cursor_path sample_repo (BranchCursor branch_main)) (sample_id 1)"
proof -
  obtain r w' where run: "snapshot_if_changed_with_hints sum_hash sample_repo sample_materializer sample_request []
      sample_repo_world = (r, w')" by fastforce
  have "isl (fst (snapshot_if_changed_with_hints sum_hash sample_repo sample_materializer sample_request [] sample_repo_world))"
    by code_simp
  then obtain e where "r = Err e" using run by (cases r) auto
  moreover have "w_rely sample_repo_world = (\<lambda>fs p b. False)" by (simp add: sample_repo_world_def)
  moreover note snapshot_if_changed_records_changes [OF sample_repo_facts(1) hash_ok_sum_hash sample_repo_facts(2) sample_id_valid
      sample_repo_facts(3,4) _ sample_repo_store_ok sample_repo_facts(5,6) run]
  ultimately show ?thesis using run by auto
qed

end
