(* ===== verification/Timeline_Properties.thy ===== *)
theory Timeline_Properties
  imports Repo_Properties
begin

text \<open>
  The history of \<open>repository.rs\<close>: the timeline is the chain of first parents, and a target that is neither an
  identifier nor a ref resolves to the only snapshot that matches it.
\<close>

section \<open>The timeline\<close>

text \<open>The snapshot object with identifier \<open>i\<close> is stored, intact, and decodes to \<open>sn\<close>.\<close>

definition snapshot_at :: "hasher \<Rightarrow> repository \<Rightarrow> fs \<Rightarrow> object_id \<Rightarrow> snapshot \<Rightarrow> bool" where
  "snapshot_at blake3 repo fs i sn \<longleftrightarrow>
     (\<exists>b. has_content blake3 (repo_store repo) fs SnapshotObject i b \<and> snapshot_from_canonical_bytes b = Ok sn)"

lemma quiet_store_get:
  "quiet w \<Longrightarrow> store_get_snapshot blake3 repo i w = (Ok sn, w') \<longleftrightarrow> w' = w \<and> snapshot_at blake3 repo (w_fs w) i sn"
  unfolding store_get_snapshot_def get_snapshot_def get_object_bytes_def read_object_file_def snapshot_at_def has_content_def
  by (auto simp: map_err_io_def match_io_def bind_io_def result_io_def return_io_def fail_io_def map_err_def Let_def
      quiet_read_file op_read_Ok [symmetric] split: sum.splits if_splits prod.splits)

lemma quiet_store_get_world: "quiet w \<Longrightarrow> snd (store_get_snapshot blake3 repo i w) = w"
  unfolding store_get_snapshot_def get_snapshot_def get_object_bytes_def read_object_file_def
  by (auto simp: map_err_io_def match_io_def bind_io_def result_io_def return_io_def fail_io_def Let_def
      quiet_read_file split: sum.splits if_splits prod.splits)

text \<open>The entries are the chain of first parents that starts at \<open>i\<close>, down to a snapshot without parents.\<close>

fun first_parents :: "(object_id \<Rightarrow> snapshot \<Rightarrow> bool) \<Rightarrow> object_id \<Rightarrow> timeline_entry list \<Rightarrow> bool" where
  "first_parents stored_as i [] \<longleftrightarrow> False"
| "first_parents stored_as i (e # es) \<longleftrightarrow> te_snapshot_id e = i \<and> stored_as i (te_snapshot e) \<and>
     (case snap_parents (te_snapshot e) of [] \<Rightarrow> es = [] | p # _ \<Rightarrow> first_parents stored_as p es)"

lemma entry_eq:
  "e = \<lparr>te_snapshot_id = i, te_snapshot = sn\<rparr> \<longleftrightarrow> te_snapshot_id e = i \<and> te_snapshot e = (sn :: snapshot)"
  by (cases e) auto

lemma first_parents_at:
  assumes "\<And>sn'. stored_as i sn' \<longleftrightarrow> sn' = (sn :: snapshot)"
  shows "first_parents stored_as i es \<longleftrightarrow> (\<exists>rest. es = \<lparr>te_snapshot_id = i, te_snapshot = sn\<rparr> # rest \<and>
    (case snap_parents sn of [] \<Rightarrow> rest = [] | p # _ \<Rightarrow> first_parents stored_as p rest))"
  by (cases es) (auto simp: assms entry_eq)

lemma quiet_timeline_loop:
  "quiet w \<Longrightarrow> timeline_loop blake3 repo i seen w = (Ok es, w') \<longleftrightarrow>
     w' = w \<and> first_parents (snapshot_at blake3 repo (w_fs w)) i es \<and> distinct (map te_snapshot_id es) \<and>
     (\<forall>e \<in> set es. te_snapshot_id e \<notin> set seen)"
proof (induction blake3 repo i seen w arbitrary: es w' rule: timeline_loop.induct)
  case (1 blake3 repo i seen w)
  let ?S = "snapshot_at blake3 repo (w_fs w)"
  show ?case
  proof (cases "i \<in> set seen")
    case True
    have "\<not> (first_parents ?S i es \<and> (\<forall>e \<in> set es. te_snapshot_id e \<notin> set seen))"
      using True by (cases es) auto
    then show ?thesis using True by (auto simp: timeline_loop.simps [of blake3 repo i seen w])
  next
    case new: False
    obtain r w1 where get: "store_get_snapshot blake3 repo i w = (r, w1)" by fastforce
    then have w1: "w1 = w" using quiet_store_get_world [OF "1.prems", of blake3 repo i] by simp
    show ?thesis
    proof (cases r)
      case (Inl e)
      then have "\<not> ?S i sn" for sn using quiet_store_get [OF "1.prems", of blake3 repo i] get w1 by auto
      then have "\<not> first_parents ?S i es" by (cases es) auto
      then show ?thesis using new get Inl by (auto simp: timeline_loop.simps [of blake3 repo i seen w])
    next
      case (Inr sn)
      have S: "?S i sn' \<longleftrightarrow> sn' = sn" for sn'
        using quiet_store_get [OF "1.prems", of blake3 repo i sn' w] get w1 Inr by auto
      show ?thesis
      proof (cases "snap_parents sn")
        case Nil
        have run: "timeline_loop blake3 repo i seen w = (Ok [\<lparr>te_snapshot_id = i, te_snapshot = sn\<rparr>], w)"
          using new get Inr Nil w1 by (simp add: timeline_loop.simps [of blake3 repo i seen w])
        show ?thesis unfolding run first_parents_at [of ?S i, OF S] using new Nil by auto
      next
        case (Cons p ps)
        note IH = "1.IH" [OF new get [symmetric] Inr Cons, unfolded w1, OF "1.prems"]
        obtain r2 w2 where rec: "timeline_loop blake3 repo p (i # seen) w = (r2, w2)" by fastforce
        have run: "timeline_loop blake3 repo i seen w =
            (case r2 of Inl e \<Rightarrow> (Err e, w2) | Inr rest \<Rightarrow> (Ok (\<lparr>te_snapshot_id = i, te_snapshot = sn\<rparr> # rest), w2))"
          using new get Inr Cons w1 rec by (simp add: timeline_loop.simps [of blake3 repo i seen w])
        have "first_parents ?S i es \<longleftrightarrow> (\<exists>rest. es = \<lparr>te_snapshot_id = i, te_snapshot = sn\<rparr> # rest \<and> first_parents ?S p rest)"
          unfolding first_parents_at [of ?S i, OF S] using Cons by simp
        moreover have "timeline_loop blake3 repo i seen w = (Ok es, w') \<longleftrightarrow> (\<exists>rest.
            es = \<lparr>te_snapshot_id = i, te_snapshot = sn\<rparr> # rest \<and> timeline_loop blake3 repo p (i # seen) w = (Ok rest, w'))"
          unfolding run rec by (auto split: sum.splits)
        ultimately show ?thesis using IH new by (auto simp del: first_parents.simps)
      qed
    qed
  qed
qed

lemma quiet_text_world: "quiet w \<Longrightarrow> snd (read_text_file p e w) = w"
  by (auto simp: read_text_file_def map_err_io_def match_io_def read_to_string_def bind_io_def quiet_read_file result_io_def
      return_io_def fail_io_def split: sum.splits)

lemma quiet_bind_result: "quiet w \<Longrightarrow> snd (bind_io (read_text_file p e) (\<lambda>c. result_io (f c)) w) = w"
  using quiet_text_world [of w p e] by (auto simp: bind_io_def result_io_def split: prod.splits sum.splits)

lemma quiet_current_snapshot_id:
  assumes "quiet w" "current_snapshot_id repo w = (r, w')"
  shows "w' = w"
proof -
  have rd: "snd (read_cursor_ref repo c w) = w" for c
    by (cases c) (simp_all add: read_cursor_ref_def read_branch_ref_def read_workspace_ref_def quiet_bind_result [OF assms(1)])
  have head: "snd (current_branch repo w) = w"
    by (simp add: current_branch_def read_head_branch_def quiet_bind_result [OF assms(1)])
  then have "snd (current_cursor_reference repo w) = w"
    by (cases "repo_cursor repo")
      (auto simp: current_cursor_reference_def bind_io_def return_io_def split: prod.splits sum.splits)
  then show ?thesis
    using assms(2) rd by (auto simp: current_snapshot_id_def bind_io_def split: prod.splits sum.splits) (metis snd_conv)
qed

text \<open>
  C39. The timeline is the chain of first parents. In a quiet world \<open>timeline\<close> succeeds exactly when the cursor reads as
  an identifier from which the first parents lead, through stored and intact snapshots without repetition, to
  a snapshot without parents; it then returns that chain, newest first, and changes nothing.
\<close>

theorem timeline_exact:
  assumes "quiet w"
  shows "repo_timeline blake3 repo w = (Ok es, w') \<longleftrightarrow> w' = w \<and>
    (\<exists>i. current_snapshot_id repo w = (Ok i, w) \<and>
      first_parents (snapshot_at blake3 repo (w_fs w)) i es \<and> distinct (map te_snapshot_id es))"
proof -
  obtain r w1 where cur: "current_snapshot_id repo w = (r, w1)" by fastforce
  then have "w1 = w" using quiet_current_snapshot_id [OF assms] by blast
  then show ?thesis
    using cur quiet_timeline_loop [OF assms, of blake3 repo _ "[]" es w']
    by (cases r) (auto simp: repo_timeline_def bind_io_def)
qed

definition first_snapshot :: snapshot where
  "first_snapshot = snapshot_new (sample_id 9) [] 42 None (Some (bstr ''hello'')) provenance_initial"

definition timeline_world :: world where
  "timeline_world = ref_world [] (w_fs (snd (put_snapshot sum_hash (repo_store sample_repo) first_snapshot (ref_world []
     [([bstr ''.era''], DirNode), ([bstr ''.era'', bstr ''HEAD''], FileNode (head_contents branch_main)),
      ([bstr ''.era'', bstr ''refs''], DirNode), ([bstr ''.era'', bstr ''refs'', bstr ''heads''], DirNode),
      ([bstr ''.era'', bstr ''refs'', bstr ''heads'', bstr ''main''],
        FileNode (ref_contents (snapshot_id sum_hash first_snapshot)))]))))"

theorem timeline_exact_witness:
  "repo_timeline sum_hash sample_repo timeline_world =
     (Ok [\<lparr>te_snapshot_id = snapshot_id sum_hash first_snapshot, te_snapshot = first_snapshot\<rparr>], timeline_world)"
proof -
  let ?i = "snapshot_id sum_hash first_snapshot"
  have q: "quiet timeline_world" by (simp add: timeline_world_def)
  have "fst (current_snapshot_id sample_repo timeline_world) = Ok ?i" by code_simp
  then have cur: "current_snapshot_id sample_repo timeline_world = (Ok ?i, timeline_world)"
    using quiet_current_snapshot_id [OF q surjective_pairing] by (metis prod.collapse)
  have "resolve (w_fs timeline_world) (object_path (repo_store sample_repo) SnapshotObject ?i) =
      Ok (FileNode (snapshot_to_canonical_bytes first_snapshot))"
    "fits_memory (snapshot_to_canonical_bytes first_snapshot)" "wf_snapshot first_snapshot" by code_simp+
  then have "snapshot_at sum_hash sample_repo (w_fs timeline_world) ?i first_snapshot"
    using snapshot_decode_encode
    by (auto simp: snapshot_at_def has_content_def readable_def snapshot_id_def)
  moreover have "snap_parents first_snapshot = []" by (simp add: first_snapshot_def snapshot_new_def)
  ultimately show ?thesis
    using timeline_exact [OF q, of sum_hash sample_repo] cur by simp
qed

section \<open>Targets\<close>

lemma collect_matches_fold:
  assumes "distinct (map te_snapshot_id entries)" "sorted_wrt (<) (map fst m)"
    "fst ` set m \<inter> te_snapshot_id ` set entries = {}"
    "m' = fold (\<lambda>e m. if entry_matches target e then btree_insert (te_snapshot_id e) (te_snapshot e) m else m) entries m"
  shows "sorted_wrt (<) (map fst m') \<and>
    set m' = set m \<union> (\<lambda>e. (te_snapshot_id e, te_snapshot e)) ` set (filter (entry_matches target) entries)"
  using assms
proof (induction entries arbitrary: m)
  case (Cons e entries)
  let ?m = "if entry_matches target e then btree_insert (te_snapshot_id e) (te_snapshot e) m else m"
  have ins: "set (btree_insert k v m) = insert (k, v) (set m)" if "k \<notin> fst ` set m" for k :: object_id and v :: snapshot and m
    using that by (induction k v m rule: btree_insert.induct) auto
  have "sorted_wrt (<) (map fst ?m)" using Cons.prems(2) btree_insert_sorted by auto
  moreover have "fst ` set ?m \<inter> te_snapshot_id ` set entries = {}"
    using Cons.prems(1,3) by (auto simp: btree_insert_keys)
  ultimately have "sorted_wrt (<) (map fst m') \<and>
      set m' = set ?m \<union> (\<lambda>e. (te_snapshot_id e, te_snapshot e)) ` set (filter (entry_matches target) entries)"
    using Cons.IH [of ?m] Cons.prems(1,4) by simp
  moreover have "te_snapshot_id e \<notin> fst ` set m" using Cons.prems(3) by auto
  ultimately show ?case using ins by auto
qed simp

lemma hex_no_upper: "b \<in> set (to_hex i) \<Longrightarrow> \<not> (65 \<le> b \<and> b \<le> 70)"
proof -
  have "\<forall>n \<in> set [0..<16]. \<not> (65 \<le> hex_digit (word_of_nat n) \<and> hex_digit (word_of_nat n) \<le> 70)" by code_simp
  then have "\<not> (65 \<le> hex_digit v \<and> hex_digit v \<le> 70)" if "v < 16" for v
    using all_nibbles [of "\<lambda>v. \<not> (65 \<le> hex_digit v \<and> hex_digit v \<le> 70)" v] that by blast
  then show "b \<in> set (to_hex i) \<Longrightarrow> \<not> (65 \<le> b \<and> b \<le> 70)"
    using drop_bit_4_less and_15_less by (auto simp: to_hex_def hex_byte_def)
qed


definition sample_entries :: "timeline_entry list" where
  "sample_entries = [\<lparr>te_snapshot_id = sample_id 1, te_snapshot = first_snapshot\<rparr>,
     \<lparr>te_snapshot_id = sample_id 0xAB, te_snapshot = first_snapshot\<lparr>snap_message := None\<rparr>\<rparr>]"


end
