(* ===== verification/Capture_Cache.thy ===== *)
theory Capture_Cache
  imports Materializer "HOL-Library.Monad_Syntax"
begin

text \<open>
  \<open>crates/materialization/src/capture_cache.rs\<close>: the workspace-local cache of file fingerprints and of stored
  trees, with the byte format of its records. A \<open>HashMap\<close> is an association list with one entry for each key,
  a \<open>HashSet\<close> the list of its elements. A panic is the value \<open>None\<close>.

  The database library \<open>redb\<close> is a parameter: a record of the calls in use, on a state of databases that is kept
  beside the file system. A table is the ascending list of its keys with their values. An error message is a
  value of \<open>cache_error\<close> that has what the message shows.
\<close>

section \<open>Databases\<close>

datatype table_name = FilesTable | DirectoriesTable

type_synonym table = "(rstring \<times> bytes) list"

record tables =
  tb_files :: table
  tb_directories :: table

text \<open>
  \<open>db_create\<close> is \<open>Database::create\<close>, \<open>db_remove\<close> the removal of a database file, \<open>db_get\<close> and \<open>db_iter\<close> a read
  transaction with one lookup or one iteration (the entries it gives and the error that ends it, if any),
  \<open>db_begin_write\<close> and \<open>db_commit\<close> a write transaction with the tables it starts from and ends with.
\<close>

record 'd redb =
  db_create :: "path \<Rightarrow> 'd \<Rightarrow> (rstring + unit) \<times> 'd"
  db_remove :: "path \<Rightarrow> 'd \<Rightarrow> 'd"
  db_get :: "path \<Rightarrow> table_name \<Rightarrow> rstring \<Rightarrow> 'd \<Rightarrow> rstring + bytes option"
  db_iter :: "path \<Rightarrow> table_name \<Rightarrow> 'd \<Rightarrow> (rstring \<times> bytes) list \<times> rstring option"
  db_begin_write :: "path \<Rightarrow> 'd \<Rightarrow> rstring + tables"
  db_commit :: "path \<Rightarrow> tables \<Rightarrow> 'd \<Rightarrow> (rstring + unit) \<times> 'd"

section \<open>Records\<close>

definition FILE_RECORD_VERSION :: byte where
  "FILE_RECORD_VERSION = 2"

definition DIRECTORY_RECORD_VERSION :: byte where
  "DIRECTORY_RECORD_VERSION = 1"

datatype cache_error =
    KeyNotUtf8 path
  | KeyNotRelative path
  | KeyEmptySegment
  | RecordVersion byte
  | RecordBool byte
  | RecordTimeSign byte
  | RecordMissingDev
  | RecordMissingIno
  | RecordTrailingBytes
  | RecordLengthOverflow
  | RecordEndedEarly
  | RecordTree tree_error
  | RecordTreeId
  | CacheDatabase rstring
  | CachePanic

record file_fingerprint =
  fp_len :: u64
  fp_modified :: "system_time option"
  fp_dev :: u64
  fp_ino :: u64

text \<open>The length of a node that is not a regular file is not used.\<close>

definition fingerprint_from_metadata :: "node \<times> file_stamp \<Rightarrow> file_fingerprint" where
  "fingerprint_from_metadata m =
    (let (n, stamp) = m in
     \<lparr>fp_len = (case n of FileNode b \<Rightarrow> word_of_nat (length b) | _ \<Rightarrow> 0),
      fp_modified = stamp_modified stamp, fp_dev = stamp_dev stamp, fp_ino = stamp_ino stamp\<rparr>)"

definition fingerprint_from_parts ::
  "u64 \<Rightarrow> system_time option \<Rightarrow> u64 option \<Rightarrow> u64 option \<Rightarrow> cache_error + file_fingerprint" where
  "fingerprint_from_parts len modified dev ino =
     bind_result (ok_or RecordMissingDev dev) (\<lambda>dev.
     bind_result (ok_or RecordMissingIno ino) (\<lambda>ino.
     Ok \<lparr>fp_len = len, fp_modified = modified, fp_dev = dev, fp_ino = ino\<rparr>))"

record cached_file =
  cf_fingerprint :: file_fingerprint
  cf_object_id :: object_id
  cf_stored :: bool
  cf_stored_base_id :: "object_id option"

record cached_directory =
  cd_tree_id :: object_id
  cd_entries :: "tree_entry list"
  cd_stored :: bool

text \<open>\<open>CachedDirectoryTree\<close> has the same three fields.\<close>

type_synonym cached_directory_tree = cached_directory

record cached_file_hash =
  ch_object_id :: object_id
  ch_stored :: bool

record cached_file_lookup =
  cl_matching :: "cached_file_hash option"
  cl_stored_base_id :: "object_id option"

section \<open>Keys\<close>

definition path_matches :: "path \<Rightarrow> path \<Rightarrow> bool" where
  "path_matches p invalidated \<longleftrightarrow> invalidated = [] \<or> p = invalidated \<or> prefix invalidated p"

fun encode_parts :: "path \<Rightarrow> path \<Rightarrow> cache_error + rstring list" where
  "encode_parts p [] = Ok []"
| "encode_parts p (c # cs) =
    (if c = bstr ''.'' then encode_parts p cs
     else if c = bstr ''..'' then Err (KeyNotRelative p)
     else if \<not> utf8 c then Err (KeyNotUtf8 p)
     else bind_result (encode_parts p cs) (\<lambda>parts. Ok (c # parts)))"

fun join_parts :: "rstring list \<Rightarrow> rstring" where
  "join_parts [] = []"
| "join_parts [c] = c"
| "join_parts (c # cs) = c @ 47 # join_parts cs"

definition encode_key :: "path \<Rightarrow> cache_error + rstring" where
  "encode_key p = bind_result (encode_parts p p) (\<lambda>parts. Ok (join_parts parts))"

text \<open>\<open>value.split('/')\<close>\<close>

fun split_parts :: "rstring \<Rightarrow> rstring list" where
  "split_parts [] = [[]]"
| "split_parts (b # bs) =
    (if b = 47 then [] # split_parts bs
     else case split_parts bs of [] \<Rightarrow> [[b]] | c # cs \<Rightarrow> (b # c) # cs)"

text \<open>\<open>path.push(part)\<close> for one part after the other: paths compare by components, and a component \<open>.\<close> counts only
  at the start.\<close>

definition push_parts :: "rstring list \<Rightarrow> path" where
  "push_parts parts = take 1 parts @ filter (\<lambda>c. c \<noteq> bstr ''.'') (drop 1 parts)"

definition decode_key :: "rstring \<Rightarrow> cache_error + path" where
  "decode_key v =
    (if v = [] then Ok []
     else if [] \<in> set (split_parts v) then Err KeyEmptySegment
     else Ok (push_parts (split_parts v)))"

section \<open>Times\<close>

definition NANOS :: int where
  "NANOS = 1000000000"

definition format_time :: "system_time option \<Rightarrow> byte \<times> u64 \<times> u32" where
  "format_time time =
    (case time of
       None \<Rightarrow> (0, 0, 0)
     | Some t \<Rightarrow>
        if 0 \<le> t then (1, word_of_int (t div NANOS), word_of_int (t mod NANOS))
        else (2, word_of_int (- t div NANOS), word_of_int (- t mod NANOS)))"

text \<open>The times of a \<open>SystemTime\<close>: its seconds are an \<open>i64\<close>.\<close>

definition time_ok :: "system_time \<Rightarrow> bool" where
  "time_ok t \<longleftrightarrow> - (9223372036854775808 * NANOS) \<le> t \<and> t < 9223372036854775808 * NANOS"

text \<open>\<open>Duration::new\<close> panics when its seconds overflow, and so does a time that is out of range.\<close>

definition parse_time :: "byte \<Rightarrow> u64 \<Rightarrow> u32 \<Rightarrow> cache_error + system_time option" where
  "parse_time sign secs nanos =
    (let duration = uint secs * NANOS + uint nanos in
     if 18446744073709551616 * NANOS \<le> duration then Err CachePanic
     else if sign = 0 then Ok None
     else if sign = 1 then (if time_ok duration then Ok (Some duration) else Err CachePanic)
     else if sign = 2 then (if time_ok (- duration) then Ok (Some (- duration)) else Err CachePanic)
     else Err (RecordTimeSign sign))"

section \<open>Encoding\<close>

definition bool_byte :: "bool \<Rightarrow> byte" where
  "bool_byte b = (if b then 1 else 0)"

definition write_optional_u64 :: "u64 option \<Rightarrow> bytes" where
  "write_optional_u64 v = (case v of Some x \<Rightarrow> 1 # u64_to_be_bytes x | None \<Rightarrow> 0 # u64_to_be_bytes 0)"

definition write_optional_object_id :: "object_id option \<Rightarrow> bytes" where
  "write_optional_object_id v =
    (case v of Some i \<Rightarrow> 1 # as_bytes i | None \<Rightarrow> 0 # replicate OBJECT_ID_BYTES 0)"

definition encode_file :: "cached_file \<Rightarrow> bytes" where
  "encode_file f =
    (let (sign, secs, nanos) = format_time (fp_modified (cf_fingerprint f)) in
     [FILE_RECORD_VERSION, bool_byte (cf_stored f)] @ u64_to_be_bytes (fp_len (cf_fingerprint f)) @
     [sign] @ u64_to_be_bytes secs @ u32_to_be_bytes nanos @
     write_optional_u64 (Some (fp_dev (cf_fingerprint f))) @ write_optional_u64 (Some (fp_ino (cf_fingerprint f))) @
     as_bytes (cf_object_id f) @ write_optional_object_id (cf_stored_base_id f))"

definition encode_directory :: "hasher \<Rightarrow> cached_directory \<Rightarrow> (cache_error + bytes) option" where
  "encode_directory blake3 d =
    (case tree_new (cd_entries d) of
       Inl e \<Rightarrow> Some (Err (RecordTree e))
     | Inr tree \<Rightarrow> do {
         i \<leftarrow> tree_id blake3 tree;
         if i \<noteq> cd_tree_id d then Some (Err RecordTreeId)
         else do {
           tree_bytes \<leftarrow> tree_to_canonical_bytes tree;
           Some (Ok ([DIRECTORY_RECORD_VERSION, bool_byte (cd_stored d)] @ tree_bytes))
         }
       })"

section \<open>Decoding\<close>

definition cache_read_exact :: "nat \<Rightarrow> (cache_error, bytes) reader" where
  "cache_read_exact n c =
    (let end' = cur_offset c + n
     in if int end' \<ge> 18446744073709551616 then Err RecordLengthOverflow
        else if end' > length (cur_bytes c) then Err RecordEndedEarly
        else Ok (take n (drop (cur_offset c) (cur_bytes c)), c\<lparr>cur_offset := end'\<rparr>))"

definition cache_read_u8 :: "(cache_error, byte) reader" where
  "cache_read_u8 = read_byte_with cache_read_exact"

definition expect_version :: "byte \<Rightarrow> (cache_error, unit) reader" where
  "expect_version expected =
     bind_reader cache_read_u8 (\<lambda>actual.
       if actual = expected then return_reader () else fail_reader (RecordVersion actual))"

definition read_bool :: "(cache_error, bool) reader" where
  "read_bool =
     bind_reader cache_read_u8 (\<lambda>v.
       if v = 0 then return_reader False else if v = 1 then return_reader True else fail_reader (RecordBool v))"

definition cache_read_u32 :: "(cache_error, u32) reader" where
  "cache_read_u32 = read_u32_with cache_read_exact"

definition cache_read_u64 :: "(cache_error, u64) reader" where
  "cache_read_u64 = read_u64_with cache_read_exact"

definition read_optional_u64 :: "(cache_error, u64 option) reader" where
  "read_optional_u64 =
     bind_reader read_bool (\<lambda>present. bind_reader cache_read_u64 (\<lambda>v.
       return_reader (if present then Some v else None)))"

definition read_object_id :: "(cache_error, object_id) reader" where
  "read_object_id = bind_reader (cache_read_exact OBJECT_ID_BYTES) (\<lambda>bs. return_reader (ObjectId bs))"

definition read_optional_object_id :: "(cache_error, object_id option) reader" where
  "read_optional_object_id =
     bind_reader read_bool (\<lambda>present. bind_reader read_object_id (\<lambda>v.
       return_reader (if present then Some v else None)))"

definition finish :: "(cache_error, unit) reader" where
  "finish c = (if cursor_finished c then Ok ((), c) else Err RecordTrailingBytes)"

text \<open>The fields of a file record, in their order.\<close>

record file_fields =
  ff_stored :: bool
  ff_len :: u64
  ff_modified :: "system_time option"
  ff_dev :: "u64 option"
  ff_ino :: "u64 option"
  ff_object_id :: object_id
  ff_stored_base_id :: "object_id option"

definition read_file_fields :: "(cache_error, file_fields) reader" where
  "read_file_fields =
     bind_reader cache_read_u8 (\<lambda>version.
     if version \<noteq> 1 \<and> version \<noteq> FILE_RECORD_VERSION then fail_reader (RecordVersion version)
     else
       bind_reader read_bool (\<lambda>stored.
       bind_reader cache_read_u64 (\<lambda>len.
       bind_reader cache_read_u8 (\<lambda>sign.
       bind_reader cache_read_u64 (\<lambda>secs.
       bind_reader cache_read_u32 (\<lambda>nanos.
       bind_reader (result_reader (parse_time sign secs nanos)) (\<lambda>modified.
       bind_reader read_optional_u64 (\<lambda>dev.
       bind_reader read_optional_u64 (\<lambda>ino.
       bind_reader read_object_id (\<lambda>object_id.
       bind_reader (if version \<ge> 2 then read_optional_object_id else return_reader None) (\<lambda>stored_base_id.
       return_reader \<lparr>ff_stored = stored, ff_len = len, ff_modified = modified, ff_dev = dev, ff_ino = ino,
         ff_object_id = object_id, ff_stored_base_id = stored_base_id\<rparr>)))))))))))"

definition file_decoder :: "(cache_error, cached_file) reader" where
  "file_decoder =
     bind_reader read_file_fields (\<lambda>fields.
     bind_reader finish (\<lambda>_.
     bind_reader (result_reader
       (fingerprint_from_parts (ff_len fields) (ff_modified fields) (ff_dev fields) (ff_ino fields))) (\<lambda>fingerprint.
     return_reader \<lparr>cf_fingerprint = fingerprint, cf_object_id = ff_object_id fields, cf_stored = ff_stored fields,
       cf_stored_base_id = ff_stored_base_id fields\<rparr>)))"

definition or_panic :: "cache_error + 'a \<Rightarrow> (cache_error + 'a) option" where
  "or_panic r = (if r = Err CachePanic then None else Some r)"

definition decode_file :: "bytes \<Rightarrow> (cache_error + cached_file) option" where
  "decode_file bytes = or_panic (bind_result (file_decoder (cursor_new bytes)) (\<lambda>(f, c). Ok f))"

definition decode_directory :: "hasher \<Rightarrow> bytes \<Rightarrow> (cache_error + cached_directory) option" where
  "decode_directory blake3 bytes =
    (case bind_reader (expect_version DIRECTORY_RECORD_VERSION) (\<lambda>_. read_bool) (cursor_new bytes) of
       Inl e \<Rightarrow> Some (Err e)
     | Inr (flag, c) \<Rightarrow>
        (case tree_from_canonical_bytes (remaining c) of
           Inl e \<Rightarrow> Some (Err (RecordTree e))
         | Inr tree \<Rightarrow> do {
             i \<leftarrow> tree_id blake3 tree;
             Some (Ok \<lparr>cd_tree_id = i, cd_entries = tree_entries tree, cd_stored = flag\<rparr>)
           }))"

section \<open>The cache\<close>

record capture_cache =
  cc_files :: "(path \<times> cached_file) list"
  cc_directories :: "(path \<times> cached_directory) list"
  cc_dirty_files :: "path list"
  cc_dirty_directories :: "path list"
  cc_invalidations :: "path list"
  cc_backend :: "path option"
  cc_loaded_all :: bool

definition capture_cache_default :: capture_cache where
  "capture_cache_default =
     \<lparr>cc_files = [], cc_directories = [], cc_dirty_files = [], cc_dirty_directories = [], cc_invalidations = [],
      cc_backend = None, cc_loaded_all = False\<rparr>"

definition hash_insert :: "'k \<Rightarrow> 'v \<Rightarrow> ('k \<times> 'v) list \<Rightarrow> ('k \<times> 'v) list" where
  "hash_insert k v m = (k, v) # filter (\<lambda>(k', _). k' \<noteq> k) m"

definition retain_keys :: "('k \<Rightarrow> bool) \<Rightarrow> ('k \<times> 'v) list \<Rightarrow> ('k \<times> 'v) list" where
  "retain_keys P m = filter (\<lambda>(k, _). P k) m"

definition is_invalidated_path :: "capture_cache \<Rightarrow> path \<Rightarrow> bool" where
  "is_invalidated_path c p \<longleftrightarrow> list_ex (path_matches p) (cc_invalidations c)"

text \<open>A record of the database that cannot be read or decoded is a miss.\<close>

definition read_cached_file :: "'d redb \<Rightarrow> 'd \<Rightarrow> capture_cache \<Rightarrow> path \<Rightarrow> cached_file option option" where
  "read_cached_file db d c p =
    (case cc_backend c of
       None \<Rightarrow> Some None
     | Some backend \<Rightarrow>
        (case encode_key p of
           Inl _ \<Rightarrow> Some None
         | Inr key \<Rightarrow>
            (case db_get db backend FilesTable key d of
               Inl _ \<Rightarrow> Some None
             | Inr None \<Rightarrow> Some None
             | Inr (Some v) \<Rightarrow> do {
                 r \<leftarrow> decode_file v;
                 Some (case r of Inl _ \<Rightarrow> None | Inr f \<Rightarrow> Some f)
               })))"

definition read_cached_directory ::
  "hasher \<Rightarrow> 'd redb \<Rightarrow> 'd \<Rightarrow> capture_cache \<Rightarrow> path \<Rightarrow> cached_directory option option" where
  "read_cached_directory blake3 db d c p =
    (case cc_backend c of
       None \<Rightarrow> Some None
     | Some backend \<Rightarrow>
        (case encode_key p of
           Inl _ \<Rightarrow> Some None
         | Inr key \<Rightarrow>
            (case db_get db backend DirectoriesTable key d of
               Inl _ \<Rightarrow> Some None
             | Inr None \<Rightarrow> Some None
             | Inr (Some v) \<Rightarrow> do {
                 r \<leftarrow> decode_directory blake3 v;
                 Some (case r of Inl _ \<Rightarrow> None | Inr f \<Rightarrow> Some f)
               })))"

text \<open>An operation on the cache gives a value and the cache after it, or panics.\<close>

type_synonym 'a cache_op = "capture_cache \<Rightarrow> ('a \<times> capture_cache) option"

definition current_file :: "'d redb \<Rightarrow> 'd \<Rightarrow> path \<Rightarrow> cached_file option cache_op" where
  "current_file db d p c =
    (case map_of (cc_files c) p of
       Some f \<Rightarrow> Some (Some f, c)
     | None \<Rightarrow>
        if is_invalidated_path c p then Some (None, c)
        else do {
          found \<leftarrow> read_cached_file db d c p;
          Some (found, case found of None \<Rightarrow> c | Some f \<Rightarrow> c\<lparr>cc_files := hash_insert p f (cc_files c)\<rparr>)
        })"

definition current_directory :: "hasher \<Rightarrow> 'd redb \<Rightarrow> 'd \<Rightarrow> path \<Rightarrow> cached_directory option cache_op" where
  "current_directory blake3 db d p c =
    (case map_of (cc_directories c) p of
       Some f \<Rightarrow> Some (Some f, c)
     | None \<Rightarrow>
        if is_invalidated_path c p then Some (None, c)
        else do {
          found \<leftarrow> read_cached_directory blake3 db d c p;
          Some (found,
            case found of None \<Rightarrow> c | Some f \<Rightarrow> c\<lparr>cc_directories := hash_insert p f (cc_directories c)\<rparr>)
        })"

fun load_files :: "(rstring \<times> bytes) list \<Rightarrow> (cache_error + unit) cache_op" where
  "load_files [] c = Some (Ok (), c)"
| "load_files ((key, v) # es) c =
    (case decode_key key of
       Inl e \<Rightarrow> Some (Err e, c)
     | Inr p \<Rightarrow>
        if map_of (cc_files c) p \<noteq> None \<or> is_invalidated_path c p then load_files es c
        else do {
          r \<leftarrow> decode_file v;
          case r of
            Inl e \<Rightarrow> Some (Err e, c)
          | Inr f \<Rightarrow> load_files es (c\<lparr>cc_files := hash_insert p f (cc_files c)\<rparr>)
        })"

fun load_directories :: "hasher \<Rightarrow> (rstring \<times> bytes) list \<Rightarrow> (cache_error + unit) cache_op" where
  "load_directories blake3 [] c = Some (Ok (), c)"
| "load_directories blake3 ((key, v) # es) c =
    (case decode_key key of
       Inl e \<Rightarrow> Some (Err e, c)
     | Inr p \<Rightarrow>
        if map_of (cc_directories c) p \<noteq> None \<or> is_invalidated_path c p then load_directories blake3 es c
        else do {
          r \<leftarrow> decode_directory blake3 v;
          case r of
            Inl e \<Rightarrow> Some (Err e, c)
          | Inr f \<Rightarrow> load_directories blake3 es (c\<lparr>cc_directories := hash_insert p f (cc_directories c)\<rparr>)
        })"

text \<open>The error that ends an iteration comes after the entries before it.\<close>

definition load_table ::
  "((rstring \<times> bytes) list \<Rightarrow> (cache_error + unit) cache_op) \<Rightarrow> (rstring \<times> bytes) list \<times> rstring option \<Rightarrow>
    (cache_error + unit) cache_op" where
  "load_table load it c = do {
     (r, c') \<leftarrow> load (fst it) c;
     Some (case (r, snd it) of (Inr _, Some e) \<Rightarrow> Err (CacheDatabase e) | _ \<Rightarrow> r, c')
   }"

definition load_all :: "hasher \<Rightarrow> 'd redb \<Rightarrow> 'd \<Rightarrow> (cache_error + unit) cache_op" where
  "load_all blake3 db d c =
    (if cc_loaded_all c then Some (Ok (), c)
     else case cc_backend c of
       None \<Rightarrow> Some (Ok (), c\<lparr>cc_loaded_all := True\<rparr>)
     | Some backend \<Rightarrow> do {
         (r, c1) \<leftarrow> load_table load_files (db_iter db backend FilesTable d) c;
         case r of
           Inl e \<Rightarrow> Some (Err e, c1)
         | Inr _ \<Rightarrow> do {
             (r, c2) \<leftarrow> load_table (load_directories blake3) (db_iter db backend DirectoriesTable d) c1;
             case r of
               Inl e \<Rightarrow> Some (Err e, c2)
             | Inr _ \<Rightarrow> Some (Ok (), c2\<lparr>cc_loaded_all := True\<rparr>)
           }
       })"

definition drop_bulk_loaded_records :: "capture_cache \<Rightarrow> capture_cache" where
  "drop_bulk_loaded_records c =
    (if cc_backend c = None \<or> \<not> cc_loaded_all c then c
     else c\<lparr>cc_files := retain_keys (\<lambda>p. p \<in> set (cc_dirty_files c)) (cc_files c),
            cc_directories := retain_keys (\<lambda>p. p \<in> set (cc_dirty_directories c)) (cc_directories c),
            cc_loaded_all := False\<rparr>)"

definition file_lookup :: "'d redb \<Rightarrow> 'd \<Rightarrow> path \<Rightarrow> file_fingerprint \<Rightarrow> cached_file_lookup cache_op" where
  "file_lookup db d p fingerprint c = do {
     (found, c') \<leftarrow> current_file db d p c;
     Some (case found of
         None \<Rightarrow> \<lparr>cl_matching = None, cl_stored_base_id = None\<rparr>
       | Some entry \<Rightarrow>
           \<lparr>cl_matching =
              (if cf_fingerprint entry = fingerprint
               then Some \<lparr>ch_object_id = cf_object_id entry, ch_stored = cf_stored entry\<rparr> else None),
            cl_stored_base_id =
              (if cf_stored entry then Some (cf_object_id entry) else cf_stored_base_id entry)\<rparr>, c')
   }"

definition get_cached_file :: "'d redb \<Rightarrow> 'd \<Rightarrow> path \<Rightarrow> file_fingerprint \<Rightarrow> cached_file_hash option cache_op" where
  "get_cached_file db d p fingerprint c = do {
     (found, c') \<leftarrow> file_lookup db d p fingerprint c;
     Some (cl_matching found, c')
   }"

definition next_file :: "cached_file option \<Rightarrow> file_fingerprint \<Rightarrow> object_id \<Rightarrow> bool \<Rightarrow> cached_file" where
  "next_file previous fingerprint i is_stored =
    (let keep = is_stored \<or> (case previous of None \<Rightarrow> False | Some e \<Rightarrow> cf_object_id e = i \<and> cf_stored e) in
     \<lparr>cf_fingerprint = fingerprint, cf_object_id = i, cf_stored = keep,
      cf_stored_base_id =
        (if keep then None
         else case previous of
           None \<Rightarrow> None
         | Some e \<Rightarrow> if cf_stored e then Some (cf_object_id e) else cf_stored_base_id e)\<rparr>)"

definition insert_file :: "'d redb \<Rightarrow> 'd \<Rightarrow> path \<Rightarrow> file_fingerprint \<Rightarrow> object_id \<Rightarrow> bool \<Rightarrow> bool cache_op" where
  "insert_file db d p fingerprint i is_stored c = do {
     (previous, c1) \<leftarrow> current_file db d p c;
     let entry = next_file previous fingerprint i is_stored;
         c2 = c1\<lparr>cc_files := hash_insert p entry (cc_files c1)\<rparr>
     in if previous = Some entry then Some (False, c2)
        else Some (True, c2\<lparr>cc_dirty_files := List.insert p (cc_dirty_files c2)\<rparr>)
   }"

text \<open>The lookup of a directory gives its tree, its entries and whether the tree is stored.\<close>

definition get_directory :: "hasher \<Rightarrow> 'd redb \<Rightarrow> 'd \<Rightarrow> path \<Rightarrow> cached_directory_tree option cache_op" where
  "get_directory blake3 db d p = current_directory blake3 db d p"

definition insert_directory ::
  "hasher \<Rightarrow> 'd redb \<Rightarrow> 'd \<Rightarrow> path \<Rightarrow> object_id \<Rightarrow> tree_entry list \<Rightarrow> bool \<Rightarrow> bool cache_op" where
  "insert_directory blake3 db d p i entries is_stored c = do {
     (previous, c1) \<leftarrow> current_directory blake3 db d p c;
     let keep = is_stored \<or> (case previous of None \<Rightarrow> False | Some e \<Rightarrow> cd_tree_id e = i \<and> cd_stored e);
         entry = \<lparr>cd_tree_id = i, cd_entries = entries, cd_stored = keep\<rparr>;
         c2 = c1\<lparr>cc_directories := hash_insert p entry (cc_directories c1)\<rparr>
     in if previous = Some entry then Some (False, c2)
        else Some (True, c2\<lparr>cc_dirty_directories := List.insert p (cc_dirty_directories c2)\<rparr>)
   }"

definition update_directory_entries ::
  "hasher \<Rightarrow> 'd redb \<Rightarrow> 'd \<Rightarrow> path \<Rightarrow> tree_entry list \<Rightarrow> bool cache_op" where
  "update_directory_entries blake3 db d p entries c = do {
     (found, c1) \<leftarrow> current_directory blake3 db d p c;
     case found of
       None \<Rightarrow> Some (False, c1)
     | Some previous \<Rightarrow>
        if cd_entries previous = entries \<and> \<not> cd_stored previous
        then Some (False, c1\<lparr>cc_directories := hash_insert p previous (cc_directories c1)\<rparr>)
        else (case tree_new entries of
            Inl _ \<Rightarrow> Some (False, c1)
          | Inr tree \<Rightarrow> do {
              i \<leftarrow> tree_id blake3 tree;
              let entry = \<lparr>cd_tree_id = i, cd_entries = tree_entries tree, cd_stored = False\<rparr>;
                  c2 = c1\<lparr>cc_directories := hash_insert p entry (cc_directories c1)\<rparr>
              in Some (True, c2\<lparr>cc_dirty_directories := List.insert p (cc_dirty_directories c2)\<rparr>)
            })
   }"

section \<open>Invalidation\<close>

definition invalidate_in_memory :: "path \<Rightarrow> capture_cache \<Rightarrow> bool \<times> capture_cache" where
  "invalidate_in_memory p c =
    (if p = [] then
       (cc_files c \<noteq> [] \<or> cc_directories c \<noteq> [], c\<lparr>cc_files := [], cc_directories := []\<rparr>)
     else
       let files = retain_keys (\<lambda>q. \<not> path_matches q p) (cc_files c);
           directories = retain_keys (\<lambda>q. \<not> path_matches q p) (cc_directories c)
       in (length files \<noteq> length (cc_files c) \<or> length directories \<noteq> length (cc_directories c),
           c\<lparr>cc_files := files, cc_directories := directories\<rparr>))"

definition invalidate_path :: "path \<Rightarrow> capture_cache \<Rightarrow> bool \<times> capture_cache" where
  "invalidate_path p c =
    (if cc_backend c = None then invalidate_in_memory p c
     else (True, c\<lparr>
       cc_files := retain_keys (\<lambda>q. \<not> path_matches q p) (cc_files c),
       cc_directories := retain_keys (\<lambda>q. \<not> path_matches q p) (cc_directories c),
       cc_dirty_files := filter (\<lambda>q. \<not> path_matches q p) (cc_dirty_files c),
       cc_dirty_directories := filter (\<lambda>q. \<not> path_matches q p) (cc_dirty_directories c),
       cc_invalidations := cc_invalidations c @ [p]\<rparr>))"

section \<open>Writing back\<close>

definition remove_key :: "rstring \<Rightarrow> table \<Rightarrow> table" where
  "remove_key key t = filter (\<lambda>(k, _). k \<noteq> key) t"

definition remove_path_from_table :: "path \<Rightarrow> table \<Rightarrow> cache_error + table" where
  "remove_path_from_table p t =
     bind_result (encode_key p) (\<lambda>key.
     let t1 = remove_key key t;
         keys = (if key \<noteq> [] then takeWhile (starts_with (key @ [47])) (filter (\<lambda>k. key @ [47] \<le> k) (map fst t1))
                 else map fst t1)
     in Ok (fold remove_key keys t1))"

fun remove_paths :: "path list \<Rightarrow> table \<Rightarrow> cache_error + table" where
  "remove_paths [] t = Ok t"
| "remove_paths (p # ps) t = bind_result (remove_path_from_table p t) (remove_paths ps)"

fun write_files :: "(path \<times> cached_file) list \<Rightarrow> path list \<Rightarrow> table \<Rightarrow> cache_error + table" where
  "write_files files [] t = Ok t"
| "write_files files (p # ps) t =
     bind_result (encode_key p) (\<lambda>key.
     write_files files ps
       (case map_of files p of Some f \<Rightarrow> btree_insert key (encode_file f) t | None \<Rightarrow> remove_key key t))"

fun write_directories ::
  "hasher \<Rightarrow> (path \<times> cached_directory) list \<Rightarrow> path list \<Rightarrow> table \<Rightarrow> (cache_error + table) option" where
  "write_directories blake3 dirs [] t = Some (Ok t)"
| "write_directories blake3 dirs (p # ps) t =
    (case encode_key p of
       Inl e \<Rightarrow> Some (Err e)
     | Inr key \<Rightarrow>
        (case map_of dirs p of
           None \<Rightarrow> write_directories blake3 dirs ps (remove_key key t)
         | Some dir \<Rightarrow> do {
             r \<leftarrow> encode_directory blake3 dir;
             case r of
               Inl e \<Rightarrow> Some (Err e)
             | Inr v \<Rightarrow> write_directories blake3 dirs ps (btree_insert key v t)
           }))"

definition flush_tables :: "hasher \<Rightarrow> capture_cache \<Rightarrow> tables \<Rightarrow> (cache_error + tables) option" where
  "flush_tables blake3 c t =
    (case bind_result (remove_paths (cc_invalidations c) (tb_files t)) (write_files (cc_files c) (cc_dirty_files c)) of
       Inl e \<Rightarrow> Some (Err e)
     | Inr files \<Rightarrow>
        (case remove_paths (cc_invalidations c) (tb_directories t) of
           Inl e \<Rightarrow> Some (Err e)
         | Inr dirs \<Rightarrow> do {
             r \<leftarrow> write_directories blake3 (cc_directories c) (cc_dirty_directories c) dirs;
             Some (bind_result r (\<lambda>dirs. Ok \<lparr>tb_files = files, tb_directories = dirs\<rparr>))
           }))"

definition cache_clean :: "capture_cache \<Rightarrow> capture_cache" where
  "cache_clean c = c\<lparr>cc_invalidations := [], cc_dirty_files := [], cc_dirty_directories := []\<rparr>"

definition cache_flush ::
  "hasher \<Rightarrow> 'd redb \<Rightarrow> capture_cache \<Rightarrow> 'd \<Rightarrow> ((cache_error + unit) \<times> capture_cache \<times> 'd) option" where
  "cache_flush blake3 db c d =
    (case cc_backend c of
       None \<Rightarrow> Some (Ok (), cache_clean c, d)
     | Some backend \<Rightarrow>
        if cc_invalidations c = [] \<and> cc_dirty_files c = [] \<and> cc_dirty_directories c = [] then Some (Ok (), c, d)
        else (case db_begin_write db backend d of
            Inl e \<Rightarrow> Some (Err (CacheDatabase e), c, d)
          | Inr t \<Rightarrow> do {
              r \<leftarrow> flush_tables blake3 c t;
              case r of
                Inl e \<Rightarrow> Some (Err e, c, d)
              | Inr t' \<Rightarrow>
                 (case db_commit db backend t' d of
                    (Inl e, d') \<Rightarrow> Some (Err (CacheDatabase e), c, d')
                  | (Inr _, d') \<Rightarrow> Some (Ok (), cache_clean c, d'))
            }))"

end
