(* ===== verification/Filesystem_Materializer.thy ===== *)
theory Filesystem_Materializer
  imports Capture_Cache "HOL-Library.List_Lexorder"
begin

text \<open>
  \<open>crates/materialization/src/filesystem.rs\<close>: the materializer that copies between a working directory and the
  object store, with its capture cache. Every method is a computation on a state that has the world, the
  databases, the materializer with its cache, and the accumulators a method passes by mutable reference.
  A call either fails with a \<open>MaterializationError\<close> or, where the source panics, aborts.

  The recursion over directories and trees has a budget of one more than the number of files and directories
  there are: a deeper path cannot be opened. A working directory that nobody else deepens never uses it up, and
  neither does a stored tree unless the hash function has a cycle.
\<close>

section \<open>The state\<close>

record fs_materializer =
  fm_options :: capture_options
  fm_cache :: capture_cache
  fm_cache_path :: "path option"
  fm_cache_loaded :: bool
  fm_cache_dirty :: bool

definition fm_with_options :: "capture_options \<Rightarrow> fs_materializer" where
  "fm_with_options options =
     \<lparr>fm_options = options, fm_cache = capture_cache_default, fm_cache_path = None, fm_cache_loaded = True,
      fm_cache_dirty = False\<rparr>"

definition fm_new :: fs_materializer where
  "fm_new = fm_with_options capture_options_default"

definition fm_with_options_and_cache_path :: "capture_options \<Rightarrow> path \<Rightarrow> fs_materializer" where
  "fm_with_options_and_cache_path options cache_path =
     \<lparr>fm_options = options, fm_cache = capture_cache_default, fm_cache_path = Some cache_path,
      fm_cache_loaded = False, fm_cache_dirty = False\<rparr>"

definition fm_with_cache_path :: "path \<Rightarrow> fs_materializer" where
  "fm_with_cache_path cache_path = fm_with_options_and_cache_path capture_options_default cache_path"

text \<open>\<open>ms_open\<close>: the databases that the process has open, its registry.\<close>

record 'd mat_state =
  ms_world :: world
  ms_db :: 'd
  ms_open :: "path list"
  ms_fm :: fs_materializer
  ms_capture :: capture_stats
  ms_scan :: tree_scan_stats
  ms_written :: materialize_stats
  ms_issues :: "capture_issue list"
  ms_changes :: "tree_change list"

datatype mat_abort = MatFail materialization_error | MatPanic

type_synonym ('d, 'a) fm_io = "('d mat_state, mat_abort, 'a) sio"

definition gets :: "('s \<Rightarrow> 'a) \<Rightarrow> ('s, 'e, 'a) sio" where
  "gets f s = (Ok (f s), s)"

definition modifies :: "('s \<Rightarrow> 's) \<Rightarrow> ('s, 'e, unit) sio" where
  "modifies f s = (Ok (), f s)"

definition try_world :: "('e, 'a) io \<Rightarrow> ('d, 'e + 'a) fm_io" where
  "try_world m s = (case m (ms_world s) of (r, w) \<Rightarrow> (Ok r, s\<lparr>ms_world := w\<rparr>))"

definition on_world :: "('e \<Rightarrow> materialization_error) \<Rightarrow> ('e, 'a) io \<Rightarrow> ('d, 'a) fm_io" where
  "on_world f m = bind_io (try_world m) (\<lambda>r. result_io (map_err (\<lambda>e. MatFail (f e)) r))"

definition on_cache :: "('d \<Rightarrow> 'a cache_op) \<Rightarrow> ('d, 'a) fm_io" where
  "on_cache f s =
    (case f (ms_db s) (fm_cache (ms_fm s)) of
       None \<Rightarrow> (Err MatPanic, s)
     | Some (x, c) \<Rightarrow> (Ok x, s\<lparr>ms_fm := (ms_fm s)\<lparr>fm_cache := c\<rparr>\<rparr>))"

definition set_dirty :: "bool \<Rightarrow> ('d, unit) fm_io" where
  "set_dirty b = modifies (\<lambda>s. s\<lparr>ms_fm := (ms_fm s)\<lparr>fm_cache_dirty := b\<rparr>\<rparr>)"

text \<open>\<open>if cache.operation(..) { self.cache_dirty.store(true) }\<close>\<close>

definition cache_update :: "('d \<Rightarrow> bool cache_op) \<Rightarrow> ('d, unit) fm_io" where
  "cache_update f = bind_io (on_cache f) (\<lambda>changed. if changed then set_dirty True else return_io ())"

section \<open>The database of the cache\<close>

text \<open>Messages are only logged, so a failure to open is \<open>None\<close>.\<close>

definition initialize_database :: "'d redb \<Rightarrow> path \<Rightarrow> 'd \<Rightarrow> path option \<times> 'd" where
  "initialize_database db p d =
    (case db_begin_write db p d of
       Inl _ \<Rightarrow> (None, d)
     | Inr t \<Rightarrow> (case db_commit db p t d of (Inl _, d') \<Rightarrow> (None, d') | (Inr _, d') \<Rightarrow> (Some p, d')))"

definition create_database :: "'d redb \<Rightarrow> path \<Rightarrow> 'd \<Rightarrow> path option \<times> 'd" where
  "create_database db p d =
    (case db_create db p d of
       (Inr _, d1) \<Rightarrow> initialize_database db p d1
     | (Inl _, d1) \<Rightarrow>
        (case db_create db p (db_remove db p d1) of
           (Inl _, d2) \<Rightarrow> (None, d2)
         | (Inr _, d2) \<Rightarrow> initialize_database db p d2))"

definition open_database :: "'d redb \<Rightarrow> path \<Rightarrow> ('d, path option) fm_io" where
  "open_database db p =
     bind_io (gets ms_open) (\<lambda>registry.
     if p \<in> set registry then return_io (Some p)
     else
       bind_io (if p = [] then return_io (Ok ()) else try_world (create_dir_all (butlast p))) (\<lambda>r.
       case r of
         Inl _ \<Rightarrow> return_io None
       | Inr _ \<Rightarrow>
          bind_io (gets (\<lambda>s. create_database db p (ms_db s))) (\<lambda>(opened, d).
          bind_io (modifies (\<lambda>s. s\<lparr>ms_db := d\<rparr>)) (\<lambda>_.
          bind_io (if opened = None then return_io ()
                   else modifies (\<lambda>s. s\<lparr>ms_open := p # ms_open s\<rparr>)) (\<lambda>_.
          return_io opened)))))"

definition capture_cache_load :: "'d redb \<Rightarrow> path \<Rightarrow> ('d, capture_cache) fm_io" where
  "capture_cache_load db p =
     bind_io (open_database db p) (\<lambda>opened.
     return_io (capture_cache_default\<lparr>cc_backend := opened\<rparr>))"

definition ensure_cache_loaded :: "'d redb \<Rightarrow> ('d, unit) fm_io" where
  "ensure_cache_loaded db =
     bind_io (gets ms_fm) (\<lambda>fm.
     if fm_cache_loaded fm then return_io ()
     else case fm_cache_path fm of
       None \<Rightarrow> modifies (\<lambda>s. s\<lparr>ms_fm := (ms_fm s)\<lparr>fm_cache_loaded := True\<rparr>\<rparr>)
     | Some p \<Rightarrow>
        bind_io (capture_cache_load db p) (\<lambda>loaded.
        modifies (\<lambda>s. s\<lparr>ms_fm := (ms_fm s)\<lparr>fm_cache_loaded := True, fm_cache := loaded, fm_cache_dirty := False\<rparr>\<rparr>)))"

definition flush_cache :: "hasher \<Rightarrow> 'd redb \<Rightarrow> ('d, cache_error + unit) fm_io" where
  "flush_cache blake3 db s =
    (case cache_flush blake3 db (fm_cache (ms_fm s)) (ms_db s) of
       None \<Rightarrow> (Err MatPanic, s)
     | Some (r, c, d) \<Rightarrow> (Ok r, s\<lparr>ms_db := d, ms_fm := (ms_fm s)\<lparr>fm_cache := c\<rparr>\<rparr>))"

definition save_cache_if_dirty :: "hasher \<Rightarrow> 'd redb \<Rightarrow> ('d, unit) fm_io" where
  "save_cache_if_dirty blake3 db =
     bind_io (gets ms_fm) (\<lambda>fm.
     if fm_cache_path fm = None then return_io ()
     else
       bind_io (set_dirty False) (\<lambda>_.
       if \<not> fm_cache_dirty fm then return_io ()
       else
         bind_io (flush_cache blake3 db) (\<lambda>r.
         case r of Inl _ \<Rightarrow> set_dirty True | Inr _ \<Rightarrow> return_io ())))"

definition load_all_cache_records :: "hasher \<Rightarrow> 'd redb \<Rightarrow> ('d, unit) fm_io" where
  "load_all_cache_records blake3 db = bind_io (on_cache (load_all blake3 db)) (\<lambda>_. return_io ())"

definition drop_bulk_loaded_cache_records :: "('d, unit) fm_io" where
  "drop_bulk_loaded_cache_records =
     modifies (\<lambda>s. s\<lparr>ms_fm := (ms_fm s)\<lparr>fm_cache := drop_bulk_loaded_records (fm_cache (ms_fm s))\<rparr>\<rparr>)"

fun invalidate_paths :: "path list \<Rightarrow> ('d, unit) fm_io" where
  "invalidate_paths [] = return_io ()"
| "invalidate_paths (p # ps) =
     bind_io (cache_update (\<lambda>d c. Some (invalidate_path p c))) (\<lambda>_. invalidate_paths ps)"

definition cached_file_id :: "'d redb \<Rightarrow> path \<Rightarrow> file_fingerprint \<Rightarrow> ('d, cached_file_hash option) fm_io" where
  "cached_file_id db p fingerprint = on_cache (\<lambda>d. get_cached_file db d p fingerprint)"

definition cached_file_lookup_of :: "'d redb \<Rightarrow> path \<Rightarrow> file_fingerprint \<Rightarrow> ('d, cached_file_lookup) fm_io" where
  "cached_file_lookup_of db p fingerprint = on_cache (\<lambda>d. file_lookup db d p fingerprint)"

definition store_cached_file_id :: "'d redb \<Rightarrow> path \<Rightarrow> file_fingerprint \<Rightarrow> object_id \<Rightarrow> bool \<Rightarrow> ('d, unit) fm_io" where
  "store_cached_file_id db p fingerprint i is_stored = cache_update (\<lambda>d. insert_file db d p fingerprint i is_stored)"

definition cached_directory_of :: "hasher \<Rightarrow> 'd redb \<Rightarrow> path \<Rightarrow> ('d, cached_directory_tree option) fm_io" where
  "cached_directory_of blake3 db p = on_cache (\<lambda>d. get_directory blake3 db d p)"

definition store_cached_directory ::
  "hasher \<Rightarrow> 'd redb \<Rightarrow> path \<Rightarrow> object_id \<Rightarrow> tree_entry list \<Rightarrow> bool \<Rightarrow> ('d, unit) fm_io" where
  "store_cached_directory blake3 db p i entries is_stored =
     cache_update (\<lambda>d. insert_directory blake3 db d p i entries is_stored)"

definition store_cached_directory_entries :: "hasher \<Rightarrow> 'd redb \<Rightarrow> path \<Rightarrow> tree_entry list \<Rightarrow> ('d, unit) fm_io" where
  "store_cached_directory_entries blake3 db p entries =
     cache_update (\<lambda>d. update_directory_entries blake3 db d p entries)"

section \<open>Directories\<close>

datatype file_type = TypeFile | TypeDir | TypeSymlink | TypeOther

definition node_type :: "node \<Rightarrow> file_type" where
  "node_type n =
    (case n of FileNode _ \<Rightarrow> TypeFile | DirNode \<Rightarrow> TypeDir | SymlinkNode \<Rightarrow> TypeSymlink | OtherNode \<Rightarrow> TypeOther)"

record directory_entry =
  de_name :: rstring
  de_path :: path
  de_relative_path :: path
  de_type :: file_type

definition ensure_capture_root :: "path \<Rightarrow> unit mat_io" where
  "ensure_capture_root root =
     bind_io (map_err_io (\<lambda>e. if e = NotFound then MatRootMissing root else MatIo root e) (file_metadata root)) (\<lambda>n.
     if node_type n = TypeSymlink then fail_io (SymlinkUnsupported root)
     else if node_type n \<noteq> TypeDir then fail_io (MatRootNotDirectory root)
     else return_io ())"

definition join_relative :: "path \<Rightarrow> rstring \<Rightarrow> path" where
  "join_relative parent name = parent @ [name]"

fun read_entries :: "path \<Rightarrow> path \<Rightarrow> (rstring \<times> node) list \<Rightarrow> directory_entry list mat_io" where
  "read_entries dir rel [] = bind_io (map_err_io (MatIo dir) dir_step) (\<lambda>_. return_io [])"
| "read_entries dir rel ((name, n) # es) =
     bind_io (map_err_io (MatIo dir) dir_step) (\<lambda>_.
     bind_io (map_err_io (MatIo (dir @ [name])) dir_step) (\<lambda>_.
     if \<not> utf8 name then fail_io (PathNotUtf8 (dir @ [name]))
     else
       bind_io (read_entries dir rel es) (\<lambda>entries.
       return_io (\<lparr>de_name = name, de_path = dir @ [name], de_relative_path = join_relative rel name,
         de_type = node_type n\<rparr> # entries))))"

definition read_directory_entries :: "path \<Rightarrow> path \<Rightarrow> directory_entry list mat_io" where
  "read_directory_entries dir rel =
     bind_io (map_err_io (MatIo dir) (read_dir dir)) (\<lambda>listing.
     bind_io (read_entries dir rel listing) (\<lambda>entries.
     return_io (sort_key de_name entries)))"

definition should_skip_entry :: "capture_options \<Rightarrow> directory_entry \<Rightarrow> bool" where
  "should_skip_entry options e \<longleftrightarrow>
     de_name e = bstr ''.era'' \<or> de_type e = TypeDir \<and> excludes_directory_name options (de_name e)"

definition invalid_entry :: "path \<Rightarrow> tree_error + 'a \<Rightarrow> ('d, 'a) fm_io" where
  "invalid_entry p r = result_io (map_err (\<lambda>e. MatFail (InvalidTreeEntry p e)) r)"

definition or_abort :: "'a option \<Rightarrow> ('d, 'a) fm_io" where
  "or_abort x = result_io (ok_or MatPanic x)"

text \<open>\<open>tree.id()\<close> panics on lengths above \<open>u32::MAX\<close> and on bytes that do not fit a vector.\<close>

definition tree_id_io :: "hasher \<Rightarrow> tree \<Rightarrow> ('d, object_id) fm_io" where
  "tree_id_io blake3 t =
    (case tree_to_canonical_bytes t of
       Some b \<Rightarrow> if fits_memory b then return_io (from_content blake3 b) else fail_io MatPanic
     | None \<Rightarrow> fail_io MatPanic)"

text \<open>\<open>object_store.put_tree(&tree).await?\<close>\<close>

definition put_tree_io :: "hasher \<Rightarrow> local_object_store \<Rightarrow> tree \<Rightarrow> ('d, object_id) fm_io" where
  "put_tree_io blake3 st t = bind_io (or_abort (put_tree blake3 st t)) (on_world MatObjectStore)"

definition modify_capture :: "(capture_stats \<Rightarrow> capture_stats) \<Rightarrow> ('d, unit) fm_io" where
  "modify_capture f = modifies (\<lambda>s. s\<lparr>ms_capture := f (ms_capture s)\<rparr>)"

definition modify_scan :: "(tree_scan_stats \<Rightarrow> tree_scan_stats) \<Rightarrow> ('d, unit) fm_io" where
  "modify_scan f = modifies (\<lambda>s. s\<lparr>ms_scan := f (ms_scan s)\<rparr>)"

definition modify_written :: "(materialize_stats \<Rightarrow> materialize_stats) \<Rightarrow> ('d, unit) fm_io" where
  "modify_written f = modifies (\<lambda>s. s\<lparr>ms_written := f (ms_written s)\<rparr>)"

definition push_issue :: "path \<Rightarrow> ('d, unit) fm_io" where
  "push_issue p = modifies (\<lambda>s. s\<lparr>ms_issues := ms_issues s @ [\<lparr>ci_path = p, ci_kind = SkippedSymlink\<rparr>]\<rparr>)"

definition push_change :: "path \<Rightarrow> tree_change_kind \<Rightarrow> ('d, unit) fm_io" where
  "push_change p kind = modifies (\<lambda>s. s\<lparr>ms_changes := ms_changes s @ [tree_change_new p kind]\<rparr>)"

section \<open>Capturing\<close>

text \<open>\<open>if let Some(cached) = cached.matching && cached.stored\<close>\<close>

definition cached_hit :: "cached_file_lookup \<Rightarrow> object_id option" where
  "cached_hit cached =
    (case cl_matching cached of
       Some hit \<Rightarrow> if ch_stored hit then Some (ch_object_id hit) else None
     | None \<Rightarrow> None)"

definition capture_current_file ::
  "hasher \<Rightarrow> 'd redb \<Rightarrow> local_object_store \<Rightarrow> directory_entry \<Rightarrow> object_id option \<Rightarrow> ('d, object_id) fm_io" where
  "capture_current_file blake3 db st entry base_id =
     bind_io (on_world (MatIo (de_path entry)) (file_stat (de_path entry))) (\<lambda>metadata.
     let fingerprint = fingerprint_from_metadata metadata in
     bind_io (cached_file_lookup_of db (de_relative_path entry) fingerprint) (\<lambda>cached.
     case cached_hit cached of
       Some i \<Rightarrow>
         bind_io (modify_capture (\<lambda>c. c\<lparr>cs_files_seen := cs_files_seen c + 1,
           cs_hash_cache_hits := cs_hash_cache_hits c + 1\<rparr>)) (\<lambda>_. return_io i)
     | None \<Rightarrow>
         let base_id = (if base_id = None then cl_stored_base_id cached else base_id) in
         bind_io (on_world (MatIo (de_path entry)) (read_file (de_path entry))) (\<lambda>bytes.
         bind_io (on_world MatObjectStore (put_blob_with_base blake3 st bytes base_id)) (\<lambda>i.
         bind_io (modify_capture (\<lambda>c. c\<lparr>cs_files_seen := cs_files_seen c + 1,
           cs_bytes_read := cs_bytes_read c + word_of_nat (length bytes),
           cs_blobs_stored := cs_blobs_stored c + 1, cs_hash_cache_misses := cs_hash_cache_misses c + 1\<rparr>)) (\<lambda>_.
         bind_io (store_cached_file_id db (de_relative_path entry) fingerprint i True) (\<lambda>_.
         return_io i))))))"

text \<open>
  One turn of the loop over the entries of a directory: the tree entry, if it gets one. \<open>enter\<close> captures a
  directory below.
\<close>

definition capture_entry ::
  "hasher \<Rightarrow> 'd redb \<Rightarrow> local_object_store \<Rightarrow> capture_options \<Rightarrow> (path \<Rightarrow> path \<Rightarrow> ('d, object_id) fm_io) \<Rightarrow>
    directory_entry \<Rightarrow> ('d, tree_entry option) fm_io" where
  "capture_entry blake3 db st options enter entry =
    (if should_skip_entry options entry then
       bind_io (modify_capture (\<lambda>c. c\<lparr>cs_ignored_entries := cs_ignored_entries c + 1\<rparr>)) (\<lambda>_. return_io None)
     else case de_type entry of
       TypeDir \<Rightarrow>
         bind_io (enter (de_path entry) (de_relative_path entry)) (\<lambda>i.
         bind_io (invalid_entry (de_path entry) (tree_entry_tree (de_name entry) i)) (\<lambda>e. return_io (Some e)))
     | TypeFile \<Rightarrow>
         bind_io (capture_current_file blake3 db st entry None) (\<lambda>i.
         bind_io (invalid_entry (de_path entry) (tree_entry_blob (de_name entry) i)) (\<lambda>e. return_io (Some e)))
     | TypeSymlink \<Rightarrow>
        (case co_symlinks options of
           SymlinkSkip \<Rightarrow>
             bind_io (modify_capture (\<lambda>c. c\<lparr>cs_symlinks_skipped := cs_symlinks_skipped c + 1\<rparr>)) (\<lambda>_.
             bind_io (push_issue (de_relative_path entry)) (\<lambda>_. return_io None))
         | SymlinkError \<Rightarrow> fail_io (MatFail (SymlinkUnsupported (de_path entry))))
     | TypeOther \<Rightarrow> fail_io (MatFail (UnsupportedFileType (de_path entry))))"

text \<open>The loop: the entries that a turn gives, in order.\<close>

fun collect_entries :: "('x \<Rightarrow> ('s, 'e, 'a option) sio) \<Rightarrow> 'x list \<Rightarrow> ('s, 'e, 'a list) sio" where
  "collect_entries f [] = return_io []"
| "collect_entries f (x # xs) =
     bind_io (f x) (\<lambda>e.
     bind_io (collect_entries f xs) (\<lambda>es.
     return_io (case e of None \<Rightarrow> es | Some e \<Rightarrow> e # es)))"

definition capture_tree_of ::
  "hasher \<Rightarrow> 'd redb \<Rightarrow> local_object_store \<Rightarrow> path \<Rightarrow> path \<Rightarrow> tree_entry list \<Rightarrow> ('d, object_id) fm_io" where
  "capture_tree_of blake3 db st dir rel entries =
     bind_io (invalid_entry dir (tree_new entries)) (\<lambda>tree.
     bind_io (tree_id_io blake3 tree) (\<lambda>i.
     bind_io (cached_directory_of blake3 db rel) (\<lambda>cached.
     bind_io (case cached of
         Some d \<Rightarrow> if cd_stored d \<and> cd_tree_id d = i then return_io ()
           else bind_io (put_tree_io blake3 st tree) (\<lambda>_. modify_capture (\<lambda>c. c\<lparr>cs_trees_stored := cs_trees_stored c + 1\<rparr>))
       | None \<Rightarrow> bind_io (put_tree_io blake3 st tree) (\<lambda>_.
           modify_capture (\<lambda>c. c\<lparr>cs_trees_stored := cs_trees_stored c + 1\<rparr>))) (\<lambda>_.
     bind_io (store_cached_directory blake3 db rel i (tree_entries tree) True) (\<lambda>_.
     return_io i)))))"

fun capture_directory ::
  "hasher \<Rightarrow> 'd redb \<Rightarrow> local_object_store \<Rightarrow> capture_options \<Rightarrow> nat \<Rightarrow> path \<Rightarrow> path \<Rightarrow> ('d, object_id) fm_io" where
  "capture_directory blake3 db st options 0 dir rel = fail_io (MatFail (MatIo dir OtherError))"
| "capture_directory blake3 db st options (Suc n) dir rel =
     bind_io (modify_capture (\<lambda>c. c\<lparr>cs_directories_seen := cs_directories_seen c + 1\<rparr>)) (\<lambda>_.
     bind_io (on_world id (read_directory_entries dir rel)) (\<lambda>directory_entries.
     bind_io (collect_entries
       (capture_entry blake3 db st options (capture_directory blake3 db st options n)) directory_entries) (\<lambda>entries.
     capture_tree_of blake3 db st dir rel entries)))"

definition budget :: "'d mat_state \<Rightarrow> nat" where
  "budget s = Suc (length (w_fs (ms_world s)))"

definition capture_stats_default :: capture_stats where
  "capture_stats_default = \<lparr>cs_files_seen = 0, cs_directories_seen = 0, cs_bytes_read = 0, cs_blobs_stored = 0,
     cs_trees_stored = 0, cs_ignored_entries = 0, cs_symlinks_skipped = 0, cs_hash_cache_hits = 0, cs_hash_cache_misses = 0\<rparr>"

definition start_capture :: "('d, unit) fm_io" where
  "start_capture = modifies (\<lambda>s. s\<lparr>ms_capture := capture_stats_default, ms_issues := []\<rparr>)"

definition captured :: "object_id \<Rightarrow> ('d, capture_result) fm_io" where
  "captured i = gets (\<lambda>s. capture_result_new i (ms_capture s) (ms_issues s))"

definition capture_tree ::
  "hasher \<Rightarrow> 'd redb \<Rightarrow> working_directory \<Rightarrow> local_object_store \<Rightarrow> ('d, capture_result) fm_io" where
  "capture_tree blake3 db wd st =
     bind_io (ensure_cache_loaded db) (\<lambda>_.
     bind_io (load_all_cache_records blake3 db) (\<lambda>_.
     bind_io (on_world id (ensure_capture_root (wd_root wd))) (\<lambda>_.
     bind_io start_capture (\<lambda>_.
     bind_io (gets (\<lambda>s. (fm_options (ms_fm s), budget s))) (\<lambda>(options, n).
     bind_io (capture_directory blake3 db st options n (wd_root wd) []) (\<lambda>i.
     bind_io (captured i) (\<lambda>result.
     bind_io (save_cache_if_dirty blake3 db) (\<lambda>_.
     bind_io drop_bulk_loaded_cache_records (\<lambda>_.
     return_io result)))))))))"

section \<open>Capturing with hints\<close>

definition normalize_hints :: "capture_options \<Rightarrow> path list \<Rightarrow> path list" where
  "normalize_hints options hints =
     fold (\<lambda>p compacted. if list_ex (\<lambda>ancestor. ancestor \<noteq> [] \<and> prefix ancestor p) compacted then compacted
             else compacted @ [p])
       (sort (remdups (filter (\<lambda>p. \<not> excludes_path options p) hints))) []"

definition replace_cached_entry :: "tree_entry list \<Rightarrow> rstring \<Rightarrow> tree_entry option \<Rightarrow> tree_entry list" where
  "replace_cached_entry entries name replacement =
     sort_key entry_name (filter (\<lambda>e. entry_name e \<noteq> name) entries @
       (case replacement of None \<Rightarrow> [] | Some e \<Rightarrow> [e]))"

definition relative_parent :: "path \<Rightarrow> path" where
  "relative_parent p = butlast p"

definition relative_file_name :: "path \<Rightarrow> materialization_error + rstring" where
  "relative_file_name p =
    (if p = [] \<or> last p = bstr ''..'' \<or> \<not> utf8 (last p) then Err (PathNotUtf8 p) else Ok (last p))"

function rebuild_cached_ancestors ::
  "hasher \<Rightarrow> 'd redb \<Rightarrow> local_object_store \<Rightarrow> path \<Rightarrow> ('d, unit) fm_io" where
  "rebuild_cached_ancestors blake3 db st p =
     bind_io (cached_directory_of blake3 db p) (\<lambda>found.
     case found of
       None \<Rightarrow> fail_io (MatFail (UnsupportedFileType p))
     | Some directory \<Rightarrow>
         bind_io (invalid_entry p (tree_new (cd_entries directory))) (\<lambda>tree.
         bind_io (tree_id_io blake3 tree) (\<lambda>i.
         bind_io (if \<not> cd_stored directory \<or> cd_tree_id directory \<noteq> i
             then bind_io (put_tree_io blake3 st tree) (\<lambda>_.
               modify_capture (\<lambda>c. c\<lparr>cs_trees_stored := cs_trees_stored c + 1\<rparr>))
             else return_io ()) (\<lambda>_.
         bind_io (store_cached_directory blake3 db p i (tree_entries tree) True) (\<lambda>_.
         if p = [] then return_io ()
         else
           bind_io (cached_directory_of blake3 db (relative_parent p)) (\<lambda>found.
           case found of
             None \<Rightarrow> fail_io (MatFail (UnsupportedFileType (relative_parent p)))
           | Some parent \<Rightarrow>
               bind_io (result_io (map_err MatFail (relative_file_name p))) (\<lambda>name.
               bind_io (invalid_entry p (tree_entry_tree name i)) (\<lambda>entry.
               bind_io (store_cached_directory_entries blake3 db (relative_parent p)
                 (replace_cached_entry (cd_entries parent) name (Some entry))) (\<lambda>_.
               rebuild_cached_ancestors blake3 db st (relative_parent p))))))))))"
  by pat_completeness auto

termination
  by (relation "measure (\<lambda>(_, _, _, p). length p)") (auto simp: relative_parent_def)

declare rebuild_cached_ancestors.simps [simp del]

definition hinted_entry ::
  "hasher \<Rightarrow> 'd redb \<Rightarrow> local_object_store \<Rightarrow> capture_options \<Rightarrow> nat \<Rightarrow> cached_directory_tree \<Rightarrow> directory_entry \<Rightarrow>
    ('d, tree_entry option) fm_io" where
  "hinted_entry blake3 db st options n parent entry =
    (if should_skip_entry options entry then return_io None
     else case de_type entry of
       TypeDir \<Rightarrow>
         bind_io (capture_directory blake3 db st options n (de_path entry) (de_relative_path entry)) (\<lambda>i.
         bind_io (invalid_entry (de_path entry) (tree_entry_tree (de_name entry) i)) (\<lambda>e. return_io (Some e)))
     | TypeFile \<Rightarrow>
         let base_id = map_option entry_id
           (find (\<lambda>e. entry_name e = de_name entry \<and> entry_kind e = BlobEntry) (cd_entries parent)) in
         bind_io (capture_current_file blake3 db st entry base_id) (\<lambda>i.
         bind_io (invalid_entry (de_path entry) (tree_entry_blob (de_name entry) i)) (\<lambda>e. return_io (Some e)))
     | TypeSymlink \<Rightarrow>
        (case co_symlinks options of
           SymlinkSkip \<Rightarrow>
             bind_io (modify_capture (\<lambda>c. c\<lparr>cs_symlinks_skipped := cs_symlinks_skipped c + 1\<rparr>)) (\<lambda>_.
             bind_io (push_issue (de_relative_path entry)) (\<lambda>_. return_io None))
         | SymlinkError \<Rightarrow> fail_io (MatFail (SymlinkUnsupported (de_path entry))))
     | TypeOther \<Rightarrow> fail_io (MatFail (UnsupportedFileType (de_path entry))))"

text \<open>The result says whether the hint could be used.\<close>

definition capture_hinted_path ::
  "hasher \<Rightarrow> 'd redb \<Rightarrow> local_object_store \<Rightarrow> capture_options \<Rightarrow> nat \<Rightarrow> path \<Rightarrow> path \<Rightarrow> ('d, bool) fm_io" where
  "capture_hinted_path blake3 db st options n root rel =
     bind_io (invalidate_paths [rel]) (\<lambda>_.
     bind_io (cached_directory_of blake3 db (relative_parent rel)) (\<lambda>found.
     case found of
       None \<Rightarrow> return_io False
     | Some parent \<Rightarrow>
        if \<not> cd_stored parent then return_io False
        else
          bind_io (result_io (map_err MatFail (relative_file_name rel))) (\<lambda>name.
          bind_io (try_world (file_metadata (root @ rel))) (\<lambda>r.
          bind_io (case r of
              Inr node \<Rightarrow> hinted_entry blake3 db st options n parent
                \<lparr>de_name = name, de_path = root @ rel, de_relative_path = rel, de_type = node_type node\<rparr>
            | Inl e \<Rightarrow> if e = NotFound then return_io None else fail_io (MatFail (MatIo (root @ rel) e))) (\<lambda>replacement.
          bind_io (store_cached_directory_entries blake3 db (relative_parent rel)
            (replace_cached_entry (cd_entries parent) name replacement)) (\<lambda>_.
          bind_io (rebuild_cached_ancestors blake3 db st (relative_parent rel)) (\<lambda>_.
          return_io True)))))))"

fun capture_hints ::
  "hasher \<Rightarrow> 'd redb \<Rightarrow> local_object_store \<Rightarrow> capture_options \<Rightarrow> nat \<Rightarrow> path \<Rightarrow> path list \<Rightarrow> ('d, bool) fm_io" where
  "capture_hints blake3 db st options n root [] = return_io True"
| "capture_hints blake3 db st options n root (hint # hints) =
    (if hint = [] then return_io False
     else
       bind_io (capture_hinted_path blake3 db st options n root hint) (\<lambda>used.
       if \<not> used then return_io False else capture_hints blake3 db st options n root hints))"

definition capture_hinted_paths ::
  "hasher \<Rightarrow> 'd redb \<Rightarrow> local_object_store \<Rightarrow> capture_options \<Rightarrow> nat \<Rightarrow> path \<Rightarrow> path list \<Rightarrow> ('d, object_id option) fm_io" where
  "capture_hinted_paths blake3 db st options n root hints =
     bind_io (cached_directory_of blake3 db []) (\<lambda>found.
     case found of
       None \<Rightarrow> return_io None
     | Some root_tree \<Rightarrow>
        if \<not> cd_stored root_tree then return_io None
        else
          bind_io (capture_hints blake3 db st options n root hints) (\<lambda>used.
          if \<not> used then return_io None
          else
            bind_io (cached_directory_of blake3 db []) (\<lambda>found.
            return_io (case found of
                None \<Rightarrow> None
              | Some directory \<Rightarrow> if cd_stored directory then Some (cd_tree_id directory) else None))))"

definition capture_tree_with_hints ::
  "hasher \<Rightarrow> 'd redb \<Rightarrow> working_directory \<Rightarrow> local_object_store \<Rightarrow> path list \<Rightarrow> ('d, capture_result) fm_io" where
  "capture_tree_with_hints blake3 db wd st hints =
     bind_io (ensure_cache_loaded db) (\<lambda>_.
     bind_io (on_world id (ensure_capture_root (wd_root wd))) (\<lambda>_.
     if hints = [] then capture_tree blake3 db wd st
     else
       bind_io (gets (\<lambda>s. (fm_options (ms_fm s), budget s))) (\<lambda>(options, n).
       let hints = normalize_hints options hints in
       if hints = [] then
         bind_io (cached_directory_of blake3 db []) (\<lambda>found.
         case found of
           Some root_tree \<Rightarrow>
             if cd_stored root_tree
             then return_io (capture_result_new (cd_tree_id root_tree) capture_stats_default [])
             else capture_tree blake3 db wd st
         | None \<Rightarrow> capture_tree blake3 db wd st)
       else
         bind_io start_capture (\<lambda>_.
         bind_io (capture_hinted_paths blake3 db st options n (wd_root wd) hints) (\<lambda>found.
         case found of
           Some i \<Rightarrow>
             bind_io (captured i) (\<lambda>result.
             bind_io (save_cache_if_dirty blake3 db) (\<lambda>_.
             return_io result))
         | None \<Rightarrow> capture_tree blake3 db wd st)))))"

section \<open>Scanning\<close>

definition scan_current_file_id :: "hasher \<Rightarrow> 'd redb \<Rightarrow> directory_entry \<Rightarrow> ('d, object_id) fm_io" where
  "scan_current_file_id blake3 db entry =
     bind_io (on_world (MatIo (de_path entry)) (file_stat (de_path entry))) (\<lambda>metadata.
     let fingerprint = fingerprint_from_metadata metadata in
     bind_io (cached_file_id db (de_relative_path entry) fingerprint) (\<lambda>cached.
     case cached of
       Some hit \<Rightarrow>
         bind_io (modify_scan (\<lambda>c. c\<lparr>ts_files_seen := ts_files_seen c + 1,
           ts_hash_cache_hits := ts_hash_cache_hits c + 1\<rparr>)) (\<lambda>_. return_io (ch_object_id hit))
     | None \<Rightarrow>
         bind_io (on_world (MatIo (de_path entry)) (read_file (de_path entry))) (\<lambda>bytes.
         let i = from_content blake3 bytes in
         bind_io (modify_scan (\<lambda>c. c\<lparr>ts_files_seen := ts_files_seen c + 1,
           ts_bytes_read := ts_bytes_read c + word_of_nat (length bytes),
           ts_hash_cache_misses := ts_hash_cache_misses c + 1\<rparr>)) (\<lambda>_.
         bind_io (store_cached_file_id db (de_relative_path entry) fingerprint i False) (\<lambda>_.
         return_io i)))))"

definition scan_entry ::
  "hasher \<Rightarrow> 'd redb \<Rightarrow> capture_options \<Rightarrow> (path \<Rightarrow> path \<Rightarrow> ('d, object_id) fm_io) \<Rightarrow>
    directory_entry \<Rightarrow> ('d, tree_entry option) fm_io" where
  "scan_entry blake3 db options enter entry =
    (if should_skip_entry options entry then
       bind_io (modify_scan (\<lambda>c. c\<lparr>ts_ignored_entries := ts_ignored_entries c + 1\<rparr>)) (\<lambda>_. return_io None)
     else case de_type entry of
       TypeDir \<Rightarrow>
         bind_io (enter (de_path entry) (de_relative_path entry)) (\<lambda>i.
         bind_io (invalid_entry (de_path entry) (tree_entry_tree (de_name entry) i)) (\<lambda>e. return_io (Some e)))
     | TypeFile \<Rightarrow>
         bind_io (scan_current_file_id blake3 db entry) (\<lambda>i.
         bind_io (invalid_entry (de_path entry) (tree_entry_blob (de_name entry) i)) (\<lambda>e. return_io (Some e)))
     | TypeSymlink \<Rightarrow>
        (case co_symlinks options of
           SymlinkSkip \<Rightarrow>
             bind_io (modify_scan (\<lambda>c. c\<lparr>ts_symlinks_skipped := ts_symlinks_skipped c + 1\<rparr>)) (\<lambda>_.
             bind_io (push_issue (de_relative_path entry)) (\<lambda>_. return_io None))
         | SymlinkError \<Rightarrow> fail_io (MatFail (SymlinkUnsupported (de_path entry))))
     | TypeOther \<Rightarrow> fail_io (MatFail (UnsupportedFileType (de_path entry))))"

text \<open>The end of a scan or a comparison of a directory: its tree, which is cached as not stored.\<close>

definition scan_tree_of ::
  "hasher \<Rightarrow> 'd redb \<Rightarrow> path \<Rightarrow> path \<Rightarrow> tree_entry list \<Rightarrow> ('d, object_id) fm_io" where
  "scan_tree_of blake3 db dir rel entries =
     bind_io (invalid_entry dir (tree_new entries)) (\<lambda>tree.
     bind_io (tree_id_io blake3 tree) (\<lambda>i.
     bind_io (store_cached_directory blake3 db rel i (tree_entries tree) False) (\<lambda>_.
     return_io i)))"

fun scan_directory ::
  "hasher \<Rightarrow> 'd redb \<Rightarrow> capture_options \<Rightarrow> nat \<Rightarrow> path \<Rightarrow> path \<Rightarrow> ('d, object_id) fm_io" where
  "scan_directory blake3 db options 0 dir rel = fail_io (MatFail (MatIo dir OtherError))"
| "scan_directory blake3 db options (Suc n) dir rel =
     bind_io (modify_scan (\<lambda>c. c\<lparr>ts_directories_seen := ts_directories_seen c + 1\<rparr>)) (\<lambda>_.
     bind_io (on_world id (read_directory_entries dir rel)) (\<lambda>directory_entries.
     bind_io (collect_entries (scan_entry blake3 db options (scan_directory blake3 db options n)) directory_entries) (\<lambda>entries.
     scan_tree_of blake3 db dir rel entries)))"

definition tree_scan_stats_default :: tree_scan_stats where
  "tree_scan_stats_default = \<lparr>ts_files_seen = 0, ts_directories_seen = 0, ts_bytes_read = 0, ts_ignored_entries = 0,
     ts_symlinks_skipped = 0, ts_hash_cache_hits = 0, ts_hash_cache_misses = 0\<rparr>"

definition start_scan :: "('d, unit) fm_io" where
  "start_scan = modifies (\<lambda>s. s\<lparr>ms_scan := tree_scan_stats_default, ms_issues := [], ms_changes := []\<rparr>)"

definition scan_tree :: "hasher \<Rightarrow> 'd redb \<Rightarrow> working_directory \<Rightarrow> ('d, tree_scan_result) fm_io" where
  "scan_tree blake3 db wd =
     bind_io (ensure_cache_loaded db) (\<lambda>_.
     bind_io (load_all_cache_records blake3 db) (\<lambda>_.
     bind_io (on_world id (ensure_capture_root (wd_root wd))) (\<lambda>_.
     bind_io start_scan (\<lambda>_.
     bind_io (gets (\<lambda>s. (fm_options (ms_fm s), budget s))) (\<lambda>(options, n).
     bind_io (scan_directory blake3 db options n (wd_root wd) []) (\<lambda>i.
     bind_io (gets (\<lambda>s. \<lparr>sr_root_tree_id = i, sr_stats = ms_scan s, sr_issues = ms_issues s\<rparr>)) (\<lambda>result.
     bind_io (save_cache_if_dirty blake3 db) (\<lambda>_.
     bind_io drop_bulk_loaded_cache_records (\<lambda>_.
     return_io result)))))))))"

section \<open>Comparing\<close>

fun included_entries :: "capture_options \<Rightarrow> directory_entry list \<Rightarrow> ('d, directory_entry list) fm_io" where
  "included_entries options [] = return_io []"
| "included_entries options (entry # entries) =
    (if should_skip_entry options entry then
       bind_io (modify_scan (\<lambda>c. c\<lparr>ts_ignored_entries := ts_ignored_entries c + 1\<rparr>)) (\<lambda>_.
       included_entries options entries)
     else case de_type entry of
       TypeSymlink \<Rightarrow>
        (case co_symlinks options of
           SymlinkSkip \<Rightarrow>
             bind_io (modify_scan (\<lambda>c. c\<lparr>ts_symlinks_skipped := ts_symlinks_skipped c + 1\<rparr>)) (\<lambda>_.
             bind_io (push_issue (de_relative_path entry)) (\<lambda>_. included_entries options entries))
         | SymlinkError \<Rightarrow> fail_io (MatFail (SymlinkUnsupported (de_path entry))))
     | TypeOther \<Rightarrow> fail_io (MatFail (UnsupportedFileType (de_path entry)))
     | _ \<Rightarrow> bind_io (included_entries options entries) (\<lambda>es. return_io (entry # es)))"

definition read_included_directory_entries ::
  "capture_options \<Rightarrow> path \<Rightarrow> path \<Rightarrow> ('d, directory_entry list) fm_io" where
  "read_included_directory_entries options dir rel =
     bind_io (on_world id (read_directory_entries dir rel)) (included_entries options)"

definition scan_current_entry ::
  "hasher \<Rightarrow> 'd redb \<Rightarrow> capture_options \<Rightarrow> nat \<Rightarrow> directory_entry \<Rightarrow> ('d, tree_entry) fm_io" where
  "scan_current_entry blake3 db options n entry =
    (case de_type entry of
       TypeDir \<Rightarrow>
         bind_io (scan_directory blake3 db options n (de_path entry) (de_relative_path entry)) (\<lambda>i.
         invalid_entry (de_path entry) (tree_entry_tree (de_name entry) i))
     | TypeFile \<Rightarrow>
         bind_io (scan_current_file_id blake3 db entry) (\<lambda>i.
         invalid_entry (de_path entry) (tree_entry_blob (de_name entry) i))
     | TypeSymlink \<Rightarrow>
        (case co_symlinks options of
           SymlinkSkip \<Rightarrow> fail_io (MatFail (UnsupportedFileType (de_path entry)))
         | SymlinkError \<Rightarrow> fail_io (MatFail (SymlinkUnsupported (de_path entry))))
     | TypeOther \<Rightarrow> fail_io (MatFail (UnsupportedFileType (de_path entry))))"

text \<open>\<open>enter\<close> compares a directory below with a stored tree.\<close>

definition compare_matching_entry ::
  "hasher \<Rightarrow> 'd redb \<Rightarrow> capture_options \<Rightarrow> nat \<Rightarrow> (object_id \<Rightarrow> path \<Rightarrow> path \<Rightarrow> ('d, object_id) fm_io) \<Rightarrow>
    tree_entry \<Rightarrow> directory_entry \<Rightarrow> ('d, tree_entry) fm_io" where
  "compare_matching_entry blake3 db options n enter saved entry =
    (case (entry_kind saved, de_type entry) of
       (BlobEntry, TypeFile) \<Rightarrow>
         bind_io (scan_current_file_id blake3 db entry) (\<lambda>i.
         bind_io (if i \<noteq> entry_id saved then push_change (de_relative_path entry) ChangeModified else return_io ()) (\<lambda>_.
         invalid_entry (de_path entry) (tree_entry_blob (de_name entry) i)))
     | (TreeEntry, TypeDir) \<Rightarrow>
         bind_io (enter (entry_id saved) (de_path entry) (de_relative_path entry)) (\<lambda>i.
         invalid_entry (de_path entry) (tree_entry_tree (de_name entry) i))
     | (BlobEntry, TypeDir) \<Rightarrow>
         bind_io (scan_directory blake3 db options n (de_path entry) (de_relative_path entry)) (\<lambda>i.
         bind_io (push_change (de_relative_path entry) ChangeTypeChanged) (\<lambda>_.
         invalid_entry (de_path entry) (tree_entry_tree (de_name entry) i)))
     | (TreeEntry, TypeFile) \<Rightarrow>
         bind_io (scan_current_file_id blake3 db entry) (\<lambda>i.
         bind_io (push_change (de_relative_path entry) ChangeTypeChanged) (\<lambda>_.
         invalid_entry (de_path entry) (tree_entry_blob (de_name entry) i)))
     | _ \<Rightarrow> fail_io (MatFail (UnsupportedFileType (de_path entry))))"

text \<open>The walk along the saved entries and the current ones, both in the order of their names.\<close>

fun compare_entries ::
  "(directory_entry \<Rightarrow> ('d, tree_entry) fm_io) \<Rightarrow> (tree_entry \<Rightarrow> directory_entry \<Rightarrow> ('d, tree_entry) fm_io) \<Rightarrow>
    path \<Rightarrow> tree_entry list \<Rightarrow> directory_entry list \<Rightarrow> ('d, tree_entry list) fm_io" where
  "compare_entries added same rel [] [] = return_io []"
| "compare_entries added same rel (saved # ss) [] =
     bind_io (push_change (join_relative rel (entry_name saved)) ChangeDeleted) (\<lambda>_.
     compare_entries added same rel ss [])"
| "compare_entries added same rel [] (entry # es) =
     bind_io (added entry) (\<lambda>e.
     bind_io (push_change (de_relative_path entry) ChangeAdded) (\<lambda>_.
     bind_io (compare_entries added same rel [] es) (\<lambda>entries. return_io (e # entries))))"
| "compare_entries added same rel (saved # ss) (entry # es) =
    (if entry_name saved < de_name entry then
       bind_io (push_change (join_relative rel (entry_name saved)) ChangeDeleted) (\<lambda>_.
       compare_entries added same rel ss (entry # es))
     else if de_name entry < entry_name saved then
       bind_io (added entry) (\<lambda>e.
       bind_io (push_change (de_relative_path entry) ChangeAdded) (\<lambda>_.
       bind_io (compare_entries added same rel (saved # ss) es) (\<lambda>entries. return_io (e # entries))))
     else
       bind_io (same saved entry) (\<lambda>e.
       bind_io (compare_entries added same rel ss es) (\<lambda>entries. return_io (e # entries))))"

fun compare_directory ::
  "hasher \<Rightarrow> 'd redb \<Rightarrow> local_object_store \<Rightarrow> capture_options \<Rightarrow> nat \<Rightarrow> object_id \<Rightarrow> path \<Rightarrow> path \<Rightarrow> ('d, object_id) fm_io" where
  "compare_directory blake3 db st options 0 saved dir rel = fail_io (MatFail (MatIo dir OtherError))"
| "compare_directory blake3 db st options (Suc n) saved dir rel =
     bind_io (modify_scan (\<lambda>c. c\<lparr>ts_directories_seen := ts_directories_seen c + 1\<rparr>)) (\<lambda>_.
     bind_io (on_world MatObjectStore (get_tree blake3 st saved)) (\<lambda>saved_tree.
     bind_io (read_included_directory_entries options dir rel) (\<lambda>current.
     bind_io (compare_entries (scan_current_entry blake3 db options n)
       (compare_matching_entry blake3 db options n (compare_directory blake3 db st options n))
       rel (tree_entries saved_tree) current) (\<lambda>entries.
     scan_tree_of blake3 db dir rel entries))))"

definition compare_tree ::
  "hasher \<Rightarrow> 'd redb \<Rightarrow> object_id \<Rightarrow> working_directory \<Rightarrow> local_object_store \<Rightarrow> ('d, tree_comparison_result) fm_io" where
  "compare_tree blake3 db saved wd st =
     bind_io (ensure_cache_loaded db) (\<lambda>_.
     bind_io (load_all_cache_records blake3 db) (\<lambda>_.
     bind_io (on_world id (ensure_capture_root (wd_root wd))) (\<lambda>_.
     bind_io start_scan (\<lambda>_.
     bind_io (gets (\<lambda>s. (fm_options (ms_fm s), budget s))) (\<lambda>(options, n).
     bind_io (compare_directory blake3 db st options n saved (wd_root wd) []) (\<lambda>i.
     bind_io (gets (\<lambda>s. \<lparr>tcr_saved_root_tree_id = saved, tcr_current_root_tree_id = i, tcr_changes = ms_changes s,
       tcr_stats = ms_scan s, tcr_issues = ms_issues s\<rparr>)) (\<lambda>result.
     bind_io (save_cache_if_dirty blake3 db) (\<lambda>_.
     bind_io drop_bulk_loaded_cache_records (\<lambda>_.
     return_io result)))))))))"

section \<open>Materializing\<close>

definition remove_path :: "path \<Rightarrow> file_type \<Rightarrow> ('d, unit) fm_io" where
  "remove_path p type =
     bind_io (on_world (MatIo p) (if type = TypeDir then remove_dir_all p else remove_file p)) (\<lambda>_.
     modify_written (\<lambda>c. c\<lparr>mt_entries_removed := mt_entries_removed c + 1\<rparr>))"

definition prepare_file_path :: "path \<Rightarrow> ('d, unit) fm_io" where
  "prepare_file_path p =
     bind_io (try_world (file_metadata p)) (\<lambda>r. case r of
       Inr n \<Rightarrow> if node_type n = TypeFile then return_io () else remove_path p (node_type n)
     | Inl e \<Rightarrow> if e = NotFound then return_io () else fail_io (MatFail (MatIo p e)))"

definition make_directory :: "path \<Rightarrow> ('d, unit) fm_io" where
  "make_directory p =
     bind_io (on_world (MatIo p) (create_dir p)) (\<lambda>_.
     modify_written (\<lambda>c. c\<lparr>mt_directories_created := mt_directories_created c + 1\<rparr>))"

definition prepare_directory :: "path \<Rightarrow> ('d, unit) fm_io" where
  "prepare_directory p =
     bind_io (try_world (file_metadata p)) (\<lambda>r. case r of
       Inr n \<Rightarrow> if node_type n = TypeDir then return_io ()
         else bind_io (remove_path p (node_type n)) (\<lambda>_. make_directory p)
     | Inl e \<Rightarrow> if e = NotFound then make_directory p else fail_io (MatFail (MatIo p e)))"

fun prune_entries :: "rstring list \<Rightarrow> capture_options \<Rightarrow> directory_entry list \<Rightarrow> ('d, path list) fm_io" where
  "prune_entries target_names options [] = return_io []"
| "prune_entries target_names options (entry # entries) =
    (if de_name entry \<in> set target_names \<or> should_skip_entry options entry
     then prune_entries target_names options entries
     else if de_type entry = TypeSymlink then
       (case co_symlinks options of
          SymlinkSkip \<Rightarrow> prune_entries target_names options entries
        | SymlinkError \<Rightarrow> fail_io (MatFail (SymlinkUnsupported (de_path entry))))
     else
       bind_io (remove_path (de_path entry) (de_type entry)) (\<lambda>_.
       bind_io (prune_entries target_names options entries) (\<lambda>removed.
       return_io (de_relative_path entry # removed))))"

definition prune_directory ::
  "path \<Rightarrow> path \<Rightarrow> rstring list \<Rightarrow> capture_options \<Rightarrow> ('d, path list) fm_io" where
  "prune_directory dir rel target_names options =
     bind_io (on_world id (read_directory_entries dir rel)) (prune_entries target_names options)"

definition write_blob :: "hasher \<Rightarrow> 'd redb \<Rightarrow> local_object_store \<Rightarrow> path \<Rightarrow> path \<Rightarrow> object_id \<Rightarrow> ('d, unit) fm_io" where
  "write_blob blake3 db st p rel i =
     bind_io (invalidate_paths [rel]) (\<lambda>_.
     bind_io (prepare_file_path p) (\<lambda>_.
     bind_io (on_world MatObjectStore (get_blob blake3 st i)) (\<lambda>bytes.
     bind_io (on_world (MatIo p) (write_path p bytes)) (\<lambda>_.
     bind_io (on_world (MatIo p) (file_stat p)) (\<lambda>metadata.
     bind_io (store_cached_file_id db rel (fingerprint_from_metadata metadata) i True) (\<lambda>_.
     modify_written (\<lambda>c. c\<lparr>mt_files_written := mt_files_written c + 1,
       mt_bytes_written := mt_bytes_written c + word_of_nat (length bytes)\<rparr>)))))))"

definition materialize_blob ::
  "hasher \<Rightarrow> 'd redb \<Rightarrow> local_object_store \<Rightarrow> path \<Rightarrow> path \<Rightarrow> object_id \<Rightarrow> ('d, unit) fm_io" where
  "materialize_blob blake3 db st p rel i =
     bind_io (try_world (file_stat p)) (\<lambda>r. case r of
       Inl _ \<Rightarrow> write_blob blake3 db st p rel i
     | Inr metadata \<Rightarrow>
        if node_type (fst metadata) \<noteq> TypeFile then write_blob blake3 db st p rel i
        else
          let fingerprint = fingerprint_from_metadata metadata in
          bind_io (cached_file_id db rel fingerprint) (\<lambda>cached.
          if map_option ch_object_id cached = Some i
          then store_cached_file_id db rel fingerprint i True
          else
            bind_io (on_world (MatIo p) (read_file p)) (\<lambda>bytes.
            if from_content blake3 bytes = i
            then store_cached_file_id db rel fingerprint i True
            else write_blob blake3 db st p rel i)))"

fun each :: "('x \<Rightarrow> ('s, 'e, unit) sio) \<Rightarrow> 'x list \<Rightarrow> ('s, 'e, unit) sio" where
  "each f [] = return_io ()"
| "each f (x # xs) = bind_io (f x) (\<lambda>_. each f xs)"

definition materialize_entry ::
  "hasher \<Rightarrow> 'd redb \<Rightarrow> local_object_store \<Rightarrow> (object_id \<Rightarrow> path \<Rightarrow> path \<Rightarrow> ('d, unit) fm_io) \<Rightarrow> path \<Rightarrow> path \<Rightarrow>
    tree_entry \<Rightarrow> ('d, unit) fm_io" where
  "materialize_entry blake3 db st enter dir rel entry =
    (case entry_kind entry of
       BlobEntry \<Rightarrow>
         materialize_blob blake3 db st (dir @ [entry_name entry]) (join_relative rel (entry_name entry)) (entry_id entry)
     | TreeEntry \<Rightarrow>
         bind_io (prepare_directory (dir @ [entry_name entry])) (\<lambda>_.
         enter (entry_id entry) (dir @ [entry_name entry]) (join_relative rel (entry_name entry))))"

fun materialize_directory ::
  "hasher \<Rightarrow> 'd redb \<Rightarrow> local_object_store \<Rightarrow> capture_options \<Rightarrow> nat \<Rightarrow> object_id \<Rightarrow> path \<Rightarrow> path \<Rightarrow> ('d, unit) fm_io" where
  "materialize_directory blake3 db st options 0 i dir rel = fail_io (MatFail (MatIo dir OtherError))"
| "materialize_directory blake3 db st options (Suc n) i dir rel =
     bind_io (on_world MatObjectStore (get_tree blake3 st i)) (\<lambda>tree.
     bind_io (prune_directory dir rel (map entry_name (tree_entries tree)) options) (\<lambda>removed_paths.
     bind_io (if removed_paths = [] then return_io () else invalidate_paths removed_paths) (\<lambda>_.
     bind_io (each (materialize_entry blake3 db st (materialize_directory blake3 db st options n) dir rel)
       (tree_entries tree)) (\<lambda>_.
     store_cached_directory blake3 db rel i (tree_entries tree) True))))"

definition materialize_stats_default :: materialize_stats where
  "materialize_stats_default = \<lparr>mt_files_written = 0, mt_directories_created = 0, mt_entries_removed = 0, mt_bytes_written = 0\<rparr>"

definition materialize_tree ::
  "hasher \<Rightarrow> 'd redb \<Rightarrow> object_id \<Rightarrow> working_directory \<Rightarrow> local_object_store \<Rightarrow> ('d, materialize_result) fm_io" where
  "materialize_tree blake3 db i wd st =
     bind_io (ensure_cache_loaded db) (\<lambda>_.
     bind_io (on_world id (ensure_capture_root (wd_root wd))) (\<lambda>_.
     bind_io (modifies (\<lambda>s. s\<lparr>ms_written := materialize_stats_default\<rparr>)) (\<lambda>_.
     bind_io (gets (\<lambda>s. (fm_options (ms_fm s), budget s))) (\<lambda>(options, n).
     bind_io (materialize_directory blake3 db st options n i (wd_root wd) []) (\<lambda>_.
     bind_io (gets (\<lambda>s. \<lparr>mz_stats = ms_written s\<rparr>)) (\<lambda>result.
     bind_io (save_cache_if_dirty blake3 db) (\<lambda>_.
     bind_io drop_bulk_loaded_cache_records (\<lambda>_.
     return_io result))))))))"

end
