(* ===== verification/Cache_Validity.thy ===== *)
theory Cache_Validity
  imports Capture_Cache
begin

text \<open>
  A cache is valid when every record that a lookup may find, in memory or in the database, is right. Each operation
  of \<open>capture_cache.rs\<close> keeps a valid cache valid: lookups find only right records, an insertion needs its own
  record to be right, and an invalidation lifts the obligation for the paths it covers.
\<close>

section \<open>Valid caches\<close>

definition db_files_valid :: "'d redb \<Rightarrow> 'd \<Rightarrow> path \<Rightarrow> (path \<Rightarrow> cached_file \<Rightarrow> bool) \<Rightarrow> bool" where
  "db_files_valid db d backend P \<longleftrightarrow>
     (\<forall>p key v f. encode_key p = Ok key \<longrightarrow> db_get db backend FilesTable key d = Ok (Some v) \<longrightarrow>
        decode_file v = Some (Ok f) \<longrightarrow> P p f) \<and>
     (\<forall>p key v f. (key, v) \<in> set (fst (db_iter db backend FilesTable d)) \<longrightarrow> decode_key key = Ok p \<longrightarrow>
        decode_file v = Some (Ok f) \<longrightarrow> P p f)"

definition db_dirs_valid :: "hasher \<Rightarrow> 'd redb \<Rightarrow> 'd \<Rightarrow> path \<Rightarrow> (path \<Rightarrow> cached_directory \<Rightarrow> bool) \<Rightarrow> bool" where
  "db_dirs_valid blake3 db d backend Q \<longleftrightarrow>
     (\<forall>p key v f. encode_key p = Ok key \<longrightarrow> db_get db backend DirectoriesTable key d = Ok (Some v) \<longrightarrow>
        decode_directory blake3 v = Some (Ok f) \<longrightarrow> Q p f) \<and>
     (\<forall>p key v f. (key, v) \<in> set (fst (db_iter db backend DirectoriesTable d)) \<longrightarrow> decode_key key = Ok p \<longrightarrow>
        decode_directory blake3 v = Some (Ok f) \<longrightarrow> Q p f)"

definition cache_valid ::
  "hasher \<Rightarrow> 'd redb \<Rightarrow> 'd \<Rightarrow> (path \<Rightarrow> cached_file \<Rightarrow> bool) \<Rightarrow> (path \<Rightarrow> cached_directory \<Rightarrow> bool) \<Rightarrow> capture_cache \<Rightarrow> bool" where
  "cache_valid blake3 db d P Q c \<longleftrightarrow>
     (\<forall>p f. map_of (cc_files c) p = Some f \<longrightarrow> P p f) \<and> (\<forall>p f. map_of (cc_directories c) p = Some f \<longrightarrow> Q p f) \<and>
     (\<forall>backend. cc_backend c = Some backend \<longrightarrow>
        db_files_valid db d backend (\<lambda>p f. is_invalidated_path c p \<or> P p f) \<and>
        db_dirs_valid blake3 db d backend (\<lambda>p f. is_invalidated_path c p \<or> Q p f))"

lemma map_of_hash_insert [simp]: "map_of (hash_insert k v m) q = (if q = k then Some v else map_of m q)"
  by (simp add: hash_insert_def) (induction m; auto)

lemma map_of_retain [simp]: "map_of (retain_keys K m) q = (if K q then map_of m q else None)"
  by (simp add: retain_keys_def) (induction m; auto)

lemma is_invalidated_update [simp]:
  "is_invalidated_path (c\<lparr>cc_files := fs\<rparr>) p = is_invalidated_path c p"
  "is_invalidated_path (c\<lparr>cc_directories := ds\<rparr>) p = is_invalidated_path c p"
  "is_invalidated_path (c\<lparr>cc_dirty_files := ps\<rparr>) p = is_invalidated_path c p"
  "is_invalidated_path (c\<lparr>cc_dirty_directories := ps\<rparr>) p = is_invalidated_path c p"
  "is_invalidated_path (c\<lparr>cc_loaded_all := b\<rparr>) p = is_invalidated_path c p"
  by (simp_all add: is_invalidated_path_def)

lemma cache_valid_update [simp]:
  "cache_valid blake3 db d P Q (c\<lparr>cc_dirty_files := ps\<rparr>) = cache_valid blake3 db d P Q c"
  "cache_valid blake3 db d P Q (c\<lparr>cc_dirty_directories := ps\<rparr>) = cache_valid blake3 db d P Q c"
  "cache_valid blake3 db d P Q (c\<lparr>cc_loaded_all := b\<rparr>) = cache_valid blake3 db d P Q c"
  by (simp_all add: cache_valid_def)

lemma cache_valid_files:
  "cache_valid blake3 db d P Q c \<Longrightarrow> P p f \<Longrightarrow> cache_valid blake3 db d P Q (c\<lparr>cc_files := hash_insert p f (cc_files c)\<rparr>)"
  by (simp add: cache_valid_def)

lemma cache_valid_dirs:
  "cache_valid blake3 db d P Q c \<Longrightarrow> Q p f \<Longrightarrow>
     cache_valid blake3 db d P Q (c\<lparr>cc_directories := hash_insert p f (cc_directories c)\<rparr>)"
  by (simp add: cache_valid_def)

lemma cache_valid_mono:
  assumes "cache_valid blake3 db d P Q c" "\<And>p f. P p f \<Longrightarrow> P' p f" "\<And>p f. Q p f \<Longrightarrow> Q' p f"
  shows "cache_valid blake3 db d P' Q' c"
proof -
  have "db_files_valid db d b (\<lambda>p f. is_invalidated_path c p \<or> P p f) \<Longrightarrow>
      db_files_valid db d b (\<lambda>p f. is_invalidated_path c p \<or> P' p f)" for b
    using assms(2) unfolding db_files_valid_def by meson
  moreover have "db_dirs_valid blake3 db d b (\<lambda>p f. is_invalidated_path c p \<or> Q p f) \<Longrightarrow>
      db_dirs_valid blake3 db d b (\<lambda>p f. is_invalidated_path c p \<or> Q' p f)" for b
    using assms(3) unfolding db_dirs_valid_def by meson
  ultimately show ?thesis using assms unfolding cache_valid_def by meson
qed

lemma cache_valid_default: "cache_valid blake3 db d P Q capture_cache_default"
  by (simp add: cache_valid_def capture_cache_default_def)

lemma cache_valid_loaded:
  assumes "db_files_valid db d backend P" "db_dirs_valid blake3 db d backend Q"
  shows "cache_valid blake3 db d P Q (capture_cache_default\<lparr>cc_backend := Some backend\<rparr>)"
  using assms unfolding cache_valid_def db_files_valid_def db_dirs_valid_def
  by (simp add: capture_cache_default_def is_invalidated_path_def)

section \<open>Lookups\<close>

lemma case_sum_Some: "(case y of Inl _ \<Rightarrow> None | Inr f \<Rightarrow> Some f) = Some x \<longleftrightarrow> y = Inr x"
  by (cases y) simp_all

lemma read_cached_file_Some:
  assumes "read_cached_file db d c p = Some (Some f)"
  shows "\<exists>backend key v. cc_backend c = Some backend \<and> encode_key p = Ok key \<and>
    db_get db backend FilesTable key d = Ok (Some v) \<and> decode_file v = Some (Ok f)"
  using assms unfolding read_cached_file_def
  by (auto simp: bind_eq_Some_conv case_sum_Some simp del: not_None_eq split: option.split_asm sum.split_asm [where sum = "encode_key p"]
      sum.split_asm [where sum = "db_get a b c' e f'" for a b c' e f'])

lemma read_cached_directory_Some:
  assumes "read_cached_directory blake3 db d c p = Some (Some f)"
  shows "\<exists>backend key v. cc_backend c = Some backend \<and> encode_key p = Ok key \<and>
    db_get db backend DirectoriesTable key d = Ok (Some v) \<and> decode_directory blake3 v = Some (Ok f)"
  using assms unfolding read_cached_directory_def
  by (auto simp: bind_eq_Some_conv case_sum_Some simp del: not_None_eq split: option.split_asm sum.split_asm [where sum = "encode_key p"]
      sum.split_asm [where sum = "db_get a b c' e f'" for a b c' e f'])

lemma current_file_valid:
  assumes "current_file db d p c = Some (found, c')" "cache_valid blake3 db d P Q c"
  shows "cache_valid blake3 db d P Q c' \<and> (\<forall>f. found = Some f \<longrightarrow> P p f \<and> map_of (cc_files c') p = Some f)"
proof (cases "map_of (cc_files c) p")
  case (Some f)
  then show ?thesis using assms by (auto simp: current_file_def cache_valid_def)
next
  case None
  have "P p f" if "read_cached_file db d c p = Some (Some f)" "\<not> is_invalidated_path c p" for f
    using read_cached_file_Some [OF that(1)] that(2) assms(2) unfolding cache_valid_def db_files_valid_def by metis
  then show ?thesis
    using assms None cache_valid_files [OF assms(2)]
    by (auto simp: current_file_def bind_eq_Some_conv split: if_splits option.splits)
qed

lemma current_directory_valid:
  assumes "current_directory blake3 db d p c = Some (found, c')" "cache_valid blake3 db d P Q c"
  shows "cache_valid blake3 db d P Q c' \<and> (\<forall>f. found = Some f \<longrightarrow> Q p f \<and> map_of (cc_directories c') p = Some f)"
proof (cases "map_of (cc_directories c) p")
  case (Some f)
  then show ?thesis using assms by (auto simp: current_directory_def cache_valid_def)
next
  case None
  have "Q p f" if "read_cached_directory blake3 db d c p = Some (Some f)" "\<not> is_invalidated_path c p" for f
    using read_cached_directory_Some [OF that(1)] that(2) assms(2) unfolding cache_valid_def db_dirs_valid_def by metis
  then show ?thesis
    using assms None cache_valid_dirs [OF assms(2)]
    by (auto simp: current_directory_def bind_eq_Some_conv split: if_splits option.splits)
qed

lemma file_lookup_valid:
  assumes "file_lookup db d p fp c = Some (x, c')" "cache_valid blake3 db d P Q c"
  shows "cache_valid blake3 db d P Q c' \<and> (\<forall>hit. cl_matching x = Some hit \<longrightarrow>
    (\<exists>f. P p f \<and> cf_fingerprint f = fp \<and> ch_object_id hit = cf_object_id f \<and> ch_stored hit = cf_stored f))"
  using assms current_file_valid [OF _ assms(2)]
  by (fastforce simp: file_lookup_def bind_eq_Some_conv split: option.splits if_splits)

lemma get_cached_file_valid:
  assumes "get_cached_file db d p fp c = Some (x, c')" "cache_valid blake3 db d P Q c"
  shows "cache_valid blake3 db d P Q c' \<and>
    (\<forall>hit. x = Some hit \<longrightarrow> (\<exists>f. P p f \<and> cf_fingerprint f = fp \<and> ch_object_id hit = cf_object_id f))"
  using assms file_lookup_valid [OF _ assms(2)] by (fastforce simp: get_cached_file_def bind_eq_Some_conv)

section \<open>Insertions\<close>

lemma insert_file_valid:
  assumes "insert_file db d p fp i b c = Some (x, c')" "cache_valid blake3 db d P Q c"
    and "\<And>previous. (\<And>f. previous = Some f \<Longrightarrow> P p f) \<Longrightarrow> P p (next_file previous fp i b)"
  shows "cache_valid blake3 db d P Q c'"
proof -
  obtain previous c1 where c1: "current_file db d p c = Some (previous, c1)"
    using assms(1) by (auto simp: insert_file_def bind_eq_Some_conv)
  from current_file_valid [OF c1 assms(2)] have v: "cache_valid blake3 db d P Q c1" and prev: "\<And>f. previous = Some f \<Longrightarrow> P p f"
    by blast+
  show ?thesis
    using assms(1) c1 cache_valid_files [OF v assms(3) [OF prev]]
    by (auto simp: insert_file_def Let_def split: if_splits)
qed

lemma insert_directory_valid:
  assumes "insert_directory blake3 db d p i es b c = Some (x, c')" "cache_valid blake3 db d P Q c"
    and "\<And>keep. (keep \<Longrightarrow> b \<or> (\<exists>e. Q p e \<and> cd_tree_id e = i \<and> cd_stored e)) \<Longrightarrow>
      Q p \<lparr>cd_tree_id = i, cd_entries = es, cd_stored = keep\<rparr>"
  shows "cache_valid blake3 db d P Q c'"
proof -
  obtain previous c1 where c1: "current_directory blake3 db d p c = Some (previous, c1)"
    using assms(1) by (auto simp: insert_directory_def bind_eq_Some_conv)
  from current_directory_valid [OF c1 assms(2)] have v: "cache_valid blake3 db d P Q c1"
    and prev: "\<And>f. previous = Some f \<Longrightarrow> Q p f" by blast+
  define keep where "keep = (b \<or> (case previous of None \<Rightarrow> False | Some e \<Rightarrow> cd_tree_id e = i \<and> cd_stored e))"
  have "Q p \<lparr>cd_tree_id = i, cd_entries = es, cd_stored = keep\<rparr>"
    by (rule assms(3)) (use prev in \<open>auto simp: keep_def split: option.splits\<close>)
  from cache_valid_dirs [OF v this] show ?thesis
    using assms(1) c1 by (auto simp: insert_directory_def Let_def keep_def split: if_splits)
qed

lemma update_directory_entries_valid:
  assumes "update_directory_entries blake3 db d p es c = Some (x, c')" "cache_valid blake3 db d P Q c"
    and "\<And>t i. tree_new es = Ok t \<Longrightarrow> tree_id blake3 t = Some i \<Longrightarrow>
      Q p \<lparr>cd_tree_id = i, cd_entries = tree_entries t, cd_stored = False\<rparr>"
  shows "cache_valid blake3 db d P Q c'"
proof -
  obtain found c1 where c1: "current_directory blake3 db d p c = Some (found, c1)"
    using assms(1) by (auto simp: update_directory_entries_def bind_eq_Some_conv)
  from current_directory_valid [OF c1 assms(2)] have v: "cache_valid blake3 db d P Q c1"
    and prev: "\<And>f. found = Some f \<Longrightarrow> Q p f" by blast+
  show ?thesis
    using assms(1) c1 v cache_valid_dirs [OF v prev] cache_valid_dirs [OF v assms(3)]
    by (auto simp: update_directory_entries_def Let_def bind_eq_Some_conv split: option.splits if_splits sum.splits)
qed

section \<open>Loading, dropping and invalidating\<close>

lemma load_files_valid:
  assumes "load_files es c = Some (r, c')" "cache_valid blake3 db d P Q c"
    and "\<And>p key v f. (key, v) \<in> set es \<Longrightarrow> decode_key key = Ok p \<Longrightarrow> decode_file v = Some (Ok f) \<Longrightarrow>
      is_invalidated_path c p \<or> P p f"
  shows "cache_valid blake3 db d P Q c' \<and> cc_backend c' = cc_backend c \<and> cc_invalidations c' = cc_invalidations c"
  using assms
proof (induction es c rule: load_files.induct)
  case (2 key v es c)
  have sub: "\<And>p k x f. (k, x) \<in> set es \<Longrightarrow> decode_key k = Ok p \<Longrightarrow> decode_file x = Some (Ok f) \<Longrightarrow> is_invalidated_path c p \<or> P p f"
    using "2.prems"(3) by (meson list.set_intros(2))
  show ?case
  proof (cases "decode_key key")
    case (Inl e)
    then show ?thesis using 2 by simp
  next
    case (Inr p)
    note key = this
    show ?thesis
    proof (cases "map_of (cc_files c) p \<noteq> None \<or> is_invalidated_path c p")
      case True
      then show ?thesis using "2.prems"(1) "2.IH"(1) [OF key True _ "2.prems"(2) sub] key by simp
    next
      case False
      then obtain r1 where r1: "decode_file v = Some r1" using "2.prems"(1) key by (auto simp: bind_eq_Some_conv)
      show ?thesis
      proof (cases r1)
        case (Inr f)
        have "P p f" using "2.prems"(3) [of key v p f] key r1 Inr False by simp
        from cache_valid_files [OF "2.prems"(2) this] show ?thesis
          using "2.IH"(2) [OF key False r1 Inr] "2.prems"(1) r1 Inr key False sub by simp
      qed (use "2.prems" key False r1 in simp)
    qed
  qed
qed simp

lemma load_directories_valid:
  assumes "load_directories blake3 es c = Some (r, c')" "cache_valid blake3 db d P Q c"
    and "\<And>p key v f. (key, v) \<in> set es \<Longrightarrow> decode_key key = Ok p \<Longrightarrow> decode_directory blake3 v = Some (Ok f) \<Longrightarrow>
      is_invalidated_path c p \<or> Q p f"
  shows "cache_valid blake3 db d P Q c' \<and> cc_backend c' = cc_backend c \<and> cc_invalidations c' = cc_invalidations c"
  using assms
proof (induction blake3 es c rule: load_directories.induct)
  case (2 blake3 key v es c)
  have sub: "\<And>p k x f. (k, x) \<in> set es \<Longrightarrow> decode_key k = Ok p \<Longrightarrow> decode_directory blake3 x = Some (Ok f) \<Longrightarrow> is_invalidated_path c p \<or> Q p f"
    using "2.prems"(3) by (meson list.set_intros(2))
  show ?case
  proof (cases "decode_key key")
    case (Inl e)
    then show ?thesis using 2 by simp
  next
    case (Inr p)
    note key = this
    show ?thesis
    proof (cases "map_of (cc_directories c) p \<noteq> None \<or> is_invalidated_path c p")
      case True
      then show ?thesis using "2.prems"(1) "2.IH"(1) [OF key True _ "2.prems"(2) sub] key by simp
    next
      case False
      then obtain r1 where r1: "decode_directory blake3 v = Some r1" using "2.prems"(1) key by (auto simp: bind_eq_Some_conv)
      show ?thesis
      proof (cases r1)
        case (Inr f)
        have "Q p f" using "2.prems"(3) [of key v p f] key r1 Inr False by simp
        from cache_valid_dirs [OF "2.prems"(2) this] show ?thesis
          using "2.IH"(2) [OF key False r1 Inr] "2.prems"(1) r1 Inr key False sub by simp
      qed (use "2.prems" key False r1 in simp)
    qed
  qed
qed simp

lemma load_table_valid:
  assumes "load_table load it c = Some (r, c')" "\<And>r' c''. load (fst it) c = Some (r', c'') \<Longrightarrow> K c''"
  shows "K c'"
  using assms by (auto simp: load_table_def bind_eq_Some_conv)

lemma load_all_valid:
  assumes "load_all blake3 db d c = Some (r, c')" "cache_valid blake3 db d P Q c"
  shows "cache_valid blake3 db d P Q c'"
proof (cases "cc_loaded_all c \<or> cc_backend c = None")
  case True
  then show ?thesis using assms by (auto simp: load_all_def split: if_splits)
next
  case False
  then obtain backend where be: "cc_backend c = Some backend" and nl: "\<not> cc_loaded_all c" by auto
  have fv: "db_files_valid db d backend (\<lambda>p f. is_invalidated_path c p \<or> P p f)"
    and dv: "db_dirs_valid blake3 db d backend (\<lambda>p f. is_invalidated_path c p \<or> Q p f)"
    using assms(2) be by (simp_all add: cache_valid_def)
  obtain r1 c1 where c1: "load_table load_files (db_iter db backend FilesTable d) c = Some (r1, c1)"
    using assms(1) be nl by (auto simp: load_all_def bind_eq_Some_conv)
  have v1: "cache_valid blake3 db d P Q c1 \<and> cc_backend c1 = cc_backend c \<and> cc_invalidations c1 = cc_invalidations c"
    by (rule load_table_valid [OF c1], erule load_files_valid [OF _ assms(2)])
      (use fv in \<open>auto simp: db_files_valid_def\<close>)
  show ?thesis
  proof (cases r1)
    case (Inl e)
    then show ?thesis using assms(1) be nl c1 v1 by (simp add: load_all_def)
  next
    case (Inr u)
    then obtain r2 c2 where c2: "load_table (load_directories blake3) (db_iter db backend DirectoriesTable d) c1 = Some (r2, c2)"
      using assms(1) be nl c1 by (auto simp: load_all_def bind_eq_Some_conv)
    have inv: "is_invalidated_path c1 p = is_invalidated_path c p" for p
      using v1 by (simp add: is_invalidated_path_def)
    have "cache_valid blake3 db d P Q c2 \<and> cc_backend c2 = cc_backend c1 \<and> cc_invalidations c2 = cc_invalidations c1"
      by (rule load_table_valid [OF c2], erule load_directories_valid [OF _ conjunct1 [OF v1]])
        (use dv in \<open>auto simp: db_dirs_valid_def inv\<close>)
    then show ?thesis using assms(1) be nl c1 c2 Inr by (auto simp: load_all_def split: sum.splits)
  qed
qed

lemma drop_bulk_valid:
  assumes "cache_valid blake3 db d P Q c"
  shows "cache_valid blake3 db d P Q (drop_bulk_loaded_records c)"
  using assms by (auto simp: drop_bulk_loaded_records_def cache_valid_def is_invalidated_path_def)

text \<open>An invalidation covers its path and what is below.\<close>

lemma invalidate_path_valid:
  assumes "cache_valid blake3 db d P Q c" "\<And>p f. \<not> path_matches p q \<Longrightarrow> P p f \<Longrightarrow> P' p f"
    and "\<And>p f. \<not> path_matches p q \<Longrightarrow> Q p f \<Longrightarrow> Q' p f"
  shows "cache_valid blake3 db d P' Q' (snd (invalidate_path q c))"
proof (cases "cc_backend c")
  case None
  then show ?thesis
    using assms by (auto simp: invalidate_path_def invalidate_in_memory_def cache_valid_def Let_def)
next
  case (Some backend)
  let ?c = "snd (invalidate_path q c)"
  have inv: "is_invalidated_path ?c p \<longleftrightarrow> is_invalidated_path c p \<or> path_matches p q" for p
    using Some by (simp add: invalidate_path_def is_invalidated_path_def)
  have "db_files_valid db d backend (\<lambda>p f. is_invalidated_path ?c p \<or> P' p f)"
    using assms(1,2) Some unfolding cache_valid_def db_files_valid_def inv by meson
  moreover have "db_dirs_valid blake3 db d backend (\<lambda>p f. is_invalidated_path ?c p \<or> Q' p f)"
    using assms(1,3) Some unfolding cache_valid_def db_dirs_valid_def inv by meson
  ultimately show ?thesis
    using assms Some by (auto simp: invalidate_path_def cache_valid_def)
qed

lemma invalidated_miss:
  assumes "path_matches p q"
  shows "map_of (cc_files (snd (invalidate_path q c))) p = None"
  using assms by (auto simp: invalidate_path_def invalidate_in_memory_def Let_def)

end
