(* ===== verification/Store_Frames.thy ===== *)
theory Store_Frames
  imports Store_Contract
begin

text \<open>
  What the operations of the object store leave alone. An assertion that does not depend on the files at the
  paths of a set is kept by every call that acts on those paths only; reads keep every assertion that
  publications keep. The store acts on the paths below its root and on the directories that lead to it.
\<close>

section \<open>Frames\<close>

definition frame :: "(path \<Rightarrow> bool) \<Rightarrow> (fs \<Rightarrow> bool) \<Rightarrow> bool" where
  "frame T I \<longleftrightarrow> (\<forall>t n fs. T t \<longrightarrow> I fs \<longrightarrow> I (fs_set t n fs) \<and> I (fs_del t fs))"

definition keeps :: "(fs \<Rightarrow> path \<Rightarrow> bytes \<Rightarrow> bool) \<Rightarrow> (fs \<Rightarrow> bool) \<Rightarrow> ('e, 'a) io \<Rightarrow> bool" where
  "keeps R I m \<longleftrightarrow> hoare R I m (\<lambda>r. I)"

lemma frame_set: "frame T I \<Longrightarrow> T t \<Longrightarrow> I fs \<Longrightarrow> I (fs_set t n fs)"
  and frame_del: "frame T I \<Longrightarrow> T t \<Longrightarrow> I fs \<Longrightarrow> I (fs_del t fs)"
  by (simp_all add: frame_def)

named_theorems keeps_intros

lemma keeps_simple [keeps_intros]:
  "keeps R I (return_io x)" "keeps R I (fail_io e)" "keeps R I (result_io r)" "keeps R I process_id" "keeps R I fetch_counter"
  by (simp_all add: keeps_def hoare_return hoare_fail hoare_result hoare_process_id hoare_fetch)

lemma keeps_match [keeps_intros]: "keeps R I m \<Longrightarrow> (\<And>r. keeps R I (f r)) \<Longrightarrow> keeps R I (match_io m f)"
  unfolding keeps_def by (rule hoare_match)

lemma keeps_bind [keeps_intros]: "keeps R I m \<Longrightarrow> (\<And>x. keeps R I (f x)) \<Longrightarrow> keeps R I (bind_io m f)"
  unfolding bind_io_match by (rule keeps_match) (auto intro: keeps_intros split: sum.split)

lemma keeps_map_err [keeps_intros]: "keeps R I m \<Longrightarrow> keeps R I (map_err_io g m)"
  unfolding map_err_io_def by (intro keeps_intros)

lemma keeps_sum [keeps_intros]:
  "(\<And>e. r = Inl e \<Longrightarrow> keeps R I (f e)) \<Longrightarrow> (\<And>x. r = Inr x \<Longrightarrow> keeps R I (g x)) \<Longrightarrow> keeps R I (case r of Inl e \<Rightarrow> f e | Inr x \<Rightarrow> g x)"
  by (cases r) simp_all

lemma keeps_option [keeps_intros]:
  "(x = None \<Longrightarrow> keeps R I m) \<Longrightarrow> (\<And>y. x = Some y \<Longrightarrow> keeps R I (f y)) \<Longrightarrow> keeps R I (case x of None \<Rightarrow> m | Some y \<Rightarrow> f y)"
  by (cases x) simp_all

lemma keeps_if [keeps_intros]: "(c \<Longrightarrow> keeps R I m) \<Longrightarrow> (\<not> c \<Longrightarrow> keeps R I m') \<Longrightarrow> keeps R I (if c then m else m')"
  by simp

lemma keeps_let [keeps_intros]: "keeps R I (f x) \<Longrightarrow> keeps R I (let y = x in f y)"
  by simp

section \<open>System calls\<close>

lemma keeps_syscall:
  assumes "stable R I" "\<And>fs. I fs \<Longrightarrow> I (snd (f fs))" "\<And>n fs. I fs \<Longrightarrow> I (partial n fs)"
  shows "keeps R I (syscall f partial)"
  unfolding keeps_def by (rule hoare_syscall [OF assms(1)]) (use assms(2,3) in \<open>metis snd_conv\<close>)+

lemma keeps_read:
  assumes "stable R I"
  shows "keeps R I (try_exists p)" "keeps R I (read_file p)" "keeps R I (flush_file p)" "keeps R I (read_dir p)"
    "keeps R I dir_step" "keeps R I (file_metadata p)" "keeps R I (file_stat p)"
proof -
  have stat: "keeps R I (\<lambda>w. (Ok (g w), w))" for g by (simp add: keeps_def hoare_def)
  show "keeps R I (file_stat p)"
    unfolding file_stat_def io_defs
    by (rule keeps_bind [OF keeps_syscall stat]) (auto simp: assms no_effect_def op_metadata_def)
qed (auto simp: io_defs no_effect_def op_try_exists_def op_read_def op_read_dir_def op_metadata_def intro!: keeps_syscall assms)

lemma frame_mkdirs:
  assumes "frame T I" "\<And>n. T (pre @ take n p)"
  shows "I fs \<Longrightarrow> I (snd (mkdirs fs pre p))"
  using assms(2)
proof (induction fs pre p rule: mkdirs.induct)
  case (2 fs pre c cs)
  have T: "T (pre @ [c])" "\<And>n. T ((pre @ [c]) @ take n cs)"
    using "2.prems"(2) [of 1] "2.prems"(2) [of "Suc n" for n] by simp_all
  show ?case
  proof (cases "fs_get fs (pre @ [c])")
    case None
    then show ?thesis using "2.IH"(1) [OF None frame_set [OF assms(1) T(1) "2.prems"(1)] T(2)] by simp
  next
    case (Some n)
    then show ?thesis using "2.IH"(2) [OF Some _ "2.prems"(1) T(2)] "2.prems"(1) by (cases n) simp_all
  qed
qed simp

lemma keeps_write:
  assumes "stable R I" "frame T I"
  shows "T p \<Longrightarrow> keeps R I (create_new p)" "T p \<Longrightarrow> keeps R I (write_all p b)" "T p \<Longrightarrow> keeps R I (remove_file p)"
    "T p \<Longrightarrow> keeps R I (hard_link q p)" "T p \<Longrightarrow> keeps R I (create_dir p)"
    "(\<And>n. T (take n p)) \<Longrightarrow> keeps R I (create_dir_all p)"
proof -
  note set = frame_set [OF assms(2)] and del = frame_del [OF assms(2)]
  have wr: "T p \<Longrightarrow> I fs \<Longrightarrow> I (write_file p b fs)" for b fs
    by (auto simp: write_file_def set split: option.split node.split)
  show "T p \<Longrightarrow> keeps R I (create_new p)" "T p \<Longrightarrow> keeps R I (write_all p b)" "T p \<Longrightarrow> keeps R I (remove_file p)"
      "T p \<Longrightarrow> keeps R I (hard_link q p)" "T p \<Longrightarrow> keeps R I (create_dir p)"
    by (auto simp: io_defs no_effect_def op_create_new_def op_write_all_def wr op_remove_file_def op_hard_link_def op_create_dir_def
        intro!: keeps_syscall assms(1) set del split: sum.split node.split)
  show "(\<And>n. T (take n p)) \<Longrightarrow> keeps R I (create_dir_all p)"
    using frame_mkdirs [OF assms(2), of "[]"]
    by (auto simp: io_defs op_create_dir_all_def intro!: keeps_syscall assms(1))
qed

section \<open>The object store\<close>

text \<open>The paths that the store may change.\<close>

definition store_area :: "local_object_store \<Rightarrow> path \<Rightarrow> bool" where
  "store_area s p \<longleftrightarrow> prefix p (store_root s) \<or> prefix (store_root s) p"

lemma store_area_object: "store_area s (take n (object_path s k i))"
proof (cases "n \<le> length (store_root s)")
  case True
  then show ?thesis by (simp add: store_area_def object_path_def object_dir_def take_is_prefix)
next
  case False
  then show ?thesis by (simp add: store_area_def object_path_def object_dir_def)
qed

lemma store_area_temp: "store_area s (butlast (object_path s k i) @ [c])"
  by (simp add: store_area_def object_path_def object_dir_def butlast_append)

lemma store_area_parent: "store_area s (take n (butlast (object_path s k i)))"
  using store_area_object [of s "min n (length (object_path s k i) - 1)" k i]
  by (simp add: butlast_conv_take min.commute)

lemma keeps_read_object_file: "stable R I \<Longrightarrow> keeps R I (read_object_file k p i)"
  unfolding read_object_file_def by (intro keeps_intros keeps_read)

lemma keeps_read_blob_data_at: "stable R I \<Longrightarrow> keeps R I (read_blob_data_at blake3 s p i r)"
proof (induction blake3 s p i r rule: read_blob_data_at.induct)
  case (1 blake3 s p i r)
  show ?case
    unfolding read_blob_data_at.simps [of blake3 s p i r]
    by (intro keeps_intros keeps_read_object_file 1) auto
qed

lemma keeps_get_object_bytes: "stable R I \<Longrightarrow> keeps R I (get_object_bytes blake3 s k i)"
  unfolding get_object_bytes_def get_blob_def read_blob_data_def
  by (intro keeps_intros keeps_read_object_file keeps_read_blob_data_at)

lemma keeps_get: "stable R I \<Longrightarrow> keeps R I (get_blob blake3 s i)" "stable R I \<Longrightarrow> keeps R I (get_tree blake3 s i)"
  unfolding get_tree_def get_blob_def read_blob_data_def
  by (intro keeps_intros keeps_get_object_bytes keeps_read_blob_data_at; assumption)+

lemma keeps_verify: "stable R I \<Longrightarrow> keeps R I (verify_object_file blake3 s k p i)"
  unfolding verify_object_file_def by (intro keeps_intros keeps_read_object_file keeps_read_blob_data_at)

text \<open>Writing an object: its temporary file is beside it.\<close>

lemma keeps_write_temp:
  assumes "stable R I" "frame T I" "\<And>c. T (parent @ [c])"
  shows "keeps R I (write_temp_attempts n k parent i e)"
proof (induction n)
  case 0
  then show ?case by (simp add: keeps_intros)
next
  case (Suc n)
  note wr = keeps_write [OF assms(1,2)] and rd = keeps_read [OF assms(1)]
  have fill: "keeps R I (fill_temp (parent @ [c]) e)" for c
    unfolding fill_temp_def cleanup_temp_def by (intro keeps_intros wr rd assms(3))
  show ?case
    unfolding write_temp_attempts.simps by (intro keeps_intros wr assms(3) fill Suc)
qed

lemma keeps_bind_result:
  assumes "keeps R I m" "\<And>w x w'. m w = (Ok x, w') \<Longrightarrow> S x" "\<And>x. S x \<Longrightarrow> keeps R I (f x)"
  shows "keeps R I (bind_io m f)"
  unfolding keeps_def
proof (rule hoare_bind)
  show "hoare R I m (\<lambda>r fs. case r of Inl e \<Rightarrow> I fs | Inr x \<Rightarrow> I fs \<and> S x)"
    using assms(1,2) unfolding keeps_def hoare_def by (auto split: sum.split)
  show "hoare R (\<lambda>fs. I fs \<and> S x) (f x) (\<lambda>r. I)" for x
    using assms(3) [of x] by (cases "S x") (auto simp: keeps_def hoare_def)
qed

lemma fill_temp_path: "fill_temp p e w = (Ok t, w') \<Longrightarrow> t = p"
  by (auto simp: fill_temp_def cleanup_temp_def match_io_def fail_io_def return_io_def split: prod.splits sum.splits)

lemma write_temp_path: "write_temp_attempts n k parent i e w = (Ok t, w') \<Longrightarrow> \<exists>c. t = parent @ [c]"
proof (induction n arbitrary: w)
  case 0
  then show ?case by (simp add: fail_io_def)
next
  case (Suc n)
  then show ?case
    by (auto simp: bind_io_def match_io_def Let_def fetch_counter_def process_id_def fail_io_def
        dest: fill_temp_path split: prod.splits sum.splits if_splits)
qed

lemma keeps_put_object:
  assumes "stable R I" "frame (store_area s) I"
  shows "keeps R I (put_object blake3 s k i e)"
proof -
  note wr = keeps_write [OF assms] and rd = keeps_read [OF assms(1)] and vf = keeps_verify [OF assms(1)]
  let ?p = "object_path s k i"
  have at: "store_area s ?p" using store_area_object [of s "length ?p" k i] by simp
  have temp: "keeps R I (write_temp_object k (butlast ?p) i e)"
    unfolding write_temp_object_def by (rule keeps_write_temp [OF assms store_area_temp])
  have where_temp: "\<exists>c. t = butlast ?p @ [c]" if "write_temp_object k (butlast ?p) i e w = (Ok t, w')" for w t w'
    using that unfolding write_temp_object_def by (rule write_temp_path)
  have link: "keeps R I (link_object blake3 s k i e)"
    unfolding link_object_def Let_def
  proof (rule keeps_bind [OF keeps_map_err], rule_tac [2] keeps_bind_result [OF temp where_temp])
    show "keeps R I (create_dir_all (butlast ?p))" by (rule wr(6)) (rule store_area_parent)
    fix t
    assume "\<exists>c. t = butlast ?p @ [c]"
    then have "store_area s t" using store_area_temp by auto
    then show "keeps R I (match_io (hard_link t ?p) (\<lambda>r. case r of
         Inr _ \<Rightarrow> bind_io (remove_temp_file t) (\<lambda>_. return_io i)
       | Inl x \<Rightarrow> if x = AlreadyExists
           then bind_io (remove_temp_file t) (\<lambda>_. bind_io (verify_object_file blake3 s k ?p i) (\<lambda>_. return_io i))
           else match_io (remove_file t) (\<lambda>_. fail_io (StoreIo ?p x))))"
      unfolding remove_temp_file_def by (intro keeps_intros wr at vf)
  qed
  show ?thesis
    unfolding put_object_def Let_def by (intro keeps_intros rd vf link)
qed

lemma keeps_put_blob:
  assumes "stable R I" "frame (store_area s) I"
  shows "keeps R I (put_blob_with_base blake3 s b base)"
  unfolding put_blob_with_base_def Let_def delta_storage_bytes_def read_blob_data_def
  by (intro keeps_intros keeps_put_object [OF assms] keeps_read_blob_data_at [OF assms(1)])

section \<open>Files off a set of paths\<close>

text \<open>Every change since \<open>fs0\<close> was at \<open>T\<close>; a path has one node.\<close>

definition within :: "(path \<Rightarrow> bool) \<Rightarrow> fs \<Rightarrow> fs \<Rightarrow> bool" where
  "within T fs0 fs \<longleftrightarrow> (\<forall>p. \<not> T p \<longrightarrow> fs_get fs p = fs_get fs0 p) \<and> distinct (map fst fs)"

lemma distinct_fs_set: "distinct (map fst fs) \<Longrightarrow> distinct (map fst (fs_set p n fs))"
  by (auto simp: fs_set_def fs_del_def distinct_map_filter)

lemma distinct_fs_del: "distinct (map fst fs) \<Longrightarrow> distinct (map fst (fs_del p fs))"
  by (simp add: fs_del_def distinct_map_filter)

lemma within_refl: "distinct (map fst fs) \<Longrightarrow> within T fs fs"
  by (simp add: within_def)

lemma frame_within: "(\<And>t. S t \<Longrightarrow> T t) \<Longrightarrow> frame S (within T fs0)"
  by (auto simp: frame_def within_def fs_get_set fs_get_del distinct_fs_set distinct_fs_del)

lemma stable_within: "(\<And>fs p b. R fs p b \<Longrightarrow> T p) \<Longrightarrow> stable R (within T fs0)"
  by (auto simp: stable_def within_def fs_get_set distinct_fs_set)

end
