(* ===== verification/Directory_Trees.thy ===== *)
theory Directory_Trees
  imports Filesystem_Materializer Cache_Validity Store_Frames
begin

text \<open>
  What capturing a working directory means: the tree of a directory, as a relation on file systems that does not
  mention the cache, the store or the order in which a directory is read; and the paths that such a tree depends on.
\<close>

section \<open>The tree of a directory\<close>

text \<open>The entries of a directory that count, in the order of their names.\<close>

definition skipped :: "capture_options \<Rightarrow> rstring \<times> node \<Rightarrow> bool" where
  "skipped options x \<longleftrightarrow> fst x = bstr ''.era'' \<or> snd x = DirNode \<and> excludes_directory_name options (fst x) \<or>
     snd x = SymlinkNode"

definition shown :: "capture_options \<Rightarrow> fs \<Rightarrow> path \<Rightarrow> (rstring \<times> node) list" where
  "shown options fs dir = sort_key fst (filter (\<lambda>x. \<not> skipped options x) (dir_entries fs dir))"

text \<open>
  \<open>dir_tree blake3 options ok fs dir i\<close>: the tree of the directory is \<open>i\<close>, and every object that it is made of
  satisfies \<open>ok\<close>.
\<close>

abbreviation entry_for ::
  "hasher \<Rightarrow> (object_kind \<Rightarrow> object_id \<Rightarrow> bool) \<Rightarrow> (path \<Rightarrow> object_id \<Rightarrow> bool) \<Rightarrow> path \<Rightarrow> rstring \<times> node \<Rightarrow> tree_entry \<Rightarrow> bool" where
  "entry_for blake3 ok sub dir x e \<equiv> entry_name e = fst x \<and> validate_entry_name (fst x) = Ok () \<and>
     ((\<exists>b. snd x = FileNode b \<and> entry_kind e = BlobEntry \<and> entry_id e = from_content blake3 b \<and> ok BlobObject (entry_id e)) \<or>
      snd x = DirNode \<and> entry_kind e = TreeEntry \<and> sub (dir @ [fst x]) (entry_id e))"

inductive dir_tree :: "hasher \<Rightarrow> capture_options \<Rightarrow> (object_kind \<Rightarrow> object_id \<Rightarrow> bool) \<Rightarrow> fs \<Rightarrow> path \<Rightarrow> object_id \<Rightarrow> bool"
  for blake3 options ok fs where
  dir_tree_node:
  "list_all2 (entry_for blake3 ok (dir_tree blake3 options ok fs) dir)
     (shown options fs dir) es \<Longrightarrow>
   tree_id blake3 \<lparr>tree_entries = es\<rparr> = Some i \<Longrightarrow> ok TreeObject i \<Longrightarrow>
   dir_tree blake3 options ok fs dir i"

inductive_cases dir_treeE: "dir_tree blake3 options ok fs dir i"

text \<open>A file system has one tree for a directory.\<close>

lemma entry_eqI: "entry_name e = entry_name f \<Longrightarrow> entry_kind e = entry_kind f \<Longrightarrow> entry_id e = entry_id f \<Longrightarrow> e = (f :: tree_entry)"
  by (cases e; cases f) simp

lemma list_all2_functional:
  "list_all2 P xs ys \<Longrightarrow> list_all2 Q xs zs \<Longrightarrow> (\<And>x y z. x \<in> set xs \<Longrightarrow> P x y \<Longrightarrow> Q x z \<Longrightarrow> y = z) \<Longrightarrow> ys = zs"
proof (induction xs arbitrary: ys zs)
  case (Cons x xs)
  then obtain y ys' z zs' where "ys = y # ys'" "zs = z # zs'" "P x y" "Q x z" "list_all2 P xs ys'" "list_all2 Q xs zs'"
    by (auto simp: list_all2_Cons1)
  then show ?case using Cons.IH [of ys' zs'] Cons.prems(3) by (metis list.set_intros)
qed simp

lemma dir_tree_unique: "dir_tree blake3 options ok fs dir i \<Longrightarrow> dir_tree blake3 options ok' fs dir j \<Longrightarrow> i = j"
proof (induction arbitrary: j rule: dir_tree.induct)
  case (dir_tree_node dir es i)
  from dir_tree_node.prems obtain es' where
      es': "list_all2 (entry_for blake3 ok' (dir_tree blake3 options ok' fs) dir)
       (shown options fs dir) es'" and j: "tree_id blake3 \<lparr>tree_entries = es'\<rparr> = Some j"
    by (rule dir_treeE) blast
  have "es = es'"
    by (rule list_all2_functional [OF dir_tree_node.IH(1) es']) (auto intro!: entry_eqI)
  then show ?case using dir_tree_node.hyps(1) j by simp
qed

lemma dir_tree_mono:
  assumes "dir_tree blake3 options ok fs dir i" "\<And>k j. ok k j \<Longrightarrow> ok' k j"
  shows "dir_tree blake3 options ok' fs dir i"
  using assms(1)
proof (induction rule: dir_tree.induct)
  case (dir_tree_node dir es i)
  show ?case
    by (rule dir_tree.dir_tree_node [OF list.rel_mono_strong [OF dir_tree_node.IH(1)] dir_tree_node.hyps(1)])
      (use assms(2) dir_tree_node.hyps(2) in auto)
qed

lemma dir_tree_valid: "dir_tree blake3 options ok fs dir i \<Longrightarrow> hash_ok blake3 \<Longrightarrow> valid_id i"
  by (erule dir_treeE) (auto simp: tree_id_def valid_from_content)

section \<open>The paths that a tree depends on\<close>

text \<open>The metadata of a repository is hidden from its working directory.\<close>

definition hidden :: "path \<Rightarrow> path \<Rightarrow> bool" where
  "hidden root p \<longleftrightarrow> \<not> strict_prefix root p \<or> bstr ''.era'' \<in> set (drop (length root) p)"

text \<open>A directory at or below the root, without a hidden component.\<close>

definition in_tree :: "path \<Rightarrow> path \<Rightarrow> bool" where
  "in_tree root dir \<longleftrightarrow> prefix root dir \<and> bstr ''.era'' \<notin> set (drop (length root) dir)"

lemma in_tree_root [simp]: "in_tree root root"
  by (simp add: in_tree_def)

lemma in_tree_child: "in_tree root dir \<Longrightarrow> name \<noteq> bstr ''.era'' \<Longrightarrow> in_tree root (dir @ [name])"
  by (auto simp: in_tree_def prefix_def)

lemma child_not_hidden: "in_tree root dir \<Longrightarrow> name \<noteq> bstr ''.era'' \<Longrightarrow> \<not> hidden root (dir @ [name])"
  by (auto simp: hidden_def in_tree_def prefix_def strict_prefix_def)

lemma set_dir_entries:
  assumes "distinct (map fst fs)"
  shows "set (dir_entries fs dir) = {(name, n). fs_get fs (dir @ [name]) = Some n}"
proof -
  have "(name, n) \<in> set (dir_entries fs dir) \<longleftrightarrow> fs_get fs (dir @ [name]) = Some n" for name n
  proof -
    have "(name, n) \<in> set (dir_entries fs dir) \<longleftrightarrow> (\<exists>q. (q, n) \<in> set fs \<and> q \<noteq> [] \<and> butlast q = dir \<and> last q = name)"
      by (auto simp: dir_entries_def image_iff)
    also have "\<dots> \<longleftrightarrow> (dir @ [name], n) \<in> set fs"
      by (metis append_butlast_last_id butlast_snoc last_snoc snoc_eq_iff_butlast)
    also have "\<dots> \<longleftrightarrow> fs_get fs (dir @ [name]) = Some n"
      using assms by (simp add: fs_get_def)
    finally show ?thesis .
  qed
  then show ?thesis by auto
qed

lemma distinct_dir_entries:
  assumes "distinct (map fst fs)"
  shows "distinct (map fst (dir_entries fs dir))"
proof -
  have inj: "inj_on last {q. q \<noteq> [] \<and> butlast q = dir}"
    by (rule inj_onI) (metis (mono_tags, lifting) append_butlast_last_id mem_Collect_eq)
  have "distinct (map fst (filter (\<lambda>(q, n). q \<noteq> [] \<and> butlast q = dir) fs))"
    using assms by (rule distinct_map_filter)
  then have "distinct (map last (map fst (filter (\<lambda>(q, n). q \<noteq> [] \<and> butlast q = dir) fs)))"
    by (subst distinct_map) (auto intro!: inj_on_subset [OF inj])
  moreover have "map fst (dir_entries fs dir) = map last (map fst (filter (\<lambda>(q, n). q \<noteq> [] \<and> butlast q = dir) fs))"
    by (simp add: dir_entries_def case_prod_beta)
  ultimately show ?thesis by simp
qed

lemma sort_key_unique:
  assumes "set xs = set ys" "distinct (map f xs)" "distinct (map f ys)"
  shows "sort_key f xs = sort_key f ys"
proof (rule map_sorted_distinct_set_unique [where f = f])
  show "inj_on f (set (sort_key f xs) \<union> set (sort_key f ys))" using assms by (simp add: distinct_map)
  show "distinct (map f (sort_key f xs))" "distinct (map f (sort_key f ys))"
    using assms by (simp_all add: distinct_map)
qed (simp_all add: assms(1))

lemma shown_cong:
  assumes "within (hidden root) fs0 fs" "distinct (map fst fs0)" "in_tree root dir"
  shows "shown options fs dir = shown options fs0 dir"
  unfolding shown_def
proof (rule sort_key_unique)
  have d: "distinct (map fst fs)" using assms(1) by (simp add: within_def)
  have same: "fs_get fs (dir @ [name]) = fs_get fs0 (dir @ [name])" if "name \<noteq> bstr ''.era''" for name
    using assms(1) child_not_hidden [OF assms(3) that] by (simp add: within_def)
  show "set (filter (\<lambda>x. \<not> skipped options x) (dir_entries fs dir)) = set (filter (\<lambda>x. \<not> skipped options x) (dir_entries fs0 dir))"
    by (auto simp: set_dir_entries [OF d] set_dir_entries [OF assms(2)] skipped_def same)
  show "distinct (map fst (filter (\<lambda>x. \<not> skipped options x) (dir_entries fs dir)))"
    "distinct (map fst (filter (\<lambda>x. \<not> skipped options x) (dir_entries fs0 dir)))"
    using distinct_dir_entries [OF d] distinct_dir_entries [OF assms(2)] by (simp_all add: distinct_map_filter)
qed

lemma dir_tree_cong:
  assumes "dir_tree blake3 options ok fs0 dir i" "within (hidden root) fs0 fs" "distinct (map fst fs0)" "in_tree root dir"
  shows "dir_tree blake3 options ok fs dir i"
  using assms(1,4)
proof (induction rule: dir_tree.induct)
  case (dir_tree_node dir es i)
  have child: "in_tree root (dir @ [fst x])" if "x \<in> set (shown options fs dir)" for x
    using that dir_tree_node.prems by (auto simp: shown_def skipped_def intro!: in_tree_child)
  have same: "shown options fs dir = shown options fs0 dir" by (rule shown_cong [OF assms(2,3) dir_tree_node.prems])
  show ?case
  proof (rule dir_tree.dir_tree_node [where es = es])
    show "list_all2 (entry_for blake3 ok (dir_tree blake3 options ok fs) dir)
       (shown options fs dir) es"
      by (rule list.rel_mono_strong [OF dir_tree_node.IH(1) [folded same]]) (use child in blast)
  qed (use dir_tree_node.hyps in auto)
qed

section \<open>Reading a directory\<close>

definition entry_at :: "path \<Rightarrow> path \<Rightarrow> rstring \<times> node \<Rightarrow> directory_entry" where
  "entry_at dir rel x = \<lparr>de_name = fst x, de_path = dir @ [fst x], de_relative_path = rel @ [fst x], de_type = node_type (snd x)\<rparr>"

lemma read_entries_Ok:
  "read_entries dir rel xs w = (Ok es, w') \<Longrightarrow> es = map (entry_at dir rel) xs"
proof (induction xs arbitrary: es w)
  case Nil
  then show ?case by (auto simp: bind_io_def return_io_def split: prod.splits sum.splits)
next
  case (Cons x xs)
  then show ?case
    by (cases x) (auto simp: bind_io_def return_io_def fail_io_def entry_at_def join_relative_def split: prod.splits sum.splits if_splits)
qed

lemma keeps_read_directory_entries:
  assumes "stable R I"
  shows "keeps R I (read_directory_entries dir rel)"
proof -
  have "keeps R I (read_entries dir rel xs)" for xs
    by (induction dir rel xs rule: read_entries.induct) (auto intro!: keeps_intros keeps_read [OF assms])
  then show ?thesis unfolding read_directory_entries_def by (intro keeps_intros keeps_read [OF assms])
qed

lemma hoare_read_directory_entries:
  assumes "stable R I"
  shows "hoare R I (read_directory_entries dir rel) (\<lambda>r fs. I fs \<and> (\<forall>es. r = Ok es \<longrightarrow>
    (\<exists>fs'. I fs' \<and> es = sort_key de_name (map (entry_at dir rel) (dir_entries fs' dir)))))"
proof -
  let ?L = "\<lambda>xs. \<exists>fs'. I fs' \<and> xs = dir_entries fs' dir"
  have rd: "hoare R I (map_err_io (MatIo dir) (read_dir dir)) (\<lambda>r fs. case r of
      Inl e \<Rightarrow> I fs \<and> (\<forall>es. Inl e = Ok es \<longrightarrow> Q es) | Inr xs \<Rightarrow> I fs \<and> ?L xs)" for Q :: "directory_entry list \<Rightarrow> bool"
    unfolding read_dir_def
    by (rule hoare_map_err, rule hoare_syscall [OF assms])
      (auto simp: op_read_dir_def no_effect_def split: sum.splits if_splits)
  have step: "hoare R (\<lambda>fs. I fs \<and> ?L xs) (bind_io (read_entries dir rel xs) (\<lambda>es. return_io (sort_key de_name es)))
      (\<lambda>r fs. I fs \<and> (\<forall>es. r = Ok es \<longrightarrow> (\<exists>fs'. I fs' \<and> es = sort_key de_name (map (entry_at dir rel) (dir_entries fs' dir)))))" for xs
  proof (cases "?L xs")
    case True
    have k: "keeps R I (bind_io (read_entries dir rel xs) (\<lambda>es. return_io (sort_key de_name es)))"
      by (intro keeps_intros, induction dir rel xs rule: read_entries.induct) (auto intro!: keeps_intros keeps_read [OF assms])
    have "es = sort_key de_name (map (entry_at dir rel) xs)"
      if "bind_io (read_entries dir rel xs) (\<lambda>es. return_io (sort_key de_name es)) w = (Ok es, w')" for es w w'
      using that read_entries_Ok by (auto simp: bind_io_def return_io_def split: prod.splits sum.splits)
    then show ?thesis
      using k True unfolding keeps_def hoare_def by metis
  qed (auto simp: hoare_def)
  show ?thesis unfolding read_directory_entries_def by (rule hoare_bind [OF rd step])
qed

end
