(* ===== verification/Capture_Logic.thy ===== *)
theory Capture_Logic
  imports Directory_Trees
begin

text \<open>
  Assertions over the runs that read a working directory: capturing, scanning and comparing. While such a run
  lasts, the files of the directory stay as they were, the store and the hidden files may grow, and the cache is
  valid: a record that matches a file has its identifier, and what is marked as stored is in the store.
\<close>

section \<open>What stays true\<close>

text \<open>The site of a run: its parameters, the working directory, and the files and stamps it started from.\<close>

record 'd site =
  cx_hash :: hasher
  cx_db :: "'d redb"
  cx_store :: local_object_store
  cx_root :: path
  cx_options :: capture_options
  cx_fs :: fs
  cx_stamps :: "path \<Rightarrow> file_stamp"

definition site_ok :: "'d site \<Rightarrow> bool" where
  "site_ok X \<longleftrightarrow> hash_ok (cx_hash X) \<and> distinct (map fst (cx_fs X)) \<and> (\<forall>p. store_area (cx_store X) p \<longrightarrow> hidden (cx_root X) p)"

definition cx_rely :: "'d site \<Rightarrow> fs \<Rightarrow> path \<Rightarrow> bytes \<Rightarrow> bool" where
  "cx_rely X fs p b \<longleftrightarrow> store_rely (cx_hash X) (cx_store X) fs p b \<and> hidden (cx_root X) p"

definition has_object :: "'d site \<Rightarrow> fs \<Rightarrow> object_kind \<Rightarrow> object_id \<Rightarrow> bool" where
  "has_object X fs = object_ok (cx_hash X) (cx_store X) fs"

definition grows :: "'d site \<Rightarrow> fs \<Rightarrow> fs \<Rightarrow> bool" where
  "grows X fs1 fs \<longleftrightarrow> fs_ext fs1 fs \<and> within (hidden (cx_root X)) (cx_fs X) fs \<and> store_ok (cx_hash X) (cx_store X) fs"

definition file_right :: "'d site \<Rightarrow> fs \<Rightarrow> path \<Rightarrow> cached_file \<Rightarrow> bool" where
  "file_right X fs p f \<longleftrightarrow> (cf_stored f \<longrightarrow> has_object X fs BlobObject (cf_object_id f)) \<and>
     (\<forall>b. \<not> hidden (cx_root X) (cx_root X @ p) \<longrightarrow> fs_get (cx_fs X) (cx_root X @ p) = Some (FileNode b) \<longrightarrow>
        cf_fingerprint f = fingerprint_from_metadata (FileNode b, cx_stamps X (cx_root X @ p)) \<longrightarrow>
        cf_object_id f = from_content (cx_hash X) b)"

definition dir_right :: "'d site \<Rightarrow> fs \<Rightarrow> path \<Rightarrow> cached_directory \<Rightarrow> bool" where
  "dir_right X fs p d \<longleftrightarrow> valid_id (cd_tree_id d) \<and> (cd_stored d \<longrightarrow> has_object X fs TreeObject (cd_tree_id d))"

definition cap_inv :: "'d site \<Rightarrow> fs \<Rightarrow> 'd mat_state \<Rightarrow> bool" where
  "cap_inv X fs1 s \<longleftrightarrow> (\<forall>fs p b. w_rely (ms_world s) fs p b \<longrightarrow> cx_rely X fs p b) \<and> w_stamps (ms_world s) = cx_stamps X \<and>
     fm_options (ms_fm s) = cx_options X \<and> grows X fs1 (w_fs (ms_world s)) \<and>
     cache_valid (cx_hash X) (cx_db X) (ms_db s) (file_right X (w_fs (ms_world s))) (dir_right X (w_fs (ms_world s)))
       (fm_cache (ms_fm s))"

text \<open>
  \<open>proc X G m Q\<close>: where \<open>G\<close> holds of the files, \<open>m\<close> keeps what stays true, and a value it returns satisfies \<open>Q\<close>.
\<close>

definition proc :: "'d site \<Rightarrow> (fs \<Rightarrow> bool) \<Rightarrow> ('d, 'a) fm_io \<Rightarrow> ('a \<Rightarrow> fs \<Rightarrow> bool) \<Rightarrow> bool" where
  "proc X G m Q \<longleftrightarrow> (\<forall>fs1. runs (\<lambda>s. cap_inv X fs1 s \<and> G (w_fs (ms_world s))) m
     (\<lambda>r s. cap_inv X fs1 s \<and> (\<forall>x. r = Ok x \<longrightarrow> Q x (w_fs (ms_world s)))))"

definition growing :: "(fs \<Rightarrow> bool) \<Rightarrow> bool" where
  "growing G \<longleftrightarrow> (\<forall>fs fs'. fs_ext fs fs' \<longrightarrow> G fs \<longrightarrow> G fs')"

lemma has_object_ext: "fs_ext fs fs' \<Longrightarrow> has_object X fs k i \<Longrightarrow> has_object X fs' k i"
  unfolding has_object_def by (blast intro: object_ok_ext)

lemma cache_right_ext:
  assumes "fs_ext fs fs'" "cache_valid h db d (file_right X fs) (dir_right X fs) c"
  shows "cache_valid h db d (file_right X fs') (dir_right X fs') c"
  by (rule cache_valid_mono [OF assms(2)]) (auto simp: file_right_def dir_right_def intro: has_object_ext [OF assms(1)])

lemma cap_inv_trans: "cap_inv X fs2 s \<Longrightarrow> fs_ext fs1 fs2 \<Longrightarrow> cap_inv X fs1 s"
  by (auto simp: cap_inv_def grows_def intro: fs_ext_trans)

lemma cap_inv_self: "cap_inv X fs1 s \<Longrightarrow> cap_inv X (w_fs (ms_world s)) s"
  by (auto simp: cap_inv_def grows_def)

lemma cap_inv_ext: "cap_inv X fs1 s \<Longrightarrow> fs_ext fs1 (w_fs (ms_world s))"
  by (simp add: cap_inv_def grows_def)

lemma growing_const [simp]: "growing (\<lambda>fs. c)"
  by (simp add: growing_def)

lemma growing_conj: "growing G \<Longrightarrow> growing H \<Longrightarrow> growing (\<lambda>fs. G fs \<and> H fs)"
  unfolding growing_def by blast

section \<open>Rules\<close>

lemma procI:
  assumes "\<And>fs1 s r s'. cap_inv X fs1 s \<Longrightarrow> G (w_fs (ms_world s)) \<Longrightarrow> m s = (r, s') \<Longrightarrow>
    cap_inv X fs1 s' \<and> (\<forall>x. r = Ok x \<longrightarrow> Q x (w_fs (ms_world s')))"
  shows "proc X G m Q"
  using assms unfolding proc_def runs_def by blast

lemma procD:
  assumes "proc X G m Q" "m s = (r, s')" "cap_inv X fs1 s" "G (w_fs (ms_world s))"
  shows "cap_inv X fs1 s' \<and> (\<forall>x. r = Ok x \<longrightarrow> Q x (w_fs (ms_world s')))"
  using assms unfolding proc_def runs_def by blast

lemma proc_bind:
  assumes m: "proc X G m M" and G: "growing G"
    and f: "\<And>x. proc X (\<lambda>fs. G fs \<and> M x fs) (f x) Q"
  shows "proc X G (bind_io m f) Q"
proof (rule procI)
  fix fs1 s r s'
  assume inv: "cap_inv X fs1 s" and Gs: "G (w_fs (ms_world s))" and run: "bind_io m f s = (r, s')"
  obtain r1 s1 where m1: "m s = (r1, s1)" by fastforce
  have 1: "cap_inv X (w_fs (ms_world s)) s1" "\<And>x. r1 = Ok x \<Longrightarrow> M x (w_fs (ms_world s1))"
    using procD [OF m m1 cap_inv_self [OF inv] Gs] by auto
  have inv1: "cap_inv X fs1 s1" by (rule cap_inv_trans [OF 1(1) cap_inv_ext [OF inv]])
  have G1: "G (w_fs (ms_world s1))" using G Gs cap_inv_ext [OF 1(1)] unfolding growing_def by blast
  show "cap_inv X fs1 s' \<and> (\<forall>x. r = Ok x \<longrightarrow> Q x (w_fs (ms_world s')))"
  proof (cases r1)
    case (Inl e)
    then show ?thesis using run m1 inv1 by (auto simp: bind_io_def)
  next
    case (Inr x)
    then have "f x s1 = (r, s')" using run m1 by (simp add: bind_io_def)
    from procD [OF f this inv1] show ?thesis using G1 1(2) [OF Inr] by blast
  qed
qed

lemma proc_return: "(\<And>fs. G fs \<Longrightarrow> Q x fs) \<Longrightarrow> proc X G (return_io x) Q"
  by (auto intro!: procI simp: return_io_def)

lemma proc_fail: "proc X G (fail_io e) Q"
  by (auto intro!: procI simp: fail_io_def)

lemma proc_result: "(\<And>fs x. G fs \<Longrightarrow> r = Ok x \<Longrightarrow> Q x fs) \<Longrightarrow> proc X G (result_io r) Q"
  by (auto intro!: procI simp: result_io_def)

lemma proc_pre: "proc X G m Q \<Longrightarrow> (\<And>fs. H fs \<Longrightarrow> G fs) \<Longrightarrow> proc X H m Q"
  unfolding proc_def runs_def by blast

lemma proc_post: "proc X G m Q \<Longrightarrow> (\<And>x fs. Q x fs \<Longrightarrow> R x fs) \<Longrightarrow> proc X G m R"
  unfolding proc_def runs_def by blast

lemma proc_false: "(\<And>fs. \<not> G fs) \<Longrightarrow> proc X G m Q"
  by (auto intro: procI)

lemma proc_option:
  "(x = None \<Longrightarrow> proc X G m Q) \<Longrightarrow> (\<And>y. x = Some y \<Longrightarrow> proc X G (f y) Q) \<Longrightarrow> proc X G (case x of None \<Rightarrow> m | Some y \<Rightarrow> f y) Q"
  by (cases x) simp_all

lemma proc_if: "(c \<Longrightarrow> proc X G m Q) \<Longrightarrow> (\<not> c \<Longrightarrow> proc X G m' Q) \<Longrightarrow> proc X G (if c then m else m') Q"
  by simp

text \<open>A change of the accumulators or of the flags of the materializer.\<close>

lemma proc_modifies:
  assumes "\<And>s. ms_world (f s) = ms_world s" "\<And>s. ms_db (f s) = ms_db s" "\<And>s. fm_cache (ms_fm (f s)) = fm_cache (ms_fm s)"
    "\<And>s. fm_options (ms_fm (f s)) = fm_options (ms_fm s)"
  shows "proc X G (modifies f) (\<lambda>x. G)"
  using assms by (auto intro!: procI simp: modifies_def cap_inv_def)

lemma proc_gets: "proc X G (gets f) (\<lambda>x fs. G fs)"
  by (auto intro!: procI simp: gets_def)

lemma proc_gets_fact: "(\<And>fs1 s. cap_inv X fs1 s \<Longrightarrow> P (f s)) \<Longrightarrow> proc X G (gets f) (\<lambda>x fs. P x)"
  by (auto intro!: procI simp: gets_def)

lemma proc_modify:
  "proc X G (modify_capture g) (\<lambda>x. G)" "proc X G (modify_scan h) (\<lambda>x. G)" "proc X G (push_issue p) (\<lambda>x. G)"
  "proc X G (push_change p k) (\<lambda>x. G)" "proc X G (set_dirty b) (\<lambda>x. G)"
  unfolding modify_capture_def modify_scan_def push_issue_def push_change_def set_dirty_def
  by (rule proc_modifies; simp)+

section \<open>The world\<close>

lemma proc_try_world:
  assumes "\<And>fs1. hoare (cx_rely X) (grows X fs1) m (\<lambda>r fs. grows X fs1 fs \<and> Q r fs)"
  shows "proc X G (try_world m) Q"
proof (rule procI)
  fix fs1 s r s'
  assume inv: "cap_inv X fs1 s" and run: "try_world m s = (r, s')"
  obtain r1 w1 where w1: "m (ms_world s) = (r1, w1)" by fastforce
  have s': "s' = s\<lparr>ms_world := w1\<rparr>" and r: "r = Ok r1" using run w1 by (simp_all add: try_world_def)
  have rely: "\<And>fs p b. w_rely (ms_world s) fs p b \<Longrightarrow> cx_rely X fs p b" and g: "grows X (w_fs (ms_world s)) (w_fs (ms_world s))"
    using inv by (auto simp: cap_inv_def grows_def)
  have post: "(grows X (w_fs (ms_world s)) (w_fs w1) \<and> Q r1 (w_fs w1)) \<and> w_rely w1 = w_rely (ms_world s)"
    using hoareD [OF assms w1] rely g by blast
  have stamps: "w_stamps w1 = w_stamps (ms_world s)" using hoare_stamps [OF assms w1] rely g by blast
  have ext: "fs_ext (w_fs (ms_world s)) (w_fs w1)" using post by (simp add: grows_def)
  have "cap_inv X fs1 s'"
    using inv post stamps cache_right_ext [OF ext] fs_ext_trans [OF _ ext]
    by (auto simp: cap_inv_def s' grows_def)
  then show "cap_inv X fs1 s' \<and> (\<forall>x. r = Ok x \<longrightarrow> Q x (w_fs (ms_world s')))"
    using post r s' by simp
qed

lemma proc_on_world:
  assumes "\<And>fs1. hoare (cx_rely X) (grows X fs1) m (\<lambda>r fs. grows X fs1 fs \<and> (\<forall>x. r = Ok x \<longrightarrow> Q x fs))"
  shows "proc X G (on_world g m) Q"
proof -
  have "proc X (\<lambda>fs. True) (on_world g m) Q"
    unfolding on_world_def
    by (rule proc_bind [OF proc_try_world [OF assms]]) (auto intro: proc_result)
  then show ?thesis by (rule proc_pre) simp
qed

lemma stable_grows: "stable (cx_rely X) (grows X fs1)"
  unfolding grows_def
  by (intro stable_conj stable_ext stable_within stable_store_ok) (auto simp: cx_rely_def)

text \<open>Reading a file of the working directory gives what was there from the start.\<close>

lemma grows_get: "grows X fs1 fs \<Longrightarrow> \<not> hidden (cx_root X) p \<Longrightarrow> fs_get fs p = fs_get (cx_fs X) p"
  by (simp add: grows_def within_def)

lemma proc_read_file:
  "proc X G (on_world g (read_file p)) (\<lambda>b fs. fits_memory b \<and>
     (\<not> hidden (cx_root X) p \<longrightarrow> fs_get (cx_fs X) p = Some (FileNode b)))"
  unfolding read_file_def
proof (rule proc_on_world, rule hoare_syscall [OF stable_grows])
  fix fs1 fs r fs'
  assume "grows X fs1 fs" "op_read p fs = (r, fs')"
  then show "grows X fs1 fs' \<and> (\<forall>b. r = Ok b \<longrightarrow> fits_memory b \<and> (\<not> hidden (cx_root X) p \<longrightarrow> fs_get (cx_fs X) p = Some (FileNode b)))"
    by (auto simp: op_read_def grows_get [symmetric] dest: resolve_get split: sum.splits node.splits if_splits)
qed (simp add: no_effect_def)

lemma proc_metadata:
  "proc X G (try_world (file_metadata p)) (\<lambda>r fs. \<forall>n. r = Ok n \<longrightarrow> \<not> hidden (cx_root X) p \<longrightarrow> fs_get (cx_fs X) p = Some n)"
  unfolding file_metadata_def
  by (rule proc_try_world, rule hoare_syscall [OF stable_grows])
    (auto simp: op_metadata_def no_effect_def grows_get [symmetric] dest: resolve_get)

lemma file_stat_run:
  "file_stat p w = (r, w') \<Longrightarrow> \<exists>r0. file_metadata p w = (r0, w') \<and> r = (case r0 of Inl e \<Rightarrow> Inl e | Inr n \<Rightarrow> Inr (n, w_stamps w' p))"
  by (auto simp: file_stat_def bind_io_def split: prod.splits sum.splits)

lemma proc_file_stat:
  "proc X G (on_world g (file_stat p)) (\<lambda>x fs. snd x = cx_stamps X p \<and>
     (\<not> hidden (cx_root X) p \<longrightarrow> fs_get (cx_fs X) p = Some (fst x)))"
proof (rule procI)
  fix fs1 s r s'
  assume inv: "cap_inv X fs1 s" and run: "on_world g (file_stat p) s = (r, s')"
  obtain r0 w' where st: "file_metadata p (ms_world s) = (r0, w')" by fastforce
  have m: "try_world (file_metadata p) s = (Ok r0, s\<lparr>ms_world := w'\<rparr>)" by (simp add: try_world_def st)
  have 1: "cap_inv X fs1 (s\<lparr>ms_world := w'\<rparr>) \<and> (\<forall>n. r0 = Ok n \<longrightarrow> \<not> hidden (cx_root X) p \<longrightarrow> fs_get (cx_fs X) p = Some n)"
    using procD [OF proc_metadata [of X "\<lambda>_. True"] m inv] by simp
  have "file_stat p (ms_world s) = (case r0 of Inl e \<Rightarrow> Inl e | Inr n \<Rightarrow> Inr (n, w_stamps w' p), w')"
    by (simp add: file_stat_def bind_io_def st split: sum.split)
  then have "s' = s\<lparr>ms_world := w'\<rparr> \<and> (\<forall>x. r = Ok x \<longrightarrow> (\<exists>n. r0 = Ok n \<and> x = (n, w_stamps w' p)))"
    using run by (auto simp: on_world_def bind_io_def try_world_def result_io_def split: sum.splits prod.splits)
  then show "cap_inv X fs1 s' \<and> (\<forall>x. r = Ok x \<longrightarrow> snd x = cx_stamps X p \<and>
      (\<not> hidden (cx_root X) p \<longrightarrow> fs_get (cx_fs X) p = Some (fst x)))"
    using 1 by (auto simp: cap_inv_def)
qed

text \<open>A directory at or below the root shows its original entries.\<close>

definition listed :: "'d site \<Rightarrow> path \<Rightarrow> (rstring \<times> node) list \<Rightarrow> bool" where
  "listed X dir ys \<longleftrightarrow> sorted (map fst ys) \<and> distinct (map fst ys) \<and>
     (\<forall>x \<in> set ys. fst x \<noteq> bstr ''.era'' \<longrightarrow> fs_get (cx_fs X) (dir @ [fst x]) = Some (snd x)) \<and>
     (\<forall>options. filter (\<lambda>x. \<not> skipped options x) ys = shown options (cx_fs X) dir)"

lemma insort_key_map: "insort_key f (g x) (map g ys) = map g (insort_key (\<lambda>x. f (g x)) x ys)"
  by (induction ys) simp_all

lemma sort_key_map: "sort_key f (map g xs) = map g (sort_key (\<lambda>x. f (g x)) xs)"
  by (induction xs) (simp_all add: insort_key_map)

lemma sort_entries: "sort_key de_name (map (entry_at dir rel) xs) = map (entry_at dir rel) (sort_key fst xs)"
  by (simp add: sort_key_map entry_at_def)

lemma proc_read_directory_entries:
  assumes "in_tree (cx_root X) dir" "site_ok X"
  shows "proc X G (on_world g (read_directory_entries dir rel))
    (\<lambda>es fs. \<exists>ys. es = map (entry_at dir rel) ys \<and> listed X dir ys)"
proof (rule proc_on_world, rule hoare_post [OF hoare_read_directory_entries [OF stable_grows]])
  fix fs1 r fs
  assume *: "grows X fs1 fs \<and> (\<forall>es. r = Ok es \<longrightarrow> (\<exists>fs'. grows X fs1 fs' \<and>
      es = sort_key de_name (map (entry_at dir rel) (dir_entries fs' dir))))"
  have "listed X dir (sort_key fst (dir_entries fs' dir))" if g: "grows X fs1 fs'" for fs'
  proof -
    have w: "within (hidden (cx_root X)) (cx_fs X) fs'" and d: "distinct (map fst fs')" "distinct (map fst (cx_fs X))"
      using g assms(2) by (auto simp: grows_def within_def site_ok_def)
    have "filter (\<lambda>x. \<not> skipped options x) (sort_key fst (dir_entries fs' dir)) = shown options fs' dir" for options
      by (simp add: shown_def filter_sort)
    then show ?thesis
      using shown_cong [OF w d(2) assms(1)] distinct_dir_entries [OF d(1)] set_dir_entries [OF d(1)]
        grows_get [OF g child_not_hidden [OF assms(1)]]
      by (auto simp: listed_def distinct_map)
  qed
  then show "grows X fs1 fs \<and> (\<forall>es. r = Ok es \<longrightarrow> (\<exists>ys. es = map (entry_at dir rel) ys \<and> listed X dir ys))"
    using * unfolding sort_entries by blast
qed

end
