(* ===== verification/Capture_Correctness.thy ===== *)
theory Capture_Correctness
  imports Capture_Logic
begin

text \<open>
  Capturing, scanning and comparing a working directory give its tree: whatever the cache holds, as long as it is
  valid, and whatever fails on the way. A capture stores every object that its tree is made of.
\<close>

section \<open>The cache\<close>

lemma proc_on_cache:
  assumes "\<And>fs d c x c'. G fs \<Longrightarrow> f d c = Some (x, c') \<Longrightarrow>
    cache_valid (cx_hash X) (cx_db X) d (file_right X fs) (dir_right X fs) c \<Longrightarrow>
    cache_valid (cx_hash X) (cx_db X) d (file_right X fs) (dir_right X fs) c' \<and> Q x fs"
  shows "proc X G (on_cache f) Q"
proof (rule procI)
  fix fs1 s r s'
  assume inv: "cap_inv X fs1 s" and G: "G (w_fs (ms_world s))" and run: "on_cache f s = (r, s')"
  show "cap_inv X fs1 s' \<and> (\<forall>x. r = Ok x \<longrightarrow> Q x (w_fs (ms_world s')))"
  proof (cases "f (ms_db s) (fm_cache (ms_fm s))")
    case None
    then show ?thesis using run inv by (auto simp: on_cache_def)
  next
    case (Some y)
    obtain x c where y: "y = (x, c)" by fastforce
    have s': "s' = s\<lparr>ms_fm := (ms_fm s)\<lparr>fm_cache := c\<rparr>\<rparr>" "r = Ok x" using run Some y by (auto simp: on_cache_def)
    have "cache_valid (cx_hash X) (cx_db X) (ms_db s) (file_right X (w_fs (ms_world s))) (dir_right X (w_fs (ms_world s)))
        (fm_cache (ms_fm s))" using inv by (simp add: cap_inv_def)
    from assms [OF G Some [unfolded y] this] show ?thesis using inv by (simp add: cap_inv_def s')
  qed
qed

lemma proc_cache_update:
  assumes "\<And>fs d c x c'. G fs \<Longrightarrow> f d c = Some (x, c') \<Longrightarrow>
    cache_valid (cx_hash X) (cx_db X) d (file_right X fs) (dir_right X fs) c \<Longrightarrow>
    cache_valid (cx_hash X) (cx_db X) d (file_right X fs) (dir_right X fs) c'"
  shows "proc X G (cache_update f) (\<lambda>x fs. True)"
proof (rule procI)
  fix fs1 s r s'
  assume inv: "cap_inv X fs1 s" and G: "G (w_fs (ms_world s))" and run: "cache_update f s = (r, s')"
  obtain r1 s1 where s1: "on_cache f s = (r1, s1)" by fastforce
  have "proc X G (on_cache f) (\<lambda>x fs. True)" by (rule proc_on_cache) (use assms in blast)
  from procD [OF this s1 inv G] have "cap_inv X fs1 s1" by blast
  then show "cap_inv X fs1 s' \<and> (\<forall>x. r = Ok x \<longrightarrow> True)"
    using run s1 by (auto simp: cache_update_def bind_io_def set_dirty_def modifies_def return_io_def cap_inv_def
        split: sum.splits if_splits)
qed

lemma proc_file_lookup:
  "proc X G (cached_file_lookup_of (cx_db X) p fp) (\<lambda>x fs. \<forall>hit. cl_matching x = Some hit \<longrightarrow>
     (\<exists>f. file_right X fs p f \<and> cf_fingerprint f = fp \<and> ch_object_id hit = cf_object_id f \<and> ch_stored hit = cf_stored f))"
  unfolding cached_file_lookup_of_def by (rule proc_on_cache) (rule file_lookup_valid)

lemma proc_cached_file_id:
  "proc X G (cached_file_id (cx_db X) p fp) (\<lambda>x fs. \<forall>hit. x = Some hit \<longrightarrow>
     (\<exists>f. file_right X fs p f \<and> cf_fingerprint f = fp \<and> ch_object_id hit = cf_object_id f))"
  unfolding cached_file_id_def by (rule proc_on_cache) (rule get_cached_file_valid)

lemma proc_cached_directory:
  "proc X G (cached_directory_of (cx_hash X) (cx_db X) p) (\<lambda>x fs. \<forall>d. x = Some d \<longrightarrow> dir_right X fs p d)"
  unfolding cached_directory_of_def get_directory_def
  by (rule proc_on_cache) (simp add: current_directory_valid)

lemma file_right_next:
  assumes "\<And>f. previous = Some f \<Longrightarrow> file_right X fs p f" "b \<Longrightarrow> has_object X fs BlobObject i"
    and "file_right X fs p \<lparr>cf_fingerprint = fp, cf_object_id = i, cf_stored = False, cf_stored_base_id = None\<rparr>"
  shows "file_right X fs p (next_file previous fp i b)"
  using assms by (auto simp: next_file_def file_right_def Let_def split: option.splits)

lemma proc_store_file:
  assumes "\<And>fs. G fs \<Longrightarrow> (b \<longrightarrow> has_object X fs BlobObject i) \<and>
    file_right X fs p \<lparr>cf_fingerprint = fp, cf_object_id = i, cf_stored = False, cf_stored_base_id = None\<rparr>"
  shows "proc X G (store_cached_file_id (cx_db X) p fp i b) (\<lambda>x fs. True)"
  unfolding store_cached_file_id_def
proof (rule proc_cache_update)
  fix fs d c x c'
  assume G: "G fs" and run: "insert_file (cx_db X) d p fp i b c = Some (x, c')"
    and c: "cache_valid (cx_hash X) (cx_db X) d (file_right X fs) (dir_right X fs) c"
  show "cache_valid (cx_hash X) (cx_db X) d (file_right X fs) (dir_right X fs) c'"
    by (rule insert_file_valid [OF run c], rule file_right_next) (use assms [OF G] in auto)
qed

lemma proc_store_directory:
  assumes "\<And>fs. G fs \<Longrightarrow> valid_id i \<and> (b \<longrightarrow> has_object X fs TreeObject i)"
  shows "proc X G (store_cached_directory (cx_hash X) (cx_db X) p i es b) (\<lambda>x fs. True)"
  unfolding store_cached_directory_def
  by (rule proc_cache_update, erule insert_directory_valid, assumption)
    (use assms in \<open>auto simp: dir_right_def\<close>)

section \<open>The object store\<close>

lemma hoare_grows_put:
  assumes "site_ok X" "hoare (cx_rely X) (\<lambda>fs. fs_ext fs1 fs \<and> store_ok (cx_hash X) (cx_store X) fs) m (put_post (cx_hash X) (cx_store X) fs1 k i)"
    and "keeps (cx_rely X) (within (hidden (cx_root X)) (cx_fs X)) m"
  shows "hoare (cx_rely X) (grows X fs1) m (\<lambda>r fs. grows X fs1 fs \<and> (\<forall>j. r = Ok j \<longrightarrow> j = i \<and> has_object X fs k i))"
proof -
  have "hoare (cx_rely X) (grows X fs1) m (\<lambda>r fs. put_post (cx_hash X) (cx_store X) fs1 k i r fs \<and> within (hidden (cx_root X)) (cx_fs X) fs)"
    by (rule hoare_conj; rule hoare_pre [OF assms(2)] hoare_pre [OF assms(3) [unfolded keeps_def]]) (simp_all add: grows_def)
  then show ?thesis by (rule hoare_post) (auto simp: grows_def has_object_def)
qed

lemma keeps_within_put:
  assumes "site_ok X"
  shows "keeps (cx_rely X) (within (hidden (cx_root X)) (cx_fs X)) (put_object h (cx_store X) k i e)"
    "keeps (cx_rely X) (within (hidden (cx_root X)) (cx_fs X)) (put_blob_with_base h (cx_store X) b base)"
  using assms by (auto simp: site_ok_def cx_rely_def intro!: keeps_put_object keeps_put_blob stable_within frame_within)

lemma rely_store: "cx_rely X fs p b \<Longrightarrow> store_rely (cx_hash X) (cx_store X) fs p b"
  by (simp add: cx_rely_def)

lemma proc_put_blob:
  assumes "site_ok X" "fits_memory b"
  shows "proc X G (on_world g (put_blob_with_base (cx_hash X) (cx_store X) b base))
    (\<lambda>j fs. j = from_content (cx_hash X) b \<and> has_object X fs BlobObject j)"
proof (rule proc_on_world, rule hoare_post [OF hoare_grows_put [OF assms(1) _ keeps_within_put(2) [OF assms(1)]]])
  show "hoare (cx_rely X) (\<lambda>fs. fs_ext fs1 fs \<and> store_ok (cx_hash X) (cx_store X) fs)
      (put_blob_with_base (cx_hash X) (cx_store X) b base) (put_post (cx_hash X) (cx_store X) fs1 BlobObject (from_content (cx_hash X) b))" for fs1
    using assms by (intro hoare_put_blob_with_base rely_store) (simp_all add: site_ok_def)
qed auto

lemma proc_put_tree:
  assumes "site_ok X" "tree_to_canonical_bytes t = Some b" "fits_memory b"
  shows "proc X G (put_tree_io (cx_hash X) (cx_store X) t) (\<lambda>j fs. has_object X fs TreeObject (from_content (cx_hash X) b))"
proof -
  have put: "put_tree_io (cx_hash X) (cx_store X) t =
      (on_world MatObjectStore (put_object (cx_hash X) (cx_store X) TreeObject (from_content (cx_hash X) b) b) :: ('a, object_id) fm_io)"
    by (simp add: put_tree_io_def put_tree_def assms(2) or_abort_def bind_io_def result_io_def fun_eq_iff)
  show ?thesis
    unfolding put
  proof (rule proc_on_world, rule hoare_post [OF hoare_grows_put [OF assms(1) _ keeps_within_put(1) [OF assms(1)]]])
    show "hoare (cx_rely X) (\<lambda>fs. fs_ext fs1 fs \<and> store_ok (cx_hash X) (cx_store X) fs)
        (put_object (cx_hash X) (cx_store X) TreeObject (from_content (cx_hash X) b) b)
        (put_post (cx_hash X) (cx_store X) fs1 TreeObject (from_content (cx_hash X) b))" for fs1
      using assms by (intro hoare_put_raw rely_store) (simp_all add: site_ok_def)
  qed auto
qed

lemma proc_tree_id:
  "proc X G (tree_id_io h t) (\<lambda>i fs. G fs \<and> (\<exists>b. tree_to_canonical_bytes t = Some b \<and> fits_memory b \<and> i = from_content h b))"
  unfolding tree_id_io_def by (auto intro!: proc_fail proc_return split: option.split)

section \<open>Capturing\<close>

text \<open>A step with a result that does not depend on the files, and one whose result is passed on.\<close>

lemma proc_bind_fact:
  assumes "proc X G m (\<lambda>x fs. P x)" "growing G" "\<And>x. P x \<Longrightarrow> proc X G (f x) Q"
  shows "proc X G (bind_io m f) Q"
proof (rule proc_bind [OF assms(1,2)])
  show "proc X (\<lambda>fs. G fs \<and> P x) (f x) Q" for x
    by (cases "P x") (auto intro: proc_pre [OF assms(3)] proc_false)
qed

lemma proc_bind_skip:
  assumes "proc X G m (\<lambda>x fs. True)" "growing G" "\<And>x. proc X G (f x) Q"
  shows "proc X G (bind_io m f) Q"
  by (rule proc_bind_fact [OF assms(1,2)]) (rule assms(3))

lemma proc_modify_skip:
  "proc X G (modify_capture g) (\<lambda>x fs. True)" "proc X G (modify_scan h) (\<lambda>x fs. True)" "proc X G (push_issue p) (\<lambda>x fs. True)"
  "proc X G (push_change p k) (\<lambda>x fs. True)" "proc X G (set_dirty b) (\<lambda>x fs. True)" "proc X G (gets f) (\<lambda>x fs. True)"
  by (rule proc_modify [THEN proc_post] proc_gets [THEN proc_post], simp)+

text \<open>A file of the working directory, in a listing of its directory.\<close>

definition seen :: "'d site \<Rightarrow> path \<Rightarrow> path \<Rightarrow> rstring \<times> node \<Rightarrow> bool" where
  "seen X dir rel x \<longleftrightarrow> dir = cx_root X @ rel \<and> in_tree (cx_root X) dir \<and> fst x \<noteq> bstr ''.era'' \<and>
     fs_get (cx_fs X) (dir @ [fst x]) = Some (snd x)"

lemma file_right_here:
  assumes "seen X dir rel x" "file_right X fs (rel @ [fst x]) f" "snd x = FileNode b"
    and "cf_fingerprint f = fingerprint_from_metadata (FileNode b, cx_stamps X (dir @ [fst x]))"
  shows "cf_object_id f = from_content (cx_hash X) b" "cf_stored f \<Longrightarrow> has_object X fs BlobObject (cf_object_id f)"
  using assms child_not_hidden [of "cx_root X" dir "fst x"] by (auto simp: file_right_def seen_def)

lemma file_right_new:
  assumes "seen X dir rel x" "snd x = FileNode b"
  shows "file_right X fs (rel @ [fst x]) \<lparr>cf_fingerprint = fp, cf_object_id = from_content (cx_hash X) b, cf_stored = False,
    cf_stored_base_id = None\<rparr>"
  using assms by (auto simp: file_right_def seen_def)

lemma proc_seen_stat:
  assumes "seen X dir rel x"
  shows "proc X G (on_world g (file_stat (dir @ [fst x]))) (\<lambda>m fs. m = (snd x, cx_stamps X (dir @ [fst x])))"
  by (rule proc_post [OF proc_file_stat])
    (use assms child_not_hidden [of "cx_root X" dir "fst x"] in \<open>auto simp: seen_def prod_eq_iff\<close>)

lemma proc_seen_read:
  assumes "seen X dir rel x" "snd x = FileNode b"
  shows "proc X G (on_world g (read_file (dir @ [fst x]))) (\<lambda>c fs. c = b \<and> fits_memory b)"
  by (rule proc_post [OF proc_read_file])
    (use assms child_not_hidden [of "cx_root X" dir "fst x"] in \<open>auto simp: seen_def\<close>)

lemma proc_capture_current_file:
  assumes X: "site_ok X" and seen: "seen X dir rel x" and b: "snd x = FileNode b"
  shows "proc X (\<lambda>fs. True) (capture_current_file (cx_hash X) (cx_db X) (cx_store X) (entry_at dir rel x) base)
    (\<lambda>i fs. i = from_content (cx_hash X) b \<and> has_object X fs BlobObject i)"
  unfolding capture_current_file_def entry_at_def directory_entry.simps
proof (rule proc_bind_fact [OF proc_seen_stat [OF seen] growing_const], unfold Let_def, rule proc_bind [OF proc_file_lookup growing_const],
    rule proc_option)
  fix m and c :: cached_file_lookup
  assume m: "m = (snd x, cx_stamps X (dir @ [fst x]))"
  let ?fp = "fingerprint_from_metadata m" and ?i = "from_content (cx_hash X) b"
  let ?Q = "\<lambda>i fs. i = ?i \<and> has_object X fs BlobObject i"
  have grow: "growing (?Q i)" for i by (auto simp: growing_def intro: has_object_ext)
  let ?G = "\<lambda>fs. True \<and> (\<forall>hit. cl_matching c = Some hit \<longrightarrow> (\<exists>f. file_right X fs (rel @ [fst x]) f \<and> cf_fingerprint f = ?fp \<and>
      ch_object_id hit = cf_object_id f \<and> ch_stored hit = cf_stored f))"
  {
    fix i
    assume hit: "cached_hit c = Some i"
    have "?G fs \<Longrightarrow> ?Q i fs" for fs
      using hit file_right_here [OF seen _ b] m b by (fastforce simp: cached_hit_def split: option.splits if_splits)
    then have here: "?G fs \<Longrightarrow> ?Q i fs" for fs by blast
    show "proc X ?G (bind_io (modify_capture g) (\<lambda>_. return_io i)) ?Q" for g
      by (rule proc_pre [OF _ here], rule proc_bind_skip [OF proc_modify_skip(1) grow], rule proc_return) auto
  }
  show "proc X ?G (bind_io (on_world g1 (read_file (dir @ [fst x]))) (\<lambda>bytes.
      bind_io (on_world g2 (put_blob_with_base (cx_hash X) (cx_store X) bytes base')) (\<lambda>i.
      bind_io (modify_capture (g3 bytes)) (\<lambda>_.
      bind_io (store_cached_file_id (cx_db X) (rel @ [fst x]) ?fp i True) (\<lambda>_. return_io i)))))
    ?Q" for g1 g2 g3 base'
  proof (rule proc_pre [where G = "\<lambda>fs. True"], rule proc_bind_fact [OF proc_seen_read [OF seen b] growing_const])
    fix bytes
    assume bytes: "bytes = b \<and> fits_memory b"
    have put: "proc X (\<lambda>fs. True) (on_world g2 (put_blob_with_base (cx_hash X) (cx_store X) b base')) ?Q"
      by (rule proc_put_blob [OF X conjunct2 [OF bytes]])
    show "proc X (\<lambda>fs. True) (bind_io (on_world g2 (put_blob_with_base (cx_hash X) (cx_store X) bytes base')) (\<lambda>i.
        bind_io (modify_capture (g3 bytes)) (\<lambda>_.
        bind_io (store_cached_file_id (cx_db X) (rel @ [fst x]) ?fp i True) (\<lambda>_. return_io i))))
      ?Q"
      unfolding conjunct1 [OF bytes]
    proof (rule proc_bind [OF put growing_const], rule proc_pre)
      show "proc X (?Q i) (bind_io (modify_capture (g3 b)) (\<lambda>_.
          bind_io (store_cached_file_id (cx_db X) (rel @ [fst x]) ?fp i True) (\<lambda>_. return_io i))) ?Q" for i
        by (rule proc_bind_skip [OF proc_modify_skip(1) grow], rule proc_bind_skip [OF proc_store_file grow])
          (auto intro!: proc_return intro: file_right_new [OF seen b])
    qed simp
  qed simp
qed

text \<open>
  The tree entry of a directory entry. \<open>K\<close> says which objects are meant to be there: for a capture those of the
  store, for a scan any.
\<close>

definition monotone_in :: "(fs \<Rightarrow> object_kind \<Rightarrow> object_id \<Rightarrow> bool) \<Rightarrow> bool" where
  "monotone_in K \<longleftrightarrow> (\<forall>fs fs' k i. fs_ext fs fs' \<longrightarrow> K fs k i \<longrightarrow> K fs' k i)"

abbreviation tree_of :: "'d site \<Rightarrow> capture_options \<Rightarrow> (fs \<Rightarrow> object_kind \<Rightarrow> object_id \<Rightarrow> bool) \<Rightarrow> fs \<Rightarrow> path \<Rightarrow> object_id \<Rightarrow> bool" where
  "tree_of X options K fs \<equiv> dir_tree (cx_hash X) options (K fs) (cx_fs X)"

definition entry_of ::
  "'d site \<Rightarrow> capture_options \<Rightarrow> (fs \<Rightarrow> object_kind \<Rightarrow> object_id \<Rightarrow> bool) \<Rightarrow> path \<Rightarrow> fs \<Rightarrow> rstring \<times> node \<Rightarrow> tree_entry \<Rightarrow> bool" where
  "entry_of X options K dir fs = entry_for (cx_hash X) (K fs) (tree_of X options K fs) dir"

lemma monotone_has_object: "monotone_in (has_object X)"
  unfolding monotone_in_def by (blast intro: has_object_ext)

lemma monotone_any: "monotone_in (\<lambda>fs k i. True)"
  by (simp add: monotone_in_def)

lemma growing_tree_of: "monotone_in K \<Longrightarrow> growing (\<lambda>fs. tree_of X options K fs dir i)"
  unfolding growing_def monotone_in_def by (blast intro: dir_tree_mono)

lemma growing_entry_of:
  assumes "monotone_in K"
  shows "growing (\<lambda>fs. entry_of X options K dir fs x e)"
  using growing_tree_of [OF assms] assms unfolding growing_def monotone_in_def entry_of_def by blast

lemma growing_entries_of:
  assumes "monotone_in K"
  shows "growing (\<lambda>fs. list_all2 (entry_of X options K dir fs) xs es)"
  using growing_entry_of [OF assms] unfolding growing_def by (blast intro: list.rel_mono_strong)

lemma tree_entry_new_Ok: "tree_entry_new name k i = Ok e \<longleftrightarrow> validate_entry_name name = Ok () \<and> e = \<lparr>entry_name = name, entry_kind = k, entry_id = i\<rparr>"
  by (cases "validate_entry_name name") (auto simp: tree_entry_new_def bind_result_def)

lemma proc_blob_entry:
  assumes "snd x = FileNode b"
  shows "proc X (\<lambda>fs. i = from_content (cx_hash X) b \<and> K fs BlobObject i) (invalid_entry p (tree_entry_blob (fst x) i))
    (\<lambda>e fs. entry_of X options K dir fs x e)"
  unfolding invalid_entry_def
  by (rule proc_result) (auto simp: assms entry_of_def tree_entry_blob_def tree_entry_new_Ok map_err_def split: sum.splits)

lemma proc_tree_entry:
  assumes "snd x = DirNode"
  shows "proc X (\<lambda>fs. tree_of X options K fs (dir @ [fst x]) i) (invalid_entry p (tree_entry_tree (fst x) i))
    (\<lambda>e fs. entry_of X options K dir fs x e)"
  unfolding invalid_entry_def
  by (rule proc_result) (auto simp: assms entry_of_def tree_entry_tree_def tree_entry_new_Ok map_err_def split: sum.splits)

lemma proc_bind_entry:
  assumes "proc X (\<lambda>fs. True) m M" "\<And>i. growing (M i)" "\<And>i. proc X (M i) (f i) (\<lambda>e fs. E fs e)" "\<And>e. growing (\<lambda>fs. E fs e)"
  shows "proc X (\<lambda>fs. True) (bind_io m (\<lambda>i. bind_io (f i) (\<lambda>e. return_io (Some e)))) (\<lambda>r fs. \<exists>e. r = Some e \<and> E fs e)"
    "proc X (\<lambda>fs. True) (bind_io m f) (\<lambda>e fs. E fs e)"
proof -
  show "proc X (\<lambda>fs. True) (bind_io m f) (\<lambda>e fs. E fs e)"
    by (rule proc_bind [OF assms(1) growing_const]) (simp add: assms(3))
  have "proc X (M i) (bind_io (f i) (\<lambda>e. return_io (Some e))) (\<lambda>r fs. \<exists>e. r = Some e \<and> E fs e)" for i
    by (rule proc_bind [OF assms(3,2)]) (auto intro: proc_return)
  then show "proc X (\<lambda>fs. True) (bind_io m (\<lambda>i. bind_io (f i) (\<lambda>e. return_io (Some e)))) (\<lambda>r fs. \<exists>e. r = Some e \<and> E fs e)"
    by (intro proc_bind [OF assms(1) growing_const]) simp
qed

lemma growing_blob: "monotone_in K \<Longrightarrow> growing (\<lambda>fs. i = j \<and> K fs BlobObject i)"
  by (auto simp: growing_def monotone_in_def)

text \<open>What a turn of the loop gives.\<close>

definition turn_right ::
  "'d site \<Rightarrow> capture_options \<Rightarrow> (fs \<Rightarrow> object_kind \<Rightarrow> object_id \<Rightarrow> bool) \<Rightarrow> path \<Rightarrow> rstring \<times> node \<Rightarrow> tree_entry option \<Rightarrow> fs \<Rightarrow> bool" where
  "turn_right X options K dir x r fs \<longleftrightarrow> (if skipped options x then r = None else \<exists>e. r = Some e \<and> entry_of X options K dir fs x e)"

lemma should_skip_entry_at: "should_skip_entry options (entry_at dir rel x) \<longleftrightarrow> skipped options x \<and> (fst x = bstr ''.era'' \<or> snd x \<noteq> SymlinkNode)"
  by (auto simp: should_skip_entry_def entry_at_def skipped_def node_type_def split: node.splits)

lemma node_type_entry_at:
  "de_type (entry_at dir rel x) = TypeFile \<longleftrightarrow> (\<exists>b. snd x = FileNode b)" "de_type (entry_at dir rel x) = TypeDir \<longleftrightarrow> snd x = DirNode"
  "de_type (entry_at dir rel x) = TypeSymlink \<longleftrightarrow> snd x = SymlinkNode"
  by (auto simp: entry_at_def node_type_def split: node.splits)

lemma proc_collect_entries:
  assumes "monotone_in K" "\<And>x. x \<in> set xs \<Longrightarrow> proc X (\<lambda>fs. True) (f (g x)) (turn_right X options K dir x)"
  shows "proc X (\<lambda>fs. True) (collect_entries f (map g xs))
    (\<lambda>es fs. list_all2 (entry_of X options K dir fs) (filter (\<lambda>x. \<not> skipped options x) xs) es)"
  using assms(2)
proof (induction xs)
  case (Cons x xs)
  have grow: "growing (\<lambda>fs. True \<and> turn_right X options K dir x r fs)" for r
    using growing_entry_of [OF assms(1), of X options dir x] by (auto simp: turn_right_def growing_def)
  have rest: "proc X (\<lambda>fs. True \<and> turn_right X options K dir x r fs) (collect_entries f (map g xs))
      (\<lambda>es fs. list_all2 (entry_of X options K dir fs) (filter (\<lambda>x. \<not> skipped options x) xs) es)" for r
    by (rule proc_pre [OF Cons.IH]) (use Cons.prems in auto)
  show ?case
    unfolding list.map collect_entries.simps
    by (rule proc_bind [OF Cons.prems growing_const], simp, rule proc_bind [OF rest grow], rule proc_return)
      (auto simp: turn_right_def split: if_splits)
qed (auto intro: proc_return)

text \<open>The entries of a listing come in the order of the tree.\<close>

lemma tree_new_listed:
  assumes "tree_new es = Ok t" "list_all2 (entry_of X options K dir fs) (filter p ys) es" "listed X dir ys"
  shows "tree_entries t = es"
proof -
  have "map entry_name es = map fst (filter p ys)"
    using assms(2) by (induction rule: list_all2_induct) (auto simp: entry_of_def)
  moreover have "sorted (map fst (filter p ys))" using assms(3) by (simp add: listed_def sorted_filter)
  ultimately have "sort_key entry_name es = es" by (simp add: sort_key_id_if_sorted)
  then show ?thesis using assms(1) by (simp add: tree_new_Ok)
qed

definition entries_ready ::
  "'d site \<Rightarrow> capture_options \<Rightarrow> (fs \<Rightarrow> object_kind \<Rightarrow> object_id \<Rightarrow> bool) \<Rightarrow> path \<Rightarrow> tree_entry list \<Rightarrow> fs \<Rightarrow> bool" where
  "entries_ready X options K dir es fs \<longleftrightarrow> list_all2 (entry_of X options K dir fs) (shown options (cx_fs X) dir) es"

lemma growing_ready: "monotone_in K \<Longrightarrow> growing (entries_ready X options K dir es)"
  unfolding entries_ready_def by (rule growing_entries_of)

lemma ready_tree:
  assumes "entries_ready X options K dir es fs" "tree_to_canonical_bytes \<lparr>tree_entries = es\<rparr> = Some b" "K fs TreeObject (from_content (cx_hash X) b)"
  shows "tree_of X options K fs dir (from_content (cx_hash X) b)"
  by (rule dir_tree.dir_tree_node [where es = es])
    (use assms in \<open>auto simp: entries_ready_def entry_of_def tree_id_def\<close>)

lemma proc_tree_new:
  assumes "listed X dir ys"
  shows "proc X (entries_ready X options K dir es) (invalid_entry p (tree_new es)) (\<lambda>t fs. t = \<lparr>tree_entries = es\<rparr>)"
  unfolding invalid_entry_def
proof (rule proc_result)
  fix fs t
  assume ready: "entries_ready X options K dir es fs" and "map_err (\<lambda>e. MatFail (InvalidTreeEntry p e)) (tree_new es) = Ok t"
  then have t: "tree_new es = Ok t" by (auto simp: map_err_def split: sum.splits)
  have "tree_entries t = es"
    by (rule tree_new_listed [OF t _ assms, where p = "\<lambda>x. \<not> skipped options x"])
      (use ready assms in \<open>simp add: entries_ready_def listed_def\<close>)
  then show "t = \<lparr>tree_entries = es\<rparr>" by simp
qed

lemma valid_content: "site_ok X \<Longrightarrow> valid_id (from_content (cx_hash X) b)"
  by (simp add: site_ok_def valid_from_content)

lemma proc_capture_tree_of:
  assumes X: "site_ok X" and ys: "listed X dir ys"
  shows "proc X (entries_ready X options (has_object X) dir es) (capture_tree_of (cx_hash X) (cx_db X) (cx_store X) dir rel es)
    (\<lambda>i fs. tree_of X options (has_object X) fs dir i)"
  unfolding capture_tree_of_def
proof (rule proc_bind_fact [OF proc_tree_new [OF ys] growing_ready [OF monotone_has_object]])
  fix t
  assume t: "t = \<lparr>tree_entries = es\<rparr>"
  let ?G = "entries_ready X options (has_object X) dir es"
  note grow = growing_ready [OF monotone_has_object [of X], of X options dir es]
  have tid: "proc X ?G (tree_id_io (cx_hash X) t) (\<lambda>i fs. \<exists>b. tree_to_canonical_bytes t = Some b \<and> fits_memory b \<and> i = from_content (cx_hash X) b)"
    by (rule proc_post [OF proc_tree_id]) blast
  show "proc X ?G (bind_io (tree_id_io (cx_hash X) t) (\<lambda>i. bind_io (cached_directory_of (cx_hash X) (cx_db X) rel) (\<lambda>cached.
      bind_io (case cached of
         Some d \<Rightarrow> if cd_stored d \<and> cd_tree_id d = i then return_io ()
           else bind_io (put_tree_io (cx_hash X) (cx_store X) t) (\<lambda>_. modify_capture (\<lambda>c. c\<lparr>cs_trees_stored := cs_trees_stored c + 1\<rparr>))
       | None \<Rightarrow> bind_io (put_tree_io (cx_hash X) (cx_store X) t) (\<lambda>_. modify_capture (\<lambda>c. c\<lparr>cs_trees_stored := cs_trees_stored c + 1\<rparr>)))
      (\<lambda>_. bind_io (store_cached_directory (cx_hash X) (cx_db X) rel i (tree_entries t) True) (\<lambda>_. return_io i)))))
    (\<lambda>i fs. tree_of X options (has_object X) fs dir i)"
  proof (rule proc_bind_fact [OF tid grow], elim exE conjE, rule proc_bind [OF proc_cached_directory grow])
    fix i b cached
    assume b: "tree_to_canonical_bytes t = Some b" "fits_memory b" and i: "i = from_content (cx_hash X) b"
    let ?H = "\<lambda>fs. ?G fs \<and> (\<forall>d. cached = Some d \<longrightarrow> dir_right X fs rel d)" and ?S = "\<lambda>fs. ?G fs \<and> has_object X fs TreeObject i"
    have growH: "growing ?H" using grow by (auto simp: growing_def dir_right_def intro: has_object_ext)
    have growS: "growing ?S" using grow by (auto simp: growing_def intro: has_object_ext)
    let ?put = "bind_io (put_tree_io (cx_hash X) (cx_store X) t) (\<lambda>_. modify_capture (\<lambda>c. c\<lparr>cs_trees_stored := cs_trees_stored c + 1\<rparr>))"
    have "proc X ?H ?put (\<lambda>x fs. has_object X fs TreeObject i)"
      by (rule proc_bind [OF proc_put_tree [OF X b] growH], rule proc_post [OF proc_modify(1)]) (auto simp: i)
    then have stored: "proc X ?H (case cached of Some d \<Rightarrow> if cd_stored d \<and> cd_tree_id d = i then return_io () else ?put | None \<Rightarrow> ?put)
        (\<lambda>x fs. has_object X fs TreeObject i)"
      by (intro proc_option proc_if proc_return) (auto simp: dir_right_def)
    have "proc X ?S (bind_io (store_cached_directory (cx_hash X) (cx_db X) rel i (tree_entries t) True) (\<lambda>_. return_io i))
        (\<lambda>i fs. tree_of X options (has_object X) fs dir i)"
      by (rule proc_bind_skip [OF proc_store_directory growS])
        (use b ready_tree [of X options "has_object X" dir es] in \<open>auto simp: i t valid_content [OF X] intro!: proc_return\<close>)
    then show "proc X ?H (bind_io (case cached of
         Some d \<Rightarrow> if cd_stored d \<and> cd_tree_id d = i then return_io () else ?put | None \<Rightarrow> ?put)
      (\<lambda>_. bind_io (store_cached_directory (cx_hash X) (cx_db X) rel i (tree_entries t) True) (\<lambda>_. return_io i)))
      (\<lambda>i fs. tree_of X options (has_object X) fs dir i)"
      by (intro proc_bind [OF stored growH]) (auto elim: proc_pre)
  qed
qed

lemma proc_capture_entry:
  assumes X: "site_ok X" and dir: "dir = cx_root X @ rel" "in_tree (cx_root X) dir"
    and x: "fst x \<noteq> bstr ''.era'' \<Longrightarrow> fs_get (cx_fs X) (dir @ [fst x]) = Some (snd x)"
    and enter: "fst x \<noteq> bstr ''.era'' \<Longrightarrow> proc X (\<lambda>fs. True) (enter (dir @ [fst x]) (rel @ [fst x]))
      (\<lambda>i fs. tree_of X options (has_object X) fs (dir @ [fst x]) i)"
  shows "proc X (\<lambda>fs. True) (capture_entry (cx_hash X) (cx_db X) (cx_store X) options enter (entry_at dir rel x))
    (turn_right X options (has_object X) dir x)"
proof (cases "should_skip_entry options (entry_at dir rel x)")
  case True
  then show ?thesis
    by (auto simp: capture_entry_def should_skip_entry_at turn_right_def intro!: proc_bind_skip proc_modify_skip proc_return)
next
  case False
  note mono = monotone_has_object [of X] and names = entry_at_def
  have x_ok: "fst x \<noteq> bstr ''.era''" using False by (auto simp: should_skip_entry_def entry_at_def)
  have seen: "seen X dir rel x" using dir x [OF x_ok] x_ok by (simp add: seen_def)
  show ?thesis
  proof (cases "snd x")
    case (FileNode b)
    have "\<not> skipped options x" using False FileNode by (auto simp: should_skip_entry_at)
    then show ?thesis
      using False FileNode proc_bind_entry(1) [OF proc_capture_current_file [OF X seen FileNode] growing_blob [OF mono]
        proc_blob_entry [OF FileNode] growing_entry_of [OF mono]]
      by (simp add: capture_entry_def turn_right_def [abs_def] names node_type_def)
  next
    case DirNode
    have "\<not> skipped options x" using False DirNode by (auto simp: should_skip_entry_at)
    then show ?thesis
      using False DirNode proc_bind_entry(1) [OF enter [OF x_ok] growing_tree_of [OF mono] proc_tree_entry [OF DirNode] growing_entry_of [OF mono]]
      by (simp add: capture_entry_def turn_right_def [abs_def] names node_type_def)
  next
    case SymlinkNode
    then show ?thesis
      using False by (auto simp: capture_entry_def names node_type_def turn_right_def skipped_def split: symlink_policy.split
        intro!: proc_fail proc_bind_skip proc_modify_skip proc_return)
  next
    case OtherNode
    then show ?thesis using False by (simp add: capture_entry_def names node_type_def proc_fail)
  qed
qed

text \<open>Both walks of a directory: list it, turn its entries, finish its tree.\<close>

lemma proc_walk_directory:
  assumes X: "site_ok X" and dir: "in_tree (cx_root X) dir" and K: "monotone_in K"
    and turn: "\<And>ys x. listed X dir ys \<Longrightarrow> x \<in> set ys \<Longrightarrow> proc X (\<lambda>fs. True) (f (entry_at dir rel x)) (turn_right X options K dir x)"
    and tree: "\<And>ys es. listed X dir ys \<Longrightarrow> proc X (entries_ready X options K dir es) (g es) (\<lambda>i fs. tree_of X options K fs dir i)"
  shows "proc X (\<lambda>fs. True) (bind_io (on_world id (read_directory_entries dir rel)) (\<lambda>des. bind_io (collect_entries f des) g))
    (\<lambda>i fs. tree_of X options K fs dir i)"
proof (rule proc_bind_fact [OF proc_read_directory_entries [OF dir X] growing_const], elim exE conjE)
  fix des ys
  assume des: "des = map (entry_at dir rel) ys" and ys: "listed X dir ys"
  have "proc X (\<lambda>fs. True) (collect_entries f des) (\<lambda>es fs. entries_ready X options K dir es fs)"
    using proc_collect_entries [where f = f and g = "entry_at dir rel" and xs = ys, OF K turn [OF ys]] ys by (simp add: des entries_ready_def listed_def)
  then show "proc X (\<lambda>fs. True) (bind_io (collect_entries f des) g) (\<lambda>i fs. tree_of X options K fs dir i)"
    by (rule proc_bind) (auto intro: proc_pre [OF tree [OF ys]])
qed

lemma proc_capture_directory:
  assumes X: "site_ok X"
  shows "in_tree (cx_root X) (cx_root X @ rel) \<Longrightarrow>
    proc X (\<lambda>fs. True) (capture_directory (cx_hash X) (cx_db X) (cx_store X) options n (cx_root X @ rel) rel)
      (\<lambda>i fs. tree_of X options (has_object X) fs (cx_root X @ rel) i)"
proof (induction n arbitrary: rel)
  case 0
  then show ?case by (simp add: proc_fail)
next
  case (Suc n)
  let ?dir = "cx_root X @ rel"
  have enter: "proc X (\<lambda>fs. True) (capture_directory (cx_hash X) (cx_db X) (cx_store X) options n (?dir @ [c]) (rel @ [c]))
      (\<lambda>i fs. tree_of X options (has_object X) fs (?dir @ [c]) i)" if "c \<noteq> bstr ''.era''" for c
    using Suc.IH [of "rel @ [c]"] in_tree_child [OF Suc.prems that] by simp
  have turn: "proc X (\<lambda>fs. True) (capture_entry (cx_hash X) (cx_db X) (cx_store X) options
        (capture_directory (cx_hash X) (cx_db X) (cx_store X) options n) (entry_at ?dir rel x))
      (turn_right X options (has_object X) ?dir x)" if "listed X ?dir ys" "x \<in> set ys" for ys x
    by (rule proc_capture_entry [OF X refl Suc.prems]) (use that enter in \<open>auto simp: listed_def\<close>)
  show ?case
    unfolding capture_directory.simps
    by (rule proc_bind_skip [OF proc_modify_skip(1) growing_const],
        rule proc_walk_directory [OF X Suc.prems monotone_has_object turn proc_capture_tree_of [OF X]])
qed

section \<open>Scanning\<close>

lemma proc_scan_current_file:
  assumes X: "site_ok X" and seen: "seen X dir rel x" and b: "snd x = FileNode b"
  shows "proc X (\<lambda>fs. True) (scan_current_file_id (cx_hash X) (cx_db X) (entry_at dir rel x))
    (\<lambda>i fs. i = from_content (cx_hash X) b)"
  unfolding scan_current_file_id_def entry_at_def directory_entry.simps
proof (rule proc_bind_fact [OF proc_seen_stat [OF seen] growing_const], unfold Let_def)
  fix m
  assume m: "m = (snd x, cx_stamps X (dir @ [fst x]))"
  let ?fp = "fingerprint_from_metadata m" and ?Q = "\<lambda>i fs. i = from_content (cx_hash X) b"
  have found: "proc X (\<lambda>fs. True) (cached_file_id (cx_db X) (rel @ [fst x]) ?fp)
      (\<lambda>c fs. \<forall>hit. c = Some hit \<longrightarrow> ch_object_id hit = from_content (cx_hash X) b)"
    by (rule proc_post [OF proc_cached_file_id]) (use file_right_here(1) [OF seen _ b] m b in fastforce)
  have miss: "proc X (\<lambda>fs. True) (bind_io (on_world g1 (read_file (dir @ [fst x]))) (\<lambda>bytes.
      bind_io (modify_scan (g2 bytes)) (\<lambda>_. bind_io (store_cached_file_id (cx_db X) (rel @ [fst x]) ?fp (from_content (cx_hash X) bytes) False)
        (\<lambda>_. return_io (from_content (cx_hash X) bytes))))) ?Q" for g1 g2
    by (rule proc_bind_fact [OF proc_seen_read [OF seen b] growing_const], rule proc_bind_skip [OF proc_modify_skip(2) growing_const],
        rule proc_bind_skip [OF proc_store_file growing_const])
      (auto intro: proc_return file_right_new [OF seen b])
  show "proc X (\<lambda>fs. True) (bind_io (cached_file_id (cx_db X) (rel @ [fst x]) ?fp) (\<lambda>cached. case cached of
      None \<Rightarrow> bind_io (on_world g1 (read_file (dir @ [fst x]))) (\<lambda>bytes. bind_io (modify_scan (g2 bytes)) (\<lambda>_.
        bind_io (store_cached_file_id (cx_db X) (rel @ [fst x]) ?fp (from_content (cx_hash X) bytes) False)
        (\<lambda>_. return_io (from_content (cx_hash X) bytes))))
    | Some hit \<Rightarrow> bind_io (modify_scan g3) (\<lambda>_. return_io (ch_object_id hit)))) ?Q" for g1 g2 g3
    by (rule proc_bind_fact [OF found growing_const], rule proc_option [OF miss], rule proc_bind_skip [OF proc_modify_skip(2) growing_const])
      (auto intro: proc_return)
qed

lemma proc_scan_tree_of:
  assumes X: "site_ok X" and ys: "listed X dir ys"
  shows "proc X (entries_ready X options (\<lambda>fs k i. True) dir es) (scan_tree_of (cx_hash X) (cx_db X) dir rel es)
    (\<lambda>i fs. tree_of X options (\<lambda>fs k i. True) fs dir i)"
  unfolding scan_tree_of_def
proof (rule proc_bind_fact [OF proc_tree_new [OF ys] growing_ready [OF monotone_any]])
  fix t
  assume t: "t = \<lparr>tree_entries = es\<rparr>"
  let ?G = "entries_ready X options (\<lambda>fs k i. True) dir es"
  note grow = growing_ready [OF monotone_any, of X options dir es]
  have tid: "proc X ?G (tree_id_io (cx_hash X) t) (\<lambda>i fs. \<exists>b. tree_to_canonical_bytes t = Some b \<and> fits_memory b \<and> i = from_content (cx_hash X) b)"
    by (rule proc_post [OF proc_tree_id]) blast
  show "proc X ?G (bind_io (tree_id_io (cx_hash X) t) (\<lambda>i. bind_io (store_cached_directory (cx_hash X) (cx_db X) rel i (tree_entries t) False)
      (\<lambda>_. return_io i))) (\<lambda>i fs. tree_of X options (\<lambda>fs k i. True) fs dir i)"
    by (rule proc_bind_fact [OF tid grow], elim exE conjE, rule proc_bind_skip [OF proc_store_directory grow])
      (use ready_tree [of X options "\<lambda>fs k i. True" dir es] in \<open>auto simp: t valid_content [OF X] intro!: proc_return\<close>)
qed

lemma proc_scan_entry:
  assumes X: "site_ok X" and dir: "dir = cx_root X @ rel" "in_tree (cx_root X) dir"
    and x: "fst x \<noteq> bstr ''.era'' \<Longrightarrow> fs_get (cx_fs X) (dir @ [fst x]) = Some (snd x)"
    and enter: "fst x \<noteq> bstr ''.era'' \<Longrightarrow> proc X (\<lambda>fs. True) (enter (dir @ [fst x]) (rel @ [fst x]))
      (\<lambda>i fs. tree_of X options (\<lambda>fs k i. True) fs (dir @ [fst x]) i)"
  shows "proc X (\<lambda>fs. True) (scan_entry (cx_hash X) (cx_db X) options enter (entry_at dir rel x))
    (turn_right X options (\<lambda>fs k i. True) dir x)"
proof (cases "should_skip_entry options (entry_at dir rel x)")
  case True
  then show ?thesis
    by (auto simp: scan_entry_def should_skip_entry_at turn_right_def intro!: proc_bind_skip proc_modify_skip proc_return)
next
  case False
  note mono = monotone_any and names = entry_at_def
  have x_ok: "fst x \<noteq> bstr ''.era''" using False by (auto simp: should_skip_entry_def entry_at_def)
  have seen: "seen X dir rel x" using dir x [OF x_ok] x_ok by (simp add: seen_def)
  show ?thesis
  proof (cases "snd x")
    case (FileNode b)
    have "\<not> skipped options x" using False FileNode by (auto simp: should_skip_entry_at)
    moreover have "proc X (\<lambda>fs. True) (scan_current_file_id (cx_hash X) (cx_db X) (entry_at dir rel x))
        (\<lambda>i fs. i = from_content (cx_hash X) b \<and> True)" using proc_scan_current_file [OF X seen FileNode] by simp
    ultimately show ?thesis
      using False FileNode proc_bind_entry(1) [OF _ growing_blob [OF mono] proc_blob_entry [OF FileNode] growing_entry_of [OF mono]]
      by (simp add: scan_entry_def turn_right_def [abs_def] names node_type_def)
  next
    case DirNode
    have "\<not> skipped options x" using False DirNode by (auto simp: should_skip_entry_at)
    then show ?thesis
      using False DirNode proc_bind_entry(1) [OF enter [OF x_ok] growing_tree_of [OF mono] proc_tree_entry [OF DirNode] growing_entry_of [OF mono]]
      by (simp add: scan_entry_def turn_right_def [abs_def] names node_type_def)
  next
    case SymlinkNode
    then show ?thesis
      using False by (auto simp: scan_entry_def names node_type_def turn_right_def skipped_def split: symlink_policy.split
        intro!: proc_fail proc_bind_skip proc_modify_skip proc_return)
  next
    case OtherNode
    then show ?thesis using False by (simp add: scan_entry_def names node_type_def proc_fail)
  qed
qed

lemma proc_scan_directory:
  assumes X: "site_ok X"
  shows "in_tree (cx_root X) (cx_root X @ rel) \<Longrightarrow>
    proc X (\<lambda>fs. True) (scan_directory (cx_hash X) (cx_db X) options n (cx_root X @ rel) rel)
      (\<lambda>i fs. tree_of X options (\<lambda>fs k i. True) fs (cx_root X @ rel) i)"
proof (induction n arbitrary: rel)
  case 0
  then show ?case by (simp add: proc_fail)
next
  case (Suc n)
  let ?dir = "cx_root X @ rel"
  have enter: "proc X (\<lambda>fs. True) (scan_directory (cx_hash X) (cx_db X) options n (?dir @ [c]) (rel @ [c]))
      (\<lambda>i fs. tree_of X options (\<lambda>fs k i. True) fs (?dir @ [c]) i)" if "c \<noteq> bstr ''.era''" for c
    using Suc.IH [of "rel @ [c]"] in_tree_child [OF Suc.prems that] by simp
  have turn: "proc X (\<lambda>fs. True) (scan_entry (cx_hash X) (cx_db X) options
        (scan_directory (cx_hash X) (cx_db X) options n) (entry_at ?dir rel x))
      (turn_right X options (\<lambda>fs k i. True) ?dir x)" if "listed X ?dir ys" "x \<in> set ys" for ys x
    by (rule proc_scan_entry [OF X refl Suc.prems]) (use that enter in \<open>auto simp: listed_def\<close>)
  show ?case
    unfolding scan_directory.simps
    by (rule proc_bind_skip [OF proc_modify_skip(2) growing_const],
        rule proc_walk_directory [OF X Suc.prems monotone_any turn proc_scan_tree_of [OF X]])
qed

end
