(* ===== verification/Materialize_Logic.thy ===== *)
theory Materialize_Logic
  imports Capture_Correctness Store_Properties
begin

text \<open>
  Assertions over the runs that write a working directory. A run moves the files below one directory; the metadata
  of the repository and everything outside of the working directory only grow, so the objects of the store stay;
  and the cache stays right about the files as they are at each moment.
\<close>

section \<open>The metadata of a repository\<close>

definition meta :: "path \<Rightarrow> path \<Rightarrow> bool" where
  "meta root p \<longleftrightarrow> \<not> strict_prefix root p \<or> prefix (root @ [bstr ''.era'']) p"

lemma meta_hidden: "meta root p \<Longrightarrow> hidden root p"
  by (auto simp: meta_def hidden_def prefix_def)

lemma in_tree_below:
  assumes "in_tree root dir" "c \<noteq> bstr ''.era''" "prefix (dir @ [c]) q"
  shows "\<not> meta root q" "strict_prefix dir q"
proof -
  from assms(1,3) obtain rel rest where dir: "dir = root @ rel" "bstr ''.era'' \<notin> set rel" and q: "q = root @ rel @ c # rest"
    by (auto simp: in_tree_def prefix_def)
  show "strict_prefix dir q" by (auto simp: q dir strict_prefix_def)
  show "\<not> meta root q"
  proof (cases rel)
    case (Cons d rel')
    then have "d \<noteq> bstr ''.era''" using dir(2) by auto
    then show ?thesis by (auto simp: meta_def q Cons prefix_def strict_prefix_def)
  qed (use assms(2) in \<open>auto simp: meta_def q prefix_def strict_prefix_def\<close>)
qed

text \<open>The objects depend on the files of the store only.\<close>

lemma readable_area:
  assumes "\<And>p n. store_area s p \<Longrightarrow> fs_get fs p = Some n \<Longrightarrow> fs_get fs' p = Some n" "readable fs (object_path s k i) b"
  shows "readable fs' (object_path s k i) b"
proof -
  let ?keep = "filter (\<lambda>x. store_area s (fst x)) fs"
  have get: "fs_get ?keep p = (if store_area s p then fs_get fs p else if p = [] then Some DirNode else None)" for p
    by (auto simp: fs_get_def map_of_eq_None_iff) (induction fs; auto)
  have "resolve ?keep (object_path s k i) = resolve fs (object_path s k i)"
    by (rule resolve_cong) (simp add: get store_area_object)
  moreover have "fs_ext ?keep fs'" using assms(1) by (auto simp: fs_ext_def get split: if_splits)
  ultimately show ?thesis using assms(2) by (auto simp: readable_def dest: resolve_ext)
qed

lemma has_content_area:
  assumes "\<And>p n. store_area s p \<Longrightarrow> fs_get fs p = Some n \<Longrightarrow> fs_get fs' p = Some n" "has_content blake3 s fs k i b"
  shows "has_content blake3 s fs' k i b"
proof -
  have area: "readable fs (object_path s k j) x \<Longrightarrow> readable fs' (object_path s k j) x" for k j x
    by (rule readable_area [OF assms(1)])
  then have "stored blake3 s fs i b n \<Longrightarrow> stored blake3 s fs' i b n" for n
    by (erule_tac stored_mono) (simp add: blob_path_def)
  then show ?thesis using assms(2) area unfolding has_content_def by meson
qed

lemma object_ok_area:
  assumes "\<And>p n. store_area s p \<Longrightarrow> fs_get fs p = Some n \<Longrightarrow> fs_get fs' p = Some n" "object_ok blake3 s fs k i"
  shows "object_ok blake3 s fs' k i"
  using assms has_content_area unfolding object_ok_content by blast

lemma store_ok_area:
  assumes "\<And>p. store_area s p \<Longrightarrow> fs_get fs' p = fs_get fs p" "store_ok blake3 s fs"
  shows "store_ok blake3 s fs'"
proof -
  have "store_area s (object_path s k i)" for k i using store_area_object [of s "length (object_path s k i)"] by simp
  then show ?thesis using assms object_ok_area [of s fs fs'] by (simp add: store_ok_def)
qed

section \<open>Moves\<close>

definition mat_site_ok :: "'d site \<Rightarrow> bool" where
  "mat_site_ok X \<longleftrightarrow> hash_ok (cx_hash X) \<and> (\<forall>p. store_area (cx_store X) p \<longrightarrow> meta (cx_root X) p)"

definition mat_rely :: "'d site \<Rightarrow> fs \<Rightarrow> path \<Rightarrow> bytes \<Rightarrow> bool" where
  "mat_rely X fs p b \<longleftrightarrow> store_rely (cx_hash X) (cx_store X) fs p b \<and> meta (cx_root X) p"

definition sound_fs :: "'d site \<Rightarrow> fs \<Rightarrow> bool" where
  "sound_fs X fs \<longleftrightarrow> distinct (map fst fs) \<and> store_ok (cx_hash X) (cx_store X) fs"

definition moved :: "'d site \<Rightarrow> (path \<Rightarrow> bool) \<Rightarrow> fs \<Rightarrow> fs \<Rightarrow> bool" where
  "moved X T fs0 fs \<longleftrightarrow> (\<forall>p. \<not> T p \<longrightarrow> \<not> meta (cx_root X) p \<longrightarrow> fs_get fs p = fs_get fs0 p) \<and>
     (\<forall>p n. meta (cx_root X) p \<longrightarrow> fs_get fs0 p = Some n \<longrightarrow> fs_get fs p = Some n) \<and> sound_fs X fs"

lemma moved_refl: "sound_fs X fs \<Longrightarrow> moved X T fs fs"
  by (simp add: moved_def)

lemma moved_trans: "moved X T fs0 fs1 \<Longrightarrow> moved X T fs1 fs2 \<Longrightarrow> moved X T fs0 fs2"
  by (auto simp: moved_def)

lemma moved_mono: "moved X T fs0 fs \<Longrightarrow> (\<And>p. T p \<Longrightarrow> U p) \<Longrightarrow> moved X U fs0 fs"
  by (auto simp: moved_def)

lemma moved_get: "moved X T fs0 fs \<Longrightarrow> \<not> T p \<Longrightarrow> \<not> meta (cx_root X) p \<Longrightarrow> fs_get fs p = fs_get fs0 p"
  by (simp add: moved_def)

lemma moved_content: "mat_site_ok X \<Longrightarrow> moved X T fs0 fs \<Longrightarrow> has_content h (cx_store X) fs0 k i b \<Longrightarrow> has_content h (cx_store X) fs k i b"
  by (erule has_content_area [rotated]) (simp add: moved_def mat_site_ok_def)

lemma moved_object: "mat_site_ok X \<Longrightarrow> moved X T fs0 fs \<Longrightarrow> has_object X fs0 k i \<Longrightarrow> has_object X fs k i"
  unfolding has_object_def by (erule object_ok_area [rotated]) (simp add: moved_def mat_site_ok_def)

lemma stable_moved: "mat_site_ok X \<Longrightarrow> stable (mat_rely X) (moved X T fs0)"
proof -
  assume "mat_site_ok X"
  have "stable (mat_rely X) (\<lambda>fs. (\<forall>p. \<not> T p \<longrightarrow> \<not> meta (cx_root X) p \<longrightarrow> fs_get fs p = fs_get fs0 p) \<and>
     (\<forall>p n. meta (cx_root X) p \<longrightarrow> fs_get fs0 p = Some n \<longrightarrow> fs_get fs p = Some n) \<and> distinct (map fst fs))"
    by (auto simp: stable_def mat_rely_def fs_get_set distinct_fs_set)
  moreover have "stable (mat_rely X) (store_ok (cx_hash X) (cx_store X))"
    by (rule stable_store_ok) (simp add: mat_rely_def)
  ultimately show ?thesis unfolding stable_def moved_def sound_fs_def by simp
qed

lemma frame_moved:
  assumes "mat_site_ok X" "\<And>p. S p \<Longrightarrow> T p \<and> \<not> meta (cx_root X) p"
  shows "frame S (moved X T fs0)"
proof -
  have "store_ok (cx_hash X) (cx_store X) (fs_set t n fs)" "store_ok (cx_hash X) (cx_store X) (fs_del t fs)"
    if "S t" "store_ok (cx_hash X) (cx_store X) fs" for t n fs
    by (rule store_ok_area [OF _ that(2)]; use assms that(1) in \<open>auto simp: mat_site_ok_def fs_get_set fs_get_del\<close>)+
  then show ?thesis
    using assms by (auto simp: frame_def moved_def sound_fs_def fs_get_set fs_get_del distinct_fs_set distinct_fs_del)
qed

section \<open>Runs\<close>

definition now :: "'d site \<Rightarrow> 'd mat_state \<Rightarrow> 'd site" where
  "now X s = X\<lparr>cx_fs := w_fs (ms_world s), cx_stamps := w_stamps (ms_world s)\<rparr>"

text \<open>The cache is right about the files as they are, and has no record for the paths in \<open>U\<close>.\<close>

definition minv :: "'d site \<Rightarrow> (path \<Rightarrow> bool) \<Rightarrow> 'd mat_state \<Rightarrow> bool" where
  "minv X U s \<longleftrightarrow> (\<forall>fs p b. w_rely (ms_world s) fs p b \<longrightarrow> mat_rely X fs p b) \<and> fm_options (ms_fm s) = cx_options X \<and>
     sound_fs X (w_fs (ms_world s)) \<and>
     cache_valid (cx_hash X) (cx_db X) (ms_db s) (\<lambda>p f. \<not> U p \<and> file_right (now X s) (w_fs (ms_world s)) p f)
       (dir_right X (w_fs (ms_world s))) (fm_cache (ms_fm s))"

definition shift :: "'d site \<Rightarrow> (path \<Rightarrow> bool) \<Rightarrow> 'd mat_state \<Rightarrow> 'd mat_state \<Rightarrow> bool" where
  "shift X T s s' \<longleftrightarrow> moved X T (w_fs (ms_world s)) (w_fs (ms_world s')) \<and>
     (\<forall>p. \<not> T p \<longrightarrow> w_stamps (ms_world s') p = w_stamps (ms_world s) p) \<and> w_rely (ms_world s') = w_rely (ms_world s)"

abbreviation nowhere :: "path \<Rightarrow> bool" where
  "nowhere p \<equiv> False"

text \<open>
  \<open>mproc X T U V G m Q\<close>: from a state with \<open>G\<close>, the run moves the files at \<open>T\<close> only; where it returns a value, the
  cache has no record for \<open>V\<close> and \<open>Q\<close> holds.
\<close>

definition mproc ::
  "'d site \<Rightarrow> (path \<Rightarrow> bool) \<Rightarrow> (path \<Rightarrow> bool) \<Rightarrow> (path \<Rightarrow> bool) \<Rightarrow> ('d mat_state \<Rightarrow> bool) \<Rightarrow> ('d, 'a) fm_io \<Rightarrow>
    ('a \<Rightarrow> 'd mat_state \<Rightarrow> bool) \<Rightarrow> bool" where
  "mproc X T U V G m Q \<longleftrightarrow> (\<forall>s r s'. m s = (r, s') \<longrightarrow> minv X U s \<longrightarrow> G s \<longrightarrow> shift X T s s' \<and>
     (case r of Inl _ \<Rightarrow> minv X nowhere s' | Inr x \<Rightarrow> minv X V s' \<and> Q x s'))"

lemma mprocI:
  assumes "\<And>s r s'. m s = (r, s') \<Longrightarrow> minv X U s \<Longrightarrow> G s \<Longrightarrow> shift X T s s' \<and>
     (case r of Inl _ \<Rightarrow> minv X nowhere s' | Inr x \<Rightarrow> minv X V s' \<and> Q x s')"
  shows "mproc X T U V G m Q"
  using assms unfolding mproc_def by blast

lemma mprocD:
  assumes "mproc X T U V G m Q" "m s = (r, s')" "minv X U s" "G s"
  shows "shift X T s s' \<and> (case r of Inl _ \<Rightarrow> minv X nowhere s' | Inr x \<Rightarrow> minv X V s' \<and> Q x s')"
  using assms unfolding mproc_def by blast

lemma minv_weaken: "minv X U s \<Longrightarrow> (\<And>p. V p \<Longrightarrow> U p) \<Longrightarrow> minv X V s"
  unfolding minv_def by (auto elim!: cache_valid_mono)

lemma minv_nowhere: "minv X U s \<Longrightarrow> minv X nowhere s"
  by (erule minv_weaken) simp

lemma shift_refl: "minv X U s \<Longrightarrow> shift X T s s"
  by (simp add: shift_def minv_def moved_refl)

lemma shift_trans: "shift X T s s1 \<Longrightarrow> shift X T s1 s2 \<Longrightarrow> shift X T s s2"
  by (auto simp: shift_def intro: moved_trans)

lemma shift_mono: "shift X T s s' \<Longrightarrow> (\<And>p. T p \<Longrightarrow> T' p) \<Longrightarrow> shift X T' s s'"
  by (auto simp: shift_def intro: moved_mono)

lemma mproc_bind:
  assumes m: "mproc X T U V G m M" and f: "\<And>x. mproc X T V W (M x) (f x) Q"
  shows "mproc X T U W G (bind_io m f) Q"
proof (rule mprocI)
  fix s r s'
  assume run: "bind_io m f s = (r, s')" and pre: "minv X U s" "G s"
  obtain r1 s1 where m1: "m s = (r1, s1)" by fastforce
  note 1 = mprocD [OF m m1 pre]
  show "shift X T s s' \<and> (case r of Inl _ \<Rightarrow> minv X nowhere s' | Inr x \<Rightarrow> minv X W s' \<and> Q x s')"
  proof (cases r1)
    case (Inr x)
    then have "f x s1 = (r, s')" using run m1 by (simp add: bind_io_def)
    from mprocD [OF f this] show ?thesis using 1 Inr by (auto intro: shift_trans)
  qed (use run m1 1 in \<open>auto simp: bind_io_def\<close>)
qed

lemma mproc_post: "mproc X T U V G m Q \<Longrightarrow> (\<And>x s. Q x s \<Longrightarrow> R x s) \<Longrightarrow> mproc X T U V G m R"
  unfolding mproc_def by (fastforce split: sum.splits)

lemma mproc_pre: "mproc X T U V G m Q \<Longrightarrow> (\<And>s. H s \<Longrightarrow> G s) \<Longrightarrow> mproc X T U V H m Q"
  unfolding mproc_def by blast

lemma mproc_widen: "mproc X T U V G m Q \<Longrightarrow> (\<And>p. T p \<Longrightarrow> T' p) \<Longrightarrow> mproc X T' U V G m Q"
  unfolding mproc_def by (blast intro: shift_mono)

lemma mproc_weaken: "mproc X T nowhere V G m Q \<Longrightarrow> mproc X T U V G m Q"
  unfolding mproc_def by (blast intro: minv_nowhere)

lemma mproc_carry:
  assumes "mproc X T U V G m Q" "\<And>s s'. shift X T s s' \<Longrightarrow> H s \<Longrightarrow> H s'"
  shows "mproc X T U V (\<lambda>s. G s \<and> H s) m (\<lambda>x s. Q x s \<and> H s)"
  using assms unfolding mproc_def by (fastforce split: sum.splits)

lemma mproc_return: "(\<And>s. G s \<Longrightarrow> Q x s) \<Longrightarrow> mproc X T U U G (return_io x) Q"
  by (auto intro!: mprocI simp: return_io_def intro: shift_refl)

lemma mproc_fail: "mproc X T U V G (fail_io e) Q"
  by (auto intro!: mprocI minv_nowhere [of X U] simp: fail_io_def intro: shift_refl)

lemma mproc_result: "(\<And>s x. G s \<Longrightarrow> r = Ok x \<Longrightarrow> Q x s) \<Longrightarrow> mproc X T U U G (result_io r) Q"
  by (cases r) (auto intro!: mprocI minv_nowhere [of X U] simp: result_io_def intro: shift_refl)

lemma mproc_false: "(\<And>s. \<not> G s) \<Longrightarrow> mproc X T U V G m Q"
  by (auto intro: mprocI)

text \<open>A step whose result is a fact, with everything known before that its moves do not touch.\<close>

lemma mproc_bind_fact:
  assumes "mproc X T U V G m (\<lambda>x s. P x)" "\<And>s s'. shift X T s s' \<Longrightarrow> G s \<Longrightarrow> G s'" "\<And>x. P x \<Longrightarrow> mproc X T V W G (f x) Q"
  shows "mproc X T U W G (bind_io m f) Q"
proof (rule mproc_bind)
  show "mproc X T U V G m (\<lambda>x s. P x \<and> G s)"
    using mproc_carry [OF assms(1), of G] assms(2) by (auto elim: mproc_pre)
  show "mproc X T V W (\<lambda>s. P x \<and> G s) (f x) Q" for x
    by (cases "P x") (auto intro: mproc_pre [OF assms(3)] mproc_false)
qed

lemma mproc_modifies:
  assumes "\<And>s. ms_world (f s) = ms_world s" "\<And>s. ms_db (f s) = ms_db s" "\<And>s. fm_cache (ms_fm (f s)) = fm_cache (ms_fm s)"
    "\<And>s. fm_options (ms_fm (f s)) = fm_options (ms_fm s)"
  shows "mproc X T U U G (modifies f) (\<lambda>x s. True)"
proof (rule mprocI)
  fix s r s'
  assume run: "modifies f s = (r, s')" and inv: "minv X U s"
  have "s' = f s" "r = Ok ()" using run by (auto simp: modifies_def)
  then show "shift X T s s' \<and> (case r of Inl _ \<Rightarrow> minv X nowhere s' | Inr x \<Rightarrow> minv X U s' \<and> True)"
    using inv assms by (auto simp: shift_def minv_def now_def intro: moved_refl)
qed

lemma mproc_modify_written: "mproc X T U U G (modify_written g) (\<lambda>x s. True)"
  unfolding modify_written_def by (rule mproc_modifies) simp_all

section \<open>Calls on the files\<close>

text \<open>A move that adds no regular file cannot make a record of the cache wrong.\<close>

definition fewer :: "'d site \<Rightarrow> fs \<Rightarrow> fs \<Rightarrow> bool" where
  "fewer X fs0 fs \<longleftrightarrow> (\<forall>p b. \<not> meta (cx_root X) p \<longrightarrow> fs_get fs p = Some (FileNode b) \<longrightarrow> fs_get fs0 p = Some (FileNode b))"

definition kept :: "'d site \<Rightarrow> (path \<Rightarrow> bool) \<Rightarrow> fs \<Rightarrow> fs \<Rightarrow> bool" where
  "kept X T fs0 fs \<longleftrightarrow> moved X T fs0 fs \<and> fewer X fs0 fs"

lemma kept_refl: "sound_fs X fs \<Longrightarrow> kept X T fs fs"
  by (simp add: kept_def fewer_def moved_refl)

lemma stable_kept: "mat_site_ok X \<Longrightarrow> stable (mat_rely X) (kept X T fs0)"
  unfolding kept_def
  by (rule stable_conj [OF stable_moved]) (auto simp: stable_def fewer_def mat_rely_def fs_get_set)

lemma file_right_moved:
  assumes "mat_site_ok X" "moved X T (w_fs (ms_world s)) (w_fs (ms_world s'))" "file_right (now X s) (w_fs (ms_world s)) p f"
    and "\<And>b. \<not> meta (cx_root X) (cx_root X @ p) \<Longrightarrow> fs_get (w_fs (ms_world s')) (cx_root X @ p) = Some (FileNode b) \<Longrightarrow>
      fs_get (w_fs (ms_world s)) (cx_root X @ p) = Some (FileNode b) \<and>
      w_stamps (ms_world s') (cx_root X @ p) = w_stamps (ms_world s) (cx_root X @ p)"
  shows "file_right (now X s') (w_fs (ms_world s')) p f"
proof -
  have "cf_object_id f = from_content (cx_hash X) b"
    if "\<not> hidden (cx_root X) (cx_root X @ p)" "fs_get (w_fs (ms_world s')) (cx_root X @ p) = Some (FileNode b)"
      "cf_fingerprint f = fingerprint_from_metadata (FileNode b, w_stamps (ms_world s') (cx_root X @ p))" for b
    using assms(3) assms(4) [OF _ that(2)] meta_hidden that(1,3) unfolding file_right_def now_def by fastforce
  then show ?thesis
    using assms(3) moved_object [OF assms(1,2)] by (simp add: file_right_def now_def has_object_def)
qed

lemma dir_right_moved: "mat_site_ok X \<Longrightarrow> moved X T fs0 fs \<Longrightarrow> dir_right X fs0 p d \<Longrightarrow> dir_right X fs p d"
  by (auto simp: dir_right_def intro: moved_object)

lemma mproc_try_world:
  assumes X: "mat_site_ok X"
    and m: "\<And>fs0. Gf fs0 \<Longrightarrow> hoare (mat_rely X) (kept X T fs0) m (\<lambda>r fs. kept X T fs0 fs \<and> Q r fs)"
    and G: "\<And>s. G s \<Longrightarrow> Gf (w_fs (ms_world s))"
  shows "mproc X T U U G (try_world m) (\<lambda>r s. Q r (w_fs (ms_world s)))"
proof (rule mprocI)
  fix s r s'
  assume run: "try_world m s = (r, s')" and inv: "minv X U s" and g: "G s"
  obtain r1 w1 where w1: "m (ms_world s) = (r1, w1)" by fastforce
  have s': "s' = s\<lparr>ms_world := w1\<rparr>" and r: "r = Ok r1" using run w1 by (simp_all add: try_world_def)
  have rely: "\<And>fs p b. w_rely (ms_world s) fs p b \<Longrightarrow> mat_rely X fs p b" and sound: "sound_fs X (w_fs (ms_world s))"
    using inv by (auto simp: minv_def)
  have post: "(kept X T (w_fs (ms_world s)) (w_fs w1) \<and> Q r1 (w_fs w1)) \<and> w_rely w1 = w_rely (ms_world s)"
    using hoareD [OF m [OF G [OF g]] w1 rely kept_refl [OF sound]] by blast
  have stamps: "w_stamps w1 = w_stamps (ms_world s)" using hoare_stamps [OF m [OF G [OF g]] w1 rely kept_refl [OF sound]] by blast
  have mv: "moved X T (w_fs (ms_world s)) (w_fs (ms_world s'))" and fw: "fewer X (w_fs (ms_world s)) (w_fs (ms_world s'))"
    using post by (simp_all add: kept_def s')
  have "file_right (now X s') (w_fs (ms_world s')) p f" if "file_right (now X s) (w_fs (ms_world s)) p f" for p f
    by (rule file_right_moved [OF X mv that]) (use fw stamps in \<open>auto simp: fewer_def s'\<close>)
  then have "minv X U s'"
    using inv post stamps mv dir_right_moved [OF X mv] unfolding minv_def
    by (auto simp: s' moved_def elim!: cache_valid_mono)
  then show "shift X T s s' \<and> (case r of Inl _ \<Rightarrow> minv X nowhere s' | Inr x \<Rightarrow> minv X U s' \<and> Q x (w_fs (ms_world s')))"
    using mv stamps post by (simp add: shift_def r s')
qed

lemma mproc_on_world:
  assumes "mat_site_ok X"
    and "\<And>fs0. Gf fs0 \<Longrightarrow> hoare (mat_rely X) (kept X T fs0) m (\<lambda>r fs. kept X T fs0 fs \<and> (\<forall>x. r = Ok x \<longrightarrow> Q x fs))"
    and "\<And>s. G s \<Longrightarrow> Gf (w_fs (ms_world s))"
  shows "mproc X T U U G (on_world g m) (\<lambda>x s. Q x (w_fs (ms_world s)))"
  unfolding on_world_def
proof (rule mproc_bind [OF mproc_try_world [where Gf = Gf and Q = "\<lambda>r fs. \<forall>x. r = Ok x \<longrightarrow> Q x fs"]])
  show "mproc X T U U (\<lambda>s. \<forall>x. r = Ok x \<longrightarrow> Q x (w_fs (ms_world s))) (result_io (map_err (\<lambda>e. MatFail (g e)) r)) (\<lambda>x s. Q x (w_fs (ms_world s)))" for r
    by (rule mproc_result) (auto simp: map_err_def split: sum.splits)
qed (use assms in auto)

text \<open>Reads.\<close>

lemma mproc_read:
  assumes "mat_site_ok X" "\<And>fs0. keeps (mat_rely X) (kept X T fs0) m"
  shows "mproc X T U U G (on_world g m) (\<lambda>x s. True)"
  by (rule mproc_on_world [OF assms(1), where Gf = "\<lambda>fs. True" and Q = "\<lambda>x fs. True"]) (use assms(2) in \<open>simp_all add: keeps_def\<close>)

lemma mproc_get_tree:
  assumes "mat_site_ok X"
  shows "mproc X T U U G (on_world g (get_tree (cx_hash X) (cx_store X) i))
    (\<lambda>t s. \<exists>b. has_content (cx_hash X) (cx_store X) (w_fs (ms_world s)) TreeObject i b \<and> wf_tree t \<and> tree_to_canonical_bytes t = Some b)"
proof (rule mproc_on_world [OF assms, where Gf = "\<lambda>fs. True" and Q = "\<lambda>t fs. \<exists>b. has_content (cx_hash X) (cx_store X) fs TreeObject i b \<and> wf_tree t \<and> tree_to_canonical_bytes t = Some b"])
  show "hoare (mat_rely X) (kept X T fs0) (get_tree (cx_hash X) (cx_store X) i) (\<lambda>r fs. kept X T fs0 fs \<and>
      (\<forall>t. r = Ok t \<longrightarrow> (\<exists>b. has_content (cx_hash X) (cx_store X) fs TreeObject i b \<and> wf_tree t \<and> tree_to_canonical_bytes t = Some b)))" for fs0
    using keeps_get(2) [OF stable_kept [OF assms], of T fs0 "cx_hash X" "cx_store X" i] get_tree_run unfolding keeps_def hoare_def by blast
qed simp

lemma mproc_get_blob:
  assumes "mat_site_ok X"
  shows "mproc X T U U G (on_world g (get_blob (cx_hash X) (cx_store X) i))
    (\<lambda>b s. from_content (cx_hash X) b = i \<and> has_object X (w_fs (ms_world s)) BlobObject i)"
proof (rule mproc_on_world [OF assms, where Gf = "\<lambda>fs. True" and Q = "\<lambda>b fs. from_content (cx_hash X) b = i \<and> has_object X fs BlobObject i"])
  show "hoare (mat_rely X) (kept X T fs0) (get_blob (cx_hash X) (cx_store X) i) (\<lambda>r fs. kept X T fs0 fs \<and>
      (\<forall>b. r = Ok b \<longrightarrow> from_content (cx_hash X) b = i \<and> has_object X fs BlobObject i))" for fs0
    by (rule hoare_post [OF hoare_get_blob [OF stable_kept [OF assms]]]) (auto simp: has_object_def object_ok_def dest: stored_hash)
qed simp

lemma mproc_metadata:
  assumes "mat_site_ok X"
  shows "mproc X T U U G (try_world (file_metadata p)) (\<lambda>r s. \<forall>n. r = Ok n \<longrightarrow> fs_get (w_fs (ms_world s)) p = Some n)"
proof (rule mproc_try_world [OF assms, where Gf = "\<lambda>fs. True" and Q = "\<lambda>r fs. \<forall>n. r = Ok n \<longrightarrow> fs_get fs p = Some n"])
  show "hoare (mat_rely X) (kept X T fs0) (file_metadata p) (\<lambda>r fs. kept X T fs0 fs \<and> (\<forall>n. r = Ok n \<longrightarrow> fs_get fs p = Some n))" for fs0
    unfolding file_metadata_def
    by (rule hoare_syscall [OF stable_kept [OF assms]]) (auto simp: op_metadata_def no_effect_def dest: resolve_get)
qed simp

lemma mproc_read_file:
  assumes "mat_site_ok X"
  shows "mproc X T U U G (on_world g (read_file p)) (\<lambda>b s. fs_get (w_fs (ms_world s)) p = Some (FileNode b))"
proof (rule mproc_on_world [OF assms, where Gf = "\<lambda>fs. True" and Q = "\<lambda>b fs. fs_get fs p = Some (FileNode b)"])
  show "hoare (mat_rely X) (kept X T fs0) (read_file p) (\<lambda>r fs. kept X T fs0 fs \<and> (\<forall>b. r = Ok b \<longrightarrow> fs_get fs p = Some (FileNode b)))" for fs0
    unfolding read_file_def
    by (rule hoare_syscall [OF stable_kept [OF assms]])
      (auto simp: op_read_def no_effect_def dest: resolve_get split: sum.splits node.splits if_splits)
qed simp

lemma mproc_stat:
  assumes "mat_site_ok X"
  shows "mproc X T U U G (try_world (file_stat p)) (\<lambda>r s. \<forall>x. r = Ok x \<longrightarrow> fs_get (w_fs (ms_world s)) p = Some (fst x) \<and>
    snd x = w_stamps (ms_world s) p)"
proof (rule mprocI)
  fix s r s'
  assume run: "try_world (file_stat p) s = (r, s')" and pre: "minv X U s" "G s"
  obtain r0 w' where st: "file_metadata p (ms_world s) = (r0, w')" by fastforce
  have m: "try_world (file_metadata p) s = (Ok r0, s\<lparr>ms_world := w'\<rparr>)" by (simp add: try_world_def st)
  have "file_stat p (ms_world s) = (case r0 of Inl e \<Rightarrow> Inl e | Inr n \<Rightarrow> Inr (n, w_stamps w' p), w')"
    by (simp add: file_stat_def bind_io_def st split: sum.split)
  then have "s' = s\<lparr>ms_world := w'\<rparr>" "r = Ok (case r0 of Inl e \<Rightarrow> Inl e | Inr n \<Rightarrow> Inr (n, w_stamps w' p))"
    using run by (simp_all add: try_world_def)
  then show "shift X T s s' \<and> (case r of Inl _ \<Rightarrow> minv X nowhere s' | Inr x \<Rightarrow> minv X U s' \<and>
      (\<forall>y. x = Ok y \<longrightarrow> fs_get (w_fs (ms_world s')) p = Some (fst y) \<and> snd y = w_stamps (ms_world s') p))"
    using mprocD [OF mproc_metadata [OF assms, of T U G p] m pre] by (auto split: sum.splits)
qed

lemma mproc_stat_on_world:
  assumes "mat_site_ok X"
  shows "mproc X T U U G (on_world g (file_stat p)) (\<lambda>x s. fs_get (w_fs (ms_world s)) p = Some (fst x) \<and> snd x = w_stamps (ms_world s) p)"
  unfolding on_world_def
proof (rule mproc_bind [OF mproc_stat [OF assms]])
  show "mproc X T U U (\<lambda>s. \<forall>x. r = Ok x \<longrightarrow> fs_get (w_fs (ms_world s)) p = Some (fst x) \<and> snd x = w_stamps (ms_world s) p)
      (result_io (map_err (\<lambda>e. MatFail (g e)) r)) (\<lambda>x s. fs_get (w_fs (ms_world s)) p = Some (fst x) \<and> snd x = w_stamps (ms_world s) p)" for r
    by (rule mproc_result) (auto simp: map_err_def split: sum.splits)
qed

end
