(* ===== verification/Materialize_Correctness.thy ===== *)
theory Materialize_Correctness
  imports Materialize_Logic
begin

text \<open>
  Materializing a tree: the steps that remove, create and write, the pruning of a directory, and the walk along the
  tree, after which the directory has that tree.
\<close>

section \<open>Removing and creating\<close>

lemma fs_get_without: "fs_get (filter (\<lambda>(q, n). \<not> D q) fs) q = (if D q \<and> q \<noteq> [] then None else fs_get fs q)"
  by (auto simp: fs_get_def) (induction fs; auto)+

lemma kept_without:
  assumes X: "mat_site_ok X" and fs: "kept X T fs0 fs" and D: "\<And>q. D q \<Longrightarrow> T q \<and> \<not> meta (cx_root X) q"
  shows "kept X T fs0 (filter (\<lambda>(q, n). \<not> D q) fs)"
proof -
  let ?fs = "filter (\<lambda>(q, n). \<not> D q) fs"
  have m: "moved X T fs0 fs" and sound: "sound_fs X fs" and fw: "fewer X fs0 fs" using fs by (simp_all add: kept_def moved_def)
  have "store_ok (cx_hash X) (cx_store X) ?fs"
    by (rule store_ok_area [of _ _ fs]) (use X sound D in \<open>auto simp: fs_get_without mat_site_ok_def sound_fs_def\<close>)
  then have "sound_fs X ?fs" using sound by (simp add: sound_fs_def distinct_map_filter)
  moreover have "fs_get ?fs p = fs_get fs0 p" if "\<not> T p" "\<not> meta (cx_root X) p" for p
    using D that moved_get [OF m that] by (auto simp: fs_get_without)
  moreover have "fs_get ?fs p = Some n" if "meta (cx_root X) p" "fs_get fs0 p = Some n" for p n
    using D m that by (auto simp: fs_get_without moved_def)
  moreover have "fewer X fs0 ?fs" using fw by (auto simp: fewer_def fs_get_without)
  ultimately show ?thesis by (auto simp: kept_def moved_def)
qed

text \<open>A child of a directory in the tree, and what is below it.\<close>

definition child_of :: "'d site \<Rightarrow> path \<Rightarrow> bool" where
  "child_of X p \<longleftrightarrow> (\<exists>dir c. p = dir @ [c] \<and> in_tree (cx_root X) dir \<and> c \<noteq> bstr ''.era'')"

lemma child_ofI: "in_tree (cx_root X) dir \<Longrightarrow> c \<noteq> bstr ''.era'' \<Longrightarrow> child_of X (dir @ [c])"
  by (auto simp: child_of_def)

lemma child_below: "child_of X p \<Longrightarrow> prefix p q \<Longrightarrow> \<not> meta (cx_root X) q \<and> q \<noteq> []"
  by (auto simp: child_of_def dest: in_tree_below(1))

text \<open>A fact that a run without moves keeps.\<close>

definition still :: "'d site \<Rightarrow> ('d mat_state \<Rightarrow> bool) \<Rightarrow> bool" where
  "still X G \<longleftrightarrow> (\<forall>s s'. shift X nowhere s s' \<longrightarrow> G s \<longrightarrow> G s')"

lemma still_true: "still X (\<lambda>s. True)"
  by (simp add: still_def)

lemma still_get: "\<not> meta (cx_root X) p \<Longrightarrow> still X (\<lambda>s. P (fs_get (w_fs (ms_world s)) p))"
  by (simp add: still_def shift_def moved_def)

lemma still_object: "mat_site_ok X \<Longrightarrow> still X (\<lambda>s. has_object X (w_fs (ms_world s)) k i)"
  by (auto simp: still_def shift_def intro: moved_object)

lemma still_conj: "still X G \<Longrightarrow> still X H \<Longrightarrow> still X (\<lambda>s. G s \<and> H s)"
  by (simp add: still_def)

lemma mproc_still:
  assumes "mproc X nowhere U V G m (\<lambda>x s. Q x)" "still X G"
  shows "mproc X T U V G m (\<lambda>x s. Q x \<and> G s)"
proof -
  have "mproc X nowhere U V (\<lambda>s. True \<and> G s) m (\<lambda>x s. Q x \<and> G s)"
    unfolding mproc_def
  proof (intro allI impI)
    fix s r s'
    assume run: "m s = (r, s')" and inv: "minv X U s" and "True \<and> G s"
    then have g: "G s" by simp
    from mprocD [OF assms(1) run inv g] g assms(2)
    show "shift X nowhere s s' \<and> (case r of Inl _ \<Rightarrow> minv X nowhere s' | Inr x \<Rightarrow> minv X V s' \<and> Q x \<and> G s')"
      by (auto simp: still_def split: sum.splits)
  qed
  then show ?thesis by (simp add: mproc_widen [where T = nowhere])
qed

text \<open>A step without moves, before and after the others.\<close>

lemma mproc_bind_still:
  assumes "mproc X nowhere U V G m (\<lambda>x s. P x)" "still X G" "\<And>x. P x \<Longrightarrow> mproc X T V W G (f x) Q"
  shows "mproc X T U W G (bind_io m f) Q"
proof (rule mproc_bind [OF mproc_still [OF assms(1,2)]])
  show "mproc X T V W (\<lambda>s. P x \<and> G s) (f x) Q" for x
    by (cases "P x") (auto intro: mproc_pre [OF assms(3)] mproc_false)
qed

lemma mproc_then_still:
  assumes "mproc X T U V G m (\<lambda>x. Q)" "still X Q" "\<And>x. mproc X nowhere V W Q (f x) (\<lambda>x s. True)"
  shows "mproc X T U W G (bind_io m f) (\<lambda>x. Q)"
  by (rule mproc_bind [OF assms(1)]) (use mproc_still [OF assms(3,2)] in simp)

lemma mproc_remove_path:
  assumes X: "mat_site_ok X" and p: "child_of X p"
  shows "mproc X (prefix p) U U G (remove_path p type) (\<lambda>x s. fs_get (w_fs (ms_world s)) p = None)"
proof -
  let ?T = "prefix p"
  note below = child_below [OF p]
  have all: "hoare (mat_rely X) (kept X ?T fs0) (remove_dir_all p) (\<lambda>r fs. kept X ?T fs0 fs \<and> (\<forall>x. r = Ok x \<longrightarrow> fs_get fs p = None))" for fs0
    unfolding remove_dir_all_def
  proof (rule hoare_syscall [OF stable_kept [OF X]])
    fix fs r fs'
    assume k: "kept X ?T fs0 fs" and run: "op_remove_dir_all p fs = (r, fs')"
    have "kept X ?T fs0 (fs_del_all p fs)" unfolding fs_del_all_def by (rule kept_without [OF X k]) (simp add: below)
    moreover have "fs_get (fs_del_all p fs) p = None" using below [of p] by (simp add: fs_del_all_def fs_get_without)
    ultimately show "kept X ?T fs0 fs' \<and> (\<forall>x. r = Ok x \<longrightarrow> fs_get fs' p = None)"
      using run k by (auto simp: op_remove_dir_all_def split: sum.splits if_splits)
  next
    fix n fs
    assume k: "kept X ?T fs0 fs"
    let ?gone = "take n (rev (sort_key length (filter (strict_prefix p) (map fst fs))))"
    have "?T q \<and> \<not> meta (cx_root X) q" if "q \<in> set ?gone" for q
      using below [of q] in_set_takeD [OF that] by auto
    then show "kept X ?T fs0 (remove_some p n fs) \<and> (\<forall>x. Err OtherError = Ok x \<longrightarrow> fs_get (remove_some p n fs) p = None)"
      unfolding remove_some_def Let_def by (auto intro!: kept_without [OF X k])
  qed
  have del: "kept X ?T fs0 (fs_del p fs)" if "kept X ?T fs0 fs" for fs0 fs
    using kept_without [OF X that, of "\<lambda>q. q = p"] below [of p] by (simp add: fs_del_def case_prod_unfold)
  have rm: "hoare (mat_rely X) (kept X ?T fs0) (remove_file p) (\<lambda>r fs. kept X ?T fs0 fs \<and> (\<forall>x. r = Ok x \<longrightarrow> fs_get fs p = None))" for fs0
    unfolding remove_file_def
    by (rule hoare_syscall [OF stable_kept [OF X]])
      (use below [of p] in \<open>auto simp: op_remove_file_def no_effect_def fs_get_del del split: sum.splits node.splits if_splits option.splits\<close>)
  have "mproc X ?T U U G (on_world (MatIo p) (if type = TypeDir then remove_dir_all p else remove_file p))
      (\<lambda>x s. fs_get (w_fs (ms_world s)) p = None)"
    by (rule mproc_on_world [OF X, where Gf = "\<lambda>fs. True" and Q = "\<lambda>x fs. fs_get fs p = None"]) (use all rm in simp_all)
  then show ?thesis
    unfolding remove_path_def
    by (rule mproc_then_still [OF _ still_get mproc_modify_written]) (use below [of p] in simp)
qed

lemma mproc_create_dir:
  assumes X: "mat_site_ok X" and p: "child_of X p"
  shows "mproc X (prefix p) U U G (on_world g (create_dir p)) (\<lambda>x s. fs_get (w_fs (ms_world s)) p = Some DirNode)"
proof (rule mproc_on_world [OF X, where Gf = "\<lambda>fs. True" and Q = "\<lambda>x fs. fs_get fs p = Some DirNode"])
  fix fs0
  note here = child_below [OF p, of p]
  have set: "kept X (prefix p) fs0 (fs_set p DirNode fs)" if k: "kept X (prefix p) fs0 fs" for fs
  proof -
    have "frame (\<lambda>q. q = p) (moved X (prefix p) fs0)" by (rule frame_moved [OF X]) (use here in auto)
    then show ?thesis using k here by (auto simp: kept_def frame_def fewer_def fs_get_set)
  qed
  show "hoare (mat_rely X) (kept X (prefix p) fs0) (create_dir p) (\<lambda>r fs. kept X (prefix p) fs0 fs \<and> (\<forall>x. r = Ok x \<longrightarrow> fs_get fs p = Some DirNode))"
    unfolding create_dir_def
    by (rule hoare_syscall [OF stable_kept [OF X]])
      (use here in \<open>auto simp: op_create_dir_def no_effect_def set fs_get_set split: if_splits sum.splits\<close>)
qed simp

lemma mproc_make_directory:
  assumes X: "mat_site_ok X" and p: "child_of X p"
  shows "mproc X (prefix p) U U G (make_directory p) (\<lambda>x s. fs_get (w_fs (ms_world s)) p = Some DirNode)"
  unfolding make_directory_def
  by (rule mproc_then_still [OF mproc_create_dir [OF X p] still_get mproc_modify_written]) (use child_below [OF p, of p] in simp)

lemma mproc_prepare_directory:
  assumes X: "mat_site_ok X" and p: "child_of X p"
  shows "mproc X (prefix p) U U G (prepare_directory p) (\<lambda>x s. fs_get (w_fs (ms_world s)) p = Some DirNode)"
  unfolding prepare_directory_def
proof (rule mproc_bind [OF mproc_metadata [OF X]])
  fix r :: "io_kind + node"
  let ?Q = "\<lambda>x s. fs_get (w_fs (ms_world s)) p = Some DirNode"
  show "mproc X (prefix p) U U (\<lambda>s. \<forall>n. r = Ok n \<longrightarrow> fs_get (w_fs (ms_world s)) p = Some n)
      (case r of Inl e \<Rightarrow> if e = NotFound then make_directory p else fail_io (MatFail (MatIo p e))
       | Inr n \<Rightarrow> if node_type n = TypeDir then return_io () else bind_io (remove_path p (node_type n)) (\<lambda>_. make_directory p)) ?Q"
  proof (cases r)
    case (Inl e)
    then show ?thesis by (simp add: mproc_make_directory [OF X p] mproc_fail)
  next
    case (Inr n)
    have "mproc X (prefix p) U U G (bind_io (remove_path p (node_type n)) (\<lambda>_. make_directory p)) ?Q" for G
      by (rule mproc_bind [OF mproc_remove_path [OF X p] mproc_make_directory [OF X p]])
    moreover have "node_type n = TypeDir \<Longrightarrow> n = DirNode" by (cases n) (auto simp: node_type_def)
    ultimately show ?thesis using Inr by (auto intro!: mproc_return)
  qed
qed

lemma mproc_prepare_file_path:
  assumes X: "mat_site_ok X" and p: "child_of X p"
  shows "mproc X (prefix p) U U G (prepare_file_path p) (\<lambda>x s. True)"
  unfolding prepare_file_path_def
proof (rule mproc_bind [OF mproc_metadata [OF X]])
  fix r :: "io_kind + node"
  show "mproc X (prefix p) U U (\<lambda>s. \<forall>n. r = Ok n \<longrightarrow> fs_get (w_fs (ms_world s)) p = Some n)
      (case r of Inl e \<Rightarrow> if e = NotFound then return_io () else fail_io (MatFail (MatIo p e))
       | Inr n \<Rightarrow> if node_type n = TypeFile then return_io () else remove_path p (node_type n)) (\<lambda>x s. True)"
    by (cases r) (auto intro: mproc_return mproc_fail mproc_post [OF mproc_remove_path [OF X p]])
qed

section \<open>Writing a file\<close>

text \<open>The cache has no record for the path when its file is written.\<close>

lemma mproc_write_path:
  assumes X: "mat_site_ok X" and p: "child_of X p" "p = cx_root X @ rel" and U: "U rel"
  shows "mproc X (prefix p) U U G (on_world g (write_path p b)) (\<lambda>x s. fs_get (w_fs (ms_world s)) p = Some (FileNode b))"
proof (rule mprocI)
  fix s r s'
  assume run: "on_world g (write_path p b) s = (r, s')" and inv: "minv X U s"
  let ?T = "\<lambda>q. q = p"
  let ?w = "case w_fresh (ms_world s) of [] \<Rightarrow> ms_world s | t # ts \<Rightarrow> (ms_world s)\<lparr>w_stamps := (w_stamps (ms_world s))(p := t), w_fresh := ts\<rparr>"
  let ?call = "syscall (op_write p b) (\<lambda>n fs. snd (op_write p (take n b) fs))"
  note here = child_below [OF p(1), of p]
  have w: "w_fs ?w = w_fs (ms_world s)" "w_rely ?w = w_rely (ms_world s)" "\<And>q. q \<noteq> p \<Longrightarrow> w_stamps ?w q = w_stamps (ms_world s) q"
    by (auto split: list.split)
  obtain r1 w1 where w1: "?call ?w = (r1, w1)" by fastforce
  have s': "s' = s\<lparr>ms_world := w1\<rparr>" and r: "r = map_err (\<lambda>e. MatFail (g e)) r1"
    using run w1 by (auto simp: on_world_def bind_io_def try_world_def write_path_def result_io_def split: sum.splits)
  have rely: "\<And>fs q c. w_rely ?w fs q c \<Longrightarrow> mat_rely X fs q c" and sound: "sound_fs X (w_fs (ms_world s))"
    using inv w(2) by (auto simp: minv_def)
  have fr: "frame ?T (moved X ?T fs0)" for fs0 by (rule frame_moved [OF X]) (use here in auto)
  have wr: "moved X ?T fs0 fs' \<and> (\<forall>x. q = Ok x \<longrightarrow> fs_get fs' p = Some (FileNode c))"
    if "moved X ?T fs0 fs" "op_write p c fs = (q, fs')" for fs0 fs q fs' c
    using that frame_set [OF fr _ that(1), of p "FileNode c"] here
    by (auto simp: op_write_def fs_get_set split: sum.splits option.splits node.splits)
  have h: "hoare (mat_rely X) (moved X ?T (w_fs (ms_world s))) ?call
      (\<lambda>r fs. moved X ?T (w_fs (ms_world s)) fs \<and> (\<forall>x. r = Ok x \<longrightarrow> fs_get fs p = Some (FileNode b)))"
  proof (rule hoare_syscall [OF stable_moved [OF X]])
    fix fs n
    assume "moved X ?T (w_fs (ms_world s)) fs"
    from wr [OF this prod.collapse [symmetric], of "take n b"]
    show "moved X ?T (w_fs (ms_world s)) (snd (op_write p (take n b) fs)) \<and>
        (\<forall>x. Err OtherError = Ok x \<longrightarrow> fs_get (snd (op_write p (take n b) fs)) p = Some (FileNode b))" by simp
  qed (rule wr)
  have m0: "moved X ?T (w_fs (ms_world s)) (w_fs ?w)" unfolding w(1) by (rule moved_refl [OF sound])
  have post: "moved X ?T (w_fs (ms_world s)) (w_fs w1) \<and> (\<forall>x. r1 = Ok x \<longrightarrow> fs_get (w_fs w1) p = Some (FileNode b))"
    and rel1: "w_rely w1 = w_rely ?w" and st: "w_stamps w1 = w_stamps ?w"
    using hoareD [OF h w1 rely m0] hoare_stamps [OF h w1 rely m0] by blast+
  have mv: "moved X ?T (w_fs (ms_world s)) (w_fs (ms_world s'))" using post s' by simp
  have stamps: "q \<noteq> p \<Longrightarrow> w_stamps (ms_world s') q = w_stamps (ms_world s) q" for q using st w(3) s' by simp
  have "file_right (now X s') (w_fs (ms_world s')) q f" if "\<not> U q" "file_right (now X s) (w_fs (ms_world s)) q f" for q f
  proof (rule file_right_moved [OF X mv that(2)])
    have "cx_root X @ q \<noteq> p" using that(1) U p(2) by auto
    then show "fs_get (w_fs (ms_world s)) (cx_root X @ q) = Some (FileNode c) \<and>
        w_stamps (ms_world s') (cx_root X @ q) = w_stamps (ms_world s) (cx_root X @ q)"
      if "\<not> meta (cx_root X) (cx_root X @ q)" "fs_get (w_fs (ms_world s')) (cx_root X @ q) = Some (FileNode c)" for c
      using moved_get [OF mv _ that(1)] that(2) stamps by simp
  qed
  then have "minv X U s'"
    using inv mv dir_right_moved [OF X mv] rel1 w(2) unfolding minv_def
    by (auto simp: s' moved_def elim!: cache_valid_mono)
  moreover have "shift X (prefix p) s s'"
    using moved_mono [OF mv, of "prefix p"] stamps rel1 w(2) by (auto simp: shift_def s')
  ultimately show "shift X (prefix p) s s' \<and> (case r of Inl _ \<Rightarrow> minv X nowhere s' | Inr x \<Rightarrow> minv X U s' \<and>
      fs_get (w_fs (ms_world s')) p = Some (FileNode b))"
    using post minv_nowhere s' r by (auto simp: map_err_def split: sum.splits)
qed

section \<open>The cache\<close>

lemma minv_cache:
  assumes "minv X U s" "cache_valid (cx_hash X) (cx_db X) (ms_db s) (\<lambda>p f. \<not> V p \<and> file_right (now X s) (w_fs (ms_world s)) p f)
    (dir_right X (w_fs (ms_world s))) c"
  shows "minv X V (s\<lparr>ms_fm := (ms_fm s)\<lparr>fm_cache := c\<rparr>\<rparr>)"
  using assms by (simp add: minv_def now_def)

lemma mproc_on_cache:
  assumes "\<And>s d c x c'. G s \<Longrightarrow> f d c = Some (x, c') \<Longrightarrow>
    cache_valid (cx_hash X) (cx_db X) d (\<lambda>p f. \<not> U p \<and> file_right (now X s) (w_fs (ms_world s)) p f) (dir_right X (w_fs (ms_world s))) c \<Longrightarrow>
    cache_valid (cx_hash X) (cx_db X) d (\<lambda>p f. \<not> V p \<and> file_right (now X s) (w_fs (ms_world s)) p f) (dir_right X (w_fs (ms_world s))) c' \<and>
    (\<forall>g. Q x (s\<lparr>ms_fm := g\<rparr>))"
  shows "mproc X T U V G (on_cache f) Q"
proof (rule mprocI)
  fix s r s'
  assume run: "on_cache f s = (r, s')" and inv: "minv X U s" and g: "G s"
  show "shift X T s s' \<and> (case r of Inl _ \<Rightarrow> minv X nowhere s' | Inr x \<Rightarrow> minv X V s' \<and> Q x s')"
  proof (cases "f (ms_db s) (fm_cache (ms_fm s))")
    case None
    then show ?thesis using run inv minv_nowhere by (auto simp: on_cache_def intro: shift_refl)
  next
    case (Some y)
    obtain x c where y: "y = (x, c)" by fastforce
    have s': "s' = s\<lparr>ms_fm := (ms_fm s)\<lparr>fm_cache := c\<rparr>\<rparr>" and r: "r = Ok x" using run Some y by (auto simp: on_cache_def)
    have "cache_valid (cx_hash X) (cx_db X) (ms_db s) (\<lambda>p f. \<not> U p \<and> file_right (now X s) (w_fs (ms_world s)) p f)
        (dir_right X (w_fs (ms_world s))) (fm_cache (ms_fm s))" using inv by (simp add: minv_def)
    from assms [OF g Some [unfolded y] this] have "minv X V s'" "Q x s'" using minv_cache [OF inv] s' by auto
    moreover have "shift X T s s'" using shift_refl [OF inv, of T] by (simp add: s' shift_def)
    ultimately show ?thesis by (simp add: r)
  qed
qed

lemma mproc_cache_update:
  assumes "\<And>s d c x c'. G s \<Longrightarrow> f d c = Some (x, c') \<Longrightarrow>
    cache_valid (cx_hash X) (cx_db X) d (\<lambda>p f. \<not> U p \<and> file_right (now X s) (w_fs (ms_world s)) p f) (dir_right X (w_fs (ms_world s))) c \<Longrightarrow>
    cache_valid (cx_hash X) (cx_db X) d (\<lambda>p f. \<not> V p \<and> file_right (now X s) (w_fs (ms_world s)) p f) (dir_right X (w_fs (ms_world s))) c'"
  shows "mproc X T U V G (cache_update f) (\<lambda>x s. True)"
  unfolding cache_update_def
proof (rule mproc_bind)
  show "mproc X T U V G (on_cache f) (\<lambda>x s. True)" by (rule mproc_on_cache) (use assms in blast)
  have "mproc X T V V (\<lambda>s. True) (set_dirty b) (\<lambda>x s. True)" for b unfolding set_dirty_def by (rule mproc_modifies) simp_all
  then show "mproc X T V V (\<lambda>s. True) (if x then set_dirty True else return_io ()) (\<lambda>x s. True)" for x
    by (simp add: mproc_return)
qed

lemma mproc_invalidate:
  assumes "rel \<noteq> []"
  shows "mproc X T nowhere (prefix rel) G (invalidate_paths [rel]) (\<lambda>x s. True)"
proof -
  have "mproc X T nowhere (prefix rel) G (cache_update (\<lambda>d c. Some (invalidate_path rel c))) (\<lambda>x s. True)"
  proof (rule mproc_cache_update)
    fix s d c x c'
    assume "Some (invalidate_path rel c) = Some (x, c')"
      and v: "cache_valid (cx_hash X) (cx_db X) d (\<lambda>p f. \<not> nowhere p \<and> file_right (now X s) (w_fs (ms_world s)) p f) (dir_right X (w_fs (ms_world s))) c"
    then have c': "c' = snd (invalidate_path rel c)" by (metis option.inject snd_conv)
    show "cache_valid (cx_hash X) (cx_db X) d (\<lambda>p f. \<not> prefix rel p \<and> file_right (now X s) (w_fs (ms_world s)) p f) (dir_right X (w_fs (ms_world s))) c'"
      unfolding c' by (rule invalidate_path_valid [OF v]) (auto simp: path_matches_def)
  qed
  then show ?thesis by (simp add: mproc_bind [OF _ mproc_return])
qed

lemma mproc_invalidate_paths: "mproc X T nowhere nowhere G (invalidate_paths ps) (\<lambda>x s. True)"
proof (induction ps arbitrary: G)
  case (Cons p ps)
  have "mproc X T nowhere nowhere G (cache_update (\<lambda>d c. Some (invalidate_path p c))) (\<lambda>x s. True)"
  proof (rule mproc_cache_update)
    fix s d c x c'
    assume "Some (invalidate_path p c) = Some (x, c')"
      and v: "cache_valid (cx_hash X) (cx_db X) d (\<lambda>p f. \<not> nowhere p \<and> file_right (now X s) (w_fs (ms_world s)) p f) (dir_right X (w_fs (ms_world s))) c"
    then have c': "c' = snd (invalidate_path p c)" by (metis option.inject snd_conv)
    show "cache_valid (cx_hash X) (cx_db X) d (\<lambda>p f. \<not> nowhere p \<and> file_right (now X s) (w_fs (ms_world s)) p f) (dir_right X (w_fs (ms_world s))) c'"
      unfolding c' by (rule invalidate_path_valid [OF v]) auto
  qed
  from mproc_bind [OF this Cons.IH] show ?case by simp
qed (simp add: mproc_return)

lemma mproc_store_file:
  assumes "\<And>s. G s \<Longrightarrow> (b \<longrightarrow> has_object X (w_fs (ms_world s)) BlobObject i) \<and>
    (\<forall>c. fs_get (w_fs (ms_world s)) (cx_root X @ p) = Some (FileNode c) \<longrightarrow> i = from_content (cx_hash X) c)"
  shows "mproc X T nowhere nowhere G (store_cached_file_id (cx_db X) p fp i b) (\<lambda>x s. True)"
  unfolding store_cached_file_id_def
proof (rule mproc_cache_update)
  fix s d c x c'
  assume g: "G s" and run: "insert_file (cx_db X) d p fp i b c = Some (x, c')"
    and v: "cache_valid (cx_hash X) (cx_db X) d (\<lambda>p f. \<not> nowhere p \<and> file_right (now X s) (w_fs (ms_world s)) p f) (dir_right X (w_fs (ms_world s))) c"
  have new: "file_right (now X s) (w_fs (ms_world s)) p \<lparr>cf_fingerprint = fp, cf_object_id = i, cf_stored = False, cf_stored_base_id = None\<rparr>"
    using assms [OF g] by (auto simp: file_right_def now_def)
  have obj: "b \<Longrightarrow> has_object (now X s) (w_fs (ms_world s)) BlobObject i" using assms [OF g] by (simp add: has_object_def now_def)
  have "file_right (now X s) (w_fs (ms_world s)) p (next_file previous fp i b)"
    if "\<And>f. previous = Some f \<Longrightarrow> file_right (now X s) (w_fs (ms_world s)) p f" for previous
    by (rule file_right_next [OF that obj new])
  then show "cache_valid (cx_hash X) (cx_db X) d (\<lambda>p f. \<not> nowhere p \<and> file_right (now X s) (w_fs (ms_world s)) p f) (dir_right X (w_fs (ms_world s))) c'"
    by (intro insert_file_valid [OF run v]) simp
qed

lemma mproc_store_directory:
  assumes "\<And>s. G s \<Longrightarrow> valid_id i \<and> (b \<longrightarrow> has_object X (w_fs (ms_world s)) TreeObject i)"
  shows "mproc X T nowhere nowhere G (store_cached_directory (cx_hash X) (cx_db X) p i es b) (\<lambda>x s. True)"
  unfolding store_cached_directory_def
  by (rule mproc_cache_update, erule insert_directory_valid, assumption)
    (use assms in \<open>auto simp: dir_right_def\<close>)

lemma mproc_cached_file_id:
  "mproc X T nowhere nowhere G (cached_file_id (cx_db X) p fp) (\<lambda>x s. \<forall>hit. x = Some hit \<longrightarrow>
     (\<exists>f. file_right (now X s) (w_fs (ms_world s)) p f \<and> cf_fingerprint f = fp \<and> ch_object_id hit = cf_object_id f))"
  unfolding cached_file_id_def
proof (rule mproc_on_cache)
  fix s d c x c'
  assume run: "get_cached_file (cx_db X) d p fp c = Some (x, c')"
    and v: "cache_valid (cx_hash X) (cx_db X) d (\<lambda>p f. \<not> nowhere p \<and> file_right (now X s) (w_fs (ms_world s)) p f) (dir_right X (w_fs (ms_world s))) c"
  have "now X (s\<lparr>ms_fm := g\<rparr>) = now X s" for g by (simp add: now_def)
  then show "cache_valid (cx_hash X) (cx_db X) d (\<lambda>p f. \<not> nowhere p \<and> file_right (now X s) (w_fs (ms_world s)) p f) (dir_right X (w_fs (ms_world s))) c' \<and>
    (\<forall>g. \<forall>hit. x = Some hit \<longrightarrow> (\<exists>f. file_right (now X (s\<lparr>ms_fm := g\<rparr>)) (w_fs (ms_world (s\<lparr>ms_fm := g\<rparr>))) p f \<and> cf_fingerprint f = fp \<and>
      ch_object_id hit = cf_object_id f))"
    using get_cached_file_valid [OF run v] by auto
qed

section \<open>A blob\<close>

lemma mproc_bind_with:
  assumes "mproc X T' U V G m M" "\<And>s s'. shift X T' s s' \<Longrightarrow> H s \<Longrightarrow> H s'" "\<And>s. G s \<Longrightarrow> H s" "\<And>p. T' p \<Longrightarrow> T p"
    and "\<And>x. mproc X T V W (\<lambda>s. M x s \<and> H s) (f x) Q"
  shows "mproc X T U W G (bind_io m f) Q"
proof (rule mproc_bind [OF mproc_widen [OF mproc_pre [OF mproc_carry [OF assms(1), of H]]]])
  show "mproc X T V W (\<lambda>s. M x s \<and> H s) (f x) Q" for x by (rule assms(5))
qed (use assms in auto)

lemma stillD: "still X G \<Longrightarrow> shift X nowhere s s' \<Longrightarrow> G s \<Longrightarrow> G s'"
  by (simp add: still_def)

lemma shift_object: "mat_site_ok X \<Longrightarrow> shift X T s s' \<Longrightarrow> has_object X (w_fs (ms_world s)) k i \<Longrightarrow> has_object X (w_fs (ms_world s')) k i"
  by (auto simp: shift_def intro: moved_object)

definition blob_at :: "'d site \<Rightarrow> path \<Rightarrow> object_id \<Rightarrow> 'd mat_state \<Rightarrow> bool" where
  "blob_at X p i s \<longleftrightarrow> (\<exists>b. fs_get (w_fs (ms_world s)) p = Some (FileNode b) \<and> from_content (cx_hash X) b = i) \<and>
     has_object X (w_fs (ms_world s)) BlobObject i"

lemma still_blob_at: "mat_site_ok X \<Longrightarrow> \<not> meta (cx_root X) p \<Longrightarrow> still X (blob_at X p i)"
  unfolding blob_at_def by (rule still_conj [OF still_get still_object])

lemma mproc_store_blob_at:
  assumes "p = cx_root X @ rel"
  shows "mproc X T nowhere nowhere (blob_at X p i) (store_cached_file_id (cx_db X) rel fp i b) (\<lambda>x s. True)"
  by (rule mproc_store_file) (auto simp: blob_at_def assms)

lemma mproc_write_blob:
  assumes X: "mat_site_ok X" and p: "child_of X p" "p = cx_root X @ rel"
  shows "mproc X (prefix p) nowhere nowhere G (write_blob (cx_hash X) (cx_db X) (cx_store X) p rel i) (\<lambda>x. blob_at X p i)"
  unfolding write_blob_def
proof (rule mproc_bind [OF mproc_invalidate], goal_cases)
  case 1
  then show ?case using child_below [OF p(1), of p] p(2) by (auto simp: meta_def strict_prefix_def)
next
  case (2 u)
  have nm: "\<not> meta (cx_root X) p" "p \<noteq> []" using child_below [OF p(1), of p] by simp_all
  let ?obj = "\<lambda>s. has_object X (w_fs (ms_world s)) BlobObject i"
  have rest: "mproc X (prefix p) (prefix rel) nowhere (\<lambda>s. (from_content (cx_hash X) bytes = i \<and> ?obj s))
      (bind_io (on_world (MatIo p) (write_path p bytes)) (\<lambda>_. bind_io (on_world (MatIo p) (file_stat p)) (\<lambda>metadata.
       bind_io (store_cached_file_id (cx_db X) rel (fingerprint_from_metadata metadata) i True) (\<lambda>_. modify_written (g bytes)))))
      (\<lambda>x. blob_at X p i)" for bytes g
  proof (rule mproc_bind_with [where H = "\<lambda>s. from_content (cx_hash X) bytes = i \<and> ?obj s" and T' = "prefix p", OF mproc_write_path [OF X p]])
    show "shift X (prefix p) s s' \<Longrightarrow> from_content (cx_hash X) bytes = i \<and> ?obj s \<Longrightarrow> from_content (cx_hash X) bytes = i \<and> ?obj s'" for s s'
      using shift_object [OF X] by blast
    have stored: "mproc X (prefix p) (prefix rel) nowhere (blob_at X p i)
        (bind_io (store_cached_file_id (cx_db X) rel fp i True) (\<lambda>_. modify_written (g bytes))) (\<lambda>x. blob_at X p i)" for fp
    proof (rule mproc_bind_still [where P = "\<lambda>x. True", OF mproc_weaken [OF mproc_store_blob_at [OF p(2)]] still_blob_at [OF X nm(1)]])
      show "mproc X (prefix p) nowhere nowhere (blob_at X p i) (modify_written (g bytes)) (\<lambda>x. blob_at X p i)"
        by (rule mproc_post [OF mproc_still [where Q = "\<lambda>x. True", OF mproc_modify_written still_blob_at [OF X nm(1)]]]) simp
    qed
    show "mproc X (prefix p) (prefix rel) nowhere (\<lambda>s. fs_get (w_fs (ms_world s)) p = Some (FileNode bytes) \<and> from_content (cx_hash X) bytes = i \<and> ?obj s)
        (bind_io (on_world (MatIo p) (file_stat p)) (\<lambda>metadata.
         bind_io (store_cached_file_id (cx_db X) rel (fingerprint_from_metadata metadata) i True) (\<lambda>_. modify_written (g bytes))))
        (\<lambda>x. blob_at X p i)"
    proof (rule mproc_bind_with [where H = "blob_at X p i" and T' = nowhere, OF mproc_stat_on_world [OF X]])
      show "shift X nowhere s s' \<Longrightarrow> blob_at X p i s \<Longrightarrow> blob_at X p i s'" for s s'
        by (rule stillD [OF still_blob_at [OF X nm(1)]])
    qed (auto simp: blob_at_def intro!: mproc_pre [OF stored])
  qed auto
  show ?case
    by (rule mproc_bind [OF mproc_prepare_file_path [OF X p(1)]], rule mproc_bind [OF mproc_get_blob [OF X]], rule rest)
qed

lemma child_not_hidden': "child_of X p \<Longrightarrow> \<not> hidden (cx_root X) p"
  by (auto simp: child_of_def dest: child_not_hidden)

lemma mproc_keep_blob:
  assumes X: "mat_site_ok X" and p: "child_of X p" "p = cx_root X @ rel"
  shows "mproc X (prefix p) nowhere nowhere (blob_at X p i) (store_cached_file_id (cx_db X) rel fp i True) (\<lambda>x. blob_at X p i)"
  by (rule mproc_post [OF mproc_still [where Q = "\<lambda>x. True", OF mproc_store_blob_at [OF p(2)] still_blob_at [OF X]]])
    (use child_below [OF p(1), of p] in auto)

lemma mproc_materialize_blob:
  assumes X: "mat_site_ok X" and p: "child_of X p" "p = cx_root X @ rel"
  shows "mproc X (prefix p) nowhere nowhere (\<lambda>s. has_object X (w_fs (ms_world s)) BlobObject i)
    (materialize_blob (cx_hash X) (cx_db X) (cx_store X) p rel i) (\<lambda>x. blob_at X p i)"
  unfolding materialize_blob_def
proof (rule mproc_bind_with [where H = "\<lambda>s. has_object X (w_fs (ms_world s)) BlobObject i" and T' = nowhere, OF mproc_stat [OF X]])
  have nm: "\<not> meta (cx_root X) p" using child_below [OF p(1), of p] by simp
  let ?obj = "\<lambda>s. has_object X (w_fs (ms_world s)) BlobObject i"
  note wr = mproc_write_blob [OF X p, of _ i] and keep = mproc_keep_blob [OF X p, of i]
  have read: "mproc X (prefix p) nowhere nowhere ?obj (bind_io (on_world g (read_file p)) (\<lambda>bytes.
      if from_content (cx_hash X) bytes = i then store_cached_file_id (cx_db X) rel fp i True
      else write_blob (cx_hash X) (cx_db X) (cx_store X) p rel i)) (\<lambda>x. blob_at X p i)" for g fp
  proof (rule mproc_bind_with [where H = ?obj and T' = nowhere, OF mproc_read_file [OF X]])
    show "mproc X (prefix p) nowhere nowhere (\<lambda>s. fs_get (w_fs (ms_world s)) p = Some (FileNode bytes) \<and> ?obj s)
        (if from_content (cx_hash X) bytes = i then store_cached_file_id (cx_db X) rel fp i True
         else write_blob (cx_hash X) (cx_db X) (cx_store X) p rel i) (\<lambda>x. blob_at X p i)" for bytes
      by (auto intro!: mproc_write_blob [OF X p] mproc_pre [OF mproc_keep_blob [OF X p]] simp: blob_at_def)
  qed (auto intro: shift_object [OF X])
  fix r :: "io_kind + node \<times> file_stamp"
  show "mproc X (prefix p) nowhere nowhere
      (\<lambda>s. (\<forall>x. r = Ok x \<longrightarrow> fs_get (w_fs (ms_world s)) p = Some (fst x) \<and> snd x = w_stamps (ms_world s) p) \<and> ?obj s)
      (case r of Inl _ \<Rightarrow> write_blob (cx_hash X) (cx_db X) (cx_store X) p rel i
       | Inr metadata \<Rightarrow> if node_type (fst metadata) \<noteq> TypeFile then write_blob (cx_hash X) (cx_db X) (cx_store X) p rel i
           else let fingerprint = fingerprint_from_metadata metadata in
             bind_io (cached_file_id (cx_db X) rel fingerprint) (\<lambda>cached.
             if map_option ch_object_id cached = Some i then store_cached_file_id (cx_db X) rel fingerprint i True
             else bind_io (on_world (MatIo p) (read_file p)) (\<lambda>bytes.
               if from_content (cx_hash X) bytes = i then store_cached_file_id (cx_db X) rel fingerprint i True
               else write_blob (cx_hash X) (cx_db X) (cx_store X) p rel i))) (\<lambda>x. blob_at X p i)"
  proof (cases r)
    case (Inr md)
    let ?H = "\<lambda>s. (fs_get (w_fs (ms_world s)) p = Some (fst md) \<and> snd md = w_stamps (ms_world s) p) \<and> ?obj s"
    let ?M = "\<lambda>c s. \<forall>hit. c = Some hit \<longrightarrow> (\<exists>f. file_right (now X s) (w_fs (ms_world s)) rel f \<and>
        cf_fingerprint f = fingerprint_from_metadata md \<and> ch_object_id hit = cf_object_id f)"
    have "mproc X (prefix p) nowhere nowhere ?H (bind_io (cached_file_id (cx_db X) rel (fingerprint_from_metadata md)) (\<lambda>cached.
        if map_option ch_object_id cached = Some i then store_cached_file_id (cx_db X) rel (fingerprint_from_metadata md) i True
        else bind_io (on_world g (read_file p)) (\<lambda>bytes.
          if from_content (cx_hash X) bytes = i then store_cached_file_id (cx_db X) rel (fingerprint_from_metadata md) i True
          else write_blob (cx_hash X) (cx_db X) (cx_store X) p rel i))) (\<lambda>x. blob_at X p i)"
      if regular: "node_type (fst md) = TypeFile" for g
    proof (rule mproc_bind_with [where H = ?H and T' = nowhere, OF mproc_cached_file_id])
      obtain b where b: "fst md = FileNode b" using regular by (cases "fst md") (auto simp: node_type_def)
      have hit: "blob_at X p i s" if "?M c s" "?H s" "map_option ch_object_id c = Some i" for c s
      proof -
        from that obtain f where f: "file_right (now X s) (w_fs (ms_world s)) rel f" "cf_fingerprint f = fingerprint_from_metadata md" "cf_object_id f = i"
          by auto
        have "md = (FileNode b, w_stamps (ms_world s) p)" using that(2) b by (simp add: prod_eq_iff)
        then show ?thesis
          using f that(2) b child_not_hidden' [OF p(1)] by (auto simp: blob_at_def file_right_def now_def p(2))
      qed
      show "mproc X (prefix p) nowhere nowhere (\<lambda>s. ?M c s \<and> ?H s)
          (if map_option ch_object_id c = Some i then store_cached_file_id (cx_db X) rel (fingerprint_from_metadata md) i True
           else bind_io (on_world g (read_file p)) (\<lambda>bytes.
             if from_content (cx_hash X) bytes = i then store_cached_file_id (cx_db X) rel (fingerprint_from_metadata md) i True
             else write_blob (cx_hash X) (cx_db X) (cx_store X) p rel i)) (\<lambda>x. blob_at X p i)" for c
      proof (cases "map_option ch_object_id c = Some i")
        case True
        have "mproc X (prefix p) nowhere nowhere (\<lambda>s. ?M c s \<and> ?H s)
            (store_cached_file_id (cx_db X) rel (fingerprint_from_metadata md) i True) (\<lambda>x. blob_at X p i)"
          by (rule mproc_pre [OF keep]) (use hit [OF _ _ True] in blast)
        then show ?thesis unfolding if_P [OF True] .
      next
        case False
        show ?thesis unfolding if_not_P [OF False] by (rule mproc_pre [OF read]) simp
      qed
      show "shift X nowhere s s' \<Longrightarrow> ?H s \<Longrightarrow> ?H s'" for s s'
        using shift_object [OF X, of nowhere s s'] moved_get [of X nowhere "w_fs (ms_world s)" "w_fs (ms_world s')" p] nm by (simp add: shift_def)
    qed auto
    then show ?thesis
      using Inr mproc_pre [OF wr] by (auto simp: Let_def intro: mproc_pre)
  qed (simp add: mproc_pre [OF wr])
qed (auto intro: shift_object [OF X])

end
