(* ===== verification/Materialize_Walk.thy ===== *)
theory Materialize_Walk
  imports Materialize_Correctness
begin

text \<open>
  The walk of \<open>materialize_directory\<close>: pruning leaves only the names of the tree and what a capture does not see,
  the entries are written one by one without touching each other, and in the end the directory has the tree.
\<close>

section \<open>Trees that can be materialized\<close>

text \<open>
  A tree of the store, complete with everything below it, whose names a capture with the same options would see.
\<close>

inductive complete_tree :: "'d site \<Rightarrow> capture_options \<Rightarrow> fs \<Rightarrow> object_id \<Rightarrow> bool" for X options fs where
  complete_tree_node:
  "has_content (cx_hash X) (cx_store X) fs TreeObject i b \<Longrightarrow> wf_tree t \<Longrightarrow> tree_to_canonical_bytes t = Some b \<Longrightarrow>
   (\<And>e. e \<in> set (tree_entries t) \<Longrightarrow> entry_name e \<noteq> bstr ''.era'' \<and>
     (entry_kind e = BlobEntry \<longrightarrow> has_object X fs BlobObject (entry_id e)) \<and>
     (entry_kind e = TreeEntry \<longrightarrow> \<not> excludes_directory_name options (entry_name e) \<and> complete_tree X options fs (entry_id e))) \<Longrightarrow>
   complete_tree X options fs i"

definition complete_entry :: "'d site \<Rightarrow> capture_options \<Rightarrow> fs \<Rightarrow> tree_entry \<Rightarrow> bool" where
  "complete_entry X options fs e \<longleftrightarrow> entry_name e \<noteq> bstr ''.era'' \<and>
     (entry_kind e = BlobEntry \<longrightarrow> has_object X fs BlobObject (entry_id e)) \<and>
     (entry_kind e = TreeEntry \<longrightarrow> \<not> excludes_directory_name options (entry_name e) \<and> complete_tree X options fs (entry_id e))"

lemma complete_tree_moved:
  assumes X: "mat_site_ok X" and m: "moved X T fs fs'" and "complete_tree X options fs i"
  shows "complete_tree X options fs' i"
  using assms(3)
proof (induction rule: complete_tree.induct)
  case (complete_tree_node i b t)
  show ?case
    by (rule complete_tree.complete_tree_node [OF moved_content [OF X m complete_tree_node.hyps(1)] complete_tree_node.hyps(2,3)])
      (use complete_tree_node.IH moved_object [OF X m] in blast)
qed

lemma complete_entry_moved: "mat_site_ok X \<Longrightarrow> moved X T fs fs' \<Longrightarrow> complete_entry X options fs e \<Longrightarrow> complete_entry X options fs' e"
  unfolding complete_entry_def by (blast intro: moved_object complete_tree_moved)

lemma complete_tree_entries:
  assumes "complete_tree X options fs i" "has_content (cx_hash X) (cx_store X) fs TreeObject i b" "wf_tree t"
    "tree_to_canonical_bytes t = Some b" "e \<in> set (tree_entries t)"
  shows "complete_entry X options fs e"
  using assms(1)
proof (rule complete_tree.cases)
  fix i' b' t'
  assume i: "i = i'" and b': "has_content (cx_hash X) (cx_store X) fs TreeObject i' b'" and t': "wf_tree t'" "tree_to_canonical_bytes t' = Some b'"
    and e: "\<And>e. e \<in> set (tree_entries t') \<Longrightarrow> entry_name e \<noteq> bstr ''.era'' \<and>
      (entry_kind e = BlobEntry \<longrightarrow> has_object X fs BlobObject (entry_id e)) \<and>
      (entry_kind e = TreeEntry \<longrightarrow> \<not> excludes_directory_name options (entry_name e) \<and> complete_tree X options fs (entry_id e))"
  have b: "b' = b" by (rule has_content_unique [OF b' [folded i] assms(2)])
  have "fits_memory b" using has_content_fits [OF assms(2)] by simp
  from tree_decode_encode [OF t'(1) t'(2) [unfolded b] this] tree_decode_encode [OF assms(3,4) this]
  have "t' = t" by simp
  then show ?thesis using e assms(5) by (simp add: complete_entry_def)
qed

section \<open>Pruning\<close>

text \<open>What a directory may still have besides the names of its tree: what a capture does not see, and \<open>ys\<close>.\<close>

definition pruned :: "capture_options \<Rightarrow> rstring set \<Rightarrow> path \<Rightarrow> (rstring \<times> node) list \<Rightarrow> 'd mat_state \<Rightarrow> bool" where
  "pruned options names dir ys s \<longleftrightarrow> (\<forall>c n. fs_get (w_fs (ms_world s)) (dir @ [c]) = Some n \<longrightarrow>
     c \<in> names \<or> skipped options (c, n) \<or> (c, n) \<in> set ys)"

lemma child_get:
  assumes "in_tree (cx_root X) dir" "c \<noteq> bstr ''.era''" "moved X T fs fs'" "\<not> T (dir @ [c])"
  shows "fs_get fs' (dir @ [c]) = fs_get fs (dir @ [c])"
  by (rule moved_get [OF assms(3,4)]) (rule in_tree_below(1) [OF assms(1,2)], simp)

lemma pruned_shift:
  assumes "in_tree (cx_root X) dir" "shift X T s s'" "pruned options names dir ys s" "\<And>c. c \<notin> names \<Longrightarrow> \<not> T (dir @ [c])"
  shows "pruned options names dir ys s'"
  unfolding pruned_def
proof (intro allI impI)
  fix c n
  assume n: "fs_get (w_fs (ms_world s')) (dir @ [c]) = Some n"
  show "c \<in> names \<or> skipped options (c, n) \<or> (c, n) \<in> set ys"
  proof (cases "c \<in> names \<or> c = bstr ''.era''")
    case False
    then have "fs_get (w_fs (ms_world s)) (dir @ [c]) = Some n"
      using child_get [OF assms(1), of c T "w_fs (ms_world s)" "w_fs (ms_world s')"] assms(2,4) n by (simp add: shift_def)
    then show ?thesis using assms(3) by (auto simp: pruned_def)
  qed (auto simp: skipped_def)
qed

lemma mproc_read_entries:
  assumes X: "mat_site_ok X" and dir: "in_tree (cx_root X) dir"
  shows "mproc X nowhere U U G (on_world g (read_directory_entries dir rel))
    (\<lambda>es s. \<exists>ys. es = map (entry_at dir rel) ys \<and> (\<forall>c n. c \<noteq> bstr ''.era'' \<longrightarrow> fs_get (w_fs (ms_world s)) (dir @ [c]) = Some n \<longrightarrow> (c, n) \<in> set ys))"
proof (rule mproc_on_world [OF X, where Gf = "\<lambda>fs. True" and Q = "\<lambda>es fs. \<exists>ys. es = map (entry_at dir rel) ys \<and>
    (\<forall>c n. c \<noteq> bstr ''.era'' \<longrightarrow> fs_get fs (dir @ [c]) = Some n \<longrightarrow> (c, n) \<in> set ys)"])
  fix fs0
  show "hoare (mat_rely X) (kept X nowhere fs0) (read_directory_entries dir rel) (\<lambda>r fs. kept X nowhere fs0 fs \<and>
      (\<forall>es. r = Ok es \<longrightarrow> (\<exists>ys. es = map (entry_at dir rel) ys \<and>
        (\<forall>c n. c \<noteq> bstr ''.era'' \<longrightarrow> fs_get fs (dir @ [c]) = Some n \<longrightarrow> (c, n) \<in> set ys))))"
  proof (rule hoare_post [OF hoare_read_directory_entries [OF stable_kept [OF X]]])
    fix r fs
    assume *: "kept X nowhere fs0 fs \<and> (\<forall>es. r = Ok es \<longrightarrow> (\<exists>fs'. kept X nowhere fs0 fs' \<and>
        es = sort_key de_name (map (entry_at dir rel) (dir_entries fs' dir))))"
    have "(c, n) \<in> set (sort_key fst (dir_entries fs' dir))"
      if k: "kept X nowhere fs0 fs'" and c: "c \<noteq> bstr ''.era''" "fs_get fs (dir @ [c]) = Some n" for fs' c n
    proof -
      have m: "moved X nowhere fs0 fs" "moved X nowhere fs0 fs'" "distinct (map fst fs')"
        using * k by (auto simp: kept_def moved_def sound_fs_def)
      have "fs_get fs' (dir @ [c]) = Some n" using child_get [OF dir c(1) m(1)] child_get [OF dir c(1) m(2)] c(2) by simp
      then show ?thesis by (simp add: set_dir_entries [OF m(3)])
    qed
    then show "kept X nowhere fs0 fs \<and> (\<forall>es. r = Ok es \<longrightarrow> (\<exists>ys. es = map (entry_at dir rel) ys \<and>
        (\<forall>c n. c \<noteq> bstr ''.era'' \<longrightarrow> fs_get fs (dir @ [c]) = Some n \<longrightarrow> (c, n) \<in> set ys)))"
      using * unfolding sort_entries by blast
  qed
qed simp

lemma entry_at_fields [simp]:
  "de_name (entry_at dir rel x) = fst x" "de_path (entry_at dir rel x) = dir @ [fst x]"
  "de_relative_path (entry_at dir rel x) = rel @ [fst x]"
  by (simp_all add: entry_at_def)

lemma mproc_prune_entries:
  assumes X: "mat_site_ok X" and dir: "in_tree (cx_root X) dir"
  shows "mproc X (\<lambda>q. \<exists>c. c \<notin> set names \<and> c \<noteq> bstr ''.era'' \<and> prefix (dir @ [c]) q) nowhere nowhere (pruned options (set names) dir ys)
    (prune_entries names options (map (entry_at dir rel) ys)) (\<lambda>x. pruned options (set names) dir [])"
proof (induction ys)
  case Nil
  then show ?case by (simp add: mproc_return)
next
  case (Cons y ys)
  let ?T = "\<lambda>q. \<exists>c. c \<notin> set names \<and> c \<noteq> bstr ''.era'' \<and> prefix (dir @ [c]) q"
  let ?rest = "prune_entries names options (map (entry_at dir rel) ys)"
  show ?case
  proof (cases "fst y \<in> set names \<or> skipped options y")
    case True
    then have sub: "pruned options (set names) dir (y # ys) s \<Longrightarrow> pruned options (set names) dir ys s" for s
      by (cases y) (auto simp: pruned_def)
    then have "mproc X ?T nowhere nowhere (pruned options (set names) dir (y # ys)) ?rest (\<lambda>x. pruned options (set names) dir [])"
      by (rule mproc_pre [OF Cons.IH])
    then show ?thesis
      using True by (auto simp: should_skip_entry_at node_type_entry_at skipped_def intro: mproc_fail split: symlink_policy.split)
  next
    case False
    let ?p = "dir @ [fst y]"
    have ne: "fst y \<noteq> bstr ''.era''" and sym: "snd y \<noteq> SymlinkNode" using False by (auto simp: skipped_def)
    have p: "child_of X ?p" by (rule child_ofI [OF dir ne])
    have here: "prefix ?p q \<Longrightarrow> ?T q" for q using False ne by blast
    let ?H = "\<lambda>s. \<forall>c n. c \<noteq> fst y \<longrightarrow> fs_get (w_fs (ms_world s)) (dir @ [c]) = Some n \<longrightarrow>
        c \<in> set names \<or> skipped options (c, n) \<or> (c, n) \<in> set ys"
    have keep: "?H s'" if "shift X (prefix ?p) s s'" "?H s" for s s'
    proof (intro allI impI)
      fix c n
      assume c: "c \<noteq> fst y" "fs_get (w_fs (ms_world s')) (dir @ [c]) = Some n"
      show "c \<in> set names \<or> skipped options (c, n) \<or> (c, n) \<in> set ys"
      proof (cases "c = bstr ''.era''")
        case False
        then have "fs_get (w_fs (ms_world s)) (dir @ [c]) = Some n"
          using child_get [OF dir False, of "prefix ?p" "w_fs (ms_world s)" "w_fs (ms_world s')"] that(1) c by (simp add: shift_def)
        then show ?thesis using that(2) c(1) by blast
      qed (simp add: skipped_def)
    qed
    have rest: "mproc X ?T nowhere nowhere (pruned options (set names) dir ys) (bind_io ?rest (\<lambda>removed. return_io (q # removed)))
        (\<lambda>x. pruned options (set names) dir [])" for q
      by (rule mproc_bind [OF Cons.IH]) (auto intro: mproc_return)
    have "mproc X ?T nowhere nowhere (pruned options (set names) dir (y # ys))
        (bind_io (remove_path ?p type) (\<lambda>_. bind_io ?rest (\<lambda>removed. return_io (q # removed)))) (\<lambda>x. pruned options (set names) dir [])" for type q
    proof (rule mproc_bind_with [where T' = "prefix ?p" and H = ?H, OF mproc_remove_path [OF X p] keep])
      show "?H s" if "pruned options (set names) dir (y # ys) s" for s
        using that by (cases y) (auto simp: pruned_def)
      show "mproc X ?T nowhere nowhere (\<lambda>s. fs_get (w_fs (ms_world s)) ?p = None \<and> ?H s)
          (bind_io ?rest (\<lambda>removed. return_io (q # removed))) (\<lambda>x. pruned options (set names) dir [])" for x
        by (rule mproc_pre [OF rest]) (unfold pruned_def, metis option.distinct(1))
    qed (use here in auto)
    then show ?thesis
      using False sym by (simp add: should_skip_entry_at node_type_entry_at)
  qed
qed

section \<open>Entries\<close>

definition sub_tree :: "'d site \<Rightarrow> capture_options \<Rightarrow> 'd mat_state \<Rightarrow> path \<Rightarrow> object_id \<Rightarrow> bool" where
  "sub_tree X options s dir i \<longleftrightarrow> dir_tree (cx_hash X) options (has_object X (w_fs (ms_world s))) (w_fs (ms_world s)) dir i"

definition entry_done :: "'d site \<Rightarrow> capture_options \<Rightarrow> path \<Rightarrow> tree_entry \<Rightarrow> 'd mat_state \<Rightarrow> bool" where
  "entry_done X options dir e s \<longleftrightarrow> (case entry_kind e of
     BlobEntry \<Rightarrow> blob_at X (dir @ [entry_name e]) (entry_id e) s
   | TreeEntry \<Rightarrow> fs_get (w_fs (ms_world s)) (dir @ [entry_name e]) = Some DirNode \<and> sub_tree X options s (dir @ [entry_name e]) (entry_id e)) \<and>
     sound_fs X (w_fs (ms_world s))"

lemma sub_tree_shift:
  assumes X: "mat_site_ok X" and p: "in_tree (cx_root X) p" and sound: "sound_fs X (w_fs (ms_world s))" and sh: "shift X T s s'"
    and T: "\<And>q. strict_prefix p q \<Longrightarrow> \<not> T q" and tree: "sub_tree X options s p i"
  shows "sub_tree X options s' p i"
proof -
  have m: "moved X T (w_fs (ms_world s)) (w_fs (ms_world s'))" using sh by (simp add: shift_def)
  have "within (hidden p) (w_fs (ms_world s)) (w_fs (ms_world s'))"
    unfolding within_def
  proof (intro conjI allI impI)
    fix q
    assume nh: "\<not> hidden p q"
    then have q: "strict_prefix p q" by (simp add: hidden_def)
    then obtain c rest where c: "q = p @ c # rest" by (auto elim: strict_prefixE')
    then have "\<not> meta (cx_root X) q" using nh by (intro in_tree_below(1) [OF p, of c]) (auto simp: hidden_def prefix_def)
    then show "fs_get (w_fs (ms_world s')) q = fs_get (w_fs (ms_world s)) q" by (rule moved_get [OF m T [OF q]])
  qed (use m in \<open>simp add: moved_def sound_fs_def\<close>)
  from dir_tree_cong [OF tree [unfolded sub_tree_def] this _ in_tree_root] sound
  have "dir_tree (cx_hash X) options (has_object X (w_fs (ms_world s))) (w_fs (ms_world s')) p i" by (simp add: sound_fs_def)
  then show ?thesis unfolding sub_tree_def by (rule dir_tree_mono) (rule moved_object [OF X m])
qed

lemma child_in_tree: "child_of X p \<Longrightarrow> in_tree (cx_root X) p"
  by (auto simp: child_of_def intro: in_tree_child)

lemma entry_done_shift:
  assumes X: "mat_site_ok X" and p: "child_of X (dir @ [entry_name e])" and sh: "shift X T s s'"
    and T: "\<And>q. prefix (dir @ [entry_name e]) q \<Longrightarrow> \<not> T q" and done': "entry_done X options dir e s"
  shows "entry_done X options dir e s'"
proof -
  let ?p = "dir @ [entry_name e]"
  have m: "moved X T (w_fs (ms_world s)) (w_fs (ms_world s'))" using sh by (simp add: shift_def)
  have get: "fs_get (w_fs (ms_world s')) ?p = fs_get (w_fs (ms_world s)) ?p"
    using moved_get [OF m T] child_below [OF p, of ?p] by simp
  have "sub_tree X options s ?p i \<Longrightarrow> sub_tree X options s' ?p i" for i
    by (rule sub_tree_shift [OF X child_in_tree [OF p] _ sh]) (use done' T in \<open>auto simp: entry_done_def\<close>)
  then show ?thesis
    using done' get moved_object [OF X m] m
    by (auto simp: entry_done_def blob_at_def moved_def split: entry_kind.splits)
qed

lemma mproc_sound:
  assumes "mproc X T U V G m Q"
  shows "mproc X T U V G m (\<lambda>x s. Q x s \<and> sound_fs X (w_fs (ms_world s)))"
  using assms unfolding mproc_def by (fastforce simp: shift_def moved_def split: sum.splits)

lemma mproc_materialize_entry:
  assumes X: "mat_site_ok X" and dir: "dir = cx_root X @ rel" "in_tree (cx_root X) dir" and ne: "entry_name e \<noteq> bstr ''.era''"
    and enter: "mproc X (strict_prefix (dir @ [entry_name e])) nowhere nowhere (\<lambda>s. complete_tree X options (w_fs (ms_world s)) (entry_id e))
      (enter (entry_id e) (dir @ [entry_name e]) (rel @ [entry_name e])) (\<lambda>x s. sub_tree X options s (dir @ [entry_name e]) (entry_id e))"
  shows "mproc X (prefix (dir @ [entry_name e])) nowhere nowhere (\<lambda>s. complete_entry X options (w_fs (ms_world s)) e)
    (materialize_entry (cx_hash X) (cx_db X) (cx_store X) enter dir rel e) (\<lambda>x. entry_done X options dir e)"
proof -
  let ?p = "dir @ [entry_name e]"
  have p: "child_of X ?p" by (rule child_ofI [OF dir(2) ne])
  have "mproc X (prefix ?p) nowhere nowhere (\<lambda>s. complete_entry X options (w_fs (ms_world s)) e)
      (materialize_entry (cx_hash X) (cx_db X) (cx_store X) enter dir rel e)
      (\<lambda>x s. case entry_kind e of BlobEntry \<Rightarrow> blob_at X ?p (entry_id e) s
        | TreeEntry \<Rightarrow> fs_get (w_fs (ms_world s)) ?p = Some DirNode \<and> sub_tree X options s ?p (entry_id e))"
  proof (cases "entry_kind e")
    case BlobEntry
    have "mproc X (prefix ?p) nowhere nowhere (\<lambda>s. complete_entry X options (w_fs (ms_world s)) e)
        (materialize_blob (cx_hash X) (cx_db X) (cx_store X) ?p (rel @ [entry_name e]) (entry_id e)) (\<lambda>x. blob_at X ?p (entry_id e))"
      by (rule mproc_pre [OF mproc_materialize_blob [OF X p]]) (use BlobEntry dir in \<open>auto simp: complete_entry_def\<close>)
    then show ?thesis using BlobEntry by (simp add: materialize_entry_def join_relative_def)
  next
    case TreeEntry
    let ?ready = "\<lambda>s. complete_tree X options (w_fs (ms_world s)) (entry_id e)" and ?dirnode = "\<lambda>s. fs_get (w_fs (ms_world s)) ?p = Some DirNode"
    have keep: "?dirnode s'" if "shift X (strict_prefix ?p) s s'" "?dirnode s" for s s'
      using that moved_get [of X "strict_prefix ?p" "w_fs (ms_world s)" "w_fs (ms_world s')" ?p] child_below [OF p, of ?p]
      by (simp add: shift_def)
    have inner: "mproc X (prefix ?p) nowhere nowhere (\<lambda>s. ?dirnode s \<and> ?ready s) (enter (entry_id e) ?p (rel @ [entry_name e]))
        (\<lambda>x s. ?dirnode s \<and> sub_tree X options s ?p (entry_id e))"
      by (rule mproc_widen [where T = "strict_prefix ?p"], rule mproc_post [OF mproc_pre [OF mproc_carry [OF enter keep]]]) auto
    have "mproc X (prefix ?p) nowhere nowhere (\<lambda>s. complete_entry X options (w_fs (ms_world s)) e)
        (bind_io (prepare_directory ?p) (\<lambda>_. enter (entry_id e) ?p (rel @ [entry_name e]))) (\<lambda>x s. ?dirnode s \<and> sub_tree X options s ?p (entry_id e))"
    proof (rule mproc_bind_with [where T' = "prefix ?p" and H = ?ready, OF mproc_prepare_directory [OF X p]])
      show "shift X (prefix ?p) s s' \<Longrightarrow> ?ready s \<Longrightarrow> ?ready s'" for s s' by (auto simp: shift_def intro: complete_tree_moved [OF X])
    qed (use TreeEntry inner in \<open>auto simp: complete_entry_def\<close>)
    then show ?thesis using TreeEntry by (simp add: materialize_entry_def join_relative_def)
  qed
  from mproc_sound [OF this] show ?thesis by (simp add: entry_done_def [abs_def])
qed

lemma mproc_each:
  assumes X: "mat_site_ok X" and dir: "in_tree (cx_root X) dir"
    and step: "\<And>e. e \<in> set es \<Longrightarrow> mproc X (prefix (dir @ [entry_name e])) nowhere nowhere (\<lambda>s. complete_entry X options (w_fs (ms_world s)) e)
      (f e) (\<lambda>x. entry_done X options dir e)"
    and names: "distinct (map entry_name es)" "\<And>e. e \<in> set es \<Longrightarrow> entry_name e \<noteq> bstr ''.era''"
  shows "mproc X (\<lambda>q. \<exists>e \<in> set es. prefix (dir @ [entry_name e]) q) nowhere nowhere
    (\<lambda>s. \<forall>e \<in> set es. complete_entry X options (w_fs (ms_world s)) e) (each f es) (\<lambda>x s. \<forall>e \<in> set es. entry_done X options dir e s)"
  using step names
proof (induction es)
  case Nil
  then show ?case by (simp add: mproc_return)
next
  case (Cons e es)
  let ?T = "\<lambda>q. \<exists>e \<in> set es. prefix (dir @ [entry_name e]) q" and ?ready = "\<lambda>s. \<forall>e \<in> set es. complete_entry X options (w_fs (ms_world s)) e"
  have p: "child_of X (dir @ [entry_name e])" by (rule child_ofI [OF dir]) (use Cons.prems in auto)
  have IH: "mproc X ?T nowhere nowhere ?ready (each f es) (\<lambda>x s. \<forall>e \<in> set es. entry_done X options dir e s)"
    by (rule Cons.IH) (use Cons.prems in auto)
  have off: "\<not> ?T q" if "prefix (dir @ [entry_name e]) q" for q
    using that Cons.prems(2) by (auto simp: prefix_def)
  have rest: "mproc X ?T nowhere nowhere (\<lambda>s. ?ready s \<and> entry_done X options dir e s) (each f es)
      (\<lambda>x s. (\<forall>e \<in> set es. entry_done X options dir e s) \<and> entry_done X options dir e s)"
    by (rule mproc_carry [OF IH]) (rule entry_done_shift [OF X p _ off])
  show ?case
    unfolding each.simps
  proof (rule mproc_bind_with [where T' = "prefix (dir @ [entry_name e])" and H = ?ready])
    show "mproc X (prefix (dir @ [entry_name e])) nowhere nowhere (\<lambda>s. \<forall>e \<in> set (e # es). complete_entry X options (w_fs (ms_world s)) e) (f e)
        (\<lambda>x. entry_done X options dir e)"
      by (rule mproc_pre [OF Cons.prems(1)]) auto
    show "?ready s'" if "shift X (prefix (dir @ [entry_name e])) s s'" "?ready s" for s s'
      using that complete_entry_moved [OF X] by (auto simp: shift_def)
    show "mproc X (\<lambda>q. \<exists>e \<in> set (e # es). prefix (dir @ [entry_name e]) q) nowhere nowhere (\<lambda>s. entry_done X options dir e s \<and> ?ready s)
        (each f es) (\<lambda>x s. \<forall>e \<in> set (e # es). entry_done X options dir e s)" for x
      by (rule mproc_widen [where T = ?T], rule mproc_post [OF mproc_pre [OF rest]]) auto
  qed auto
qed

section \<open>The walk\<close>

lemma shown_entries:
  assumes fs: "distinct (map fst fs)" and es: "sorted_wrt (<) (map entry_name es)"
    and on: "\<And>e. e \<in> set es \<Longrightarrow> \<exists>n. fs_get fs (dir @ [entry_name e]) = Some n \<and> \<not> skipped options (entry_name e, n)"
    and off: "\<And>c n. fs_get fs (dir @ [c]) = Some n \<Longrightarrow> c \<in> entry_name ` set es \<or> skipped options (c, n)"
  shows "shown options fs dir = map (\<lambda>e. (entry_name e, the (fs_get fs (dir @ [entry_name e])))) es"
proof -
  let ?xs = "map (\<lambda>e. (entry_name e, the (fs_get fs (dir @ [entry_name e])))) es"
  have "sort_key fst ?xs = ?xs"
    by (rule sort_key_id_if_sorted) (use es in \<open>simp add: sorted_wrt_less_iff comp_def\<close>)
  moreover have "sort_key fst (filter (\<lambda>x. \<not> skipped options x) (dir_entries fs dir)) = sort_key fst ?xs"
  proof (rule sort_key_unique)
    show "set (filter (\<lambda>x. \<not> skipped options x) (dir_entries fs dir)) = set ?xs"
    proof (rule set_eqI, rule prod.induct)
      fix c n
      show "(c, n) \<in> set (filter (\<lambda>x. \<not> skipped options x) (dir_entries fs dir)) \<longleftrightarrow> (c, n) \<in> set ?xs"
        using on off [of c n] by (fastforce simp: set_dir_entries [OF fs])
    qed
    show "distinct (map fst (filter (\<lambda>x. \<not> skipped options x) (dir_entries fs dir)))"
      using distinct_dir_entries [OF fs] by (simp add: distinct_map_filter)
    show "distinct (map fst ?xs)" using es by (simp add: sorted_wrt_less_iff comp_def)
  qed
  ultimately show ?thesis by (simp add: shown_def)
qed

lemma sub_tree_done:
  assumes t: "wf_tree t" "tree_id (cx_hash X) t = Some i" and obj: "has_object X (w_fs (ms_world s)) TreeObject i"
    and ready: "\<forall>e \<in> set (tree_entries t). complete_entry X options (w_fs (ms_world s)) e"
    and fin: "\<forall>e \<in> set (tree_entries t). entry_done X options dir e s"
    and rest: "pruned options (set (map entry_name (tree_entries t))) dir [] s" and sound: "sound_fs X (w_fs (ms_world s))"
  shows "sub_tree X options s dir i"
proof -
  let ?fs = "w_fs (ms_world s)"
  have on: "\<exists>n. fs_get ?fs (dir @ [entry_name e]) = Some n \<and> \<not> skipped options (entry_name e, n)" if "e \<in> set (tree_entries t)" for e
    using fin [rule_format, OF that] ready [rule_format, OF that]
    by (auto simp: entry_done_def blob_at_def complete_entry_def skipped_def split: entry_kind.splits)
  have shown: "shown options ?fs dir = map (\<lambda>e. (entry_name e, the (fs_get ?fs (dir @ [entry_name e])))) (tree_entries t)"
    by (rule shown_entries [OF _ _ on]) (use t rest sound in \<open>auto simp: wf_tree_def pruned_def sound_fs_def\<close>)
  have "entry_for (cx_hash X) (has_object X ?fs) (sub_tree X options s) dir (entry_name e, the (fs_get ?fs (dir @ [entry_name e]))) e"
    if "e \<in> set (tree_entries t)" for e
    using fin [rule_format, OF that] t(1) that
    by (auto simp: entry_done_def blob_at_def wf_tree_def list_all_iff wf_entry_def split: entry_kind.splits)
  then have "list_all2 (entry_for (cx_hash X) (has_object X ?fs) (sub_tree X options s) dir) (shown options ?fs dir) (tree_entries t)"
    unfolding shown list_all2_map1 by (intro list_all2_same [THEN iffD2]) auto
  from dir_tree.dir_tree_node [OF this [unfolded sub_tree_def], of i] show ?thesis
    using t(2) obj by (simp add: sub_tree_def tree_eta)
qed

text \<open>What is known of a tree while its directory is written.\<close>

definition ready_tree :: "'d site \<Rightarrow> capture_options \<Rightarrow> object_id \<Rightarrow> tree \<Rightarrow> 'd mat_state \<Rightarrow> bool" where
  "ready_tree X options i t s \<longleftrightarrow> has_object X (w_fs (ms_world s)) TreeObject i \<and>
     (\<forall>e \<in> set (tree_entries t). complete_entry X options (w_fs (ms_world s)) e)"

lemma ready_tree_shift: "mat_site_ok X \<Longrightarrow> shift X T s s' \<Longrightarrow> ready_tree X options i t s \<Longrightarrow> ready_tree X options i t s'"
  unfolding ready_tree_def shift_def by (blast intro: moved_object complete_entry_moved)

lemma mproc_get_ready:
  assumes X: "mat_site_ok X"
    and f: "\<And>t. wf_tree t \<Longrightarrow> tree_id (cx_hash X) t = Some i \<Longrightarrow> mproc X T U V (ready_tree X options i t) (f t) Q"
  shows "mproc X T U V (\<lambda>s. complete_tree X options (w_fs (ms_world s)) i) (bind_io (on_world g (get_tree (cx_hash X) (cx_store X) i)) f) Q"
proof (rule mproc_bind_with [where T' = nowhere and H = "\<lambda>s. complete_tree X options (w_fs (ms_world s)) i", OF mproc_get_tree [OF X]])
  fix t
  let ?G = "\<lambda>s. (\<exists>b. has_content (cx_hash X) (cx_store X) (w_fs (ms_world s)) TreeObject i b \<and> wf_tree t \<and> tree_to_canonical_bytes t = Some b) \<and>
      complete_tree X options (w_fs (ms_world s)) i"
  show "mproc X T U V ?G (f t) Q"
  proof (cases "wf_tree t \<and> tree_id (cx_hash X) t = Some i")
    case True
    show ?thesis
    proof (rule mproc_pre [OF f])
      show "ready_tree X options i t s" if "?G s" for s
      proof -
        from that obtain b where b: "has_content (cx_hash X) (cx_store X) (w_fs (ms_world s)) TreeObject i b" "tree_to_canonical_bytes t = Some b"
          and c: "complete_tree X options (w_fs (ms_world s)) i" by blast
        then show ?thesis
          using complete_tree_entries [OF c b(1) _ b(2)] True by (auto simp: ready_tree_def has_object_def object_ok_content)
      qed
    qed (use True in simp_all)
  next
    case False
    have "\<not> ?G s" for s using False has_content_hash [of "cx_hash X" "cx_store X" "w_fs (ms_world s)" TreeObject i] by (auto simp: tree_id_def)
    then show ?thesis by (rule mproc_false)
  qed
qed (auto simp: shift_def intro: complete_tree_moved [OF X])

lemma mproc_ex: "(\<And>y. mproc X T U V (G y) m Q) \<Longrightarrow> mproc X T U V (\<lambda>s. \<exists>y. G y s) m Q"
  unfolding mproc_def by blast

lemma mproc_prune_directory:
  assumes X: "mat_site_ok X" and dir: "in_tree (cx_root X) dir"
  shows "mproc X (strict_prefix dir) nowhere nowhere G (prune_directory dir rel names options) (\<lambda>x. pruned options (set names) dir [])"
  unfolding prune_directory_def
proof (rule mproc_bind [OF mproc_widen [OF mproc_read_entries [OF X dir]] mproc_ex])
  fix es ys
  let ?T = "\<lambda>q. \<exists>c. c \<notin> set names \<and> c \<noteq> bstr ''.era'' \<and> prefix (dir @ [c]) q"
  let ?G = "\<lambda>s. es = map (entry_at dir rel) ys \<and> (\<forall>c n. c \<noteq> bstr ''.era'' \<longrightarrow> fs_get (w_fs (ms_world s)) (dir @ [c]) = Some n \<longrightarrow> (c, n) \<in> set ys)"
  have below: "?T q \<Longrightarrow> strict_prefix dir q" for q using in_tree_below(2) [OF dir] by blast
  have "mproc X (strict_prefix dir) nowhere nowhere (pruned options (set names) dir ys)
      (prune_entries names options (map (entry_at dir rel) ys)) (\<lambda>x. pruned options (set names) dir [])"
    by (rule mproc_widen [OF mproc_prune_entries [OF X dir] below])
  then show "mproc X (strict_prefix dir) nowhere nowhere ?G (prune_entries names options es) (\<lambda>x. pruned options (set names) dir [])"
    by (cases "es = map (entry_at dir rel) ys") (auto simp: pruned_def skipped_def elim!: mproc_pre intro: mproc_false)
qed simp

lemma mproc_materialize_directory:
  assumes X: "mat_site_ok X"
  shows "in_tree (cx_root X) (cx_root X @ rel) \<Longrightarrow>
    mproc X (strict_prefix (cx_root X @ rel)) nowhere nowhere (\<lambda>s. complete_tree X options (w_fs (ms_world s)) i)
      (materialize_directory (cx_hash X) (cx_db X) (cx_store X) options n i (cx_root X @ rel) rel)
      (\<lambda>x s. sub_tree X options s (cx_root X @ rel) i)"
proof (induction n arbitrary: rel i)
  case 0
  then show ?case by (simp add: mproc_fail)
next
  case (Suc n)
  let ?dir = "cx_root X @ rel" and ?go = "materialize_directory (cx_hash X) (cx_db X) (cx_store X) options n"
  let ?T = "strict_prefix ?dir"
  note dir = Suc.prems
  show ?case
    unfolding materialize_directory.simps
  proof (rule mproc_get_ready [OF X])
    fix t
    assume t: "wf_tree t" "tree_id (cx_hash X) t = Some i"
    let ?es = "tree_entries t"
    let ?ready = "ready_tree X options i t" and ?pruned = "pruned options (set (map entry_name ?es)) ?dir []"
    let ?store = "store_cached_directory (cx_hash X) (cx_db X) rel i ?es True"
    let ?Q = "\<lambda>x s. sub_tree X options s ?dir i"
    have valid: "valid_id i" using t(2) X by (auto simp: tree_id_def mat_site_ok_def valid_from_content)
    have keep_tree: "still X (\<lambda>s. sub_tree X options s ?dir i \<and> sound_fs X (w_fs (ms_world s)))"
      unfolding still_def using sub_tree_shift [OF X dir, of _ nowhere] by (auto simp: shift_def moved_def)
    have last: "mproc X ?T nowhere nowhere (\<lambda>s. (sub_tree X options s ?dir i \<and> sound_fs X (w_fs (ms_world s))) \<and> ?ready s) ?store ?Q"
    proof (rule mproc_post [OF mproc_still [where Q = "\<lambda>x. True"]])
      show "mproc X nowhere nowhere nowhere (\<lambda>s. (sub_tree X options s ?dir i \<and> sound_fs X (w_fs (ms_world s))) \<and> ?ready s) ?store (\<lambda>x s. True)"
        by (rule mproc_store_directory) (use valid in \<open>auto simp: ready_tree_def\<close>)
      show "still X (\<lambda>s. (sub_tree X options s ?dir i \<and> sound_fs X (w_fs (ms_world s))) \<and> ?ready s)"
        by (rule still_conj [OF keep_tree]) (auto simp: still_def intro: ready_tree_shift [OF X])
    qed simp
    let ?Te = "\<lambda>q. \<exists>e \<in> set ?es. prefix (?dir @ [entry_name e]) q"
    have walk': "mproc X ?T nowhere nowhere (\<lambda>s. ?pruned s \<and> ?ready s)
        (bind_io (each (materialize_entry (cx_hash X) (cx_db X) (cx_store X) ?go ?dir rel) ?es) (\<lambda>_. ?store)) ?Q"
    proof (cases "\<forall>e \<in> set ?es. entry_name e \<noteq> bstr ''.era''")
      case True
      have step: "mproc X (prefix (?dir @ [entry_name e])) nowhere nowhere (\<lambda>s. complete_entry X options (w_fs (ms_world s)) e)
          (materialize_entry (cx_hash X) (cx_db X) (cx_store X) ?go ?dir rel e) (\<lambda>x. entry_done X options ?dir e)" if "e \<in> set ?es" for e
      proof (rule mproc_materialize_entry [OF X refl dir])
        show ne: "entry_name e \<noteq> bstr ''.era''" using True that by blast
        show "mproc X (strict_prefix (?dir @ [entry_name e])) nowhere nowhere (\<lambda>s. complete_tree X options (w_fs (ms_world s)) (entry_id e))
            (?go (entry_id e) (?dir @ [entry_name e]) (rel @ [entry_name e])) (\<lambda>x s. sub_tree X options s (?dir @ [entry_name e]) (entry_id e))"
          using Suc.IH [of "rel @ [entry_name e]" "entry_id e"] in_tree_child [OF dir ne] by simp
      qed
      have below: "?Te q \<Longrightarrow> ?T q" for q using in_tree_below(2) [OF dir] True by blast
      have names: "distinct (map entry_name ?es)" using t(1) by (simp add: wf_tree_def sorted_wrt_less_iff)
      have all: "mproc X ?Te nowhere nowhere (\<lambda>s. \<forall>e \<in> set ?es. complete_entry X options (w_fs (ms_world s)) e)
          (each (materialize_entry (cx_hash X) (cx_db X) (cx_store X) ?go ?dir rel) ?es) (\<lambda>x s. \<forall>e \<in> set ?es. entry_done X options ?dir e s)"
        by (rule mproc_each [OF X dir step names]) (use True in auto)
      show ?thesis
      proof (rule mproc_bind_with [where T' = ?Te and H = "\<lambda>s. ?pruned s \<and> ?ready s"])
        show "mproc X ?Te nowhere nowhere (\<lambda>s. ?pruned s \<and> ?ready s) (each (materialize_entry (cx_hash X) (cx_db X) (cx_store X) ?go ?dir rel) ?es)
            (\<lambda>x s. (\<forall>e \<in> set ?es. entry_done X options ?dir e s) \<and> sound_fs X (w_fs (ms_world s)))"
          by (rule mproc_sound, rule mproc_pre [OF all]) (simp add: ready_tree_def)
        show "?pruned s' \<and> ?ready s'" if "shift X ?Te s s'" "?pruned s \<and> ?ready s" for s s'
        proof (intro conjI)
          show "?pruned s'" by (rule pruned_shift [OF dir that(1) conjunct1 [OF that(2)]]) auto
          show "?ready s'" by (rule ready_tree_shift [OF X that(1) conjunct2 [OF that(2)]])
        qed
        show "mproc X ?T nowhere nowhere (\<lambda>s. ((\<forall>e \<in> set ?es. entry_done X options ?dir e s) \<and> sound_fs X (w_fs (ms_world s))) \<and> ?pruned s \<and> ?ready s) ?store ?Q"
          by (rule mproc_pre [OF last]) (use sub_tree_done [OF t] in \<open>auto simp: ready_tree_def\<close>)
      qed (use below in auto)
    next
      case False
      then show ?thesis by (intro mproc_false) (auto simp: ready_tree_def complete_entry_def)
    qed
    have gone: "mproc X nowhere nowhere nowhere G (if removed = [] then return_io () else invalidate_paths removed) (\<lambda>x s. True)" for removed G
      by (simp add: mproc_return mproc_invalidate_paths)
    have still_pruned: "still X (\<lambda>s. ?pruned s \<and> ?ready s)"
      unfolding still_def using pruned_shift [OF dir, of nowhere] ready_tree_shift [OF X] by blast
    show "mproc X ?T nowhere nowhere ?ready (bind_io (prune_directory ?dir rel (map entry_name ?es) options) (\<lambda>removed.
        bind_io (if removed = [] then return_io () else invalidate_paths removed) (\<lambda>_.
        bind_io (each (materialize_entry (cx_hash X) (cx_db X) (cx_store X) ?go ?dir rel) ?es) (\<lambda>_. ?store)))) ?Q"
    proof (rule mproc_bind_with [where T' = ?T and H = ?ready, OF mproc_prune_directory [OF X dir] ready_tree_shift [OF X]])
      show "mproc X ?T nowhere nowhere (\<lambda>s. ?pruned s \<and> ?ready s) (bind_io (if removed = [] then return_io () else invalidate_paths removed) (\<lambda>_.
          bind_io (each (materialize_entry (cx_hash X) (cx_db X) (cx_store X) ?go ?dir rel) ?es) (\<lambda>_. ?store))) ?Q" for removed
        by (rule mproc_bind_still [where P = "\<lambda>x. True", OF gone still_pruned walk'])
    qed
  qed
qed

end
