(* ===== verification/Cache_Records.thy ===== *)
theory Cache_Records
  imports Capture_Cache
begin

text \<open>
  The byte format of the records of \<open>capture_cache.rs\<close>: what the cache writes it reads back, and what it reads was
  written in one of the two versions of the format. The keys of the tables are the paths they encode.
\<close>

section \<open>The cursor of the records\<close>

interpretation cache_cursor: byte_reader cache_read_exact
proof
  fix bs
  show "reads (cache_read_exact (length bs)) bs bs"
    unfolding reads_def
  proof (intro allI impI)
    fix c rest
    assume ok: "cursor_ok c" and rem: "remaining c = bs @ rest"
    have le: "cur_offset c + length bs \<le> length (cur_bytes c)"
      using cursor_ok_advance [OF ok rem] by (simp add: cursor_ok_def advance_def)
    moreover have "length (cur_bytes c) < USIZE_LIMIT"
      using ok by (auto simp: cursor_ok_def fits_memory_def USIZE_LIMIT_def)
    ultimately have "int (cur_offset c + length bs) < 18446744073709551616"
      by (simp add: USIZE_LIMIT_def)
    with le rem show "cache_read_exact (length bs) c = Inr (bs, advance (length bs) c)"
      by (auto simp: cache_read_exact_def advance_def remaining_def Let_def)
  qed
next
  fix n
  show "parses (cache_read_exact n) (\<lambda>e bs. e = bs \<and> length bs = n)"
    unfolding parses_def
  proof (intro allI impI)
    fix c bs c'
    assume run: "cache_read_exact n c = Inr (bs, c')"
    then have le: "cur_offset c + n \<le> length (cur_bytes c)"
      and bs: "bs = take n (remaining c)" and c': "c' = advance n c"
      by (auto simp: cache_read_exact_def Let_def remaining_def advance_def split: if_splits)
    have "remaining c = bs @ drop n (remaining c)" using bs by simp
    moreover have "length bs = n" using bs le by (simp add: remaining_def)
    ultimately show "\<exists>e rest. remaining c = e @ rest \<and> c' = advance (length e) c \<and> e = bs \<and> length bs = n"
      using c' by auto
  qed
qed

lemmas cache_reads = cache_cursor.reads_byte [folded cache_read_u8_def]
  cache_cursor.reads_u32 [folded cache_read_u32_def] cache_cursor.reads_u64 [folded cache_read_u64_def]

lemma reads_bool: "reads read_bool [bool_byte b] b"
  unfolding read_bool_def
  using reads_bind [OF cache_reads(1) [of "bool_byte b"], of _ "[]" b]
  by (cases b) (auto simp: bool_byte_def reads_return)

lemma reads_optional_u64: "reads read_optional_u64 (write_optional_u64 v) v"
proof -
  have "reads read_optional_u64 ([bool_byte (v \<noteq> None)] @ u64_to_be_bytes (case v of Some x \<Rightarrow> x | None \<Rightarrow> 0)) v"
    unfolding read_optional_u64_def
    by (rule reads_bind [OF reads_bool], rule reads_bind_return [OF cache_reads(3)]) (auto split: option.split)
  then show ?thesis by (cases v) (simp_all add: write_optional_u64_def bool_byte_def)
qed

lemma reads_object_id:
  assumes "valid_id i"
  shows "reads read_object_id (as_bytes i) i"
proof (cases i)
  case (ObjectId bs)
  have "reads (cache_read_exact OBJECT_ID_BYTES) (as_bytes i) bs"
    using cache_cursor.rd_reads [of bs] assms ObjectId by (simp add: valid_id_def)
  then show ?thesis unfolding read_object_id_def by (rule reads_bind_return) (simp add: ObjectId)
qed

lemma reads_optional_object_id:
  assumes "\<And>i. v = Some i \<Longrightarrow> valid_id i"
  shows "reads read_optional_object_id (write_optional_object_id v) v"
proof -
  let ?i = "case v of Some i \<Rightarrow> i | None \<Rightarrow> ObjectId (replicate OBJECT_ID_BYTES 0)"
  have "valid_id ?i" using assms by (auto simp: valid_id_def split: option.split)
  then have "reads read_optional_object_id ([bool_byte (v \<noteq> None)] @ as_bytes ?i) v"
    unfolding read_optional_object_id_def
    by (intro reads_bind [OF reads_bool] reads_bind_return [OF reads_object_id]) (auto split: option.split)
  then show ?thesis by (cases v) (simp_all add: write_optional_object_id_def bool_byte_def)
qed

section \<open>Times\<close>

lemma parse_format_time:
  assumes "\<And>t. time = Some t \<Longrightarrow> time_ok t"
  shows "(case format_time time of (sign, secs, nanos) \<Rightarrow> parse_time sign secs nanos) = Ok time"
proof (cases time)
  case None
  then show ?thesis by (simp add: format_time_def parse_time_def NANOS_def)
next
  case (Some t)
  have split: "uint (word_of_int (a div NANOS) :: u64) * NANOS + uint (word_of_int (a mod NANOS) :: u32) = a"
    if "0 \<le> a" "a \<le> 9223372036854775808 * NANOS" for a
  proof -
    have "0 \<le> a div NANOS" "a div NANOS \<le> 9223372036854775808"
      using that zdiv_mono1 [OF that(2), of NANOS] by (simp_all add: NANOS_def pos_imp_zdiv_nonneg_iff)
    moreover have "0 \<le> a mod NANOS" "a mod NANOS < NANOS" by (simp_all add: NANOS_def)
    ultimately have "uint (word_of_int (a div NANOS) :: u64) = a div NANOS" "uint (word_of_int (a mod NANOS) :: u32) = a mod NANOS"
      by (simp_all add: unsigned_of_int take_bit_int_eq_self NANOS_def)
    then show ?thesis by simp
  qed
  have ok: "time_ok t" using assms Some by simp
  show ?thesis
  proof (cases "0 \<le> t")
    case True
    then show ?thesis using Some ok split [of t] by (simp add: format_time_def parse_time_def Let_def time_ok_def NANOS_def)
  next
    case False
    then show ?thesis using Some ok split [of "- t"] by (simp add: format_time_def parse_time_def Let_def time_ok_def NANOS_def)
  qed
qed

section \<open>Files\<close>

definition wf_cached_file :: "cached_file \<Rightarrow> bool" where
  "wf_cached_file f \<longleftrightarrow> valid_id (cf_object_id f) \<and> (\<forall>i. cf_stored_base_id f = Some i \<longrightarrow> valid_id i) \<and>
     (\<forall>t. fp_modified (cf_fingerprint f) = Some t \<longrightarrow> time_ok t)"

text \<open>The record of a file in a version of the format; only the second version has the base.\<close>

definition file_record :: "byte \<Rightarrow> cached_file \<Rightarrow> bytes" where
  "file_record version f =
    (let (sign, secs, nanos) = format_time (fp_modified (cf_fingerprint f)) in
     [version] @ [bool_byte (cf_stored f)] @ u64_to_be_bytes (fp_len (cf_fingerprint f)) @
     [sign] @ u64_to_be_bytes secs @ u32_to_be_bytes nanos @
     write_optional_u64 (Some (fp_dev (cf_fingerprint f))) @ write_optional_u64 (Some (fp_ino (cf_fingerprint f))) @
     as_bytes (cf_object_id f) @ (if version \<ge> 2 then write_optional_object_id (cf_stored_base_id f) else []))"

lemma encode_file_record: "encode_file f = file_record 2 f"
  by (simp add: encode_file_def file_record_def FILE_RECORD_VERSION_def split: prod.split)

lemma reads_file_fields:
  assumes "wf_cached_file f" "version = 1 \<and> cf_stored_base_id f = None \<or> version = 2"
  shows "reads read_file_fields (file_record version f)
    \<lparr>ff_stored = cf_stored f, ff_len = fp_len (cf_fingerprint f), ff_modified = fp_modified (cf_fingerprint f),
     ff_dev = Some (fp_dev (cf_fingerprint f)), ff_ino = Some (fp_ino (cf_fingerprint f)),
     ff_object_id = cf_object_id f, ff_stored_base_id = cf_stored_base_id f\<rparr>" (is "reads _ _ ?fields")
proof -
  obtain sign secs nanos where time: "format_time (fp_modified (cf_fingerprint f)) = (sign, secs, nanos)"
    by (metis prod_cases3)
  have parse: "parse_time sign secs nanos = Ok (fp_modified (cf_fingerprint f))"
    using parse_format_time [of "fp_modified (cf_fingerprint f)"] assms(1) time by (simp add: wf_cached_file_def)
  have known: "(version \<noteq> 1 \<and> version \<noteq> FILE_RECORD_VERSION) = False"
    using assms(2) by (auto simp: FILE_RECORD_VERSION_def)
  have base: "reads (if version \<ge> 2 then read_optional_object_id else return_reader None)
      (if version \<ge> 2 then write_optional_object_id (cf_stored_base_id f) else []) (cf_stored_base_id f)"
    using assms by (auto simp: wf_cached_file_def intro: reads_optional_object_id reads_return)
  have "reads read_file_fields ([version] @ [bool_byte (cf_stored f)] @ u64_to_be_bytes (fp_len (cf_fingerprint f)) @
     [sign] @ u64_to_be_bytes secs @ u32_to_be_bytes nanos @ [] @
     write_optional_u64 (Some (fp_dev (cf_fingerprint f))) @ write_optional_u64 (Some (fp_ino (cf_fingerprint f))) @
     as_bytes (cf_object_id f) @ (if version \<ge> 2 then write_optional_object_id (cf_stored_base_id f) else [])) ?fields"
    unfolding read_file_fields_def
    apply (rule reads_bind [OF cache_reads(1)])
    apply (subst if_not_P, simp only: known, simp)
    apply (rule reads_bind [OF reads_bool])
    apply (rule reads_bind [OF cache_reads(3)])
    apply (rule reads_bind [OF cache_reads(1)])
    apply (rule reads_bind [OF cache_reads(3)])
    apply (rule reads_bind [OF cache_reads(2)])
    apply (rule reads_bind [OF reads_result [OF parse]])
    apply (rule reads_bind [OF reads_optional_u64])
    apply (rule reads_bind [OF reads_optional_u64])
    apply (rule reads_bind [OF reads_object_id])
    using assms(1) apply (simp add: wf_cached_file_def)
    apply (rule reads_bind_return [OF base])
    apply simp
    done
  then show ?thesis by (simp add: file_record_def time)
qed

lemma length_file_record: "wf_cached_file f \<Longrightarrow> length (file_record version f) \<le> 106"
  by (auto simp: file_record_def wf_cached_file_def valid_id_def OBJECT_ID_BYTES_def write_optional_u64_def
      write_optional_object_id_def split: prod.split option.split)

lemma decode_file_record:
  assumes "wf_cached_file f" "version = 1 \<and> cf_stored_base_id f = None \<or> version = 2"
  shows "decode_file (file_record version f) = Some (Ok f)"
proof -
  have fits: "fits_memory (file_record version f)"
    using length_file_record [OF assms(1), of version] by (simp add: fits_memory_def)
  have "file_decoder (cursor_new (file_record version f)) =
      Inr (f, advance (length (file_record version f)) (cursor_new (file_record version f)))"
    unfolding file_decoder_def bind_reader_def [of read_file_fields]
    using reads_finished [OF reads_file_fields [OF assms] fits]
    by (simp add: bind_reader_def finish_def result_reader_def fingerprint_from_parts_def return_reader_def)
  then show ?thesis by (simp add: decode_file_def or_panic_def)
qed

section \<open>Directories\<close>

definition wf_cached_directory :: "hasher \<Rightarrow> cached_directory \<Rightarrow> bool" where
  "wf_cached_directory blake3 d \<longleftrightarrow>
     wf_tree \<lparr>tree_entries = cd_entries d\<rparr> \<and> tree_id blake3 \<lparr>tree_entries = cd_entries d\<rparr> = Some (cd_tree_id d)"

lemma tree_new_sorted:
  assumes "wf_tree t"
  shows "tree_new (tree_entries t) = Ok t"
proof -
  have "sorted (map entry_name (tree_entries t))"
    using assms by (simp add: wf_tree_def sorted_wrt_less_iff)
  then have "sort_key entry_name (tree_entries t) = tree_entries t"
    by (simp add: sorted_sort_id [symmetric] sort_key_id_if_sorted)
  with assms show ?thesis
    using reject_duplicate_ok [of "tree_entries t"]
    by (simp add: tree_new_def wf_tree_def sorted_wrt_less_iff tree_eta)
qed

lemma decode_encode_directory:
  assumes "wf_cached_directory blake3 d" "encode_directory blake3 d = Some (Ok b)" "fits_memory b"
  shows "decode_directory blake3 b = Some (Ok d)"
proof -
  let ?t = "\<lparr>tree_entries = cd_entries d\<rparr>"
  have wf: "wf_tree ?t" and i: "tree_id blake3 ?t = Some (cd_tree_id d)"
    using assms(1) by (simp_all add: wf_cached_directory_def)
  obtain tb where tb: "tree_to_canonical_bytes ?t = Some tb" and b: "b = [DIRECTORY_RECORD_VERSION] @ [bool_byte (cd_stored d)] @ tb"
    using assms(2) tree_new_sorted [OF wf] i by (auto simp: encode_directory_def bind_eq_Some_conv)
  have hd: "reads (bind_reader (expect_version DIRECTORY_RECORD_VERSION) (\<lambda>_. read_bool))
      ([DIRECTORY_RECORD_VERSION] @ [bool_byte (cd_stored d)]) (cd_stored d)"
  proof (rule reads_bind [OF _ reads_bool])
    show "reads (expect_version DIRECTORY_RECORD_VERSION) [DIRECTORY_RECORD_VERSION] ()"
      unfolding expect_version_def
      using reads_bind [OF cache_reads(1) [of DIRECTORY_RECORD_VERSION], of _ "[]" "()"] by (simp add: reads_return)
  qed
  have "bind_reader (expect_version DIRECTORY_RECORD_VERSION) (\<lambda>_. read_bool) (cursor_new b) =
      Inr (cd_stored d, advance 2 (cursor_new b))"
    using readsD [OF hd cursor_new_ok [OF assms(3)], of tb] b by (simp add: numeral_2_eq_2)
  moreover have "tree_from_canonical_bytes tb = Ok ?t"
    using tree_decode_encode [OF wf tb] assms(3) b by (simp add: fits_memory_def)
  ultimately show ?thesis
    using i b by (simp add: decode_directory_def)
qed

section \<open>The properties of the records\<close>

text \<open>
  C22. The cache reads back what it writes. The record of a file with full identifiers and a time in the range of
  the system decodes to that file, in the current version of the format and, for a file without a base, in the
  previous one; the record of a directory whose entries are a well-formed tree decodes to that directory.
\<close>

theorem cache_records_roundtrip:
  assumes "wf_cached_file f" "wf_cached_directory blake3 d"
  shows "decode_file (encode_file f) = Some (Ok f) \<and>
    (cf_stored_base_id f = None \<longrightarrow> decode_file (file_record 1 f) = Some (Ok f)) \<and>
    (\<forall>b. encode_directory blake3 d = Some (Ok b) \<longrightarrow> fits_memory b \<longrightarrow> decode_directory blake3 b = Some (Ok d))"
  using decode_file_record [OF assms(1)] decode_encode_directory [OF assms(2)] by (simp add: encode_file_record)

definition sample_cached_file :: cached_file where
  "sample_cached_file = \<lparr>cf_fingerprint = \<lparr>fp_len = 7, fp_modified = Some (- 1500000000), fp_dev = 3, fp_ino = 4\<rparr>,
     cf_object_id = ObjectId (replicate 32 5), cf_stored = False, cf_stored_base_id = Some (ObjectId (replicate 32 6))\<rparr>"

definition sample_cached_directory :: cached_directory where
  "sample_cached_directory = \<lparr>cd_tree_id = ObjectId (replicate 32 9), cd_entries = tree_entries sample_tree, cd_stored = True\<rparr>"

theorem cache_records_roundtrip_witness:
  "decode_file (encode_file sample_cached_file) = Some (Ok sample_cached_file) \<and>
   decode_directory (\<lambda>b. replicate 32 9) ([1, 1] @ the (tree_to_canonical_bytes sample_tree)) = Some (Ok sample_cached_directory)"
proof -
  have "wf_cached_file sample_cached_file"
    by (simp add: wf_cached_file_def sample_cached_file_def valid_id_def OBJECT_ID_BYTES_def time_ok_def NANOS_def)
  moreover have "wf_cached_directory (\<lambda>b. replicate 32 9) sample_cached_directory" by code_simp
  moreover have "encode_directory (\<lambda>b. replicate 32 9) sample_cached_directory =
      Some (Ok ([1, 1] @ the (tree_to_canonical_bytes sample_tree)))" by code_simp
  moreover have "fits_memory ([1, 1] @ the (tree_to_canonical_bytes sample_tree))" by code_simp
  ultimately show ?thesis using cache_records_roundtrip [of sample_cached_file "\<lambda>b. replicate 32 9" sample_cached_directory] by blast
qed

text \<open>A record whose time is out of the range of the system aborts the decoder, although every other damage is an error.\<close>

lemma decode_file_panics:
  "decode_file ([2, 1] @ u64_to_be_bytes 7 @ [1] @ u64_to_be_bytes 9223372036854775808 @ u32_to_be_bytes 0) = None"
  by code_simp

end
