(* ===== verification/Compare_Correctness.thy ===== *)
theory Compare_Correctness
  imports Capture_Correctness Store_Properties Cache_Records
begin

text \<open>
  Comparing a working directory with a stored tree: the walk gives the tree of the directory, and where it reports no
  change, that tree is the stored one.
\<close>

section \<open>The tree of the directory\<close>

lemma proc_included_entries:
  "proc X (\<lambda>fs. True) (included_entries options (map (entry_at dir rel) ys))
     (\<lambda>es fs. es = map (entry_at dir rel) (filter (\<lambda>x. \<not> skipped options x) ys))"
proof (induction ys)
  case (Cons y ys)
  have keep: "proc X (\<lambda>fs. True) (bind_io (included_entries options (map (entry_at dir rel) ys)) (\<lambda>es. return_io (e # es)))
      (\<lambda>es fs. es = e # map (entry_at dir rel) (filter (\<lambda>x. \<not> skipped options x) ys))" for e
    by (rule proc_bind_fact [OF Cons.IH growing_const]) (auto intro: proc_return)
  consider "should_skip_entry options (entry_at dir rel y)" "skipped options y"
    | "\<not> should_skip_entry options (entry_at dir rel y)" "snd y = SymlinkNode" "skipped options y"
    | "\<not> should_skip_entry options (entry_at dir rel y)" "snd y = OtherNode"
    | "\<not> should_skip_entry options (entry_at dir rel y)" "\<not> skipped options y" "snd y = DirNode \<or> (\<exists>b. snd y = FileNode b)"
    by (cases "snd y") (auto simp: should_skip_entry_at skipped_def)
  then show ?case
  proof cases
    case 1
    then show ?thesis by (auto intro!: proc_bind_skip proc_modify_skip Cons.IH)
  next
    case 2
    then show ?thesis
      by (auto simp: entry_at_def [of dir rel y] node_type_def split: symlink_policy.split
          intro!: proc_fail proc_bind_skip proc_modify_skip Cons.IH)
  next
    case 3
    then show ?thesis by (simp add: entry_at_def [of dir rel y] node_type_def proc_fail)
  next
    case 4
    then show ?thesis using keep [of "entry_at dir rel y"] by (auto simp: entry_at_def [of dir rel y] node_type_def)
  qed
qed (simp add: proc_return)

lemma proc_entry_cons:
  assumes "monotone_in K" "proc X (\<lambda>fs. True) k (\<lambda>e fs. entry_of X options K dir fs x e)"
    and "proc X (\<lambda>fs. True) m (\<lambda>es fs. list_all2 (entry_of X options K dir fs) xs es)"
  shows "proc X (\<lambda>fs. True) (bind_io k (\<lambda>e. bind_io m (\<lambda>es. return_io (e # es))))
      (\<lambda>es fs. list_all2 (entry_of X options K dir fs) (x # xs) es)"
    "proc X (\<lambda>fs. True) (bind_io k (\<lambda>e. bind_io (push_change p c) (\<lambda>_. bind_io m (\<lambda>es. return_io (e # es)))))
      (\<lambda>es fs. list_all2 (entry_of X options K dir fs) (x # xs) es)"
proof -
  note grow = growing_entry_of [OF assms(1), of X options dir]
  have last: "proc X (\<lambda>fs. entry_of X options K dir fs x e) (bind_io m (\<lambda>es. return_io (e # es)))
      (\<lambda>es fs. list_all2 (entry_of X options K dir fs) (x # xs) es)" for e
    by (rule proc_bind [OF proc_pre [OF assms(3)] grow]) (auto intro: proc_return)
  show "proc X (\<lambda>fs. True) (bind_io k (\<lambda>e. bind_io m (\<lambda>es. return_io (e # es))))
      (\<lambda>es fs. list_all2 (entry_of X options K dir fs) (x # xs) es)"
    by (rule proc_bind [OF assms(2) growing_const]) (simp add: last)
  show "proc X (\<lambda>fs. True) (bind_io k (\<lambda>e. bind_io (push_change p c) (\<lambda>_. bind_io m (\<lambda>es. return_io (e # es)))))
      (\<lambda>es fs. list_all2 (entry_of X options K dir fs) (x # xs) es)"
    by (rule proc_bind [OF assms(2) growing_const], simp, rule proc_bind_skip [OF proc_modify_skip(4) grow], rule last)
qed

lemma proc_compare_entries:
  assumes K: "monotone_in K"
    and "\<And>x. x \<in> set xs \<Longrightarrow> proc X (\<lambda>fs. True) (added (entry_at dir rel x)) (\<lambda>e fs. entry_of X options K dir fs x e)"
    and "\<And>saved x. x \<in> set xs \<Longrightarrow> proc X (\<lambda>fs. True) (same saved (entry_at dir rel x)) (\<lambda>e fs. entry_of X options K dir fs x e)"
  shows "proc X (\<lambda>fs. True) (compare_entries added same rel ss (map (entry_at dir rel) xs))
    (\<lambda>es fs. list_all2 (entry_of X options K dir fs) xs es)"
  using assms(2,3)
proof (induction added same rel ss "map (entry_at dir rel) xs" arbitrary: xs rule: compare_entries.induct)
  case (1 added same rel)
  then show ?case by (simp add: proc_return)
next
  case (2 added same rel saved ss)
  then show ?case by (simp add: proc_bind_skip [OF proc_modify_skip(4) growing_const])
next
  case (3 added same rel entry es)
  from 3(2) obtain x xs' where xs: "xs = x # xs'" "entry = entry_at dir rel x" "es = map (entry_at dir rel) xs'"
    by (auto simp: map_eq_Cons_conv)
  show ?case
    unfolding xs(1) list.map compare_entries.simps
    by (rule proc_entry_cons(2) [OF K]; (rule 3(1) [OF xs(3)])?; rule 3(3) 3(4)) (simp_all add: xs)
next
  case (4 added same rel saved ss entry es)
  from 4(4) obtain x xs' where xs: "xs = x # xs'" "entry = entry_at dir rel x" "es = map (entry_at dir rel) xs'"
    by (auto simp: map_eq_Cons_conv)
  consider "entry_name saved < de_name entry" | "\<not> entry_name saved < de_name entry" "de_name entry < entry_name saved"
    | "\<not> entry_name saved < de_name entry" "\<not> de_name entry < entry_name saved" by blast
  then show ?case
  proof cases
    case 1
    then show ?thesis
      using 4(1) [OF 1 4(4)] 4(5,6) xs
      by (simp add: proc_bind_skip [OF proc_modify_skip(4) growing_const])
  next
    case 2
    have "proc X (\<lambda>fs. True) (compare_entries added same rel (saved # ss) (map (entry_at dir rel) xs')) (\<lambda>es fs. list_all2 (entry_of X options K dir fs) xs' es)"
      using 4(2) [OF 2 xs(3)] 4(5,6) xs by simp
    from proc_entry_cons(2) [OF K 4(5) this] show ?thesis using 2 xs by simp
  next
    case 3
    have "proc X (\<lambda>fs. True) (compare_entries added same rel ss (map (entry_at dir rel) xs')) (\<lambda>es fs. list_all2 (entry_of X options K dir fs) xs' es)"
      using 4(3) [OF 3 xs(3)] 4(5,6) xs by simp
    from proc_entry_cons(1) [OF K 4(6) this] show ?thesis using 3 xs by simp
  qed
qed

lemma proc_file_entry:
  assumes X: "site_ok X" and seen: "seen X dir rel x" and b: "snd x = FileNode b"
    and f: "\<And>i. proc X (\<lambda>fs. i = from_content (cx_hash X) b \<and> True) (f i) (\<lambda>e fs. entry_of X options (\<lambda>fs k i. True) dir fs x e)"
  shows "proc X (\<lambda>fs. True) (bind_io (scan_current_file_id (cx_hash X) (cx_db X) (entry_at dir rel x)) f)
    (\<lambda>e fs. entry_of X options (\<lambda>fs k i. True) dir fs x e)"
  by (rule proc_bind [OF proc_scan_current_file [OF X seen b] growing_const], rule proc_pre [OF f]) simp

lemma proc_push_then:
  "growing G \<Longrightarrow> proc X G m Q \<Longrightarrow> proc X G (bind_io (push_change p k) (\<lambda>_. m)) Q"
  by (rule proc_bind_skip [OF proc_modify_skip(4)])

lemma proc_scan_current_entry:
  assumes X: "site_ok X" and seen: "seen X dir rel x"
  shows "proc X (\<lambda>fs. True) (scan_current_entry (cx_hash X) (cx_db X) options n (entry_at dir rel x))
    (\<lambda>e fs. entry_of X options (\<lambda>fs k i. True) dir fs x e)"
proof (cases "snd x")
  case (FileNode b)
  then show ?thesis
    using proc_file_entry [OF X seen FileNode proc_blob_entry [OF FileNode]]
    by (simp add: scan_current_entry_def entry_at_def node_type_def)
next
  case DirNode
  have "in_tree (cx_root X) (cx_root X @ rel @ [fst x])" using seen in_tree_child by (fastforce simp: seen_def)
  from proc_scan_directory [OF X this, of options n]
  have enter: "proc X (\<lambda>fs. True) (scan_directory (cx_hash X) (cx_db X) options n (dir @ [fst x]) (rel @ [fst x]))
      (\<lambda>i fs. tree_of X options (\<lambda>fs k i. True) fs (dir @ [fst x]) i)" using seen by (simp add: seen_def)
  show ?thesis
    using DirNode proc_bind_entry(2) [OF enter growing_tree_of [OF monotone_any] proc_tree_entry [OF DirNode] growing_entry_of [OF monotone_any]]
    by (simp add: scan_current_entry_def entry_at_def node_type_def)
qed (auto simp: scan_current_entry_def entry_at_def node_type_def intro: proc_fail split: symlink_policy.split)

lemma proc_compare_matching_entry:
  assumes X: "site_ok X" and seen: "seen X dir rel x"
    and enter: "\<And>saved. proc X (\<lambda>fs. True) (enter saved (dir @ [fst x]) (rel @ [fst x]))
      (\<lambda>i fs. tree_of X options (\<lambda>fs k i. True) fs (dir @ [fst x]) i)"
  shows "proc X (\<lambda>fs. True) (compare_matching_entry (cx_hash X) (cx_db X) options n enter saved (entry_at dir rel x))
    (\<lambda>e fs. entry_of X options (\<lambda>fs k i. True) dir fs x e)"
proof (cases "snd x")
  case (FileNode b)
  note blob = proc_blob_entry [OF FileNode, where K = "\<lambda>fs k i. True"] and grow = growing_blob [OF monotone_any]
  have "proc X (\<lambda>fs. i = from_content (cx_hash X) b \<and> True) (bind_io (if c then push_change p ChangeModified else return_io ())
      (\<lambda>_. invalid_entry q (tree_entry_blob (fst x) i))) (\<lambda>e fs. entry_of X options (\<lambda>fs k i. True) dir fs x e)" for i c p q
    by (rule proc_bind_skip [OF proc_if grow blob]) (auto intro: proc_modify_skip(4) proc_return)
  from proc_file_entry [OF X seen FileNode this] proc_file_entry [OF X seen FileNode proc_push_then [OF grow blob]] show ?thesis
    using FileNode by (cases "entry_kind saved") (simp_all add: compare_matching_entry_def entry_at_def node_type_def)
next
  case DirNode
  note tree = proc_tree_entry [OF DirNode, where K = "\<lambda>fs k i. True"] and grow = growing_tree_of [OF monotone_any]
    and growe = growing_entry_of [OF monotone_any]
  have "in_tree (cx_root X) (cx_root X @ rel @ [fst x])" using seen in_tree_child by (fastforce simp: seen_def)
  from proc_scan_directory [OF X this, of options n]
  have scan: "proc X (\<lambda>fs. True) (scan_directory (cx_hash X) (cx_db X) options n (dir @ [fst x]) (rel @ [fst x]))
      (\<lambda>i fs. tree_of X options (\<lambda>fs k i. True) fs (dir @ [fst x]) i)" using seen by (simp add: seen_def)
  from proc_bind_entry(2) [OF enter grow tree growe] proc_bind_entry(2) [OF scan grow proc_push_then [OF grow tree] growe] show ?thesis
    using DirNode by (cases "entry_kind saved") (simp_all add: compare_matching_entry_def entry_at_def node_type_def)
qed (cases "entry_kind saved"; simp add: compare_matching_entry_def entry_at_def node_type_def proc_fail)+

lemma proc_get_tree: "proc X G (on_world g (get_tree h st i)) (\<lambda>t fs. True)"
  by (rule proc_on_world) (use keeps_get(2) [OF stable_grows] in \<open>simp add: keeps_def\<close>)

lemma proc_compare_directory:
  assumes X: "site_ok X"
  shows "in_tree (cx_root X) (cx_root X @ rel) \<Longrightarrow>
    proc X (\<lambda>fs. True) (compare_directory (cx_hash X) (cx_db X) st options n saved (cx_root X @ rel) rel)
      (\<lambda>i fs. tree_of X options (\<lambda>fs k i. True) fs (cx_root X @ rel) i)"
proof (induction n arbitrary: rel saved)
  case 0
  then show ?case by (simp add: proc_fail)
next
  case (Suc n)
  let ?dir = "cx_root X @ rel" and ?K = "\<lambda>fs k i. True"
  have enter: "proc X (\<lambda>fs. True) (compare_directory (cx_hash X) (cx_db X) st options n i (?dir @ [c]) (rel @ [c]))
      (\<lambda>i fs. tree_of X options ?K fs (?dir @ [c]) i)" if "c \<noteq> bstr ''.era''" for c i
    using Suc.IH [of "rel @ [c]"] in_tree_child [OF Suc.prems that] by simp
  have entries: "proc X (\<lambda>fs. True) (read_included_directory_entries options ?dir rel)
      (\<lambda>es fs. \<exists>ys. listed X ?dir ys \<and> es = map (entry_at ?dir rel) (filter (\<lambda>x. \<not> skipped options x) ys))"
    unfolding read_included_directory_entries_def
    by (rule proc_bind_fact [OF proc_read_directory_entries [OF Suc.prems X] growing_const], elim exE conjE, hypsubst)
      (rule proc_post [OF proc_included_entries], blast)
  have "proc X (\<lambda>fs. True) (bind_io (compare_entries (scan_current_entry (cx_hash X) (cx_db X) options n)
       (compare_matching_entry (cx_hash X) (cx_db X) options n (compare_directory (cx_hash X) (cx_db X) st options n))
       rel ss (map (entry_at ?dir rel) (filter (\<lambda>x. \<not> skipped options x) ys))) (scan_tree_of (cx_hash X) (cx_db X) ?dir rel))
      (\<lambda>i fs. tree_of X options ?K fs ?dir i)" if ys: "listed X ?dir ys" for ss ys
  proof (rule proc_bind [OF proc_compare_entries [OF monotone_any] growing_const])
    fix x
    assume x: "x \<in> set (filter (\<lambda>x. \<not> skipped options x) ys)"
    then have ne: "fst x \<noteq> bstr ''.era''" by (auto simp: skipped_def)
    have seen: "seen X ?dir rel x" using x ys Suc.prems ne by (auto simp: seen_def listed_def)
    show "proc X (\<lambda>fs. True) (scan_current_entry (cx_hash X) (cx_db X) options n (entry_at ?dir rel x)) (\<lambda>e fs. entry_of X options ?K ?dir fs x e)"
      by (rule proc_scan_current_entry [OF X seen])
    show "proc X (\<lambda>fs. True) (compare_matching_entry (cx_hash X) (cx_db X) options n
        (compare_directory (cx_hash X) (cx_db X) st options n) saved (entry_at ?dir rel x)) (\<lambda>e fs. entry_of X options ?K ?dir fs x e)" for saved
      by (rule proc_compare_matching_entry [OF X seen]) (rule enter [OF ne])
  next
    show "proc X (\<lambda>fs. True \<and> list_all2 (entry_of X options ?K ?dir fs) (filter (\<lambda>x. \<not> skipped options x) ys) es)
        (scan_tree_of (cx_hash X) (cx_db X) ?dir rel es) (\<lambda>i fs. tree_of X options ?K fs ?dir i)" for es
      by (rule proc_pre [OF proc_scan_tree_of [OF X ys]]) (use ys in \<open>simp add: entries_ready_def listed_def\<close>)
  qed
  then show ?case
    unfolding compare_directory.simps
    by (intro proc_bind_skip [OF proc_modify_skip(2) growing_const] proc_bind_skip [OF proc_get_tree growing_const]
        proc_bind_fact [OF entries growing_const]) auto
qed

section \<open>The changes\<close>

text \<open>
  \<open>reports m E\<close>: a run of \<open>m\<close> only adds to the reported changes, and where it adds none, its result satisfies \<open>E\<close>.
\<close>

definition reports :: "('d, 'a) fm_io \<Rightarrow> ('a \<Rightarrow> bool) \<Rightarrow> bool" where
  "reports m E \<longleftrightarrow> (\<forall>s r s'. m s = (r, s') \<longrightarrow>
     (\<exists>cs. ms_changes s' = ms_changes s @ cs \<and> (cs = [] \<longrightarrow> (\<forall>x. r = Ok x \<longrightarrow> E x))))"

lemma reports_same: "(\<And>s. ms_changes (snd (m s)) = ms_changes s) \<Longrightarrow> (\<And>s x. fst (m s) = Ok x \<Longrightarrow> E x) \<Longrightarrow> reports m E"
  unfolding reports_def by (metis append_Nil2 fst_conv snd_conv)

lemma reportsD: "reports m E \<Longrightarrow> m s = (r, s') \<Longrightarrow> \<exists>cs. ms_changes s' = ms_changes s @ cs \<and> (cs = [] \<longrightarrow> (\<forall>x. r = Ok x \<longrightarrow> E x))"
  unfolding reports_def by blast

lemma reports_weaken: "reports m E \<Longrightarrow> (\<And>x. E x \<Longrightarrow> F x) \<Longrightarrow> reports m F"
  unfolding reports_def by meson

lemma reports_bind:
  assumes "reports m E" "\<And>x. reports (f x) (\<lambda>y. E x \<longrightarrow> F y)"
  shows "reports (bind_io m f) F"
  unfolding reports_def
proof (intro allI impI)
  fix s r s'
  assume run: "bind_io m f s = (r, s')"
  obtain r1 s1 where m: "m s = (r1, s1)" by fastforce
  from reportsD [OF assms(1) m] obtain cs where cs: "ms_changes s1 = ms_changes s @ cs" "cs = [] \<longrightarrow> (\<forall>x. r1 = Ok x \<longrightarrow> E x)" by blast
  show "\<exists>cs. ms_changes s' = ms_changes s @ cs \<and> (cs = [] \<longrightarrow> (\<forall>x. r = Ok x \<longrightarrow> F x))"
  proof (cases r1)
    case (Inr x)
    then have "f x s1 = (r, s')" using run m by (simp add: bind_io_def)
    from reportsD [OF assms(2) this] show ?thesis using cs Inr by fastforce
  qed (use run m cs in \<open>auto simp: bind_io_def\<close>)
qed

lemma reports_skip: "reports m (\<lambda>x. True) \<Longrightarrow> (\<And>x. reports (f x) F) \<Longrightarrow> reports (bind_io m f) F"
  by (erule reports_bind) simp

lemma reports_any: "reports m E \<Longrightarrow> reports m (\<lambda>x. True)"
  by (erule reports_weaken) simp

lemma reports_any_bind:
  "reports m (\<lambda>x. True) \<Longrightarrow> (\<And>x. reports (f x) (\<lambda>y. True)) \<Longrightarrow> reports (bind_io m f) (\<lambda>y. True)"
  by (rule reports_skip)

lemma reports_basic:
  "reports (return_io x) (\<lambda>y. y = x)" "reports (fail_io e) E" "reports (result_io r) (\<lambda>x. r = Ok x)" "reports (gets f) (\<lambda>x. True)"
  "reports (modify_capture g) (\<lambda>x. True)" "reports (modify_scan h) (\<lambda>x. True)" "reports (push_issue p) (\<lambda>x. True)"
  "reports (set_dirty b) (\<lambda>x. True)" "reports (push_change p k) (\<lambda>x. False)"
  by (auto simp: reports_def return_io_def fail_io_def result_io_def gets_def modify_capture_def modify_scan_def push_issue_def
      set_dirty_def push_change_def modifies_def)

lemma reports_try_world: "reports (try_world m) (\<lambda>x. True)"
  by (auto simp: reports_def try_world_def split: prod.splits)

lemma reports_on_world:
  assumes "\<And>w x w'. m w = (Ok x, w') \<Longrightarrow> E x"
  shows "reports (on_world g m) E"
  by (rule reports_same) (auto simp: on_world_def bind_io_def try_world_def result_io_def map_err_def assms split: prod.splits sum.splits)

lemma reports_world: "reports (on_world g m) (\<lambda>x. True)"
  by (rule reports_on_world) simp

lemma reports_on_cache: "reports (on_cache f) (\<lambda>x. True)"
  by (auto simp: reports_def on_cache_def split: option.splits)

lemma reports_control:
  "(\<And>y. z = Some y \<Longrightarrow> reports (f y) E) \<Longrightarrow> (z = None \<Longrightarrow> reports m E) \<Longrightarrow> reports (case z of None \<Rightarrow> m | Some y \<Rightarrow> f y) E"
  "(c \<Longrightarrow> reports m E) \<Longrightarrow> (\<not> c \<Longrightarrow> reports m' E) \<Longrightarrow> reports (if c then m else m') E"
  by (cases z; simp) simp

lemma reports_cache_update: "reports (cache_update f) (\<lambda>x. True)"
  unfolding cache_update_def by (rule reports_any_bind [OF reports_on_cache]) (auto intro: reports_basic(8) reports_any [OF reports_basic(1)])

lemma reports_cache:
  "reports (store_cached_file_id db p fp i b) (\<lambda>x. True)" "reports (store_cached_directory h db p i es b) (\<lambda>x. True)"
  "reports (cached_file_id db p fp) (\<lambda>x. True)"
  unfolding store_cached_file_id_def store_cached_directory_def cached_file_id_def by (rule reports_cache_update reports_on_cache)+

lemma reports_scan_file: "reports (scan_current_file_id h db entry) (\<lambda>x. True)"
  unfolding scan_current_file_id_def Let_def by (intro reports_any_bind reports_control reports_cache reports_world reports_basic(6) reports_any [OF reports_basic(1)])

lemma reports_invalid_entry: "reports (invalid_entry p r) (\<lambda>x. r = Ok x)"
  unfolding invalid_entry_def by (rule reports_weaken [OF reports_basic(3)]) (auto simp: map_err_def split: sum.splits)

lemma reports_tree_id: "reports (tree_id_io h t) (\<lambda>i. tree_id h t = Some i)"
  by (auto simp: tree_id_io_def tree_id_def intro: reports_basic reports_weaken [OF reports_basic(1)] split: option.split)

lemma reports_scan_tree_of: "reports (scan_tree_of h db dir rel es) (\<lambda>i. \<exists>t. tree_new es = Ok t \<and> tree_id h t = Some i)"
  unfolding scan_tree_of_def
  by (rule reports_bind [OF reports_invalid_entry], rule reports_bind [OF reports_tree_id], rule reports_skip [OF reports_cache(2)])
    (auto intro: reports_weaken [OF reports_basic(1)])

lemma reports_collect: "(\<And>x. reports (f x) (\<lambda>y. True)) \<Longrightarrow> reports (collect_entries f xs) (\<lambda>y. True)"
  by (induction xs) (auto intro!: reports_any_bind intro: reports_any [OF reports_basic(1)])

lemma reports_scan_directory: "reports (scan_directory h db options n dir rel) (\<lambda>x. True)"
proof (induction n arbitrary: dir rel)
  case (Suc n)
  have "reports (scan_entry h db options (scan_directory h db options n) entry) (\<lambda>x. True)" for entry
    unfolding scan_entry_def
    by (intro reports_control; (split file_type.split symlink_policy.split; intro conjI impI)?)
      (auto intro!: reports_any_bind Suc reports_basic reports_scan_file reports_any [OF reports_invalid_entry] reports_any [OF reports_basic(1)]
        split: symlink_policy.split)
  then show ?case
    unfolding scan_directory.simps by (intro reports_any_bind reports_basic(6) reports_world reports_collect reports_any [OF reports_scan_tree_of])
qed (simp add: reports_basic)

lemma reports_compare_entries:
  assumes "\<And>entry. reports (added entry) (\<lambda>x. True)"
    and "\<And>saved entry. entry_name saved = de_name entry \<Longrightarrow> reports (same saved entry) (\<lambda>e. e = saved)"
  shows "reports (compare_entries added same rel ss es) (\<lambda>entries. entries = ss)"
  using assms
proof (induction added same rel ss es rule: compare_entries.induct)
  case (1 added same rel)
  then show ?case by (simp add: reports_basic)
next
  case (2 added same rel saved ss)
  show ?case
    unfolding compare_entries.simps
    by (rule reports_bind [OF reports_basic(9)]) (use reports_any [OF "2.IH" [OF "2.prems"]] in simp)
next
  case (3 added same rel entry es)
  have "reports (bind_io (compare_entries added same rel [] es) (\<lambda>entries. return_io (e # entries))) (\<lambda>entries. True)" for e
    by (intro reports_any_bind reports_any [OF "3.IH" [OF "3.prems"]] reports_any [OF reports_basic(1)])
  then show ?case
    unfolding compare_entries.simps
    by (intro reports_skip [OF "3.prems"(1)] reports_bind [OF reports_basic(9)]) simp
next
  case (4 added same rel saved ss entry es)
  consider "entry_name saved < de_name entry" | "\<not> entry_name saved < de_name entry" "de_name entry < entry_name saved"
    | "\<not> entry_name saved < de_name entry" "\<not> de_name entry < entry_name saved" "entry_name saved = de_name entry" by fastforce
  then show ?case
  proof cases
    case 1
    show ?thesis using 1 reports_any [OF "4.IH"(1) [OF 1 "4.prems"]] by (simp add: reports_bind [OF reports_basic(9)])
  next
    case 2
    have "reports (bind_io (compare_entries added same rel (saved # ss) es) (\<lambda>entries. return_io (e # entries))) (\<lambda>entries. True)" for e
      by (intro reports_any_bind reports_any [OF "4.IH"(2) [OF 2 "4.prems"]] reports_any [OF reports_basic(1)])
    then have "reports (bind_io (push_change p k) (\<lambda>_. bind_io (compare_entries added same rel (saved # ss) es) (\<lambda>entries. return_io (e # entries))))
        (\<lambda>entries. entries = saved # ss)" for e p k by (intro reports_bind [OF reports_basic(9)]) simp
    from reports_skip [OF "4.prems"(1) this] show ?thesis using 2 by simp
  next
    case 3
    have "reports (bind_io (compare_entries added same rel ss es) (\<lambda>entries. return_io (e # entries))) (\<lambda>entries. e = saved \<longrightarrow> entries = saved # ss)" for e
      by (rule reports_bind [OF "4.IH"(3) [OF 3(1,2) "4.prems"]]) (auto intro: reports_weaken [OF reports_basic(1)])
    from reports_bind [OF "4.prems"(2) [OF 3(3)] this] show ?thesis using 3(1,2) by simp
  qed
qed

lemma reports_scan_current_entry: "reports (scan_current_entry h db options n entry) (\<lambda>x. True)"
  unfolding scan_current_entry_def
  by (auto intro!: reports_any_bind reports_basic reports_scan_file reports_scan_directory reports_any [OF reports_invalid_entry]
      split: file_type.split symlink_policy.split)

lemma reports_entry:
  assumes "entry_name saved = name" "entry_kind saved = k" "entry_id saved = i"
  shows "reports (invalid_entry p (tree_entry_new name k i)) (\<lambda>e. e = saved)"
  by (rule reports_weaken [OF reports_invalid_entry]) (use assms in \<open>auto simp: tree_entry_new_Ok\<close>)

lemma reports_push: "reports m (\<lambda>x. True) \<Longrightarrow> reports (bind_io (push_change p k) (\<lambda>_. m)) E"
  by (rule reports_bind [OF reports_basic(9)]) simp

lemma reports_compare_matching_entry:
  assumes "entry_name saved = de_name entry" "\<And>dir rel. reports (enter (entry_id saved) dir rel) (\<lambda>i. i = entry_id saved)"
  shows "reports (compare_matching_entry h db options n enter saved entry) (\<lambda>e. e = saved)"
proof -
  note any = reports_any [OF reports_invalid_entry]
  have check: "reports (if i \<noteq> entry_id saved then push_change p k else return_io ()) (\<lambda>_. i = entry_id saved)" for i p k
    by (auto intro: reports_weaken [OF reports_basic(9)] reports_weaken [OF reports_basic(1)])
  have blob: "reports (bind_io (if i \<noteq> entry_id saved then push_change p k else return_io ())
      (\<lambda>_. invalid_entry q (tree_entry_blob (de_name entry) i))) (\<lambda>e. e = saved)" if "entry_kind saved = BlobEntry" for i p q k
    by (rule reports_bind [OF check]; cases "i = entry_id saved")
      (auto intro: any reports_entry simp: tree_entry_blob_def assms(1) that)
  have tree: "reports (invalid_entry q (tree_entry_tree (de_name entry) i)) (\<lambda>e. i = entry_id saved \<longrightarrow> e = saved)"
    if "entry_kind saved = TreeEntry" for i q
    by (cases "i = entry_id saved") (auto intro: any reports_entry simp: tree_entry_tree_def assms(1) that)
  show ?thesis
    unfolding compare_matching_entry_def
    by (cases "entry_kind saved"; cases "de_type entry")
      (auto intro!: reports_skip [OF reports_scan_file] blob reports_skip [OF reports_scan_directory] reports_push any reports_basic
        reports_bind [OF assms(2)] tree)
qed

text \<open>Without a change, the tree is the stored one.\<close>

lemma reports_compare_directory: "reports (compare_directory h db st options n saved dir rel) (\<lambda>i. i = saved)"
proof (induction n arbitrary: saved dir rel)
  case (Suc n)
  have get: "reports (on_world MatObjectStore (get_tree h st saved)) (\<lambda>t. wf_tree t \<and> tree_id h t = Some saved)"
    by (rule reports_on_world) (auto dest!: get_tree_run has_content_hash simp: tree_id_def)
  have "reports (included_entries options es) (\<lambda>x. True)" for es
  proof (induction es)
    case (Cons e es)
    show ?case
      by (auto intro!: reports_any_bind reports_basic Cons reports_any [OF reports_basic(1)] split: file_type.split symlink_policy.split)
  qed (simp add: reports_any [OF reports_basic(1)])
  then have included: "reports (read_included_directory_entries options dir rel) (\<lambda>x. True)"
    unfolding read_included_directory_entries_def by (intro reports_any_bind reports_world)
  have entries: "reports (compare_entries (scan_current_entry h db options n)
      (compare_matching_entry h db options n (compare_directory h db st options n)) rel ss es) (\<lambda>entries. entries = ss)" for ss es
    by (rule reports_compare_entries [OF reports_scan_current_entry]) (erule reports_compare_matching_entry, rule Suc)
  have tree: "reports (scan_tree_of h db dir rel es) (\<lambda>i. es = tree_entries t \<longrightarrow> wf_tree t \<and> tree_id h t = Some saved \<longrightarrow> i = saved)" for es t
    by (rule reports_weaken [OF reports_scan_tree_of]) (auto simp: tree_new_sorted)
  have "reports (bind_io (compare_entries (scan_current_entry h db options n)
      (compare_matching_entry h db options n (compare_directory h db st options n)) rel (tree_entries t) es) (scan_tree_of h db dir rel))
      (\<lambda>i. wf_tree t \<and> tree_id h t = Some saved \<longrightarrow> i = saved)" for es t
    by (rule reports_bind [OF entries tree])
  then show ?case
    unfolding compare_directory.simps
    by (intro reports_skip [OF reports_basic(6)] reports_bind [OF get] reports_skip [OF included])
qed (simp add: reports_basic)

end
