(* ===== verification/Capture_Properties.thy ===== *)
theory Capture_Properties
  imports Compare_Correctness
begin

text \<open>
  The methods of the materializer that read a working directory, from the opening of the cache to its closing,
  and what they promise.
\<close>

section \<open>Opening the cache\<close>

definition database_right :: "'d site \<Rightarrow> fs \<Rightarrow> 'd \<Rightarrow> path \<Rightarrow> bool" where
  "database_right X fs d p \<longleftrightarrow> db_files_valid (cx_db X) d p (file_right X fs) \<and> db_dirs_valid (cx_hash X) (cx_db X) d p (dir_right X fs)"

text \<open>The cache file is hidden, and its records are right when it is opened.\<close>

definition opens_right :: "'d site \<Rightarrow> 'd mat_state \<Rightarrow> bool" where
  "opens_right X s \<longleftrightarrow> (\<forall>p. \<not> fm_cache_loaded (ms_fm s) \<longrightarrow> fm_cache_path (ms_fm s) = Some p \<longrightarrow>
     (\<forall>n. hidden (cx_root X) (take n (butlast p))) \<and>
     (p \<in> set (ms_open s) \<longrightarrow> database_right X (w_fs (ms_world s)) (ms_db s) p) \<and>
     (\<forall>d. create_database (cx_db X) p (ms_db s) = (Some p, d) \<longrightarrow> database_right X (w_fs (ms_world s)) d p))"

lemma create_database_path: "create_database db p d = (opened, d') \<Longrightarrow> opened = None \<or> opened = Some p"
  by (auto simp: create_database_def initialize_database_def split: prod.splits sum.splits)

lemma proc_create_dir_all:
  assumes "\<And>n. hidden (cx_root X) (take n p)"
  shows "proc X G (try_world (create_dir_all p)) (\<lambda>r fs. True)"
proof -
  have within: "keeps (cx_rely X) (within (hidden (cx_root X)) (cx_fs X)) (create_dir_all p)"
    by (rule keeps_write(6) [where T = "hidden (cx_root X)"])
      (auto simp: cx_rely_def assms intro!: stable_within frame_within)
  have grow: "hoare (cx_rely X) (\<lambda>fs. fs_ext fs1 fs \<and> store_ok (cx_hash X) (cx_store X) fs) (create_dir_all p)
      (\<lambda>r fs. fs_ext fs1 fs \<and> store_ok (cx_hash X) (cx_store X) fs)" for fs1
    unfolding create_dir_all_def
    by (rule hoare_syscall [OF stable_store_ok_ext [OF rely_store]])
      (auto simp: op_create_dir_all_def intro: store_ok_mkdirs fs_ext_trans [OF _ mkdirs_ext] prod.collapse [symmetric])
  show ?thesis
  proof (rule proc_try_world)
    fix fs1
    have "hoare (cx_rely X) (grows X fs1) (create_dir_all p) (\<lambda>r fs. (fs_ext fs1 fs \<and> store_ok (cx_hash X) (cx_store X) fs) \<and>
        within (hidden (cx_root X)) (cx_fs X) fs)"
      by (rule hoare_conj; rule hoare_pre [OF grow] hoare_pre [OF within [unfolded keeps_def]]) (simp_all add: grows_def)
    then show "hoare (cx_rely X) (grows X fs1) (create_dir_all p) (\<lambda>r fs. grows X fs1 fs \<and> True)"
      by (rule hoare_post) (simp add: grows_def)
  qed
qed

lemma cap_inv_loaded:
  assumes "cap_inv X fs1 s" "opened = None \<or> opened = Some p \<and> database_right X fs1 d p"
  shows "cap_inv X fs1 (s\<lparr>ms_db := d, ms_open := os, ms_fm := (ms_fm s)\<lparr>fm_cache_loaded := True,
    fm_cache := capture_cache_default\<lparr>cc_backend := opened\<rparr>, fm_cache_dirty := False\<rparr>\<rparr>)"
proof -
  have "cache_valid (cx_hash X) (cx_db X) d (file_right X fs1) (dir_right X fs1) (capture_cache_default\<lparr>cc_backend := opened\<rparr>)"
    using assms(2) cache_valid_loaded cache_valid_default
    by (auto simp: database_right_def cache_valid_def capture_cache_default_def is_invalidated_path_def)
  from cache_right_ext [OF cap_inv_ext [OF assms(1)] this] show ?thesis
    using assms(1) by (auto simp: cap_inv_def)
qed

text \<open>Loading the cache: nothing but a flag, or the directory of the cache file and then a fresh cache.\<close>

definition loaded_with :: "'d mat_state \<Rightarrow> path option \<Rightarrow> 'd \<Rightarrow> path list \<Rightarrow> 'd mat_state" where
  "loaded_with s opened d os = s\<lparr>ms_db := d, ms_open := os, ms_fm := (ms_fm s)\<lparr>fm_cache_loaded := True,
     fm_cache := capture_cache_default\<lparr>cc_backend := opened\<rparr>, fm_cache_dirty := False\<rparr>\<rparr>"

definition loads_from :: "'d redb \<Rightarrow> 'd mat_state \<Rightarrow> path \<Rightarrow> path option \<Rightarrow> 'd \<Rightarrow> bool" where
  "loads_from db s p opened d \<longleftrightarrow> opened = None \<or>
     opened = Some p \<and> (p \<in> set (ms_open s) \<and> d = ms_db s \<or> create_database db p (ms_db s) = (Some p, d))"

lemma ensure_cache_loaded_run:
  assumes run: "ensure_cache_loaded db s = (r, s')"
  obtains "s' = s\<lparr>ms_fm := (ms_fm s)\<lparr>fm_cache_loaded := True\<rparr>\<rparr>"
  | p s1 r1 opened d os where "\<not> fm_cache_loaded (ms_fm s)" "fm_cache_path (ms_fm s) = Some p"
      "s1 = s \<or> try_world (create_dir_all (butlast p)) s = (r1, s1)" "loads_from db s p opened d" "s' = loaded_with s1 opened d os"
proof (cases "fm_cache_loaded (ms_fm s) \<or> fm_cache_path (ms_fm s) = None")
  case True
  then show ?thesis
    using run that(1) by (auto simp: ensure_cache_loaded_def bind_io_def gets_def return_io_def modifies_def split: if_splits)
next
  case False
  then obtain p where p: "fm_cache_path (ms_fm s) = Some p" and nl: "\<not> fm_cache_loaded (ms_fm s)" by auto
  define mk where "mk = (if p = [] then return_io (Ok ()) else try_world (create_dir_all (butlast p)) :: ('a, io_kind + unit) fm_io)"
  show ?thesis
  proof (cases "p \<in> set (ms_open s)")
    case True
    have eq: "s' = loaded_with s (Some p) (ms_db s) (ms_open s)"
      using run nl p True
      by (simp add: loaded_with_def ensure_cache_loaded_def capture_cache_load_def open_database_def bind_io_def gets_def return_io_def modifies_def)
    show ?thesis by (rule that(2) [OF nl p disjI1 [OF refl] _ eq]) (simp add: loads_from_def True)
  next
    case False
    obtain r1 s1 where s1: "mk s = (r1, s1)" by fastforce
    obtain opened d where op: "create_database db p (ms_db s1) = (opened, d)" by fastforce
    have made: "s1 = s \<or> try_world (create_dir_all (butlast p)) s = (r1, s1)" and "\<exists>x. r1 = Ok x \<and> ms_db s1 = ms_db s"
      using s1 by (auto simp: mk_def return_io_def try_world_def split: if_splits prod.splits)
    then obtain x where x: "r1 = Ok x" and db: "ms_db s1 = ms_db s" by blast
    have "s' = loaded_with s1 (case x of Inl _ \<Rightarrow> None | Inr _ \<Rightarrow> opened) (case x of Inl _ \<Rightarrow> ms_db s1 | Inr _ \<Rightarrow> d)
        (case x of Inl _ \<Rightarrow> ms_open s1 | Inr _ \<Rightarrow> if opened = None then ms_open s1 else p # ms_open s1)"
      using run nl p False s1 op x
      by (auto simp: loaded_with_def ensure_cache_loaded_def capture_cache_load_def open_database_def mk_def [symmetric] bind_io_def gets_def return_io_def
          modifies_def split: sum.splits if_splits)
    moreover have "loads_from db s p (case x of Inl _ \<Rightarrow> None | Inr _ \<Rightarrow> opened) (case x of Inl _ \<Rightarrow> ms_db s1 | Inr _ \<Rightarrow> d)"
      using create_database_path [OF op] op db by (auto simp: loads_from_def split: sum.split)
    ultimately show ?thesis using that(2) [OF nl p made] by blast
  qed
qed

lemma loads_right:
  "opens_right X s \<Longrightarrow> \<not> fm_cache_loaded (ms_fm s) \<Longrightarrow> fm_cache_path (ms_fm s) = Some p \<Longrightarrow> loads_from (cx_db X) s p opened d \<Longrightarrow>
    opened = None \<or> opened = Some p \<and> database_right X (w_fs (ms_world s)) d p"
  by (auto simp: opens_right_def loads_from_def)

lemma ensure_cache_loaded_inv:
  assumes inv: "cap_inv X (w_fs (ms_world s)) s" and right: "opens_right X s" and run: "ensure_cache_loaded (cx_db X) s = (r, s')"
  shows "cap_inv X (w_fs (ms_world s)) s'"
  using run
proof (cases rule: ensure_cache_loaded_run)
  case 1
  then show ?thesis using inv by (auto simp: cap_inv_def)
next
  case (2 p s1 r1 opened d os)
  have "\<And>n. hidden (cx_root X) (take n (butlast p))" using right 2(1,2) by (auto simp: opens_right_def)
  from procD [OF proc_create_dir_all [OF this, of "\<lambda>fs. True"] _ inv] have "cap_inv X (w_fs (ms_world s)) s1"
    using 2(3) inv by blast
  from cap_inv_loaded [OF this loads_right [OF right 2(1,2,4)]] show ?thesis unfolding 2(5) loaded_with_def .
qed

section \<open>From opening to closing\<close>

lemma bind_io_assoc: "bind_io (bind_io m f) g = bind_io m (\<lambda>x. bind_io (f x) g)"
  by (auto simp: bind_io_def fun_eq_iff split: prod.split sum.split)

definition closing :: "hasher \<Rightarrow> 'd redb \<Rightarrow> 'a \<Rightarrow> ('d, 'a) fm_io" where
  "closing blake3 db result =
     bind_io (save_cache_if_dirty blake3 db) (\<lambda>_. bind_io drop_bulk_loaded_cache_records (\<lambda>_. return_io result))"

lemma closing_run:
  assumes "closing blake3 db x s = (r, s')"
  shows "ms_world s' = ms_world s \<and> (r = Ok x \<or> r = Err MatPanic)"
proof -
  have save: "ms_world s1 = ms_world s \<and> (r1 = Ok () \<or> r1 = Err MatPanic)" if "save_cache_if_dirty blake3 db s = (r1, s1)" for r1 s1
    using that by (auto simp: save_cache_if_dirty_def flush_cache_def set_dirty_def bind_io_def gets_def modifies_def return_io_def
        split: if_splits option.splits sum.splits prod.splits)
  obtain r1 s1 where s1: "save_cache_if_dirty blake3 db s = (r1, s1)" by fastforce
  then show ?thesis
    using assms save [OF s1]
    by (auto simp: closing_def bind_io_def drop_bulk_loaded_cache_records_def modifies_def return_io_def split: sum.splits)
qed

text \<open>The part of a method that uses the cache, given the directory walk and the result made of its tree.\<close>

definition read_body ::
  "hasher \<Rightarrow> 'd redb \<Rightarrow> path \<Rightarrow> ('d, unit) fm_io \<Rightarrow> (capture_options \<Rightarrow> nat \<Rightarrow> ('d, object_id) fm_io) \<Rightarrow>
    (object_id \<Rightarrow> ('d, 'a) fm_io) \<Rightarrow> ('d, 'a) fm_io" where
  "read_body blake3 db root start dirwalk result =
     bind_io (load_all_cache_records blake3 db) (\<lambda>_.
     bind_io (on_world id (ensure_capture_root root)) (\<lambda>_.
     bind_io start (\<lambda>_.
     bind_io (gets (\<lambda>s. (fm_options (ms_fm s), budget s))) (\<lambda>(options, n).
     bind_io (dirwalk options n) result))))"

lemma read_methods:
  "capture_tree blake3 db wd st = bind_io (ensure_cache_loaded db) (\<lambda>_. bind_io
     (read_body blake3 db (wd_root wd) start_capture (\<lambda>options n. capture_directory blake3 db st options n (wd_root wd) []) captured)
     (closing blake3 db))"
  "scan_tree blake3 db wd = bind_io (ensure_cache_loaded db) (\<lambda>_. bind_io
     (read_body blake3 db (wd_root wd) start_scan (\<lambda>options n. scan_directory blake3 db options n (wd_root wd) [])
        (\<lambda>i. gets (\<lambda>s. \<lparr>sr_root_tree_id = i, sr_stats = ms_scan s, sr_issues = ms_issues s\<rparr>)))
     (closing blake3 db))"
  "compare_tree blake3 db saved wd st = bind_io (ensure_cache_loaded db) (\<lambda>_. bind_io
     (read_body blake3 db (wd_root wd) start_scan (\<lambda>options n. compare_directory blake3 db st options n saved (wd_root wd) [])
        (\<lambda>i. gets (\<lambda>s. \<lparr>tcr_saved_root_tree_id = saved, tcr_current_root_tree_id = i, tcr_changes = ms_changes s,
           tcr_stats = ms_scan s, tcr_issues = ms_issues s\<rparr>)))
     (closing blake3 db))"
  unfolding capture_tree_def scan_tree_def compare_tree_def read_body_def closing_def bind_io_assoc case_prod_unfold by (rule refl)+

lemma proc_load_all: "proc X G (load_all_cache_records (cx_hash X) (cx_db X)) (\<lambda>x fs. True)"
proof -
  have "proc X G (on_cache (load_all (cx_hash X) (cx_db X))) (\<lambda>x fs. True)"
    by (rule proc_on_cache) (blast intro: load_all_valid)
  from procD [OF this] show ?thesis
    by (auto intro!: procI simp: load_all_cache_records_def bind_io_def return_io_def split: prod.splits sum.splits)
qed

lemma proc_ensure_root: "proc X G (on_world id (ensure_capture_root root)) (\<lambda>x fs. True)"
proof (rule proc_on_world)
  fix fs1
  have "keeps (cx_rely X) (grows X fs1) (ensure_capture_root root)"
    unfolding ensure_capture_root_def by (intro keeps_intros keeps_read [OF stable_grows])
  then show "hoare (cx_rely X) (grows X fs1) (ensure_capture_root root) (\<lambda>r fs. grows X fs1 fs \<and> (\<forall>x. r = Ok x \<longrightarrow> True))"
    by (simp add: keeps_def)
qed

lemma proc_read_body:
  assumes "proc X (\<lambda>fs. True) start (\<lambda>x fs. True)" "\<And>n. proc X (\<lambda>fs. True) (dirwalk (cx_options X) n) M" "\<And>i. growing (M i)"
    and "\<And>i. proc X (M i) (result i) Q"
  shows "proc X (\<lambda>fs. True) (read_body (cx_hash X) (cx_db X) root start dirwalk result) Q"
proof -
  have opts: "proc X (\<lambda>fs. True) (gets (\<lambda>s. (fm_options (ms_fm s), budget s))) (\<lambda>x fs. fst x = cx_options X)"
    by (rule proc_gets_fact) (simp add: cap_inv_def)
  have dirwalk: "proc X (\<lambda>fs. True) (bind_io (dirwalk (cx_options X) n) result) Q" for n
    by (rule proc_bind [OF assms(2) growing_const]) (auto intro: proc_pre [OF assms(4)])
  show ?thesis
    unfolding read_body_def
    by (rule proc_bind_skip [OF proc_load_all growing_const], rule proc_bind_skip [OF proc_ensure_root growing_const],
        rule proc_bind_skip [OF assms(1) growing_const], rule proc_bind_fact [OF opts growing_const])
      (use dirwalk in \<open>auto split: prod.split\<close>)
qed

text \<open>What a comparison says when it reports no change.\<close>

lemma bind_io_Ok: "bind_io m f s = (Ok y, s') \<longleftrightarrow> (\<exists>x s1. m s = (Ok x, s1) \<and> f x s1 = (Ok y, s'))"
  by (auto simp: bind_io_def split: prod.split sum.split)

lemma compare_result:
  assumes "compare_tree blake3 db saved wd st s = (Ok c, s')"
  shows "tcr_saved_root_tree_id c = saved \<and> (tcr_changes c = [] \<longrightarrow> tcr_current_root_tree_id c = saved)"
proof -
  from assms obtain s1 s2 s3 i n options x where
      run: "start_scan s1 = (Ok x, s2)" "compare_directory blake3 db st options n saved (wd_root wd) [] s2 = (Ok i, s3)"
      "c = \<lparr>tcr_saved_root_tree_id = saved, tcr_current_root_tree_id = i, tcr_changes = ms_changes s3, tcr_stats = ms_scan s3, tcr_issues = ms_issues s3\<rparr>"
    unfolding compare_tree_def bind_io_Ok by (auto simp: gets_def return_io_def bind_io_Ok)
  have "ms_changes s2 = []" using run(1) by (auto simp: start_scan_def modifies_def)
  then show ?thesis using reportsD [OF reports_compare_directory run(2)] run(3) by auto
qed

text \<open>The state in which a method is called.\<close>

definition site_of :: "hasher \<Rightarrow> 'd redb \<Rightarrow> local_object_store \<Rightarrow> path \<Rightarrow> 'd mat_state \<Rightarrow> 'd site" where
  "site_of blake3 db st root s =
     \<lparr>cx_hash = blake3, cx_db = db, cx_store = st, cx_root = root, cx_options = fm_options (ms_fm s),
      cx_fs = w_fs (ms_world s), cx_stamps = w_stamps (ms_world s)\<rparr>"

lemma site_of_simps [simp]:
  "cx_hash (site_of blake3 db st root s) = blake3" "cx_db (site_of blake3 db st root s) = db"
  "cx_store (site_of blake3 db st root s) = st" "cx_root (site_of blake3 db st root s) = root"
  "cx_options (site_of blake3 db st root s) = fm_options (ms_fm s)" "cx_fs (site_of blake3 db st root s) = w_fs (ms_world s)"
  "cx_stamps (site_of blake3 db st root s) = w_stamps (ms_world s)"
  by (simp_all add: site_of_def)

definition capture_ok :: "hasher \<Rightarrow> 'd redb \<Rightarrow> local_object_store \<Rightarrow> path \<Rightarrow> 'd mat_state \<Rightarrow> bool" where
  "capture_ok blake3 db st root s \<longleftrightarrow> (let X = site_of blake3 db st root s in
     site_ok X \<and> (\<forall>fs p b. w_rely (ms_world s) fs p b \<longrightarrow> cx_rely X fs p b) \<and> store_ok blake3 st (w_fs (ms_world s)) \<and>
     cache_valid blake3 db (ms_db s) (file_right X (w_fs (ms_world s))) (dir_right X (w_fs (ms_world s))) (fm_cache (ms_fm s)) \<and>
     opens_right X s)"

lemma workspace_inv:
  assumes "capture_ok blake3 db st root s"
  shows "cap_inv (site_of blake3 db st root s) (w_fs (ms_world s)) s"
  using assms by (auto simp: capture_ok_def Let_def cap_inv_def grows_def site_of_def site_ok_def intro: within_refl)

lemma read_method_run:
  assumes ok: "capture_ok blake3 db st root s"
    and body: "proc (site_of blake3 db st root s) (\<lambda>fs. True) body Q"
    and run: "bind_io (ensure_cache_loaded db) (\<lambda>_. bind_io body (closing blake3 db)) s = (r, s')"
  shows "grows (site_of blake3 db st root s) (w_fs (ms_world s)) (w_fs (ms_world s')) \<and> (\<forall>x. r = Ok x \<longrightarrow> Q x (w_fs (ms_world s')))"
proof -
  let ?X = "site_of blake3 db st root s"
  have right: "opens_right ?X s" using ok by (simp add: capture_ok_def Let_def)
  obtain r1 s1 where s1: "ensure_cache_loaded db s = (r1, s1)" by fastforce
  have inv1: "cap_inv ?X (w_fs (ms_world s)) s1"
    by (rule ensure_cache_loaded_inv [OF workspace_inv [OF ok] right, of r1]) (use s1 in \<open>simp add: site_of_def\<close>)
  obtain r2 s2 where s2: "body s1 = (r2, s2)" by fastforce
  have inv2: "cap_inv ?X (w_fs (ms_world s)) s2 \<and> (\<forall>x. r2 = Ok x \<longrightarrow> Q x (w_fs (ms_world s2)))"
    using procD [OF body s2 inv1] by simp
  consider e where "r1 = Inl e" "r = Inl e" "s' = s1" | e where "r2 = Inl e" "r = Inl e" "s' = s2"
    | x where "r2 = Ok x" "closing blake3 db x s2 = (r, s')"
    using run s1 s2 by (auto simp: bind_io_def split: sum.splits)
  then show ?thesis
  proof cases
    case (3 x)
    from closing_run [OF 3(2)] show ?thesis using inv2 3(1) by (auto simp: cap_inv_def)
  qed (use inv1 inv2 in \<open>simp_all add: cap_inv_def\<close>)
qed

section \<open>A working directory for the witnesses\<close>

text \<open>Databases as a list of tables; a lookup or an iteration never fails.\<close>

definition table_of :: "table_name \<Rightarrow> tables \<Rightarrow> table" where
  "table_of name t = (case name of FilesTable \<Rightarrow> tb_files t | DirectoriesTable \<Rightarrow> tb_directories t)"

definition mem_tables :: "path \<Rightarrow> (path \<times> tables) list \<Rightarrow> tables" where
  "mem_tables p d = (case map_of d p of Some t \<Rightarrow> t | None \<Rightarrow> \<lparr>tb_files = [], tb_directories = []\<rparr>)"

definition mem_redb :: "(path \<times> tables) list redb" where
  "mem_redb =
     \<lparr>db_create = (\<lambda>p d. (Ok (), hash_insert p (mem_tables p d) d)),
      db_remove = (\<lambda>p d. retain_keys (\<lambda>q. q \<noteq> p) d),
      db_get = (\<lambda>p name key d. Ok (map_of (table_of name (mem_tables p d)) key)),
      db_iter = (\<lambda>p name d. (table_of name (mem_tables p d), None)),
      db_begin_write = (\<lambda>p d. Ok (mem_tables p d)),
      db_commit = (\<lambda>p t d. (Ok (), hash_insert p t d))\<rparr>"

definition sample_root :: path where
  "sample_root = [bstr ''w'']"

definition sample_objects :: local_object_store where
  "sample_objects = \<lparr>store_root = [bstr ''w'', bstr ''.era'', bstr ''objects'']\<rparr>"

definition sample_state :: "(path \<times> tables) list mat_state" where
  "sample_state =
     \<lparr>ms_world = (sample_world [])\<lparr>w_fs := [([bstr ''w''], DirNode), ([bstr ''w'', bstr ''.era''], DirNode),
        ([bstr ''w'', bstr ''b''], DirNode), ([bstr ''w'', bstr ''a''], FileNode [1, 2]), ([bstr ''w'', bstr ''l''], SymlinkNode),
        ([bstr ''w'', bstr ''b'', bstr ''c''], FileNode [4])]\<rparr>,
      ms_db = [], ms_open = [], ms_fm = fm_with_cache_path [bstr ''w'', bstr ''.era'', bstr ''cache.redb''],
      ms_capture = capture_stats_default, ms_scan = tree_scan_stats_default, ms_written = materialize_stats_default,
      ms_issues = [], ms_changes = []\<rparr>"

lemma hidden_store_area:
  assumes "store_root st = root @ bstr ''.era'' # rest" "store_area st p"
  shows "hidden root p"
proof (cases "prefix p root")
  case True
  then show ?thesis by (auto simp: hidden_def prefix_def strict_prefix_def)
next
  case False
  then have "prefix (root @ [bstr ''.era'']) p"
    using assms by (auto simp: store_area_def prefix_append prefix_Cons) (auto simp: prefix_def)
  then show ?thesis by (auto simp: hidden_def prefix_def)
qed

lemma workspace_ok_sample:
  assumes "distinct (map fst (w_fs w))" "store_ok sum_hash sample_objects (w_fs w)" "\<And>fs p b. \<not> w_rely w fs p b"
  shows "capture_ok sum_hash mem_redb sample_objects sample_root (sample_state\<lparr>ms_world := w\<rparr>)"
proof -
  let ?s = "sample_state\<lparr>ms_world := w\<rparr>"
  let ?X = "site_of sum_hash mem_redb sample_objects sample_root ?s"
  have "hidden sample_root p" if "store_area sample_objects p" for p
    by (rule hidden_store_area [OF _ that]) (simp add: sample_objects_def sample_root_def)
  moreover have "cache_valid sum_hash mem_redb (ms_db ?s) P Q (fm_cache (ms_fm ?s))" for P Q
    by (simp add: sample_state_def fm_with_cache_path_def fm_with_options_and_cache_path_def cache_valid_default)
  moreover have "opens_right ?X ?s"
  proof -
    have d: "create_database mem_redb p (ms_db sample_state) = (Some p, [(p, \<lparr>tb_files = [], tb_directories = []\<rparr>)])" for p
      by (simp add: create_database_def initialize_database_def mem_redb_def sample_state_def mem_tables_def hash_insert_def)
    have right: "database_right ?X fs [(p, \<lparr>tb_files = [], tb_directories = []\<rparr>)] p" for fs p
      by (simp add: database_right_def db_files_valid_def db_dirs_valid_def mem_redb_def mem_tables_def table_of_def)
    have hid: "hidden sample_root (take n [bstr ''w'', bstr ''.era''])" for n
      by (cases n; cases "n - 1") (auto simp: hidden_def sample_root_def strict_prefix_def)
    have path: "fm_cache_path (ms_fm ?s) = Some [bstr ''w'', bstr ''.era'', bstr ''cache.redb'']"
      by (simp add: sample_state_def fm_with_cache_path_def fm_with_options_and_cache_path_def)
    have opened: "ms_open ?s = []" by (simp add: sample_state_def)
    show ?thesis
      unfolding opens_right_def path opened using hid by (auto simp: d right)
  qed
  ultimately show ?thesis
    using assms by (simp add: capture_ok_def Let_def site_ok_def hash_ok_sum_hash)
qed

lemma sample_store_ok: "store_ok sum_hash sample_objects (w_fs (ms_world sample_state))"
  by (auto simp: store_ok_def sample_state_def sample_objects_def object_path_def object_dir_def fs_get_def split: if_splits)

lemma sample_workspace_ok: "capture_ok sum_hash mem_redb sample_objects sample_root sample_state"
proof -
  have "distinct (map fst (w_fs (ms_world sample_state)))" by code_simp
  from workspace_ok_sample [OF this sample_store_ok] show ?thesis by (simp add: sample_state_def sample_world_def)
qed

section \<open>The properties of capturing and comparing\<close>

lemma proc_capture_body:
  assumes "capture_ok blake3 db st (wd_root wd) s"
  shows "proc (site_of blake3 db st (wd_root wd) s) (\<lambda>fs. True) (read_body blake3 db (wd_root wd) start_capture
      (\<lambda>options n. capture_directory blake3 db st options n (wd_root wd) []) captured)
    (\<lambda>c fs. tree_of (site_of blake3 db st (wd_root wd) s) (fm_options (ms_fm s)) (has_object (site_of blake3 db st (wd_root wd) s)) fs
      (wd_root wd) (cr_root_tree_id c))" (is "proc ?X _ _ _")
proof -
  have X: "site_ok ?X" using assms(1) by (simp add: capture_ok_def Let_def)
  have start: "proc ?X (\<lambda>fs. True) start_capture (\<lambda>x fs. True)"
    unfolding start_capture_def by (rule proc_modifies; simp)
  have result: "proc ?X (\<lambda>fs. tree_of ?X (cx_options ?X) (has_object ?X) fs (wd_root wd) i) (captured i)
      (\<lambda>c fs. tree_of ?X (cx_options ?X) (has_object ?X) fs (wd_root wd) (cr_root_tree_id c))" for i
    unfolding captured_def by (auto intro!: procI simp: gets_def capture_result_new_def)
  have dirs: "proc ?X (\<lambda>fs. True) (capture_directory blake3 db st (cx_options ?X) n (wd_root wd) [])
      (\<lambda>i fs. tree_of ?X (cx_options ?X) (has_object ?X) fs (wd_root wd) i)" for n
    using proc_capture_directory [OF X, of "[]" "cx_options ?X" n] by simp
  have "proc ?X (\<lambda>fs. True) (read_body (cx_hash ?X) (cx_db ?X) (wd_root wd) start_capture
        (\<lambda>options n. capture_directory blake3 db st options n (wd_root wd) []) captured)
      (\<lambda>c fs. tree_of ?X (cx_options ?X) (has_object ?X) fs (wd_root wd) (cr_root_tree_id c))"
    by (rule proc_read_body, rule start, rule dirs, rule growing_tree_of [OF monotone_has_object], rule result)
  then show ?thesis by simp
qed

lemma capture_tree_run:
  assumes "capture_ok blake3 db st (wd_root wd) s" "capture_tree blake3 db wd st s = (r, s')"
  shows "within (hidden (wd_root wd)) (w_fs (ms_world s)) (w_fs (ms_world s')) \<and> fs_ext (w_fs (ms_world s)) (w_fs (ms_world s')) \<and>
    store_ok blake3 st (w_fs (ms_world s')) \<and>
    (\<forall>c. r = Ok c \<longrightarrow> dir_tree blake3 (fm_options (ms_fm s)) (object_ok blake3 st (w_fs (ms_world s'))) (w_fs (ms_world s))
       (wd_root wd) (cr_root_tree_id c))"
  using read_method_run [OF assms(1) proc_capture_body [OF assms(1)] assms(2) [unfolded read_methods]]
  by (simp add: grows_def has_object_def)



lemma compare_tree_run:
  assumes "capture_ok blake3 db st (wd_root wd) s" "compare_tree blake3 db saved wd st s = (Ok c, s')"
  shows "dir_tree blake3 (fm_options (ms_fm s)) (\<lambda>k i. True) (w_fs (ms_world s)) (wd_root wd) (tcr_current_root_tree_id c) \<and>
    (comparison_is_clean c \<longleftrightarrow> tcr_changes c = []) \<and>
    (comparison_is_clean c \<longrightarrow> dir_tree blake3 (fm_options (ms_fm s)) (\<lambda>k i. True) (w_fs (ms_world s)) (wd_root wd) saved)"
proof -
  let ?X = "site_of blake3 db st (wd_root wd) s" and ?K = "\<lambda>fs k i. True"
  let ?result = "\<lambda>i. gets (\<lambda>s. \<lparr>tcr_saved_root_tree_id = saved, tcr_current_root_tree_id = i, tcr_changes = ms_changes s,
     tcr_stats = ms_scan s, tcr_issues = ms_issues s\<rparr>)"
  let ?body = "read_body blake3 db (wd_root wd) start_scan (\<lambda>options n. compare_directory blake3 db st options n saved (wd_root wd) []) ?result"
  have X: "site_ok ?X" using assms(1) by (simp add: capture_ok_def Let_def)
  have start: "proc ?X (\<lambda>fs. True) start_scan (\<lambda>x fs. True)"
    unfolding start_scan_def by (rule proc_modifies; simp)
  have result: "proc ?X (\<lambda>fs. tree_of ?X (cx_options ?X) ?K fs (wd_root wd) i) (?result i)
      (\<lambda>c fs. tree_of ?X (cx_options ?X) ?K fs (wd_root wd) (tcr_current_root_tree_id c))" for i
    by (auto intro!: procI simp: gets_def)
  have dirs: "proc ?X (\<lambda>fs. True) (compare_directory blake3 db st (cx_options ?X) n saved (wd_root wd) [])
      (\<lambda>i fs. tree_of ?X (cx_options ?X) ?K fs (wd_root wd) i)" for n
    using proc_compare_directory [OF X, of "[]" st "cx_options ?X" n saved] by simp
  have body: "proc ?X (\<lambda>fs. True) (read_body (cx_hash ?X) (cx_db ?X) (wd_root wd) start_scan
        (\<lambda>options n. compare_directory blake3 db st options n saved (wd_root wd) []) ?result)
      (\<lambda>c fs. tree_of ?X (cx_options ?X) ?K fs (wd_root wd) (tcr_current_root_tree_id c))"
    by (rule proc_read_body, rule start, rule dirs, rule growing_const, rule result)
  have tree: "dir_tree blake3 (fm_options (ms_fm s)) (\<lambda>k i. True) (w_fs (ms_world s)) (wd_root wd) (tcr_current_root_tree_id c)"
    using read_method_run [OF assms(1) body [unfolded site_of_simps(1,2)] assms(2) [unfolded read_methods]] by simp
  have clean: "comparison_is_clean c \<longleftrightarrow> tcr_changes c = []" "comparison_is_clean c \<Longrightarrow> tcr_current_root_tree_id c = saved"
    using compare_result [OF assms(2)] unfolding comparison_is_clean_def by metis+
  show ?thesis using tree clean by (intro conjI impI) simp_all
qed

text \<open>
  C11. A comparison is right about the working directory. A call that returns reports the tree of the files as they
  are, and its list of changes is never too short: without a change the two trees are one, so a result is clean
  exactly when its list is empty, and then the working directory has the tree that was saved.
\<close>

theorem compare_tree_sound:
  assumes "capture_ok blake3 db st (wd_root wd) s" "compare_tree blake3 db saved wd st s = (Ok c, s')"
  shows "dir_tree blake3 (fm_options (ms_fm s)) (\<lambda>k i. True) (w_fs (ms_world s)) (wd_root wd) (tcr_current_root_tree_id c) \<and>
    (comparison_is_clean c \<longleftrightarrow> tcr_changes c = []) \<and>
    (comparison_is_clean c \<longrightarrow> dir_tree blake3 (fm_options (ms_fm s)) (\<lambda>k i. True) (w_fs (ms_world s)) (wd_root wd) saved)"
  by (rule compare_tree_run [OF assms])

text \<open>The sample directory after its capture: the files, and the objects of the two trees and the two blobs.\<close>

definition sample_object :: "object_kind \<Rightarrow> byte \<Rightarrow> bytes \<Rightarrow> path \<times> node" where
  "sample_object k n b = (object_path sample_objects k (ObjectId (replicate 31 0 @ [n])), FileNode b)"

definition sample_tree_id :: object_id where
  "sample_tree_id = ObjectId (replicate 31 0 @ [5])"

definition sample_stored :: fs where
  "sample_stored =
     [sample_object TreeObject 5 (bstr ''ERA_TREE_V1'' @ [0, 0, 0, 0, 2] @ [98, 0, 0, 0, 1, 97] @ replicate 31 0 @ [3] @
        [116, 0, 0, 0, 1, 98] @ replicate 31 0 @ [24]),
      sample_object TreeObject 24 (bstr ''ERA_TREE_V1'' @ [0, 0, 0, 0, 1] @ [98, 0, 0, 0, 1, 99] @ replicate 31 0 @ [4]),
      (store_root sample_objects @ [bstr ''trees'', bstr ''00''], DirNode), (store_root sample_objects @ [bstr ''trees''], DirNode),
      sample_object BlobObject 4 [4], sample_object BlobObject 3 [1, 2],
      (store_root sample_objects @ [bstr ''blobs'', bstr ''00''], DirNode), (store_root sample_objects @ [bstr ''blobs''], DirNode),
      (store_root sample_objects, DirNode)]"

definition sample_captured :: "(path \<times> tables) list mat_state" where
  "sample_captured = sample_state\<lparr>ms_world := (ms_world sample_state)\<lparr>w_fs := sample_stored @ w_fs (ms_world sample_state)\<rparr>\<rparr>"

lemma sample_captured_ok: "capture_ok sum_hash mem_redb sample_objects sample_root sample_captured"
proof -
  let ?wd = "working_directory_new sample_root"
  let ?w = "ms_world (snd (capture_tree sum_hash mem_redb ?wd sample_objects sample_state))"
  have wd: "wd_root ?wd = sample_root" by (simp add: working_directory_new_def)
  have run: "w_fs ?w = sample_stored @ w_fs (ms_world sample_state)" by code_simp
  have "within (hidden sample_root) (w_fs (ms_world sample_state)) (w_fs ?w) \<and> store_ok sum_hash sample_objects (w_fs ?w)"
    using capture_tree_run [of sum_hash mem_redb sample_objects ?wd sample_state, OF _ prod.collapse [symmetric]] sample_workspace_ok
    unfolding wd by blast
  then show ?thesis
    unfolding sample_captured_def run by (intro workspace_ok_sample) (auto simp: within_def sample_state_def sample_world_def)
qed

theorem compare_tree_sound_witness:
  "case compare_tree sum_hash mem_redb sample_tree_id (working_directory_new sample_root) sample_objects sample_captured of (r, s') \<Rightarrow>
     (\<exists>c. r = Ok c \<and> comparison_is_clean c \<and>
       dir_tree sum_hash capture_options_default (\<lambda>k i. True) (w_fs (ms_world sample_captured)) sample_root sample_tree_id)"
proof -
  let ?wd = "working_directory_new sample_root"
  let ?run = "compare_tree sum_hash mem_redb sample_tree_id ?wd sample_objects sample_captured"
  obtain r s' where run: "?run = (r, s')" by fastforce
  have "case fst ?run of Inl _ \<Rightarrow> False | Inr c \<Rightarrow> comparison_is_clean c" by code_simp
  then obtain c where c: "r = Ok c" "comparison_is_clean c" unfolding run by (auto split: sum.splits)
  have wd: "wd_root ?wd = sample_root" and opts: "fm_options (ms_fm sample_captured) = capture_options_default"
    by (simp_all add: working_directory_new_def sample_captured_def sample_state_def fm_with_cache_path_def fm_with_options_and_cache_path_def)
  show ?thesis
    using compare_tree_sound [OF _ run [unfolded c(1)], unfolded wd opts, OF sample_captured_ok] c unfolding run by simp
qed

end
