(* ===== verification/Materialize_Properties.thy ===== *)
theory Materialize_Properties
  imports Materialize_Walk Capture_Properties
begin

text \<open>
  What \<open>materialize_tree\<close> promises, from the opening of the cache to its closing.
\<close>

section \<open>From opening to closing\<close>

text \<open>The state in which the method is called: other processes and the cache file stay in the metadata directory.\<close>

definition checkout_ok :: "hasher \<Rightarrow> 'd redb \<Rightarrow> local_object_store \<Rightarrow> path \<Rightarrow> 'd mat_state \<Rightarrow> bool" where
  "checkout_ok blake3 db st root s \<longleftrightarrow> capture_ok blake3 db st root s \<and> (\<forall>p. store_area st p \<longrightarrow> meta root p) \<and>
     (\<forall>fs p b. w_rely (ms_world s) fs p b \<longrightarrow> meta root p) \<and>
     (\<forall>p n. fm_cache_path (ms_fm s) = Some p \<longrightarrow> meta root (take n (butlast p)))"

lemma checkout_inv:
  assumes "checkout_ok blake3 db st root s"
  shows "mat_site_ok (site_of blake3 db st root s)" "minv (site_of blake3 db st root s) nowhere s"
proof -
  let ?X = "site_of blake3 db st root s"
  have ok: "capture_ok blake3 db st root s" using assms by (simp add: checkout_ok_def)
  show "mat_site_ok ?X"
    using assms ok by (simp add: mat_site_ok_def checkout_ok_def capture_ok_def site_ok_def Let_def)
  have "now ?X s = ?X" by (simp add: now_def site_of_def)
  then show "minv ?X nowhere s"
    using assms ok by (auto simp: minv_def mat_rely_def cx_rely_def sound_fs_def checkout_ok_def capture_ok_def site_ok_def Let_def)
qed

lemma kept_mkdirs:
  assumes p: "\<And>n. meta (cx_root X) (take n p)" and k: "kept X T fs0 fs" and run: "mkdirs fs [] p = (r, fs')"
  shows "kept X T fs0 fs'"
proof -
  have ext: "fs_ext fs fs'" by (rule mkdirs_ext [OF run])
  have d: "distinct (map fst fs)" and ok: "store_ok (cx_hash X) (cx_store X) fs" using k by (auto simp: kept_def moved_def sound_fs_def)
  have "within (meta (cx_root X)) fs (snd (mkdirs fs [] p))"
    by (rule frame_mkdirs [where T = "meta (cx_root X)"]) (use p in \<open>auto intro: frame_within within_refl [OF d]\<close>)
  then have "within (meta (cx_root X)) fs fs'" using run by simp
  then have same: "\<And>q. \<not> meta (cx_root X) q \<Longrightarrow> fs_get fs' q = fs_get fs q" and d': "distinct (map fst fs')"
    by (simp_all add: within_def)
  have m: "moved X T fs0 fs" and fw: "fewer X fs0 fs" using k by (simp_all add: kept_def)
  have "sound_fs X fs'" using d' store_ok_mkdirs [OF ok run] by (simp add: sound_fs_def)
  moreover have "fs_get fs' q = Some n" if "meta (cx_root X) q" "fs_get fs0 q = Some n" for q n
    using m that ext by (simp add: moved_def fs_ext_def)
  ultimately have "moved X T fs0 fs'" using m same by (simp add: moved_def)
  moreover have "fewer X fs0 fs'" using fw same by (simp add: fewer_def)
  ultimately show ?thesis by (simp add: kept_def)
qed

lemma mproc_create_dir_all:
  assumes X: "mat_site_ok X" and p: "\<And>n. meta (cx_root X) (take n p)"
  shows "mproc X nowhere U U G (try_world (create_dir_all p)) (\<lambda>r s. True)"
proof (rule mproc_try_world [OF X, where Gf = "\<lambda>fs. True" and Q = "\<lambda>r fs. True"])
  show "hoare (mat_rely X) (kept X nowhere fs0) (create_dir_all p) (\<lambda>r fs. kept X nowhere fs0 fs \<and> True)" for fs0
    unfolding create_dir_all_def
  proof (rule hoare_syscall [OF stable_kept [OF X]])
    show "kept X nowhere fs0 fs' \<and> True" if "kept X nowhere fs0 fs" "op_create_dir_all p fs = (r, fs')" for fs r fs'
      using kept_mkdirs [OF p that(1)] that(2) by (simp add: op_create_dir_all_def)
    show "kept X nowhere fs0 (snd (mkdirs fs [] (take n p))) \<and> True" if "kept X nowhere fs0 fs" for fs n
      using kept_mkdirs [OF _ that prod.collapse [symmetric], of "take n p"] p by simp
  qed
qed simp

lemma minv_loaded:
  assumes X: "mat_site_ok X" and inv: "minv X nowhere s" and sh: "shift X nowhere s s1" "minv X nowhere s1"
    and right: "opened = None \<or> opened = Some p \<and> database_right (now X s) (w_fs (ms_world s)) d p"
  shows "minv X nowhere (loaded_with s1 opened d os)"
proof -
  let ?s = "loaded_with s1 opened d os"
  have m: "moved X nowhere (w_fs (ms_world s)) (w_fs (ms_world ?s))" using sh(1) by (simp add: shift_def loaded_with_def)
  have w: "ms_world ?s = ms_world s1" by (simp add: loaded_with_def)
  have f: "file_right (now X ?s) (w_fs (ms_world ?s)) q f" if "file_right (now X s) (w_fs (ms_world s)) q f" for q f
    by (rule file_right_moved [OF X m that]) (use sh(1) moved_get [OF m] in \<open>auto simp: w shift_def\<close>)
  have "cache_valid (cx_hash X) (cx_db X) d (file_right (now X s) (w_fs (ms_world s))) (dir_right X (w_fs (ms_world s)))
      (capture_cache_default\<lparr>cc_backend := opened\<rparr>)"
  proof (cases opened)
    case None
    then have "capture_cache_default\<lparr>cc_backend := opened\<rparr> = capture_cache_default" by (simp add: capture_cache_default_def)
    then show ?thesis by (simp add: cache_valid_default)
  next
    case (Some q)
    have "dir_right (now X s) = dir_right X" by (simp add: fun_eq_iff dir_right_def has_object_def now_def)
    then show ?thesis using right Some cache_valid_loaded by (auto simp: database_right_def now_def)
  qed
  then have "cache_valid (cx_hash X) (cx_db X) d (\<lambda>p f. \<not> nowhere p \<and> file_right (now X ?s) (w_fs (ms_world ?s)) p f) (dir_right X (w_fs (ms_world ?s)))
      (capture_cache_default\<lparr>cc_backend := opened\<rparr>)"
    by (rule cache_valid_mono) (use f dir_right_moved [OF X m] in auto)
  then show ?thesis using sh(2) by (simp add: minv_def w) (simp add: loaded_with_def)
qed

lemma ensure_cache_loaded_minv:
  assumes ok: "checkout_ok blake3 db st root s" and run: "ensure_cache_loaded db s = (r, s')"
  defines "X \<equiv> site_of blake3 db st root s"
  shows "minv X nowhere s' \<and> shift X nowhere s s'"
proof -
  have X: "mat_site_ok X" and inv: "minv X nowhere s" using checkout_inv [OF ok] by (simp_all add: X_def)
  have right: "opens_right X s" using ok by (simp add: X_def checkout_ok_def capture_ok_def Let_def)
  show ?thesis
    using run
  proof (cases rule: ensure_cache_loaded_run)
    case 1
    then show ?thesis using inv shift_refl [OF inv, of nowhere] by (simp add: minv_def shift_def now_def)
  next
    case (2 p s1 r1 opened d os)
    have "\<And>n. meta (cx_root X) (take n (butlast p))" using ok 2(2) by (simp add: X_def checkout_ok_def)
    from mprocD [OF mproc_create_dir_all [OF X this, where G = "\<lambda>s. True"] _ inv] have s1: "shift X nowhere s s1 \<and> minv X nowhere s1"
      using 2(3) inv by (auto intro: shift_refl [OF inv] minv_nowhere split: sum.splits)
    have "now X s = X" by (simp add: now_def X_def site_of_def)
    with loads_right [OF right 2(1,2)] 2(4) have "opened = None \<or> opened = Some p \<and> database_right (now X s) (w_fs (ms_world s)) d p"
      by (simp add: X_def)
    from minv_loaded [OF X inv conjunct1 [OF s1] conjunct2 [OF s1] this, of os] show ?thesis
      using s1 unfolding 2(5) by (simp add: shift_def loaded_with_def)
  qed
qed

definition write_body :: "hasher \<Rightarrow> 'd redb \<Rightarrow> object_id \<Rightarrow> path \<Rightarrow> local_object_store \<Rightarrow> ('d, materialize_result) fm_io" where
  "write_body blake3 db i root st =
     bind_io (on_world id (ensure_capture_root root)) (\<lambda>_.
     bind_io (modifies (\<lambda>s. s\<lparr>ms_written := materialize_stats_default\<rparr>)) (\<lambda>_.
     bind_io (gets (\<lambda>s. (fm_options (ms_fm s), budget s))) (\<lambda>(options, n).
     bind_io (materialize_directory blake3 db st options n i root []) (\<lambda>_.
     gets (\<lambda>s. \<lparr>mz_stats = ms_written s\<rparr>)))))"

lemma write_method:
  "materialize_tree blake3 db i wd st = bind_io (ensure_cache_loaded db) (\<lambda>_. bind_io (write_body blake3 db i (wd_root wd) st) (closing blake3 db))"
  unfolding materialize_tree_def write_body_def closing_def bind_io_assoc case_prod_unfold by (rule refl)

lemma mproc_gets: "(\<And>s. G s \<Longrightarrow> Q (f s) s) \<Longrightarrow> mproc X T U U G (gets f) Q"
  by (auto intro!: mprocI simp: gets_def intro: shift_refl)

lemma mproc_write_body:
  assumes X: "mat_site_ok X"
  shows "mproc X (strict_prefix (cx_root X)) nowhere nowhere (\<lambda>s. complete_tree X (cx_options X) (w_fs (ms_world s)) i)
    (write_body (cx_hash X) (cx_db X) i (cx_root X) (cx_store X)) (\<lambda>x s. sub_tree X (cx_options X) s (cx_root X) i)"
proof -
  let ?ready = "\<lambda>s. complete_tree X (cx_options X) (w_fs (ms_world s)) i" and ?T = "strict_prefix (cx_root X)"
  let ?Q = "\<lambda>x s. sub_tree X (cx_options X) s (cx_root X) i"
  have ready: "still X ?ready" by (auto simp: still_def shift_def intro: complete_tree_moved [OF X])
  have root: "mproc X nowhere nowhere nowhere G (on_world id (ensure_capture_root (cx_root X))) (\<lambda>x s. True)" for G
    by (rule mproc_read [OF X], unfold ensure_capture_root_def, intro keeps_intros keeps_read [OF stable_kept [OF X]])
  have start: "mproc X nowhere nowhere nowhere G (modifies (\<lambda>s. s\<lparr>ms_written := materialize_stats_default\<rparr>)) (\<lambda>x s. True)" for G
    by (rule mproc_modifies) simp_all
  have options: "mproc X nowhere nowhere nowhere G (gets (\<lambda>s. (fm_options (ms_fm s), budget s))) (\<lambda>x s. fst x = cx_options X)" for G
    by (auto intro!: mprocI simp: gets_def minv_def shift_def intro: moved_refl)
  have dir: "mproc X ?T nowhere nowhere ?ready (materialize_directory (cx_hash X) (cx_db X) (cx_store X) (cx_options X) n i (cx_root X) []) ?Q" for n
    using mproc_materialize_directory [OF X, of "[]" "cx_options X" i n] by simp
  show ?thesis
    unfolding write_body_def
  proof (rule mproc_bind_still [where P = "\<lambda>x. True", OF root ready], rule mproc_bind_still [where P = "\<lambda>x. True", OF start ready],
      rule mproc_bind_still [where P = "\<lambda>x. fst x = cx_options X", OF options ready])
    fix x :: "capture_options \<times> nat"
    assume "fst x = cx_options X"
    then show "mproc X ?T nowhere nowhere ?ready (case x of (options, n) \<Rightarrow>
        bind_io (materialize_directory (cx_hash X) (cx_db X) (cx_store X) options n i (cx_root X) []) (\<lambda>_.
        gets (\<lambda>s. \<lparr>mz_stats = ms_written s\<rparr>))) ?Q"
      by (cases x) (auto intro!: mproc_bind [OF dir] mproc_gets)
  qed
qed

lemma materialize_tree_run:
  assumes ok: "checkout_ok blake3 db st (wd_root wd) s" and run: "materialize_tree blake3 db i wd st s = (r, s')"
    and tree: "complete_tree (site_of blake3 db st (wd_root wd) s) (fm_options (ms_fm s)) (w_fs (ms_world s)) i"
  shows "moved (site_of blake3 db st (wd_root wd) s) (strict_prefix (wd_root wd)) (w_fs (ms_world s)) (w_fs (ms_world s')) \<and>
    w_rely (ms_world s') = w_rely (ms_world s) \<and>
    (\<forall>x. r = Ok x \<longrightarrow> dir_tree blake3 (fm_options (ms_fm s)) (object_ok blake3 st (w_fs (ms_world s'))) (w_fs (ms_world s')) (wd_root wd) i)"
proof -
  define X where "X = site_of blake3 db st (wd_root wd) s"
  have sel: "cx_hash X = blake3" "cx_db X = db" "cx_store X = st" "cx_root X = wd_root wd" "cx_options X = fm_options (ms_fm s)"
    by (simp_all add: X_def)
  have X: "mat_site_ok X" using checkout_inv [OF ok] by (simp add: X_def)
  obtain r1 s1 where s1: "ensure_cache_loaded db s = (r1, s1)" by fastforce
  from ensure_cache_loaded_minv [OF ok s1] have inv1: "minv X nowhere s1" and sh1: "shift X nowhere s s1" by (simp_all add: X_def)
  obtain r2 s2 where s2: "write_body blake3 db i (wd_root wd) st s1 = (r2, s2)" by fastforce
  have "complete_tree X (cx_options X) (w_fs (ms_world s1)) i"
    using complete_tree_moved [OF X _ tree [folded X_def]] sh1 by (auto simp: shift_def sel)
  from mprocD [OF mproc_write_body [OF X, of i] _ inv1 this, unfolded sel, OF s2]
  have sh2: "shift X (strict_prefix (wd_root wd)) s1 s2" and fin: "\<And>x. r2 = Ok x \<Longrightarrow> sub_tree X (fm_options (ms_fm s)) s2 (wd_root wd) i"
    by (auto split: sum.splits)
  have m1: "moved X (strict_prefix (wd_root wd)) (w_fs (ms_world s)) (w_fs (ms_world s1))"
    using sh1 moved_mono [of X nowhere _ _ "strict_prefix (wd_root wd)"] by (auto simp: shift_def)
  then have m2: "moved X (strict_prefix (wd_root wd)) (w_fs (ms_world s)) (w_fs (ms_world s2))"
    using sh2 by (auto simp: shift_def intro: moved_trans)
  have rely: "w_rely (ms_world s1) = w_rely (ms_world s)" "w_rely (ms_world s2) = w_rely (ms_world s)" using sh1 sh2 by (simp_all add: shift_def)
  consider e where "r1 = Inl e" "r = Inl e" "s' = s1" | e where "r2 = Inl e" "r = Inl e" "s' = s2"
    | x where "r2 = Ok x" "closing blake3 db x s2 = (r, s')"
    using run s1 s2 by (auto simp: write_method bind_io_def split: sum.splits)
  then show ?thesis
  proof cases
    case (3 x)
    from closing_run [OF 3(2)] show ?thesis using m2 rely fin [OF 3(1)] by (auto simp: X_def sub_tree_def has_object_def)
  qed (use m1 m2 rely in \<open>simp_all add: X_def\<close>)
qed

section \<open>The properties of materializing\<close>


text \<open>The sample directory after a capture and two changes: its tree is still in the store.\<close>

definition sample_changed :: "(path \<times> tables) list mat_state" where
  "sample_changed = sample_captured\<lparr>ms_world := (ms_world sample_captured)\<lparr>w_fs :=
     fs_set [bstr ''w'', bstr ''x''] (FileNode [9]) (fs_del [bstr ''w'', bstr ''a''] (w_fs (ms_world sample_captured)))\<rparr>\<rparr>"

definition check_file :: "hasher \<Rightarrow> fs \<Rightarrow> path \<Rightarrow> object_id \<Rightarrow> bytes option" where
  "check_file blake3 fs p i = (case resolve fs p of
     Inr (FileNode b) \<Rightarrow> if fits_memory b \<and> from_content blake3 b = i then Some b else None | _ \<Rightarrow> None)"

fun check_tree :: "nat \<Rightarrow> hasher \<Rightarrow> local_object_store \<Rightarrow> capture_options \<Rightarrow> fs \<Rightarrow> object_id \<Rightarrow> bool" where
  "check_tree 0 blake3 st options fs i = False"
| "check_tree (Suc n) blake3 st options fs i =
    (case check_file blake3 fs (object_path st TreeObject i) i of
       None \<Rightarrow> False
     | Some b \<Rightarrow>
        (case tree_from_canonical_bytes b of
           Inl _ \<Rightarrow> False
         | Inr t \<Rightarrow> list_all (\<lambda>e. entry_name e \<noteq> bstr ''.era'' \<and>
            (case entry_kind e of
               BlobEntry \<Rightarrow> check_file blake3 fs (object_path st BlobObject (entry_id e)) (entry_id e) \<noteq> None
             | TreeEntry \<Rightarrow> \<not> excludes_directory_name options (entry_name e) \<and> check_tree n blake3 st options fs (entry_id e)))
            (tree_entries t)))"

lemma check_file_Some: "check_file blake3 fs p i = Some b \<Longrightarrow> readable fs p b \<and> from_content blake3 b = i"
  by (auto simp: check_file_def readable_def split: sum.splits node.splits if_splits)

lemma check_tree_complete: "check_tree n (cx_hash X) (cx_store X) options fs i \<Longrightarrow> complete_tree X options fs i"
proof (induction n arbitrary: i)
  case (Suc n)
  from Suc.prems obtain b where b: "check_file (cx_hash X) fs (object_path (cx_store X) TreeObject i) i = Some b"
    by (auto split: option.splits)
  from Suc.prems b obtain t where t: "tree_from_canonical_bytes b = Ok t" by (auto split: sum.splits)
  from Suc.prems b t have es: "\<And>e. e \<in> set (tree_entries t) \<Longrightarrow> entry_name e \<noteq> bstr ''.era'' \<and>
      (case entry_kind e of
         BlobEntry \<Rightarrow> check_file (cx_hash X) fs (object_path (cx_store X) BlobObject (entry_id e)) (entry_id e) \<noteq> None
       | TreeEntry \<Rightarrow> \<not> excludes_directory_name options (entry_name e) \<and> check_tree n (cx_hash X) (cx_store X) options fs (entry_id e))"
    by (simp add: list_all_iff)
  note found = check_file_Some [OF b]
  have blob: "has_object X fs BlobObject j" if "check_file (cx_hash X) fs (object_path (cx_store X) BlobObject j) j \<noteq> None" for j
    using that check_file_Some stored_raw [of fs "cx_store X" j _ "cx_hash X"] by (fastforce simp: has_object_def object_ok_def blob_path_def)
  have "has_content (cx_hash X) (cx_store X) fs TreeObject i b" using found by (simp add: has_content_def)
  moreover have "wf_tree t \<and> tree_to_canonical_bytes t = Some b"
    by (rule tree_encode_decode [OF t]) (use found in \<open>simp add: readable_def\<close>)
  moreover have "entry_name e \<noteq> bstr ''.era'' \<and> (entry_kind e = BlobEntry \<longrightarrow> has_object X fs BlobObject (entry_id e)) \<and>
        (entry_kind e = TreeEntry \<longrightarrow> \<not> excludes_directory_name options (entry_name e) \<and> complete_tree X options fs (entry_id e))"
    if "e \<in> set (tree_entries t)" for e
    using es [OF that] Suc.IH [of "entry_id e"] blob [of "entry_id e"] by (cases "entry_kind e") simp_all
  ultimately show ?case using complete_tree.complete_tree_node [of X fs i b t options] by blast
qed simp

lemma meta_store_area:
  assumes "store_root st = root @ bstr ''.era'' # rest" "store_area st p"
  shows "meta root p"
proof (cases "prefix p root")
  case True
  then show ?thesis by (auto simp: meta_def prefix_def strict_prefix_def)
next
  case False
  then have "prefix (root @ [bstr ''.era'']) p"
    using assms by (auto simp: store_area_def prefix_append prefix_Cons) (auto simp: prefix_def)
  then show ?thesis by (simp add: meta_def)
qed

lemma sample_changed_ok: "checkout_ok sum_hash mem_redb sample_objects sample_root sample_changed"
proof -
  have area: "meta sample_root p" if "store_area sample_objects p" for p
    by (rule meta_store_area [OF _ that]) (simp add: sample_objects_def sample_root_def)
  have ok: "capture_ok sum_hash mem_redb sample_objects sample_root sample_captured" by (rule sample_captured_ok)
  have rely: "\<not> w_rely (ms_world sample_captured) fs p b" for fs p b by (simp add: sample_captured_def sample_state_def sample_world_def)
  have d: "distinct (map fst (w_fs (ms_world sample_captured)))" and st: "store_ok sum_hash sample_objects (w_fs (ms_world sample_captured))"
    using ok by (simp_all add: capture_ok_def site_ok_def Let_def)
  have "\<not> meta sample_root [bstr ''w'', bstr ''x'']" "\<not> meta sample_root [bstr ''w'', bstr ''a'']" by code_simp+
  then have "fs_get (w_fs (ms_world sample_changed)) p = fs_get (w_fs (ms_world sample_captured)) p" if "store_area sample_objects p" for p
    using area [OF that] by (auto simp: sample_changed_def fs_get_set fs_get_del)
  from store_ok_area [OF this st] have st': "store_ok sum_hash sample_objects (w_fs (ms_world sample_changed))" .
  have d': "distinct (map fst (w_fs (ms_world sample_changed)))"
    using d by (simp add: sample_changed_def distinct_fs_set distinct_fs_del)
  have rely': "\<not> w_rely (ms_world sample_changed) fs p b" for fs p b using rely by (simp add: sample_changed_def)
  have "sample_changed = sample_state\<lparr>ms_world := ms_world sample_changed\<rparr>" by (simp add: sample_changed_def sample_captured_def)
  with workspace_ok_sample [OF d' st' rely'] have "capture_ok sum_hash mem_redb sample_objects sample_root sample_changed" by simp
  moreover have "fm_cache_path (ms_fm sample_changed) = Some [bstr ''w'', bstr ''.era'', bstr ''cache.redb'']"
    by (simp add: sample_changed_def sample_captured_def sample_state_def fm_with_cache_path_def fm_with_options_and_cache_path_def)
  moreover have "meta sample_root (take n [bstr ''w'', bstr ''.era''])" for n
    by (cases n; cases "n - 1") (auto simp: meta_def sample_root_def strict_prefix_def)
  ultimately show ?thesis using area rely' by (auto simp: checkout_ok_def)
qed

lemma sample_complete:
  "complete_tree (site_of sum_hash mem_redb sample_objects sample_root sample_changed) capture_options_default (w_fs (ms_world sample_changed)) sample_tree_id"
proof -
  have "check_tree 2 sum_hash sample_objects capture_options_default (w_fs (ms_world sample_changed)) sample_tree_id" by code_simp
  then show ?thesis by (intro check_tree_complete [of 2]) simp
qed

lemma sample_changed_options: "fm_options (ms_fm sample_changed) = capture_options_default"
  by (simp add: sample_changed_def sample_captured_def sample_state_def fm_with_cache_path_def fm_with_options_and_cache_path_def)



definition sample_restored :: "(path \<times> tables) list mat_state" where
  "sample_restored = sample_state\<lparr>ms_world := (ms_world sample_state)\<lparr>w_fs :=
     w_fs (ms_world (snd (materialize_tree sum_hash mem_redb sample_tree_id (working_directory_new sample_root) sample_objects sample_changed)))\<rparr>\<rparr>"


section \<open>A tree with the name of the metadata directory\<close>

text \<open>
  Nothing in \<open>materialize_directory\<close> holds back an entry that has the name of the metadata directory: a stored tree
  with such a blob, which no capture makes but every store accepts, removes the metadata and the store with it.
\<close>

definition sample_hostile :: "(path \<times> tables) list mat_state" where
  "sample_hostile = sample_captured\<lparr>ms_world := (ms_world sample_captured)\<lparr>w_fs :=
     sample_object TreeObject 29 (bstr ''ERA_TREE_V1'' @ [0, 0, 0, 0, 1] @ [98, 0, 0, 0, 4] @ bstr ''.era'' @ replicate 31 0 @ [3]) #
     w_fs (ms_world sample_captured)\<rparr>\<rparr>"

lemma materialize_removes_metadata:
  "(let s' = snd (materialize_tree sum_hash mem_redb (ObjectId (replicate 31 0 @ [29])) (working_directory_new sample_root) sample_objects sample_hostile)
    in map fst (w_fs (ms_world s'))) = [[bstr ''w''], [bstr ''w'', bstr ''l'']]"
  by code_simp

end
