(* ===== verification/Cli_Output.thy ===== *)
theory Cli_Output
  imports Era_Repository
begin

text \<open>
  \<open>crates/cli/src/main.rs\<close>: what the commands print. A printing function is the list of the lines it writes. How a
  terminal shows a style, and the local time of the \<open>chrono\<close> library, are parameters: the record \<open>terminal\<close>.
\<close>

section \<open>Lines, styles and small formats\<close>

datatype out_line = Stdout rstring | Stderr rstring

datatype text_style = StyleSuccess | StyleAccent | StyleTimeline | StyleWarning | StyleError | StyleLabel | StyleSection

record terminal =
  term_paint :: "text_style \<Rightarrow> rstring \<Rightarrow> rstring"
  term_local_time :: "u64 \<Rightarrow> rstring option"

text \<open>The styles by name, and \<open>label_style().bold()\<close>.\<close>

definition success_style :: text_style where "success_style = StyleSuccess"
definition accent_style :: text_style where "accent_style = StyleAccent"
definition timeline_style :: text_style where "timeline_style = StyleTimeline"
definition warning_style :: text_style where "warning_style = StyleWarning"
definition error_style :: text_style where "error_style = StyleError"
definition label_style :: text_style where "label_style = StyleLabel"

definition styled :: "terminal \<Rightarrow> text_style \<Rightarrow> rstring \<Rightarrow> rstring" where
  "styled T style text = term_paint T style text"

definition println :: "rstring \<Rightarrow> out_line list" where
  "println text = [Stdout text]"

definition short_id :: "object_id \<Rightarrow> rstring" where
  "short_id i = take 12 (to_hex i)"

definition pluralize :: "nat \<Rightarrow> rstring \<Rightarrow> rstring \<Rightarrow> rstring" where
  "pluralize n singular plural = decimal n @ bstr '' '' @ (if n = 1 then singular else plural)"

definition format_bytes :: "u64 \<Rightarrow> rstring" where
  "format_bytes n = decimal (unat n) @ bstr '' B''"

definition millis_text :: "u64 \<Rightarrow> rstring" where
  "millis_text t = decimal (unat t) @ bstr '' ms''"

text \<open>A timestamp above \<open>i64::MAX\<close>, or one that is no single local time, is shown as a number.\<close>

definition format_snapshot_time :: "terminal \<Rightarrow> u64 \<Rightarrow> rstring" where
  "format_snapshot_time T t =
    (case (if unat t < 2 ^ 63 then term_local_time T t else None) of
       Some text \<Rightarrow> text
     | None \<Rightarrow> millis_text t)"

text \<open>\<open>{label:<10}\<close>: spaces up to a number of characters.\<close>

definition char_count :: "rstring \<Rightarrow> nat" where
  "char_count s = length (filter (\<lambda>b. \<not> (128 \<le> b \<and> b < 192)) s)"

definition pad_right :: "nat \<Rightarrow> rstring \<Rightarrow> rstring" where
  "pad_right n s = s @ replicate (n - char_count s) 32"

definition print_success_heading :: "terminal \<Rightarrow> rstring \<Rightarrow> out_line list" where
  "print_success_heading T heading = println (styled T success_style [226, 156, 147] @ bstr '' '' @ heading)"

definition print_field :: "terminal \<Rightarrow> rstring \<Rightarrow> rstring \<Rightarrow> out_line list" where
  "print_field T label text = println (bstr ''  '' @ styled T label_style (pad_right 10 label) @ bstr '' '' @ text)"

definition print_section :: "terminal \<Rightarrow> rstring \<Rightarrow> out_line list" where
  "print_section T title = println (styled T StyleSection title)"

definition print_detail :: "terminal \<Rightarrow> rstring \<Rightarrow> rstring \<Rightarrow> out_line list" where
  "print_detail T label text = println (bstr ''  '' @ styled T label_style (pad_right 14 label) @ bstr '' '' @ text)"

definition print_indented_detail :: "terminal \<Rightarrow> rstring \<Rightarrow> rstring \<Rightarrow> out_line list" where
  "print_indented_detail T label text =
     println (bstr ''    '' @ styled T label_style (pad_right 14 label) @ bstr '' '' @ text)"

text \<open>A path relative to the working directory.\<close>

definition display_relative :: "path \<Rightarrow> rstring" where
  "display_relative p = utf8_lossy (drop 1 (concat (map (\<lambda>c. 47 # c) p)))"

section \<open>Snapshots\<close>

definition print_provenance_attributes :: "terminal \<Rightarrow> snapshot \<Rightarrow> out_line list" where
  "print_provenance_attributes T sn = concat (map (\<lambda>(key, v). print_detail T key v) (prov_attributes (snap_provenance sn)))"

definition print_indented_provenance_attributes :: "terminal \<Rightarrow> snapshot \<Rightarrow> out_line list" where
  "print_indented_provenance_attributes T sn =
     concat (map (\<lambda>(key, v). print_indented_detail T key v) (prov_attributes (snap_provenance sn)))"

definition print_capture_stats :: "terminal \<Rightarrow> capture_stats \<Rightarrow> out_line list" where
  "print_capture_stats T stats =
     print_detail T (bstr ''Files'') (decimal (cs_files_seen stats)) @
     print_detail T (bstr ''Directories'') (decimal (cs_directories_seen stats)) @
     print_detail T (bstr ''Bytes'') (decimal (unat (cs_bytes_read stats))) @
     print_detail T (bstr ''Blobs stored'') (decimal (cs_blobs_stored stats)) @
     print_detail T (bstr ''Trees stored'') (decimal (cs_trees_stored stats)) @
     print_detail T (bstr ''Ignored'') (decimal (cs_ignored_entries stats)) @
     print_detail T (bstr ''Symlinks'') (decimal (cs_symlinks_skipped stats)) @
     print_detail T (bstr ''Cache hits'') (decimal (cs_hash_cache_hits stats)) @
     print_detail T (bstr ''Cache misses'') (decimal (cs_hash_cache_misses stats))"

definition print_snapshot_details :: "terminal \<Rightarrow> snapshot_result \<Rightarrow> cursor_info \<Rightarrow> out_line list" where
  "print_snapshot_details T result cursor =
    (let sn = res_snapshot result in
     print_section T (bstr ''Details'') @
     print_detail T (bstr ''Full snapshot'') (to_hex (res_snapshot_id result)) @
     print_detail T (bstr ''Root tree'') (to_hex (snap_root sn)) @
     print_detail T (cursor_kind cursor) (cursor_name cursor) @
     print_detail T (bstr ''Timestamp'') (millis_text (snap_timestamp sn)) @
     print_detail T (bstr ''Parents'') (decimal (length (snap_parents sn))) @
     print_detail T (bstr ''Source'') (prov_source (snap_provenance sn)) @
     print_provenance_attributes T sn @
     (case snap_author sn of Some author \<Rightarrow> print_detail T (bstr ''Author'') author | None \<Rightarrow> []) @
     print_capture_stats T (cr_stats (res_capture result)))"

definition capture_summary :: "capture_stats \<Rightarrow> rstring" where
  "capture_summary stats =
     pluralize (cs_files_seen stats) (bstr ''file'') (bstr ''files'') @ bstr '', '' @
     pluralize (cs_directories_seen stats) (bstr ''directory'') (bstr ''directories'') @ bstr '', '' @
     format_bytes (cs_bytes_read stats)"

definition message_field :: "terminal \<Rightarrow> snapshot \<Rightarrow> out_line list" where
  "message_field T sn = (case snap_message sn of Some message \<Rightarrow> print_field T (bstr ''Message'') message | None \<Rightarrow> [])"

definition snapshot_field :: "terminal \<Rightarrow> object_id \<Rightarrow> out_line list" where
  "snapshot_field T i = print_field T (bstr ''Snapshot'') (styled T accent_style (short_id i))"

definition print_snapshot_result :: "terminal \<Rightarrow> rstring \<Rightarrow> snapshot_result \<Rightarrow> cursor_info \<Rightarrow> bool \<Rightarrow> out_line list" where
  "print_snapshot_result T heading result cursor verbose =
     print_success_heading T heading @
     snapshot_field T (res_snapshot_id result) @
     message_field T (res_snapshot result) @
     print_field T (bstr ''Captured'') (capture_summary (cr_stats (res_capture result))) @
     (if verbose then println [] @ print_snapshot_details T result cursor else [])"

definition print_init_result :: "terminal \<Rightarrow> init_result \<Rightarrow> branch_name \<Rightarrow> bool \<Rightarrow> out_line list" where
  "print_init_result T result branch verbose =
     println (styled T success_style (bstr ''Initialized Era repository in '' @
       display_path (repo_metadata_dir (init_repository result)))) @
     (if verbose then println [] @ print_snapshot_details T (init_snapshot result) (InfoBranch branch) else [])"

definition print_scan_warnings :: "terminal \<Rightarrow> capture_issue list \<Rightarrow> out_line list" where
  "print_scan_warnings T issues =
     map (\<lambda>issue. Stderr (styled T warning_style (bstr ''warning:'') @ bstr '' '' @
       (case ci_kind issue of SkippedSymlink \<Rightarrow> bstr ''skipped symlink'') @ bstr '': '' @
       display_relative (ci_path issue))) issues"

definition print_capture_warnings :: "terminal \<Rightarrow> snapshot_result \<Rightarrow> out_line list" where
  "print_capture_warnings T result = print_scan_warnings T (cr_issues (res_capture result))"

definition print_optional_saved_warnings :: "terminal \<Rightarrow> snapshot_result option \<Rightarrow> out_line list" where
  "print_optional_saved_warnings T saved = (case saved of Some r \<Rightarrow> print_capture_warnings T r | None \<Rightarrow> [])"

definition print_optional_saved_snapshot :: "terminal \<Rightarrow> snapshot_result option \<Rightarrow> out_line list" where
  "print_optional_saved_snapshot T saved =
    (case saved of
       Some r \<Rightarrow>
         println [] @
         print_section T (bstr ''Saved current work'') @
         print_detail T (bstr ''Snapshot'') (to_hex (res_snapshot_id r)) @
         print_detail T (bstr ''Root tree'') (to_hex (snap_root (res_snapshot r))) @
         print_detail T (bstr ''Source'') (prov_source (snap_provenance (res_snapshot r))) @
         print_provenance_attributes T (res_snapshot r)
     | None \<Rightarrow> [])"

definition print_watch_snapshot_result :: "terminal \<Rightarrow> snapshot_result option \<Rightarrow> bool \<Rightarrow> bool \<Rightarrow> out_line list" where
  "print_watch_snapshot_result T result verbose print_no_changes =
    (case result of
       Some r \<Rightarrow>
         (let sn = res_snapshot r in
          println (bstr ''Saved auto snapshot '' @ styled T accent_style (short_id (res_snapshot_id r))) @
          (if verbose then
             println [] @
             print_section T (bstr ''Details'') @
             print_detail T (bstr ''Full snapshot'') (to_hex (res_snapshot_id r)) @
             print_detail T (bstr ''Root tree'') (to_hex (snap_root sn)) @
             print_detail T (bstr ''Timestamp'') (millis_text (snap_timestamp sn)) @
             print_detail T (bstr ''Parents'') (decimal (length (snap_parents sn))) @
             print_detail T (bstr ''Source'') (prov_source (snap_provenance sn)) @
             print_provenance_attributes T sn @
             print_capture_stats T (cr_stats (res_capture r))
           else []) @
          print_capture_warnings T r)
     | None \<Rightarrow> if print_no_changes \<or> verbose then println (bstr ''No changes'') else [])"

section \<open>Status\<close>

definition change_marker :: "tree_change_kind \<Rightarrow> rstring" where
  "change_marker kind = bstr (case kind of
     ChangeAdded \<Rightarrow> ''A'' | ChangeModified \<Rightarrow> ''M'' | ChangeDeleted \<Rightarrow> ''D'' | ChangeTypeChanged \<Rightarrow> ''T'')"

definition change_style :: "tree_change_kind \<Rightarrow> text_style" where
  "change_style kind = (case kind of
     ChangeAdded \<Rightarrow> success_style | ChangeModified \<Rightarrow> warning_style | ChangeDeleted \<Rightarrow> error_style
   | ChangeTypeChanged \<Rightarrow> timeline_style)"

definition print_status_changes :: "terminal \<Rightarrow> tree_change list \<Rightarrow> out_line list" where
  "print_status_changes T changes =
    (if changes = [] then []
     else println [] @ print_section T (bstr ''Changes'') @
       concat (map (\<lambda>c. println (bstr ''  '' @ styled T (change_style (tc_kind c)) (change_marker (tc_kind c)) @ bstr '' '' @
         display_relative (tc_path c))) changes))"

definition print_scan_stats :: "terminal \<Rightarrow> tree_scan_stats \<Rightarrow> out_line list" where
  "print_scan_stats T stats =
     print_detail T (bstr ''Files'') (decimal (ts_files_seen stats)) @
     print_detail T (bstr ''Directories'') (decimal (ts_directories_seen stats)) @
     print_detail T (bstr ''Bytes'') (decimal (unat (ts_bytes_read stats))) @
     print_detail T (bstr ''Ignored'') (decimal (ts_ignored_entries stats)) @
     print_detail T (bstr ''Symlinks'') (decimal (ts_symlinks_skipped stats)) @
     print_detail T (bstr ''Cache hits'') (decimal (ts_hash_cache_hits stats)) @
     print_detail T (bstr ''Cache misses'') (decimal (ts_hash_cache_misses stats))"

definition print_status_details :: "terminal \<Rightarrow> repository \<Rightarrow> cursor_info \<Rightarrow> working_tree_status \<Rightarrow> path \<Rightarrow> out_line list" where
  "print_status_details T repo cursor status cursor_ref =
    (let sn = wts_snapshot status in
     println [] @
     print_section T (bstr ''Details'') @
     print_detail T (bstr ''Root'') (display_path (repo_root repo)) @
     print_detail T (bstr ''Metadata'') (display_path (repo_metadata_dir repo)) @
     print_detail T (bstr ''Objects'') (display_path (store_root (repo_store repo))) @
     print_detail T (bstr ''HEAD'') (display_path (head_path (repo_metadata_dir repo))) @
     print_detail T (bstr (case cursor of InfoBranch _ \<Rightarrow> ''Branch ref'' | InfoWorkspace _ \<Rightarrow> ''Cursor ref''))
       (display_path cursor_ref) @
     print_detail T (bstr ''Full snapshot'') (to_hex (wts_snapshot_id status)) @
     print_detail T (bstr ''Root tree'') (to_hex (snap_root sn)) @
     print_detail T (bstr ''Current tree'') (to_hex (wts_current_root_tree_id status)) @
     print_detail T (bstr ''Timestamp'') (millis_text (snap_timestamp sn)) @
     print_detail T (bstr ''Parents'') (decimal (length (snap_parents sn))) @
     print_detail T (bstr ''Source'') (prov_source (snap_provenance sn)) @
     print_provenance_attributes T sn @
     (case snap_author sn of Some author \<Rightarrow> print_detail T (bstr ''Author'') author | None \<Rightarrow> []) @
     print_scan_stats T (tcr_stats (wts_comparison status)))"

definition print_status ::
  "terminal \<Rightarrow> repository \<Rightarrow> cursor_info \<Rightarrow> working_tree_status \<Rightarrow> nat \<Rightarrow> bool \<Rightarrow> path \<Rightarrow> out_line list" where
  "print_status T repo cursor status timeline_len verbose cursor_ref =
     print_success_heading T (bstr ''Repository status'') @
     print_field T (cursor_kind cursor) (cursor_name cursor) @
     snapshot_field T (wts_snapshot_id status) @
     print_field T (bstr ''Timeline'') (pluralize timeline_len (bstr ''snapshot'') (bstr ''snapshots'')) @
     print_field T (bstr ''Working'')
       (bstr (if wts_clean status then ''no changes'' else ''changes detected; run `era snap` to save'')) @
     message_field T (wts_snapshot status) @
     print_status_changes T (tcr_changes (wts_comparison status)) @
     (if verbose then print_status_details T repo cursor status cursor_ref else [])"

section \<open>Branches, workspaces and checkouts\<close>

definition print_materialize_details :: "terminal \<Rightarrow> materialize_result \<Rightarrow> out_line list" where
  "print_materialize_details T result =
    (let stats = mz_stats result in
     println [] @
     print_section T (bstr ''Materialized'') @
     print_detail T (bstr ''Files written'') (decimal (mt_files_written stats)) @
     print_detail T (bstr ''Dirs created'') (decimal (mt_directories_created stats)) @
     print_detail T (bstr ''Entries removed'') (decimal (mt_entries_removed stats)) @
     print_detail T (bstr ''Bytes written'') (decimal (unat (mt_bytes_written stats))))"

definition print_branch_created :: "terminal \<Rightarrow> branch_operation_result \<Rightarrow> bool \<Rightarrow> out_line list" where
  "print_branch_created T result verbose =
     print_success_heading T (bstr ''Created branch'') @
     print_field T (bstr ''Branch'') (branch_str (bor_branch result)) @
     snapshot_field T (bor_snapshot_id result) @
     (if verbose then print_optional_saved_snapshot T (bor_saved_snapshot result) else [])"

definition print_branches :: "terminal \<Rightarrow> branch_head list \<Rightarrow> bool \<Rightarrow> out_line list" where
  "print_branches T branches verbose =
     println (bstr ''Branches'') @
     concat (map (\<lambda>b.
       println (bstr (if bh_is_current b then ''*'' else '' '') @ bstr '' '' @
         (if bh_is_current b then styled T accent_style (branch_str (bh_name b)) else branch_str (bh_name b)) @ bstr '' '' @
         styled T accent_style (short_id (bh_snapshot_id b))) @
       (if verbose then print_indented_detail T (bstr ''Full snapshot'') (to_hex (bh_snapshot_id b)) else [])) branches)"

definition print_workspace_add_result :: "terminal \<Rightarrow> workspace_add_result \<Rightarrow> bool \<Rightarrow> out_line list" where
  "print_workspace_add_result T result verbose =
     print_success_heading T (bstr (if war_created result then ''Added workspace'' else ''Workspace already connected'')) @
     print_field T (bstr ''Workspace'') (workspace_str (war_workspace_id result)) @
     print_field T (bstr ''Path'') (display_path (war_path result)) @
     snapshot_field T (war_snapshot_id result) @
     print_field T (bstr ''Files'') (bstr (if war_materialized result then ''materialized'' else ''adopted'')) @
     (case war_materialization result of
        Some m \<Rightarrow> if verbose then print_materialize_details T m else []
      | None \<Rightarrow> [])"

definition print_workspaces :: "terminal \<Rightarrow> workspace_head list \<Rightarrow> bool \<Rightarrow> out_line list" where
  "print_workspaces T workspaces verbose =
     println (bstr ''Workspaces'') @
     concat (map (\<lambda>h.
       println (bstr (if wh_is_current h then ''*'' else '' '') @ bstr '' '' @
         (if wh_is_current h then styled T accent_style (workspace_str (wh_id h)) else workspace_str (wh_id h)) @ bstr '' '' @
         styled T accent_style (short_id (wh_snapshot_id h)) @ bstr '' '' @
         (case wh_path h of Some p \<Rightarrow> display_path p | None \<Rightarrow> bstr ''<unknown>'')) @
       (if verbose then print_indented_detail T (bstr ''Full snapshot'') (to_hex (wh_snapshot_id h)) else [])) workspaces)"

definition print_switch_result :: "terminal \<Rightarrow> switch_result \<Rightarrow> bool \<Rightarrow> out_line list" where
  "print_switch_result T result verbose =
     print_success_heading T (bstr ''Switched branch'') @
     print_field T (bstr ''Branch'') (branch_str (sw_branch result)) @
     snapshot_field T (sw_snapshot_id result) @
     message_field T (sw_snapshot result) @
     (if verbose
      then print_materialize_details T (sw_materialization result) @ print_optional_saved_snapshot T (sw_saved_snapshot result)
      else [])"

definition cursor_summary :: "cursor_info \<Rightarrow> object_id \<Rightarrow> rstring" where
  "cursor_summary cursor i =
     bstr (case cursor of InfoBranch _ \<Rightarrow> ''branch'' | InfoWorkspace _ \<Rightarrow> ''workspace'') @ bstr '' '' @
     cursor_name cursor @ bstr '' @ '' @ short_id i"

definition print_restore_result :: "terminal \<Rightarrow> restore_result \<Rightarrow> bool \<Rightarrow> out_line list" where
  "print_restore_result T result verbose =
     print_success_heading T (bstr ''Restored snapshot'') @
     snapshot_field T (rst_snapshot_id result) @
     print_field T (bstr ''Cursor'') (cursor_summary (rst_cursor result) (rst_snapshot_id result)) @
     message_field T (rst_snapshot result) @
     (if verbose
      then print_materialize_details T (rst_materialization result) @ print_optional_saved_snapshot T (rst_saved_snapshot result)
      else [])"

end
