(* ===== verification/Forest.thy ===== *)
theory Forest
  imports Main
begin

text \<open>
  Forests: the interface between the graph of snapshots and the functions that walk it. Every node has at most one
  parent, so what can be reached from the nodes without a parent is a set of trees, whatever the rest is; a walk
  down from them ends, meets every node once, and misses only nodes above which there is a cycle.
\<close>

fun preorder :: "('a \<Rightarrow> 'a list) \<Rightarrow> nat \<Rightarrow> 'a \<Rightarrow> 'a list" where
  "preorder kids 0 x = []"
| "preorder kids (Suc n) x = x # concat (map (preorder kids n) (kids x))"

inductive at_depth :: "('a \<Rightarrow> 'a option) \<Rightarrow> 'a set \<Rightarrow> 'a \<Rightarrow> nat \<Rightarrow> bool" for par nodes where
  root: "x \<in> nodes \<Longrightarrow> par x = None \<Longrightarrow> at_depth par nodes x 0"
| below: "x \<in> nodes \<Longrightarrow> par x = Some p \<Longrightarrow> at_depth par nodes p d \<Longrightarrow> at_depth par nodes x (Suc d)"

lemma at_depth_node: "at_depth par nodes x d \<Longrightarrow> x \<in> nodes"
  by (induction rule: at_depth.induct) auto

lemma at_depth_unique: "at_depth par nodes x d \<Longrightarrow> at_depth par nodes x e \<Longrightarrow> d = e"
proof (induction arbitrary: e rule: at_depth.induct)
  case (below x p d)
  from below.prems below.hyps(2) obtain e' where "e = Suc e'" "at_depth par nodes p e'" by (auto elim: at_depth.cases)
  then show ?case using below.IH by simp
qed (auto elim: at_depth.cases)

text \<open>A node at a depth has that many different nodes above it.\<close>

lemma at_depth_path:
  "at_depth par nodes x d \<Longrightarrow> \<exists>ys. length ys = Suc d \<and> distinct ys \<and> set ys \<subseteq> nodes \<and> (\<forall>y \<in> set ys. \<exists>e \<le> d. at_depth par nodes y e)"
proof (induction rule: at_depth.induct)
  case (root x)
  then show ?case by (intro exI [of _ "[x]"]) (auto intro: at_depth.root)
next
  case (below x p d)
  then obtain ys where ys: "length ys = Suc d" "distinct ys" "set ys \<subseteq> nodes" "\<forall>y \<in> set ys. \<exists>e \<le> d. at_depth par nodes y e" by blast
  have x: "at_depth par nodes x (Suc d)" by (rule at_depth.below [OF below.hyps(1-3)])
  then have "x \<notin> set ys" using ys(4) at_depth_unique [OF x] by fastforce
  moreover have "\<forall>y \<in> set (x # ys). \<exists>e \<le> Suc d. at_depth par nodes y e" 
  proof
    fix y
    assume "y \<in> set (x # ys)"
    then show "\<exists>e \<le> Suc d. at_depth par nodes y e"
    proof (cases "y = x")
      case False
      with \<open>y \<in> set (x # ys)\<close> obtain e where "e \<le> d" "at_depth par nodes y e" using ys(4) by auto
      then show ?thesis using le_SucI by blast
    qed (use x in blast)
  qed
  ultimately show ?case using ys(1-3) below.hyps(1) by (intro exI [of _ "x # ys"]) simp
qed

lemma at_depth_bound:
  assumes "finite nodes" "at_depth par nodes x d"
  shows "d < card nodes"
proof -
  obtain ys where ys: "length ys = Suc d" "distinct ys" "set ys \<subseteq> nodes" using at_depth_path [OF assms(2)] by blast
  have "Suc d = card (set ys)" using ys(1) distinct_card [OF ys(2)] by simp
  also have "\<dots> \<le> card nodes" by (rule card_mono [OF assms(1) ys(3)])
  finally show ?thesis by simp
qed

text \<open>Where the parent relation has no cycle every node has a depth.\<close>

lemma at_depth_total:
  assumes "finite nodes" "acyclic {(x, p). x \<in> nodes \<and> par x = Some p}" "\<And>x p. x \<in> nodes \<Longrightarrow> par x = Some p \<Longrightarrow> p \<in> nodes"
    and "x \<in> nodes"
  shows "\<exists>d. at_depth par nodes x d"
proof -
  let ?r = "{(x, p). x \<in> nodes \<and> par x = Some p}"
  have "?r \<subseteq> nodes \<times> nodes" using assms(3) by auto
  then have "finite ?r" by (rule finite_subset) (simp add: assms(1))
  then have "wf (?r\<inverse>)" by (intro finite_acyclic_wf) (simp_all add: assms(2) finite_converse)
  then show ?thesis using assms(4)
  proof (induction x rule: wf_induct_rule)
    case (less x)
    show ?case
    proof (cases "par x")
      case None
      then show ?thesis using less.prems by (blast intro: at_depth.root)
    next
      case (Some p)
      then have "p \<in> nodes" using assms(3) less.prems by blast
      then have "\<exists>d. at_depth par nodes p d" using less Some by simp
      then show ?thesis using less.prems Some by (blast intro: at_depth.below)
    qed
  qed
qed

locale forest =
  fixes nodes :: "'a set" and par :: "'a \<Rightarrow> 'a option" and kids :: "'a \<Rightarrow> 'a list" and roots :: "'a list"
  assumes finite_nodes: "finite nodes"
    and set_kids: "set (kids p) = {x \<in> nodes. par x = Some p}"
    and distinct_kids: "distinct (kids p)"
    and set_roots: "set roots = {x \<in> nodes. par x = None}"
    and distinct_roots: "distinct roots"
begin

lemma kid_depth: "c \<in> set (kids p) \<Longrightarrow> at_depth par nodes p d \<Longrightarrow> at_depth par nodes c (Suc d)"
  by (auto simp: set_kids intro: at_depth.below)

lemma root_depth: "x \<in> set roots \<Longrightarrow> at_depth par nodes x 0"
  by (auto simp: set_roots intro: at_depth.root)

text \<open>\<open>below k x y\<close>: \<open>y\<close> is \<open>k\<close> levels below \<open>x\<close>.\<close>

primrec under :: "nat \<Rightarrow> 'a \<Rightarrow> 'a \<Rightarrow> bool" where
  "under 0 x y \<longleftrightarrow> x = y"
| "under (Suc k) x y \<longleftrightarrow> (\<exists>c \<in> set (kids x). under k c y)"

lemma under_depth: "under k x y \<Longrightarrow> at_depth par nodes x d \<Longrightarrow> at_depth par nodes y (d + k)"
proof (induction k arbitrary: x d)
  case (Suc k)
  then obtain c where c: "c \<in> set (kids x)" "under k c y" by auto
  show ?case using Suc.IH [OF c(2) kid_depth [OF c(1) Suc.prems(2)]] by simp
qed simp

lemma under_par: "under (Suc k) x y \<Longrightarrow> \<exists>p. par y = Some p \<and> under k x p"
proof (induction k arbitrary: x)
  case (Suc k)
  then obtain c where c: "c \<in> set (kids x)" "under (Suc k) c y" by (auto simp del: under.simps simp: under.simps(2) [of "Suc k"])
  then obtain p where "par y = Some p" "under k c p" using Suc.IH by blast
  then show ?case using c(1) by auto
qed (auto simp: set_kids)

lemma under_unique: "under k x y \<Longrightarrow> under k z y \<Longrightarrow> x = z"
proof (induction k arbitrary: x z y)
  case (Suc k)
  obtain p q where "par y = Some p" "under k x p" "par y = Some q" "under k z q"
    using under_par [OF Suc.prems(1)] under_par [OF Suc.prems(2)] by blast
  then show ?case using Suc.IH by simp
qed simp

lemma under_step: "under k x y \<Longrightarrow> c \<in> set (kids y) \<Longrightarrow> under (Suc k) x c"
proof (induction k arbitrary: x)
  case (Suc k)
  then obtain a where "a \<in> set (kids x)" "under k a y" by auto
  then show ?case using Suc.IH Suc.prems(2) under.simps(2) by blast
qed simp

lemma preorder_under: "y \<in> set (preorder kids n x) \<longleftrightarrow> (\<exists>k < n. under k x y)"
proof (induction n arbitrary: x)
  case (Suc n)
  have "y \<in> set (preorder kids (Suc n) x) \<longleftrightarrow> y = x \<or> (\<exists>c \<in> set (kids x). \<exists>k < n. under k c y)" using Suc by auto
  also have "\<dots> \<longleftrightarrow> (\<exists>k < Suc n. under k x y)"
    unfolding Ex_less_Suc2 by (simp add: Bex_def) blast
  finally show ?case .
qed simp

text \<open>Nodes at one depth have disjoint trees.\<close>

lemma disjoint_trees:
  assumes "at_depth par nodes x d" "at_depth par nodes z d" "x \<noteq> z"
  shows "set (preorder kids n x) \<inter> set (preorder kids n z) = {}"
proof -
  have False if "under k x y" "under m z y" for k m y
    using at_depth_unique [OF under_depth [OF that(1) assms(1)] under_depth [OF that(2) assms(2)]] under_unique that assms(3) by auto
  then show ?thesis by (auto simp: preorder_under)
qed

lemma distinct_trees:
  assumes "distinct xs" "\<And>x. x \<in> set xs \<Longrightarrow> at_depth par nodes x d" "\<And>x. x \<in> set xs \<Longrightarrow> distinct (preorder kids n x)"
  shows "distinct (concat (map (preorder kids n) xs))"
  using assms by (induction xs) (auto dest: disjoint_trees)

lemma distinct_preorder: "at_depth par nodes x d \<Longrightarrow> distinct (preorder kids n x)"
proof (induction n arbitrary: x d)
  case (Suc n)
  have kids: "distinct (concat (map (preorder kids n) (kids x)))"
    by (rule distinct_trees [OF distinct_kids kid_depth [OF _ Suc.prems]]) (auto intro: Suc.IH kid_depth [OF _ Suc.prems])
  have "\<not> under k c x" if "c \<in> set (kids x)" for c k
    using at_depth_unique [OF Suc.prems, of "Suc d + k"] under_depth kid_depth [OF that Suc.prems] by fastforce
  then show ?case using kids by (auto simp: preorder_under)
qed simp

text \<open>The walk from all roots.\<close>

definition walk_all :: "'a list" where
  "walk_all = concat (map (preorder kids (card nodes)) roots)"

lemma distinct_walk_all: "distinct walk_all"
  unfolding walk_all_def
  by (rule distinct_trees [OF distinct_roots root_depth]) (auto intro: distinct_preorder root_depth)

lemma reached: "at_depth par nodes x d \<Longrightarrow> \<exists>r \<in> set roots. under d r x"
proof (induction rule: at_depth.induct)
  case (below x p d)
  then obtain r where "r \<in> set roots" "under d r p" by blast
  moreover have "x \<in> set (kids p)" using below.hyps by (simp add: set_kids)
  ultimately show ?case using under_step by blast
qed (simp add: set_roots)

lemma set_walk_all: "set walk_all = {x. \<exists>d. at_depth par nodes x d}"
proof (intro equalityI subsetI)
  fix x
  assume "x \<in> set walk_all"
  then obtain r k where "r \<in> set roots" "under k r x" by (auto simp: walk_all_def preorder_under)
  then show "x \<in> {x. \<exists>d. at_depth par nodes x d}" using under_depth [OF _ root_depth] by auto
next
  fix x
  assume "x \<in> {x. \<exists>d. at_depth par nodes x d}"
  then obtain d where d: "at_depth par nodes x d" by blast
  then show "x \<in> set walk_all"
    using reached [OF d] at_depth_bound [OF finite_nodes d] by (auto simp: walk_all_def preorder_under)
qed

text \<open>More fuel changes nothing.\<close>

lemma preorder_fuel: "at_depth par nodes x d \<Longrightarrow> card nodes \<le> d + n \<Longrightarrow> preorder kids (Suc n) x = preorder kids n x"
proof (induction n arbitrary: x d)
  case 0
  then show ?case using at_depth_bound [OF finite_nodes 0(1)] by simp
next
  case (Suc n)
  have "preorder kids (Suc n) c = preorder kids n c" if "c \<in> set (kids x)" for c
    by (rule Suc.IH [OF kid_depth [OF that Suc.prems(1)]]) (use Suc.prems(2) in simp)
  then show ?case by (simp cong: map_cong)
qed

lemma tree_unfold:
  "at_depth par nodes x d \<Longrightarrow>
     preorder kids (card nodes) x = x # concat (map (preorder kids (card nodes)) (kids x))"
  using preorder_fuel [of x d "card nodes"] by simp

end

end
