(* ===== verification/Timeline_Rendering.thy ===== *)
theory Timeline_Rendering
  imports Cli_Timeline
begin

text \<open>
  The snapshot tree loses no snapshot. The maps of the renderer are the forest of first parents (an instance of the
  locale of \<open>Forest\<close>), the rows list its preorder, and only automatic snapshots that nothing refers to share a row.
\<close>

section \<open>The maps of the renderer\<close>

definition strict_map :: "('k :: linorder \<times> 'v) list \<Rightarrow> bool" where
  "strict_map m \<longleftrightarrow> sorted_wrt (<) (map fst m)"

lemma strict_map_insert [simp]: "strict_map m \<Longrightarrow> strict_map (btree_insert k v m)"
  by (simp add: strict_map_def btree_insert_sorted)

lemma strict_map_lookup [simp]: "strict_map m \<Longrightarrow> map_of (btree_insert k v m) = (map_of m)(k \<mapsto> v)"
  by (simp add: strict_map_def btree_insert_lookup)

lemma strict_map_keys: "strict_map m \<Longrightarrow> distinct (map fst m)"
  by (simp add: strict_map_def strict_sorted_iff)

abbreviation entry_ids :: "timeline_entry list \<Rightarrow> object_id list" where
  "entry_ids es \<equiv> map te_snapshot_id es"

lemma entry_map_snoc: "entry_map (es @ [e]) = btree_insert (te_snapshot_id e) e (entry_map es)"
  by (simp add: entry_map_def)

lemma strict_entry_map [simp]: "strict_map (entry_map es)"
  by (induction es rule: rev_induct) (simp_all add: entry_map_snoc, simp add: entry_map_def strict_map_def)

lemma entry_map_at:
  "distinct (entry_ids es) \<Longrightarrow> map_of (entry_map es) i = Some e \<longleftrightarrow> e \<in> set es \<and> te_snapshot_id e = i"
proof (induction es rule: rev_induct)
  case (snoc x es)
  then have "te_snapshot_id x \<noteq> i" if "e \<in> set es" "te_snapshot_id e = i" using that by auto
  with snoc show ?case by (auto simp: entry_map_snoc)
qed (simp add: entry_map_def)

lemma entry_map_keys: "fst ` set (entry_map es) = set (entry_ids es)"
  by (induction es rule: rev_induct) (simp_all add: entry_map_snoc btree_insert_keys, simp add: entry_map_def)

lemma entry_map_none: "map_of (entry_map es) i = None \<longleftrightarrow> i \<notin> set (entry_ids es)"
  using entry_map_keys [of es] by (auto simp: map_of_eq_None_iff)

lemma entry_map_length: "distinct (entry_ids es) \<Longrightarrow> length (entry_map es) = length es"
  using strict_map_keys [OF strict_entry_map, of es] entry_map_keys [of es]
  by (metis distinct_card length_map set_map)

text \<open>The first parent of an entry, where the graph has it.\<close>

definition linked_parent :: "(object_id \<times> timeline_entry) list \<Rightarrow> timeline_entry \<Rightarrow> object_id option" where
  "linked_parent entries e =
    (case snap_parents (te_snapshot e) of
       [] \<Rightarrow> None
     | p # _ \<Rightarrow> if map_of entries p = None then None else Some p)"

lemma link_entries_snoc: "link_entries entries (es @ [e]) = link_entry entries e (link_entries entries es)"
  by (simp add: link_entries_def)

lemma link_entry_at:
  "link_entry entries e (ch, hp) =
    (case linked_parent entries e of
       None \<Rightarrow> (ch, hp)
     | Some p \<Rightarrow> (btree_push p (te_snapshot_id e) ch, List.insert (te_snapshot_id e) hp))"
  by (auto simp: link_entry_def linked_parent_def split: list.splits)

lemma link_entries_map:
  "link_entries entries es = (ch, hp) \<Longrightarrow>
     strict_map ch \<and>
     map_of ch p = (case entry_ids (filter (\<lambda>e. linked_parent entries e = Some p) es) of [] \<Rightarrow> None | is \<Rightarrow> Some is) \<and>
     set hp = {te_snapshot_id e | e. e \<in> set es \<and> linked_parent entries e \<noteq> None}"
proof (induction es arbitrary: ch hp p rule: rev_induct)
  case Nil
  then show ?case by (simp add: link_entries_def strict_map_def)
next
  case (snoc e es)
  obtain ch0 hp0 where l: "link_entries entries es = (ch0, hp0)" by fastforce
  note IH = snoc.IH [OF l]
  show ?case
  proof (cases "linked_parent entries e")
    case None
    then have "ch = ch0" "hp = hp0" using snoc.prems l by (simp_all add: link_entries_snoc link_entry_at)
    then show ?thesis using IH [of p] None by auto
  next
    case (Some q)
    then have "ch = btree_push q (te_snapshot_id e) ch0" "hp = List.insert (te_snapshot_id e) hp0"
      using snoc.prems l by (simp_all add: link_entries_snoc link_entry_at)
    then show ?thesis using IH [of p] IH [of q] Some
      by (auto simp: btree_push_def split: list.splits)
  qed
qed

lemma sort_by_entry_ok:
  assumes "set ids \<subseteq> set (entry_ids es)"
  shows "\<exists>ids'. sort_by_entry (entry_map es) ids = Some ids' \<and> set ids' = set ids \<and> length ids' = length ids \<and>
    (distinct ids \<longrightarrow> distinct ids') \<and> ids' = sort_key (\<lambda>i. entry_key (the (map_of (entry_map es) i))) ids"
proof -
  have "list_all (\<lambda>i. map_of (entry_map es) i \<noteq> None) ids"
    using assms by (auto simp: list_all_iff entry_map_none simp del: not_None_eq)
  then show ?thesis by (simp add: sort_by_entry_def)
qed

lemma sort_values_ok:
  assumes "\<forall>(k, ids) \<in> set m. set ids \<subseteq> set (entry_ids es)"
  shows "\<exists>m'. sort_values (entry_map es) m = Some m' \<and>
    map_of m' p = map_option (sort_key (\<lambda>i. entry_key (the (map_of (entry_map es) i)))) (map_of m p)"
  using assms
proof (induction m)
  case (Cons x m)
  obtain k ids where x: "x = (k, ids)" by fastforce
  then have "set ids \<subseteq> set (entry_ids es)" using Cons.prems by fastforce
  moreover have "\<exists>m'. sort_values (entry_map es) m = Some m' \<and>
    map_of m' p = map_option (sort_key (\<lambda>i. entry_key (the (map_of (entry_map es) i)))) (map_of m p)"
    using Cons by fastforce
  ultimately show ?case using sort_by_entry_ok [of ids es] x by auto
qed simp

section \<open>The forest of first parents\<close>

text \<open>The lists of entries whose identifiers differ; the index gives only those.\<close>

definition separate :: "timeline_entry list \<Rightarrow> timeline_entry list" where
  "separate es = (if distinct (entry_ids es) then es else [])"

lemma distinct_separate: "distinct (entry_ids (separate es))"
  by (simp add: separate_def)

definition tl_parent :: "timeline_entry list \<Rightarrow> object_id \<Rightarrow> object_id option" where
  "tl_parent es i = Option.bind (map_of (entry_map es) i) (linked_parent (entry_map es))"

definition tl_children :: "timeline_entry list \<Rightarrow> (object_id \<times> object_id list) list" where
  "tl_children es = the (sort_values (entry_map es) (fst (link_entries (entry_map es) es)))"

definition tl_kids :: "timeline_entry list \<Rightarrow> object_id \<Rightarrow> object_id list" where
  "tl_kids es p = (case map_of (tl_children es) p of Some is \<Rightarrow> is | None \<Rightarrow> [])"

definition tl_roots :: "timeline_entry list \<Rightarrow> object_id list" where
  "tl_roots es = the (sort_by_entry (entry_map es)
     (filter (\<lambda>i. i \<notin> set (snd (link_entries (entry_map es) es))) (map fst (entry_map es))))"

lemma linked_children:
  assumes "link_entries (entry_map es) es = (ch, hp)" "(k, ids) \<in> set ch"
  shows "ids = entry_ids (filter (\<lambda>e. linked_parent (entry_map es) e = Some k) es)"
proof -
  have "map_of ch k = Some ids"
    using assms(2) link_entries_map [OF assms(1), of k] strict_map_keys by (blast intro: map_of_is_SomeI)
  then show ?thesis using link_entries_map [OF assms(1), of k] by (auto split: list.splits)
qed

lemma tl_children_ok:
  "sort_values (entry_map es) (fst (link_entries (entry_map es) es)) = Some (tl_children es) \<and>
   map_of (tl_children es) p =
     map_option (sort_key (\<lambda>i. entry_key (the (map_of (entry_map es) i)))) (map_of (fst (link_entries (entry_map es) es)) p)"
proof -
  obtain ch hp where l: "link_entries (entry_map es) es = (ch, hp)" by fastforce
  have "\<forall>(k, ids) \<in> set ch. set ids \<subseteq> set (entry_ids es)"
  proof clarify
    fix k ids i
    assume "(k, ids) \<in> set ch" "i \<in> set ids"
    then show "i \<in> set (entry_ids es)" using linked_children [OF l \<open>(k, ids) \<in> set ch\<close>] by auto
  qed
  from sort_values_ok [OF this, of p] l show ?thesis by (auto simp: tl_children_def)
qed

lemma tl_kids_sorted:
  "tl_kids es p =
     sort_key (\<lambda>i. entry_key (the (map_of (entry_map es) i)))
       (entry_ids (filter (\<lambda>e. linked_parent (entry_map es) e = Some p) es))"
proof -
  obtain ch hp where l: "link_entries (entry_map es) es = (ch, hp)" by fastforce
  show ?thesis using link_entries_map [OF l, of p] conjunct2 [OF tl_children_ok [of es p]] l
    by (auto simp: tl_kids_def split: list.splits)
qed

lemma tl_roots_ok:
  "sort_by_entry (entry_map es) (filter (\<lambda>i. i \<notin> set (snd (link_entries (entry_map es) es))) (map fst (entry_map es)))
     = Some (tl_roots es)"
  "set (tl_roots es) = {i \<in> set (entry_ids es). i \<notin> set (snd (link_entries (entry_map es) es))}"
  "distinct (tl_roots es)"
proof -
  let ?ids = "filter (\<lambda>i. i \<notin> set (snd (link_entries (entry_map es) es))) (map fst (entry_map es))"
  have keys: "set (map fst (entry_map es)) = set (entry_ids es)" using entry_map_keys [of es] by simp
  then have "set ?ids \<subseteq> set (entry_ids es)" by auto
  from sort_by_entry_ok [OF this] strict_map_keys [OF strict_entry_map, of es]
  have *: "sort_by_entry (entry_map es) ?ids = Some (tl_roots es) \<and> set (tl_roots es) = set ?ids \<and> distinct (tl_roots es)"
    by (auto simp: tl_roots_def)
  then show "sort_by_entry (entry_map es) ?ids = Some (tl_roots es)" "distinct (tl_roots es)" by simp_all
  show "set (tl_roots es) = {i \<in> set (entry_ids es). i \<notin> set (snd (link_entries (entry_map es) es))}"
    using * keys by auto
qed

text \<open>The renderer is these maps; no \<open>expect\<close> in its constructor fails.\<close>

lemma timeline_renderer_new_ok:
  "timeline_renderer_new G = Some \<lparr>tr_graph = G, tr_entries = entry_map (sg_entries (pg_graph G)),
     tr_children = tl_children (sg_entries (pg_graph G)), tr_roots = tl_roots (sg_entries (pg_graph G)),
     tr_ref_labels = ref_labels_of (pg_graph G)\<rparr>"
proof -
  let ?es = "sg_entries (pg_graph G)"
  obtain ch hp where l: "link_entries (entry_map ?es) ?es = (ch, hp)" by fastforce
  then have "sort_values (entry_map ?es) ch = Some (tl_children ?es)"
    "sort_by_entry (entry_map ?es) (filter (\<lambda>i. i \<notin> set hp) (map fst (entry_map ?es))) = Some (tl_roots ?es)"
    using tl_children_ok [of ?es] tl_roots_ok(1) [of ?es] by simp_all
  then show ?thesis by (simp add: timeline_renderer_new_def Let_def l)
qed

lemma tl_parent_at:
  assumes "distinct (entry_ids es)" "e \<in> set es"
  shows "tl_parent es (te_snapshot_id e) = linked_parent (entry_map es) e"
proof -
  have "map_of (entry_map es) (te_snapshot_id e) = Some e" using entry_map_at [OF assms(1)] assms(2) by simp
  then show ?thesis by (simp add: tl_parent_def)
qed

lemma set_tl_kids:
  assumes "distinct (entry_ids es)"
  shows "set (tl_kids es p) = {i \<in> set (entry_ids es). tl_parent es i = Some p}"
proof -
  show ?thesis using tl_parent_at [OF assms] by (auto simp: tl_kids_sorted)
qed

lemma set_tl_roots:
  assumes "distinct (entry_ids es)"
  shows "set (tl_roots es) = {i \<in> set (entry_ids es). tl_parent es i = None}"
proof -
  obtain ch hp where l: "link_entries (entry_map es) es = (ch, hp)" by fastforce
  then show ?thesis using link_entries_map [OF l] tl_parent_at [OF assms] by (auto simp: tl_roots_ok(2))
qed

interpretation snapshots: forest "set (entry_ids (separate es))" "tl_parent (separate es)" "tl_kids (separate es)" "tl_roots (separate es)"
  for es
proof unfold_locales
  show "distinct (tl_kids (separate es) p)" for p
    using distinct_separate [of es] by (simp add: tl_kids_sorted distinct_map_filter)
qed (simp_all add: set_tl_kids set_tl_roots distinct_separate tl_roots_ok(3))

section \<open>The rows\<close>

definition row_ids :: "timeline_row \<Rightarrow> object_id list" where
  "row_ids row = (case row of NodeRow i _ _ \<Rightarrow> [i] | ChainRow ids _ _ \<Rightarrow> ids)"

lemma row_ids_simps [simp]: "row_ids (NodeRow i p c) = [i]" "row_ids (ChainRow ids p c) = ids"
  by (simp_all add: row_ids_def)

definition collapsible :: "timeline_renderer \<Rightarrow> object_id \<Rightarrow> bool" where
  "collapsible r i \<longleftrightarrow> (\<exists>e. map_of (tr_entries r) i = Some e \<and> is_collapsible_auto_snapshot r i (te_snapshot e))"

text \<open>Only a run of three or more snapshots that may be hidden shares a row.\<close>

definition fair_row :: "timeline_renderer \<Rightarrow> timeline_row \<Rightarrow> bool" where
  "fair_row r row \<longleftrightarrow> (case row of
     NodeRow _ _ _ \<Rightarrow> True
   | ChainRow ids _ _ \<Rightarrow> MIN_COLLAPSED_AUTO_SNAPSHOTS \<le> length ids \<and> (\<forall>i \<in> set ids. collapsible r i))"

lemma fair_node_row [simp]: "fair_row r (NodeRow i p c)"
  by (simp add: fair_row_def)

text \<open>The renderer of the entries \<open>es\<close>, and the tree below a snapshot.\<close>

definition draws :: "timeline_renderer \<Rightarrow> timeline_entry list \<Rightarrow> bool" where
  "draws r es \<longleftrightarrow> separate es = es \<and> tr_entries r = entry_map es \<and> tr_children r = tl_children es \<and> tr_roots r = tl_roots es"

abbreviation tl_depth :: "timeline_entry list \<Rightarrow> object_id \<Rightarrow> nat \<Rightarrow> bool" where
  "tl_depth es \<equiv> at_depth (tl_parent es) (set (entry_ids es))"

definition tl_tree :: "timeline_entry list \<Rightarrow> object_id \<Rightarrow> object_id list" where
  "tl_tree es = preorder (tl_kids es) (length es)"

lemma separate_card: "separate es = es \<Longrightarrow> card (set (entry_ids es)) = length es"
  using distinct_separate [of es] distinct_card [of "entry_ids es"] by simp

lemma tl_tree_unfold:
  "separate es = es \<Longrightarrow> tl_depth es x d \<Longrightarrow> tl_tree es x = x # concat (map (tl_tree es) (tl_kids es x))"
  using snapshots.tree_unfold [of es x d] separate_card [of es] by (simp add: tl_tree_def)

lemma tl_kid_depth: "separate es = es \<Longrightarrow> c \<in> set (tl_kids es x) \<Longrightarrow> tl_depth es x d \<Longrightarrow> tl_depth es c (Suc d)"
  using snapshots.kid_depth [of c es x d] by simp

lemma tl_depth_bound: "separate es = es \<Longrightarrow> tl_depth es x d \<Longrightarrow> d < length es"
  using at_depth_bound [OF finite_set] separate_card by metis

lemma drawn_child: "draws r es \<Longrightarrow> only_child r i = (case tl_kids es i of [c] \<Rightarrow> Some c | _ \<Rightarrow> None)"
  by (auto simp: draws_def only_child_def tl_kids_def split: option.splits list.splits)

lemma drawn_children:
  "draws r es \<Longrightarrow> (case map_of (tr_children r) i of None \<Rightarrow> Some [] | Some cs \<Rightarrow> child_rows r n cs indent) =
     child_rows r n (tl_kids es i) indent"
  by (auto simp: draws_def tl_kids_def split: option.splits)

lemma drawn_entry: "draws r es \<Longrightarrow> tl_depth es i d \<Longrightarrow> \<exists>e. map_of (tr_entries r) i = Some e"
  using at_depth_node [of "tl_parent es" "set (entry_ids es)" i d] entry_map_none [of es i] by (auto simp: draws_def)

lemma collapsible_child:
  "draws r es \<Longrightarrow> is_collapsible_auto_snapshot r i sn \<Longrightarrow> only_child r i = None \<Longrightarrow> tl_kids es i = []"
  "draws r es \<Longrightarrow> only_child r i = Some c \<Longrightarrow> tl_kids es i = [c]"
  by (auto simp: drawn_child is_collapsible_auto_snapshot_def draws_def tl_kids_def split: list.splits option.splits)

lemma auto_chain_ok:
  assumes "draws r es" "tl_depth es x d" "length es \<le> d + n"
  shows "\<exists>chain. auto_chain r n x = Some chain \<and> (\<forall>i \<in> set chain. collapsible r i) \<and>
    (chain \<noteq> [] \<longrightarrow>
       tl_tree es x = chain @ (case only_child r (last chain) of None \<Rightarrow> [] | Some c \<Rightarrow> tl_tree es c) \<and>
       (\<forall>c. only_child r (last chain) = Some c \<longrightarrow> tl_depth es c (d + length chain)))"
  using assms(2,3)
proof (induction n arbitrary: x d)
  case 0
  then show ?case using tl_depth_bound [of es x d] assms(1) by (simp add: draws_def)
next
  case (Suc n)
  have sep: "separate es = es" using assms(1) by (simp add: draws_def)
  obtain e where e: "map_of (tr_entries r) x = Some e" using drawn_entry [OF assms(1) Suc.prems(1)] by blast
  note tree = tl_tree_unfold [OF sep Suc.prems(1)]
  show ?case
  proof (cases "is_collapsible_auto_snapshot r x (te_snapshot e)")
    case coll: True
    then have cx: "collapsible r x" using e by (auto simp: collapsible_def)
    show ?thesis
    proof (cases "only_child r x")
      case None
      then have "tl_kids es x = []" using collapsible_child(1) [OF assms(1) coll] by simp
      then show ?thesis using e coll None tree cx by simp
    next
      case (Some c)
      then have kids: "tl_kids es x = [c]" using collapsible_child(2) [OF assms(1)] by simp
      have c: "tl_depth es c (Suc d)" by (rule tl_kid_depth [OF sep _ Suc.prems(1)]) (simp add: kids)
      obtain chain where chain: "auto_chain r n c = Some chain" "\<forall>i \<in> set chain. collapsible r i"
        "chain \<noteq> [] \<Longrightarrow> tl_tree es c = chain @ (case only_child r (last chain) of None \<Rightarrow> [] | Some c \<Rightarrow> tl_tree es c)"
        "chain \<noteq> [] \<Longrightarrow> only_child r (last chain) = Some c' \<Longrightarrow> tl_depth es c' (Suc d + length chain)" for c'
        using Suc.IH [OF c] Suc.prems(2) by auto
      have run: "auto_chain r (Suc n) x = Some (x # chain)" using e coll Some chain(1) by simp
      show ?thesis
      proof (cases "chain = []")
        case True
        then show ?thesis using run Some tree kids cx c by simp
      next
        case False
        then show ?thesis using run tree kids cx chain(2-4) by simp
      qed
    qed
  qed (use e in simp)
qed

lemma child_rows_ok:
  assumes "\<And>c indent connector is_last. c \<in> set cs \<Longrightarrow> \<exists>rows. node_or_auto_chain r n c indent connector is_last = Some rows \<and>
      list_all (fair_row r) rows \<and> concat (map row_ids rows) = tl_tree es c"
  shows "\<exists>rows. child_rows r n cs indent = Some rows \<and> list_all (fair_row r) rows \<and>
      concat (map row_ids rows) = concat (map (tl_tree es) cs)"
  using assms
proof (induction cs)
  case (Cons c cs)
  obtain rows where "child_rows r n cs indent = Some rows" "list_all (fair_row r) rows"
      "concat (map row_ids rows) = concat (map (tl_tree es) cs)"
    using Cons by auto
  moreover obtain rows' where
      "node_or_auto_chain r n c indent (if cs = [] then last_connector else inner_connector) (cs = []) = Some rows'"
      "list_all (fair_row r) rows'" "concat (map row_ids rows') = tl_tree es c"
    using Cons.prems [of c indent "if cs = [] then last_connector else inner_connector" "cs = []"] by auto
  ultimately show ?case by simp
qed simp

lemma node_rows_ok:
  assumes "draws r es" "tl_depth es x d" "length es \<le> d + n"
  shows "\<exists>rows. node_or_auto_chain r n x indent connector is_last = Some rows \<and>
      list_all (fair_row r) rows \<and> concat (map row_ids rows) = tl_tree es x"
  using assms(2,3)
proof (induction n arbitrary: x d indent connector is_last)
  case 0
  then show ?case using tl_depth_bound [of es x d] assms(1) by (simp add: draws_def)
next
  case (Suc n)
  have sep: "separate es = es" using assms(1) by (simp add: draws_def)
  obtain chain where run: "auto_chain r (Suc n) x = Some chain" and coll: "\<forall>i \<in> set chain. collapsible r i"
    and tree: "chain \<noteq> [] \<Longrightarrow> tl_tree es x = chain @ (case only_child r (last chain) of None \<Rightarrow> [] | Some c \<Rightarrow> tl_tree es c)"
    and next_depth: "\<And>c. chain \<noteq> [] \<Longrightarrow> only_child r (last chain) = Some c \<Longrightarrow> tl_depth es c (d + length chain)"
    using auto_chain_ok [OF assms(1) Suc.prems] by auto
  let ?inner = "child_prefix indent is_last (connector = [])"
  show ?case
  proof (cases "MIN_COLLAPSED_AUTO_SNAPSHOTS \<le> length chain")
    case long: True
    then have chain: "chain \<noteq> []" by (auto simp: MIN_COLLAPSED_AUTO_SNAPSHOTS_def)
    have fair: "fair_row r (ChainRow chain indent connector)" using long coll by (simp add: fair_row_def)
    show ?thesis
    proof (cases "only_child r (last chain)")
      case None
      then show ?thesis using run long fair tree [OF chain] by (simp del: auto_chain.simps)
    next
      case (Some c)
      have "length es \<le> d + length chain + n" using Suc.prems(2) chain by (cases chain) auto
      from Suc.IH [OF next_depth [OF chain Some] this, of ?inner last_connector True] obtain rows where
        "node_or_auto_chain r n c ?inner last_connector True = Some rows"
        "list_all (fair_row r) rows" "concat (map row_ids rows) = tl_tree es c" by blast
      then show ?thesis using run long fair tree [OF chain] Some by (simp del: auto_chain.simps)
    qed
  next
    case short: False
    have "\<exists>rows. node_or_auto_chain r n c indent connector is_last = Some rows \<and>
        list_all (fair_row r) rows \<and> concat (map row_ids rows) = tl_tree es c"
      if "c \<in> set (tl_kids es x)" for c indent connector is_last
      by (rule Suc.IH [OF tl_kid_depth [OF sep that Suc.prems(1)]]) (use Suc.prems(2) in simp)
    from child_rows_ok [of "tl_kids es x" r n es ?inner, OF this] obtain rows where
      "child_rows r n (tl_kids es x) ?inner = Some rows" "list_all (fair_row r) rows"
      "concat (map row_ids rows) = concat (map (tl_tree es) (tl_kids es x))" by auto
    then show ?thesis using run short tl_tree_unfold [OF sep Suc.prems(1)] drawn_children [OF assms(1), of n ?inner x]
      by (simp del: auto_chain.simps)
  qed
qed

lemma root_rows_ok:
  assumes "draws r es" "set roots \<subseteq> set (tl_roots es)"
  shows "\<exists>rows. root_rows r (length es) roots = Some rows \<and> list_all (fair_row r) rows \<and>
      concat (map row_ids rows) = concat (map (tl_tree es) roots)"
  using assms(2)
proof (induction roots)
  case (Cons root roots)
  obtain rows where "root_rows r (length es) roots = Some rows" "list_all (fair_row r) rows"
      "concat (map row_ids rows) = concat (map (tl_tree es) roots)"
    using Cons by auto
  moreover have "tl_depth es root 0" using snapshots.root_depth [of root es] Cons.prems assms(1) by (simp add: draws_def)
  from node_rows_ok [OF assms(1) this, of "length es" "[]" "[]" "roots = []"] obtain rows' where
      "node_or_auto_chain r (length es) root [] [] (roots = []) = Some rows'"
      "list_all (fair_row r) rows'" "concat (map row_ids rows') = tl_tree es root" by auto
  ultimately show ?case by simp
qed simp

lemma timeline_rows_ok:
  assumes "draws r es"
  shows "\<exists>rows. timeline_rows r = Some rows \<and> list_all (fair_row r) rows \<and>
      concat (map row_ids rows) = concat (map (tl_tree es) (tl_roots es)) \<and>
      distinct (concat (map row_ids rows)) \<and> set (concat (map row_ids rows)) = {i. \<exists>d. tl_depth es i d}"
proof -
  have sep: "separate es = es" and e: "tr_entries r = entry_map es" "tr_roots r = tl_roots es"
    using assms by (simp_all add: draws_def)
  then have len: "length (tr_entries r) = length es" using distinct_separate [of es] by (simp add: entry_map_length)
  have walk_all: "snapshots.walk_all es = concat (map (tl_tree es) (tl_roots es))"
    unfolding snapshots.walk_all_def using sep separate_card [OF sep] by (simp add: tl_tree_def)
  let ?ids = "concat (map (tl_tree es) (tl_roots es))"
  have ids: "distinct ?ids" "set ?ids = {i. \<exists>d. tl_depth es i d}"
    using snapshots.distinct_walk_all [of es, unfolded walk_all] snapshots.set_walk_all [of es, unfolded walk_all, unfolded sep]
    by (simp_all only:)
  obtain rows where rows: "timeline_rows r = Some rows" "list_all (fair_row r) rows" "concat (map row_ids rows) = ?ids"
    using root_rows_ok [OF assms subset_refl] unfolding timeline_rows_def len e(2) by blast
  show ?thesis by (intro exI [of _ rows] conjI) (use rows ids in \<open>simp_all only:\<close>)
qed

section \<open>Printing\<close>

lemma print_row_ok:
  assumes "fair_row r row" "\<forall>i \<in> set (row_ids row). map_of (tr_entries r) i \<noteq> None"
  shows "\<exists>ls. print_row T r verbose row = Some ls"
proof (cases row)
  case (NodeRow i p c)
  then show ?thesis using assms(2) by (auto simp: print_row_def print_node_def Let_def)
next
  case (ChainRow ids p c)
  then have "ids \<noteq> []" using assms(1) by (auto simp: fair_row_def MIN_COLLAPSED_AUTO_SNAPSHOTS_def)
  then have "hd ids \<in> set ids" "last ids \<in> set ids" by simp_all
  then obtain a z where "map_of (tr_entries r) (hd ids) = Some a" "map_of (tr_entries r) (last ids) = Some z"
    using assms(2) ChainRow by fastforce
  then show ?thesis using ChainRow \<open>ids \<noteq> []\<close> by (simp add: print_row_def print_collapsed_auto_chain_def)
qed

lemma print_rows_ok:
  assumes "list_all (fair_row r) rows" "\<forall>i \<in> set (concat (map row_ids rows)). map_of (tr_entries r) i \<noteq> None"
  shows "\<exists>ls. print_rows T r verbose rows = Some ls"
  using assms
proof (induction rows)
  case (Cons row rows)
  then obtain ls where "print_rows T r verbose rows = Some ls" by auto
  moreover obtain ls' where "print_row T r verbose row = Some ls'" using print_row_ok [of r row T verbose] Cons.prems by auto
  ultimately show ?case by simp
qed simp

text \<open>
  The snapshots above which every first parent is in the graph, down to one without a parent, are those the tree
  shows; without a cycle of first parents that is every snapshot.
\<close>

definition parent_links :: "timeline_entry list \<Rightarrow> (object_id \<times> object_id) set" where
  "parent_links es = {(te_snapshot_id e, p) | e p. e \<in> set es \<and> p \<in> set (take 1 (snap_parents (te_snapshot e)))}"

lemma tl_parent_link:
  assumes "separate es = es" "i \<in> set (entry_ids es)" "tl_parent es i = Some p"
  shows "(i, p) \<in> parent_links es \<and> p \<in> set (entry_ids es)"
proof -
  obtain e where e: "e \<in> set es" "te_snapshot_id e = i" using assms(2) by auto
  then have "linked_parent (entry_map es) e = Some p"
    using tl_parent_at [of es e] distinct_separate [of es] assms(1,3) by auto
  then obtain ps where "snap_parents (te_snapshot e) = p # ps" "map_of (entry_map es) p \<noteq> None"
    by (auto simp: linked_parent_def split: list.splits if_splits)
  moreover have "(te_snapshot_id e, p) \<in> parent_links es" if "snap_parents (te_snapshot e) = p # ps"
    unfolding parent_links_def using e(1) that by force
  ultimately show ?thesis using e(2) by (auto simp: entry_map_none simp del: not_None_eq)
qed

lemma acyclic_depth:
  assumes "separate es = es" "acyclic (parent_links es)"
  shows "{i. \<exists>d. tl_depth es i d} = set (entry_ids es)"
proof (intro equalityI subsetI)
  fix i
  assume "i \<in> set (entry_ids es)"
  moreover have "acyclic {(x, p). x \<in> set (entry_ids es) \<and> tl_parent es x = Some p}"
    by (rule acyclic_subset [OF assms(2)]) (use tl_parent_link [OF assms(1)] in blast)
  moreover note tl_parent_link [OF assms(1)]
  ultimately show "i \<in> {i. \<exists>d. tl_depth es i d}"
    using at_depth_total [of "set (entry_ids es)" "tl_parent es" i] by auto
qed (auto dest: at_depth_node)

section \<open>What stays visible\<close>

lemma strict_push: "strict_map m \<Longrightarrow> strict_map (btree_push k v m)"
  by (simp add: btree_push_def)

lemma push_keys: "fst ` set (btree_push k v m) = insert k (fst ` set m)"
  by (simp add: btree_push_def btree_insert_keys)

lemma push_all_keys: "fst ` set (fold (\<lambda>x. btree_push (f x) (g x)) xs m) = f ` set xs \<union> fst ` set m"
  by (induction xs arbitrary: m) (auto simp: push_keys)

text \<open>Every snapshot a branch or a workspace points at has a label.\<close>

lemma ref_labels_keys:
  "map_of (ref_labels_of g) i \<noteq> None \<longleftrightarrow> i \<in> bh_snapshot_id ` set (sg_branches g) \<union> wh_snapshot_id ` set (sg_workspaces g)"
  by (auto simp: ref_labels_of_def map_of_eq_None_iff push_all_keys image_image case_prod_beta Let_def simp del: not_None_eq)

definition in_use :: "printable_timeline_graph \<Rightarrow> object_id \<Rightarrow> bool" where
  "in_use G i \<longleftrightarrow> i = pg_current_snapshot_id G \<or> i \<in> set (pg_worktree_matches G) \<or>
     i \<in> bh_snapshot_id ` set (sg_branches (pg_graph G)) \<or> i \<in> wh_snapshot_id ` set (sg_workspaces (pg_graph G))"

lemma in_use_visible:
  assumes "tr_graph r = G" "tr_ref_labels r = ref_labels_of (pg_graph G)" "in_use G i"
  shows "\<not> collapsible r i"
  using assms ref_labels_keys [of "pg_graph G" i]
  by (auto simp: collapsible_def in_use_def is_collapsible_auto_snapshot_def)

lemma own_row:
  assumes "list_all (fair_row r) rows" "i \<in> set (concat (map row_ids rows))" "\<not> collapsible r i"
  shows "\<exists>p c. NodeRow i p c \<in> set rows"
proof -
  obtain row where row: "row \<in> set rows" "i \<in> set (row_ids row)" using assms(2) by auto
  then have "fair_row r row" using assms(1) by (auto simp: list_all_iff)
  then show ?thesis using row assms(3) by (cases row) (auto simp: fair_row_def)
qed

lemma new_draws:
  assumes "distinct (entry_ids (sg_entries (pg_graph G)))"
  obtains r where "timeline_renderer_new G = Some r" "draws r (sg_entries (pg_graph G))" "tr_graph r = G"
    "tr_ref_labels r = ref_labels_of (pg_graph G)"
proof (rule that [OF timeline_renderer_new_ok])
qed (use assms in \<open>simp_all add: draws_def separate_def\<close>)

lemma print_timeline_ok:
  assumes "distinct (entry_ids (sg_entries (pg_graph G)))"
  shows "\<exists>ls. print_timeline_graph T cursor G verbose = Some ls"
proof -
  obtain r where r: "timeline_renderer_new G = Some r" "draws r (sg_entries (pg_graph G))" using new_draws [OF assms] by blast
  obtain rows where rows: "timeline_rows r = Some rows" "list_all (fair_row r) rows"
      "set (concat (map row_ids rows)) = {i. \<exists>d. tl_depth (sg_entries (pg_graph G)) i d}"
    using timeline_rows_ok [OF r(2)] by blast
  have "\<forall>i \<in> set (concat (map row_ids rows)). map_of (tr_entries r) i \<noteq> None"
    unfolding rows(3) using drawn_entry [OF r(2)] by blast
  then obtain ls where "print_rows T r verbose rows = Some ls" using print_rows_ok [OF rows(2)] by blast
  then show ?thesis using r(1) rows(1) by (simp add: print_timeline_graph_def print_timeline_def)
qed


text \<open>An initial snapshot, three automatic ones, and the current one, with a second parent.\<close>

definition sample_entry :: "byte \<Rightarrow> byte list \<Rightarrow> rstring \<Rightarrow> timeline_entry" where
  "sample_entry n parents source =
     \<lparr>te_snapshot_id = ObjectId (replicate 32 n),
      te_snapshot = \<lparr>snap_root = ObjectId (replicate 32 0), snap_parents = map (\<lambda>p. ObjectId (replicate 32 p)) parents,
        snap_timestamp = ucast n, snap_author = None, snap_message = None, snap_provenance = provenance_new source\<rparr>\<rparr>"

definition sample_graph :: printable_timeline_graph where
  "sample_graph =
     \<lparr>pg_graph = \<lparr>sg_branches = [\<lparr>bh_name = BranchName (bstr ''main''), bh_snapshot_id = ObjectId (replicate 32 5), bh_is_current = True\<rparr>],
        sg_workspaces = [],
        sg_entries = [sample_entry 5 [4, 1] (bstr ''manual-snapshot''), sample_entry 3 [2] (bstr ''auto-snapshot''),
          sample_entry 4 [3] (bstr ''auto-snapshot''), sample_entry 1 [] (bstr ''repository-init''),
          sample_entry 2 [1] (bstr ''auto-snapshot'')]\<rparr>,
      pg_current_snapshot_id = ObjectId (replicate 32 5), pg_worktree_root_tree_id = ObjectId (replicate 32 9),
      pg_worktree_matches = [], pg_worktree_clean = False\<rparr>"

lemma sample_graph_distinct: "distinct (map te_snapshot_id (sg_entries (pg_graph sample_graph)))"
  by code_simp

lemma sample_graph_acyclic: "acyclic (parent_links (sg_entries (pg_graph sample_graph)))"
proof (rule acyclicI_order [where f = "\<lambda>i. hd (as_bytes i)"])
  fix i p
  assume "(i, p) \<in> parent_links (sg_entries (pg_graph sample_graph))"
  then show "hd (as_bytes p) < hd (as_bytes i)"
    by (auto simp: parent_links_def sample_graph_def sample_entry_def)
qed


end
