(* ===== verification/Cli_Commands.thy ===== *)
theory Cli_Commands
  imports Cli_Timeline
begin

text \<open>
  \<open>crates/cli/src/main.rs\<close>: the commands, each a sequence of operations of the repository and of printed lines, and
  the loop of \<open>era watch\<close>. The process around them is a parameter, the record \<open>cli_env\<close>: the terminal, the current
  directory and the materializers. The branches that
  \<open>tokio::select!\<close> takes in the watch loop are a list of inputs.
\<close>

section \<open>The state of a command\<close>

datatype cli_error =
    CliCurrentDirectory io_kind
  | CliEmptyTimeline
  | CliWatchStopped
  | CliSignal io_kind
  | CliRepository repository_error
  | CliMaterialization materialization_error

datatype cli_abort = CliFail cli_error | CliPanic

record cli_state =
  cl_world :: world
  cl_out :: "out_line list"

type_synonym 'a cli_io = "(cli_state, cli_abort, 'a) sio"

text \<open>
  A materializer is its state of type \<open>'m\<close>: \<open>env_materializer\<close> makes a new one, with a cache file or without,
  \<open>env_methods\<close> gives its methods in a state, and \<open>env_invalidate\<close> is its method \<open>invalidate_paths\<close>.
\<close>

record 'm cli_env =
  env_terminal :: terminal
  env_current_dir :: "io_kind + path"
  env_materializer :: "path option \<Rightarrow> 'm"
  env_methods :: "'m \<Rightarrow> materializer"
  env_invalidate :: "path list \<Rightarrow> 'm \<Rightarrow> 'm"

definition in_repo :: "'a repo_io \<Rightarrow> 'a cli_io" where
  "in_repo m s =
    (case m (cl_world s) of (r, w) \<Rightarrow> (map_err (\<lambda>e. CliFail (CliRepository e)) r, s\<lparr>cl_world := w\<rparr>))"

definition print_lines :: "out_line list \<Rightarrow> unit cli_io" where
  "print_lines ls s = (Ok (), s\<lparr>cl_out := cl_out s @ ls\<rparr>)"

definition cli_current_directory :: "'m cli_env \<Rightarrow> path cli_io" where
  "cli_current_directory env = result_io (map_err (\<lambda>e. CliFail (CliCurrentDirectory e)) (env_current_dir env))"

section \<open>Opening the repository\<close>

definition command_materializer :: "'m cli_env \<Rightarrow> repository \<Rightarrow> 'm" where
  "command_materializer env repo = env_materializer env (Some (capture_cache_path repo))"

text \<open>\<open>Path::file_name\<close> and \<open>to_str\<close>.\<close>

definition utf8_file_name :: "path \<Rightarrow> rstring option" where
  "utf8_file_name p = (if p \<noteq> [] \<and> last p \<noteq> bstr ''..'' \<and> utf8 (last p) then Some (last p) else None)"

definition infer_workspace_id :: "'m cli_env \<Rightarrow> path \<Rightarrow> rstring option \<Rightarrow> workspace_id cli_io" where
  "infer_workspace_id env p workspace =
    (let name =
       (case workspace of
          Some w \<Rightarrow> w
        | None \<Rightarrow>
           (case utf8_file_name p of
              Some n \<Rightarrow> n
            | None \<Rightarrow>
               (case env_current_dir env of
                  Inl _ \<Rightarrow> DEFAULT_WORKSPACE_ID
                | Inr d \<Rightarrow> (case utf8_file_name d of Some n \<Rightarrow> n | None \<Rightarrow> DEFAULT_WORKSPACE_ID)))) in
     result_io (map_err (\<lambda>e. CliFail (CliRepository (InvalidWorkspaceId e))) (workspace_new name)))"

definition open_command_repository :: "hasher \<Rightarrow> 'm cli_env \<Rightarrow> materializer \<Rightarrow> path option \<Rightarrow> rstring option \<Rightarrow> repository cli_io" where
  "open_command_repository blake3 env mat repo workspace =
    (case repo of
       Some p \<Rightarrow>
         bind_io (cli_current_directory env) (\<lambda>dir.
         bind_io (infer_workspace_id env dir workspace) (\<lambda>w.
         in_repo (open_or_add_workspace blake3 p dir w mat)))
     | None \<Rightarrow> bind_io (cli_current_directory env) (\<lambda>dir. in_repo (repo_open dir)))"

definition bootstrap_materializer :: "'m cli_env \<Rightarrow> materializer" where
  "bootstrap_materializer env = env_methods env (env_materializer env None)"

section \<open>Snapshots and status\<close>

definition cmd_init :: "hasher \<Rightarrow> 'm cli_env \<Rightarrow> bool \<Rightarrow> unit cli_io" where
  "cmd_init blake3 env verbose =
     bind_io (cli_current_directory env) (\<lambda>dir.
     bind_io (in_repo (repo_init blake3 dir (bootstrap_materializer env) request_initial)) (\<lambda>result.
     bind_io (in_repo (current_branch (init_repository result))) (\<lambda>branch.
     bind_io (print_lines (print_init_result (env_terminal env) result branch verbose)) (\<lambda>_.
     print_lines (print_capture_warnings (env_terminal env) (init_snapshot result))))))"

definition snap_request :: "rstring option \<Rightarrow> rstring option \<Rightarrow> repository \<Rightarrow> snapshot_request" where
  "snap_request message author repo =
    (let request = (case message of Some m \<Rightarrow> request_manual m | None \<Rightarrow> request_manual_unlabeled);
         request = (case author of Some a \<Rightarrow> with_author request a | None \<Rightarrow> request) in
     case repo_workspace_id repo of
       Some w \<Rightarrow> with_provenance_attribute request (bstr ''workspace'') (workspace_str w)
     | None \<Rightarrow> request)"

definition cmd_snap ::
  "hasher \<Rightarrow> 'm cli_env \<Rightarrow> rstring option \<Rightarrow> rstring option \<Rightarrow> rstring option \<Rightarrow> path option \<Rightarrow> rstring option \<Rightarrow> bool \<Rightarrow> unit cli_io" where
  "cmd_snap blake3 env label message author repo workspace verbose =
    (let T = env_terminal env;
         message = (case message of Some m \<Rightarrow> Some m | None \<Rightarrow> label);
         report = (\<lambda>cursor result. bind_io (print_lines (print_snapshot_result T (bstr ''Created snapshot'') result cursor verbose))
           (\<lambda>_. print_lines (print_capture_warnings T result))) in
     bind_io (open_command_repository blake3 env (bootstrap_materializer env) repo workspace) (\<lambda>repository.
     let mat = env_methods env (command_materializer env repository) in
     bind_io (in_repo (cursor_info_of repository)) (\<lambda>cursor.
     let request = snap_request message author repository in
     if message \<noteq> None then
       bind_io (in_repo (repo_snapshot blake3 repository mat request)) (report cursor)
     else
       bind_io (in_repo (snapshot_if_changed blake3 repository mat request)) (\<lambda>saved.
       case saved of
         Some result \<Rightarrow> report cursor result
       | None \<Rightarrow> print_lines (println (bstr ''No changes''))))))"

definition cmd_status :: "hasher \<Rightarrow> 'm cli_env \<Rightarrow> path option \<Rightarrow> rstring option \<Rightarrow> bool \<Rightarrow> unit cli_io" where
  "cmd_status blake3 env repo workspace verbose =
    (let T = env_terminal env in
     bind_io (open_command_repository blake3 env (bootstrap_materializer env) repo workspace) (\<lambda>repository.
     let mat = env_methods env (command_materializer env repository) in
     bind_io (in_repo (cursor_info_of repository)) (\<lambda>cursor.
     bind_io (in_repo (repo_timeline blake3 repository)) (\<lambda>timeline.
     if timeline = [] then fail_io (CliFail CliEmptyTimeline)
     else
       bind_io (in_repo (working_tree_status_of blake3 repository mat)) (\<lambda>status.
       bind_io (in_repo (current_cursor_ref_path repository)) (\<lambda>cursor_ref.
       bind_io (print_lines (print_status T repository cursor status (length timeline) verbose cursor_ref)) (\<lambda>_.
       print_lines (print_scan_warnings T (tcr_issues (wts_comparison status))))))))))"

section \<open>Branches and checkouts\<close>

definition parse_branch :: "rstring \<Rightarrow> branch_name cli_io" where
  "parse_branch name = result_io (map_err (\<lambda>e. CliFail (CliRepository (InvalidBranchName e))) (branch_new name))"

definition cmd_branch :: "hasher \<Rightarrow> 'm cli_env \<Rightarrow> rstring option \<Rightarrow> bool \<Rightarrow> unit cli_io" where
  "cmd_branch blake3 env name verbose =
    (let T = env_terminal env in
     bind_io (cli_current_directory env) (\<lambda>dir.
     bind_io (in_repo (repo_open dir)) (\<lambda>repository.
     let mat = env_methods env (command_materializer env repository) in
     case name of
       Some n \<Rightarrow>
         bind_io (parse_branch n) (\<lambda>branch.
         bind_io (in_repo (repo_create_branch blake3 repository mat branch)) (\<lambda>result.
         bind_io (print_lines (print_branch_created T result verbose)) (\<lambda>_.
         print_lines (print_optional_saved_warnings T (bor_saved_snapshot result)))))
     | None \<Rightarrow>
         bind_io (in_repo (repo_branches repository)) (\<lambda>branches.
         print_lines (print_branches T branches verbose)))))"

definition cmd_switch :: "hasher \<Rightarrow> 'm cli_env \<Rightarrow> rstring \<Rightarrow> bool \<Rightarrow> unit cli_io" where
  "cmd_switch blake3 env name verbose =
    (let T = env_terminal env in
     bind_io (cli_current_directory env) (\<lambda>dir.
     bind_io (in_repo (repo_open dir)) (\<lambda>repository.
     let mat = env_methods env (command_materializer env repository) in
     bind_io (parse_branch name) (\<lambda>branch.
     bind_io (in_repo (switch_branch blake3 repository mat branch)) (\<lambda>result.
     bind_io (print_lines (print_switch_result T result verbose)) (\<lambda>_.
     print_lines (print_optional_saved_warnings T (sw_saved_snapshot result))))))))"

definition cmd_restore :: "hasher \<Rightarrow> 'm cli_env \<Rightarrow> rstring \<Rightarrow> path option \<Rightarrow> rstring option \<Rightarrow> bool \<Rightarrow> unit cli_io" where
  "cmd_restore blake3 env target repo workspace verbose =
    (let T = env_terminal env in
     bind_io (open_command_repository blake3 env (bootstrap_materializer env) repo workspace) (\<lambda>repository.
     let mat = env_methods env (command_materializer env repository) in
     bind_io (in_repo (repo_restore blake3 repository mat target)) (\<lambda>result.
     bind_io (print_lines (print_restore_result T result verbose)) (\<lambda>_.
     print_lines (print_optional_saved_warnings T (rst_saved_snapshot result))))))"

definition cmd_timeline :: "hasher \<Rightarrow> 'm cli_env \<Rightarrow> path option \<Rightarrow> rstring option \<Rightarrow> bool \<Rightarrow> unit cli_io" where
  "cmd_timeline blake3 env repo workspace verbose =
     bind_io (open_command_repository blake3 env (bootstrap_materializer env) repo workspace) (\<lambda>repository.
     let mat = env_methods env (command_materializer env repository) in
     bind_io (in_repo (cursor_info_of repository)) (\<lambda>cursor.
     bind_io (in_repo (load_printable_timeline_graph blake3 repository mat)) (\<lambda>graph.
     case print_timeline_graph (env_terminal env) cursor graph verbose of
       None \<Rightarrow> fail_io CliPanic
     | Some ls \<Rightarrow> print_lines ls)))"

section \<open>Workspaces\<close>

datatype workspace_command =
    WorkspaceAdd path "path option" "rstring option" "rstring option"
  | WorkspaceList "path option"

definition open_shared :: "'m cli_env \<Rightarrow> path option \<Rightarrow> repository cli_io" where
  "open_shared env repo =
    (case repo of
       Some p \<Rightarrow> in_repo (open_repository_path p)
     | None \<Rightarrow> bind_io (cli_current_directory env) (\<lambda>dir. in_repo (repo_open dir)))"

definition cmd_workspace :: "hasher \<Rightarrow> 'm cli_env \<Rightarrow> workspace_command \<Rightarrow> bool \<Rightarrow> unit cli_io" where
  "cmd_workspace blake3 env command verbose =
    (let T = env_terminal env in
     case command of
       WorkspaceAdd p repo workspace source \<Rightarrow>
         bind_io (open_shared env repo) (\<lambda>repository.
         bind_io (infer_workspace_id env p workspace) (\<lambda>w.
         bind_io (in_repo (add_workspace blake3 repository (bootstrap_materializer env)
           \<lparr>aw_path = p, aw_workspace_id = w, aw_from = source\<rparr>)) (\<lambda>result.
         print_lines (print_workspace_add_result T result verbose))))
     | WorkspaceList repo \<Rightarrow>
         bind_io (open_shared env repo) (\<lambda>repository.
         bind_io (in_repo (repo_workspaces repository)) (\<lambda>workspaces.
         print_lines (print_workspaces T workspaces verbose))))"

section \<open>Watching\<close>

record watch_metadata =
  wm_workspace :: "rstring option"
  wm_agent :: "rstring option"
  wm_task :: "rstring option"
  wm_model :: "rstring option"

record watch_args =
  wa_repo :: "path option"
  wa_once :: bool
  wa_debounce_ms :: u64
  wa_reconcile_secs :: u64
  wa_metadata :: watch_metadata

definition optional_attribute :: "rstring \<Rightarrow> rstring option \<Rightarrow> snapshot_request \<Rightarrow> snapshot_request" where
  "optional_attribute key v request = (case v of Some x \<Rightarrow> with_provenance_attribute request key x | None \<Rightarrow> request)"

definition auto_snapshot_request :: "auto_snapshot_trigger \<Rightarrow> watch_metadata \<Rightarrow> repository \<Rightarrow> snapshot_request" where
  "auto_snapshot_request trigger metadata repo =
    (let workspace =
       (case wm_workspace metadata of
          Some w \<Rightarrow> w
        | None \<Rightarrow> (case repo_workspace_id repo of Some w \<Rightarrow> workspace_str w | None \<Rightarrow> DEFAULT_WORKSPACE_ID));
       request = with_provenance_attribute (request_automatic_for_trigger trigger) (bstr ''workspace'') workspace in
     optional_attribute (bstr ''model'') (wm_model metadata)
       (optional_attribute (bstr ''task'') (wm_task metadata)
         (optional_attribute (bstr ''agent'') (wm_agent metadata) request)))"

definition snapshot_if_changed_for_watch ::
  "hasher \<Rightarrow> repository \<Rightarrow> materializer \<Rightarrow> auto_snapshot_trigger \<Rightarrow> watch_metadata \<Rightarrow> path list \<Rightarrow> snapshot_result option cli_io" where
  "snapshot_if_changed_for_watch blake3 repo mat trigger metadata hints =
     in_repo (snapshot_if_changed_with_hints blake3 repo mat (auto_snapshot_request trigger metadata repo) hints)"

text \<open>
  The variables of the loop: the materializer, whether the debounce timer is armed, and the paths with changes that
  no snapshot has been asked for, an ascending list.
  The methods of a materializer are functions of the world, so what a capture leaves in its cache is not carried
  from one snapshot to the next; the theorems on captures hold for every cache whose records are right.
\<close>

record 'm watch_state =
  wt_materializer :: 'm
  wt_debounce :: bool
  wt_dirty :: "path list"

datatype watch_input =
    EventReceived "materialization_error + path list"
  | EventsClosed
  | DebounceElapsed
  | ReconcileTick
  | CtrlC "io_kind + unit"

definition save_for_watch ::
  "hasher \<Rightarrow> 'm cli_env \<Rightarrow> repository \<Rightarrow> watch_metadata \<Rightarrow> bool \<Rightarrow> auto_snapshot_trigger \<Rightarrow> path list \<Rightarrow> 'm watch_state \<Rightarrow> 'm watch_state cli_io" where
  "save_for_watch blake3 env repo metadata verbose trigger hints st =
     bind_io (snapshot_if_changed_for_watch blake3 repo (env_methods env (wt_materializer st)) trigger metadata hints) (\<lambda>saved.
     bind_io (print_lines (print_watch_snapshot_result (env_terminal env) saved verbose False)) (\<lambda>_.
     return_io (st\<lparr>wt_dirty := []\<rparr>)))"

text \<open>One round of the loop; no state when it breaks. A branch whose condition is false is not taken.\<close>

definition watch_step ::
  "hasher \<Rightarrow> 'm cli_env \<Rightarrow> repository \<Rightarrow> watch_metadata \<Rightarrow> bool \<Rightarrow> watch_input \<Rightarrow> 'm watch_state \<Rightarrow> 'm watch_state option cli_io" where
  "watch_step blake3 env repo metadata verbose input st =
    (case input of
       EventReceived (Inl e) \<Rightarrow> fail_io (CliFail (CliMaterialization e))
     | EventReceived (Inr paths) \<Rightarrow>
         return_io (Some \<lparr>wt_materializer = env_invalidate env paths (wt_materializer st), wt_debounce = True,
           wt_dirty = fold insort_insert paths (wt_dirty st)\<rparr>)
     | EventsClosed \<Rightarrow> fail_io (CliFail CliWatchStopped)
     | DebounceElapsed \<Rightarrow>
         if wt_debounce st
         then bind_io (save_for_watch blake3 env repo metadata verbose TriggerWatch (wt_dirty st) (st\<lparr>wt_debounce := False\<rparr>))
           (\<lambda>st'. return_io (Some st'))
         else return_io (Some st)
     | ReconcileTick \<Rightarrow>
         bind_io (save_for_watch blake3 env repo metadata verbose TriggerReconcile [] st) (\<lambda>st'. return_io (Some st'))
     | CtrlC (Inl e) \<Rightarrow> fail_io (CliFail (CliSignal e))
     | CtrlC (Inr _) \<Rightarrow> bind_io (print_lines (println (bstr ''Stopped''))) (\<lambda>_. return_io None))"

text \<open>The loop over the branches taken so far: \<open>Some st\<close> when it waits for the next one.\<close>

fun watch_loop ::
  "hasher \<Rightarrow> 'm cli_env \<Rightarrow> repository \<Rightarrow> watch_metadata \<Rightarrow> bool \<Rightarrow> watch_input list \<Rightarrow> 'm watch_state \<Rightarrow> 'm watch_state option cli_io" where
  "watch_loop blake3 env repo metadata verbose [] st = return_io (Some st)"
| "watch_loop blake3 env repo metadata verbose (input # inputs) st =
     bind_io (watch_step blake3 env repo metadata verbose input st) (\<lambda>st'.
     case st' of
       Some st2 \<Rightarrow> watch_loop blake3 env repo metadata verbose inputs st2
     | None \<Rightarrow> return_io None)"

definition watch_start :: "'m \<Rightarrow> 'm watch_state" where
  "watch_start mat = \<lparr>wt_materializer = mat, wt_debounce = False, wt_dirty = []\<rparr>"

text \<open>\<open>watcher\<close>: what starting the watcher of the file system returns.\<close>

definition cmd_watch ::
  "hasher \<Rightarrow> 'm cli_env \<Rightarrow> (path \<Rightarrow> materialization_error + unit) \<Rightarrow> watch_input list \<Rightarrow> watch_args \<Rightarrow> bool \<Rightarrow> 'm watch_state option cli_io" where
  "cmd_watch blake3 env watcher inputs args verbose =
    (let metadata = wa_metadata args in
     bind_io (open_command_repository blake3 env (bootstrap_materializer env) (wa_repo args) (wm_workspace metadata)) (\<lambda>repository.
     let mat = command_materializer env repository in
     if wa_once args then
       bind_io (snapshot_if_changed_for_watch blake3 repository (env_methods env mat) TriggerReconcile metadata []) (\<lambda>saved.
       bind_io (print_lines (print_watch_snapshot_result (env_terminal env) saved verbose True)) (\<lambda>_.
       return_io None))
     else
       bind_io (result_io (map_err (\<lambda>e. CliFail (CliMaterialization e)) (watcher (repo_root repository)))) (\<lambda>_.
       bind_io (print_lines (println (bstr ''Watching for changes''))) (\<lambda>_.
       watch_loop blake3 env repository metadata verbose inputs (watch_start mat)))))"

section \<open>The watcher\<close>

text \<open>
  \<open>crates/materialization/src/watch.rs\<close>: the callback of the notification library sends the loop the paths of a
  notification that a capture looks at, relative to the root, and nothing when there are none.
\<close>

definition relative_included_paths :: "path \<Rightarrow> capture_options \<Rightarrow> path list \<Rightarrow> path list" where
  "relative_included_paths root opts paths =
     filter (\<lambda>p. \<not> excludes_path opts p)
       (map (drop (length root)) (filter (starts_with root) paths))"

definition watch_callback :: "path \<Rightarrow> capture_options \<Rightarrow> rstring + path list \<Rightarrow> (materialization_error + path list) option" where
  "watch_callback root opts notification =
    (case notification of
       Inr paths \<Rightarrow>
         (let paths = relative_included_paths root opts paths in
          if paths \<noteq> [] then Some (Inr paths) else None)
     | Inl source \<Rightarrow> Some (Inl (MatWatch root source)))"

section \<open>The program\<close>

datatype command =
    Init
  | Snap "rstring option" "rstring option" "rstring option" "path option" "rstring option"
  | Status "path option" "rstring option"
  | Branch "rstring option"
  | Switch rstring
  | Restore rstring "path option" "rstring option"
  | Watch watch_args
  | Timeline "path option" "rstring option"
  | Workspace workspace_command

definition run_command ::
  "hasher \<Rightarrow> 'm cli_env \<Rightarrow> (path \<Rightarrow> materialization_error + unit) \<Rightarrow> watch_input list \<Rightarrow> command \<Rightarrow> bool \<Rightarrow> unit cli_io" where
  "run_command blake3 env watcher inputs c verbose =
    (case c of
       Init \<Rightarrow> cmd_init blake3 env verbose
     | Snap label message author repo workspace \<Rightarrow> cmd_snap blake3 env label message author repo workspace verbose
     | Status repo workspace \<Rightarrow> cmd_status blake3 env repo workspace verbose
     | Branch name \<Rightarrow> cmd_branch blake3 env name verbose
     | Switch name \<Rightarrow> cmd_switch blake3 env name verbose
     | Restore target repo workspace \<Rightarrow> cmd_restore blake3 env target repo workspace verbose
     | Watch args \<Rightarrow> bind_io (cmd_watch blake3 env watcher inputs args verbose) (\<lambda>_. return_io ())
     | Timeline repo workspace \<Rightarrow> cmd_timeline blake3 env repo workspace verbose
     | Workspace wc \<Rightarrow> cmd_workspace blake3 env wc verbose)"

end
