(* ===== verification/Error_Display.thy ===== *)
theory Error_Display
  imports Cli_Commands
begin

text \<open>
  What the program says when it fails: the \<open>Display\<close> implementations of the error types of every crate and the end of
  \<open>main\<close>. The text of an \<open>io::Error\<close>, a quoted string (\<open>{:?}\<close>) and the text of a \<open>SystemTimeError\<close> are those of the
  standard library, in the parameter \<open>error_words\<close>.
\<close>

record error_words =
  ew_io :: "io_kind \<Rightarrow> rstring"
  ew_quoted :: "rstring \<Rightarrow> rstring"
  ew_clock :: rstring

section \<open>\<open>era_core\<close>\<close>

definition apostrophes :: "rstring \<Rightarrow> rstring" where
  "apostrophes s = [39] @ s @ [39]"

definition entry_kind_display :: "entry_kind \<Rightarrow> rstring" where
  "entry_kind_display k = (case k of BlobEntry \<Rightarrow> bstr ''blob'' | TreeEntry \<Rightarrow> bstr ''tree'')"

definition entry_name_reason_display :: "invalid_tree_entry_name \<Rightarrow> rstring" where
  "entry_name_reason_display r = (case r of
      NameEmpty \<Rightarrow> bstr ''entry name is empty''
    | NameCurrentDirectory \<Rightarrow> bstr ''entry name cannot be '' @ apostrophes (bstr ''.'')
    | NameParentDirectory \<Rightarrow> bstr ''entry name cannot be '' @ apostrophes (bstr ''..'')
    | NameContainsSlash \<Rightarrow> bstr ''entry name contains '' @ apostrophes (bstr ''/'')
    | NameContainsNul \<Rightarrow> bstr ''entry name contains NUL'')"

definition tree_error_display :: "error_words \<Rightarrow> tree_error \<Rightarrow> rstring" where
  "tree_error_display W e = (case e of
      InvalidName name reason \<Rightarrow>
        bstr ''invalid tree entry name '' @ ew_quoted W name @ bstr '': '' @ entry_name_reason_display reason
    | DuplicateName name \<Rightarrow> bstr ''duplicate tree entry name '' @ ew_quoted W name
    | TreeInvalidMagic \<Rightarrow> bstr ''invalid tree object magic''
    | TreeUnexpectedEof offset needed len \<Rightarrow>
        bstr ''unexpected end of tree object at byte '' @ decimal offset @ bstr '': needed '' @ decimal needed @
        bstr '' bytes, len is '' @ decimal len
    | InvalidEntryKind index b \<Rightarrow> bstr ''invalid tree entry kind 0x'' @ hex_byte b @ bstr '' at entry index '' @ decimal index
    | NameNotUtf8 index \<Rightarrow> bstr ''tree entry name at index '' @ decimal index @ bstr '' is not UTF-8''
    | NonCanonicalOrder previous current \<Rightarrow>
        bstr ''tree entries are not in canonical order: '' @ ew_quoted W previous @ bstr '' appeared before '' @ ew_quoted W current
    | TreeTrailingBytes offset len \<Rightarrow>
        bstr ''tree object has trailing bytes starting at '' @ decimal offset @ bstr ''; len is '' @ decimal len)"

definition snapshot_error_display :: "error_words \<Rightarrow> snapshot_error \<Rightarrow> rstring" where
  "snapshot_error_display W e = (case e of
      SnapshotInvalidMagic \<Rightarrow> bstr ''invalid snapshot object magic''
    | SnapshotUnexpectedEof offset needed len \<Rightarrow>
        bstr ''unexpected end of snapshot object at offset '' @ decimal offset @ bstr '': needed '' @ decimal needed @
        bstr '' bytes, object length is '' @ decimal len
    | InvalidOptionalStringTag field b \<Rightarrow>
        bstr ''invalid optional string tag '' @ decimal (unat b) @ bstr '' for snapshot field '' @ field
    | StringNotUtf8 field \<Rightarrow> bstr ''snapshot field '' @ field @ bstr '' is not UTF-8''
    | DuplicateProvenanceAttribute key \<Rightarrow> bstr ''duplicate provenance attribute key '' @ ew_quoted W key
    | NonCanonicalProvenanceAttributeOrder previous current \<Rightarrow>
        bstr ''provenance attributes are not in canonical order: '' @ ew_quoted W previous @ bstr '' before '' @ ew_quoted W current
    | SnapshotTrailingBytes offset len \<Rightarrow>
        bstr ''snapshot object has trailing bytes starting at offset '' @ decimal offset @
        bstr ''; object length is '' @ decimal len)"

definition parse_object_id_error_display :: "parse_object_id_error \<Rightarrow> rstring" where
  "parse_object_id_error_display e = (case e of
      InvalidLength actual \<Rightarrow>
        bstr ''object ID must be '' @ decimal OBJECT_ID_HEX_LENGTH @ bstr '' hex characters, got '' @ decimal actual
    | InvalidHex index b \<Rightarrow> bstr ''object ID contains non-hex byte 0x'' @ hex_byte b @ bstr '' at index '' @ decimal index)"

section \<open>\<open>era_object_store\<close> and \<open>era_materialization\<close>\<close>

definition object_store_error_display :: "error_words \<Rightarrow> object_store_error \<Rightarrow> rstring" where
  "object_store_error_display W e = (case e of
      StoreIo p source \<Rightarrow> bstr ''object store filesystem error at '' @ display_path p @ bstr '': '' @ ew_io W source
    | MissingObject kind i p \<Rightarrow>
        bstr ''missing '' @ kind_display kind @ bstr '' object '' @ to_hex i @ bstr '' at '' @ display_path p
    | HashMismatch kind p expected actual \<Rightarrow>
        kind_display kind @ bstr '' object integrity check failed at '' @ display_path p @ bstr '': expected '' @
        to_hex expected @ bstr '', got '' @ to_hex actual
    | InvalidBlobDelta i p reason \<Rightarrow>
        bstr ''blob object '' @ to_hex i @ bstr '' at '' @ display_path p @
        bstr '' has an invalid delta representation: '' @ bstr reason
    | BlobDeltaChainTooDeep i p \<Rightarrow>
        bstr ''blob object '' @ to_hex i @ bstr '' at '' @ display_path p @ bstr '' has a delta chain that is too deep''
    | InvalidTreeObject i p source \<Rightarrow>
        bstr ''tree object '' @ to_hex i @ bstr '' at '' @ display_path p @ bstr '' is not canonical: '' @ tree_error_display W source
    | InvalidSnapshotObject i p source \<Rightarrow>
        bstr ''snapshot object '' @ to_hex i @ bstr '' at '' @ display_path p @ bstr '' is not canonical: '' @
        snapshot_error_display W source
    | TempFileExhausted kind directory i \<Rightarrow>
        bstr ''could not allocate temporary file for '' @ kind_display kind @ bstr '' object '' @ to_hex i @ bstr '' in '' @
        display_path directory)"

definition materialization_error_display :: "error_words \<Rightarrow> materialization_error \<Rightarrow> rstring" where
  "materialization_error_display W e = (case e of
      MatRootMissing p \<Rightarrow> bstr ''working directory root is missing: '' @ display_path p
    | MatRootNotDirectory p \<Rightarrow> bstr ''working directory root is not a directory: '' @ display_path p
    | MatIo p source \<Rightarrow> bstr ''filesystem error at '' @ display_path p @ bstr '': '' @ ew_io W source
    | MatWatch p source \<Rightarrow> bstr ''filesystem watch error at '' @ display_path p @ bstr '': '' @ source
    | PathNotUtf8 p \<Rightarrow> bstr ''path contains a non-UTF-8 segment and cannot be captured: '' @ display_path p
    | UnsupportedFileType p \<Rightarrow> bstr ''filesystem entry type is not supported for capture: '' @ display_path p
    | SymlinkUnsupported p \<Rightarrow> bstr ''symlink capture is not supported in this mode: '' @ display_path p
    | InvalidTreeEntry p source \<Rightarrow>
        bstr ''directory entry at '' @ display_path p @ bstr '' cannot be represented in a tree: '' @ tree_error_display W source
    | MatObjectStore source \<Rightarrow> bstr ''object store error: '' @ object_store_error_display W source)"

section \<open>\<open>era_repository\<close>\<close>

definition invalid_branch_name_display :: "error_words \<Rightarrow> invalid_branch_name \<Rightarrow> rstring" where
  "invalid_branch_name_display W e =
     bstr ''invalid branch name '' @ ew_quoted W (ibn_name e) @ bstr '': '' @ branch_reason_display (ibn_reason e)"

definition invalid_workspace_id_display :: "error_words \<Rightarrow> invalid_workspace_id \<Rightarrow> rstring" where
  "invalid_workspace_id_display W e =
     bstr ''invalid workspace ID '' @ ew_quoted W (iwi_id e) @ bstr '': '' @ workspace_reason_display (iwi_reason e)"

definition repository_error_display :: "error_words \<Rightarrow> repository_error \<Rightarrow> rstring" where
  "repository_error_display W e = (case e of
      RootMissing p \<Rightarrow> bstr ''repository working directory is missing: '' @ display_path p
    | RootNotDirectory p \<Rightarrow> bstr ''repository working-directory root is not a directory: '' @ display_path p
    | AlreadyInitialized p \<Rightarrow> bstr ''repository is already initialized: '' @ display_path p
    | NotRepository p \<Rightarrow> bstr ''not an Era repository: '' @ display_path p
    | MetadataNotDirectory p \<Rightarrow> bstr ''Era metadata path is not a directory: '' @ display_path p
    | HeadMissing p \<Rightarrow> bstr ''repository HEAD is missing: '' @ display_path p
    | InvalidHead p contents \<Rightarrow>
        bstr ''repository HEAD at '' @ display_path p @ bstr '' is invalid: '' @ ew_quoted W contents
    | RefMissing p \<Rightarrow> bstr ''current branch ref is missing: '' @ display_path p
    | InvalidRef p contents \<Rightarrow> bstr ''branch ref at '' @ display_path p @ bstr '' is invalid: '' @ ew_quoted W contents
    | InvalidBranchName source \<Rightarrow> invalid_branch_name_display W source
    | InvalidWorkspaceId source \<Rightarrow> invalid_workspace_id_display W source
    | InvalidBranchRefName p \<Rightarrow> bstr ''branch ref name is not UTF-8: '' @ display_path p
    | BranchAlreadyExists name \<Rightarrow> bstr ''branch already exists: '' @ branch_str name
    | BranchNotFound name \<Rightarrow> bstr ''branch not found: '' @ branch_str name
    | WorkspaceAlreadyExists w existing requested \<Rightarrow>
        bstr ''workspace '' @ workspace_str w @ bstr '' is already registered at '' @ display_path existing @
        bstr ''; requested '' @ display_path requested
    | WorkspaceNotFound w \<Rightarrow> bstr ''workspace not found: '' @ workspace_str w
    | InvalidWorkspaceRefName p \<Rightarrow> bstr ''workspace ref name is not UTF-8: '' @ display_path p
    | InvalidWorkspacePointer p contents \<Rightarrow>
        bstr ''workspace pointer at '' @ display_path p @ bstr '' is invalid: '' @ ew_quoted W contents
    | WorkspaceInsideWorkspace p root \<Rightarrow>
        bstr ''refusing to create a workspace inside another workspace: '' @ display_path p @ bstr '' is inside '' @
        display_path root
    | WorkspacePathIsRepository p \<Rightarrow> bstr ''workspace path is already an Era repository: '' @ display_path p
    | LockTimeout p \<Rightarrow> bstr ''timed out waiting for repository lock: '' @ display_path p
    | SnapshotTargetNotFound target \<Rightarrow> bstr ''snapshot target not found: '' @ target
    | SnapshotTargetAmbiguous target matches \<Rightarrow>
        bstr ''snapshot target is ambiguous: '' @ target @ bstr '' matches'' @
        concat (map (\<lambda>i. bstr '' '' @ to_hex i) matches)
    | SnapshotCycle i \<Rightarrow> bstr ''snapshot timeline contains a cycle at '' @ to_hex i
    | ClockBeforeUnixEpoch \<Rightarrow> bstr ''system clock is before the Unix epoch: '' @ ew_clock W
    | TimestampOverflow millis \<Rightarrow>
        bstr ''snapshot timestamp '' @ decimal millis @ bstr ''ms since the Unix epoch does not fit in u64''
    | RepoIo p source \<Rightarrow> bstr ''repository filesystem error at '' @ display_path p @ bstr '': '' @ ew_io W source
    | RepoObjectStore source \<Rightarrow> bstr ''object store error: '' @ object_store_error_display W source
    | RepoMaterialization source \<Rightarrow> bstr ''materialization error: '' @ materialization_error_display W source)"

section \<open>\<open>main\<close>\<close>

definition cli_error_display :: "error_words \<Rightarrow> cli_error \<Rightarrow> rstring" where
  "cli_error_display W e = (case e of
      CliCurrentDirectory source \<Rightarrow> bstr ''could not determine current directory: '' @ ew_io W source
    | CliEmptyTimeline \<Rightarrow> bstr ''repository timeline is empty''
    | CliWatchStopped \<Rightarrow> bstr ''filesystem watcher stopped''
    | CliSignal source \<Rightarrow> bstr ''could not listen for Ctrl-C: '' @ ew_io W source
    | CliRepository source \<Rightarrow> repository_error_display W source
    | CliMaterialization source \<Rightarrow> materialization_error_display W source)"

text \<open>
  The log filter: the first of the two variables of the environment that is set, where the library, \<open>parse\<close>, accepts
  it, and otherwise the filter \<open>off\<close>.
\<close>

definition tracing_filter_from_directive :: "(rstring \<Rightarrow> 'f option) \<Rightarrow> 'f \<Rightarrow> rstring option \<Rightarrow> 'f" where
  "tracing_filter_from_directive parse off directive =
     (case Option.bind directive parse of Some f \<Rightarrow> f | None \<Rightarrow> off)"

definition tracing_filter :: "(rstring \<Rightarrow> 'f option) \<Rightarrow> 'f \<Rightarrow> (rstring \<Rightarrow> rstring option) \<Rightarrow> 'f" where
  "tracing_filter parse off var =
     tracing_filter_from_directive parse off
       (case var (bstr ''ERA_LOG'') of Some d \<Rightarrow> Some d | None \<Rightarrow> var (bstr ''RUST_LOG''))"

datatype exit_code = ExitSuccess | ExitFailure | ExitPanic

text \<open>A panic ends the process with a status of its own; its message is the runtime's.\<close>

definition era_main ::
  "hasher \<Rightarrow> error_words \<Rightarrow> 'm cli_env \<Rightarrow> (path \<Rightarrow> materialization_error + unit) \<Rightarrow> watch_input list \<Rightarrow> command \<Rightarrow> bool \<Rightarrow>
    cli_state \<Rightarrow> exit_code \<times> cli_state" where
  "era_main blake3 W env watcher inputs c verbose s =
    (case run_command blake3 env watcher inputs c verbose s of
       (Inr _, s') \<Rightarrow> (ExitSuccess, s')
     | (Inl (CliFail e), s') \<Rightarrow>
         (ExitFailure, s'\<lparr>cl_out := cl_out s' @
           [Stderr (styled (env_terminal env) error_style (bstr ''error:'') @ bstr '' '' @ cli_error_display W e)]\<rparr>)
     | (Inl CliPanic, s') \<Rightarrow> (ExitPanic, s'))"

end
