(* ===== verification/Cli_Properties.thy ===== *)
theory Cli_Properties
  imports Timeline_Rendering Error_Display Store_Contract
begin

text \<open>
  The program. No command panics: the snapshot graph that \<open>era timeline\<close> draws is always one that the renderer can
  draw, so the program ends in success or reports an error.
\<close>

section \<open>The graph that is drawn\<close>

lemma bind_Ok_iff: "bind_io m f s = (Ok y, s') \<longleftrightarrow> (\<exists>x s1. m s = (Ok x, s1) \<and> f x s1 = (Ok y, s'))"
  by (auto simp: bind_io_def split: prod.splits sum.splits)

lemma return_Ok_iff [simp]: "return_io x s = (Ok y, s') \<longleftrightarrow> y = x \<and> s' = s"
  by (auto simp: return_io_def)

lemma index_ids_distinct: "list_snapshot_index_ids md w = (Ok ids, w') \<Longrightarrow> distinct ids"
proof -
  have "distinct (remdups_adj (sort xs))" for xs :: "object_id list"
    using sorted_remdups_adj_strict [OF sorted_sort, of xs] by (simp add: strict_sorted_iff)
  then show "list_snapshot_index_ids md w = (Ok ids, w') \<Longrightarrow> distinct ids"
    by (auto simp: list_snapshot_index_ids_def Let_def bind_Ok_iff split: if_splits)
qed

lemma load_entries_ids: "load_entries blake3 repo ids w = (Ok es, w') \<Longrightarrow> map te_snapshot_id es = ids"
  by (induction ids arbitrary: w es w') (auto simp: bind_Ok_iff)

lemma all_entries_sorted:
  assumes "all_snapshot_entries blake3 repo w = (Ok es, w')"
  shows "distinct (map te_snapshot_id es) \<and> sorted (map entry_key es)"
proof -
  obtain es0 w1 w2 where es0: "list_snapshot_index_ids (repo_metadata_dir repo) w1 = (Ok (map te_snapshot_id es0), w2)"
      "es = sort_key entry_key es0"
    using assms load_entries_ids by (fastforce simp: all_snapshot_entries_def bind_Ok_iff)
  then have "distinct (map te_snapshot_id es0)" using index_ids_distinct by blast
  then show ?thesis unfolding es0(2) by (simp add: distinct_map)
qed

text \<open>What the command loads: entries in the order of their keys, all different, and the snapshots of the working tree.\<close>

definition graph_ok :: "printable_timeline_graph \<Rightarrow> bool" where
  "graph_ok G \<longleftrightarrow>
     distinct (map te_snapshot_id (sg_entries (pg_graph G))) \<and> sorted (map entry_key (sg_entries (pg_graph G))) \<and>
     sorted_wrt (<) (pg_worktree_matches G) \<and>
     set (pg_worktree_matches G) =
       {te_snapshot_id e | e. e \<in> set (sg_entries (pg_graph G)) \<and> snap_root (te_snapshot e) = pg_worktree_root_tree_id G}"

lemma loaded_graph_ok:
  assumes "load_printable_timeline_graph blake3 repo mat w = (Ok G, w')"
  shows "graph_ok G"
proof -
  obtain es w1 w2 where "all_snapshot_entries blake3 repo w1 = (Ok es, w2)" "sg_entries (pg_graph G) = es"
    "pg_worktree_matches G = sort (remdups (map te_snapshot_id (filter (\<lambda>e. snap_root (te_snapshot e) = pg_worktree_root_tree_id G) es)))"
    using assms by (fastforce simp: load_printable_timeline_graph_def snapshot_graph_of_def bind_Ok_iff Let_def)
  then show ?thesis using all_entries_sorted [of blake3 repo w1 es w2]
    by (auto simp: graph_ok_def sorted_wrt_less_iff)
qed

section \<open>No command panics\<close>

definition no_panic :: "'a cli_io \<Rightarrow> bool" where
  "no_panic m \<longleftrightarrow> (\<forall>s. fst (m s) \<noteq> Inl CliPanic)"

named_theorems calm

lemma calm_bind: "no_panic m \<Longrightarrow> (\<And>x. no_panic (f x)) \<Longrightarrow> no_panic (bind_io m f)"
  by (auto simp: no_panic_def bind_io_def split: prod.split sum.split) (metis fst_conv)

lemma calm_basic [calm]:
  "no_panic (return_io x)" "no_panic (in_repo m)" "no_panic (print_lines ls)" "no_panic (cli_current_directory env)"
  "no_panic (fail_io (CliFail e))" "no_panic (result_io (map_err (\<lambda>e. CliFail (f e)) r))"
  by (auto simp: no_panic_def return_io_def in_repo_def print_lines_def cli_current_directory_def fail_io_def result_io_def
      map_err_def split: prod.split sum.split)

lemma calm_open [calm]:
  "no_panic (infer_workspace_id env p workspace)" "no_panic (parse_branch name)" "no_panic (open_shared env repo)"
  "no_panic (open_command_repository blake3 env mat repo workspace)"
  by (auto simp: infer_workspace_id_def parse_branch_def open_shared_def open_command_repository_def Let_def
      intro!: calm_bind calm split: option.split)

lemma calm_watch [calm]: "no_panic (watch_loop blake3 env repo metadata verbose inputs st)"
proof (induction inputs arbitrary: st)
  case (Cons input inputs)
  have "no_panic (watch_step blake3 env repo metadata verbose input st)"
    by (auto simp: watch_step_def save_for_watch_def snapshot_if_changed_for_watch_def intro!: calm_bind calm
        split: watch_input.split sum.split)
  then show ?case using Cons by (auto intro!: calm_bind calm split: option.split)
qed (simp add: calm)

lemma calm_timeline [calm]: "no_panic (cmd_timeline blake3 env repo workspace verbose)"
proof -
  let ?draw = "\<lambda>cursor graph. case print_timeline_graph (env_terminal env) cursor graph verbose of
    None \<Rightarrow> fail_io CliPanic | Some ls \<Rightarrow> print_lines ls"
  have *: "no_panic (bind_io (in_repo (load_printable_timeline_graph blake3 r mat)) (?draw cursor))" for r mat cursor
    unfolding no_panic_def
  proof
    fix s
    show "fst (bind_io (in_repo (load_printable_timeline_graph blake3 r mat)) (?draw cursor) s) \<noteq> Inl CliPanic"
    proof (cases "load_printable_timeline_graph blake3 r mat (cl_world s)")
      case (Pair x w')
      then show ?thesis
      proof (cases x)
        case (Inr G)
        then have "distinct (entry_ids (sg_entries (pg_graph G)))" using loaded_graph_ok Pair by (auto simp: graph_ok_def)
        from print_timeline_ok [OF this] obtain ls where "print_timeline_graph (env_terminal env) cursor G verbose = Some ls"
          by blast
        then show ?thesis using Pair Inr by (simp add: bind_io_def in_repo_def map_err_def print_lines_def)
      qed (simp add: bind_io_def in_repo_def map_err_def)
    qed
  qed
  show ?thesis unfolding cmd_timeline_def Let_def
    by (intro calm_bind [OF calm_open(4)] calm_bind [OF calm_basic(2) *])
qed

lemma calm_run: "no_panic (run_command blake3 env watcher inputs c verbose)"
  by (auto simp: run_command_def cmd_init_def cmd_snap_def cmd_status_def cmd_branch_def cmd_switch_def cmd_restore_def
      cmd_workspace_def cmd_watch_def snapshot_if_changed_for_watch_def Let_def intro!: calm_bind calm
      split: command.split option.split workspace_command.split)


end
