(* ===== verification/Capture_Safety.thy ===== *)
theory Capture_Safety
  imports Capture_Properties Repo_Properties
begin

text \<open>
  What every capture keeps, with or without hints, whatever its cache holds: files are only added, the store stays
  sound, stamps stay, and the tree it returns has an identifier. This is the law that the repository asks of a
  materializer, so that what is proved of its operations holds with the materializer of the file system.
\<close>

section \<open>Safe computations\<close>

definition ids_valid :: "capture_cache \<Rightarrow> bool" where
  "ids_valid c \<longleftrightarrow> (\<forall>p d. map_of (cc_directories c) p = Some d \<longrightarrow> valid_id (cd_tree_id d))"

definition sound_state :: "hasher \<Rightarrow> local_object_store \<Rightarrow> 'd mat_state \<Rightarrow> bool" where
  "sound_state h st s \<longleftrightarrow> (\<forall>fs p b. w_rely (ms_world s) fs p b \<longrightarrow> store_rely h st fs p b) \<and>
     store_ok h st (w_fs (ms_world s)) \<and> ids_valid (fm_cache (ms_fm s))"

definition adds_to :: "world \<Rightarrow> world \<Rightarrow> bool" where
  "adds_to w w' \<longleftrightarrow> w_rely w' = w_rely w \<and> w_stamps w' = w_stamps w \<and> fs_ext (w_fs w) (w_fs w')"

definition safe :: "hasher \<Rightarrow> local_object_store \<Rightarrow> ('d, 'a) fm_io \<Rightarrow> ('a \<Rightarrow> bool) \<Rightarrow> bool" where
  "safe h st m Q \<longleftrightarrow> (\<forall>s r s'. m s = (r, s') \<longrightarrow> sound_state h st s \<longrightarrow>
     sound_state h st s' \<and> adds_to (ms_world s) (ms_world s') \<and> (\<forall>x. r = Ok x \<longrightarrow> Q x))"

lemma safeD:
  "safe h st m Q \<Longrightarrow> m s = (r, s') \<Longrightarrow> sound_state h st s \<Longrightarrow>
     sound_state h st s' \<and> adds_to (ms_world s) (ms_world s') \<and> (\<forall>x. r = Ok x \<longrightarrow> Q x)"
  unfolding safe_def by blast

lemma adds_to_refl [simp]: "adds_to w w"
  by (simp add: adds_to_def)

lemma adds_to_trans: "adds_to w1 w2 \<Longrightarrow> adds_to w2 w3 \<Longrightarrow> adds_to w1 w3"
  by (auto simp: adds_to_def intro: fs_ext_trans)

named_theorems safe_intros

lemma safe_bind_fact:
  assumes m: "safe h st m M" and f: "\<And>x. M x \<Longrightarrow> safe h st (f x) Q"
  shows "safe h st (bind_io m f) Q"
  unfolding safe_def
proof (intro allI impI)
  fix s r s'
  assume run: "bind_io m f s = (r, s')" and s: "sound_state h st s"
  obtain r1 s1 where m1: "m s = (r1, s1)" by fastforce
  note 1 = safeD [OF m m1 s]
  show "sound_state h st s' \<and> adds_to (ms_world s) (ms_world s') \<and> (\<forall>x. r = Ok x \<longrightarrow> Q x)"
  proof (cases r1)
    case (Inl e)
    then show ?thesis using run m1 1 by (auto simp: bind_io_def)
  next
    case (Inr x)
    then have "f x s1 = (r, s')" using run m1 by (simp add: bind_io_def)
    from safeD [OF f this] show ?thesis using 1 Inr adds_to_trans by blast
  qed
qed

lemma safe_bind [safe_intros]:
  "safe h st m (\<lambda>x. True) \<Longrightarrow> (\<And>x. safe h st (f x) Q) \<Longrightarrow> safe h st (bind_io m f) Q"
  by (rule safe_bind_fact)

lemma safe_post: "safe h st m Q \<Longrightarrow> (\<And>x. Q x \<Longrightarrow> R x) \<Longrightarrow> safe h st m R"
  unfolding safe_def by blast

lemma safe_fail [safe_intros]: "safe h st (fail_io e) Q"
  by (auto simp: safe_def fail_io_def)

lemma safe_return: "Q x \<Longrightarrow> safe h st (return_io x) Q"
  by (auto simp: safe_def return_io_def)

lemma safe_gets: "(\<And>s. Q (f s)) \<Longrightarrow> safe h st (gets f) Q"
  by (auto simp: safe_def gets_def)

lemma safe_trivial [safe_intros]:
  "safe h st (return_io x) (\<lambda>x. True)" "safe h st (result_io r) (\<lambda>x. True)" "safe h st (gets f) (\<lambda>x. True)"
  by (auto simp: safe_def return_io_def result_io_def gets_def)

lemma safe_modifies:
  "(\<And>s. ms_world (f s) = ms_world s) \<Longrightarrow> (\<And>s. ids_valid (fm_cache (ms_fm s)) \<Longrightarrow> ids_valid (fm_cache (ms_fm (f s)))) \<Longrightarrow>
     safe h st (modifies f) (\<lambda>x. True)"
  by (auto simp: safe_def modifies_def sound_state_def)

lemma safe_modify [safe_intros]:
  "safe h st (modify_capture g) (\<lambda>x. True)" "safe h st (push_issue p) (\<lambda>x. True)" "safe h st (set_dirty b) (\<lambda>x. True)"
  "safe h st start_capture (\<lambda>x. True)"
  unfolding modify_capture_def push_issue_def set_dirty_def start_capture_def by (rule safe_modifies; simp)+

lemma safe_option [safe_intros]:
  "(x = None \<Longrightarrow> safe h st m Q) \<Longrightarrow> (\<And>y. x = Some y \<Longrightarrow> safe h st (f y) Q) \<Longrightarrow> safe h st (case x of None \<Rightarrow> m | Some y \<Rightarrow> f y) Q"
  by (cases x) simp_all

lemma safe_sum [safe_intros]:
  "(\<And>e. x = Inl e \<Longrightarrow> safe h st (m e) Q) \<Longrightarrow> (\<And>y. x = Inr y \<Longrightarrow> safe h st (f y) Q) \<Longrightarrow>
     safe h st (case x of Inl e \<Rightarrow> m e | Inr y \<Rightarrow> f y) Q"
  by (cases x) simp_all

lemma safe_if [safe_intros]:
  "(c \<Longrightarrow> safe h st m Q) \<Longrightarrow> (\<not> c \<Longrightarrow> safe h st m' Q) \<Longrightarrow> safe h st (if c then m else m') Q"
  by simp

lemma safe_let [safe_intros]: "safe h st (f x) Q \<Longrightarrow> safe h st (let y = x in f y) Q"
  by simp

section \<open>The world\<close>

lemma safe_try_world:
  assumes "\<And>fs1. hoare (store_rely h st) (\<lambda>fs. fs_ext fs1 fs \<and> store_ok h st fs) m (\<lambda>r fs. (fs_ext fs1 fs \<and> store_ok h st fs) \<and> Q r)"
  shows "safe h st (try_world m) Q"
  unfolding safe_def
proof (intro allI impI)
  fix s r s'
  assume run: "try_world m s = (r, s')" and s: "sound_state h st s"
  obtain r1 w1 where w1: "m (ms_world s) = (r1, w1)" by fastforce
  have s': "s' = s\<lparr>ms_world := w1\<rparr>" and r: "r = Ok r1" using run w1 by (simp_all add: try_world_def)
  have pre: "\<And>fs p b. w_rely (ms_world s) fs p b \<Longrightarrow> store_rely h st fs p b"
      "fs_ext (w_fs (ms_world s)) (w_fs (ms_world s)) \<and> store_ok h st (w_fs (ms_world s))"
    using s by (auto simp: sound_state_def)
  have "((fs_ext (w_fs (ms_world s)) (w_fs w1) \<and> store_ok h st (w_fs w1)) \<and> Q r1) \<and> w_rely w1 = w_rely (ms_world s)"
    using hoareD [OF assms w1] pre by blast
  moreover have "w_stamps w1 = w_stamps (ms_world s)" using hoare_stamps [OF assms w1] pre by blast
  ultimately show "sound_state h st s' \<and> adds_to (ms_world s) (ms_world s') \<and> (\<forall>x. r = Ok x \<longrightarrow> Q x)"
    using s by (auto simp: s' r sound_state_def adds_to_def)
qed

lemma safe_on_world:
  assumes "\<And>fs1. hoare (store_rely h st) (\<lambda>fs. fs_ext fs1 fs \<and> store_ok h st fs) m
    (\<lambda>r fs. (fs_ext fs1 fs \<and> store_ok h st fs) \<and> (\<forall>x. r = Ok x \<longrightarrow> Q x))"
  shows "safe h st (on_world g m) Q"
  unfolding on_world_def
  by (rule safe_bind_fact [OF safe_try_world [OF assms]]) (auto simp: safe_def result_io_def map_err_def split: sum.splits)

lemma stable_sound: "stable (store_rely h st) (\<lambda>fs. fs_ext fs1 fs \<and> store_ok h st fs)"
  by (rule stable_store_ok_ext)

lemma safe_keeps:
  assumes "\<And>fs1. keeps (store_rely h st) (\<lambda>fs. fs_ext fs1 fs \<and> store_ok h st fs) m"
  shows "safe h st (try_world m) (\<lambda>x. True)" "safe h st (on_world g m) (\<lambda>x. True)"
  using assms by (auto simp: keeps_def intro!: safe_try_world safe_on_world)

lemma safe_reads [safe_intros]:
  "safe h st (on_world g (file_stat p)) (\<lambda>x. True)" "safe h st (try_world (file_metadata p)) (\<lambda>x. True)"
  "safe h st (on_world k (read_directory_entries dir rel)) (\<lambda>x. True)"
  "safe h st (on_world k (ensure_capture_root root)) (\<lambda>x. True)"
  by (intro safe_keeps keeps_read keeps_read_directory_entries stable_sound,
      intro safe_keeps keeps_read keeps_read_directory_entries stable_sound,
      intro safe_keeps keeps_read keeps_read_directory_entries stable_sound,
      unfold ensure_capture_root_def, intro safe_keeps keeps_intros keeps_read stable_sound)

lemma safe_read_file: "safe h st (on_world g (read_file p)) fits_memory"
  unfolding read_file_def
  by (rule safe_on_world, rule hoare_syscall [OF stable_sound])
    (auto simp: op_read_def no_effect_def split: sum.splits node.splits if_splits)

lemma safe_create_dir_all: "safe h st (try_world (create_dir_all p)) (\<lambda>x. True)"
  unfolding create_dir_all_def
  by (rule safe_try_world, rule hoare_syscall [OF stable_sound])
    (auto simp: op_create_dir_all_def intro: store_ok_mkdirs fs_ext_trans [OF _ mkdirs_ext] prod.collapse [symmetric])

lemma safe_put_blob:
  assumes "hash_ok h" "fits_memory b"
  shows "safe h st (on_world g (put_blob_with_base h st b base)) (\<lambda>x. True)"
  by (rule safe_on_world, rule hoare_post [OF hoare_put_blob_with_base]) (use assms in auto)

lemma safe_put_tree:
  assumes "hash_ok h" "tree_to_canonical_bytes t = Some b" "fits_memory b"
  shows "safe h st (put_tree_io h st t) (\<lambda>x. True)"
proof -
  have put: "put_tree_io h st t = (on_world MatObjectStore (put_object h st TreeObject (from_content h b) b) :: ('a, object_id) fm_io)"
    by (simp add: put_tree_io_def put_tree_def assms(2) or_abort_def bind_io_def result_io_def fun_eq_iff)
  show ?thesis
    unfolding put by (rule safe_on_world, rule hoare_post [OF hoare_put_raw]) (use assms in auto)
qed

lemma safe_tree_id:
  "hash_ok h \<Longrightarrow> safe h st (tree_id_io h t) (\<lambda>i. valid_id i \<and> (\<exists>b. tree_to_canonical_bytes t = Some b \<and> fits_memory b))"
  unfolding tree_id_io_def by (auto intro!: safe_intros safe_return valid_from_content)
section \<open>The cache\<close>

lemma ids_valid_cache:
  assumes "hash_ok h"
  shows "ids_valid c \<longleftrightarrow> cache_valid h db d (\<lambda>p f. True) (\<lambda>p d. valid_id (cd_tree_id d)) c"
proof -
  have "valid_id (cd_tree_id f)" if "decode_directory h v = Some (Ok f)" for v f
    using that valid_from_content [OF assms]
    by (auto simp: decode_directory_def tree_id_def bind_eq_Some_conv split: sum.splits prod.splits option.splits)
  then show ?thesis unfolding ids_valid_def cache_valid_def db_files_valid_def db_dirs_valid_def by auto
qed

lemma safe_on_cache:
  assumes "hash_ok h" and "\<And>d c x c'. f d c = Some (x, c') \<Longrightarrow>
    cache_valid h db d (\<lambda>p f. True) (\<lambda>p d. valid_id (cd_tree_id d)) c \<Longrightarrow>
    cache_valid h db d (\<lambda>p f. True) (\<lambda>p d. valid_id (cd_tree_id d)) c' \<and> Q x"
  shows "safe h st (on_cache f) Q"
  unfolding safe_def
proof (intro allI impI)
  fix s r s'
  assume run: "on_cache f s = (r, s')" and s: "sound_state h st s"
  have ids: "ids_valid c = cache_valid h db (ms_db s) (\<lambda>p f. True) (\<lambda>p d. valid_id (cd_tree_id d)) c" for c
    by (rule ids_valid_cache [OF assms(1)])
  show "sound_state h st s' \<and> adds_to (ms_world s) (ms_world s') \<and> (\<forall>x. r = Ok x \<longrightarrow> Q x)"
    using run s assms(2) unfolding sound_state_def ids
    by (auto simp: on_cache_def ids split: option.splits)
qed

lemma safe_cache_update:
  assumes "hash_ok h" and "\<And>d c x c'. f d c = Some (x, c') \<Longrightarrow>
    cache_valid h db d (\<lambda>p f. True) (\<lambda>p d. valid_id (cd_tree_id d)) c \<Longrightarrow>
    cache_valid h db d (\<lambda>p f. True) (\<lambda>p d. valid_id (cd_tree_id d)) c'"
  shows "safe h st (cache_update f) (\<lambda>x. True)"
  unfolding cache_update_def by (rule safe_bind, rule safe_on_cache [OF assms(1), of _ db]) (use assms(2) in \<open>auto intro: safe_intros\<close>)

lemma safe_cache:
  assumes "hash_ok h"
  shows "safe h st (cached_file_lookup_of db p fp) (\<lambda>x. True)"
    "safe h st (store_cached_file_id db p fp i b) (\<lambda>x. True)"
    "valid_id i \<Longrightarrow> safe h st (store_cached_directory h db p i es b) (\<lambda>x. True)"
    "safe h st (store_cached_directory_entries h db p es) (\<lambda>x. True)"
    "safe h st (load_all_cache_records h db) (\<lambda>x. True)"
    "safe h st drop_bulk_loaded_cache_records (\<lambda>x. True)"
    "safe h st (cached_directory_of h db p) (\<lambda>x. \<forall>d. x = Some d \<longrightarrow> valid_id (cd_tree_id d))"
proof -
  show "safe h st (cached_file_lookup_of db p fp) (\<lambda>x. True)"
    unfolding cached_file_lookup_of_def by (rule safe_on_cache [OF assms, of _ db]) (drule (1) file_lookup_valid, simp)
  show "safe h st (store_cached_file_id db p fp i b) (\<lambda>x. True)"
    unfolding store_cached_file_id_def by (rule safe_cache_update [OF assms, of _ db], erule insert_file_valid) auto
  show "safe h st (store_cached_directory h db p i es b) (\<lambda>x. True)" if "valid_id i"
    unfolding store_cached_directory_def by (rule safe_cache_update [OF assms, of _ db], erule insert_directory_valid) (use that in auto)
  show "safe h st (store_cached_directory_entries h db p es) (\<lambda>x. True)"
    unfolding store_cached_directory_entries_def
    by (rule safe_cache_update [OF assms, of _ db], erule update_directory_entries_valid)
      (auto simp: tree_id_def valid_from_content [OF assms])
  show "safe h st (load_all_cache_records h db) (\<lambda>x. True)"
    unfolding load_all_cache_records_def
    by (rule safe_bind, rule safe_on_cache [OF assms, of _ db]) (auto dest: load_all_valid intro: safe_intros)
  show "safe h st (cached_directory_of h db p) (\<lambda>x. \<forall>d. x = Some d \<longrightarrow> valid_id (cd_tree_id d))"
    unfolding cached_directory_of_def get_directory_def by (rule safe_on_cache [OF assms, of _ db], drule (1) current_directory_valid, blast)
  show "safe h st drop_bulk_loaded_cache_records (\<lambda>x. True)"
    unfolding drop_bulk_loaded_cache_records_def
    by (rule safe_modifies) (auto simp: ids_valid_def drop_bulk_loaded_records_def split: if_splits)
qed
lemma safe_flush: "safe h st (flush_cache h db) (\<lambda>x. True)"
proof -
  have "cc_directories c' = cc_directories c" if "cache_flush h db c d = Some (r, c', d')" for c c' d d' r
    using that by (auto simp: cache_flush_def cache_clean_def split: option.splits if_splits sum.splits prod.splits Option.bind_splits)
  then show ?thesis by (auto simp: safe_def flush_cache_def sound_state_def ids_valid_def split: option.splits prod.splits)
qed

lemma safe_save: "safe h st (save_cache_if_dirty h db) (\<lambda>x. True)"
  unfolding save_cache_if_dirty_def by (intro safe_intros safe_flush)

lemma safe_invalidate: "safe h st (invalidate_paths ps :: ('a, unit) fm_io) (\<lambda>x. True)"
proof (induction ps)
  case (Cons p ps)
  have "ids_valid (snd (invalidate_path p c))" if "ids_valid c" for c
    using that by (auto simp: ids_valid_def invalidate_path_def invalidate_in_memory_def Let_def)
  then have "safe h st (on_cache (\<lambda>d c. Some (invalidate_path p c)) :: ('a, bool) fm_io) (\<lambda>x. True)"
    by (fastforce simp: safe_def on_cache_def sound_state_def split: prod.splits)
  then have "safe h st (cache_update (\<lambda>d c. Some (invalidate_path p c)) :: ('a, unit) fm_io) (\<lambda>x. True)"
    unfolding cache_update_def by (intro safe_bind safe_intros)
  then show ?case using Cons by (simp add: safe_bind)
qed (simp add: safe_trivial)

lemma safe_ensure_loaded: "safe h st (ensure_cache_loaded db) (\<lambda>x. True)"
  unfolding safe_def
proof (intro allI impI)
  fix s r s'
  assume run: "ensure_cache_loaded db s = (r, s')" and s: "sound_state h st s"
  have "sound_state h st s' \<and> adds_to (ms_world s) (ms_world s')"
    using run
  proof (cases rule: ensure_cache_loaded_run)
    case 1
    then show ?thesis using s by (simp add: sound_state_def)
  next
    case (2 p s1 r1 opened d os)
    have "sound_state h st s1 \<and> adds_to (ms_world s) (ms_world s1)"
      using 2(3) s safeD [OF safe_create_dir_all [of h st]] by (auto intro: adds_to_refl)
    then show ?thesis by (auto simp: 2(5) loaded_with_def sound_state_def ids_valid_def capture_cache_default_def)
  qed
  then show "sound_state h st s' \<and> adds_to (ms_world s) (ms_world s') \<and> (\<forall>x. r = Ok x \<longrightarrow> True)" by simp
qed

section \<open>Captures\<close>

lemma safe_invalid_entry [safe_intros]: "safe h st (invalid_entry p r) (\<lambda>x. True)"
  unfolding invalid_entry_def by (rule safe_trivial)

lemma safe_capture_current_file:
  assumes "hash_ok h"
  shows "safe h st (capture_current_file h db st entry base) (\<lambda>x. True)"
  unfolding capture_current_file_def Let_def
  by (intro safe_intros safe_cache [OF assms] safe_bind_fact [OF safe_read_file] safe_put_blob [OF assms])

lemma safe_collect:
  "(\<And>x. safe h st (f x) (\<lambda>x. True)) \<Longrightarrow> safe h st (collect_entries f xs) (\<lambda>x. True)"
  by (induction xs) (auto intro!: safe_intros)

lemma safe_capture_entry:
  assumes "hash_ok h" "\<And>p q. safe h st (enter p q) (\<lambda>x. True)"
  shows "safe h st (capture_entry h db st options enter entry) (\<lambda>x. True)"
  unfolding capture_entry_def
  by (cases "de_type entry"; cases "co_symlinks options")
    (auto intro!: safe_intros safe_capture_current_file [OF assms(1)] assms(2))

text \<open>A tree is put and recorded in the cache: the part that a capture and a rebuild of ancestors share.\<close>

lemma safe_with_tree_id:
  assumes "hash_ok h" "\<And>i b. valid_id i \<Longrightarrow> tree_to_canonical_bytes t = Some b \<Longrightarrow> fits_memory b \<Longrightarrow> safe h st (f i) Q"
  shows "safe h st (bind_io (tree_id_io h t) f) Q"
  by (rule safe_bind_fact [OF safe_tree_id [OF assms(1)]]) (use assms(2) in blast)

lemma safe_capture_tree_of:
  assumes "hash_ok h"
  shows "safe h st (capture_tree_of h db st dir rel entries) valid_id"
  unfolding capture_tree_of_def
proof (intro safe_bind [OF safe_invalid_entry] safe_with_tree_id [OF assms])
  fix t i b
  assume *: "valid_id i" "tree_to_canonical_bytes t = Some b" "fits_memory b"
  note put = safe_put_tree [OF assms *(2,3)]
  show "safe h st (bind_io (cached_directory_of h db rel) (\<lambda>cached. bind_io (case cached of
         Some d \<Rightarrow> if cd_stored d \<and> cd_tree_id d = i then return_io ()
           else bind_io (put_tree_io h st t) (\<lambda>_. modify_capture (\<lambda>c. c\<lparr>cs_trees_stored := cs_trees_stored c + 1\<rparr>))
       | None \<Rightarrow> bind_io (put_tree_io h st t) (\<lambda>_. modify_capture (\<lambda>c. c\<lparr>cs_trees_stored := cs_trees_stored c + 1\<rparr>)))
     (\<lambda>_. bind_io (store_cached_directory h db rel i (tree_entries t) True) (\<lambda>_. return_io i)))) valid_id"
    by (intro safe_bind [OF safe_post [OF safe_cache(7) [OF assms]]] safe_bind [OF _ safe_bind [OF safe_cache(3) [OF assms *(1)] safe_return [of valid_id, OF *(1)]]])
      (auto intro!: safe_intros put)
qed

lemma safe_capture_directory:
  "hash_ok h \<Longrightarrow> safe h st (capture_directory h db st options n dir rel) valid_id"
proof (induction n arbitrary: dir rel)
  case (Suc n)
  have "safe h st (capture_entry h db st options (capture_directory h db st options n) e) (\<lambda>x. True)" for e
    by (rule safe_capture_entry [OF Suc.prems]) (rule safe_post [OF Suc.IH [OF Suc.prems]], simp)
  then show ?case
    by (auto intro!: safe_bind safe_modify safe_reads safe_collect safe_capture_tree_of [OF Suc.prems])
qed (simp add: safe_fail)

definition result_valid :: "capture_result \<Rightarrow> bool" where
  "result_valid c \<longleftrightarrow> valid_id (cr_root_tree_id c)"

lemma safe_captured: "valid_id i \<Longrightarrow> safe h st (captured i) result_valid"
  unfolding captured_def by (rule safe_gets) (simp add: capture_result_new_def result_valid_def)

lemma safe_capture_tree:
  assumes "hash_ok h"
  shows "safe h st (capture_tree h db wd st) result_valid"
  unfolding capture_tree_def
  by (intro safe_bind [OF safe_ensure_loaded] safe_bind [OF safe_cache(5) [OF assms]] safe_bind [OF safe_reads(4)]
        safe_bind [OF safe_modify(4)] safe_bind [OF safe_trivial(3)])
    (auto intro!: safe_bind_fact [OF safe_capture_directory [OF assms]] safe_bind_fact [OF safe_captured] safe_bind [OF safe_save]
      safe_bind [OF safe_cache(6) [OF assms]] safe_return)
section \<open>Captures with hints\<close>

lemma safe_found_directory:
  assumes "hash_ok h" "safe h st m Q" "\<And>d. valid_id (cd_tree_id d) \<Longrightarrow> safe h st (f d) Q"
  shows "safe h st (bind_io (cached_directory_of h db p) (\<lambda>found. case found of None \<Rightarrow> m | Some d \<Rightarrow> f d)) Q"
  by (rule safe_bind_fact [OF safe_cache(7) [OF assms(1)]]) (use assms(2,3) in \<open>auto split: option.split\<close>)

lemma safe_rebuild:
  "hash_ok h \<Longrightarrow> safe h st (rebuild_cached_ancestors h db st p) (\<lambda>x. True)"
proof (induction h db st p rule: rebuild_cached_ancestors.induct)
  case (1 h db st p)
  note h = \<open>hash_ok h\<close>
  have rest: "safe h st (rebuild_cached_ancestors h db st (relative_parent p)) (\<lambda>x. True)" if "p \<noteq> []"
    by (rule "1.IH") (use that h in auto)
  show ?case
    unfolding rebuild_cached_ancestors.simps [of h db st p]
    by (intro safe_found_directory [OF h] safe_with_tree_id [OF h] safe_intros safe_put_tree [OF h] safe_cache(3,4) [OF h] rest)
qed

lemma safe_hinted_entry:
  assumes "hash_ok h"
  shows "safe h st (hinted_entry h db st options n parent entry) (\<lambda>x. True)"
proof -
  have dir: "safe h st (capture_directory h db st options n p q) (\<lambda>x. True)" for p q
    by (rule safe_post [OF safe_capture_directory [OF assms]]) simp
  show ?thesis
    unfolding hinted_entry_def Let_def
    by (cases "de_type entry"; cases "co_symlinks options") (auto intro!: safe_intros safe_capture_current_file [OF assms] dir)
qed

lemma safe_capture_hinted_path:
  assumes "hash_ok h"
  shows "safe h st (capture_hinted_path h db st options n root rel) (\<lambda>x. True)"
  unfolding capture_hinted_path_def
  by (intro safe_bind [OF safe_invalidate] safe_found_directory [OF assms] safe_intros safe_hinted_entry [OF assms]
      safe_cache(4) [OF assms] safe_rebuild [OF assms])

lemma safe_capture_hints: "hash_ok h \<Longrightarrow> safe h st (capture_hints h db st options n root hints) (\<lambda>x. True)"
  by (induction hints) (auto intro!: safe_intros safe_capture_hinted_path)

lemma safe_capture_hinted_paths:
  assumes "hash_ok h"
  shows "safe h st (capture_hinted_paths h db st options n root hints) (\<lambda>x. \<forall>i. x = Some i \<longrightarrow> valid_id i)"
  unfolding capture_hinted_paths_def
proof (rule safe_found_directory [OF assms])
  show "safe h st (if \<not> cd_stored d then return_io None
      else bind_io (capture_hints h db st options n root hints) (\<lambda>used. if \<not> used then return_io None
        else bind_io (cached_directory_of h db []) (\<lambda>found. return_io (case found of None \<Rightarrow> None
          | Some directory \<Rightarrow> if cd_stored directory then Some (cd_tree_id directory) else None))))
      (\<lambda>x. \<forall>i. x = Some i \<longrightarrow> valid_id i)" for d
    by (intro safe_if safe_return safe_bind [OF safe_capture_hints [OF assms]] safe_bind_fact [OF safe_cache(7) [OF assms]])
      (auto split: option.splits)
qed (rule safe_return, simp)

lemma safe_capture_tree_with_hints:
  assumes "hash_ok h"
  shows "safe h st (capture_tree_with_hints h db wd st hints) result_valid"
proof -
  have full: "safe h st (capture_tree h db wd st) result_valid" by (rule safe_capture_tree [OF assms])
  have hinted: "safe h st (bind_io (capture_hinted_paths h db st options n root hs) (\<lambda>found. case found of
      Some i \<Rightarrow> bind_io (captured i) (\<lambda>result. bind_io (save_cache_if_dirty h db) (\<lambda>_. return_io result))
    | None \<Rightarrow> capture_tree h db wd st)) result_valid" for options n root hs
    by (rule safe_bind_fact [OF safe_capture_hinted_paths [OF assms]])
      (auto intro!: full safe_bind_fact [OF safe_captured] safe_bind [OF safe_save] safe_return split: option.split)
  have known: "safe h st (bind_io (cached_directory_of h db []) (\<lambda>found. case found of
      Some root_tree \<Rightarrow> if cd_stored root_tree then return_io (capture_result_new (cd_tree_id root_tree) capture_stats_default [])
        else capture_tree h db wd st
    | None \<Rightarrow> capture_tree h db wd st)) result_valid"
    by (rule safe_bind_fact [OF safe_cache(7) [OF assms]])
      (auto intro!: full safe_return simp: result_valid_def capture_result_new_def split: option.split)
  show ?thesis
    unfolding capture_tree_with_hints_def Let_def
    by (intro safe_bind [OF safe_ensure_loaded] safe_bind [OF safe_reads(4)] safe_if full safe_bind [OF safe_trivial(3)])
      (auto intro!: safe_if known safe_bind [OF safe_modify(4)] hinted split: prod.split)
qed

section \<open>The materializer of the file system as a materializer\<close>

text \<open>
  A method on the state of a materializer, as the repository calls it. A call that panics does not return; \<open>panic\<close> is
  what stands for its result.
\<close>

definition as_method :: "materialization_error \<Rightarrow> 'd mat_state \<Rightarrow> ('d, 'a) fm_io \<Rightarrow> 'a mat_io" where
  "as_method panic s m w =
    (case m (s\<lparr>ms_world := w\<rparr>) of
       (Inl (MatFail e), s') \<Rightarrow> (Err e, ms_world s')
     | (Inl MatPanic, s') \<Rightarrow> (Err panic, ms_world s')
     | (Inr x, s') \<Rightarrow> (Ok x, ms_world s'))"

definition fm_materializer :: "hasher \<Rightarrow> 'd redb \<Rightarrow> materialization_error \<Rightarrow> 'd mat_state \<Rightarrow> materializer" where
  "fm_materializer blake3 db panic s =
     \<lparr>m_capture_with_hints = (\<lambda>wd st hints. as_method panic s (capture_tree_with_hints blake3 db wd st hints)),
      m_compare_tree = (\<lambda>saved wd st. as_method panic s (compare_tree blake3 db saved wd st)),
      m_materialize_tree = (\<lambda>i wd st. as_method panic s (materialize_tree blake3 db i wd st))\<rparr>"

lemma as_method_safe:
  assumes "safe h st m Q" "as_method panic s m w = (r, w')" "ids_valid (fm_cache (ms_fm s))" "store_ok h st (w_fs w)"
    and "\<And>fs p b. w_rely w fs p b \<Longrightarrow> store_rely h st fs p b"
  shows "adds_to w w' \<and> store_ok h st (w_fs w') \<and> (\<forall>x. r = Ok x \<longrightarrow> Q x)"
proof -
  obtain r1 s1 where run: "m (s\<lparr>ms_world := w\<rparr>) = (r1, s1)" by fastforce
  have "sound_state h st (s\<lparr>ms_world := w\<rparr>)" using assms(3-5) by (simp add: sound_state_def)
  from safeD [OF assms(1) run this] show ?thesis
    using assms(2) run by (auto simp: as_method_def sound_state_def split: sum.splits mat_abort.splits)
qed

text \<open>Every capture of the materializer of the file system keeps the law that the repository asks for.\<close>

lemma capture_law_filesystem:
  assumes "hash_ok blake3" "ids_valid (fm_cache (ms_fm s))"
  shows "capture_law blake3 repo (fm_materializer blake3 db panic s)"
  unfolding capture_law_def
proof (intro allI impI, goal_cases)
  case (1 hints w r w')
  have "as_method panic s (capture_tree_with_hints blake3 db (working_directory_new (repo_root repo)) (repo_store repo) hints) w = (r, w')"
    using 1(1) by (simp add: fm_materializer_def)
  from as_method_safe [OF safe_capture_tree_with_hints [OF assms(1)] this assms(2) 1(2)] 1(3)
  show ?case by (simp add: adds_to_def result_valid_def)
qed

end
