(* ===== verification/Repo_Captures.thy ===== *)
theory Repo_Captures
  imports Capture_Safety
begin

text \<open>
  The repository with the materializer of the file system: a snapshot records the working directory as it is. The
  law that \<open>Repo_Properties\<close> asks of captures holds, and the tree of a capture is the one that \<open>Capture_Properties\<close>
  specifies.
\<close>

section \<open>A capture through the trait\<close>

text \<open>Without hints the trait's method loads the cache, looks at the root, and captures the whole directory.\<close>

lemma ensure_cache_loaded_again:
  assumes "ensure_cache_loaded db s = (r, s')"
  shows "\<exists>x. r = Ok x" "fm_cache_loaded (ms_fm s')"
  using assms
  by (auto simp: ensure_cache_loaded_def capture_cache_load_def open_database_def bind_io_def gets_def return_io_def modifies_def
      try_world_def split: if_splits option.splits prod.splits sum.splits)

lemma loaded_twice:
  "bind_io (ensure_cache_loaded db) (\<lambda>_. bind_io (on_world g m) (\<lambda>_. bind_io (ensure_cache_loaded db) (\<lambda>_. k)))
     = bind_io (ensure_cache_loaded db) (\<lambda>_. bind_io (on_world g m) (\<lambda>_. k))"
proof
  fix s
  obtain r1 s1 where s1: "ensure_cache_loaded db s = (r1, s1)" by fastforce
  note again = ensure_cache_loaded_again [OF s1]
  have "fm_cache_loaded (ms_fm s2)" if "on_world g m s1 = (r2, s2)" for r2 s2
    using that again(2) by (auto simp: on_world_def try_world_def bind_io_def result_io_def split: prod.splits)
  moreover have "ensure_cache_loaded db s2 = (Ok (), s2)" if "fm_cache_loaded (ms_fm s2)" for s2
    using that by (simp add: ensure_cache_loaded_def bind_io_def gets_def return_io_def)
  ultimately show "bind_io (ensure_cache_loaded db) (\<lambda>_. bind_io (on_world g m) (\<lambda>_. bind_io (ensure_cache_loaded db) (\<lambda>_. k))) s
      = bind_io (ensure_cache_loaded db) (\<lambda>_. bind_io (on_world g m) (\<lambda>_. k)) s"
    using s1 again(1) by (auto simp: bind_io_def split: prod.split sum.split)
qed

lemma capture_without_hints:
  "capture_tree_with_hints blake3 db wd st [] = bind_io (ensure_cache_loaded db) (\<lambda>_. bind_io
     (bind_io (on_world id (ensure_capture_root (wd_root wd))) (\<lambda>_.
       read_body blake3 db (wd_root wd) start_capture (\<lambda>options n. capture_directory blake3 db st options n (wd_root wd) []) captured))
     (closing blake3 db))"
  unfolding capture_tree_with_hints_def read_methods(1) bind_io_assoc if_True refl [THEN eqTrueI] loaded_twice by simp

lemma trait_capture_run:
  assumes "capture_ok blake3 db st (wd_root wd) s" "capture_tree_with_hints blake3 db wd st [] s = (r, s')"
  shows "within (hidden (wd_root wd)) (w_fs (ms_world s)) (w_fs (ms_world s')) \<and>
    (\<forall>c. r = Ok c \<longrightarrow> dir_tree blake3 (fm_options (ms_fm s)) (object_ok blake3 st (w_fs (ms_world s'))) (w_fs (ms_world s))
       (wd_root wd) (cr_root_tree_id c))"
  using read_method_run [OF assms(1) proc_bind_skip [OF proc_ensure_root growing_const proc_capture_body [OF assms(1)]]
      assms(2) [unfolded capture_without_hints]]
  by (simp add: grows_def has_object_def)
lemma as_method_Ok:
  "as_method panic s m w = (Ok x, w') \<longleftrightarrow> (\<exists>s'. m (s\<lparr>ms_world := w\<rparr>) = (Ok x, s') \<and> w' = ms_world s')"
  by (auto simp: as_method_def split: prod.splits sum.splits mat_abort.splits)

text \<open>The capture of a repository, with what it keeps and what it returns.\<close>

definition materializer_ok :: "hasher \<Rightarrow> 'd redb \<Rightarrow> repository \<Rightarrow> 'd mat_state \<Rightarrow> world \<Rightarrow> bool" where
  "materializer_ok blake3 db repo s w \<longleftrightarrow> capture_ok blake3 db (repo_store repo) (repo_root repo) (s\<lparr>ms_world := w\<rparr>)"

lemma materializer_ok_facts:
  assumes "materializer_ok blake3 db repo s w"
  shows "hash_ok blake3" "capture_law blake3 repo (fm_materializer blake3 db panic s)" "store_ok blake3 (repo_store repo) (w_fs w)"
    "w_rely w fs p b \<Longrightarrow> store_rely blake3 (repo_store repo) fs p b \<and> hidden (repo_root repo) p"
proof -
  show h: "hash_ok blake3" and "store_ok blake3 (repo_store repo) (w_fs w)"
    using assms by (simp_all add: materializer_ok_def capture_ok_def site_ok_def Let_def)
  have "ids_valid (fm_cache (ms_fm s))"
    using assms unfolding materializer_ok_def capture_ok_def ids_valid_def cache_valid_def Let_def by (auto simp: dir_right_def)
  then show "capture_law blake3 repo (fm_materializer blake3 db panic s)" by (rule capture_law_filesystem [OF h])
  show "store_rely blake3 (repo_store repo) fs p b \<and> hidden (repo_root repo) p" if "w_rely w fs p b"
    using assms that by (auto simp: materializer_ok_def capture_ok_def cx_rely_def Let_def)
qed

lemma repo_capture_run:
  assumes "materializer_ok blake3 db repo s w" "capture_working_tree repo (fm_materializer blake3 db panic s) w = (Ok c, w')"
  shows "dir_tree blake3 (fm_options (ms_fm s)) (object_ok blake3 (repo_store repo) (w_fs w')) (w_fs w) (repo_root repo) (cr_root_tree_id c)"
proof -
  obtain s' where run: "capture_tree_with_hints blake3 db (working_directory_new (repo_root repo)) (repo_store repo) [] (s\<lparr>ms_world := w\<rparr>) = (Ok c, s')"
    and w': "w' = ms_world s'"
    using assms(2)
    by (auto simp: capture_working_tree_def capture_working_tree_with_hints_def map_err_io_def match_io_def result_io_def
        fm_materializer_def as_method_Ok map_err_Inr_iff split: prod.splits)
  have "capture_ok blake3 db (repo_store repo) (wd_root (working_directory_new (repo_root repo))) (s\<lparr>ms_world := w\<rparr>)"
    using assms(1) by (simp add: materializer_ok_def working_directory_new_def)
  from trait_capture_run [OF this run] show ?thesis by (simp add: w' working_directory_new_def)
qed

section \<open>A snapshot of the working directory\<close>

lemma snapshot_run:
  assumes ok: "materializer_ok blake3 db repo s w" and "repo_wf repo" "Repo_Steps.cursor_ok c" "valid_id i" "request_fits request"
    and "\<And>fs p b. w_rely w fs p b \<Longrightarrow> p \<noteq> cursor_path repo c" "cursor_is repo c (w_fs w)" "points_to (w_fs w) (cursor_path repo c) i"
    and run: "repo_snapshot blake3 repo (fm_materializer blake3 db panic s) request w = (Ok res, w')"
  shows "advanced blake3 repo {} c i (Ok (Some res)) (w_fs w') \<and>
    dir_tree blake3 (fm_options (ms_fm s)) (object_ok blake3 (repo_store repo) (w_fs w')) (w_fs w) (repo_root repo) (snap_root (res_snapshot res))"
proof -
  note facts = materializer_ok_facts [OF ok]
  let ?mat = "fm_materializer blake3 db panic s"
  obtain cap w1 where cap: "capture_working_tree repo ?mat w = (Ok cap, w1)" and rec: "record_capture blake3 repo request cap w1 = (Ok res, w')"
    using run by (auto simp: repo_snapshot_record bind_io_def split: prod.splits sum.splits)
  let ?S = "contents_of blake3 repo (w_fs w1)"
  have at: "at_snapshot blake3 repo {} c i (w_fs w)"
    using assms facts by (simp add: at_snapshot_def holds_objects_def)
  have rely: "\<And>fs p b. w_rely w fs p b \<Longrightarrow> repo_rely blake3 repo c fs p b" using facts(4) assms(6) by (simp add: repo_rely_def)
  have 1: "(at_snapshot blake3 repo {} c i (w_fs w1) \<and> (\<forall>x. Ok cap = Ok x \<longrightarrow> valid_id (cr_root_tree_id x))) \<and> w_rely w1 = w_rely w"
    using hoareD [OF hoare_capture [OF facts(2)] cap [unfolded capture_working_tree_def]] rely at by blast
  then have "at_snapshot blake3 repo ?S c i (w_fs w1)" by (auto dest: at_snapshot_contents)
  from hoareD [OF hoare_record_capture [OF assms(2) facts(1) assms(3-5)] rec _ this] 1 rely
  have out: "outcome blake3 repo ?S c i Some (\<lambda>res. res_capture res = cap) (Ok res) (w_fs w')" by auto
  then have "holds_objects blake3 repo ?S (w_fs w')" by (simp add: outcome_def advanced_def at_snapshot_def)
  note kept = holds_contentsD [OF this]
  have "dir_tree blake3 (fm_options (ms_fm s)) (object_ok blake3 (repo_store repo) (w_fs w')) (w_fs w) (repo_root repo) (cr_root_tree_id cap)"
    by (rule dir_tree_mono [OF repo_capture_run [OF ok cap] kept])
  moreover have "snap_root (res_snapshot res) = cr_root_tree_id cap"
    using out by (simp add: outcome_def advanced_def recorded_def)
  ultimately show ?thesis using out by (auto simp: outcome_def advanced_def at_snapshot_def holds_objects_def)
qed

text \<open>
  C6. A snapshot is of the working directory as it is. With the materializer of the file system, whatever its cache
  holds as long as its records are right, and whatever fails and is published: when \<open>Repository::snapshot\<close> returns a
  snapshot, the ref of the cursor points to it, its only parent is the previous target, and its root is the tree of the
  files of the working directory at the call, every object of which is readable from the store.
\<close>

theorem snapshot_records_directory:
  assumes "materializer_ok blake3 db repo s w" "repo_wf repo" "Repo_Steps.cursor_ok c" "valid_id i" "request_fits request"
    and "\<And>fs p b. w_rely w fs p b \<Longrightarrow> p \<noteq> cursor_path repo c" "cursor_is repo c (w_fs w)" "points_to (w_fs w) (cursor_path repo c) i"
    and "repo_snapshot blake3 repo (fm_materializer blake3 db panic s) request w = (Ok res, w')"
  shows "points_to (w_fs w') (cursor_path repo c) (res_snapshot_id res) \<and> snap_parents (res_snapshot res) = [i] \<and>
    (\<exists>b. has_content blake3 (repo_store repo) (w_fs w') SnapshotObject (res_snapshot_id res) b) \<and>
    dir_tree blake3 (fm_options (ms_fm s)) (object_ok blake3 (repo_store repo) (w_fs w')) (w_fs w) (repo_root repo) (snap_root (res_snapshot res))"
  using snapshot_run [OF assms(1-5) _ assms(7-9)] assms(6) by (auto simp: advanced_def at_snapshot_def recorded_def object_ok_content)
text \<open>A repository with one branch and a small working directory.\<close>

definition local_repo :: repository where
  "local_repo = \<lparr>repo_root = sample_root, repo_metadata_dir = [bstr ''w'', bstr ''.era''], repo_store = sample_objects,
     repo_cursor = CurrentBranch\<rparr>"

definition local_world :: world where
  "local_world = ref_world []
     [([bstr ''w''], DirNode), ([bstr ''w'', bstr ''.era''], DirNode), ([bstr ''w'', bstr ''.era'', bstr ''objects''], DirNode),
      ([bstr ''w'', bstr ''.era'', bstr ''HEAD''], FileNode (head_contents branch_main)),
      ([bstr ''w'', bstr ''.era'', bstr ''refs''], DirNode), ([bstr ''w'', bstr ''.era'', bstr ''refs'', bstr ''heads''], DirNode),
      ([bstr ''w'', bstr ''.era'', bstr ''refs'', bstr ''heads'', bstr ''main''], FileNode (ref_contents (sample_id 1))),
      ([bstr ''w'', bstr ''a''], FileNode [1, 2])]"

lemma local_facts:
  "repo_wf local_repo" "Repo_Steps.cursor_ok (BranchCursor branch_main)"
  "cursor_is local_repo (BranchCursor branch_main) (w_fs local_world)"
  "points_to (w_fs local_world) (cursor_path local_repo (BranchCursor branch_main)) (sample_id 1)"
proof -
  show "repo_wf local_repo" by code_simp
  show "Repo_Steps.cursor_ok (BranchCursor branch_main)" by code_simp
  have "resolve (w_fs local_world) (head_path (repo_metadata_dir local_repo)) = Ok (FileNode (head_contents branch_main))"
    by code_simp
  then show "cursor_is local_repo (BranchCursor branch_main) (w_fs local_world)"
    by (simp add: cursor_is_def local_repo_def holds_text_def)
  have "resolve (w_fs local_world) (cursor_path local_repo (BranchCursor branch_main)) = Ok (FileNode (ref_contents (sample_id 1)))"
    by code_simp
  then show "points_to (w_fs local_world) (cursor_path local_repo (BranchCursor branch_main)) (sample_id 1)"
    by (simp add: points_to_def holds_text_def)
qed

lemma local_store_ok: "store_ok sum_hash sample_objects (w_fs local_world)"
  unfolding store_ok_def
proof (intro allI impI)
  fix k i b
  assume "fs_get (w_fs local_world) (object_path sample_objects k i) = Some (FileNode b)"
  then have "object_path sample_objects k i \<in> set (map fst (w_fs local_world))"
    by (auto simp: fs_get_def dest!: map_of_SomeD split: if_splits) (metis fst_conv image_eqI)
  moreover have "\<forall>p \<in> set (map fst (w_fs local_world)). length p < 6"
    by (simp add: local_world_def)
  ultimately show "object_ok sum_hash sample_objects (w_fs local_world) k i"
    by (force simp: sample_objects_def object_path_def object_dir_def)
qed

lemma local_materializer_ok: "materializer_ok sum_hash mem_redb local_repo sample_state local_world"
proof -
  have "distinct (map fst (w_fs local_world))" by code_simp
  from workspace_ok_sample [OF this local_store_ok] show ?thesis
    by (simp add: materializer_ok_def local_repo_def local_world_def)
qed

lemma local_run:
  "isl (fst (repo_snapshot sum_hash local_repo (fm_materializer sum_hash mem_redb (MatRootMissing []) sample_state) sample_request
     local_world)) = False"
  by code_simp

theorem snapshot_records_directory_witness:
  "\<exists>res w'. repo_snapshot sum_hash local_repo (fm_materializer sum_hash mem_redb (MatRootMissing []) sample_state) sample_request
       local_world = (Ok res, w') \<and>
     points_to (w_fs w') (cursor_path local_repo (BranchCursor branch_main)) (res_snapshot_id res) \<and>
     dir_tree sum_hash capture_options_default (object_ok sum_hash sample_objects (w_fs w')) (w_fs local_world) sample_root
       (snap_root (res_snapshot res))"
proof -
  obtain res w' where run: "repo_snapshot sum_hash local_repo (fm_materializer sum_hash mem_redb (MatRootMissing []) sample_state)
      sample_request local_world = (Ok res, w')"
    using local_run by (cases "repo_snapshot sum_hash local_repo (fm_materializer sum_hash mem_redb (MatRootMissing []) sample_state)
      sample_request local_world") (auto simp: isl_def, metis obj_sumE)
  have "w_rely local_world = (\<lambda>fs p b. False)" by (simp add: local_world_def)
  then have rely: "\<And>fs p b. w_rely local_world fs p b \<Longrightarrow> p \<noteq> cursor_path local_repo (BranchCursor branch_main)" by simp
  have "fm_options (ms_fm sample_state) = capture_options_default"
    by (simp add: sample_state_def fm_with_cache_path_def fm_with_options_and_cache_path_def)
  with snapshot_records_directory [OF local_materializer_ok local_facts(1,2) sample_id_valid sample_repo_facts(3) rely
      local_facts(3,4) run] run
  show ?thesis by (auto simp: local_repo_def)
qed

end
