(* ===== verification/Watch_Properties.thy ===== *)
theory Watch_Properties
  imports Cli_Commands Repo_Captures
begin

text \<open>
  \<open>era watch\<close>. A session, whatever it hears and whatever fails, leaves the ref on a line of readable snapshots that
  starts where the ref was, and asks for a snapshot of every change that was reported to it.
\<close>

section \<open>A watch session\<close>

text \<open>The snapshots of a line from \<open>i\<close> to \<open>j\<close>: each has the one before as its only parent.\<close>

fun line_of :: "object_id \<Rightarrow> snapshot_result list \<Rightarrow> object_id \<Rightarrow> bool" where
  "line_of i [] j \<longleftrightarrow> i = j"
| "line_of i (r # rs) j \<longleftrightarrow> snap_parents (res_snapshot r) = [i] \<and> line_of (res_snapshot_id r) rs j"

lemma line_of_snoc: "line_of i rs j \<Longrightarrow> snap_parents (res_snapshot r) = [j] \<Longrightarrow> line_of i (rs @ [r]) (res_snapshot_id r)"
  by (induction rs arbitrary: i) auto

text \<open>The session has advanced the ref from \<open>i\<close> along a line of snapshots that the store has.\<close>

definition on_line :: "hasher \<Rightarrow> repository \<Rightarrow> cursor_reference \<Rightarrow> object_id \<Rightarrow> fs \<Rightarrow> bool" where
  "on_line blake3 repo c i fs \<longleftrightarrow>
     (\<exists>rs j. line_of i rs j \<and> valid_id j \<and> at_snapshot blake3 repo {} c j fs \<and>
        (\<forall>r \<in> set rs. object_ok blake3 (repo_store repo) fs SnapshotObject (res_snapshot_id r)))"

definition session_ok :: "hasher \<Rightarrow> repository \<Rightarrow> cursor_reference \<Rightarrow> object_id \<Rightarrow> cli_state \<Rightarrow> bool" where
  "session_ok blake3 repo c i s \<longleftrightarrow> on_line blake3 repo c i (w_fs (cl_world s)) \<and>
     (\<forall>fs p b. w_rely (cl_world s) fs p b \<longrightarrow> repo_rely blake3 repo c fs p b)"

lemma outcome_advanced: "outcome blake3 repo S c j (\<lambda>x. x) C r fs \<Longrightarrow> advanced blake3 repo S c j r fs"
  by (cases r) (simp_all add: outcome_def advanced_def)

lemma session_save:
  assumes "repo_wf repo" "hash_ok blake3" "cursor_ok c" "request_fits (auto_snapshot_request trigger metadata repo)"
    and "capture_law blake3 repo mat" "session_ok blake3 repo c i s"
  shows "session_ok blake3 repo c i (snd (snapshot_if_changed_for_watch blake3 repo mat trigger metadata hints s))"
proof -
  let ?fs = "w_fs (cl_world s)"
  let ?S = "contents_of blake3 repo ?fs"
  obtain rs j where j: "line_of i rs j" "valid_id j" and at: "at_snapshot blake3 repo {} c j ?fs"
    and rs: "\<And>r. r \<in> set rs \<Longrightarrow> object_ok blake3 (repo_store repo) ?fs SnapshotObject (res_snapshot_id r)"
    using assms(6) by (auto simp: session_ok_def on_line_def)
  obtain r w' where run: "snapshot_if_changed_with_hints blake3 repo mat (auto_snapshot_request trigger metadata repo) hints (cl_world s) = (r, w')"
    by fastforce
  have "(outcome blake3 repo ?S c j (\<lambda>x. x) (\<lambda>x. \<forall>res. x = Some res \<longrightarrow>
       (\<exists>sn. denotes blake3 j sn \<and> snap_root sn \<noteq> snap_root (res_snapshot res))) r (w_fs w')) \<and> w_rely w' = w_rely (cl_world s)"
    using hoareD [OF hoare_snapshot_if_changed [OF assms(1-3) j(2) assms(4,5)] run _ at_snapshot_contents [OF at]] assms(6)
    by (auto simp: session_ok_def)
  then have adv: "advanced blake3 repo ?S c j r (w_fs w')" and rely: "w_rely w' = w_rely (cl_world s)"
    using outcome_advanced by blast+
  have empty: "at_snapshot blake3 repo {} c l fs" if "at_snapshot blake3 repo ?S c l fs" for l fs
    using that by (simp add: at_snapshot_def holds_objects_def)
  have "on_line blake3 repo c i (w_fs w')"
  proof (cases "\<exists>res. r = Ok (Some res)")
    case True
    then obtain res where res: "at_snapshot blake3 repo ?S c (res_snapshot_id res) (w_fs w')"
      "recorded blake3 repo (res_capture res) [j] res (w_fs w')" using adv by (auto simp: advanced_def)
    then have "object_ok blake3 (repo_store repo) (w_fs w') SnapshotObject (res_snapshot_id r)" if "r \<in> set (rs @ [res])" for r
      using that rs holds_contentsD [OF at_snapshot_holds [OF res(1)]] by (auto simp: recorded_def)
    moreover have "valid_id (res_snapshot_id res)"
      using res(2) assms(2) by (simp add: recorded_def snapshot_id_def from_content_def valid_id_def hash_ok_def)
    moreover have "line_of i (rs @ [res]) (res_snapshot_id res)" by (rule line_of_snoc [OF j(1)]) (use res(2) in \<open>simp add: recorded_def\<close>)
    ultimately show ?thesis using empty [OF res(1)] unfolding on_line_def by blast
  next
    case False
    then have "at_snapshot blake3 repo ?S c j (w_fs w')"
      using adv by (auto simp: advanced_def split: sum.splits option.splits)
    then show ?thesis using j rs holds_contentsD [OF at_snapshot_holds] empty unfolding on_line_def by blast
  qed
  then show ?thesis using run rely assms(6)
    by (simp add: snapshot_if_changed_for_watch_def in_repo_def session_ok_def)
qed

text \<open>The materializers of a session: in every state their captures keep the law that the repository asks for.\<close>

definition lawful :: "hasher \<Rightarrow> repository \<Rightarrow> 'm cli_env \<Rightarrow> ('m \<Rightarrow> bool) \<Rightarrow> bool" where
  "lawful blake3 repo env V \<longleftrightarrow>
     (\<forall>m. V m \<longrightarrow> capture_law blake3 repo (env_methods env m)) \<and> (\<forall>ps m. V m \<longrightarrow> V (env_invalidate env ps m))"

lemma session_print: "session_ok blake3 repo c i s \<Longrightarrow> session_ok blake3 repo c i (s\<lparr>cl_out := ls\<rparr>)"
  by (simp add: session_ok_def)

lemma session_save_for_watch:
  assumes "repo_wf repo" "hash_ok blake3" "cursor_ok c" "\<And>trigger. request_fits (auto_snapshot_request trigger metadata repo)"
    and "lawful blake3 repo env V" "V (wt_materializer st)" "session_ok blake3 repo c i s"
    and "save_for_watch blake3 env repo metadata verbose trigger hints st s = (r, s')"
  shows "session_ok blake3 repo c i s' \<and> (\<forall>st'. r = Ok st' \<longrightarrow> st' = st\<lparr>wt_dirty := []\<rparr>)"
proof -
  have "capture_law blake3 repo (env_methods env (wt_materializer st))" using assms(5,6) by (simp add: lawful_def)
  from session_save [OF assms(1-4) this assms(7), of trigger hints] show ?thesis using assms(8)
    by (auto simp: save_for_watch_def bind_io_def print_lines_def return_io_def session_print split: prod.splits sum.splits)
qed

lemma session_step:
  assumes "repo_wf repo" "hash_ok blake3" "cursor_ok c" "\<And>trigger. request_fits (auto_snapshot_request trigger metadata repo)"
    and "lawful blake3 repo env V" "V (wt_materializer st)" "session_ok blake3 repo c i s"
    and run: "watch_step blake3 env repo metadata verbose input st s = (r, s')"
  shows "session_ok blake3 repo c i s' \<and> (\<forall>st'. r = Ok (Some st') \<longrightarrow> V (wt_materializer st'))"
proof -
  have save: "session_ok blake3 repo c i s' \<and> (\<forall>st'. r = Ok (Some st') \<longrightarrow> V (wt_materializer st'))"
    if "bind_io (save_for_watch blake3 env repo metadata verbose trigger hints st1) (\<lambda>st'. return_io (Some st')) s = (r, s')"
      "wt_materializer st1 = wt_materializer st" for trigger hints st1
  proof -
    obtain r1 s1 where r1: "save_for_watch blake3 env repo metadata verbose trigger hints st1 s = (r1, s1)" by fastforce
    have "V (wt_materializer st1)" using assms(6) that(2) by simp
    from session_save_for_watch [OF assms(1-5) this assms(7) r1] show ?thesis
      using that r1 assms(6) by (cases r1) (auto simp: bind_io_def return_io_def)
  qed
  show ?thesis
  proof (cases input)
    case (EventReceived e)
    then show ?thesis using run assms(5-7)
      by (cases e) (auto simp: watch_step_def fail_io_def return_io_def lawful_def)
  next
    case DebounceElapsed
    then show ?thesis using run assms(6,7) save [of TriggerWatch "wt_dirty st" "st\<lparr>wt_debounce := False\<rparr>"]
      by (auto simp: watch_step_def return_io_def split: if_splits)
  next
    case ReconcileTick
    then show ?thesis using run save [of TriggerReconcile "[]" st] by (simp add: watch_step_def)
  next
    case (CtrlC e)
    then show ?thesis using run assms(7)
      by (cases e) (auto simp: watch_step_def fail_io_def return_io_def bind_io_def print_lines_def session_print)
  qed (use run assms(7) in \<open>auto simp: watch_step_def fail_io_def\<close>)
qed

lemma session_loop:
  assumes "repo_wf repo" "hash_ok blake3" "cursor_ok c" "\<And>trigger. request_fits (auto_snapshot_request trigger metadata repo)"
    and "lawful blake3 repo env V" "V (wt_materializer st)" "session_ok blake3 repo c i s"
    and "watch_loop blake3 env repo metadata verbose inputs st s = (r, s')"
  shows "session_ok blake3 repo c i s'"
  using assms(6-8)
proof (induction inputs arbitrary: st s)
  case (Cons input inputs)
  obtain r1 s1 where step: "watch_step blake3 env repo metadata verbose input st s = (r1, s1)" by fastforce
  note inv = session_step [OF assms(1-5) Cons.prems(1,2) step]
  show ?case using Cons.prems(3) inv Cons.IH step
    by (cases r1) (auto simp: bind_io_def return_io_def split: option.splits)
qed (simp add: return_io_def)

text \<open>The materializer of the file system in the commands.\<close>

definition fm_env :: "hasher \<Rightarrow> 'd redb \<Rightarrow> materialization_error \<Rightarrow> (path option \<Rightarrow> 'd mat_state) \<Rightarrow> terminal \<Rightarrow> io_kind + path \<Rightarrow>
    'd mat_state cli_env" where
  "fm_env blake3 db panic fresh T dir =
     \<lparr>env_terminal = T, env_current_dir = dir, env_materializer = fresh, env_methods = fm_materializer blake3 db panic,
      env_invalidate = (\<lambda>ps s. snd (invalidate_paths ps s))\<rparr>"

lemma invalidate_keeps_ids: "ids_valid (fm_cache (ms_fm s)) \<Longrightarrow> ids_valid (fm_cache (ms_fm (snd (invalidate_paths ps s))))"
proof (induction ps arbitrary: s)
  case (Cons p ps)
  have "ids_valid (snd (invalidate_path p c))" if "ids_valid c" for c
    using that by (auto simp: ids_valid_def invalidate_path_def invalidate_in_memory_def Let_def)
  from this [of "fm_cache (ms_fm s)"]
  have "ids_valid (fm_cache (ms_fm (snd (cache_update (\<lambda>d c. Some (invalidate_path p c)) s))))"
    using Cons.prems by (auto simp: bind_io_def cache_update_def on_cache_def set_dirty_def modifies_def return_io_def
        ids_valid_def split: prod.splits)
  moreover have "\<exists>s1. cache_update (\<lambda>d c. Some (invalidate_path p c)) s = (Ok (), s1)"
    by (auto simp: bind_io_def cache_update_def on_cache_def set_dirty_def modifies_def return_io_def split: prod.splits)
  ultimately show ?case using Cons.IH by (auto simp: bind_io_def)
qed (simp add: return_io_def)

lemma lawful_fm_env:
  "hash_ok blake3 \<Longrightarrow> lawful blake3 repo (fm_env blake3 db panic fresh T dir) (\<lambda>s. ids_valid (fm_cache (ms_fm s)))"
  by (simp add: lawful_def fm_env_def capture_law_filesystem invalidate_keeps_ids)


definition plain_terminal :: terminal where
  "plain_terminal = \<lparr>term_paint = (\<lambda>style t. t), term_local_time = (\<lambda>t. None)\<rparr>"

definition session_metadata :: watch_metadata where
  "session_metadata = \<lparr>wm_workspace = None, wm_agent = Some (bstr ''a1''), wm_task = None, wm_model = None\<rparr>"

lemma session_facts:
  "request_fits (auto_snapshot_request trigger session_metadata local_repo)"
  "ids_valid (fm_cache (ms_fm sample_state))"
proof -
  show "request_fits (auto_snapshot_request trigger session_metadata local_repo)" by (cases trigger; hypsubst; code_simp)
  show "ids_valid (fm_cache (ms_fm sample_state))"
    using local_materializer_ok by (auto simp: materializer_ok_def capture_ok_def ids_valid_def cache_valid_def dir_right_def Let_def)
qed


section \<open>No change is lost\<close>

text \<open>The watcher sends the loop the paths below the root that a capture looks at, and no others.\<close>

lemma reported_paths: "p \<in> set (relative_included_paths root opts paths) \<longleftrightarrow> root @ p \<in> set paths \<and> \<not> excludes_path opts p"
proof -
  have "root @ drop (length root) q = q" if "starts_with root q" for q
    using that append_take_drop_id [of "length root" q] by (simp add: starts_with_def)
  then have "p \<in> drop (length root) ` {q \<in> set paths. starts_with root q} \<longleftrightarrow> root @ p \<in> set paths"
    by (auto intro: image_eqI [of _ _ "root @ p"])
  then show ?thesis by (simp add: relative_included_paths_def)
qed

text \<open>The hints of the snapshot that an input makes the loop ask for.\<close>

definition asks_for :: "watch_input \<Rightarrow> 'm watch_state \<Rightarrow> path list option" where
  "asks_for input st =
    (case input of
       DebounceElapsed \<Rightarrow> if wt_debounce st then Some (wt_dirty st) else None
     | ReconcileTick \<Rightarrow> Some []
     | _ \<Rightarrow> None)"

lemma save_for_watch_state:
  "save_for_watch blake3 env repo metadata verbose trigger hints st s = (Ok st', s') \<Longrightarrow> st' = st\<lparr>wt_dirty := []\<rparr>"
  by (auto simp: save_for_watch_def bind_io_def return_io_def split: prod.splits sum.splits)

lemma watch_step_state:
  assumes "watch_step blake3 env repo metadata verbose input st s = (Ok (Some st'), s')"
  shows "(asks_for input st \<noteq> None \<and> wt_dirty st' = [] \<or>
      asks_for input st = None \<and> set (wt_dirty st) \<subseteq> set (wt_dirty st') \<and> (wt_debounce st \<longrightarrow> wt_debounce st')) \<and>
    (\<forall>ps. input = EventReceived (Inr ps) \<longrightarrow> set ps \<subseteq> set (wt_dirty st') \<and> wt_debounce st')"
proof -
  have ins: "set (fold insort_insert ps xs) = set ps \<union> set xs" for ps xs :: "path list"
    by (induction ps arbitrary: xs) (auto simp: set_insort_insert)
  show ?thesis using assms
    by (auto simp: watch_step_def asks_for_def ins return_io_def fail_io_def bind_io_def split: watch_input.splits sum.splits
        if_splits prod.splits dest!: save_for_watch_state)
qed

lemma watch_loop_Cons:
  "watch_loop blake3 env repo metadata verbose (input # inputs) st s = (Ok (Some st2), s2) \<longleftrightarrow>
     (\<exists>st1 s1. watch_step blake3 env repo metadata verbose input st s = (Ok (Some st1), s1) \<and>
        watch_loop blake3 env repo metadata verbose inputs st1 s1 = (Ok (Some st2), s2))"
  by (auto simp: bind_io_def return_io_def split: prod.splits sum.splits option.splits)

lemma watch_loop_append:
  "watch_loop blake3 env repo metadata verbose (xs @ ys) st s = (Ok (Some st2), s2) \<longleftrightarrow>
     (\<exists>st1 s1. watch_loop blake3 env repo metadata verbose xs st s = (Ok (Some st1), s1) \<and>
        watch_loop blake3 env repo metadata verbose ys st1 s1 = (Ok (Some st2), s2))"
  by (induction xs arbitrary: st s) (auto simp: watch_loop_Cons return_io_def simp del: watch_loop.simps(2))

text \<open>A path that waits either still waits, with the timer armed, or a snapshot that covers it was asked for.\<close>

definition covers :: "path list option \<Rightarrow> path \<Rightarrow> bool" where
  "covers asked p \<longleftrightarrow> (\<exists>hints. asked = Some hints \<and> (hints = [] \<or> p \<in> set hints))"

lemma waiting_path:
  assumes "watch_loop blake3 env repo metadata verbose inputs st s = (Ok (Some st2), s2)" "p \<in> set (wt_dirty st)" "wt_debounce st"
  shows "p \<in> set (wt_dirty st2) \<and> wt_debounce st2 \<or>
    (\<exists>as b bs st1 s1. inputs = as @ b # bs \<and> watch_loop blake3 env repo metadata verbose as st s = (Ok (Some st1), s1) \<and>
       covers (asks_for b st1) p)"
  using assms
proof (induction inputs arbitrary: st s)
  case (Cons input inputs)
  obtain st1 s1 where step: "watch_step blake3 env repo metadata verbose input st s = (Ok (Some st1), s1)"
    and rest: "watch_loop blake3 env repo metadata verbose inputs st1 s1 = (Ok (Some st2), s2)"
    using Cons.prems(1) unfolding watch_loop_Cons by blast
  show ?case
  proof (cases "asks_for input st")
    case None
    then have "p \<in> set (wt_dirty st1)" "wt_debounce st1" using watch_step_state [OF step] Cons.prems(2,3) by auto
    from Cons.IH [OF rest this] show ?thesis
    proof
      assume "\<exists>as b bs st3 s3. inputs = as @ b # bs \<and>
        watch_loop blake3 env repo metadata verbose as st1 s1 = (Ok (Some st3), s3) \<and> covers (asks_for b st3) p"
      then obtain as b bs st3 s3 where "inputs = as @ b # bs" "covers (asks_for b st3) p"
        "watch_loop blake3 env repo metadata verbose as st1 s1 = (Ok (Some st3), s3)" by blast
      then have "input # inputs = (input # as) @ b # bs \<and>
          watch_loop blake3 env repo metadata verbose (input # as) st s = (Ok (Some st3), s3) \<and> covers (asks_for b st3) p"
        using step unfolding watch_loop_Cons by auto
      then show ?thesis by blast
    qed simp
  next
    case (Some hints)
    then have "covers (asks_for input st) p"
      using Cons.prems(2) by (auto simp: covers_def asks_for_def split: watch_input.splits if_splits)
    then have "input # inputs = [] @ input # inputs \<and> watch_loop blake3 env repo metadata verbose [] st s = (Ok (Some st), s) \<and>
        covers (asks_for input st) p" by (simp add: return_io_def)
    then show ?thesis by blast
  qed
qed (simp add: return_io_def)


text \<open>A session on a directory without changes, whose materializer always sees the same tree.\<close>

definition session_start :: cli_state where
  "session_start = \<lparr>cl_world = snd (repo_snapshot sum_hash local_repo sample_materializer sample_request local_world), cl_out = []\<rparr>"

definition still_env :: "unit cli_env" where
  "still_env = \<lparr>env_terminal = plain_terminal, env_current_dir = Ok sample_root, env_materializer = (\<lambda>p. ()),
     env_methods = (\<lambda>m. sample_materializer), env_invalidate = (\<lambda>ps m. ())\<rparr>"

lemma still_run:
  "case watch_loop sum_hash still_env local_repo session_metadata False [EventReceived (Inr [[bstr ''a'']]), DebounceElapsed]
       (watch_start ()) session_start of
     (Inr (Some st), s) \<Rightarrow> wt_dirty st = [] | _ \<Rightarrow> False"
  by code_simp


end
