(* ===== verification/Repo_Keeps.thy ===== *)
theory Repo_Keeps
  imports Repo_Properties Store_Frames
begin

text \<open>
  What every step of a repository operation leaves alone: an assertion that survives changes in the metadata
  directory is kept by reading and writing refs, by the index, by resolving a target, by holding a lock and by storing
  a snapshot.
\<close>

section \<open>The metadata directory\<close>

text \<open>The paths of the metadata directory, and those that lead to it.\<close>

definition repo_area :: "repository \<Rightarrow> path \<Rightarrow> bool" where
  "repo_area repo p \<longleftrightarrow> prefix p (repo_metadata_dir repo) \<or> prefix (repo_metadata_dir repo) p"

text \<open>The paths that resolving a target may write.\<close>

definition index_area :: "repository \<Rightarrow> path \<Rightarrow> bool" where
  "index_area repo t \<longleftrightarrow> (\<exists>x q. t = repo_metadata_dir repo @ x # q \<and> x \<in> {INDEX_DIR_NAME, LOCKS_DIR_NAME})"

lemma area_take: "repo_area repo (take n (repo_metadata_dir repo @ q))"
proof (cases "n \<le> length (repo_metadata_dir repo)")
  case True
  then show ?thesis by (simp add: repo_area_def take_is_prefix)
qed (simp add: repo_area_def)

lemma area_below: "repo_area repo (repo_metadata_dir repo @ q)"
  by (simp add: repo_area_def)

lemma area_parent: "q \<noteq> [] \<Longrightarrow> repo_area repo (take n (butlast (repo_metadata_dir repo @ q)))"
  using area_take [of repo n "butlast q"] by (simp add: butlast_append)

lemma area_near: "near (repo_metadata_dir repo @ q) t \<Longrightarrow> q \<noteq> [] \<Longrightarrow> repo_area repo t"
  by (auto simp: near_def ref_temp_def butlast_append area_below)

lemma area_of_paths:
  obtains q where "cursor_path repo c = repo_metadata_dir repo @ q" "q \<noteq> []" by (metis cursor_path_below list.distinct(1))

lemma store_area_repo: "repo_wf repo \<Longrightarrow> store_area (repo_store repo) p \<Longrightarrow> repo_area repo p"
  by (auto simp: repo_wf_def store_area_def repo_area_def objects_dir_def prefix_append prefix_def append_eq_append_conv2)

section \<open>Reading\<close>

lemma keeps_read_text: "stable R I \<Longrightarrow> keeps R I (read_text_file p e)"
  unfolding keeps_def by (rule hoare_read_text_keeps)

lemma keeps_ref_reads:
  assumes "stable R I"
  shows "keeps R I (ref_exists p)" "keeps R I (read_branch_ref md b)" "keeps R I (read_workspace_ref md w)"
    "keeps R I (read_cursor_ref repo c)" "keeps R I (current_cursor_reference repo)" "keeps R I (current_snapshot_id repo)"
    "keeps R I (branch_ref_exists md b)" "keeps R I (workspace_ref_exists md w)"
proof -
  note rd = keeps_read_text [OF assms] keeps_read [OF assms]
  show branch: "keeps R I (read_branch_ref md b)" and workspace: "keeps R I (read_workspace_ref md w)" for md b w
    unfolding read_branch_ref_def read_workspace_ref_def by (intro keeps_intros rd)+
  show ref: "keeps R I (ref_exists p)" for p unfolding ref_exists_def by (intro keeps_intros rd)
  show cursor: "keeps R I (read_cursor_ref repo c)" for repo c
    unfolding read_cursor_ref_def by (cases c) (simp_all add: branch workspace)
  show current: "keeps R I (current_cursor_reference repo)" for repo
    unfolding current_cursor_reference_def current_branch_def read_head_branch_def
    by (cases "repo_cursor repo") (auto intro!: keeps_intros rd)
  show "keeps R I (current_snapshot_id repo)" unfolding current_snapshot_id_def by (intro keeps_intros current cursor)
  show "keeps R I (branch_ref_exists md b)" "keeps R I (workspace_ref_exists md w)"
    unfolding branch_ref_exists_def workspace_ref_exists_def by (intro ref)+
qed

lemma keeps_get_snapshot:
  assumes "stable R I"
  shows "keeps R I (get_snapshot blake3 s i)" "keeps R I (store_get_snapshot blake3 repo i)"
  unfolding store_get_snapshot_def get_snapshot_def by (intro keeps_intros keeps_get_object_bytes assms)+

lemma keeps_listing:
  assumes "stable R I"
  shows "keeps R I (list_shard p n es)" "keeps R I (list_shards d ss)" "keeps R I (list_index_shard p es)" "keeps R I (list_index_shards d ss)"
proof -
  note rd = keeps_read [OF assms]
  show shard: "keeps R I (list_shard p n es)" for p n es by (induction p n es rule: list_shard.induct) (auto intro!: keeps_intros rd)
  show index: "keeps R I (list_index_shard p es)" for p es by (induction p es rule: list_index_shard.induct) (auto intro!: keeps_intros rd)
  show "keeps R I (list_shards d ss)" by (induction d ss rule: list_shards.induct) (auto intro!: keeps_intros rd shard)
  show "keeps R I (list_index_shards d ss)" by (induction d ss rule: list_index_shards.induct) (auto intro!: keeps_intros rd index)
qed

section \<open>Writing\<close>

lemma keeps_write_text:
  assumes "stable R I" "spares (repo_area repo) T I" "p = repo_metadata_dir repo @ q" "q \<noteq> []" "\<And>t. near p t \<Longrightarrow> T t"
  shows "keeps R I (write_text_file_atomic p c)"
  unfolding keeps_def
  proof (rule hoare_frame_write_text [where D = "repo_area repo", OF assms(1)])
  show "spares (repo_area repo) (near p) I" by (rule spares_sub [OF assms(2)]) (use assms(5) in auto)
qed (use assms(3,4) area_parent in simp)

lemma keeps_with_lock:
  assumes "stable R I" "spares (repo_area repo) T I" "p = repo_metadata_dir repo @ q" "q \<noteq> []" "T p" "keeps R I body"
  shows "keeps R I (with_lock p body)"
  unfolding keeps_def
proof (rule hoare_with_lock [where D = "repo_area repo", OF assms(1)])
  show sp: "spares (repo_area repo) (\<lambda>t. t = p) I" by (rule spares_sub [OF assms(2)]) (use assms(5) in auto)
  show "spares (repo_area repo) (\<lambda>t. t = p) I" by (rule sp)
  show "hoare R I body (\<lambda>r. I)" using assms(6) by (simp add: keeps_def)
qed (use assms(1,3,4) area_parent in simp_all)

lemma index_near: "near (repo_metadata_dir repo @ INDEX_DIR_NAME # x # q) t \<Longrightarrow> index_area repo t"
  using near_below [of "repo_metadata_dir repo" INDEX_DIR_NAME "x # q" t] by (auto simp: index_area_def)

lemma keeps_index_entry:
  assumes "stable R I" "spares (repo_area repo) (index_area repo) I"
  shows "keeps R I (write_snapshot_index_entry (repo_metadata_dir repo) i)" "keeps R I (write_index_entries (repo_metadata_dir repo) is)"
    "keeps R I (mark_snapshot_index_complete (repo_metadata_dir repo))"
proof -
  show entry: "keeps R I (write_snapshot_index_entry (repo_metadata_dir repo) i)" for i
    unfolding write_snapshot_index_entry_def
    by (rule keeps_write_text [OF assms]) (use index_near in \<open>auto simp: snapshot_index_entry_path_def snapshot_index_dir_def index_dir_def\<close>)
  show "keeps R I (write_index_entries (repo_metadata_dir repo) is)" by (induction "is") (auto intro!: keeps_intros entry)
  show "keeps R I (mark_snapshot_index_complete (repo_metadata_dir repo))"
    unfolding mark_snapshot_index_complete_def
    by (rule keeps_write_text [OF assms]) (use index_near in \<open>auto simp: snapshot_index_complete_path_def snapshot_index_dir_def index_dir_def\<close>)
qed

section \<open>Resolving a target\<close>

lemma keeps_index_complete:
  assumes "stable R I" "spares (repo_area repo) (index_area repo) I"
  shows "keeps R I (ensure_snapshot_index_complete repo)"
proof -
  have present: "keeps R I (snapshot_index_complete_exists md)" for md
    unfolding snapshot_index_complete_exists_def by (rule keeps_ref_reads [OF assms(1)])
  show ?thesis
    unfolding ensure_snapshot_index_complete_def Let_def list_snapshot_ids_def
    by (intro keeps_intros present keeps_with_lock [OF assms] keeps_index_entry [OF assms] keeps_read [OF assms(1)] keeps_listing [OF assms(1)])
      (auto simp: snapshot_index_lock_path_def index_area_def)
qed

lemma keeps_resolved_at: "stable R I \<Longrightarrow> keeps R I (resolved_at blake3 repo i)"
  unfolding resolved_at_def by (intro keeps_intros keeps_get_snapshot)

lemma keeps_resolve:
  assumes "stable R I" "spares (repo_area repo) (index_area repo) I"
  shows "keeps R I (resolve_snapshot_target blake3 repo target)"
proof -
  note rd = keeps_ref_reads [OF assms(1)] keeps_get_snapshot [OF assms(1)] keeps_resolved_at [OF assms(1)] keeps_read [OF assms(1)]
  have full: "keeps R I (resolve_full_id blake3 repo target)"
    unfolding resolve_full_id_def contains_def object_kind.case presence_def by (intro keeps_intros rd)
  have refs: "keeps R I (resolve_branch blake3 repo target)" "keeps R I (resolve_workspace blake3 repo target)"
    unfolding resolve_branch_def resolve_workspace_def by (intro keeps_intros rd)+
  have load: "keeps R I (load_entries blake3 repo ids)" for ids by (induction ids) (auto intro!: keeps_intros rd)
  have entries: "keeps R I (all_snapshot_entries blake3 repo)"
    unfolding all_snapshot_entries_def list_snapshot_index_ids_def Let_def
    by (intro keeps_intros keeps_index_complete [OF assms] rd load keeps_listing [OF assms(1)])
  show ?thesis unfolding resolve_snapshot_target_def by (intro keeps_intros full refs entries)
qed

section \<open>Recording\<close>

lemma spares_frame: "spares D T I \<Longrightarrow> frame T I"
  by (simp add: spares_def frame_def)

lemma keeps_write_cursor_ref:
  assumes "stable R I" "spares (repo_area repo) (repo_area repo) I"
  shows "keeps R I (write_cursor_ref repo c j)"
proof -
  have "keeps R I (write_text_file_atomic (cursor_path repo c) x)" for x
    by (rule area_of_paths [of repo c]) (rule keeps_write_text [OF assms], use area_near in auto)
  then show ?thesis
    by (cases c) (simp_all add: write_cursor_ref_def cursor_path_def write_branch_ref_def write_workspace_ref_def)
qed

lemma keeps_store_snapshot:
  assumes "repo_wf repo" "stable R I" "spares (repo_area repo) (repo_area repo) I"
  shows "keeps R I (store_snapshot blake3 repo capture request parents)"
proof -
  have "frame (store_area (repo_store repo)) I"
    using spares_frame [OF assms(3)] store_area_repo [OF assms(1)] by (simp add: frame_def)
  note put = keeps_put_object [OF assms(2) this]
  have index: "spares (repo_area repo) (index_area repo) I"
    by (rule spares_sub [OF assms(3)]) (auto simp: index_area_def area_below)
  have clock: "keeps R I (resolve_timestamp request)" by (simp add: keeps_def hoare_resolve_timestamp)
  show ?thesis
    unfolding store_snapshot_def put_snapshot_def Let_def
    by (intro keeps_intros put keeps_index_entry [OF assms(2) index] clock)
qed

lemma keeps_cursor_lock:
  assumes "stable R I" "spares (repo_area repo) (repo_area repo) I" "keeps R I body"
  shows "keeps R I (with_cursor_lock repo c body)"
proof -
  obtain q where "cursor_lock_path repo c = repo_metadata_dir repo @ LOCKS_DIR_NAME # q" using lock_path_below [of repo c] by blast
  then show ?thesis
    unfolding with_cursor_lock_def by (intro keeps_with_lock [OF assms(1,2) _ _ _ assms(3)]) (auto simp: area_below)
qed

lemma keeps_save_before_restore:
  assumes "repo_wf repo" "stable R I" "spares (repo_area repo) (repo_area repo) I"
  shows "keeps R I (save_before_restore blake3 repo c capture)"
  unfolding save_before_restore_def
  by (intro keeps_intros keeps_ref_reads [OF assms(2)] keeps_get_snapshot [OF assms(2)] keeps_store_snapshot [OF assms]
      keeps_write_cursor_ref [OF assms(2,3)])

text \<open>The files that are not hidden stay as they are.\<close>

lemma spares_within:
  assumes "\<And>p. repo_area repo p \<Longrightarrow> T p"
  shows "spares (repo_area repo) (repo_area repo) (within T fs0)"
  unfolding spares_def using frame_within [of "repo_area repo" T fs0] assms by (simp add: frame_def)

end
