(* ===== verification/Repo_Work.thy ===== *)
theory Repo_Work
  imports Repo_Captures Repo_Keeps Materialize_Properties
begin

text \<open>
  Restoring a snapshot, from resolving the target to moving the ref: the working directory becomes the tree of the
  target, and what was in it before is in the history.
\<close>

section \<open>The working directory between the steps\<close>

text \<open>The files of the working directory, their stamps, and what others may publish are as in the world \<open>w0\<close>.\<close>

definition undisturbed :: "repository \<Rightarrow> world \<Rightarrow> world \<Rightarrow> bool" where
  "undisturbed repo w0 w \<longleftrightarrow> within (hidden (repo_root repo)) (w_fs w0) (w_fs w) \<and> w_stamps w = w_stamps w0 \<and> w_rely w = w_rely w0"

definition contents_kept :: "hasher \<Rightarrow> repository \<Rightarrow> fs \<Rightarrow> fs \<Rightarrow> bool" where
  "contents_kept blake3 repo fs fs' \<longleftrightarrow> holds_objects blake3 repo (contents_of blake3 repo fs) fs'"

lemma contents_keptD:
  "contents_kept blake3 repo fs fs' \<Longrightarrow> has_content blake3 (repo_store repo) fs k j b \<Longrightarrow> has_content blake3 (repo_store repo) fs' k j b"
  "contents_kept blake3 repo fs fs' \<Longrightarrow> object_ok blake3 (repo_store repo) fs k j \<Longrightarrow> object_ok blake3 (repo_store repo) fs' k j"
  by (auto simp: contents_kept_def holds_objects_def contents_of_def object_ok_content)

lemma contents_kept_trans: "contents_kept blake3 repo fs fs1 \<Longrightarrow> contents_kept blake3 repo fs1 fs2 \<Longrightarrow> contents_kept blake3 repo fs fs2"
  by (auto simp: contents_kept_def holds_objects_def contents_of_def)

lemma contents_kept_refl: "contents_kept blake3 repo fs fs"
  by (auto simp: contents_kept_def holds_objects_def contents_of_def)

lemma undisturbed_trans: "undisturbed repo w w1 \<Longrightarrow> undisturbed repo w1 w2 \<Longrightarrow> undisturbed repo w w2"
  by (simp add: undisturbed_def within_def)

lemma undisturbed_refl: "distinct (map fst (w_fs w)) \<Longrightarrow> undisturbed repo w w"
  by (simp add: undisturbed_def within_refl)

lemma dir_tree_undisturbed:
  assumes "undisturbed repo w0 w" "distinct (map fst (w_fs w0))"
  shows "dir_tree blake3 options ok (w_fs w) (repo_root repo) t \<longleftrightarrow> dir_tree blake3 options ok (w_fs w0) (repo_root repo) t"
proof -
  have fwd: "within (hidden (repo_root repo)) (w_fs w0) (w_fs w)" and d: "distinct (map fst (w_fs w))"
    using assms(1) by (simp_all add: undisturbed_def within_def)
  then have rev: "within (hidden (repo_root repo)) (w_fs w) (w_fs w0)" using assms(2) by (simp add: within_def)
  show ?thesis
    using dir_tree_cong [OF _ fwd assms(2) in_tree_root] dir_tree_cong [OF _ rev d in_tree_root] by blast
qed

text \<open>Steps that act on the metadata directory only.\<close>

definition work_rely :: "hasher \<Rightarrow> repository \<Rightarrow> cursor_reference \<Rightarrow> fs \<Rightarrow> path \<Rightarrow> bytes \<Rightarrow> bool" where
  "work_rely blake3 repo c fs p b \<longleftrightarrow> repo_rely blake3 repo c fs p b \<and> hidden (repo_root repo) p"

definition area_hidden :: "repository \<Rightarrow> bool" where
  "area_hidden repo \<longleftrightarrow> (\<forall>p. repo_area repo p \<longrightarrow> meta (repo_root repo) p)"

lemma within_kept:
  assumes "area_hidden repo"
  shows "stable (work_rely blake3 repo c) (within (hidden (repo_root repo)) fs0)"
    "spares (repo_area repo) (repo_area repo) (within (hidden (repo_root repo)) fs0)"
proof -
  show "stable (work_rely blake3 repo c) (within (hidden (repo_root repo)) fs0)"
    by (rule stable_within) (simp add: work_rely_def)
  show "spares (repo_area repo) (repo_area repo) (within (hidden (repo_root repo)) fs0)"
    by (rule spares_within) (use assms in \<open>simp add: area_hidden_def meta_hidden\<close>)
qed

lemma metadata_step:
  assumes "hoare (repo_rely blake3 repo c) P m Q" "\<And>fs0. keeps (work_rely blake3 repo c) (within (hidden (repo_root repo)) fs0) m"
    and "m w = (r, w')" "undisturbed repo w0 w" "P (w_fs w)" "\<And>fs p b. w_rely w0 fs p b \<Longrightarrow> work_rely blake3 repo c fs p b"
  shows "Q r (w_fs w') \<and> undisturbed repo w0 w'"
proof -
  have rely: "\<And>fs p b. w_rely w fs p b \<Longrightarrow> work_rely blake3 repo c fs p b" using assms(4,6) by (simp add: undisturbed_def)
  have h: "hoare (work_rely blake3 repo c) P m Q" by (rule hoare_rely [OF assms(1)]) (simp add: work_rely_def)
  have w: "within (hidden (repo_root repo)) (w_fs w0) (w_fs w)" using assms(4) by (simp add: undisturbed_def)
  show ?thesis
    using hoareD [OF h assms(3) rely assms(5)] hoare_stamps [OF h assms(3) rely assms(5)]
      hoareD [OF assms(2) [unfolded keeps_def] assms(3) rely w] assms(4)
    by (auto simp: undisturbed_def)
qed

section \<open>The materializer later\<close>

text \<open>What the cache of a materializer records stays right while the working directory is undisturbed.\<close>

lemma capture_ok_later:
  assumes ok: "capture_ok blake3 db (repo_store repo) (repo_root repo) (s\<lparr>ms_world := w0\<rparr>)"
    and und: "undisturbed repo w0 w" and store: "store_ok blake3 (repo_store repo) (w_fs w)" and kept: "contents_kept blake3 repo (w_fs w0) (w_fs w)"
  shows "capture_ok blake3 db (repo_store repo) (repo_root repo) (s\<lparr>ms_world := w\<rparr>)"
proof -
  let ?Y = "site_of blake3 db (repo_store repo) (repo_root repo) (s\<lparr>ms_world := w0\<rparr>)"
  let ?X = "site_of blake3 db (repo_store repo) (repo_root repo) (s\<lparr>ms_world := w\<rparr>)"
  have same: "\<And>p. \<not> hidden (repo_root repo) p \<Longrightarrow> fs_get (w_fs w) p = fs_get (w_fs w0) p" "w_stamps w = w_stamps w0" "w_rely w = w_rely w0"
      "distinct (map fst (w_fs w))" using und by (simp_all add: undisturbed_def within_def)
  have f: "file_right ?X (w_fs w) p f" if "file_right ?Y (w_fs w0) p f" for p f
    using that same(1,2) contents_keptD(2) [OF kept] by (auto simp: file_right_def has_object_def)
  have d: "dir_right ?X (w_fs w) p f" if "dir_right ?Y (w_fs w0) p f" for p f
    using that contents_keptD(2) [OF kept] by (auto simp: dir_right_def has_object_def)
  have db: "database_right ?X (w_fs w) x p" if "database_right ?Y (w_fs w0) x p" for x p
    using that f d unfolding database_right_def db_files_valid_def db_dirs_valid_def site_of_simps by meson
  have "cache_valid blake3 db (ms_db s) (file_right ?Y (w_fs w0)) (dir_right ?Y (w_fs w0)) (fm_cache (ms_fm s))"
    using ok by (simp add: capture_ok_def Let_def)
  from cache_valid_mono [OF this f d]
  have "cache_valid blake3 db (ms_db s) (file_right ?X (w_fs w)) (dir_right ?X (w_fs w)) (fm_cache (ms_fm s))" .
  moreover have "opens_right ?X (s\<lparr>ms_world := w\<rparr>)"
    using ok db by (auto simp: capture_ok_def Let_def opens_right_def)
  ultimately show ?thesis
    using ok store same(3,4) by (simp add: capture_ok_def Let_def site_ok_def cx_rely_def)
qed

lemma checkout_ok_later:
  assumes "checkout_ok blake3 db (repo_store repo) (repo_root repo) (s\<lparr>ms_world := w0\<rparr>)"
    and "undisturbed repo w0 w" "store_ok blake3 (repo_store repo) (w_fs w)" "contents_kept blake3 repo (w_fs w0) (w_fs w)"
  shows "checkout_ok blake3 db (repo_store repo) (repo_root repo) (s\<lparr>ms_world := w\<rparr>)"
  using assms capture_ok_later [OF _ assms(2-4), of db s] by (simp add: checkout_ok_def undisturbed_def)

lemma complete_tree_later:
  assumes "complete_tree X options fs i" "cx_hash X = blake3" "cx_store X = repo_store repo" "cx_hash Y = blake3" "cx_store Y = repo_store repo"
    and kept: "contents_kept blake3 repo fs fs'"
  shows "complete_tree Y options fs' i"
  using assms(1)
proof (induction rule: complete_tree.induct)
  case (complete_tree_node i b t)
  have "has_content (cx_hash Y) (cx_store Y) fs' TreeObject i b"
    using complete_tree_node.hyps(1) contents_keptD(1) [OF kept] assms(2-5) by simp
  moreover have "has_object Y fs' BlobObject j" if "has_object X fs BlobObject j" for j
    using that contents_keptD(2) [OF kept] assms(2-5) by (simp add: has_object_def)
  ultimately show ?case
    using complete_tree.complete_tree_node [of Y fs' i b t options] complete_tree_node.hyps(2,3) complete_tree_node.IH by blast
qed

section \<open>Resolving a target\<close>

text \<open>The snapshot that is found is the one that its identifier stands for, and it is stored.\<close>

definition target_ok :: "hasher \<Rightarrow> repository \<Rightarrow> fs \<Rightarrow> object_id \<Rightarrow> snapshot \<Rightarrow> bool" where
  "target_ok blake3 repo fs i sn \<longleftrightarrow> denotes blake3 i sn \<and> object_ok blake3 (repo_store repo) fs SnapshotObject i"

lemma stable_target_ok: "stable R (\<lambda>fs. target_ok blake3 repo fs i sn)"
  unfolding target_ok_def by (rule stable_mono) (auto intro: object_ok_ext)

lemma hoare_get_stored:
  assumes "stable R P"
  shows "hoare R P (store_get_snapshot blake3 repo i) (\<lambda>r fs. P fs \<and> (\<forall>sn. r = Ok sn \<longrightarrow> target_ok blake3 repo fs i sn))"
proof -
  let ?Q = "\<lambda>r fs. P fs \<and> (\<forall>sn. r = Ok sn \<longrightarrow> target_ok blake3 repo fs i sn)"
  have found: "target_ok blake3 repo fs i sn" if "has_content blake3 (repo_store repo) fs SnapshotObject i b" "snapshot_from_canonical_bytes b = Ok sn" for fs b sn
    using that has_content_hash [OF that(1)] by (auto simp: target_ok_def denotes_def object_ok_content)
  have "hoare R P (get_object_bytes blake3 (repo_store repo) SnapshotObject i)
      (\<lambda>r fs. case r of Inl e \<Rightarrow> P fs | Inr b \<Rightarrow> P fs \<and> has_content blake3 (repo_store repo) fs SnapshotObject i b)"
    by (rule hoare_post [OF hoare_get_object_bytes [OF assms]]) (auto split: sum.split)
  then have "hoare R P (get_snapshot blake3 (repo_store repo) i) ?Q"
    unfolding get_snapshot_def
    by (intro hoare_bind [where M = "\<lambda>b fs. P fs \<and> has_content blake3 (repo_store repo) fs SnapshotObject i b"])
      (auto intro!: hoare_result found elim!: hoare_post simp: map_err_Inr_iff split: sum.splits)
  then show ?thesis
    unfolding store_get_snapshot_def by (intro hoare_map_err) (auto elim!: hoare_post)
qed

lemma hoare_keeps_bind:
  assumes "keeps R P m" "\<And>x. hoare R P (f x) Q" "\<And>e fs. P fs \<Longrightarrow> Q (Err e) fs"
  shows "hoare R P (bind_io m f) Q"
  by (rule hoare_bind [where M = "\<lambda>x. P"]) (use assms in \<open>auto simp: keeps_def elim!: hoare_post split: sum.splits\<close>)

definition found_ok :: "hasher \<Rightarrow> repository \<Rightarrow> fs \<Rightarrow> resolved_snapshot option \<Rightarrow> bool" where
  "found_ok blake3 repo fs x \<longleftrightarrow> (\<forall>y. x = Some y \<longrightarrow> target_ok blake3 repo fs (rs_snapshot_id y) (rs_snapshot y))"

lemma hoare_resolved_at:
  assumes "stable R P"
  shows "hoare R P (bind_io (resolved_at blake3 repo i) (\<lambda>r. return_io (Some r))) (\<lambda>r fs. P fs \<and> (\<forall>x. r = Ok x \<longrightarrow> found_ok blake3 repo fs x))"
proof -
  have "hoare R P (store_get_snapshot blake3 repo i) (\<lambda>r fs. case r of Inl e \<Rightarrow> P fs | Inr sn \<Rightarrow> P fs \<and> target_ok blake3 repo fs i sn)"
    by (rule hoare_post [OF hoare_get_stored [OF assms]]) (simp split: sum.splits)
  then have "hoare R P (resolved_at blake3 repo i) (\<lambda>r fs. case r of Inl e \<Rightarrow> P fs | Inr y \<Rightarrow> P fs \<and> found_ok blake3 repo fs (Some y))"
    unfolding resolved_at_def by (intro hoare_bind) (auto intro!: hoare_return simp: found_ok_def elim!: hoare_post split: sum.splits)
  then show ?thesis by (intro hoare_bind) (auto intro!: hoare_return elim!: hoare_post split: sum.splits)
qed

lemma hoare_load_entries:
  assumes "stable R P"
  shows "hoare R P (load_entries blake3 repo ids)
    (\<lambda>r fs. P fs \<and> (\<forall>es. r = Ok es \<longrightarrow> (\<forall>e \<in> set es. target_ok blake3 repo fs (te_snapshot_id e) (te_snapshot e))))" (is "hoare R P _ (?Q P)")
  using assms
proof (induction ids arbitrary: P)
  case (Cons i ids)
  let ?T = "\<lambda>sn fs. P fs \<and> target_ok blake3 repo fs i sn"
  have get: "hoare R P (store_get_snapshot blake3 repo i) (\<lambda>r fs. case r of Inl e \<Rightarrow> ?Q P (Inl e) fs | Inr sn \<Rightarrow> ?T sn fs)"
    by (rule hoare_post [OF hoare_get_stored [OF Cons.prems]]) (simp split: sum.splits)
  have step: "hoare R (?T sn) (bind_io (load_entries blake3 repo ids) (\<lambda>entries. return_io (\<lparr>te_snapshot_id = i, te_snapshot = sn\<rparr> # entries))) (?Q P)" for sn
  proof (rule hoare_bind)
    have "stable R (?T sn)" by (intro stable_conj Cons.prems stable_target_ok)
    from Cons.IH [OF this]
    show "hoare R (?T sn) (load_entries blake3 repo ids) (\<lambda>r fs. case r of Inl e \<Rightarrow> ?Q P (Inl e) fs
        | Inr es \<Rightarrow> ?T sn fs \<and> (\<forall>e \<in> set es. target_ok blake3 repo fs (te_snapshot_id e) (te_snapshot e)))"
      by (rule hoare_post) (simp split: sum.splits)
  qed (rule hoare_return, simp)
  show ?case unfolding load_entries.simps by (rule hoare_bind [OF get step])
qed (simp add: hoare_return)

lemma btree_insert_set: "set (btree_insert k v m) \<subseteq> insert (k, v) (set m)"
  by (induction k v m rule: btree_insert.induct) (auto split: if_splits)

lemma chosen_entry:
  assumes "choose_match target (collect_matches target entries) = Ok y"
  shows "\<exists>e \<in> set entries. rs_snapshot_id y = te_snapshot_id e \<and> rs_snapshot y = te_snapshot e"
proof -
  have sub: "set (fold (\<lambda>e matches. if entry_matches target e then btree_insert (te_snapshot_id e) (te_snapshot e) matches else matches) es m)
      \<subseteq> set m \<union> (\<lambda>e. (te_snapshot_id e, te_snapshot e)) ` set es" for es m
  proof (induction es arbitrary: m)
    case (Cons e es)
    let ?m = "if entry_matches target e then btree_insert (te_snapshot_id e) (te_snapshot e) m else m"
    have "set ?m \<subseteq> insert (te_snapshot_id e, te_snapshot e) (set m)" by (simp add: btree_insert_set subset_insertI)
    with Cons [of ?m] show ?case by auto
  qed simp
  from assms have "collect_matches target entries = [(rs_snapshot_id y, rs_snapshot y)]"
    by (auto simp: choose_match_def split: list.splits prod.splits)
  then have "(rs_snapshot_id y, rs_snapshot y) \<in> (\<lambda>e. (te_snapshot_id e, te_snapshot e)) ` set entries"
    using sub [of entries "[]"] by (simp add: collect_matches_def)
  then show ?thesis by auto
qed

lemma hoare_resolve:
  assumes "stable R P" "spares (repo_area repo) (index_area repo) P"
  shows "hoare R P (resolve_snapshot_target blake3 repo target)
    (\<lambda>r fs. P fs \<and> (\<forall>y. r = Ok y \<longrightarrow> target_ok blake3 repo fs (rs_snapshot_id y) (rs_snapshot y)))" (is "hoare R P _ ?Q")
proof -
  note rd = keeps_ref_reads [OF assms(1)] keeps_get_snapshot [OF assms(1)] keeps_read [OF assms(1)]
  let ?F = "\<lambda>r fs. P fs \<and> (\<forall>x. r = Ok x \<longrightarrow> found_ok blake3 repo fs x)"
  note at = hoare_resolved_at [OF assms(1)]
  have none: "hoare R P (return_io None) ?F" by (rule hoare_return) (simp add: found_ok_def)
  have contains: "keeps R P (map_err_io RepoObjectStore (contains blake3 (repo_store repo) SnapshotObject i))" for i
    unfolding contains_def object_kind.case presence_def by (intro keeps_intros rd)
  have full: "hoare R P (resolve_full_id blake3 repo target) ?F"
    unfolding resolve_full_id_def by (auto intro!: hoare_keeps_bind contains at none split: sum.split)
  have refs: "hoare R P (resolve_branch blake3 repo target) ?F" "hoare R P (resolve_workspace blake3 repo target) ?F"
    unfolding resolve_branch_def resolve_workspace_def by (auto intro!: hoare_keeps_bind rd at none split: sum.split)
  have "keeps R P (list_snapshot_index_ids md)" for md
    unfolding list_snapshot_index_ids_def Let_def by (intro keeps_intros rd keeps_listing [OF assms(1)])
  note pre = keeps_index_complete [OF assms] this
  let ?L = "\<lambda>es fs. P fs \<and> (\<forall>e \<in> set es. target_ok blake3 repo fs (te_snapshot_id e) (te_snapshot e))"
  have loaded: "hoare R P (load_entries blake3 repo ids) (\<lambda>r fs. case r of Inl e \<Rightarrow> P fs | Inr es \<Rightarrow> ?L es fs)" for ids
    by (rule hoare_post [OF hoare_load_entries [OF assms(1)]]) (simp split: sum.splits)
  have sorted: "hoare R P (bind_io (load_entries blake3 repo ids) (\<lambda>entries. return_io (sort_key entry_key entries)))
      (\<lambda>r fs. case r of Inl e \<Rightarrow> P fs | Inr es \<Rightarrow> ?L es fs)" for ids
    by (rule hoare_bind [where M = ?L, OF hoare_post [OF loaded]]) (auto intro!: hoare_return split: sum.splits)
  have entries: "hoare R P (all_snapshot_entries blake3 repo) (\<lambda>r fs. case r of Inl e \<Rightarrow> ?Q (Inl e) fs | Inr es \<Rightarrow> ?L es fs)"
    unfolding all_snapshot_entries_def
    by (rule hoare_keeps_bind [OF pre(1)], rule hoare_keeps_bind [OF pre(2)], rule hoare_post [OF sorted]) (auto split: sum.splits)
  have last: "hoare R P (bind_io (all_snapshot_entries blake3 repo) (\<lambda>entries. result_io (choose_match target (collect_matches target entries)))) ?Q"
    by (rule hoare_bind [OF entries]) (auto intro!: hoare_result dest: chosen_entry)
  have next_step: "hoare R P (bind_io m (\<lambda>x. case x of Some y \<Rightarrow> return_io y | None \<Rightarrow> k)) ?Q" if m: "hoare R P m ?F" and k: "hoare R P k ?Q" for m k
  proof (rule hoare_bind)
    show "hoare R P m (\<lambda>r fs. case r of Inl e \<Rightarrow> ?Q (Inl e) fs | Inr x \<Rightarrow> P fs \<and> found_ok blake3 repo fs x)"
      by (rule hoare_post [OF m]) (simp split: sum.splits)
    show "hoare R (\<lambda>fs. P fs \<and> found_ok blake3 repo fs x) (case x of Some y \<Rightarrow> return_io y | None \<Rightarrow> k) ?Q" for x
      by (cases x) (auto intro!: hoare_return hoare_pre [OF k] simp: found_ok_def)
  qed
  show ?thesis unfolding resolve_snapshot_target_def by (intro next_step full refs last)
qed

section \<open>Reading the ref of the cursor\<close>

lemma hoare_read_parent:
  assumes "valid_id i"
    and rest: "hoare (repo_rely blake3 repo c) (at_snapshot blake3 repo S c i) (rest i) (outcome blake3 repo S c i f C)"
  shows "hoare (repo_rely blake3 repo c) (at_snapshot blake3 repo S c i)
    (bind_io (read_cursor_ref repo c) rest) (outcome blake3 repo S c i f C)" (is "hoare ?R ?A _ ?Q")
proof -
  have rd: "hoare ?R ?A (read_cursor_ref repo c) (\<lambda>r fs. case r of Inl e \<Rightarrow> ?Q (Inl e) fs | Inr p \<Rightarrow> ?A fs \<and> p = i)"
    by (rule hoare_post [OF hoare_read_cursor_ref [OF stable_at_snapshot _ assms(1)]])
      (auto simp: at_snapshot_def split: sum.split)
  have "hoare ?R (\<lambda>fs. ?A fs \<and> p = i) (rest p) ?Q" for p
    by (cases "p = i") (use rest in \<open>auto simp: hoare_def [of ?R "\<lambda>fs. False"]\<close>)
  then show ?thesis by (rule hoare_bind [OF rd])
qed

end
