(* ===== verification/Repo_Restore.thy ===== *)
theory Repo_Restore
  imports Repo_Work
begin

text \<open>
  Restoring a snapshot, from resolving the target to moving the ref: the working directory becomes the tree of the
  target, and what was in it before is in the history.
\<close>

section \<open>Saving the work\<close>

text \<open>
  The snapshot \<open>j\<close> has the tree \<open>t\<close>: it is the previous target \<open>i\<close>, or a snapshot that has it as its only parent.
\<close>

definition work_saved :: "hasher \<Rightarrow> repository \<Rightarrow> object_id \<Rightarrow> object_id \<Rightarrow> object_id \<Rightarrow> fs \<Rightarrow> bool" where
  "work_saved blake3 repo i j t fs \<longleftrightarrow> object_ok blake3 (repo_store repo) fs SnapshotObject j \<and>
     (j = i \<and> (\<exists>sn. denotes blake3 i sn \<and> snap_root sn = t) \<or>
      (\<exists>sn. j = snapshot_id blake3 sn \<and> snap_parents sn = [i] \<and> snap_root sn = t))"

definition saved_target :: "object_id \<Rightarrow> snapshot_result option \<Rightarrow> object_id" where
  "saved_target i saved = (case saved of None \<Rightarrow> i | Some res \<Rightarrow> res_snapshot_id res)"

lemma work_saved_kept: "contents_kept blake3 repo fs fs' \<Longrightarrow> work_saved blake3 repo i j t fs \<Longrightarrow> work_saved blake3 repo i j t fs'"
  by (auto simp: work_saved_def dest: contents_keptD(2))

lemma outcome_saved:
  assumes "outcome blake3 repo S c i (\<lambda>x. x) (changed_result blake3 i capture) (Ok saved) fs" "object_ok blake3 (repo_store repo) fs SnapshotObject i"
  shows "at_snapshot blake3 repo S c (saved_target i saved) fs \<and> work_saved blake3 repo i (saved_target i saved) (cr_root_tree_id capture) fs"
  using assms by (cases saved) (auto simp: outcome_def advanced_def changed_result_def saved_target_def work_saved_def recorded_def)

lemma hoare_save_before_restore:
  assumes "repo_wf repo" "hash_ok blake3" "Repo_Steps.cursor_ok c" "valid_id i" "request_fits (automatic_snapshot_request repo)" "valid_id (cr_root_tree_id capture)"
  shows "hoare (repo_rely blake3 repo c) (at_snapshot blake3 repo S c i) (save_before_restore blake3 repo c capture)
    (outcome blake3 repo S c i (\<lambda>x. x) (changed_result blake3 i capture))"
  unfolding save_before_restore_def by (rule hoare_read_parent [OF assms(4)], rule hoare_save_changed [OF assms])

section \<open>The lock of the cursor\<close>

lemma with_lock_run:
  assumes "with_lock p body w = (r, w')"
  obtains e where "acquire_metadata_lock p w = (Err e, w')" "r = Err e"
  | l w1 w2 where "acquire_metadata_lock p w = (Ok l, w1)" "lock_path l = p" "body w1 = (r, w2)" "drop_lock l w2 = (Ok () :: repository_error + unit, w')"
proof (cases "fst (acquire_metadata_lock p w)")
  case (Inl e)
  then show thesis using assms by (intro that(1) [of e]) (auto simp: with_lock_def bind_io_def split: prod.splits)
next
  case (Inr l)
  then obtain w1 where l: "acquire_metadata_lock p w = (Ok l, w1)" by (cases "acquire_metadata_lock p w") simp
  have "lock_path l = p"
    using l acquire_loop_bounds [of "w_clock w" p w] by (simp add: acquire_metadata_lock_def bind_io_def instant_now_def)
  moreover obtain r2 w2 where "body w1 = (r2, w2)" by fastforce
  moreover have "fst (drop_lock l w2) = (Ok () :: repository_error + unit)"
    by (simp add: drop_lock_def match_io_def return_io_def split: prod.split)
  ultimately show thesis
    using assms l that(2) [of l w1 w2]
    by (cases "drop_lock l w2 :: (repository_error + unit) \<times> world") (auto simp: with_lock_def bind_io_def match_io_def result_io_def split: prod.splits)
qed

lemma lock_steps:
  assumes "repo_wf repo" "area_hidden repo"
  shows "hoare (repo_rely blake3 repo c) (at_snapshot blake3 repo S c i) (acquire_metadata_lock (cursor_lock_path repo c)) (\<lambda>r. at_snapshot blake3 repo S c i)"
    "keeps (work_rely blake3 repo c) (within (hidden (repo_root repo)) fs0) (acquire_metadata_lock (cursor_lock_path repo c))"
    "lock_path l = cursor_lock_path repo c \<Longrightarrow> hoare (repo_rely blake3 repo c) (at_snapshot blake3 repo S c i) (drop_lock l) (\<lambda>r. at_snapshot blake3 repo S c i)"
    "lock_path l = cursor_lock_path repo c \<Longrightarrow> keeps (work_rely blake3 repo c) (within (hidden (repo_root repo)) fs0) (drop_lock l)"
proof -
  let ?p = "cursor_lock_path repo c"
  obtain q where q: "?p = repo_metadata_dir repo @ LOCKS_DIR_NAME # q" using lock_path_below [of repo c] by blast
  have at: "ignores (\<lambda>t. t = ?p) (at_snapshot blake3 repo S c i)"
    by (rule ignores_at_snapshot(1) [OF assms(1)]) (use lock_below in blast)
  have w: "spares (repo_area repo) (\<lambda>t. t = ?p) (within (hidden (repo_root repo)) fs0)"
    by (rule spares_sub [OF within_kept(2) [OF assms(2)]]) (simp_all add: q area_below)
  note st = within_kept(1) [OF assms(2)]
  show "hoare (repo_rely blake3 repo c) (at_snapshot blake3 repo S c i) (acquire_metadata_lock ?p) (\<lambda>r. at_snapshot blake3 repo S c i)"
    by (rule hoare_frame_acquire [OF stable_at_snapshot at]) simp
  show "keeps (work_rely blake3 repo c) (within (hidden (repo_root repo)) fs0) (acquire_metadata_lock ?p)"
    unfolding keeps_def by (rule hoare_frame_acquire [OF st w]) (simp add: q area_parent)
  show "hoare (repo_rely blake3 repo c) (at_snapshot blake3 repo S c i) (drop_lock l) (\<lambda>r. at_snapshot blake3 repo S c i)" if "lock_path l = ?p"
    unfolding drop_lock_def that by (rule hoare_match [OF hoare_frame_ops(4) [OF stable_at_snapshot at refl]]) (simp add: hoare_return)
  show "keeps (work_rely blake3 repo c) (within (hidden (repo_root repo)) fs0) (drop_lock l)" if "lock_path l = ?p"
    unfolding drop_lock_def that keeps_def by (rule hoare_match [OF hoare_frame_ops(4) [OF st w refl]]) (simp add: hoare_return)
qed

section \<open>Checking out\<close>

lemma fs_get_filter: "fs_get (filter (\<lambda>x. A (fst x)) fs) q = (if A q then fs_get fs q else if q = [] then Some DirNode else None)"
  by (auto simp: fs_get_def map_of_eq_None_iff) (induction fs; auto)

lemma resolve_along:
  assumes "\<And>n m. fs_get fs (take n p) = Some m \<Longrightarrow> fs_get fs' (take n p) = Some m" "resolve fs p = Ok x"
  shows "resolve fs' p = Ok x"
proof -
  define A where "A q \<longleftrightarrow> (\<exists>n. q = take n p)" for q
  let ?keep = "filter (\<lambda>x. A (fst x)) fs"
  have "A (take n p)" for n by (auto simp: A_def)
  then have "resolve ?keep p = resolve fs p" by (intro resolve_cong) (simp add: fs_get_filter)
  moreover have "fs_get fs' q = Some m" if "A q" "fs_get fs q = Some m" for q m using assms(1) that by (auto simp: A_def)
  then have "fs_ext ?keep fs'" by (auto simp: fs_ext_def fs_get_filter split: if_splits)
  ultimately show ?thesis using assms(2) by (auto dest: resolve_ext)
qed

lemma as_method_run: "as_method panic s m w = (r, w') \<Longrightarrow> \<exists>r1 s1. m (s\<lparr>ms_world := w\<rparr>) = (r1, s1) \<and> w' = ms_world s1 \<and> (\<forall>x. r = Ok x \<longrightarrow> r1 = Ok x)"
  by (auto simp: as_method_def split: prod.splits sum.splits mat_abort.splits)

lemma checkout_step:
  assumes ok: "checkout_ok blake3 db (repo_store repo) (repo_root repo) (s\<lparr>ms_world := w\<rparr>)" "area_hidden repo"
    and at: "at_snapshot blake3 repo S c j (w_fs w)"
    and tree: "complete_tree (site_of blake3 db (repo_store repo) (repo_root repo) (s\<lparr>ms_world := w\<rparr>)) (fm_options (ms_fm s)) (w_fs w) t"
    and run: "materialize_into repo mat (repo_root repo) t w = (r, w')"
    and mat: "m_materialize_tree mat = (\<lambda>i wd st. as_method panic s (materialize_tree blake3 db i wd st))"
  shows "at_snapshot blake3 repo (contents_of blake3 repo (w_fs w)) c j (w_fs w') \<and> distinct (map fst (w_fs w')) \<and> w_rely w' = w_rely w \<and>
    (\<forall>x. r = Ok x \<longrightarrow> dir_tree blake3 (fm_options (ms_fm s)) (object_ok blake3 (repo_store repo) (w_fs w')) (w_fs w') (repo_root repo) t)"
proof -
  let ?wd = "working_directory_new (repo_root repo)"
  have wd: "wd_root ?wd = repo_root repo" by (simp add: working_directory_new_def)
  obtain r0 where call: "as_method panic s (materialize_tree blake3 db t ?wd (repo_store repo)) w = (r0, w')" and r0: "\<And>x. r = Ok x \<Longrightarrow> r0 = Ok x"
    using run by (auto simp: materialize_into_def mat map_err_io_def match_io_def result_io_def map_err_Inr_iff split: prod.splits)
  obtain r1 s1 where m: "materialize_tree blake3 db t ?wd (repo_store repo) (s\<lparr>ms_world := w\<rparr>) = (r1, s1)" and w': "w' = ms_world s1"
    and r1: "\<And>x. r = Ok x \<Longrightarrow> r1 = Ok x" using as_method_run [OF call] r0 by auto
  let ?X = "site_of blake3 db (repo_store repo) (repo_root repo) (s\<lparr>ms_world := w\<rparr>)"
  have mv: "moved ?X (strict_prefix (repo_root repo)) (w_fs w) (w_fs w')" and rely: "w_rely w' = w_rely w"
    and res: "\<And>x. r = Ok x \<Longrightarrow> dir_tree blake3 (fm_options (ms_fm s)) (object_ok blake3 (repo_store repo) (w_fs w')) (w_fs w') (repo_root repo) t"
    using materialize_tree_run [OF _ m, unfolded wd, OF ok(1)] tree r1 by (auto simp: w')
  have meta: "fs_get (w_fs w') p = Some n" if "meta (repo_root repo) p" "fs_get (w_fs w) p = Some n" for p n
    using mv that by (simp add: moved_def)
  have resolve: "resolve (w_fs w') (repo_metadata_dir repo @ q) = Ok n" if "resolve (w_fs w) (repo_metadata_dir repo @ q) = Ok n" for q n
    by (rule resolve_along [OF _ that]) (use meta area_take ok(2) in \<open>auto simp: area_hidden_def\<close>)
  obtain q where q: "cursor_path repo c = repo_metadata_dir repo @ q" by (rule area_of_paths)
  have "points_to (w_fs w') (cursor_path repo c) j" "cursor_is repo c (w_fs w')"
    using at resolve q by (auto simp: at_snapshot_def points_to_def holds_text_def cursor_is_def head_path_def split: repository_cursor.splits)
  moreover have "mat_site_ok ?X" using checkout_inv(1) [OF ok(1)] .
  then have "holds_objects blake3 repo (contents_of blake3 repo (w_fs w)) (w_fs w')"
    using moved_content [OF _ mv, of blake3] by (auto simp: holds_objects_def contents_of_def)
  ultimately show ?thesis using mv rely res by (simp add: at_snapshot_def moved_def sound_fs_def)
qed

section \<open>Where an operation starts\<close>

text \<open>
  The materializer keeps a state between its calls: \<open>s1\<close> is its state at the capture, \<open>s2\<close> at the checkout.
\<close>

definition fm_pair :: "hasher \<Rightarrow> 'd redb \<Rightarrow> materialization_error \<Rightarrow> 'd mat_state \<Rightarrow> 'd mat_state \<Rightarrow> materializer" where
  "fm_pair blake3 db panic s1 s2 =
     (fm_materializer blake3 db panic s1)\<lparr>m_materialize_tree := m_materialize_tree (fm_materializer blake3 db panic s2)\<rparr>"

text \<open>
  The metadata is hidden from the working directory, the caches are right about it, others publish only hidden files that
  keep the store sound and not the ref, the cursor is \<open>c\<close>, and its ref points to the stored snapshot \<open>i\<close>.
\<close>

definition restore_ready ::
  "hasher \<Rightarrow> 'd redb \<Rightarrow> repository \<Rightarrow> cursor_reference \<Rightarrow> object_id \<Rightarrow> 'd mat_state \<Rightarrow> 'd mat_state \<Rightarrow> world \<Rightarrow> bool" where
  "restore_ready blake3 db repo c i s1 s2 w \<longleftrightarrow> repo_wf repo \<and> area_hidden repo \<and> Repo_Steps.cursor_ok c \<and> valid_id i \<and>
     request_fits (automatic_snapshot_request repo) \<and> materializer_ok blake3 db repo s1 w \<and>
     checkout_ok blake3 db (repo_store repo) (repo_root repo) (s2\<lparr>ms_world := w\<rparr>) \<and>
     (\<forall>fs p b. w_rely w fs p b \<longrightarrow> p \<noteq> cursor_path repo c) \<and> cursor_is repo c (w_fs w) \<and>
     points_to (w_fs w) (cursor_path repo c) i \<and> object_ok blake3 (repo_store repo) (w_fs w) SnapshotObject i"

lemma ready_facts:
  assumes "restore_ready blake3 db repo c i s1 s2 w"
  shows "hash_ok blake3" "capture_law blake3 repo (fm_materializer blake3 db panic s1)"
    "at_snapshot blake3 repo (contents_of blake3 repo (w_fs w)) c i (w_fs w)" "w_rely w fs p b \<Longrightarrow> work_rely blake3 repo c fs p b"
    "distinct (map fst (w_fs w))"
proof -
  have m: "materializer_ok blake3 db repo s1 w" using assms by (simp add: restore_ready_def)
  note facts = materializer_ok_facts [OF m]
  show "hash_ok blake3" "capture_law blake3 repo (fm_materializer blake3 db panic s1)" by (fact facts)+
  show "at_snapshot blake3 repo (contents_of blake3 repo (w_fs w)) c i (w_fs w)"
    by (rule at_snapshot_contents [where S = "{}"]) (use assms facts(3) in \<open>simp add: restore_ready_def at_snapshot_def holds_objects_def\<close>)
  have "\<forall>fs p b. w_rely w fs p b \<longrightarrow> p \<noteq> cursor_path repo c" using assms by (simp add: restore_ready_def)
  then show "w_rely w fs p b \<Longrightarrow> work_rely blake3 repo c fs p b"
    using facts(4) unfolding work_rely_def repo_rely_def by blast
  show "distinct (map fst (w_fs w))"
    using m by (simp add: materializer_ok_def capture_ok_def site_ok_def Let_def)
qed

lemma capture_pair: "capture_working_tree repo (fm_pair blake3 db panic s1 s2) = capture_working_tree repo (fm_materializer blake3 db panic s1)"
  by (simp add: capture_working_tree_def capture_working_tree_with_hints_def fm_pair_def)

section \<open>The steps\<close>

lemma resolve_step:
  assumes ready: "restore_ready blake3 db repo c i s1 s2 w" and run: "resolve_snapshot_target blake3 repo target w = (r, w1)"
  shows "at_snapshot blake3 repo (contents_of blake3 repo (w_fs w)) c i (w_fs w1) \<and> undisturbed repo w w1 \<and>
    (\<forall>y. r = Ok y \<longrightarrow> target_ok blake3 repo (w_fs w1) (rs_snapshot_id y) (rs_snapshot y))"
proof -
  note facts = ready_facts [OF ready]
  have wf: "repo_wf repo" "area_hidden repo" using ready by (simp_all add: restore_ready_def)
  have "ignores (index_area repo) (at_snapshot blake3 repo S c i)" for S
    by (rule ignores_at_snapshot(1) [OF wf(1)]) (auto simp: index_area_def)
  then have at: "spares (repo_area repo) (index_area repo) (at_snapshot blake3 repo S c i)" for S by (rule spares_sub) simp_all
  have w: "spares (repo_area repo) (index_area repo) (within (hidden (repo_root repo)) fs0)" for fs0
    by (rule spares_sub [OF within_kept(2) [OF wf(2)]]) (auto simp: index_area_def area_below)
  show ?thesis
    using metadata_step [OF hoare_resolve [OF stable_at_snapshot at] keeps_resolve [OF within_kept(1) [OF wf(2)] w] run undisturbed_refl [OF facts(5)] facts(3,4)]
    by simp
qed

lemma capture_within:
  assumes ok: "materializer_ok blake3 db repo s w" and run: "capture_working_tree repo (fm_materializer blake3 db panic s) w = (r, w')"
  shows "within (hidden (repo_root repo)) (w_fs w) (w_fs w')"
proof -
  let ?wd = "working_directory_new (repo_root repo)"
  have wd: "wd_root ?wd = repo_root repo" by (simp add: working_directory_new_def)
  obtain r0 where call: "as_method panic s (capture_tree_with_hints blake3 db ?wd (repo_store repo) []) w = (r0, w')"
    using run by (auto simp: capture_working_tree_def capture_working_tree_with_hints_def map_err_io_def match_io_def result_io_def
        fm_materializer_def split: prod.splits)
  obtain r1 s1 where m: "capture_tree_with_hints blake3 db ?wd (repo_store repo) [] (s\<lparr>ms_world := w\<rparr>) = (r1, s1)" and w': "w' = ms_world s1"
    using as_method_run [OF call] by auto
  have "capture_ok blake3 db (repo_store repo) (wd_root ?wd) (s\<lparr>ms_world := w\<rparr>)" using ok by (simp add: materializer_ok_def wd)
  from trait_capture_run [OF this m] show ?thesis by (simp add: w' wd)
qed

lemma capture_step:
  assumes ready: "restore_ready blake3 db repo c i s1 s2 w" and run: "capture_working_tree repo (fm_pair blake3 db panic s1 s2) w1 = (r, w2)"
    and at: "at_snapshot blake3 repo (contents_of blake3 repo (w_fs w)) c i (w_fs w1)" and und: "undisturbed repo w w1"
  shows "at_snapshot blake3 repo (contents_of blake3 repo (w_fs w1)) c i (w_fs w2) \<and> undisturbed repo w w2 \<and>
    (\<forall>cap. r = Ok cap \<longrightarrow> valid_id (cr_root_tree_id cap) \<and>
       dir_tree blake3 (fm_options (ms_fm s1)) (object_ok blake3 (repo_store repo) (w_fs w2)) (w_fs w) (repo_root repo) (cr_root_tree_id cap))"
proof -
  note facts = ready_facts [OF ready]
  have run: "capture_working_tree repo (fm_materializer blake3 db panic s1) w1 = (r, w2)" using run by (simp add: capture_pair)
  have kept: "contents_kept blake3 repo (w_fs w) (w_fs w1)" using at by (simp add: contents_kept_def at_snapshot_def)
  have ok: "materializer_ok blake3 db repo s1 w1"
  proof -
    have "capture_ok blake3 db (repo_store repo) (repo_root repo) (s1\<lparr>ms_world := w\<rparr>)" using ready by (simp add: restore_ready_def materializer_ok_def)
    moreover have "store_ok blake3 (repo_store repo) (w_fs w1)" using at by (simp add: at_snapshot_def)
    ultimately show ?thesis unfolding materializer_ok_def by (intro capture_ok_later [OF _ und _ kept])
  qed
  have rely: "\<And>fs p b. w_rely w1 fs p b \<Longrightarrow> repo_rely blake3 repo c fs p b" using facts(4) und by (simp add: undisturbed_def work_rely_def)
  note h = hoare_capture [OF facts(2), where S = "contents_of blake3 repo (w_fs w1)" and c = c and i = i and hints = "[]"]
  have "at_snapshot blake3 repo (contents_of blake3 repo (w_fs w1)) c i (w_fs w1)" by (rule at_snapshot_contents [OF at])
  note post = hoareD [OF h run [unfolded capture_working_tree_def] rely this] hoare_stamps [OF h run [unfolded capture_working_tree_def] rely this]
  then have "undisturbed repo w1 w2" using capture_within [OF ok run] by (simp add: undisturbed_def)
  then have "undisturbed repo w w2" by (rule undisturbed_trans [OF und])
  moreover have "dir_tree blake3 (fm_options (ms_fm s1)) (object_ok blake3 (repo_store repo) (w_fs w2)) (w_fs w) (repo_root repo) (cr_root_tree_id cap)"
    if "r = Ok cap" for cap
    using repo_capture_run [OF ok run [unfolded that]] dir_tree_undisturbed [OF und facts(5)] by blast
  ultimately show ?thesis using post by simp
qed

section \<open>The outcome\<close>

text \<open>
  The work of the file system \<open>fs0\<close> is safe in \<open>fs\<close> with the ref at \<open>j\<close>: nothing happened to it, or \<open>j\<close> has its tree.
\<close>

definition work_kept :: "hasher \<Rightarrow> capture_options \<Rightarrow> repository \<Rightarrow> object_id \<Rightarrow> object_id \<Rightarrow> fs \<Rightarrow> fs \<Rightarrow> bool" where
  "work_kept blake3 options repo i j fs0 fs \<longleftrightarrow> (\<exists>t. work_saved blake3 repo i j t fs \<and>
     dir_tree blake3 options (object_ok blake3 (repo_store repo) fs) fs0 (repo_root repo) t)"

lemma dir_tree_kept:
  "contents_kept blake3 repo fs fs' \<Longrightarrow> dir_tree blake3 options (object_ok blake3 (repo_store repo) fs) fs0 dir t \<Longrightarrow>
     dir_tree blake3 options (object_ok blake3 (repo_store repo) fs') fs0 dir t"
  by (erule dir_tree_mono) (rule contents_keptD(2))

lemma work_kept_later: "contents_kept blake3 repo fs fs' \<Longrightarrow> work_kept blake3 options repo i j fs0 fs \<Longrightarrow> work_kept blake3 options repo i j fs0 fs'"
  unfolding work_kept_def by (blast intro: work_saved_kept dir_tree_kept)

definition restored ::
  "hasher \<Rightarrow> capture_options \<Rightarrow> capture_options \<Rightarrow> repository \<Rightarrow> cursor_reference \<Rightarrow> object_id \<Rightarrow> fs \<Rightarrow> repository_error + restore_result \<Rightarrow> fs \<Rightarrow> bool" where
  "restored blake3 o1 o2 repo c i fs0 r fs = (case r of
      Inl _ \<Rightarrow> at_snapshot blake3 repo {} c i fs \<and> within (hidden (repo_root repo)) fs0 fs \<or>
        (\<exists>j. at_snapshot blake3 repo {} c j fs \<and> work_kept blake3 o1 repo i j fs0 fs)
    | Inr res \<Rightarrow> at_snapshot blake3 repo {} c (rst_snapshot_id res) fs \<and> target_ok blake3 repo fs (rst_snapshot_id res) (rst_snapshot res) \<and>
        work_kept blake3 o1 repo i (saved_target i (rst_saved_snapshot res)) fs0 fs \<and>
        dir_tree blake3 o2 (object_ok blake3 (repo_store repo) fs) fs (repo_root repo) (snap_root (rst_snapshot res)))"

lemma at_snapshot_empty: "at_snapshot blake3 repo S c j fs \<Longrightarrow> at_snapshot blake3 repo {} c j fs"
  by (simp add: at_snapshot_def holds_objects_def)

lemma at_snapshot_kept: "at_snapshot blake3 repo (contents_of blake3 repo fs0) c j fs \<Longrightarrow> contents_kept blake3 repo fs0 fs"
  by (simp add: at_snapshot_def contents_kept_def)

lemma restored_later:
  assumes "restored blake3 o1 o2 repo c i fs0 r (w_fs w)" "undisturbed repo w w'" "distinct (map fst (w_fs w))"
    and keep: "\<And>S j. at_snapshot blake3 repo S c j (w_fs w) \<Longrightarrow> at_snapshot blake3 repo S c j (w_fs w')"
  shows "restored blake3 o1 o2 repo c i fs0 r (w_fs w')"
proof -
  obtain j where "at_snapshot blake3 repo {} c j (w_fs w)" using assms(1) by (auto simp: restored_def split: sum.splits)
  note kept = at_snapshot_kept [OF keep [OF at_snapshot_contents [OF this]]]
  have "within (hidden (repo_root repo)) fs0 (w_fs w')" if "within (hidden (repo_root repo)) fs0 (w_fs w)"
    using that assms(2) by (simp add: undisturbed_def within_def)
  moreover have "target_ok blake3 repo (w_fs w') k sn" if "target_ok blake3 repo (w_fs w) k sn" for k sn
    using that contents_keptD(2) [OF kept] by (simp add: target_ok_def)
  moreover have "dir_tree blake3 o2 (object_ok blake3 (repo_store repo) (w_fs w')) (w_fs w') (repo_root repo) t"
    if "dir_tree blake3 o2 (object_ok blake3 (repo_store repo) (w_fs w)) (w_fs w) (repo_root repo) t" for t
    using dir_tree_kept [OF kept that] dir_tree_undisturbed [OF assms(2,3)] by blast
  moreover note keep work_kept_later [OF kept]
  ultimately show ?thesis
    using assms(1) unfolding restored_def by (cases r; simp only: sum.case; blast)
qed

section \<open>Restoring under the lock\<close>

definition write_restored :: "repository \<Rightarrow> cursor_reference \<Rightarrow> resolved_snapshot \<Rightarrow> snapshot_result option \<Rightarrow> materialize_result \<Rightarrow> restore_result repo_io" where
  "write_restored repo c resolved saved materialization =
     bind_io (write_cursor_ref repo c (rs_snapshot_id resolved)) (\<lambda>_.
       return_io \<lparr>rst_cursor = to_info c, rst_snapshot_id = rs_snapshot_id resolved, rst_snapshot = rs_snapshot resolved,
         rst_saved_snapshot = saved, rst_materialization = materialization\<rparr>)"

text \<open>Moving the ref after the checkout.\<close>

lemma move_step:
  assumes ready: "restore_ready blake3 db repo c i s1 s2 w" and run: "write_restored repo c y saved x wm = (r, w')"
    and at: "at_snapshot blake3 repo {} c (saved_target i saved) (w_fs wm)" and rely: "w_rely wm = w_rely w" and d: "distinct (map fst (w_fs wm))"
    and kept: "work_kept blake3 o1 repo i (saved_target i saved) fs0 (w_fs wm)" and y: "target_ok blake3 repo (w_fs wm) (rs_snapshot_id y) (rs_snapshot y)"
    and tree: "dir_tree blake3 o2 (object_ok blake3 (repo_store repo) (w_fs wm)) (w_fs wm) (repo_root repo) (snap_root (rs_snapshot y))"
  shows "restored blake3 o1 o2 repo c i fs0 r (w_fs w') \<and> undisturbed repo wm w'"
proof -
  have wf: "repo_wf repo" "area_hidden repo" "Repo_Steps.cursor_ok c" using ready by (simp_all add: restore_ready_def)
  have rely': "\<And>fs p b. w_rely wm fs p b \<Longrightarrow> work_rely blake3 repo c fs p b" using ready_facts(4) [OF ready] rely by simp
  obtain r1 where wr: "write_cursor_ref repo c (rs_snapshot_id y) wm = (r1, w')"
    and r: "r = (case r1 of Inl e \<Rightarrow> Inl e | Inr _ \<Rightarrow> Ok \<lparr>rst_cursor = to_info c, rst_snapshot_id = rs_snapshot_id y,
      rst_snapshot = rs_snapshot y, rst_saved_snapshot = saved, rst_materialization = x\<rparr>)"
    using run by (auto simp: write_restored_def bind_io_def return_io_def split: prod.splits sum.splits)
  note keep = keeps_write_cursor_ref [OF within_kept [OF wf(2)]]
  let ?S = "contents_of blake3 repo (w_fs wm)"
  have post: "at_snapshot blake3 repo ?S c (if r1 = Ok () then rs_snapshot_id y else saved_target i saved) (w_fs w')" and und: "undisturbed repo wm w'"
    using metadata_step [OF hoare_write_cursor_ref [OF wf(1,3)] keep wr undisturbed_refl [OF d] at_snapshot_contents [OF at] rely'] by simp_all
  note kept' = at_snapshot_kept [OF post]
  have "dir_tree blake3 o2 (object_ok blake3 (repo_store repo) (w_fs w')) (w_fs w') (repo_root repo) (snap_root (rs_snapshot y))"
    using dir_tree_kept [OF kept' tree] dir_tree_undisturbed [OF und d] by blast
  then show ?thesis
    using und at_snapshot_empty [OF post] work_kept_later [OF kept' kept] y contents_keptD(2) [OF kept']
    by (auto simp: restored_def r target_ok_def split: sum.splits)
qed

text \<open>The checkout, once the work is saved.\<close>

lemma checkout_and_move:
  assumes ready: "restore_ready blake3 db repo c i s1 s2 w"
    and at: "at_snapshot blake3 repo {} c (saved_target i saved) (w_fs wb)" and und: "undisturbed repo w wb" and kept: "contents_kept blake3 repo (w_fs w) (w_fs wb)"
    and wk: "work_kept blake3 o1 repo i (saved_target i saved) (w_fs w) (w_fs wb)"
    and y: "target_ok blake3 repo (w_fs wb) (rs_snapshot_id y) (rs_snapshot y)"
    and tree: "complete_tree (site_of blake3 db (repo_store repo) (repo_root repo) (s2\<lparr>ms_world := w\<rparr>)) (fm_options (ms_fm s2)) (w_fs w) (snap_root (rs_snapshot y))"
    and run: "bind_io (materialize_into repo (fm_pair blake3 db panic s1 s2) (repo_root repo) (snap_root (rs_snapshot y))) (write_restored repo c y saved) wb = (r, w')"
  shows "restored blake3 o1 (fm_options (ms_fm s2)) repo c i (w_fs w) r (w_fs w') \<and> distinct (map fst (w_fs w')) \<and> w_rely w' = w_rely w"
proof -
  have ok: "area_hidden repo" "checkout_ok blake3 db (repo_store repo) (repo_root repo) (s2\<lparr>ms_world := w\<rparr>)"
    using ready by (simp_all add: restore_ready_def)
  let ?t = "snap_root (rs_snapshot y)" and ?j = "saved_target i saved"
  have "store_ok blake3 (repo_store repo) (w_fs wb)" using at by (simp add: at_snapshot_def)
  note ck = checkout_ok_later [OF ok(2) und this kept]
  have ct: "complete_tree (site_of blake3 db (repo_store repo) (repo_root repo) (s2\<lparr>ms_world := wb\<rparr>)) (fm_options (ms_fm s2)) (w_fs wb) ?t"
    by (rule complete_tree_later [OF tree _ _ _ _ kept]) simp_all
  obtain rm wm where mat: "materialize_into repo (fm_pair blake3 db panic s1 s2) (repo_root repo) ?t wb = (rm, wm)" by fastforce
  have "m_materialize_tree (fm_pair blake3 db panic s1 s2) = (\<lambda>i wd st. as_method panic s2 (materialize_tree blake3 db i wd st))"
    by (simp add: fm_pair_def fm_materializer_def)
  note out = checkout_step [OF ck ok(1) at ct mat this]
  then have at': "at_snapshot blake3 repo {} c ?j (w_fs wm)" and km: "contents_kept blake3 repo (w_fs wb) (w_fs wm)"
    by (auto dest: at_snapshot_empty at_snapshot_kept)
  have rely: "w_rely wm = w_rely w" and d: "distinct (map fst (w_fs wm))" using out und by (simp_all add: undisturbed_def)
  note wk' = work_kept_later [OF km wk]
  show ?thesis
  proof (cases rm)
    case (Inl e)
    then have "r = Inl e" "w' = wm" using run mat by (simp_all add: bind_io_def)
    then show ?thesis using at' wk' rely d by (auto simp: restored_def)
  next
    case (Inr x)
    then have wr: "write_restored repo c y saved x wm = (r, w')" using run mat by (simp add: bind_io_def)
    have "target_ok blake3 repo (w_fs wm) (rs_snapshot_id y) (rs_snapshot y)" using y contents_keptD(2) [OF km] by (simp add: target_ok_def)
    from move_step [OF ready wr at' rely d wk' this] out Inr rely show ?thesis by (auto simp: undisturbed_def within_def)
  qed
qed

text \<open>All that the lock protects.\<close>

lemma body_step:
  assumes ready: "restore_ready blake3 db repo c i s1 s2 w"
    and at: "at_snapshot blake3 repo {} c i (w_fs wa)" and und: "undisturbed repo w wa" and kept: "contents_kept blake3 repo (w_fs w) (w_fs wa)"
    and cap: "valid_id (cr_root_tree_id cap)" "dir_tree blake3 o1 (object_ok blake3 (repo_store repo) (w_fs wa)) (w_fs w) (repo_root repo) (cr_root_tree_id cap)"
    and y: "target_ok blake3 repo (w_fs wa) (rs_snapshot_id y) (rs_snapshot y)"
    and tree: "complete_tree (site_of blake3 db (repo_store repo) (repo_root repo) (s2\<lparr>ms_world := w\<rparr>)) (fm_options (ms_fm s2)) (w_fs w) (snap_root (rs_snapshot y))"
    and run: "bind_io (save_before_restore blake3 repo c cap) (\<lambda>saved.
      bind_io (materialize_into repo (fm_pair blake3 db panic s1 s2) (repo_root repo) (snap_root (rs_snapshot y))) (write_restored repo c y saved)) wa = (r, w')"
  shows "restored blake3 o1 (fm_options (ms_fm s2)) repo c i (w_fs w) r (w_fs w') \<and> distinct (map fst (w_fs w')) \<and> w_rely w' = w_rely w"
proof -
  note facts = ready_facts [OF ready]
  have ok: "repo_wf repo" "area_hidden repo" "Repo_Steps.cursor_ok c" "valid_id i" "request_fits (automatic_snapshot_request repo)"
      "object_ok blake3 (repo_store repo) (w_fs w) SnapshotObject i"
    using ready by (simp_all add: restore_ready_def)
  obtain rb wb where save: "save_before_restore blake3 repo c cap wa = (rb, wb)" by fastforce
  let ?S = "contents_of blake3 repo (w_fs wa)"
  note hs = hoare_save_before_restore [OF ok(1) facts(1) ok(3-5) cap(1), of ?S]
  note ks = keeps_save_before_restore [OF ok(1) within_kept [OF ok(2)]]
  have out: "outcome blake3 repo ?S c i (\<lambda>x. x) (changed_result blake3 i cap) rb (w_fs wb)" and und': "undisturbed repo w wb"
    using metadata_step [OF hs ks save und at_snapshot_contents [OF at] facts(4)] by simp_all
  show ?thesis
  proof (cases rb)
    case (Inl e)
    then have "r = Inl e" "w' = wb" using run save by (simp_all add: bind_io_def)
    then show ?thesis using out und' at_snapshot_empty unfolding Inl by (auto simp: restored_def undisturbed_def within_def)
  next
    case (Inr saved)
    have k: "contents_kept blake3 repo (w_fs wa) (w_fs wb)" using out unfolding Inr outcome_def advanced_def
      by (auto split: option.splits dest: at_snapshot_kept)
    note k' = contents_kept_trans [OF kept k]
    have j: "at_snapshot blake3 repo ?S c (saved_target i saved) (w_fs wb)" and ws: "work_saved blake3 repo i (saved_target i saved) (cr_root_tree_id cap) (w_fs wb)"
      using outcome_saved [OF out [unfolded Inr]] contents_keptD(2) [OF k' ok(6)] by simp_all
    have wk: "work_kept blake3 o1 repo i (saved_target i saved) (w_fs w) (w_fs wb)"
      using ws dir_tree_kept [OF k cap(2)] by (auto simp: work_kept_def)
    have y': "target_ok blake3 repo (w_fs wb) (rs_snapshot_id y) (rs_snapshot y)" using y contents_keptD(2) [OF k] by (simp add: target_ok_def)
    have "bind_io (materialize_into repo (fm_pair blake3 db panic s1 s2) (repo_root repo) (snap_root (rs_snapshot y))) (write_restored repo c y saved) wb = (r, w')"
      using run save Inr by (simp add: bind_io_def)
    from checkout_and_move [OF ready at_snapshot_empty [OF j] und' k' wk y' tree this] show ?thesis .
  qed
qed

section \<open>The property\<close>

lemma repo_restore_steps:
  "repo_restore blake3 repo mat target =
     bind_io (resolve_snapshot_target blake3 repo target) (\<lambda>y.
     bind_io (capture_working_tree repo mat) (\<lambda>cap.
     bind_io (current_cursor_reference repo) (\<lambda>c.
     with_cursor_lock repo c (bind_io (save_before_restore blake3 repo c cap) (\<lambda>saved.
       bind_io (materialize_into repo mat (repo_root repo) (snap_root (rs_snapshot y))) (write_restored repo c y saved))))))"
  by (simp add: repo_restore_def write_restored_def [abs_def])

lemma locked_step:
  assumes ready: "restore_ready blake3 db repo c i s1 s2 w"
    and at: "at_snapshot blake3 repo {} c i (w_fs wc)" and und: "undisturbed repo w wc" and kept: "contents_kept blake3 repo (w_fs w) (w_fs wc)"
    and cap: "valid_id (cr_root_tree_id cap)" "dir_tree blake3 o1 (object_ok blake3 (repo_store repo) (w_fs wc)) (w_fs w) (repo_root repo) (cr_root_tree_id cap)"
    and y: "target_ok blake3 repo (w_fs wc) (rs_snapshot_id y) (rs_snapshot y)"
    and tree: "complete_tree (site_of blake3 db (repo_store repo) (repo_root repo) (s2\<lparr>ms_world := w\<rparr>)) (fm_options (ms_fm s2)) (w_fs w) (snap_root (rs_snapshot y))"
    and run: "with_cursor_lock repo c (bind_io (save_before_restore blake3 repo c cap) (\<lambda>saved.
      bind_io (materialize_into repo (fm_pair blake3 db panic s1 s2) (repo_root repo) (snap_root (rs_snapshot y))) (write_restored repo c y saved))) wc = (r, w')"
  shows "restored blake3 o1 (fm_options (ms_fm s2)) repo c i (w_fs w) r (w_fs w')"
proof -
  have wf: "repo_wf repo" "area_hidden repo" using ready by (simp_all add: restore_ready_def)
  note steps = lock_steps [OF wf] and rely = ready_facts(4) [OF ready]
  let ?S = "contents_of blake3 repo (w_fs wc)"
  have acq: "at_snapshot blake3 repo ?S c i (w_fs wa) \<and> undisturbed repo w wa" if "acquire_metadata_lock (cursor_lock_path repo c) wc = (x, wa)" for x wa
    using metadata_step [OF steps(1,2) that und at_snapshot_contents [OF at] rely] .
  from run [unfolded with_cursor_lock_def] show ?thesis
  proof (cases rule: with_lock_run)
    case (1 e)
    then show ?thesis using acq [OF 1(1)] at_snapshot_empty by (auto simp: restored_def undisturbed_def)
  next
    case (2 l wa wb)
    from acq [OF 2(1)] have ata: "at_snapshot blake3 repo ?S c i (w_fs wa)" and unda: "undisturbed repo w wa" by simp_all
    note k = at_snapshot_kept [OF ata]
    have ya: "target_ok blake3 repo (w_fs wa) (rs_snapshot_id y) (rs_snapshot y)" using y contents_keptD(2) [OF k] by (simp add: target_ok_def)
    note out = body_step [OF ready at_snapshot_empty [OF ata] unda contents_kept_trans [OF kept k] cap(1) dir_tree_kept [OF k cap(2)] ya tree 2(3)]
    then have d: "distinct (map fst (w_fs wb))" and relyb: "\<And>fs p b. w_rely wb fs p b \<Longrightarrow> work_rely blake3 repo c fs p b" using rely by simp_all
    note drop = metadata_step [OF steps(3) [OF 2(2)] steps(4) [OF 2(2)] 2(4) undisturbed_refl [OF d] _ relyb]
    obtain j where "at_snapshot blake3 repo {} c j (w_fs wb)" using out by (auto simp: restored_def split: sum.splits)
    from drop [OF this] have "undisturbed repo wb w'" by simp
    from restored_later [OF conjunct1 [OF out] this d] drop show ?thesis by blast
  qed
qed

lemma cursor_step:
  assumes ready: "restore_ready blake3 db repo c i s1 s2 w"
    and at: "at_snapshot blake3 repo {} c i (w_fs wc)" and und: "undisturbed repo w wc" and kept: "contents_kept blake3 repo (w_fs w) (w_fs wc)"
    and cap: "valid_id (cr_root_tree_id cap)" "dir_tree blake3 o1 (object_ok blake3 (repo_store repo) (w_fs wc)) (w_fs w) (repo_root repo) (cr_root_tree_id cap)"
    and y: "target_ok blake3 repo (w_fs wc) (rs_snapshot_id y) (rs_snapshot y)"
    and tree: "complete_tree (site_of blake3 db (repo_store repo) (repo_root repo) (s2\<lparr>ms_world := w\<rparr>)) (fm_options (ms_fm s2)) (w_fs w) (snap_root (rs_snapshot y))"
    and run: "bind_io (current_cursor_reference repo) (\<lambda>c. with_cursor_lock repo c (bind_io (save_before_restore blake3 repo c cap) (\<lambda>saved.
      bind_io (materialize_into repo (fm_pair blake3 db panic s1 s2) (repo_root repo) (snap_root (rs_snapshot y))) (write_restored repo c y saved)))) wc = (r, w')"
  shows "restored blake3 o1 (fm_options (ms_fm s2)) repo c i (w_fs w) r (w_fs w')"
proof -
  have wf: "area_hidden repo" "Repo_Steps.cursor_ok c" using ready by (simp_all add: restore_ready_def)
  obtain rk wk where cur: "current_cursor_reference repo wc = (rk, wk)" by fastforce
  let ?S = "contents_of blake3 repo (w_fs wc)"
  have "\<And>fs. at_snapshot blake3 repo ?S c i fs \<Longrightarrow> cursor_is repo c fs" by (simp add: at_snapshot_def)
  note h = hoare_current_cursor [OF stable_at_snapshot this wf(2)] and k = keeps_ref_reads(5) [OF within_kept(1) [OF wf(1)]]
  have atk: "at_snapshot blake3 repo ?S c i (w_fs wk)" "undisturbed repo w wk" "\<And>c'. rk = Ok c' \<Longrightarrow> c' = c"
    using metadata_step [OF h k cur und at_snapshot_contents [OF at] ready_facts(4) [OF ready]] by simp_all
  note kk = at_snapshot_kept [OF atk(1)]
  show ?thesis
  proof (cases rk)
    case (Inl e)
    then have "r = Inl e" "w' = wk" using run cur by (simp_all add: bind_io_def)
    then show ?thesis using at_snapshot_empty [OF atk(1)] atk(2) by (simp add: restored_def undisturbed_def)
  next
    case (Inr c')
    then have locked: "with_cursor_lock repo c (bind_io (save_before_restore blake3 repo c cap) (\<lambda>saved.
        bind_io (materialize_into repo (fm_pair blake3 db panic s1 s2) (repo_root repo) (snap_root (rs_snapshot y))) (write_restored repo c y saved))) wk = (r, w')"
      using run cur atk(3) [OF Inr] by (simp add: bind_io_def)
    have "target_ok blake3 repo (w_fs wk) (rs_snapshot_id y) (rs_snapshot y)" using y contents_keptD(2) [OF kk] by (simp add: target_ok_def)
    from locked_step [OF ready at_snapshot_empty [OF atk(1)] atk(2) contents_kept_trans [OF kept kk] cap(1) dir_tree_kept [OF kk cap(2)] this tree locked]
    show ?thesis .
  qed
qed

lemma restore_run:
  assumes ready: "restore_ready blake3 db repo c i s1 s2 w"
    and tree: "\<And>y w1. resolve_snapshot_target blake3 repo target w = (Ok y, w1) \<Longrightarrow>
      complete_tree (site_of blake3 db (repo_store repo) (repo_root repo) (s2\<lparr>ms_world := w\<rparr>)) (fm_options (ms_fm s2)) (w_fs w) (snap_root (rs_snapshot y))"
    and run: "repo_restore blake3 repo (fm_pair blake3 db panic s1 s2) target w = (r, w')"
  shows "restored blake3 (fm_options (ms_fm s1)) (fm_options (ms_fm s2)) repo c i (w_fs w) r (w_fs w')"
proof -
  have early: ?thesis if "r = Inl e" "at_snapshot blake3 repo S c i (w_fs w')" "undisturbed repo w w'" for e :: repository_error and S
    using that at_snapshot_empty by (auto simp: restored_def undisturbed_def)
  obtain r1 w1 where res: "resolve_snapshot_target blake3 repo target w = (r1, w1)" by fastforce
  from resolve_step [OF ready res] have at1: "at_snapshot blake3 repo (contents_of blake3 repo (w_fs w)) c i (w_fs w1)" and und1: "undisturbed repo w w1"
    and y1: "\<And>y. r1 = Ok y \<Longrightarrow> target_ok blake3 repo (w_fs w1) (rs_snapshot_id y) (rs_snapshot y)" by simp_all
  show ?thesis
  proof (cases r1)
    case (Inl e)
    then have "r = Inl e" "w' = w1" using run res by (simp_all add: repo_restore_steps bind_io_def)
    then show ?thesis using early at1 und1 by blast
  next
    case (Inr y)
    obtain r2 w2 where capture: "capture_working_tree repo (fm_pair blake3 db panic s1 s2) w1 = (r2, w2)" by fastforce
    from capture_step [OF ready capture at1 und1]
    have at2: "at_snapshot blake3 repo (contents_of blake3 repo (w_fs w1)) c i (w_fs w2)" and und2: "undisturbed repo w w2"
      and cap: "\<And>x. r2 = Ok x \<Longrightarrow> valid_id (cr_root_tree_id x) \<and> dir_tree blake3 (fm_options (ms_fm s1)) (object_ok blake3 (repo_store repo) (w_fs w2)) (w_fs w) (repo_root repo) (cr_root_tree_id x)"
      by simp_all
    note k2 = at_snapshot_kept [OF at2]
    show ?thesis
    proof (cases r2)
      case e: (Inl e)
      then have "r = Inl e" "w' = w2" using run res Inr capture by (simp_all add: repo_restore_steps bind_io_def)
      then show ?thesis using early at2 und2 by blast
    next
      case x: (Inr x)
      have "target_ok blake3 repo (w_fs w2) (rs_snapshot_id y) (rs_snapshot y)" using y1 [OF Inr] contents_keptD(2) [OF k2] by (simp add: target_ok_def)
      note rest = cursor_step [OF ready at_snapshot_empty [OF at2] und2 contents_kept_trans [OF at_snapshot_kept [OF at1] k2] _ _ this tree [OF res [unfolded Inr]]]
      show ?thesis by (rule rest [of x]) (use run res Inr capture x cap in \<open>simp_all add: repo_restore_steps bind_io_def\<close>)
    qed
  qed
qed

text \<open>
  C7. Restoring never loses work. With the materializer of the file system, whatever fails and is published: when
  \<open>Repository::restore\<close> returns, the ref of the cursor points to the stored snapshot that the target was resolved to, the tree
  of the working directory is its tree, and the tree that the working directory had at the call is the tree of a stored
  snapshot, the saved one, whose only parent is the previous target, or the previous target itself. When it fails, either no
  file of the working directory changed and the ref points where it did, or the ref points to that snapshot. The store
  stays sound and the cursor is the same. The tree of the target must be complete in the store.
\<close>

theorem restore_keeps_work:
  assumes "restore_ready blake3 db repo c i s1 s2 w"
    and "\<And>y w1. resolve_snapshot_target blake3 repo target w = (Ok y, w1) \<Longrightarrow>
      complete_tree (site_of blake3 db (repo_store repo) (repo_root repo) (s2\<lparr>ms_world := w\<rparr>)) (fm_options (ms_fm s2)) (w_fs w) (snap_root (rs_snapshot y))"
    and "repo_restore blake3 repo (fm_pair blake3 db panic s1 s2) target w = (r, w')"
  shows "store_ok blake3 (repo_store repo) (w_fs w') \<and> cursor_is repo c (w_fs w') \<and> (case r of
      Inl _ \<Rightarrow>
        points_to (w_fs w') (cursor_path repo c) i \<and> (\<forall>p. \<not> hidden (repo_root repo) p \<longrightarrow> fs_get (w_fs w') p = fs_get (w_fs w) p) \<or>
        (\<exists>j. points_to (w_fs w') (cursor_path repo c) j \<and> work_kept blake3 (fm_options (ms_fm s1)) repo i j (w_fs w) (w_fs w'))
    | Inr res \<Rightarrow>
        points_to (w_fs w') (cursor_path repo c) (rst_snapshot_id res) \<and> target_ok blake3 repo (w_fs w') (rst_snapshot_id res) (rst_snapshot res) \<and>
        work_kept blake3 (fm_options (ms_fm s1)) repo i (saved_target i (rst_saved_snapshot res)) (w_fs w) (w_fs w') \<and>
        dir_tree blake3 (fm_options (ms_fm s2)) (object_ok blake3 (repo_store repo) (w_fs w')) (w_fs w') (repo_root repo) (snap_root (rst_snapshot res)))"
proof -
  have "restored blake3 (fm_options (ms_fm s1)) (fm_options (ms_fm s2)) repo c i (w_fs w) r (w_fs w')"
    by (rule restore_run [OF assms(1) _ assms(3)]) (rule assms(2))
  then show ?thesis by (cases r) (auto simp: restored_def at_snapshot_def within_def)
qed

text \<open>A repository whose only snapshot has an empty tree, and a file that was never recorded.\<close>

definition empty_tree_id :: object_id where
  "empty_tree_id = ObjectId (replicate 31 0 @ [77])"

definition empty_tree_bytes :: bytes where
  "empty_tree_bytes = bstr ''ERA_TREE_V1'' @ [0, 0, 0, 0, 0]"

definition old_snapshot :: snapshot where
  "old_snapshot = snapshot_new empty_tree_id [] 42 None (Some (bstr ''hello'')) provenance_initial"

definition old_id :: object_id where
  "old_id = snapshot_id sum_hash old_snapshot"

definition restore_objects :: fs where
  "restore_objects =
     [(object_path sample_objects TreeObject empty_tree_id, FileNode empty_tree_bytes),
      (object_path sample_objects SnapshotObject old_id, FileNode (snapshot_to_canonical_bytes old_snapshot))]"

definition restore_files :: fs where
  "restore_files =
     [(store_root sample_objects @ [bstr ''trees'', bstr ''00''], DirNode), (store_root sample_objects @ [bstr ''trees''], DirNode),
      (store_root sample_objects @ [bstr ''snapshots'', bstr ''00''], DirNode), (store_root sample_objects @ [bstr ''snapshots''], DirNode),
      ([bstr ''w''], DirNode), ([bstr ''w'', bstr ''.era''], DirNode), (store_root sample_objects, DirNode),
      ([bstr ''w'', bstr ''.era'', bstr ''HEAD''], FileNode (head_contents branch_main)),
      ([bstr ''w'', bstr ''.era'', bstr ''refs''], DirNode), ([bstr ''w'', bstr ''.era'', bstr ''refs'', bstr ''heads''], DirNode),
      ([bstr ''w'', bstr ''.era'', bstr ''refs'', bstr ''heads'', bstr ''main''], FileNode (ref_contents old_id)),
      ([bstr ''w'', bstr ''a''], FileNode [1, 2])]"

definition restore_world :: world where
  "restore_world = (ref_world [] (restore_objects @ restore_files))\<lparr>w_unix := [Some 1, Some 2, Some 3, Some 4]\<rparr>"

lemma restore_world_simps [simp]: "w_fs restore_world = restore_objects @ restore_files" "w_rely restore_world = (\<lambda>fs p b. False)"
  by (simp_all add: restore_world_def)

lemma restore_contents:
  "has_content sum_hash sample_objects (restore_objects @ restore_files) TreeObject empty_tree_id empty_tree_bytes"
  "has_content sum_hash sample_objects (restore_objects @ restore_files) SnapshotObject old_id (snapshot_to_canonical_bytes old_snapshot)"
proof -
  have "check_file sum_hash (restore_objects @ restore_files) (object_path sample_objects TreeObject empty_tree_id) empty_tree_id = Some empty_tree_bytes"
    "check_file sum_hash (restore_objects @ restore_files) (object_path sample_objects SnapshotObject old_id) old_id = Some (snapshot_to_canonical_bytes old_snapshot)"
    by code_simp+
  then show "has_content sum_hash sample_objects (restore_objects @ restore_files) TreeObject empty_tree_id empty_tree_bytes"
    "has_content sum_hash sample_objects (restore_objects @ restore_files) SnapshotObject old_id (snapshot_to_canonical_bytes old_snapshot)"
    by (auto dest: check_file_Some simp: has_content_def)
qed

lemma restore_store_ok: "store_ok sum_hash sample_objects (w_fs restore_world)"
  unfolding store_ok_def
proof (intro allI impI)
  fix k i b
  assume i: "valid_id i" and get: "fs_get (w_fs restore_world) (object_path sample_objects k i) = Some (FileNode b)"
  have ids: "valid_id empty_tree_id" "valid_id old_id"
    by (simp_all add: valid_id_def empty_tree_id_def old_id_def snapshot_id_def from_content_def sum_hash_def OBJECT_ID_BYTES_def)
  have "(object_path sample_objects k i, FileNode b) \<in> set (restore_objects @ restore_files)"
    by (rule map_of_SomeD) (use get in \<open>simp add: fs_get_def\<close>)
  then have "object_path sample_objects k i \<in> fst ` set (restore_objects @ restore_files)" by (metis fst_conv image_eqI)
  moreover have "\<forall>x \<in> set restore_files. length (fst x) < 6" by (simp add: restore_files_def sample_objects_def)
  moreover have "length (object_path sample_objects k i) = 6" by (simp add: sample_objects_def)
  ultimately have "object_path sample_objects k i \<in> fst ` set restore_objects" by force
  then have "object_path sample_objects k i = object_path sample_objects TreeObject empty_tree_id \<or>
      object_path sample_objects k i = object_path sample_objects SnapshotObject old_id" by (auto simp: restore_objects_def)
  then have "(k, i) = (TreeObject, empty_tree_id) \<or> (k, i) = (SnapshotObject, old_id)"
    using object_path_inj [OF _ i ids(1), of sample_objects k TreeObject] object_path_inj [OF _ i ids(2), of sample_objects k SnapshotObject] by auto
  then show "object_ok sum_hash sample_objects (w_fs restore_world) k i"
    using restore_contents by (auto simp: object_ok_content)
qed

lemma restore_world_ready:
  "restore_ready sum_hash mem_redb local_repo (BranchCursor branch_main) old_id sample_state sample_state restore_world"
proof -
  have d: "distinct (map fst (w_fs restore_world))" by (simp only: restore_world_simps) code_simp
  have cap: "capture_ok sum_hash mem_redb sample_objects sample_root (sample_state\<lparr>ms_world := restore_world\<rparr>)"
    by (rule workspace_ok_sample [OF d restore_store_ok]) simp
  have area: "meta sample_root p" if "store_area \<lparr>store_root = [bstr ''w'', bstr ''.era''] @ q\<rparr> p" for p q
    by (rule meta_store_area [OF _ that]) (simp add: sample_root_def)
  have areas: "meta sample_root p" if "repo_area local_repo p \<or> store_area sample_objects p" for p
    using that area [of "[]"] area [of "[bstr ''objects'']"] by (auto simp: repo_area_def store_area_def local_repo_def sample_objects_def)
  have "fm_cache_path (ms_fm sample_state) = Some [bstr ''w'', bstr ''.era'', bstr ''cache.redb'']"
    by (simp add: sample_state_def fm_with_cache_path_def fm_with_options_and_cache_path_def)
  moreover have "meta sample_root (take n [bstr ''w'', bstr ''.era''])" for n
    by (cases n; cases "n - 1") (auto simp: meta_def sample_root_def strict_prefix_def)
  ultimately have out: "checkout_ok sum_hash mem_redb sample_objects sample_root (sample_state\<lparr>ms_world := restore_world\<rparr>)"
    using cap areas by (auto simp: checkout_ok_def)
  have "resolve (restore_objects @ restore_files) (head_path (repo_metadata_dir local_repo)) = Ok (FileNode (head_contents branch_main))"
    "resolve (restore_objects @ restore_files) (cursor_path local_repo (BranchCursor branch_main)) = Ok (FileNode (ref_contents old_id))"
    "request_fits (automatic_snapshot_request local_repo)" by code_simp+
  moreover have "valid_id old_id" by (simp add: valid_id_def old_id_def snapshot_id_def from_content_def sum_hash_def OBJECT_ID_BYTES_def)
  moreover have "repo_store local_repo = sample_objects" "repo_root local_repo = sample_root" "repo_cursor local_repo = CurrentBranch"
    by (simp_all add: local_repo_def)
  ultimately show ?thesis
    using cap out areas restore_contents(2) local_facts(1,2)
    by (auto simp: restore_ready_def area_hidden_def materializer_ok_def cursor_is_def points_to_def holds_text_def object_ok_content)
qed

lemma resolve_timestamp_code [code]:
  "resolve_timestamp r =
    (case req_timestamp r of
       Some t \<Rightarrow> return_io t
     | None \<Rightarrow> bind_io unix_millis (\<lambda>millis. case millis of
         None \<Rightarrow> fail_io ClockBeforeUnixEpoch
       | Some t \<Rightarrow> if int t < 18446744073709551616 then return_io (word_of_int (int t)) else fail_io (TimestampOverflow t)))"
proof -
  have lim: "(t < USIZE_LIMIT) = (int t < 18446744073709551616)" for t by (simp add: USIZE_LIMIT_def)
  have nat: "word_of_int (int t) = (word_of_nat t :: u64)" for t by simp
  show ?thesis unfolding resolve_timestamp_def lim nat by (rule refl)
qed

definition sample_pair :: materializer where
  "sample_pair = fm_pair sum_hash mem_redb (MatRootMissing []) sample_state sample_state"

lemma restore_target_complete:
  assumes "resolve_snapshot_target sum_hash local_repo (bstr ''hello'') restore_world = (Ok y, w1)"
  shows "complete_tree (site_of sum_hash mem_redb sample_objects sample_root (sample_state\<lparr>ms_world := restore_world\<rparr>))
    capture_options_default (w_fs restore_world) (snap_root (rs_snapshot y))"
proof -
  have "case fst (resolve_snapshot_target sum_hash local_repo (bstr ''hello'') restore_world) of
      Inl _ \<Rightarrow> False | Inr y \<Rightarrow> snap_root (rs_snapshot y) = empty_tree_id" by code_simp
  then have "snap_root (rs_snapshot y) = empty_tree_id" unfolding assms by simp
  moreover have "check_tree 1 sum_hash sample_objects capture_options_default (w_fs restore_world) empty_tree_id" by code_simp
  ultimately show ?thesis by (intro check_tree_complete [of 1]) simp
qed

lemma restore_sample_run:
  "case repo_restore sum_hash local_repo sample_pair (bstr ''hello'') restore_world of (r, w') \<Rightarrow>
     (case r of Inl _ \<Rightarrow> False | Inr res \<Rightarrow> rst_snapshot_id res = old_id \<and> rst_saved_snapshot res \<noteq> None) \<and>
     fs_get (w_fs w') [bstr ''w'', bstr ''a''] = None"
  by code_simp

theorem restore_keeps_work_witness:
  "case repo_restore sum_hash local_repo sample_pair (bstr ''hello'') restore_world of (r, w') \<Rightarrow>
     \<exists>res j. r = Ok res \<and> points_to (w_fs w') (cursor_path local_repo (BranchCursor branch_main)) old_id \<and>
       fs_get (w_fs w') [bstr ''w'', bstr ''a''] = None \<and> fs_get (w_fs restore_world) [bstr ''w'', bstr ''a''] = Some (FileNode [1, 2]) \<and>
       rst_saved_snapshot res \<noteq> None \<and> work_kept sum_hash capture_options_default local_repo old_id j (w_fs restore_world) (w_fs w')"
proof -
  let ?run = "repo_restore sum_hash local_repo sample_pair (bstr ''hello'') restore_world"
  obtain r w' where run: "?run = (r, w')" by fastforce
  from restore_sample_run [unfolded run] obtain res where res: "r = Ok res" "rst_snapshot_id res = old_id" "rst_saved_snapshot res \<noteq> None"
    and gone: "fs_get (w_fs w') [bstr ''w'', bstr ''a''] = None" by (auto split: sum.splits)
  have at: "fs_get (w_fs restore_world) [bstr ''w'', bstr ''a''] = Some (FileNode [1, 2])" by code_simp
  have same: "repo_store local_repo = sample_objects" "repo_root local_repo = sample_root" by (simp_all add: local_repo_def)
  have opts: "fm_options (ms_fm sample_state) = capture_options_default"
    by (simp add: sample_state_def fm_with_cache_path_def fm_with_options_and_cache_path_def)
  have hex: "complete_tree (site_of sum_hash mem_redb (repo_store local_repo) (repo_root local_repo) (sample_state\<lparr>ms_world := restore_world\<rparr>))
      (fm_options (ms_fm sample_state)) (w_fs restore_world) (snap_root (rs_snapshot y))"
    if "resolve_snapshot_target sum_hash local_repo (bstr ''hello'') restore_world = (Ok y, w1)" for y w1
    unfolding same opts by (rule restore_target_complete [OF that])
  have "points_to (w_fs w') (cursor_path local_repo (BranchCursor branch_main)) old_id \<and>
      work_kept sum_hash capture_options_default local_repo old_id (saved_target old_id (rst_saved_snapshot res)) (w_fs restore_world) (w_fs w')"
    using restore_keeps_work [where ?blake3.0 = sum_hash and db = mem_redb and repo = local_repo and target = "bstr ''hello''",
        OF restore_world_ready hex run [unfolded sample_pair_def]] res(1,2) opts by simp
  then show ?thesis unfolding run using res gone at by auto
qed

end
