(* ===== verification/Spec2Isabelle.thy ===== *)
theory Spec2Isabelle
  imports Store_Properties Merge_Properties Lock_Properties Timeline_Properties Materialize_Properties
    Cli_Properties Watch_Properties Repo_Restore
begin

text \<open>
  A verification of Era, a snapshot-based version control system written in Rust.

  \<^bold>\<open>The program.\<close> Era keeps content-addressed objects (blobs, trees, snapshots) in a store below
  \<open>.era/objects\<close>, and mutable pointers to snapshots (HEAD, branch refs, workspace refs, a snapshot index) as small
  text files below \<open>.era\<close>. A materializer turns a working directory into a tree of the store and back. The
  repository composes the three: it captures the directory, stores a snapshot whose parent is what the cursor (the
  branch of HEAD, or the ref of a workspace) points to, and moves the cursor under a lock. The program \<open>era\<close> runs
  these operations as commands, draws the graph of snapshots, and watches a directory to record its changes. A merge
  engine, which the repository does not call yet, merges three versions of a file by lines. The crates are \<open>core\<close>, \<open>object-store\<close>,
  \<open>materialization\<close>, \<open>merge\<close>, \<open>repository\<close> and \<open>cli\<close>, under \<open>src/crates\<close>.

  \<^bold>\<open>The theories.\<close>
  \<^item> \<open>Era_Prelude\<close>: bytes, Rust strings, results, big-endian integers, UTF-8, and the lemmas the components share.
  \<^item> \<open>Byte_Cursor\<close>: the cursor of the binary decoders; the locale \<open>byte_reader\<close> states what \<open>read_exact\<close> promises and
    is interpreted on the readers of trees, snapshots and deltas.
  \<^item> \<open>Object_Id\<close>, \<open>Era_Tree\<close>, \<open>Era_Snapshot\<close>: the crate \<open>core\<close> (\<open>object_id.rs\<close>, \<open>object_kind.rs\<close>, \<open>tree.rs\<close>,
    \<open>snapshot.rs\<close>): data, validation, and the canonical encodings with every decoding error. The parsers of
    identifiers, trees and snapshots accept exactly the spellings their printers produce.
  \<^item> \<open>Blob_Delta\<close>: \<open>object-store/src/blob_delta.rs\<close>. A created delta reconstructs its target, is smaller, and keeps
    the depth limit; a decoded delta is the one that was encoded.
  \<^item> \<open>File_System\<close>: the part of \<open>std::fs\<close> and \<open>tokio::fs\<close> in use, with worlds, scripts of events, and the assertions
    \<open>hoare\<close> over all runs.
  \<^item> \<open>Object_Store\<close>, \<open>Store_Contract\<close>, \<open>Store_Properties\<close>: \<open>object-store/src/local.rs\<close>, \<open>lib.rs\<close>, \<open>error.rs\<close>. Every
    method of \<open>LocalObjectStore\<close>; the trait as the locale \<open>object_store\<close> over an abstract content relation,
    interpreted on the local store; safety of every history, integrity of reads, put then get, success of puts in
    a quiet world, and the listing of snapshots.
  \<^item> \<open>Line_Diff\<close>, \<open>Diff_Correctness\<close>, \<open>Era_Merge\<close>, \<open>Merge_Correctness\<close>, \<open>Merge_Properties\<close>: \<open>merge/src/lib.rs\<close>. The
    patience diff with its table for the gaps, the edit regions, the merge loop and the engine. The table is
    optimal, applying the edits of a side gives that side, every merge is explained by pieces that spell out its
    three inputs, edits that keep apart do not conflict, and exchanging the sides exchanges the result.
  \<^item> \<open>Era_Names\<close>: \<open>repository/src/branch.rs\<close> and \<open>workspace.rs\<close>: names, their validation, the pointer file.
  \<^item> \<open>Materializer\<close>: \<open>materialization/src/capture.rs\<close>, \<open>error.rs\<close>, \<open>working_directory.rs\<close>: options, results, errors and
    the trait \<open>Materializer\<close>, a record of its methods.
  \<^item> \<open>Capture_Cache\<close>, \<open>Cache_Records\<close>: \<open>materialization/src/capture_cache.rs\<close>: the cache of file hashes and directory
    trees, its operations, and the binary format of its records, which decode to what was encoded.
  \<^item> \<open>Filesystem_Materializer\<close>: \<open>materialization/src/filesystem.rs\<close>: every method of \<open>FilesystemMaterializer\<close> but
    \<open>watch\<close>, over one state with the world, the databases, the cache and the counters.
  \<^item> \<open>Cache_Validity\<close>, \<open>Store_Frames\<close>, \<open>Directory_Trees\<close>: what the methods need: records of a cache that are right, and
    that every cache operation keeps them right; which files the object store touches; the relation \<open>dir_tree\<close>,
    an inductive specification of the tree of a directory that mentions no cache and no order of visits.
  \<^item> \<open>Capture_Logic\<close>, \<open>Capture_Correctness\<close>, \<open>Compare_Correctness\<close>, \<open>Capture_Properties\<close>: assertions over all runs
    of a capture, the correctness of its functions, and of a scan and a comparison, against \<open>dir_tree\<close>.
  \<^item> \<open>Materialize_Logic\<close>, \<open>Materialize_Correctness\<close>, \<open>Materialize_Walk\<close>, \<open>Materialize_Properties\<close>: the same for the
    checkout, which changes the working directory while it keeps the cache right; a checkout gives its tree
    exactly, and a capture after it gives the tree back.
  \<^item> \<open>Era_Refs\<close>, \<open>Ref_Writes\<close>, \<open>Ref_Contract\<close>, \<open>Ref_Properties\<close>, \<open>Lock_Properties\<close>: \<open>repository/src/refs.rs\<close> and
    \<open>error.rs\<close>. Layout, parsing, atomic replacement and creation of text files, refs, index, workspace records and
    the metadata lock. The locale \<open>ref_family\<close> says that a family of refs is a map from keys to snapshots, whatever
    fails; branch refs and workspace refs interpret it. A held lock that is not stale is not handed out
    again, and an acquisition reports a timeout only after its limit.
  \<^item> \<open>Era_Repository\<close>, \<open>Repo_Frames\<close>, \<open>Repo_Steps\<close>, \<open>Repo_Properties\<close>, \<open>Timeline_Properties\<close>:
    \<open>repository/src/repository.rs\<close>. Every operation of \<open>Repository\<close>. Recording a snapshot moves the cursor to a
    stored child of its old target or leaves it; the automatic recording stores a snapshot only for a changed tree; the timeline is
    the chain of first parents; a target resolves to its only match.

  \<^item> \<open>Capture_Safety\<close>, \<open>Repo_Captures\<close>: the materializer of the file system under the repository. Every capture, with
    hints or without, keeps the law that the repository asks for; a snapshot then records the tree of the working
    directory as it is.
  \<^item> \<open>Repo_Keeps\<close>, \<open>Repo_Work\<close>, \<open>Repo_Restore\<close>: a whole restore. What the steps of the repository leave alone, the
    working directory between the steps, and the composition: resolving the target, saving what the directory holds,
    the checkout, and moving the ref. A restore loses nothing that was in the working directory.
  \<^item> \<open>Cli_Output\<close>, \<open>Forest\<close>, \<open>Cli_Timeline\<close>, \<open>Timeline_Rendering\<close>: \<open>cli/src/main.rs\<close>, what the commands print, a
    function to a list of lines, and the drawing of the snapshot graph. The locale \<open>forest\<close> says when a walk down a
    set of nodes with parents is complete and without repetition; the maps of the renderer interpret it, so the
    drawing shows every snapshot once.
  \<^item> \<open>Cli_Commands\<close>, \<open>Error_Display\<close>, \<open>Cli_Properties\<close>, \<open>Watch_Properties\<close>: the commands, the loop of \<open>era watch\<close> with
    the callback of \<open>materialization/src/watch.rs\<close>, the texts of all errors, and \<open>main\<close>. The program never panics; a
    watch session keeps the history and loses no change.

  \<^bold>\<open>State, failures and interleavings.\<close> A Rust method with effects is a function from a world to a result and a
  world. Each system call takes one event from the world's script: nothing, a failure with part of the effect done,
  or a file published by another process just before the call. Theorems over \<open>hoare\<close> quantify over the script and
  the rely condition that bounds the publications, so they hold for every failure, for a crash (a script that ends
  in failures) and for every interleaving with such publications. \<open>quiet\<close> worlds have no events left; success is
  claimed for them. Time is in milliseconds: a sleep lasts at least as long as asked and as much longer as the
  world's jitter says; ages of files and the time of day are answers the world supplies, failures included.

  \<^bold>\<open>Parameters.\<close> BLAKE3 is the argument \<open>blake3\<close>; theorems that need it say that its results have 32 bytes
  (\<open>hash_ok\<close>), and none assumes that it is injective. The materializer is an argument of the operations that call
  one; what they need of a capture is the hypothesis \<open>capture_law\<close>. The database library \<open>redb\<close> below the capture
  cache is a record of its calls over an abstract state; the theorems ask that what an opened database holds is right
  (\<open>opens_right\<close>), and nothing of what it does when it fails. A record of a file is right when the file at that path,
  if its fingerprint is the recorded one, has the recorded hash, and a record that claims to be stored names an object
  of the store. The fingerprint is a stamp that the world gives each file; a write may leave the stamp as it was, as a
  coarse clock does. \<open>capture_ok\<close> and \<open>checkout_ok\<close> say that the cache and its database start right and that other
  processes publish only below the metadata directory. For the program, the terminal, the local time, the current
  directory, the texts of the standard library's errors, and the materializers are parameters; what the watch loop
  waits for (events of the \<open>notify\<close> library, timers, signals) is a list of inputs, in any order.

  \<^bold>\<open>Bounds and termination.\<close> Words keep their width: \<open>u32\<close> and \<open>u64\<close> are words, a \<open>usize\<close> is a natural number with the
  64-bit limit written out where the code checks or wraps. Reading a delta chain recurses on the remaining depth,
  16 at most (\<open>MAX_DELTA_CHAIN_DEPTH\<close>), as in the source; a temporary name is tried 16 times, as in the source. The
  patience recursion ends because every gap between anchors is smaller; the merge loop because every turn consumes
  an edit; \<open>acquire_loop\<close> because each poll advances the clock towards the deadline; \<open>timeline_loop\<close> because each turn
  reads a snapshot not seen before, of which a file system has finitely many. None of these uses fuel that the
  source does not have. The recursions over directories and stored trees of \<open>filesystem.rs\<close> have a budget, one
  more than the number of files and directories there are; a nested directory has strictly fewer files, and the
  theorems show the results of calls that return, with the successful runs evaluated in the witnesses.

  The walk that draws the snapshot graph has as much fuel as there are snapshots, and the theorems show that it is
  enough. The watch loop may run for ever; its theorems hold after every finite list of inputs.

  \<^bold>\<open>Not modelled.\<close> Argument parsing (the \<open>clap\<close> attributes of \<open>cli/src/main.rs\<close>), log messages, the \<open>source()\<close> chains of the
  errors, and the thread and the channel that carry notifications. Paths are absolute and free of symbolic
  links, so \<open>canonicalize\<close> of an existing path is the path. The methods of a materializer are functions of the world,
  so a command that calls several starts each with the same cache; the theorems hold for every cache that is right.

  \<^bold>\<open>Not proved.\<close> A capture with hints is shown to be safe, not to give the tree of the directory, which depends on the hints
  being complete. That saving the cache keeps its records right is not shown, so a restore, which captures and then checks
  out, asks that the records of the cache are right at both calls (\<open>restore_ready\<close>); that the tree of its target is complete in
  the store is a hypothesis too, as for every checkout. Creating and switching branches and adding workspaces are
  modelled in full; their parts (captures, snapshots, checkouts, refs, locks) have theorems, the compositions have none.
\<close>

end
